(* ===== verification/Prelude.thy ===== *)
theory Prelude
  imports Main "HOL-Library.Word" "HOL-Library.Monad_Syntax"
begin

unbundle bit_operations_syntax

text \<open>
  Shared vocabulary of the development: the machine integers of the Rust sources, the parts of
  the Rust core library and of \<open>heapless\<close> that the stack uses (little-endian byte
  conversion, slicing, copying into arrays, bounded queues), and the generic lemmas on
  lists, options and words that the component theories share.

  A Rust \<open>usize\<close> is a \<^typ>\<open>nat\<close>, the other integers keep their width. A Rust panic
  (an out-of-range slice, a checked subtraction that underflows, an \<open>unwrap\<close> on
  \<open>None\<close>, a failed \<open>assert!\<close>) is \<^term>\<open>None\<close> in the option monad, so a function
  whose model returns \<open>Some\<close> does not panic.
\<close>

named_theorems rust_simps \<open>panic-freedom of the slice and array primitives\<close>
named_theorems frame_simps \<open>layout of the protocol frames\<close>
named_theorems node_simps \<open>projections of the node state through its operations\<close>

type_synonym u8 = "8 word"
type_synonym u16 = "16 word"
type_synonym u32 = "32 word"
type_synonym u64 = "64 word"
type_synonym usize = nat
type_synonym bytes = "8 word list"

section \<open>Slices, arrays and checked arithmetic\<close>

text \<open>\<open>&xs[i..j]\<close>: panics unless \<open>i \<le> j \<le> len\<close>.\<close>

definition slice :: "'a list \<Rightarrow> nat \<Rightarrow> nat \<Rightarrow> 'a list option" where
  "slice xs i j = (if i \<le> j \<and> j \<le> length xs then Some (take (j - i) (drop i xs)) else None)"

text \<open>\<open>dst[i..i + src.len()].copy_from_slice(src)\<close>: panics when the range leaves the array.\<close>

definition overwrite :: "'a list \<Rightarrow> nat \<Rightarrow> 'a list \<Rightarrow> 'a list" where
  "overwrite dst i src = take i dst @ src @ drop (i + length src) dst"

definition copy_from_slice :: "'a list \<Rightarrow> nat \<Rightarrow> 'a list \<Rightarrow> 'a list option" where
  "copy_from_slice dst i src =
     (if i + length src \<le> length dst then Some (overwrite dst i src) else None)"

text \<open>A \<open>usize\<close> subtraction, which panics on underflow in a debug build.\<close>

definition sub_usize :: "nat \<Rightarrow> nat \<Rightarrow> nat option" where
  "sub_usize a b = (if b \<le> a then Some (a - b) else None)"

definition assert_that :: "bool \<Rightarrow> unit option" where
  "assert_that P = (if P then Some () else None)"

lemma slice_eq [rust_simps]:
  "i \<le> j \<Longrightarrow> j \<le> length xs \<Longrightarrow> slice xs i j = Some (take (j - i) (drop i xs))"
  by (simp add: slice_def)

lemma slice_Some_length: "slice xs i j = Some ys \<Longrightarrow> length ys = j - i"
  by (auto simp: slice_def split: if_splits)

lemma copy_from_slice_eq [rust_simps]:
  "i + length src \<le> length dst \<Longrightarrow> copy_from_slice dst i src = Some (overwrite dst i src)"
  by (simp add: copy_from_slice_def)

lemma sub_usize_eq [rust_simps]: "b \<le> a \<Longrightarrow> sub_usize a b = Some (a - b)"
  by (simp add: sub_usize_def)

lemma assert_that_eq [rust_simps]: "P \<Longrightarrow> assert_that P = Some ()"
  by (simp add: assert_that_def)

lemma length_overwrite [simp]:
  "i + length src \<le> length dst \<Longrightarrow> length (overwrite dst i src) = length dst"
  by (simp add: overwrite_def)

lemma overwrite_Nil [simp]: "i \<le> length dst \<Longrightarrow> overwrite dst i [] = dst"
  by (simp add: overwrite_def)

lemma nth_overwrite:
  "i + length src \<le> length dst \<Longrightarrow> k < length dst \<Longrightarrow>
   overwrite dst i src ! k = (if i \<le> k \<and> k < i + length src then src ! (k - i) else dst ! k)"
  by (auto simp: overwrite_def nth_append)

lemma take_overwrite:
  "i + length src \<le> length dst \<Longrightarrow> take (i + length src) (overwrite dst i src) = take i dst @ src"
  by (simp add: overwrite_def)

lemma take_overwrite_0 [simp]: "take (length src) (overwrite dst 0 src) = src"
  by (simp add: overwrite_def)

section \<open>Little-endian conversion\<close>

text \<open>\<open>w.to_le_bytes()\<close> of an \<open>n\<close>-byte integer and \<open>from_le_bytes\<close>.\<close>

definition to_le_bytes :: "nat \<Rightarrow> 'a::len word \<Rightarrow> bytes" where
  "to_le_bytes n w = map (\<lambda>i. ucast (drop_bit (8 * i) w)) [0..<n]"

fun from_le_bytes :: "bytes \<Rightarrow> 'a::len word" where
  "from_le_bytes [] = 0"
| "from_le_bytes (b # bs) = ucast b OR push_bit 8 (from_le_bytes bs)"

lemma length_to_le_bytes [simp]: "length (to_le_bytes n w) = n"
  by (simp add: to_le_bytes_def)

lemma bit_from_le_bytes:
  "bit (from_le_bytes bs :: 'a::len word) k \<longleftrightarrow>
     k < LENGTH('a) \<and> k < 8 * length bs \<and> bit (bs ! (k div 8)) (k mod 8)"
proof (induction bs arbitrary: k)
  case Nil
  then show ?case by simp
next
  case (Cons b bs)
  show ?case
  proof (cases "k < 8")
    case True
    then show ?thesis
      by (auto simp: bit_or_iff bit_push_bit_iff bit_unsigned_iff)
  next
    case False
    then obtain j where k: "k = j + 8" by (metis add.commute le_Suc_ex not_less)
    have "\<not> bit b k" using False by (simp add: bit_word.rep_eq flip: not_less)
    moreover have "(j + 8) div 8 = Suc (j div 8)" by simp
    ultimately show ?thesis using Cons [of j]
      by (simp add: k bit_or_iff bit_push_bit_iff bit_unsigned_iff) auto
  qed
qed

lemma bit_to_le_bytes:
  "i < n \<Longrightarrow> bit (to_le_bytes n w ! i) k \<longleftrightarrow> k < 8 \<and> bit w (8 * i + k)"
  by (auto simp: to_le_bytes_def bit_unsigned_iff bit_drop_bit_eq)

lemma from_le_to_le:
  fixes w :: "'a::len word"
  assumes "LENGTH('a) \<le> 8 * n"
  shows "from_le_bytes (to_le_bytes n w) = w"
proof (rule bit_eqI)
  fix k
  assume "possible_bit TYPE('a word) k"
  then have k: "k < LENGTH('a)" by simp
  then have "k div 8 < n" using assms by linarith
  then show "bit (from_le_bytes (to_le_bytes n w) :: 'a word) k \<longleftrightarrow> bit w k"
    using k assms by (auto simp: bit_from_le_bytes bit_to_le_bytes)
qed

lemma to_le_from_le:
  assumes "8 * length bs \<le> LENGTH('a::len)"
  shows "to_le_bytes (length bs) (from_le_bytes bs :: 'a word) = bs"
proof (rule nth_equalityI)
  fix i
  assume "i < length (to_le_bytes (length bs) (from_le_bytes bs :: 'a word))"
  then have i: "i < length bs" by simp
  show "to_le_bytes (length bs) (from_le_bytes bs :: 'a word) ! i = bs ! i"
  proof (rule bit_eqI)
    fix k
    assume "possible_bit TYPE(8 word) k"
    then have "k < 8" by simp
    moreover then have "8 * i + k < 8 * length bs" using i by linarith
    ultimately show "bit (to_le_bytes (length bs) (from_le_bytes bs :: 'a word) ! i) k \<longleftrightarrow> bit (bs ! i) k"
      using i assms by (auto simp: bit_to_le_bytes bit_from_le_bytes)
  qed
qed simp

section \<open>Widening and narrowing casts\<close>

lemma unat_ucast_up:
  fixes w :: "'a::len word"
  shows "LENGTH('a) \<le> LENGTH('b::len) \<Longrightarrow> unat (ucast w :: 'b word) = unat w"
proof -
  assume "LENGTH('a) \<le> LENGTH('b)"
  then have "(2::nat) ^ LENGTH('a) \<le> 2 ^ LENGTH('b)" by (rule power_increasing) simp
  then have "unat w < 2 ^ LENGTH('b)" using unsigned_less [of w] by (rule less_le_trans [rotated])
  then show ?thesis by (simp add: unsigned_ucast_eq take_bit_nat_eq_self)
qed

lemma ucast_ucast_up:
  fixes w :: "'a::len word"
  shows "LENGTH('a) \<le> LENGTH('b::len) \<Longrightarrow> ucast (ucast w :: 'b word) = w"
  by (rule bit_eqI) (auto simp: bit_unsigned_iff bit_imp_le_length dest: bit_imp_le_length)

lemma ucast_u8_u16_id [simp]: "ucast (ucast (b :: u8) :: u16) = b"
  by (simp add: ucast_ucast_up)

lemma unat_ucast_u8_u16 [simp]: "unat (ucast (b :: u8) :: u16) = unat b"
  by (simp add: unat_ucast_up)

lemma and_not_zero:
  fixes x m :: "'a::len word"
  assumes "x AND NOT m = 0"
  shows "x AND m = x"
proof (rule bit_eqI)
  fix n
  assume "possible_bit TYPE('a word) n"
  moreover have "\<not> bit (x AND NOT m) n" by (simp add: assms)
  ultimately show "bit (x AND m) n \<longleftrightarrow> bit x n"
    by (auto simp: bit_and_iff bit_not_iff)
qed

lemma and_exp: "x AND 2 ^ k = (if bit x k then 2 ^ k else 0)" for x :: "'a::len word"
  by (auto intro!: bit_eqI simp: bit_and_iff bit_exp_iff)

lemma ucast_ucast_and_mask:
  fixes x :: "'a::len word"
  assumes "n \<le> LENGTH('b::len)"
  shows "ucast (ucast (x AND mask n) :: 'b word) = x AND mask n"
  using assms by (auto intro!: bit_eqI simp: bit_and_iff bit_unsigned_iff bit_mask_iff
      dest: bit_imp_le_length)

section \<open>Bit fields of a byte\<close>

lemma and_7_le: "unat (x AND 7 :: u8) \<le> 7"
  using word_and_le1 [of x 7] by (simp add: word_le_nat_alt)
lemma and_3_le: "unat (x AND 3 :: u8) \<le> 3"
  using word_and_le1 [of x 3] by (simp add: word_le_nat_alt)
lemma and_7F_le: "x AND 0x7F \<le> (0x7F :: u8)"
  by (rule word_and_le1)

lemma and_mask7:
  fixes x :: u8
  assumes "x \<le> 127"
  shows "x AND 0x7F = x" "(x OR 0x80) AND 0x7F = x"
proof -
  have "unat x < 2 ^ 7" using assms by (simp add: word_le_nat_alt)
  then have "unat (take_bit 7 x) = unat x"
    by (subst unsigned_take_bit_eq) (simp add: take_bit_nat_eq_self)
  then have "take_bit 7 x = x" by (simp add: word_unat_eq_iff)
  then show "x AND 0x7F = x" by (simp add: take_bit_eq_mask mask_eq_exp_minus_1)
  then show "(x OR 0x80) AND 0x7F = x" by (simp add: bit.conj_disj_distrib2)
qed

lemma unat_Suc_lt: "x < (y :: u8) \<Longrightarrow> unat (x + 1) = unat x + 1"
proof -
  assume "x < y"
  moreover have "unat y < 2 ^ 8" by (rule order.strict_trans2 [OF unsigned_less]) simp
  ultimately show ?thesis by (simp add: word_less_nat_alt unat_word_ariths)
qed

section \<open>Loops\<close>

text \<open>\<open>for x in xs { s = f(x, s) }\<close> with a body that may panic.\<close>

fun for_each :: "('a \<Rightarrow> 's \<Rightarrow> 's option) \<Rightarrow> 'a list \<Rightarrow> 's \<Rightarrow> 's option" where
  "for_each f [] s = Some s"
| "for_each f (x # xs) s = Option.bind (f x s) (for_each f xs)"

lemma for_each_inv:
  assumes "\<And>x s. x \<in> set xs \<Longrightarrow> I s \<Longrightarrow> \<exists>s'. f x s = Some s' \<and> I s'" and "I s"
  shows "\<exists>s'. for_each f xs s = Some s' \<and> I s'"
  using assms
proof (induction xs arbitrary: s)
  case (Cons x xs)
  then obtain s1 where "f x s = Some s1" "I s1" by (metis list.set_intros(1))
  with Cons show ?case by (metis bind.bind_lunit for_each.simps(2) list.set_intros(2))
qed simp

lemma for_each_append:
  "for_each f (xs @ ys) s = Option.bind (for_each f xs s) (for_each f ys)"
  by (induction xs arbitrary: s) (auto split: bind_split)

text \<open>A loop over \<open>0..n\<close> by an invariant indexed with the iteration.\<close>

lemma for_each_upt:
  assumes "P 0 s" and "\<And>i s. i < n \<Longrightarrow> P i s \<Longrightarrow> \<exists>s'. f i s = Some s' \<and> P (Suc i) s'"
  shows "\<exists>s'. for_each f [0..<n] s = Some s' \<and> P n s'"
  using assms
proof (induction n)
  case (Suc n)
  then obtain s1 where "for_each f [0..<n] s = Some s1" "P n s1" by (metis less_Suc_eq)
  with Suc.prems(2) [of n s1] show ?case by (auto simp: for_each_append)
qed simp

lemma for_each_total: "for_each (\<lambda>x s. Some (f x s)) xs s = Some (fold f xs s)"
  by (induction xs arbitrary: s) auto

section \<open>Bounded queues of \<open>heapless\<close>\<close>

text \<open>
  A \<open>Deque<T, N>\<close> or \<open>Vec<T, N>\<close> is a list with at most \<open>N\<close> elements; pushing
  onto a full one returns the element and leaves the queue as it is.
\<close>

definition push_back :: "nat \<Rightarrow> 'a list \<Rightarrow> 'a \<Rightarrow> 'a list" where
  "push_back N q x = (if length q < N then q @ [x] else q)"

text \<open>The drop-oldest idiom: \<open>if is_full { pop_front } push_back\<close>.\<close>

definition push_evict :: "nat \<Rightarrow> 'a list \<Rightarrow> 'a \<Rightarrow> 'a list" where
  "push_evict N q x = push_back N (if length q \<ge> N then drop 1 q else q) x"

lemma length_push_back: "length q \<le> N \<Longrightarrow> length (push_back N q x) \<le> N"
  by (simp add: push_back_def)

lemma length_push_evict: "length q \<le> N \<Longrightarrow> length (push_evict N q x) \<le> N"
  by (cases q) (auto simp: push_evict_def push_back_def)

lemma push_evict_last: "0 < N \<Longrightarrow> length q \<le> N \<Longrightarrow> push_evict N q x \<noteq> [] \<and> last (push_evict N q x) = x"
  by (cases q) (auto simp: push_evict_def push_back_def)

text \<open>\<open>u32::saturating_add\<close>.\<close>

definition saturating_add :: "'a::len word \<Rightarrow> 'a word \<Rightarrow> 'a word" where
  "saturating_add a b = (if unat a + unat b < 2 ^ LENGTH('a) then a + b else - 1)"

end
