(* ===== verification/Can_Transport.thy ===== *)
theory Can_Transport
  imports Prelude
begin

text \<open>
  The CAN frame and the mailbox transport of \<open>canopen-core/src/transport.rs\<close>, and the
  interface \<open>embedded_can::nb::Can\<close> through which the node talks to any transport.
\<close>

section \<open>CAN frames\<close>

text \<open>\<open>CanFrame\<close>: 11-bit identifier, length code, and an eight-byte array.\<close>

record can_frame =
  cf_id :: u16
  cf_dlc :: u8
  cf_data :: bytes

definition can_frame_new :: "u16 \<Rightarrow> bytes \<Rightarrow> can_frame option" where
  "can_frame_new i data =
     (if i > 0x7FF \<or> length data > 8 then None
      else Some \<lparr>cf_id = i, cf_dlc = of_nat (length data),
                 cf_data = overwrite (replicate 8 0) 0 data\<rparr>)"

definition raw_id :: "can_frame \<Rightarrow> u16" where "raw_id f = cf_id f"
definition raw_dlc :: "can_frame \<Rightarrow> u8" where "raw_dlc f = cf_dlc f"

text \<open>\<open>&self.data[..self.dlc as usize]\<close>; the slice is in range for every constructed frame.\<close>

definition frame_data :: "can_frame \<Rightarrow> bytes" where
  "frame_data f = take (unat (cf_dlc f)) (cf_data f)"

text \<open>What the constructor guarantees of every frame (the fields are private).\<close>

definition wf_frame :: "can_frame \<Rightarrow> bool" where
  "wf_frame f \<longleftrightarrow> cf_id f \<le> 0x7FF \<and> unat (cf_dlc f) \<le> 8 \<and> length (cf_data f) = 8"

lemma can_frame_new_Some [frame_simps]:
  "i \<le> 0x7FF \<Longrightarrow> length data \<le> 8 \<Longrightarrow>
   can_frame_new i data = Some \<lparr>cf_id = i, cf_dlc = of_nat (length data),
     cf_data = overwrite (replicate 8 0) 0 data\<rparr>"
  by (auto simp: can_frame_new_def not_less)

lemma can_frame_new_raw_id: "can_frame_new i data = Some f \<Longrightarrow> raw_id f = i"
  by (auto simp: can_frame_new_def raw_id_def split: if_splits)

lemma unat_of_nat_small: "n \<le> 8 \<Longrightarrow> unat (of_nat n :: u8) = n"
  by (simp add: unat_of_nat)

lemma can_frame_new_raw_dlc: "can_frame_new i data = Some f \<Longrightarrow> unat (raw_dlc f) = length data"
  by (auto simp: can_frame_new_def raw_dlc_def unat_of_nat_small split: if_splits)

lemma can_frame_new_data: "can_frame_new i data = Some f \<Longrightarrow> frame_data f = data"
  by (auto simp: can_frame_new_def frame_data_def unat_of_nat_small split: if_splits)

lemma can_frame_new_wf: "can_frame_new i data = Some f \<Longrightarrow> wf_frame f"
  by (auto simp: can_frame_new_def wf_frame_def unat_of_nat_small split: if_splits)

lemma length_frame_data: "wf_frame f \<Longrightarrow> length (frame_data f) = unat (raw_dlc f)"
  by (simp add: wf_frame_def frame_data_def raw_dlc_def)

section \<open>The \<open>nb::Can\<close> interface\<close>

datatype can_error = TxBufferFull | BusError
datatype nb_error = WouldBlock | OtherError can_error

text \<open>
  A transport is a state together with \<open>transmit\<close> and \<open>receive\<close>, the two methods
  of \<open>embedded_can::nb::Can\<close> that the stack calls.
\<close>

record 't can_ops =
  can_transmit :: "'t \<Rightarrow> can_frame \<Rightarrow> (nb_error + can_frame option) \<times> 't"
  can_receive :: "'t \<Rightarrow> (nb_error + can_frame) \<times> 't"

definition is_ok :: "'e + 'a \<Rightarrow> bool" where
  "is_ok r = (case r of Inl _ \<Rightarrow> False | Inr _ \<Rightarrow> True)"

lemma is_ok_simps [simp]: "is_ok (Inr x)" "\<not> is_ok (Inl e)"
  by (simp_all add: is_ok_def)

lemma is_ok_E: "is_ok r \<Longrightarrow> (\<And>x. r = Inr x \<Longrightarrow> P) \<Longrightarrow> P"
  by (cases r) auto

section \<open>The mailbox transport\<close>

text \<open>\<open>MailboxTransport<TX, RX>\<close>: two bounded queues shared between driver and protocol.\<close>

record mailbox =
  tx_queue :: "can_frame list"
  rx_queue :: "can_frame list"

definition mailbox_new :: mailbox where
  "mailbox_new = \<lparr>tx_queue = [], rx_queue = []\<rparr>"

definition store_received :: "nat \<Rightarrow> mailbox \<Rightarrow> can_frame \<Rightarrow> (can_frame + unit) \<times> mailbox" where
  "store_received RX m f =
     (if length (rx_queue m) < RX then (Inr (), m\<lparr>rx_queue := rx_queue m @ [f]\<rparr>)
      else (Inl f, m))"

definition next_to_transmit :: "mailbox \<Rightarrow> can_frame option \<times> mailbox" where
  "next_to_transmit m =
     (case tx_queue m of [] \<Rightarrow> (None, m) | f # fs \<Rightarrow> (Some f, m\<lparr>tx_queue := fs\<rparr>))"

definition mailbox_transmit ::
  "nat \<Rightarrow> mailbox \<Rightarrow> can_frame \<Rightarrow> (nb_error + can_frame option) \<times> mailbox" where
  "mailbox_transmit TX m f =
     (if length (tx_queue m) < TX then (Inr None, m\<lparr>tx_queue := tx_queue m @ [f]\<rparr>)
      else (Inl WouldBlock, m))"

definition mailbox_receive :: "mailbox \<Rightarrow> (nb_error + can_frame) \<times> mailbox" where
  "mailbox_receive m =
     (case rx_queue m of [] \<Rightarrow> (Inl WouldBlock, m) | f # fs \<Rightarrow> (Inr f, m\<lparr>rx_queue := fs\<rparr>))"

definition mailbox_ops :: "nat \<Rightarrow> mailbox can_ops" where
  "mailbox_ops TX = \<lparr>can_transmit = mailbox_transmit TX, can_receive = mailbox_receive\<rparr>"

section \<open>What the node relies on\<close>

text \<open>
  The contract of a transport: \<open>backlog\<close> is the sequence of frames that \<open>receive\<close>
  will hand out, \<open>sent\<close> the sequence of frames accepted for transmission. Receiving
  takes the front of the backlog and does not disturb what was sent; transmitting either
  appends the frame to the sent sequence or refuses it and changes nothing.
\<close>

locale can_transport =
  fixes ops :: "'t can_ops"
    and backlog :: "'t \<Rightarrow> can_frame list"
    and sent :: "'t \<Rightarrow> can_frame list"
    and inv :: "'t \<Rightarrow> bool"
  assumes receive_frame: "inv t \<Longrightarrow> backlog t = f # fs \<Longrightarrow>
      \<exists>t'. can_receive ops t = (Inr f, t') \<and> inv t' \<and> backlog t' = fs \<and> sent t' = sent t"
    and receive_empty: "inv t \<Longrightarrow> backlog t = [] \<Longrightarrow>
      \<exists>e t'. can_receive ops t = (Inl e, t') \<and> inv t' \<and> backlog t' = [] \<and> sent t' = sent t"
    and transmit_step: "inv t \<Longrightarrow> can_transmit ops t f = (r, t') \<Longrightarrow>
      inv t' \<and> backlog t' = backlog t \<and> sent t' = (if is_ok r then sent t @ [f] else sent t)"
begin

lemma receive_ok_backlog:
  "inv t \<Longrightarrow> can_receive ops t = (Inr f, t') \<Longrightarrow> backlog t = f # backlog t' \<and> inv t'"
  using receive_frame [of t] receive_empty [of t]
  by (cases "backlog t") fastforce+

lemma receive_err_backlog:
  "inv t \<Longrightarrow> can_receive ops t = (Inl e, t') \<Longrightarrow> backlog t = [] \<and> backlog t' = [] \<and> inv t'"
  using receive_frame [of t] receive_empty [of t]
  by (cases "backlog t") fastforce+

end

definition mailbox_inv :: "nat \<Rightarrow> mailbox \<Rightarrow> bool" where
  "mailbox_inv TX m \<longleftrightarrow> length (tx_queue m) \<le> TX"

interpretation mbox: can_transport "mailbox_ops TX" rx_queue tx_queue "mailbox_inv TX"
  for TX :: nat
  by unfold_locales
    (auto simp: mailbox_ops_def mailbox_receive_def mailbox_transmit_def mailbox_inv_def
      split: if_splits)

text \<open>Storing on the driver side and receiving on the protocol side is first-in first-out.\<close>

lemma mailbox_fifo:
  assumes "length (rx_queue m) < RX" and "store_received RX m f = (r, m')"
  shows "r = Inr () \<and> rx_queue m' = rx_queue m @ [f]"
  using assms by (auto simp: store_received_def)

end
