(* ===== verification/Cob_Id.thy ===== *)
theory Cob_Id
  imports Can_Transport
begin

text \<open>
  Node identifiers and 11-bit COB-IDs: \<open>canopen-core/src/cobid.rs\<close>, and \<open>PdoNumber\<close> of
  \<open>canopen-core/src/pdo/engine.rs\<close>, which the COB-ID constructors take.
\<close>

section \<open>Identifiers\<close>

datatype node_id = NodeId (node_raw: u8)

definition node_id_new :: "u8 \<Rightarrow> node_id option" where
  "node_id_new i = (if i \<ge> 1 \<and> i \<le> 127 then Some (NodeId i) else None)"

text \<open>The range every \<open>NodeId\<close> value has, since its field is private.\<close>

definition wf_node :: "node_id \<Rightarrow> bool" where
  "wf_node n \<longleftrightarrow> 1 \<le> node_raw n \<and> node_raw n \<le> 127"

datatype cob_id = CobId (cob_raw: u16)

definition cob_id_new :: "u16 \<Rightarrow> cob_id option" where
  "cob_id_new raw = (if raw \<le> 0x7FF then Some (CobId raw) else None)"

datatype pdo_number = PdoNumber (pdo_raw: u16)

definition pdo_number_new :: "u16 \<Rightarrow> pdo_number option" where
  "pdo_number_new n = (if n \<ge> 1 \<and> n \<le> 512 then Some (PdoNumber n) else None)"

definition wf_pdo_number :: "pdo_number \<Rightarrow> bool" where
  "wf_pdo_number n \<longleftrightarrow> 1 \<le> pdo_raw n \<and> pdo_raw n \<le> 512"

text \<open>\<open>PdoNumber::od_offset\<close>.\<close>

definition od_offset :: "pdo_number \<Rightarrow> u16" where
  "od_offset n = pdo_raw n - 1"

section \<open>Interpretation of a COB-ID\<close>

datatype parsed_cob_id =
    Nmt
  | Sync
  | Emergency node_id
  | Tpdo (tpdo_num: u8) (tpdo_node: node_id)
  | Rpdo (rpdo_num: u8) (rpdo_node: node_id)
  | SdoResponse node_id
  | SdoRequest node_id
  | Heartbeat node_id
  | Unknown u16

definition or_unknown :: "u16 \<Rightarrow> (node_id \<Rightarrow> parsed_cob_id) \<Rightarrow> node_id option \<Rightarrow> parsed_cob_id" where
  "or_unknown raw k n = (case n of Some n \<Rightarrow> k n | None \<Rightarrow> Unknown raw)"

definition in_range :: "u16 \<Rightarrow> u16 \<Rightarrow> u16 \<Rightarrow> bool" where
  "in_range lo x hi \<longleftrightarrow> lo \<le> x \<and> x \<le> hi"

definition parse :: "cob_id \<Rightarrow> parsed_cob_id" where
  "parse c = (let raw = cob_raw c in
     if raw = 0x000 then Nmt
     else if raw = 0x080 then Sync
     else if in_range 0x081 raw 0x0FF then or_unknown raw Emergency (node_id_new (ucast (raw AND 0x7F)))
     else if in_range 0x181 raw 0x1FF then or_unknown raw (Tpdo 0) (node_id_new (ucast (raw - 0x180)))
     else if in_range 0x201 raw 0x27F then or_unknown raw (Rpdo 0) (node_id_new (ucast (raw - 0x200)))
     else if in_range 0x281 raw 0x2FF then or_unknown raw (Tpdo 1) (node_id_new (ucast (raw - 0x280)))
     else if in_range 0x301 raw 0x37F then or_unknown raw (Rpdo 1) (node_id_new (ucast (raw - 0x300)))
     else if in_range 0x381 raw 0x3FF then or_unknown raw (Tpdo 2) (node_id_new (ucast (raw - 0x380)))
     else if in_range 0x401 raw 0x47F then or_unknown raw (Rpdo 2) (node_id_new (ucast (raw - 0x400)))
     else if in_range 0x481 raw 0x4FF then or_unknown raw (Tpdo 3) (node_id_new (ucast (raw - 0x480)))
     else if in_range 0x501 raw 0x57F then or_unknown raw (Rpdo 3) (node_id_new (ucast (raw - 0x500)))
     else if in_range 0x581 raw 0x5FF then or_unknown raw SdoResponse (node_id_new (ucast (raw - 0x580)))
     else if in_range 0x601 raw 0x67F then or_unknown raw SdoRequest (node_id_new (ucast (raw - 0x600)))
     else if in_range 0x701 raw 0x77F then or_unknown raw Heartbeat (node_id_new (ucast (raw - 0x700)))
     else Unknown raw)"

section \<open>Construction\<close>

definition cob_nmt :: cob_id where "cob_nmt = CobId 0x000"
definition cob_sync :: cob_id where "cob_sync = CobId 0x080"

definition cob_emergency :: "node_id \<Rightarrow> cob_id" where
  "cob_emergency n = CobId (0x080 + ucast (node_raw n))"

definition cob_tpdo :: "pdo_number \<Rightarrow> node_id \<Rightarrow> cob_id option" where
  "cob_tpdo p node = (let n = pdo_raw p in
     if 1 \<le> n \<and> n \<le> 4 then Some (CobId (0x80 + 0x100 * n + ucast (node_raw node))) else None)"

definition cob_rpdo :: "pdo_number \<Rightarrow> node_id \<Rightarrow> cob_id option" where
  "cob_rpdo p node = (let n = pdo_raw p in
     if 1 \<le> n \<and> n \<le> 4 then Some (CobId (0x100 + 0x100 * n + ucast (node_raw node))) else None)"

definition cob_sdo_tx :: "node_id \<Rightarrow> cob_id" where
  "cob_sdo_tx n = CobId (0x580 + ucast (node_raw n))"

definition cob_sdo_rx :: "node_id \<Rightarrow> cob_id" where
  "cob_sdo_rx n = CobId (0x600 + ucast (node_raw n))"

definition cob_heartbeat :: "node_id \<Rightarrow> cob_id" where
  "cob_heartbeat n = CobId (0x700 + ucast (node_raw n))"

lemmas cob_defs = cob_nmt_def cob_sync_def cob_emergency_def cob_sdo_tx_def cob_sdo_rx_def
  cob_heartbeat_def

section \<open>Arithmetic of the constructed identifiers\<close>

lemma wf_nodeE:
  assumes "wf_node n"
  obtains b where "n = NodeId b" "1 \<le> b" "b \<le> 127"
  using assms by (cases n) (auto simp: wf_node_def)

lemma node_id_new_wf: "node_id_new b = Some n \<Longrightarrow> wf_node n \<and> node_raw n = b"
  by (auto simp: node_id_new_def wf_node_def split: if_splits)

lemma wf_node_new: "wf_node n \<Longrightarrow> node_id_new (node_raw n) = Some n"
  by (cases n) (simp add: node_id_new_def wf_node_def)

text \<open>A constructed identifier as a number: the base plus the node, with no wrap-around.\<close>

lemma unat_base_node:
  assumes "wf_node n" and "unat base \<le> 0x700"
  shows "unat (base + ucast (node_raw n) :: u16) = unat base + unat (node_raw n)"
proof -
  have "unat (node_raw n) \<le> 127"
    using assms(1) by (simp add: wf_node_def word_le_nat_alt)
  then show ?thesis using assms(2)
    by (subst unat_word_ariths(1)) simp
qed

lemma base_node_bounds:
  assumes "wf_node n" and "unat base \<le> 0x700"
  shows "base + 1 \<le> base + ucast (node_raw n)" "base + ucast (node_raw n) \<le> base + 0x7F"
    "ucast (base + ucast (node_raw n) - base :: u16) = node_raw n"
proof -
  have n: "1 \<le> unat (node_raw n)" "unat (node_raw n) \<le> 127"
    using assms(1) by (simp_all add: wf_node_def word_le_nat_alt)
  have b1: "unat (base + 1) = unat base + 1" and b2: "unat (base + 0x7F) = unat base + 0x7F"
    using assms(2) by (subst unat_word_ariths(1); simp)+
  show "base + 1 \<le> base + ucast (node_raw n)" "base + ucast (node_raw n) \<le> base + 0x7F"
    using n by (simp_all add: word_le_nat_alt b1 b2 unat_base_node [OF assms])
  show "ucast (base + ucast (node_raw n) - base :: u16) = node_raw n"
    by simp
qed

lemma base_node_le:
  assumes "wf_node n" and "unat base \<le> 0x700"
  shows "base + ucast (node_raw n) \<le> (0x7FF :: u16)"
proof -
  have "unat (node_raw n) \<le> 127" using assms(1) by (simp add: wf_node_def word_le_nat_alt)
  then show ?thesis using assms(2) unat_base_node [OF assms] by (simp add: word_le_nat_alt)
qed

text \<open>The identifier a classification stands for, through the constructors of the source.\<close>

definition cob_of_parsed :: "parsed_cob_id \<Rightarrow> cob_id option" where
  "cob_of_parsed p = (case p of
       Nmt \<Rightarrow> Some cob_nmt
     | Sync \<Rightarrow> Some cob_sync
     | Emergency n \<Rightarrow> Some (cob_emergency n)
     | Tpdo k n \<Rightarrow> cob_tpdo (PdoNumber (ucast k + 1)) n
     | Rpdo k n \<Rightarrow> cob_rpdo (PdoNumber (ucast k + 1)) n
     | SdoResponse n \<Rightarrow> Some (cob_sdo_tx n)
     | SdoRequest n \<Rightarrow> Some (cob_sdo_rx n)
     | Heartbeat n \<Rightarrow> Some (cob_heartbeat n)
     | Unknown raw \<Rightarrow> None)"

fun parsed_node :: "parsed_cob_id \<Rightarrow> node_id option" where
  "parsed_node (Emergency n) = Some n"
| "parsed_node (Tpdo _ n) = Some n"
| "parsed_node (Rpdo _ n) = Some n"
| "parsed_node (SdoResponse n) = Some n"
| "parsed_node (SdoRequest n) = Some n"
| "parsed_node (Heartbeat n) = Some n"
| "parsed_node _ = None"

lemma in_range_unat: "in_range lo x hi \<longleftrightarrow> unat lo \<le> unat x \<and> unat x \<le> unat hi"
  by (simp add: in_range_def word_le_nat_alt)

text \<open>One of the sixteen 128-wide identifier ranges: the node is recovered by subtraction.\<close>

lemma node_id_new_sub:
  assumes "unat base + 1 \<le> unat raw" "unat raw \<le> unat base + 0x7F"
  shows "node_id_new (ucast (raw - base :: u16)) = Some (NodeId (ucast (raw - base)))"
    "base + ucast (ucast (raw - base) :: u8) = raw"
proof -
  have d: "unat (raw - base) = unat raw - unat base"
    using assms by (simp add: unat_sub word_le_nat_alt)
  then have le: "1 \<le> unat (raw - base)" "unat (raw - base) \<le> 127" using assms by linarith+
  then have u: "unat (ucast (raw - base) :: u8) = unat (raw - base)"
    by (simp add: unsigned_ucast_eq take_bit_nat_eq_self)
  show "node_id_new (ucast (raw - base)) = Some (NodeId (ucast (raw - base)))"
    using le by (simp add: node_id_new_def word_le_nat_alt u)
  have "ucast (ucast (raw - base) :: u8) = raw - base"
    using u by (simp add: word_unat_eq_iff)
  then show "base + ucast (ucast (raw - base) :: u8) = raw" by simp
qed

lemma and_7F_sub:
  fixes raw :: u16
  assumes "0x81 \<le> unat raw" "unat raw \<le> 0xFF"
  shows "raw AND 0x7F = raw - 0x80"
proof -
  have "raw AND 0x7F = take_bit 7 raw"
    by (simp add: take_bit_eq_mask mask_eq_exp_minus_1)
  moreover have "unat (take_bit 7 raw) = unat raw mod 128"
    by (subst unsigned_take_bit_eq) (simp add: take_bit_eq_mod)
  moreover have "unat (raw - 0x80) = unat raw - 128"
    using assms by (simp add: unat_sub word_le_nat_alt)
  moreover have "unat raw mod 128 = unat raw - 128"
    using assms by (simp add: mod_if)
  ultimately show ?thesis by (simp add: word_unat_eq_iff)
qed

section \<open>Classification and construction are inverse\<close>

lemma parse_range_cases:
  obtains (nmt) "raw = 0" | (sync) "raw = 0x80"
  | (emcy) "in_range 0x081 raw 0x0FF"
  | (tpdo0) "in_range 0x181 raw 0x1FF" | (rpdo0) "in_range 0x201 raw 0x27F"
  | (tpdo1) "in_range 0x281 raw 0x2FF" | (rpdo1) "in_range 0x301 raw 0x37F"
  | (tpdo2) "in_range 0x381 raw 0x3FF" | (rpdo2) "in_range 0x401 raw 0x47F"
  | (tpdo3) "in_range 0x481 raw 0x4FF" | (rpdo3) "in_range 0x501 raw 0x57F"
  | (sdo_tx) "in_range 0x581 raw 0x5FF" | (sdo_rx) "in_range 0x601 raw 0x67F"
  | (heartbeat) "in_range 0x701 raw 0x77F" | (unknown) "parse (CobId raw) = Unknown raw"
  by atomize_elim (auto simp: parse_def Let_def)

lemmas parse_eval = parse_def Let_def in_range_unat word_unat_eq_iff or_unknown_def node_id_new_sub

lemma parse_in_range:
  "in_range 0x081 raw 0x0FF \<Longrightarrow> parse (CobId raw) = Emergency (NodeId (ucast (raw - 0x080)))"
  "in_range 0x181 raw 0x1FF \<Longrightarrow> parse (CobId raw) = Tpdo 0 (NodeId (ucast (raw - 0x180)))"
  "in_range 0x201 raw 0x27F \<Longrightarrow> parse (CobId raw) = Rpdo 0 (NodeId (ucast (raw - 0x200)))"
  "in_range 0x281 raw 0x2FF \<Longrightarrow> parse (CobId raw) = Tpdo 1 (NodeId (ucast (raw - 0x280)))"
  "in_range 0x301 raw 0x37F \<Longrightarrow> parse (CobId raw) = Rpdo 1 (NodeId (ucast (raw - 0x300)))"
  "in_range 0x381 raw 0x3FF \<Longrightarrow> parse (CobId raw) = Tpdo 2 (NodeId (ucast (raw - 0x380)))"
  "in_range 0x401 raw 0x47F \<Longrightarrow> parse (CobId raw) = Rpdo 2 (NodeId (ucast (raw - 0x400)))"
  "in_range 0x481 raw 0x4FF \<Longrightarrow> parse (CobId raw) = Tpdo 3 (NodeId (ucast (raw - 0x480)))"
  "in_range 0x501 raw 0x57F \<Longrightarrow> parse (CobId raw) = Rpdo 3 (NodeId (ucast (raw - 0x500)))"
  "in_range 0x581 raw 0x5FF \<Longrightarrow> parse (CobId raw) = SdoResponse (NodeId (ucast (raw - 0x580)))"
  "in_range 0x601 raw 0x67F \<Longrightarrow> parse (CobId raw) = SdoRequest (NodeId (ucast (raw - 0x600)))"
  "in_range 0x701 raw 0x77F \<Longrightarrow> parse (CobId raw) = Heartbeat (NodeId (ucast (raw - 0x700)))"
  by (simp_all add: parse_eval and_7F_sub)

lemmas unparse_eval = cob_of_parsed_def cob_defs cob_tpdo_def cob_rpdo_def in_range_unat
  node_id_new_sub Let_def

text \<open>Every classified identifier is the one its classification constructs.\<close>

lemma parse_cob_of_parsed:
  assumes "\<forall>r. parse (CobId raw) \<noteq> Unknown r"
  shows "cob_of_parsed (parse (CobId raw)) = Some (CobId raw)"
proof (cases rule: parse_range_cases [of raw])
  case nmt then show ?thesis by (simp add: parse_def cob_of_parsed_def cob_defs)
next
  case sync then show ?thesis by (simp add: parse_def cob_of_parsed_def cob_defs)
next
  case unknown with assms show ?thesis by blast
qed (simp_all add: parse_in_range, simp_all add: unparse_eval)

text \<open>Every constructed identifier is classified as what it was constructed for.\<close>

lemma in_range_base_node:
  "wf_node n \<Longrightarrow> unat base \<le> 0x700 \<Longrightarrow> in_range (base + 1) (base + ucast (node_raw n)) (base + 0x7F)"
  by (simp add: in_range_def base_node_bounds)

lemma parse_constructed:
  assumes "wf_node n"
  shows "parse (cob_emergency n) = Emergency n" "parse (cob_sdo_tx n) = SdoResponse n"
    "parse (cob_sdo_rx n) = SdoRequest n" "parse (cob_heartbeat n) = Heartbeat n"
  using parse_in_range(1) [OF in_range_base_node [OF assms, of "0x80", simplified]]
    parse_in_range(10) [OF in_range_base_node [OF assms, of "0x580", simplified]]
    parse_in_range(11) [OF in_range_base_node [OF assms, of "0x600", simplified]]
    parse_in_range(12) [OF in_range_base_node [OF assms, of "0x700", simplified]]
  by (simp_all add: cob_defs)

lemma pdo_number_1_to_4:
  fixes n :: u16
  assumes "1 \<le> n" "n \<le> 4"
  shows "n = 1 \<or> n = 2 \<or> n = 3 \<or> n = 4"
proof -
  have "unat n = 1 \<or> unat n = 2 \<or> unat n = 3 \<or> unat n = 4"
    using assms by (simp add: word_le_nat_alt) linarith
  then show ?thesis by (simp add: word_unat_eq_iff)
qed

lemma parse_constructed_pdo:
  assumes "wf_node n"
  shows "cob_tpdo p n = Some c \<Longrightarrow> parse c = Tpdo (ucast (pdo_raw p) - 1) n"
    and "cob_rpdo p n = Some c \<Longrightarrow> parse c = Rpdo (ucast (pdo_raw p) - 1) n"
  using parse_in_range(2) [OF in_range_base_node [OF assms, of "0x180", simplified]]
    parse_in_range(3) [OF in_range_base_node [OF assms, of "0x200", simplified]]
    parse_in_range(4) [OF in_range_base_node [OF assms, of "0x280", simplified]]
    parse_in_range(5) [OF in_range_base_node [OF assms, of "0x300", simplified]]
    parse_in_range(6) [OF in_range_base_node [OF assms, of "0x380", simplified]]
    parse_in_range(7) [OF in_range_base_node [OF assms, of "0x400", simplified]]
    parse_in_range(8) [OF in_range_base_node [OF assms, of "0x480", simplified]]
    parse_in_range(9) [OF in_range_base_node [OF assms, of "0x500", simplified]]
  by (auto simp: cob_tpdo_def cob_rpdo_def Let_def split: if_splits dest!: pdo_number_1_to_4)

section \<open>Properties\<close>

text \<open>
  C23. An identifier that \<open>CobId::parse\<close> classifies is exactly the one that the
  constructor of that class builds for the node and PDO number found.
\<close>

theorem cob_id_parse_sound:
  assumes "\<forall>r. parse (CobId raw) \<noteq> Unknown r"
  shows "cob_of_parsed (parse (CobId raw)) = Some (CobId raw)"
  using assms by (rule parse_cob_of_parsed)

theorem cob_id_parse_sound_witness: "cob_of_parsed (parse (CobId 0x60A)) = Some (CobId 0x60A)"
proof -
  have "\<forall>r. parse (CobId 0x60A) \<noteq> Unknown r"
    by (simp add: parse_def Let_def in_range_def or_unknown_def node_id_new_def)
  then show ?thesis by (rule cob_id_parse_sound)
qed

text \<open>
  Every identifier built by a constructor for a valid node is classified as what it was
  built for, with the same node and PDO number.
\<close>

theorem cob_id_constructors_parse:
  assumes "wf_node n"
  shows "parse (cob_emergency n) = Emergency n \<and> parse (cob_sdo_tx n) = SdoResponse n
    \<and> parse (cob_sdo_rx n) = SdoRequest n \<and> parse (cob_heartbeat n) = Heartbeat n
    \<and> (\<forall>p c. cob_tpdo p n = Some c \<longrightarrow> parse c = Tpdo (ucast (pdo_raw p) - 1) n)
    \<and> (\<forall>p c. cob_rpdo p n = Some c \<longrightarrow> parse c = Rpdo (ucast (pdo_raw p) - 1) n)"
  using assms by (simp add: parse_constructed parse_constructed_pdo)

theorem cob_id_constructors_parse_witness: "parse (cob_sdo_rx (NodeId 5)) = SdoRequest (NodeId 5)"
  using cob_id_constructors_parse [of "NodeId 5"] by (simp add: wf_node_def)

end
