(* ===== verification/Sdo_Protocol.thy ===== *)
theory Sdo_Protocol
  imports Can_Transport
begin

text \<open>
  The SDO wire format of \<open>canopen-core/src/sdo/protocol.rs\<close>: abort codes, command
  specifiers, and the encoders of the eight-byte SDO frames. A \<open>[u8; 8]\<close> is a byte list
  of length eight. The lemmas give the round trips and the layout of each frame.
\<close>

section \<open>Abort codes\<close>

datatype abort_code =
    ToggleBitNotAlternated | SdoProtocolTimeout | InvalidCommandSpecifier | InvalidBlockSize
  | InvalidSequenceNumber | CrcError | OutOfMemory | UnsupportedAccess | WriteOnlyObject
  | ReadOnlyObject | ObjectNotFound | ObjectCannotBeMapped | PdoLengthExceeded
  | ParameterIncompatibility | GeneralInternalIncompatibility | HardwareErrorCode
  | DataTypeMismatchCode | LengthTooHigh | LengthTooLow | SubindexNotFound
  | ValueRangeExceeded | ValueTooHigh | ValueTooLow | MaxLessThanMin | ResourceNotAvailable
  | GeneralError | DataTransferError | DataTransferLocalControl | DataTransferDeviceState
  | OdGenerationFailed | NoDataAvailable

definition abort_to_u32 :: "abort_code \<Rightarrow> u32" where
  "abort_to_u32 c = (case c of
     ToggleBitNotAlternated \<Rightarrow> 0x05030000
   | SdoProtocolTimeout \<Rightarrow> 0x05040000
   | InvalidCommandSpecifier \<Rightarrow> 0x05040001
   | InvalidBlockSize \<Rightarrow> 0x05040002
   | InvalidSequenceNumber \<Rightarrow> 0x05040003
   | CrcError \<Rightarrow> 0x05040004
   | OutOfMemory \<Rightarrow> 0x05040005
   | UnsupportedAccess \<Rightarrow> 0x06010000
   | WriteOnlyObject \<Rightarrow> 0x06010001
   | ReadOnlyObject \<Rightarrow> 0x06010002
   | ObjectNotFound \<Rightarrow> 0x06020000
   | ObjectCannotBeMapped \<Rightarrow> 0x06040041
   | PdoLengthExceeded \<Rightarrow> 0x06040042
   | ParameterIncompatibility \<Rightarrow> 0x06040043
   | GeneralInternalIncompatibility \<Rightarrow> 0x06040047
   | HardwareErrorCode \<Rightarrow> 0x06060000
   | DataTypeMismatchCode \<Rightarrow> 0x06070010
   | LengthTooHigh \<Rightarrow> 0x06070012
   | LengthTooLow \<Rightarrow> 0x06070013
   | SubindexNotFound \<Rightarrow> 0x06090011
   | ValueRangeExceeded \<Rightarrow> 0x06090030
   | ValueTooHigh \<Rightarrow> 0x06090031
   | ValueTooLow \<Rightarrow> 0x06090032
   | MaxLessThanMin \<Rightarrow> 0x06090036
   | ResourceNotAvailable \<Rightarrow> 0x060A0023
   | GeneralError \<Rightarrow> 0x08000000
   | DataTransferError \<Rightarrow> 0x08000020
   | DataTransferLocalControl \<Rightarrow> 0x08000021
   | DataTransferDeviceState \<Rightarrow> 0x08000022
   | OdGenerationFailed \<Rightarrow> 0x08000023
   | NoDataAvailable \<Rightarrow> 0x08000024)"

definition abort_from_u32 :: "u32 \<Rightarrow> abort_code option" where
  "abort_from_u32 c =
     (if c = 0x05030000 then Some ToggleBitNotAlternated
      else if c = 0x05040000 then Some SdoProtocolTimeout
      else if c = 0x05040001 then Some InvalidCommandSpecifier
      else if c = 0x05040002 then Some InvalidBlockSize
      else if c = 0x05040003 then Some InvalidSequenceNumber
      else if c = 0x05040004 then Some CrcError
      else if c = 0x05040005 then Some OutOfMemory
      else if c = 0x06010000 then Some UnsupportedAccess
      else if c = 0x06010001 then Some WriteOnlyObject
      else if c = 0x06010002 then Some ReadOnlyObject
      else if c = 0x06020000 then Some ObjectNotFound
      else if c = 0x06040041 then Some ObjectCannotBeMapped
      else if c = 0x06040042 then Some PdoLengthExceeded
      else if c = 0x06040043 then Some ParameterIncompatibility
      else if c = 0x06040047 then Some GeneralInternalIncompatibility
      else if c = 0x06060000 then Some HardwareErrorCode
      else if c = 0x06070010 then Some DataTypeMismatchCode
      else if c = 0x06070012 then Some LengthTooHigh
      else if c = 0x06070013 then Some LengthTooLow
      else if c = 0x06090011 then Some SubindexNotFound
      else if c = 0x06090030 then Some ValueRangeExceeded
      else if c = 0x06090031 then Some ValueTooHigh
      else if c = 0x06090032 then Some ValueTooLow
      else if c = 0x06090036 then Some MaxLessThanMin
      else if c = 0x060A0023 then Some ResourceNotAvailable
      else if c = 0x08000000 then Some GeneralError
      else if c = 0x08000020 then Some DataTransferError
      else if c = 0x08000021 then Some DataTransferLocalControl
      else if c = 0x08000022 then Some DataTransferDeviceState
      else if c = 0x08000023 then Some OdGenerationFailed
      else if c = 0x08000024 then Some NoDataAvailable
      else None)"

text \<open>\<open>SdoAbort\<close>: the raw code as it is on the wire.\<close>

datatype sdo_abort = SdoAbort (abort_raw: u32)

definition abort_known :: "sdo_abort \<Rightarrow> abort_code option" where
  "abort_known a = abort_from_u32 (abort_raw a)"

definition abort_of_code :: "abort_code \<Rightarrow> sdo_abort" where
  "abort_of_code c = SdoAbort (abort_to_u32 c)"

section \<open>Command specifiers\<close>

datatype ccs =
    CcsDownloadSegment | CcsInitiateDownload | CcsInitiateUpload | CcsUploadSegment
  | CcsAbortTransfer | CcsBlockUpload | CcsBlockDownload

definition ccs_val :: "ccs \<Rightarrow> u8" where
  "ccs_val c = (case c of
     CcsInitiateDownload \<Rightarrow> 1 | CcsDownloadSegment \<Rightarrow> 0 | CcsInitiateUpload \<Rightarrow> 2
   | CcsUploadSegment \<Rightarrow> 3 | CcsAbortTransfer \<Rightarrow> 4 | CcsBlockUpload \<Rightarrow> 5 | CcsBlockDownload \<Rightarrow> 6)"

datatype scs =
    ScsInitiateDownloadResponse | ScsDownloadSegmentResponse | ScsInitiateUploadResponse
  | ScsUploadSegmentResponse | ScsAbortTransfer

definition scs_val :: "scs \<Rightarrow> u8" where
  "scs_val c = (case c of
     ScsInitiateDownloadResponse \<Rightarrow> 3 | ScsDownloadSegmentResponse \<Rightarrow> 1
   | ScsInitiateUploadResponse \<Rightarrow> 2 | ScsUploadSegmentResponse \<Rightarrow> 0 | ScsAbortTransfer \<Rightarrow> 4)"

definition command_specifier :: "u8 \<Rightarrow> u8" where
  "command_specifier byte0 = drop_bit 5 byte0 AND 0x07"

section \<open>Encoders\<close>

text \<open>\<open>(index & 0xFF) as u8\<close> and \<open>(index >> 8) as u8\<close>.\<close>

definition lo8 :: "u16 \<Rightarrow> u8" where "lo8 i = ucast (i AND 0xFF)"
definition hi8 :: "u16 \<Rightarrow> u8" where "hi8 i = ucast (drop_bit 8 i)"

text \<open>The common shape of the encoders: bytes 0 to 3, then a tail of four bytes.\<close>

definition sdo_frame :: "u8 \<Rightarrow> u16 \<Rightarrow> u8 \<Rightarrow> bytes \<Rightarrow> bytes" where
  "sdo_frame b0 index subindex tail = [b0, lo8 index, hi8 index, subindex] @ tail"

definition encode_sdo_abort :: "u16 \<Rightarrow> u8 \<Rightarrow> sdo_abort \<Rightarrow> bytes" where
  "encode_sdo_abort index subindex code =
     sdo_frame (push_bit 5 (scs_val ScsAbortTransfer)) index subindex (to_le_bytes 4 (abort_raw code))"

definition encode_abort :: "u16 \<Rightarrow> u8 \<Rightarrow> abort_code \<Rightarrow> bytes" where
  "encode_abort index subindex code = encode_sdo_abort index subindex (abort_of_code code)"

definition encode_upload_response_expedited :: "u16 \<Rightarrow> u8 \<Rightarrow> bytes \<Rightarrow> bytes option" where
  "encode_upload_response_expedited index subindex val =
     (if val = [] \<or> length val > 4 then None
      else let n = 4 - length val in
        Some (sdo_frame
          (push_bit 5 (scs_val ScsInitiateUploadResponse) OR push_bit 2 (of_nat n) OR 0x02 OR 0x01)
          index subindex (overwrite (replicate 4 0) 0 val)))"

definition encode_upload_response_segmented :: "u16 \<Rightarrow> u8 \<Rightarrow> u32 \<Rightarrow> bytes" where
  "encode_upload_response_segmented index subindex total_size =
     sdo_frame (push_bit 5 (scs_val ScsInitiateUploadResponse) OR 0x01) index subindex
       (to_le_bytes 4 total_size)"

definition encode_upload_segment_response :: "bool \<Rightarrow> bytes \<Rightarrow> bool \<Rightarrow> bytes option" where
  "encode_upload_segment_response toggle segment_data last_seg =
     (if length segment_data > 7 then None
      else let n = 7 - length segment_data in
        Some ((push_bit 5 (scs_val ScsUploadSegmentResponse)
               OR (if toggle then 0x10 else 0) OR push_bit 1 (of_nat n)
               OR (if last_seg then 0x01 else 0))
              # overwrite (replicate 7 0) 0 segment_data))"

definition encode_download_response :: "u16 \<Rightarrow> u8 \<Rightarrow> bytes" where
  "encode_download_response index subindex =
     sdo_frame (push_bit 5 (scs_val ScsInitiateDownloadResponse)) index subindex (replicate 4 0)"

definition encode_download_segment_response :: "bool \<Rightarrow> bytes" where
  "encode_download_segment_response toggle =
     (push_bit 5 (scs_val ScsDownloadSegmentResponse) OR (if toggle then 0x10 else 0)) # replicate 7 0"

definition parse_index_sub :: "bytes \<Rightarrow> u16 \<times> u8" where
  "parse_index_sub data = (ucast (data ! 1) OR push_bit 8 (ucast (data ! 2)), data ! 3)"

section \<open>Lemmas\<close>

lemma abort_from_to_u32: "abort_from_u32 (abort_to_u32 c) = Some c"
  by (cases c) (simp_all add: abort_to_u32_def abort_from_u32_def)

lemma abort_to_from_u32: "abort_from_u32 w = Some c \<Longrightarrow> abort_to_u32 c = w"
  by (auto simp: abort_to_u32_def abort_from_u32_def split: if_splits)

lemma mask_8: "(0xFF :: u16) = mask 8"
  by (simp add: mask_eq_exp_minus_1)

lemma index_lo_hi [simp]: "ucast (lo8 i) OR push_bit 8 (ucast (hi8 i)) = (i :: u16)"
  unfolding lo8_def hi8_def mask_8
  by (rule bit_eqI)
    (auto simp: bit_or_iff bit_and_iff bit_push_bit_iff bit_unsigned_iff bit_drop_bit_eq
      bit_mask_iff)

lemma parse_index_sub_sdo_frame [frame_simps]:
  "parse_index_sub (sdo_frame b0 i s tail) = (i, s)"
  by (simp add: parse_index_sub_def sdo_frame_def)

lemma length_sdo_frame [simp]: "length (sdo_frame b0 i s tail) = 4 + length tail"
  by (simp add: sdo_frame_def)

lemma sdo_frame_nth [frame_simps]:
  "sdo_frame b0 i s tail ! 0 = b0" "sdo_frame b0 i s tail ! 1 = lo8 i"
  "sdo_frame b0 i s tail ! Suc 0 = lo8 i" "sdo_frame b0 i s tail ! 2 = hi8 i" "sdo_frame b0 i s tail ! 3 = s"
  by (simp_all add: sdo_frame_def)

lemma sdo_frame_tail [frame_simps]: "drop 4 (sdo_frame b0 i s tail) = tail"
  by (simp add: sdo_frame_def)

lemma length_encoders [simp]:
  "length (encode_sdo_abort i s a) = 8" "length (encode_abort i s c) = 8"
  "length (encode_upload_response_segmented i s n) = 8"
  "length (encode_download_response i s) = 8"
  "length (encode_download_segment_response t) = 8"
  by (simp_all add: encode_sdo_abort_def encode_abort_def encode_upload_response_segmented_def
      encode_download_response_def encode_download_segment_response_def)

lemma length_encode_upload_response_expedited:
  "encode_upload_response_expedited i s v = Some r \<Longrightarrow> length r = 8"
  by (auto simp: encode_upload_response_expedited_def Let_def split: if_splits)

lemma length_encode_upload_segment_response:
  "encode_upload_segment_response t v l = Some r \<Longrightarrow> length r = 8"
  by (auto simp: encode_upload_segment_response_def Let_def split: if_splits)

lemma encode_abort_byte0 [simp]:
  "encode_sdo_abort i s a ! 0 = 0x80" "encode_abort i s c ! 0 = 0x80"
  by (simp_all add: encode_sdo_abort_def encode_abort_def sdo_frame_nth scs_val_def)

section \<open>Properties\<close>

text \<open>
  Abort codes survive encoding to the wire and back, in both directions.
\<close>

theorem sdo_abort_code_roundtrip:
  "abort_from_u32 (abort_to_u32 c) = Some c \<and> (abort_from_u32 w = Some d \<longrightarrow> abort_to_u32 d = w)"
  by (simp add: abort_from_to_u32 abort_to_from_u32)

theorem sdo_abort_code_roundtrip_witness: "abort_to_u32 CrcError = 0x05040004"
  using sdo_abort_code_roundtrip [of CrcError "0x05040004" CrcError] by (simp add: abort_from_u32_def)

end
