(* ===== verification/Sdo_Client.thy ===== *)
theory Sdo_Client
  imports Cob_Id Sdo_Protocol
begin

unbundle bit_operations_syntax

text \<open>
  The SDO client of \<open>canopen-core/src/sdo/client.rs\<close>. \<open>BUF\<close>, the const generic of the
  source, is the length of the client's buffer. A method returns \<open>Some (result, client)\<close>,
  and \<open>None\<close> when the source would panic.
\<close>

section \<open>State\<close>

datatype sdo_client_result =
    UploadComplete usize
  | DownloadComplete
  | SendNext can_frame
  | ClientAborted sdo_abort
  | IgnoredAbort
  | ClientError

datatype client_state =
    ClIdle
  | WaitingUploadInitResponse u16 u8
  | UploadSegmented u16 u8 bool
  | WaitingDownloadInitResponse u16 u8
  | DownloadSegmented u16 u8 bool

record sdo_client =
  cl_target_node :: node_id
  cl_state :: client_state
  cl_buf :: bytes
  cl_offset :: usize
  cl_total_len :: usize
  cl_upload_len :: "usize option"
  cl_upload_size_indicated :: bool

definition sdo_client_new :: "nat \<Rightarrow> node_id \<Rightarrow> sdo_client" where
  "sdo_client_new BUF target = \<lparr>cl_target_node = target, cl_state = ClIdle,
     cl_buf = replicate BUF 0, cl_offset = 0, cl_total_len = 0, cl_upload_len = None,
     cl_upload_size_indicated = False\<rparr>"

definition client_data :: "sdo_client \<Rightarrow> bytes option" where
  "client_data c = slice (cl_buf c) 0 (cl_offset c)"

definition tx_cobid :: "sdo_client \<Rightarrow> u16" where
  "tx_cobid c = cob_raw (cob_sdo_rx (cl_target_node c))"

section \<open>Starting a transfer\<close>

definition start_upload :: "sdo_client \<Rightarrow> u16 \<Rightarrow> u8 \<Rightarrow> (can_frame \<times> sdo_client) option" where
  "start_upload c index subindex = do {
     let c' = c\<lparr>cl_state := WaitingUploadInitResponse index subindex, cl_offset := 0,
                cl_total_len := 0, cl_upload_len := None, cl_upload_size_indicated := False\<rparr>;
     f \<leftarrow> can_frame_new (tx_cobid c)
            (sdo_frame (push_bit 5 (ccs_val CcsInitiateUpload)) index subindex (replicate 4 0));
     Some (f, c')
   }"

definition start_download ::
  "nat \<Rightarrow> sdo_client \<Rightarrow> u16 \<Rightarrow> u8 \<Rightarrow> bytes \<Rightarrow> ((unit + can_frame) \<times> sdo_client) option" where
  "start_download BUF c index subindex val =
     (if val \<noteq> [] \<and> length val \<le> 4 then do {
        let c' = c\<lparr>cl_state := WaitingDownloadInitResponse index subindex,
                   cl_total_len := length val\<rparr>;
        let n = 4 - length val;
        tail \<leftarrow> copy_from_slice (replicate 4 0) 0 val;
        f \<leftarrow> can_frame_new (tx_cobid c)
               (sdo_frame (push_bit 5 (ccs_val CcsInitiateDownload) OR push_bit 2 (of_nat n) OR 0x02 OR 0x01)
                  index subindex tail);
        Some (Inr f, c')
      } else if length val > BUF then
        Some (Inl (), c\<lparr>cl_state := ClIdle, cl_total_len := 0, cl_offset := 0\<rparr>)
      else do {
        buf' \<leftarrow> copy_from_slice (cl_buf c) 0 val;
        let c' = c\<lparr>cl_state := WaitingDownloadInitResponse index subindex, cl_buf := buf',
                   cl_total_len := length val, cl_offset := 0\<rparr>;
        f \<leftarrow> can_frame_new (tx_cobid c)
               (sdo_frame (push_bit 5 (ccs_val CcsInitiateDownload) OR 0x01) index subindex
                  (to_le_bytes 4 (of_nat (length val) :: u32)));
        Some (Inr f, c')
      })"

section \<open>Segments\<close>

definition make_upload_segment_request :: "sdo_client \<Rightarrow> bool \<Rightarrow> can_frame option" where
  "make_upload_segment_request c toggle =
     can_frame_new (tx_cobid c)
       ((push_bit 5 (ccs_val CcsUploadSegment) OR (if toggle then 0x10 else 0)) # replicate 7 0)"

definition make_download_segment :: "sdo_client \<Rightarrow> bool \<Rightarrow> (can_frame \<times> sdo_client) option" where
  "make_download_segment c toggle = do {
     remaining \<leftarrow> sub_usize (cl_total_len c) (cl_offset c);
     let seg_len = min remaining 7;
     let last_seg = (remaining \<le> 7);
     let n = 7 - seg_len;
     seg \<leftarrow> slice (cl_buf c) (cl_offset c) (cl_offset c + seg_len);
     data \<leftarrow> copy_from_slice
       ((push_bit 5 (ccs_val CcsDownloadSegment) OR (if toggle then 0x10 else 0)
         OR push_bit 1 (of_nat n) OR (if last_seg then 0x01 else 0)) # replicate 7 0) 1 seg;
     f \<leftarrow> can_frame_new (tx_cobid c) data;
     Some (f, c\<lparr>cl_offset := cl_offset c + seg_len\<rparr>)
   }"

section \<open>Responses\<close>

abbreviation cl_idle :: "sdo_client \<Rightarrow> sdo_client" where
  "cl_idle c \<equiv> c\<lparr>cl_state := ClIdle\<rparr>"

abbreviation response_u32 :: "bytes \<Rightarrow> u32" where
  "response_u32 response \<equiv> from_le_bytes (take 4 (drop 4 response))"

definition handle_upload_init_response ::
  "nat \<Rightarrow> sdo_client \<Rightarrow> bytes \<Rightarrow> (sdo_client_result \<times> sdo_client) option" where
  "handle_upload_init_response BUF c response =
     (let expedited = (response ! 0 AND 0x02 \<noteq> 0);
          size_indicated = (response ! 0 AND 0x01 \<noteq> 0)
      in if expedited then
           let n = (if size_indicated then unat (drop_bit 2 (response ! 0) AND 0x03) else 0);
               data_len = 4 - n
           in if data_len > BUF then Some (ClientError, cl_idle c)
              else do {
                v \<leftarrow> slice response 4 (4 + data_len);
                buf' \<leftarrow> copy_from_slice (cl_buf c) 0 v;
                Some (UploadComplete data_len,
                  c\<lparr>cl_buf := buf', cl_offset := data_len,
                    cl_upload_size_indicated := size_indicated, cl_state := ClIdle\<rparr>)
              }
         else
           let ulen = (if size_indicated then Some (unat (response_u32 response)) else None);
               c1 = c\<lparr>cl_upload_len := ulen, cl_upload_size_indicated := size_indicated\<rparr>
           in if (case ulen of Some len \<Rightarrow> len > BUF | None \<Rightarrow> False)
              then Some (ClientError, cl_idle c1)
              else (case cl_state c1 of
                WaitingUploadInitResponse index subindex \<Rightarrow> do {
                  let c2 = c1\<lparr>cl_state := UploadSegmented index subindex False, cl_offset := 0\<rparr>;
                  f \<leftarrow> make_upload_segment_request c2 False;
                  Some (SendNext f, c2)
                }
              | _ \<Rightarrow> None))"

definition handle_upload_segment_response ::
  "nat \<Rightarrow> sdo_client \<Rightarrow> bytes \<Rightarrow> (sdo_client_result \<times> sdo_client) option" where
  "handle_upload_segment_response BUF c response = (case cl_state c of
     UploadSegmented index subindex expected_toggle \<Rightarrow>
       if (response ! 0 AND 0x10 \<noteq> 0) \<noteq> expected_toggle then Some (ClientError, cl_idle c)
       else
         let n = unat (drop_bit 1 (response ! 0) AND 0x07);
             last_seg = (response ! 0 AND 0x01 \<noteq> 0);
             seg_len = 7 - n;
             received = cl_offset c + seg_len
         in if received > BUF \<or>
               (case cl_upload_len c of
                  Some len \<Rightarrow> received > len \<or> (last_seg \<and> received \<noteq> len) | None \<Rightarrow> False)
            then Some (ClientError, cl_idle c)
            else do {
              seg \<leftarrow> slice response 1 (1 + seg_len);
              buf' \<leftarrow> copy_from_slice (cl_buf c) (cl_offset c) seg;
              let c1 = c\<lparr>cl_buf := buf', cl_offset := cl_offset c + seg_len\<rparr>;
              if last_seg then Some (UploadComplete (cl_offset c1), cl_idle c1)
              else do {
                let c2 = c1\<lparr>cl_state := UploadSegmented index subindex (\<not> expected_toggle)\<rparr>;
                f \<leftarrow> make_upload_segment_request c2 (\<not> expected_toggle);
                Some (SendNext f, c2)
              }
            }
   | _ \<Rightarrow> Some (ClientError, c))"

definition handle_download_init_response ::
  "sdo_client \<Rightarrow> (sdo_client_result \<times> sdo_client) option" where
  "handle_download_init_response c =
     (if cl_total_len c > 0 \<and> cl_total_len c \<le> 4 then Some (DownloadComplete, cl_idle c)
      else (case cl_state c of
        WaitingDownloadInitResponse index subindex \<Rightarrow> do {
          (f, c') \<leftarrow> make_download_segment
             (c\<lparr>cl_state := DownloadSegmented index subindex False\<rparr>) False;
          Some (SendNext f, c')
        }
      | _ \<Rightarrow> None))"

definition handle_download_segment_response ::
  "sdo_client \<Rightarrow> bytes \<Rightarrow> (sdo_client_result \<times> sdo_client) option" where
  "handle_download_segment_response c response = (case cl_state c of
     DownloadSegmented index subindex expected_toggle \<Rightarrow>
       if (response ! 0 AND 0x10 \<noteq> 0) \<noteq> expected_toggle then Some (ClientError, cl_idle c)
       else if cl_offset c \<ge> cl_total_len c then Some (DownloadComplete, cl_idle c)
       else do {
         (f, c') \<leftarrow> make_download_segment
            (c\<lparr>cl_state := DownloadSegmented index subindex (\<not> expected_toggle)\<rparr>) (\<not> expected_toggle);
         Some (SendNext f, c')
       }
   | _ \<Rightarrow> Some (ClientError, c))"

definition active_object :: "client_state \<Rightarrow> (u16 \<times> u8) option" where
  "active_object s = (case s of
     ClIdle \<Rightarrow> None
   | WaitingUploadInitResponse i s \<Rightarrow> Some (i, s)
   | WaitingDownloadInitResponse i s \<Rightarrow> Some (i, s)
   | UploadSegmented i s _ \<Rightarrow> Some (i, s)
   | DownloadSegmented i s _ \<Rightarrow> Some (i, s))"

definition process_response ::
  "nat \<Rightarrow> sdo_client \<Rightarrow> bytes \<Rightarrow> (sdo_client_result \<times> sdo_client) option" where
  "process_response BUF c response =
     (let cs = command_specifier (response ! 0);
          index_r = from_le_bytes [response ! 1, response ! 2] :: u16;
          sub_r = response ! 3;
          fail = Some (ClientError, cl_idle c)
      in if cs = scs_val ScsAbortTransfer then
           if (case active_object (cl_state c) of
                 Some (index, subindex) \<Rightarrow>
                   \<not> (index_r = 0 \<and> sub_r = 0) \<and> (index_r, sub_r) \<noteq> (index, subindex)
               | None \<Rightarrow> False)
           then Some (IgnoredAbort, c)
           else Some (ClientAborted (SdoAbort (response_u32 response)), cl_idle c)
         else (case cl_state c of
           ClIdle \<Rightarrow> Some (ClientError, c)
         | WaitingUploadInitResponse index subindex \<Rightarrow>
             if cs \<noteq> scs_val ScsInitiateUploadResponse \<or> index_r \<noteq> index \<or> sub_r \<noteq> subindex
             then fail else handle_upload_init_response BUF c response
         | UploadSegmented _ _ _ \<Rightarrow>
             if cs \<noteq> scs_val ScsUploadSegmentResponse then fail
             else handle_upload_segment_response BUF c response
         | WaitingDownloadInitResponse index subindex \<Rightarrow>
             if cs \<noteq> scs_val ScsInitiateDownloadResponse \<or> index_r \<noteq> index \<or> sub_r \<noteq> subindex
             then fail else handle_download_init_response c
         | DownloadSegmented _ _ _ \<Rightarrow>
             if cs \<noteq> scs_val ScsDownloadSegmentResponse then fail
             else handle_download_segment_response c response))"

section \<open>Command bytes\<close>

text \<open>
  The first byte of a segment (the same for the client's download segments and the server's
  upload segments) and of an expedited transfer, and the fields read back from it.
\<close>

definition segment_byte :: "bool \<Rightarrow> nat \<Rightarrow> bool \<Rightarrow> u8" where
  "segment_byte toggle n last_seg = (if toggle then 0x10 else 0) OR push_bit 1 (of_nat n)
     OR (if last_seg then 0x01 else 0)"

lemma segment_byte_folds:
  "push_bit 5 (ccs_val CcsDownloadSegment) OR (if t then 0x10 else 0) OR push_bit 1 (of_nat n)
     OR (if l then 0x01 else 0) = segment_byte t n l"
  "push_bit 5 (scs_val ScsUploadSegmentResponse) OR (if t then 0x10 else 0) OR push_bit 1 (of_nat n)
     OR (if l then 0x01 else 0) = segment_byte t n l"
  by (simp_all add: segment_byte_def ccs_val_def scs_val_def)

lemma le_7_cases: "n \<le> 7 \<Longrightarrow> n \<in> {0, 1, 2, 3, 4, 5, 6, 7 :: nat}"
  by auto

lemma segment_byte_fields [frame_simps]:
  assumes "n \<le> 7"
  shows "segment_byte t n l AND 0x10 \<noteq> 0 \<longleftrightarrow> t" "segment_byte t n l AND 0x01 \<noteq> 0 \<longleftrightarrow> l"
    "unat (drop_bit 1 (segment_byte t n l) AND 0x07) = n"
    "unat (drop_bit (Suc 0) (segment_byte t n l) AND 0x07) = n"
    "command_specifier (segment_byte t n l) = 0" "segment_byte t n l \<noteq> 0x80"
  using le_7_cases [OF assms] by (auto simp: segment_byte_def command_specifier_def)

definition expedited_byte :: "u8 \<Rightarrow> nat \<Rightarrow> u8" where
  "expedited_byte cs n = push_bit 5 cs OR push_bit 2 (of_nat n) OR 0x02 OR 0x01"

lemma expedited_byte_folds:
  "push_bit 5 (ccs_val CcsInitiateDownload) OR push_bit 2 (of_nat n) OR 0x02 OR 0x01 = expedited_byte 1 n"
  "push_bit 5 (scs_val ScsInitiateUploadResponse) OR push_bit 2 (of_nat n) OR 0x02 OR 0x01 = expedited_byte 2 n"
  by (simp_all add: expedited_byte_def ccs_val_def scs_val_def)

lemma expedited_byte_fields [frame_simps]:
  assumes "n \<le> 3" and "cs \<in> {1, 2}"
  shows "expedited_byte cs n AND 0x02 \<noteq> 0" "expedited_byte cs n AND 0x01 \<noteq> 0"
    "unat (drop_bit 2 (expedited_byte cs n) AND 0x03) = n"
    "command_specifier (expedited_byte cs n) = cs" "expedited_byte cs n \<noteq> 0x80"
proof -
  have "n \<in> {0, 1, 2, 3}" using assms(1) by auto
  with assms(2) show "expedited_byte cs n AND 0x02 \<noteq> 0" "expedited_byte cs n AND 0x01 \<noteq> 0"
    "unat (drop_bit 2 (expedited_byte cs n) AND 0x03) = n"
    "command_specifier (expedited_byte cs n) = cs" "expedited_byte cs n \<noteq> 0x80"
    by (auto simp: expedited_byte_def command_specifier_def)
qed

section \<open>Well-formed clients\<close>

text \<open>
  What the constructor establishes and every method keeps: an expedited download does not use the
  buffer, a segmented one has its value in it.
\<close>

definition wf_client :: "nat \<Rightarrow> sdo_client \<Rightarrow> bool" where
  "wf_client BUF c \<longleftrightarrow> length (cl_buf c) = BUF \<and> cl_offset c \<le> BUF \<and> wf_node (cl_target_node c)
     \<and> (case cl_state c of
          WaitingDownloadInitResponse _ _ \<Rightarrow>
            (0 < cl_total_len c \<and> cl_total_len c \<le> 4) \<or> (cl_offset c = 0 \<and> cl_total_len c \<le> BUF)
        | DownloadSegmented _ _ _ \<Rightarrow> cl_offset c \<le> cl_total_len c \<and> cl_total_len c \<le> BUF
        | _ \<Rightarrow> True)"

text \<open>The frame that carries an eight-byte request to the server of node \<open>n\<close>.\<close>

definition request_to :: "node_id \<Rightarrow> bytes \<Rightarrow> can_frame" where
  "request_to n d = \<lparr>cf_id = cob_raw (cob_sdo_rx n), cf_dlc = 8, cf_data = d\<rparr>"

lemma request_to_new [frame_simps]:
  assumes "wf_node (cl_target_node c)" and "length d = 8"
  shows "can_frame_new (tx_cobid c) d = Some (request_to (cl_target_node c) d)"
proof -
  have "cob_raw (cob_sdo_rx (cl_target_node c)) \<le> 0x7FF"
    using base_node_bounds(2) [OF assms(1), of "0x600"] by (simp add: cob_sdo_rx_def word_le_nat_alt)
  then show ?thesis using assms(2)
    by (simp add: can_frame_new_def request_to_def tx_cobid_def overwrite_def not_less)
qed

lemma frame_data_request_to [simp]: "length d = 8 \<Longrightarrow> frame_data (request_to n d) = d"
  by (simp add: frame_data_def request_to_def)

lemma start_upload_eq:
  assumes "wf_client BUF c"
  shows "start_upload c i s = Some (request_to (cl_target_node c) (sdo_frame 0x40 i s (replicate 4 0)),
     c\<lparr>cl_state := WaitingUploadInitResponse i s, cl_offset := 0,
       cl_total_len := 0, cl_upload_len := None, cl_upload_size_indicated := False\<rparr>)"
  using assms by (simp add: start_upload_def wf_client_def ccs_val_def request_to_new)

lemma start_download_expedited:
  assumes "wf_client BUF c" and "v \<noteq> []" and "length v \<le> 4"
  shows "start_download BUF c i s v = Some (Inr (request_to (cl_target_node c)
       (sdo_frame (expedited_byte 1 (4 - length v)) i s (overwrite (replicate 4 0) 0 v))),
     c\<lparr>cl_state := WaitingDownloadInitResponse i s, cl_total_len := length v\<rparr>)"
  using assms unfolding start_download_def expedited_byte_folds
  by (simp add: wf_client_def request_to_new rust_simps Let_def)

lemma start_download_segmented:
  assumes "wf_client BUF c" and "v = [] \<or> 4 < length v" and "length v \<le> BUF"
  shows "start_download BUF c i s v = Some (Inr (request_to (cl_target_node c)
       (sdo_frame 0x21 i s (to_le_bytes 4 (of_nat (length v) :: u32)))),
     c\<lparr>cl_state := WaitingDownloadInitResponse i s, cl_buf := overwrite (cl_buf c) 0 v,
       cl_total_len := length v, cl_offset := 0\<rparr>)"
  using assms by (auto simp: start_download_def wf_client_def request_to_new rust_simps ccs_val_def)

definition segment_request :: "bool \<Rightarrow> bytes" where
  "segment_request t = (0x60 OR (if t then 0x10 else 0)) # replicate 7 0"

lemma segment_request_fields [simp]:
  "length (segment_request t) = 8" "command_specifier (segment_request t ! 0) = 3"
  "segment_request t ! 0 AND 0x10 \<noteq> 0 \<longleftrightarrow> t"
  by (simp_all add: segment_request_def command_specifier_def)

lemma make_upload_segment_request_eq:
  assumes "wf_node (cl_target_node c)"
  shows "make_upload_segment_request c t =
    Some (request_to (cl_target_node c) (segment_request t))"
  using assms
  by (simp add: make_upload_segment_request_def request_to_new ccs_val_def segment_request_def)

lemma make_download_segment_eq:
  assumes "wf_node (cl_target_node c)" and "cl_offset c \<le> cl_total_len c"
    and "cl_total_len c \<le> length (cl_buf c)"
  defines "k \<equiv> min (cl_total_len c - cl_offset c) 7"
  shows "make_download_segment c t = Some (request_to (cl_target_node c)
       (segment_byte t (7 - k) (cl_total_len c - cl_offset c \<le> 7)
         # overwrite (replicate 7 0) 0 (take k (drop (cl_offset c) (cl_buf c)))),
     c\<lparr>cl_offset := cl_offset c + k\<rparr>)"
proof -
  let ?seg = "take k (drop (cl_offset c) (cl_buf c))"
  have k: "k \<le> 7" "cl_offset c + k \<le> length (cl_buf c)" using assms by auto
  have "copy_from_slice (b # replicate 7 0) 1 ?seg = Some (b # overwrite (replicate 7 0) 0 ?seg)" for b
    using k by (simp add: copy_from_slice_def overwrite_def)
  moreover have "slice (cl_buf c) (cl_offset c) (cl_offset c + k) = Some ?seg"
    using k by (simp add: slice_def)
  moreover have "sub_usize (cl_total_len c) (cl_offset c) = Some (cl_total_len c - cl_offset c)"
    using assms(2) by (simp add: rust_simps)
  ultimately show ?thesis using assms(1) k
    unfolding make_download_segment_def segment_byte_folds
    by (simp add: k_def [symmetric] Let_def request_to_new)
qed

section \<open>No panics\<close>

lemma handle_upload_init_response_wf:
  assumes "wf_client BUF c" and "length response = 8" and "cl_state c = WaitingUploadInitResponse i s"
  shows "\<exists>r c'. handle_upload_init_response BUF c response = Some (r, c') \<and> wf_client BUF c'"
  using assms by (auto simp: handle_upload_init_response_def Let_def rust_simps wf_client_def
      make_upload_segment_request_eq split: option.splits)

lemma handle_upload_segment_response_wf:
  assumes "wf_client BUF c" and "length response = 8" and "cl_state c = UploadSegmented i s t"
  shows "\<exists>r c'. handle_upload_segment_response BUF c response = Some (r, c') \<and> wf_client BUF c'"
  using assms by (auto simp: handle_upload_segment_response_def Let_def rust_simps wf_client_def
      make_upload_segment_request_eq split: option.splits)

lemma handle_download_init_response_wf:
  assumes "wf_client BUF c" and "cl_state c = WaitingDownloadInitResponse i s"
  shows "\<exists>r c'. handle_download_init_response c = Some (r, c') \<and> wf_client BUF c'"
  using assms make_download_segment_eq [of "c\<lparr>cl_state := DownloadSegmented i s False\<rparr>" False]
  by (auto simp: handle_download_init_response_def wf_client_def)

lemma handle_download_segment_response_wf:
  assumes "wf_client BUF c" and "cl_state c = DownloadSegmented i s t"
  shows "\<exists>r c'. handle_download_segment_response c response = Some (r, c') \<and> wf_client BUF c'"
  using assms make_download_segment_eq [of "c\<lparr>cl_state := DownloadSegmented i s (\<not> t)\<rparr>" "\<not> t"]
  by (auto simp: handle_download_segment_response_def wf_client_def)

lemma wf_client_idle: "wf_client BUF c \<Longrightarrow> wf_client BUF (cl_idle c)"
  by (simp add: wf_client_def)

lemma process_response_wf:
  assumes "wf_client BUF c" and "length response = 8"
  shows "\<exists>r c'. process_response BUF c response = Some (r, c') \<and> wf_client BUF c'"
proof (cases "command_specifier (response ! 0) = scs_val ScsAbortTransfer")
  case True
  then show ?thesis using assms(1) wf_client_idle [OF assms(1)]
    by (simp add: process_response_def Let_def)
next
  case False
  then show ?thesis using assms(1) wf_client_idle [OF assms(1)]
      handle_upload_init_response_wf [OF assms] handle_upload_segment_response_wf [OF assms]
      handle_download_init_response_wf [OF assms(1)]
      handle_download_segment_response_wf [OF assms(1)]
    by (cases "cl_state c") (simp_all add: process_response_def Let_def)
qed


lemma sdo_client_new_wf: "wf_node n \<Longrightarrow> wf_client BUF (sdo_client_new BUF n)"
  by (simp add: wf_client_def sdo_client_new_def)

lemma start_upload_wf: "wf_client BUF c \<Longrightarrow> \<exists>f c'. start_upload c i s = Some (f, c') \<and> wf_client BUF c'"
  by (simp add: start_upload_eq) (simp add: wf_client_def)

lemma start_download_wf:
  assumes "wf_client BUF c"
  shows "\<exists>r c'. start_download BUF c i s v = Some (r, c') \<and> wf_client BUF c'
    \<and> (is_ok r \<longleftrightarrow> length v \<le> BUF \<or> length v \<in> {1..4})"
proof -
  consider "v \<noteq> [] \<and> length v \<le> 4" | "v = [] \<or> 4 < length v" "length v \<le> BUF" | "4 < length v" "BUF < length v"
    by fastforce
  then show ?thesis
  proof cases
    case 1
    then show ?thesis using start_download_expedited [OF assms, of v i s] assms
      by (auto simp: wf_client_def Suc_le_eq)
  next
    case 2
    then show ?thesis using start_download_segmented [OF assms 2, of i s] assms by (auto simp: wf_client_def)
  next
    case 3
    then show ?thesis using assms by (auto simp: start_download_def wf_client_def)
  qed
qed

text \<open>A completed upload holds exactly the reported number of bytes.\<close>

lemma upload_complete_offset:
  assumes "process_response BUF c response = Some (UploadComplete n, c')"
  shows "cl_offset c' = n"
proof -
  have "handle_upload_init_response BUF c response = Some (UploadComplete n, c')
      \<or> handle_upload_segment_response BUF c response = Some (UploadComplete n, c')
      \<or> handle_download_init_response c = Some (UploadComplete n, c')
      \<or> handle_download_segment_response c response = Some (UploadComplete n, c')"
    using assms by (auto simp: process_response_def Let_def split: if_splits client_state.splits)
  then show ?thesis
    by (auto simp: handle_upload_init_response_def handle_upload_segment_response_def
        handle_download_init_response_def handle_download_segment_response_def Let_def bind_eq_Some_conv
        split: if_splits option.splits client_state.splits)
qed

section \<open>Properties\<close>

text \<open>
  The client never panics: from a well-formed client every start of a transfer and every
  eight-byte response, whatever its content, returns and leaves the client well-formed.
\<close>

theorem sdo_client_never_panics:
  assumes "wf_client BUF c"
  shows "(\<exists>f c'. start_upload c i s = Some (f, c') \<and> wf_client BUF c')
    \<and> (\<exists>r c'. start_download BUF c i s v = Some (r, c') \<and> wf_client BUF c'
         \<and> (is_ok r \<longleftrightarrow> length v \<le> BUF \<or> length v \<in> {1..4}))
    \<and> (\<forall>response. length response = 8 \<longrightarrow>
         (\<exists>r c'. process_response BUF c response = Some (r, c') \<and> wf_client BUF c'))"
  using start_upload_wf [OF assms] start_download_wf [OF assms] process_response_wf [OF assms] by blast

theorem sdo_client_never_panics_witness:
  "\<exists>r c'. process_response 16 (sdo_client_new 16 (NodeId 5)) (replicate 8 0xFF) = Some (r, c') \<and> wf_client 16 c'"
  using sdo_client_never_panics [of 16 "sdo_client_new 16 (NodeId 5)"] sdo_client_new_wf [of "NodeId 5" 16]
  by (simp add: wf_node_def)

end
