(* ===== verification/Nmt.thy ===== *)
theory Nmt
  imports Cob_Id
begin

text \<open>
  The NMT slave state machine of \<open>canopen-core/src/nmt.rs\<close>: states, commands, their wire
  encodings, and \<open>NmtHandler\<close>. The lemmas show the round trips of the encodings and that
  the initialisation state is left only through \<open>boot_complete\<close>.
\<close>

section \<open>States and commands\<close>

datatype nmt_state = Initializing | PreOperational | Operational | Stopped

definition heartbeat_byte :: "nmt_state \<Rightarrow> u8" where
  "heartbeat_byte s = (case s of
     Initializing \<Rightarrow> 0x00 | Stopped \<Rightarrow> 0x04 | Operational \<Rightarrow> 0x05 | PreOperational \<Rightarrow> 0x7F)"

definition from_heartbeat_byte :: "u8 \<Rightarrow> nmt_state option" where
  "from_heartbeat_byte b =
     (if b = 0x00 then Some Initializing else if b = 0x04 then Some Stopped
      else if b = 0x05 then Some Operational else if b = 0x7F then Some PreOperational
      else None)"

datatype nmt_command =
  StartRemoteNode | StopRemoteNode | EnterPreOperational | ResetNode | ResetCommunication

definition nmt_from_byte :: "u8 \<Rightarrow> nmt_command option" where
  "nmt_from_byte b =
     (if b = 0x01 then Some StartRemoteNode else if b = 0x02 then Some StopRemoteNode
      else if b = 0x80 then Some EnterPreOperational else if b = 0x81 then Some ResetNode
      else if b = 0x82 then Some ResetCommunication else None)"

definition nmt_to_byte :: "nmt_command \<Rightarrow> u8" where
  "nmt_to_byte c = (case c of
     StartRemoteNode \<Rightarrow> 0x01 | StopRemoteNode \<Rightarrow> 0x02 | EnterPreOperational \<Rightarrow> 0x80
   | ResetNode \<Rightarrow> 0x81 | ResetCommunication \<Rightarrow> 0x82)"

text \<open>\<open>NmtCommand::to_frame\<close>, with its \<open>unwrap\<close>.\<close>

definition nmt_to_frame :: "nmt_command \<Rightarrow> u8 \<Rightarrow> can_frame option" where
  "nmt_to_frame c target = can_frame_new 0x000 [nmt_to_byte c, target]"

datatype nmt_transition =
  NoTransition | StateChanged | TransResetApplication | TransResetCommunication

section \<open>The handler\<close>

record nmt_handler = nmt_state :: nmt_state

definition nmt_new :: nmt_handler where "nmt_new = \<lparr>nmt_state = Initializing\<rparr>"

definition boot_complete :: "nmt_handler \<Rightarrow> nmt_handler" where
  "boot_complete h = h\<lparr>nmt_state := PreOperational\<rparr>"

definition process_command ::
  "nmt_handler \<Rightarrow> nmt_command \<Rightarrow> u8 \<Rightarrow> node_id \<Rightarrow> nmt_transition \<times> nmt_handler" where
  "process_command h cmd target our_node =
    (if target \<noteq> 0 \<and> target \<noteq> node_raw our_node then (NoTransition, h)
     else if nmt_state h = Initializing then
       (case cmd of ResetNode \<Rightarrow> (TransResetApplication, h) | _ \<Rightarrow> (NoTransition, h))
     else
       (let new_state = (case cmd of
            StartRemoteNode \<Rightarrow> Operational
          | StopRemoteNode \<Rightarrow> Stopped
          | EnterPreOperational \<Rightarrow> PreOperational
          | ResetNode \<Rightarrow> Initializing
          | ResetCommunication \<Rightarrow> Initializing)
        in if nmt_state h = new_state then (NoTransition, h)
           else ((case cmd of
                    ResetNode \<Rightarrow> TransResetApplication
                  | ResetCommunication \<Rightarrow> TransResetCommunication
                  | _ \<Rightarrow> StateChanged),
                 h\<lparr>nmt_state := new_state\<rparr>)))"

section \<open>Lemmas\<close>

lemma from_heartbeat_heartbeat_byte: "from_heartbeat_byte (heartbeat_byte s) = Some s"
  by (cases s) (simp_all add: heartbeat_byte_def from_heartbeat_byte_def)

lemma heartbeat_from_heartbeat_byte:
  "from_heartbeat_byte b = Some s \<Longrightarrow> heartbeat_byte s = b"
  by (auto simp: heartbeat_byte_def from_heartbeat_byte_def split: if_splits)

lemma nmt_from_to_byte: "nmt_from_byte (nmt_to_byte c) = Some c"
  by (cases c) (simp_all add: nmt_from_byte_def nmt_to_byte_def)

lemma nmt_to_from_byte: "nmt_from_byte b = Some c \<Longrightarrow> nmt_to_byte c = b"
  by (auto simp: nmt_from_byte_def nmt_to_byte_def split: if_splits)

lemma process_command_other_target:
  "target \<noteq> 0 \<Longrightarrow> target \<noteq> node_raw n \<Longrightarrow> process_command h c target n = (NoTransition, h)"
  by (simp add: process_command_def)

lemma process_command_initializing:
  "nmt_state h = Initializing \<Longrightarrow> snd (process_command h c target n) = h"
  by (cases c) (simp_all add: process_command_def)

text \<open>The state a command addressed to this node asks for.\<close>

definition commanded_state :: "nmt_command \<Rightarrow> nmt_state" where
  "commanded_state c = (case c of
     StartRemoteNode \<Rightarrow> Operational | StopRemoteNode \<Rightarrow> Stopped
   | EnterPreOperational \<Rightarrow> PreOperational | ResetNode \<Rightarrow> Initializing
   | ResetCommunication \<Rightarrow> Initializing)"

lemma process_command_state:
  assumes "target = 0 \<or> target = node_raw n" and "nmt_state h \<noteq> Initializing"
  shows "nmt_state (snd (process_command h c target n)) = commanded_state c"
  using assms by (cases c) (auto simp: process_command_def Let_def commanded_state_def)

lemma process_command_transition_kind:
  assumes "process_command h c target n = (t, h')"
  shows "t = TransResetApplication \<Longrightarrow> nmt_state h' = Initializing"
    and "t = TransResetCommunication \<Longrightarrow> nmt_state h' = Initializing"
    and "t = NoTransition \<Longrightarrow> h' = h"
    and "t = StateChanged \<Longrightarrow> nmt_state h' \<noteq> nmt_state h \<and> nmt_state h' \<noteq> Initializing"
  using assms
  by (auto simp: process_command_def Let_def split: if_splits nmt_command.splits)

section \<open>Runs of the state machine\<close>

text \<open>
  What happens to the handler over time: NMT frames arrive, and initialisation completes.
\<close>

datatype nmt_event = Command nmt_command u8 | BootComplete

inductive nmt_step :: "node_id \<Rightarrow> nmt_handler \<Rightarrow> nmt_event \<Rightarrow> nmt_handler \<Rightarrow> bool"
  for our :: node_id where
  command: "process_command h c target our = (t, h') \<Longrightarrow> nmt_step our h (Command c target) h'"
| boot: "nmt_step our h BootComplete (boot_complete h)"

inductive_cases nmt_step_commandE: "nmt_step our h (Command c target) h'"
inductive_cases nmt_step_bootE: "nmt_step our h BootComplete h'"

inductive nmt_steps :: "node_id \<Rightarrow> nmt_handler \<Rightarrow> nmt_event list \<Rightarrow> nmt_handler \<Rightarrow> bool"
  for our :: node_id where
  refl: "nmt_steps our h [] h"
| step: "nmt_step our h e h' \<Longrightarrow> nmt_steps our h' es h'' \<Longrightarrow> nmt_steps our h (e # es) h''"

inductive_simps nmt_steps_Nil: "nmt_steps our h [] h'"
inductive_simps nmt_steps_Cons: "nmt_steps our h (e # es) h'"

lemma nmt_steps_append:
  "nmt_steps our h (es @ fs) h'' \<longleftrightarrow> (\<exists>h'. nmt_steps our h es h' \<and> nmt_steps our h' fs h'')"
  by (induction es arbitrary: h) (auto simp: nmt_steps_Nil nmt_steps_Cons)

lemma nmt_steps_initializing:
  "nmt_steps our h es h' \<Longrightarrow> nmt_state h = Initializing \<Longrightarrow> BootComplete \<notin> set es \<Longrightarrow> h' = h"
proof (induction rule: nmt_steps.induct)
  case (step h e h' es h'')
  then obtain c target t where "process_command h c target our = (t, h')"
    by (auto elim: nmt_step.cases)
  then have "h' = h" using process_command_initializing [OF step.prems(1)] by (metis snd_conv)
  with step show ?case by simp
qed simp

text \<open>
  Operational is reached only by a Start command addressed to the node after it has booted.
\<close>

lemma nmt_operational_cause:
  assumes "nmt_steps our nmt_new es h" and "nmt_state h = Operational"
  shows "\<exists>pre target post. es = pre @ Command StartRemoteNode target # post
     \<and> (target = 0 \<or> target = node_raw our) \<and> BootComplete \<in> set pre"
  using assms
proof (induction es arbitrary: h rule: rev_induct)
  case Nil
  then show ?case by (simp add: nmt_steps_Nil nmt_new_def)
next
  case (snoc e es)
  then obtain g where g: "nmt_steps our nmt_new es g" "nmt_step our g e h"
    by (auto simp: nmt_steps_append nmt_steps_Nil nmt_steps_Cons)
  show ?case
  proof (cases "nmt_state g = Operational")
    case True
    with snoc.IH [OF g(1)] show ?thesis by fastforce
  next
    case False
    from g(2) show ?thesis
    proof cases
      case (command c target t)
      have "e = Command StartRemoteNode target \<and> (target = 0 \<or> target = node_raw our)
          \<and> nmt_state g \<noteq> Initializing"
        using command False snoc.prems(2)
        by (auto simp: process_command_def Let_def split: if_splits nmt_command.splits)
      moreover then have "BootComplete \<in> set es"
        using nmt_steps_initializing [OF g(1)] by (cases "BootComplete \<in> set es") (auto simp: nmt_new_def)
      ultimately show ?thesis by blast
    next
      case boot
      with snoc.prems(2) show ?thesis by (simp add: boot_complete_def)
    qed
  qed
qed

section \<open>Properties\<close>

text \<open>
  In every run of the NMT slave from power-on, the node is Operational only after
  initialisation completed and a Start command addressed to it (or broadcast) was received.
\<close>

theorem nmt_operational_only_by_start:
  assumes "nmt_steps our nmt_new es h" and "nmt_state h = Operational"
  shows "\<exists>pre target post. es = pre @ Command StartRemoteNode target # post
     \<and> (target = 0 \<or> target = node_raw our) \<and> BootComplete \<in> set pre"
  using assms by (rule nmt_operational_cause)

theorem nmt_operational_only_by_start_witness:
  "\<exists>pre target post. [BootComplete, Command StartRemoteNode 5] = pre @ Command StartRemoteNode target # post
     \<and> (target = 0 \<or> target = node_raw (NodeId 5)) \<and> BootComplete \<in> set pre"
proof (rule nmt_operational_only_by_start [where h = "\<lparr>nmt_state = Operational\<rparr>"])
  show "nmt_steps (NodeId 5) nmt_new [BootComplete, Command StartRemoteNode 5] \<lparr>nmt_state = Operational\<rparr>"
    by (auto simp: nmt_steps_Cons nmt_steps_Nil nmt_step.simps nmt_new_def boot_complete_def process_command_def Let_def)
qed simp

end
