(* ===== verification/Data_Types.thy ===== *)
theory Data_Types
  imports Prelude
begin

text \<open>The CANopen data type codes of \<open>canopen-core/src/datatypes.rs\<close>.\<close>

datatype data_type =
    Boolean | I8 | I16 | I32 | U8 | U16 | U32 | Real32 | VisibleString | OctetString | Domain
  | I24 | U24 | Real64 | I64 | U64

definition dt_size :: "data_type \<Rightarrow> usize option" where
  "dt_size t = (case t of
     Boolean \<Rightarrow> Some 1 | U8 \<Rightarrow> Some 1 | I8 \<Rightarrow> Some 1
   | U16 \<Rightarrow> Some 2 | I16 \<Rightarrow> Some 2
   | I24 \<Rightarrow> Some 3 | U24 \<Rightarrow> Some 3
   | U32 \<Rightarrow> Some 4 | I32 \<Rightarrow> Some 4 | Real32 \<Rightarrow> Some 4
   | U64 \<Rightarrow> Some 8 | I64 \<Rightarrow> Some 8 | Real64 \<Rightarrow> Some 8
   | VisibleString \<Rightarrow> None | OctetString \<Rightarrow> None | Domain \<Rightarrow> None)"

text \<open>The discriminants of the \<open>repr(u16)\<close> enum.\<close>

definition dt_code :: "data_type \<Rightarrow> u16" where
  "dt_code t = (case t of
     Boolean \<Rightarrow> 0x0001 | I8 \<Rightarrow> 0x0002 | I16 \<Rightarrow> 0x0003 | I32 \<Rightarrow> 0x0004 | U8 \<Rightarrow> 0x0005
   | U16 \<Rightarrow> 0x0006 | U32 \<Rightarrow> 0x0007 | Real32 \<Rightarrow> 0x0008 | VisibleString \<Rightarrow> 0x0009
   | OctetString \<Rightarrow> 0x000A | Domain \<Rightarrow> 0x000F | I24 \<Rightarrow> 0x0010 | U24 \<Rightarrow> 0x0016
   | Real64 \<Rightarrow> 0x0011 | I64 \<Rightarrow> 0x0015 | U64 \<Rightarrow> 0x001B)"

definition dt_from_code :: "u16 \<Rightarrow> data_type option" where
  "dt_from_code c =
     (if c = 0x0001 then Some Boolean else if c = 0x0002 then Some I8
      else if c = 0x0003 then Some I16 else if c = 0x0004 then Some I32
      else if c = 0x0005 then Some U8 else if c = 0x0006 then Some U16
      else if c = 0x0007 then Some U32 else if c = 0x0008 then Some Real32
      else if c = 0x0009 then Some VisibleString else if c = 0x000A then Some OctetString
      else if c = 0x000F then Some Domain else if c = 0x0010 then Some I24
      else if c = 0x0016 then Some U24 else if c = 0x0011 then Some Real64
      else if c = 0x0015 then Some I64 else if c = 0x001B then Some U64 else None)"

lemma dt_from_code_code: "dt_from_code (dt_code t) = Some t"
  by (cases t) (simp_all add: dt_code_def dt_from_code_def)

lemma dt_code_from_code: "dt_from_code c = Some t \<Longrightarrow> dt_code t = c"
  by (auto simp: dt_code_def dt_from_code_def split: if_splits)

lemma dt_size_bound: "dt_size t = Some n \<Longrightarrow> 1 \<le> n \<and> n \<le> 8"
  by (cases t) (auto simp: dt_size_def)

end
