(* ===== verification/Object_Dictionary.thy ===== *)
theory Object_Dictionary
  imports Data_Types Cob_Id Sdo_Protocol
begin

text \<open>
  The object dictionary interface of \<open>canopen-core/src/od.rs\<close>. The trait
  \<open>ObjectDictionary\<close> is a record of operations over a dictionary state \<open>'od\<close>, which every
  client of the dictionary takes as an argument; the locale \<open>object_dictionary\<close> states the
  laws that the dictionaries generated by \<open>object_dictionary!\<close> satisfy.
\<close>

section \<open>Entries, errors and events\<close>

datatype access_type = Ro | Wo | Rw | Const

record od_entry_meta =
  meta_index :: u16
  meta_subindex :: u8
  meta_data_type :: data_type
  meta_access :: access_type
  meta_pdo_mappable :: bool
  meta_name :: string
  meta_max_size :: "u16 option"

datatype od_error =
    NotFound | ReadOnly | WriteOnly | DataTypeMismatch | ValueTooLong | ValueRange
  | HardwareError | AbortWith sdo_abort

datatype od_event_source = SrcSdo | SrcRpdo | SrcRpdoDeadline

record od_event =
  ev_index :: u16
  ev_subindex :: u8
  ev_source :: od_event_source

section \<open>The trait\<close>

text \<open>
  \<open>read\<close> writes into the caller's buffer and returns the number of bytes, so its model
  takes the buffer and returns it; \<open>write\<close> returns the changed dictionary.
\<close>

record 'od od_ops =
  od_lookup :: "'od \<Rightarrow> u16 \<Rightarrow> u8 \<Rightarrow> od_entry_meta option"
  od_read :: "'od \<Rightarrow> u16 \<Rightarrow> u8 \<Rightarrow> bytes \<Rightarrow> (od_error + usize) \<times> bytes"
  od_write :: "'od \<Rightarrow> u16 \<Rightarrow> u8 \<Rightarrow> bytes \<Rightarrow> (od_error + unit) \<times> 'od"
  od_sub_count :: "'od \<Rightarrow> u16 \<Rightarrow> u8 option"
  od_validate_write :: "'od \<Rightarrow> u16 \<Rightarrow> u8 \<Rightarrow> bytes \<Rightarrow> od_error + unit"
  od_store_sdo_server_cob_ids :: "'od \<Rightarrow> node_id \<Rightarrow> 'od"
  od_store_error_register :: "'od \<Rightarrow> u8 \<Rightarrow> 'od"

text \<open>The provided default of \<open>validate_write\<close>.\<close>

definition validate_write_default :: "'od \<Rightarrow> u16 \<Rightarrow> u8 \<Rightarrow> bytes \<Rightarrow> od_error + unit" where
  "validate_write_default od index subindex data = Inr ()"

section \<open>The laws the stack relies on\<close>

text \<open>
  \<open>val\<close> is the readable content of an entry as wire bytes. A read of a readable entry that
  fits the buffer returns exactly that content and leaves the rest of the buffer alone; a read
  that fails does not touch the buffer; a write changes at most the entry it names, and a
  refused write changes nothing.
\<close>

locale object_dictionary =
  fixes ops :: "'od od_ops"
    and val :: "'od \<Rightarrow> u16 \<Rightarrow> u8 \<Rightarrow> bytes option"
    and inv :: "'od \<Rightarrow> bool"
  assumes read_ok: "inv od \<Longrightarrow> val od i s = Some v \<Longrightarrow> length v \<le> length buf \<Longrightarrow>
      od_read ops od i s buf = (Inr (length v), overwrite buf 0 v)"
    and read_short: "inv od \<Longrightarrow> val od i s = Some v \<Longrightarrow> length buf < length v \<Longrightarrow>
      od_read ops od i s buf = (Inl ValueTooLong, buf)"
    and read_none: "inv od \<Longrightarrow> val od i s = None \<Longrightarrow> \<exists>e. od_read ops od i s buf = (Inl e, buf)"
    and write_frame: "inv od \<Longrightarrow> od_write ops od i s d = (Inr (), od') \<Longrightarrow> (i', s') \<noteq> (i, s) \<Longrightarrow>
      val od' i' s' = val od i' s'"
    and write_refused: "inv od \<Longrightarrow> od_write ops od i s d = (Inl e, od') \<Longrightarrow> od' = od"
    and write_inv: "inv od \<Longrightarrow> od_write ops od i s d = (r, od') \<Longrightarrow> inv od'"
    and store_error_register_inv: "inv od \<Longrightarrow> inv (od_store_error_register ops od b)"
    and store_sdo_server_inv: "inv od \<Longrightarrow> inv (od_store_sdo_server_cob_ids ops od n)"
begin

lemma read_cases:
  assumes "inv od"
  obtains (ok) v where "val od i s = Some v" "length v \<le> length buf"
      "od_read ops od i s buf = (Inr (length v), overwrite buf 0 v)"
  | (err) e where "od_read ops od i s buf = (Inl e, buf)"
proof (cases "val od i s")
  case None
  with read_none [OF assms, of i s buf] err show thesis by blast
next
  case (Some v)
  with read_ok [OF assms, of i s v buf] read_short [OF assms, of i s v buf] ok err
  show thesis by (cases "length v \<le> length buf") auto
qed

lemma read_length: "inv od \<Longrightarrow> od_read ops od i s buf = (r, buf') \<Longrightarrow> length buf' = length buf"
  by (rule read_cases [of od i s buf]) auto

lemma read_count: "inv od \<Longrightarrow> od_read ops od i s buf = (Inr n, buf') \<Longrightarrow> n \<le> length buf"
  by (rule read_cases [of od i s buf]) auto

lemma read_content:
  "inv od \<Longrightarrow> od_read ops od i s buf = (Inr n, buf') \<Longrightarrow> val od i s = Some (take n buf')"
  by (rule read_cases [of od i s buf]) auto

end

end
