(* ===== verification/Sdo_Validate.thy ===== *)
theory Sdo_Validate
  imports Nmt Object_Dictionary Sync_Object
begin

text \<open>
  The parts of \<open>canopen-core/src/sdo/server.rs\<close> around the transfer state machine: the
  request context with the COB-ID plan of the owning node, the CRC of block transfers, the
  event queue, the validation of configuration downloads, and the mapping of dictionary
  errors to abort codes.
\<close>

section \<open>Context\<close>

record sdo_cob_ids =
  default_rx :: u16
  default_tx :: u16
  extra_rx :: "u16 list"
  extra_tx :: "u16 list"

definition sdo_claims :: "sdo_cob_ids \<Rightarrow> u16 \<Rightarrow> bool" where
  "sdo_claims c cob \<longleftrightarrow> cob \<noteq> 0 \<and>
     (cob = default_rx c \<or> cob = default_tx c \<or> cob \<in> set (extra_rx c) \<or> cob \<in> set (extra_tx c))"

record reserved_cob_ids =
  reserved_ids :: "u16 list"
  reserved_truncated :: bool

definition reserved_claims :: "reserved_cob_ids \<Rightarrow> u16 \<Rightarrow> bool" where
  "reserved_claims r cob \<longleftrightarrow> cob \<noteq> 0 \<and> (reserved_truncated r \<or> cob \<in> set (reserved_ids r))"

definition sdo_cob_ids_default :: sdo_cob_ids where
  "sdo_cob_ids_default = \<lparr>default_rx = 0, default_tx = 0, extra_rx = [], extra_tx = []\<rparr>"

definition reserved_cob_ids_default :: reserved_cob_ids where
  "reserved_cob_ids_default = \<lparr>reserved_ids = [], reserved_truncated = False\<rparr>"

record sdo_context =
  ctx_nmt_state :: nmt_state
  ctx_now_us :: u64
  ctx_heartbeat_consumer_count :: u8
  ctx_cob_ids :: sdo_cob_ids
  ctx_reserved_cob_ids :: reserved_cob_ids
  ctx_sync_cob_id :: u16

section \<open>CRC-16/CCITT\<close>

definition crc_bit :: "u16 \<Rightarrow> u16" where
  "crc_bit crc = (if crc AND 0x8000 \<noteq> 0 then push_bit 1 crc XOR 0x1021 else push_bit 1 crc)"

definition crc_byte :: "u16 \<Rightarrow> u8 \<Rightarrow> u16" where
  "crc_byte crc b = (crc_bit ^^ 8) (crc XOR push_bit 8 (ucast b))"

definition crc16_ccitt_update :: "u16 \<Rightarrow> bytes \<Rightarrow> u16" where
  "crc16_ccitt_update crc data = foldl crc_byte crc data"

section \<open>Events\<close>

definition push_event :: "nat \<Rightarrow> od_event list \<Rightarrow> od_event \<Rightarrow> od_event list" where
  "push_event N events e = push_evict N events e"

definition sdo_event :: "u16 \<Rightarrow> u8 \<Rightarrow> od_event" where
  "sdo_event i s = \<lparr>ev_index = i, ev_subindex = s, ev_source = SrcSdo\<rparr>"

section \<open>Validation of downloads\<close>

definition is_pdo_config_index :: "u16 \<Rightarrow> bool" where
  "is_pdo_config_index index \<longleftrightarrow> index \<ge> 0x1400 \<and> index \<le> 0x1BFF"

definition validate_sync_cob_id_write ::
  "sdo_cob_ids \<Rightarrow> reserved_cob_ids \<Rightarrow> u16 \<Rightarrow> u8 \<Rightarrow> bytes \<Rightarrow> abort_code + unit" where
  "validate_sync_cob_id_write sdo_cobs reserved_cobs index subindex data =
     (if index \<noteq> 0x1005 \<or> subindex \<noteq> 0 \<or> length data \<noteq> 4 then Inr ()
      else let raw = from_le_bytes data :: u32 in
        if \<not> is_supported_sync_cob_id raw then Inl ValueRangeExceeded
        else let cob = ucast (raw AND 0x7FF) in
          if sdo_claims sdo_cobs cob \<or> reserved_claims reserved_cobs cob
          then Inl ParameterIncompatibility else Inr ())"

definition validate_sync_counter_overflow_write :: "u16 \<Rightarrow> u8 \<Rightarrow> bytes \<Rightarrow> abort_code + unit" where
  "validate_sync_counter_overflow_write index subindex data =
     (if index \<noteq> 0x1019 \<or> subindex \<noteq> 0 \<or> data = [] then Inr ()
      else if \<not> is_valid_sync_counter_overflow (data ! 0) then Inl ValueRangeExceeded
      else Inr ())"

definition is_pdo_comm_param :: "u16 \<Rightarrow> bool" where
  "is_pdo_comm_param index \<longleftrightarrow>
     (0x1400 \<le> index \<and> index \<le> 0x15FF) \<or> (0x1800 \<le> index \<and> index \<le> 0x19FF)"

definition validate_pdo_cob_id_write ::
  "sdo_cob_ids \<Rightarrow> u16 \<Rightarrow> u16 \<Rightarrow> u8 \<Rightarrow> bytes \<Rightarrow> abort_code + unit" where
  "validate_pdo_cob_id_write sdo_cobs sync_cob_id index subindex data =
     (if \<not> is_pdo_comm_param index \<or> subindex \<noteq> 1 \<or> length data \<noteq> 4 then Inr ()
      else let raw = from_le_bytes data :: u32 in
        if raw AND 0x3FFFF800 \<noteq> 0 then Inl ValueRangeExceeded
        else let cob = ucast (raw AND 0x7FF) in
          if sdo_claims sdo_cobs cob \<or> (cob \<noteq> 0 \<and> cob = sync_cob_id)
          then Inl ParameterIncompatibility else Inr ())"

text \<open>
  The loop over the other 0x1016 entries; \<open>buf\<close> is the four-byte buffer reused by every
  \<open>read\<close> of the loop.
\<close>

primrec duplicate_producer ::
  "'od od_ops \<Rightarrow> 'od \<Rightarrow> u16 \<Rightarrow> u8 \<Rightarrow> u32 \<Rightarrow> bytes \<Rightarrow> u8 list \<Rightarrow> bool" where
  "duplicate_producer ops od index subindex node buf [] = False"
| "duplicate_producer ops od index subindex node buf (sub # subs) =
     (if sub = subindex then duplicate_producer ops od index subindex node buf subs
      else case od_read ops od index sub buf of (r, buf') \<Rightarrow>
        (if is_ok r \<and>
            (let other = from_le_bytes buf' :: u32
             in other AND 0xFFFF \<noteq> 0 \<and> drop_bit 16 other AND 0xFF = node)
         then True
         else duplicate_producer ops od index subindex node buf' subs))"

definition subs_upto :: "u8 \<Rightarrow> u8 list" where
  "subs_upto count = map of_nat [1..<Suc (unat count)]"

definition validate_heartbeat_consumer_write ::
  "'od od_ops \<Rightarrow> 'od \<Rightarrow> sdo_cob_ids \<Rightarrow> u16 \<Rightarrow> u8 \<Rightarrow> u16 \<Rightarrow> u8 \<Rightarrow> bytes \<Rightarrow> abort_code + unit" where
  "validate_heartbeat_consumer_write ops od sdo_cobs sync_cob_id hb_count index subindex data =
     (if index \<noteq> 0x1016 \<or> subindex = 0 \<or> length data \<noteq> 4 then Inr ()
      else let raw = from_le_bytes data :: u32 in
        if drop_bit 24 raw \<noteq> 0 then Inl ValueRangeExceeded
        else if raw AND 0xFFFF = 0 then Inr ()
        else let node = drop_bit 16 raw AND 0xFF in
          if node = 0 \<or> node > 127 then Inl ValueRangeExceeded
          else if subindex \<le> hb_count \<and>
                  (let cob = 0x700 + ucast node in sdo_claims sdo_cobs cob \<or> cob = sync_cob_id)
          then Inl ParameterIncompatibility
          else let count = (case od_sub_count ops od index of Some c \<Rightarrow> c | None \<Rightarrow> 0) in
            if duplicate_producer ops od index subindex node (replicate 4 0) (subs_upto count)
            then Inl ParameterIncompatibility else Inr ())"

section \<open>Abort codes for dictionary errors\<close>

definition od_error_to_abort :: "'od od_ops \<Rightarrow> 'od \<Rightarrow> u16 \<Rightarrow> od_error \<Rightarrow> sdo_abort" where
  "od_error_to_abort ops od index e = (case e of
     NotFound \<Rightarrow> if od_lookup ops od index 0 \<noteq> None then abort_of_code SubindexNotFound
                 else abort_of_code ObjectNotFound
   | ReadOnly \<Rightarrow> abort_of_code ReadOnlyObject
   | WriteOnly \<Rightarrow> abort_of_code WriteOnlyObject
   | DataTypeMismatch \<Rightarrow> abort_of_code DataTypeMismatchCode
   | ValueTooLong \<Rightarrow> abort_of_code LengthTooHigh
   | ValueRange \<Rightarrow> abort_of_code ValueRangeExceeded
   | HardwareError \<Rightarrow> abort_of_code HardwareErrorCode
   | AbortWith code \<Rightarrow> code)"

definition od_read_abort :: "'od od_ops \<Rightarrow> 'od \<Rightarrow> u16 \<Rightarrow> od_error \<Rightarrow> sdo_abort" where
  "od_read_abort ops od index e = (case e of
     ValueTooLong \<Rightarrow> abort_of_code OutOfMemory
   | e \<Rightarrow> od_error_to_abort ops od index e)"

text \<open>\<open>od.lookup(index, subindex).and_then(|m| m.data_type.size())\<close>\<close>

definition lookup_size :: "'od od_ops \<Rightarrow> 'od \<Rightarrow> u16 \<Rightarrow> u8 \<Rightarrow> usize option" where
  "lookup_size ops od index subindex =
     Option.bind (od_lookup ops od index subindex) (\<lambda>m. dt_size (meta_data_type m))"

definition od_write_abort :: "'od od_ops \<Rightarrow> 'od \<Rightarrow> u16 \<Rightarrow> u8 \<Rightarrow> usize \<Rightarrow> od_error \<Rightarrow> sdo_abort" where
  "od_write_abort ops od index subindex data_len e =
     (case (if e = DataTypeMismatch then lookup_size ops od index subindex else None) of
        Some sz \<Rightarrow>
          if data_len > sz then abort_of_code LengthTooHigh
          else if data_len < sz then abort_of_code LengthTooLow
          else od_error_to_abort ops od index e
      | None \<Rightarrow> od_error_to_abort ops od index e)"

text \<open>\<open>validate_download\<close>: the four checks in order, then the application's hook.\<close>

definition validate_download ::
  "'od od_ops \<Rightarrow> 'od \<Rightarrow> sdo_context \<Rightarrow> u16 \<Rightarrow> u8 \<Rightarrow> bytes \<Rightarrow> sdo_abort + unit" where
  "validate_download ops od ctx index subindex data =
     (case validate_heartbeat_consumer_write ops od (ctx_cob_ids ctx) (ctx_sync_cob_id ctx)
             (ctx_heartbeat_consumer_count ctx) index subindex data of
        Inl c \<Rightarrow> Inl (abort_of_code c)
      | Inr _ \<Rightarrow>
     (case validate_pdo_cob_id_write (ctx_cob_ids ctx) (ctx_sync_cob_id ctx) index subindex data of
        Inl c \<Rightarrow> Inl (abort_of_code c)
      | Inr _ \<Rightarrow>
     (case validate_sync_cob_id_write (ctx_cob_ids ctx) (ctx_reserved_cob_ids ctx) index subindex data of
        Inl c \<Rightarrow> Inl (abort_of_code c)
      | Inr _ \<Rightarrow>
     (case validate_sync_counter_overflow_write index subindex data of
        Inl c \<Rightarrow> Inl (abort_of_code c)
      | Inr _ \<Rightarrow>
     (case od_validate_write ops od index subindex data of
        Inl e \<Rightarrow> Inl (od_write_abort ops od index subindex (length data) e)
      | Inr _ \<Rightarrow> Inr ())))))"

section \<open>Lemmas\<close>

lemma crc_append:
  "crc16_ccitt_update crc (xs @ ys) = crc16_ccitt_update (crc16_ccitt_update crc xs) ys"
  by (simp add: crc16_ccitt_update_def)

lemma length_push_event: "length q \<le> N \<Longrightarrow> length (push_event N q e) \<le> N"
  by (simp add: push_event_def length_push_evict)

lemma validate_download_ok:
  assumes "validate_download ops od ctx index subindex data = Inr ()"
  shows "validate_heartbeat_consumer_write ops od (ctx_cob_ids ctx) (ctx_sync_cob_id ctx)
           (ctx_heartbeat_consumer_count ctx) index subindex data = Inr ()"
    and "validate_pdo_cob_id_write (ctx_cob_ids ctx) (ctx_sync_cob_id ctx) index subindex data = Inr ()"
    and "validate_sync_cob_id_write (ctx_cob_ids ctx) (ctx_reserved_cob_ids ctx) index subindex data = Inr ()"
    and "validate_sync_counter_overflow_write index subindex data = Inr ()"
    and "od_validate_write ops od index subindex data = Inr ()"
  using assms by (auto simp: validate_download_def split: sum.splits unit.splits)

lemma validate_pdo_cob_id_write_ok:
  assumes "validate_pdo_cob_id_write cobs sync index 1 data = Inr ()"
    and "is_pdo_comm_param index" and "length data = 4"
  shows "(from_le_bytes data :: u32) AND 0x3FFFF800 = 0"
    and "\<not> sdo_claims cobs (ucast ((from_le_bytes data :: u32) AND 0x7FF))"
    and "ucast ((from_le_bytes data :: u32) AND 0x7FF) \<noteq> (0 :: u16) \<Longrightarrow>
         ucast ((from_le_bytes data :: u32) AND 0x7FF) \<noteq> sync"
  using assms by (auto simp: validate_pdo_cob_id_write_def Let_def split: if_splits)

lemma validate_sync_cob_id_write_ok:
  assumes "validate_sync_cob_id_write cobs reserved 0x1005 0 data = Inr ()" and "length data = 4"
  shows "is_supported_sync_cob_id (from_le_bytes data)"
    and "\<not> sdo_claims cobs (ucast ((from_le_bytes data :: u32) AND 0x7FF))"
    and "\<not> reserved_claims reserved (ucast ((from_le_bytes data :: u32) AND 0x7FF))"
  using assms by (auto simp: validate_sync_cob_id_write_def Let_def split: if_splits)

end
