(* ===== verification/Sdo_Server.thy ===== *)
theory Sdo_Server
  imports Sdo_Validate
begin

text \<open>
  The SDO server state machine of \<open>canopen-core/src/sdo/server.rs\<close>: expedited, segmented and
  block transfers, timeouts, and \<open>process_with_context\<close>. The handlers pass the borrowed
  arguments of the source (server, dictionary, response buffer, event queue) as one record and
  return \<open>Some (ok, io)\<close>, where \<open>ok\<close> is \<open>True\<close> for \<open>Ok(())\<close> and
  \<open>False\<close> for \<open>Err(())\<close>; \<open>None\<close> is a panic.
\<close>

section \<open>State\<close>

abbreviation SDO_TIMEOUT_US :: u64 where "SDO_TIMEOUT_US \<equiv> 5000000"
abbreviation MAX_BLKSIZE :: u8 where "MAX_BLKSIZE \<equiv> 127"

text \<open>The length of the transfer buffers, \<open>[u8; 889]\<close>.\<close>

abbreviation BUF_LEN :: nat where "BUF_LEN \<equiv> 889"

datatype direction = Upload | Download

record segmented_transfer =
  seg_index :: u16
  seg_subindex :: u8
  seg_toggle :: bool
  seg_direction :: direction
  seg_buf :: bytes
  seg_offset :: usize
  seg_total_len :: usize
  seg_size_indicated :: bool
  seg_last_activity_us :: u64

record block_upload_state =
  bu_index :: u16
  bu_subindex :: u8
  bu_buf :: bytes
  bu_total_len :: usize
  bu_offset :: usize
  bu_subblock_start_offset :: usize
  bu_blksize :: u8
  bu_seqno :: u8
  bu_last_seqno :: u8
  bu_crc :: u16
  bu_last_activity_us :: u64

record block_download_state =
  bd_index :: u16
  bd_subindex :: u8
  bd_buf :: bytes
  bd_offset :: usize
  bd_total_len :: usize
  bd_size_indicated :: bool
  bd_blksize :: u8
  bd_seqno :: u8
  bd_awaiting_end :: bool
  bd_crc_enabled :: bool
  bd_last_activity_us :: u64

datatype transfer_state =
    Segmented segmented_transfer
  | BlockUpload block_upload_state
  | BlockDownload block_download_state

definition last_activity_us :: "transfer_state \<Rightarrow> u64" where
  "last_activity_us t = (case t of
     Segmented t \<Rightarrow> seg_last_activity_us t
   | BlockUpload t \<Rightarrow> bu_last_activity_us t
   | BlockDownload t \<Rightarrow> bd_last_activity_us t)"

definition index_sub :: "transfer_state \<Rightarrow> u16 \<times> u8" where
  "index_sub t = (case t of
     Segmented t \<Rightarrow> (seg_index t, seg_subindex t)
   | BlockUpload t \<Rightarrow> (bu_index t, bu_subindex t)
   | BlockDownload t \<Rightarrow> (bd_index t, bd_subindex t))"

record sdo_server =
  transfer :: "transfer_state option"
  committed_write :: "(u16 \<times> u8) option"

definition sdo_server_new :: sdo_server where
  "sdo_server_new = \<lparr>transfer = None, committed_write = None\<rparr>"

definition take_committed_write :: "sdo_server \<Rightarrow> (u16 \<times> u8) option \<times> sdo_server" where
  "take_committed_write srv = (committed_write srv, srv\<lparr>committed_write := None\<rparr>)"

definition abort_transfer :: "sdo_server \<Rightarrow> sdo_server" where
  "abort_transfer srv = srv\<lparr>transfer := None\<rparr>"

definition check_timeout :: "sdo_server \<Rightarrow> u64 \<Rightarrow> bytes option \<times> sdo_server" where
  "check_timeout srv now = (case transfer srv of
     Some t \<Rightarrow>
       if now - last_activity_us t \<ge> SDO_TIMEOUT_US then
         (case index_sub t of (idx, sub) \<Rightarrow>
            (Some (encode_abort idx sub SdoProtocolTimeout), srv\<lparr>transfer := None\<rparr>))
       else (None, srv)
   | None \<Rightarrow> (None, srv))"

section \<open>Sending block upload segments\<close>

definition poll_block_upload :: "sdo_server \<Rightarrow> u64 \<Rightarrow> (bytes option \<times> sdo_server) option" where
  "poll_block_upload srv now = (case transfer srv of
     Some (BlockUpload st) \<Rightarrow>
       if bu_seqno st = 0 then Some (None, srv)
       else do {
         remaining \<leftarrow> sub_usize (bu_total_len st) (bu_offset st);
         let seg_data_len = min remaining 7;
         let is_last_segment = (remaining \<le> 7);
         let is_last_in_subblock = (bu_seqno st \<ge> bu_blksize st \<or> is_last_segment);
         let byte0 = (if is_last_segment \<and> is_last_in_subblock then bu_seqno st OR 0x80 else bu_seqno st);
         seg \<leftarrow> slice (bu_buf st) (bu_offset st) (bu_offset st + seg_data_len);
         frame \<leftarrow> copy_from_slice (byte0 # replicate 7 0) 1 seg;
         let st' = st\<lparr>bu_crc := crc16_ccitt_update (bu_crc st) seg,
                      bu_offset := bu_offset st + seg_data_len,
                      bu_last_activity_us := now,
                      bu_seqno := (if is_last_in_subblock then 0 else bu_seqno st + 1),
                      bu_last_seqno := byte0 AND 0x7F\<rparr>;
         Some (Some frame, srv\<lparr>transfer := Some (BlockUpload st')\<rparr>)
       }
   | _ \<Rightarrow> Some (None, srv))"

section \<open>The borrowed arguments of a request\<close>

record 'od sdo_io =
  io_server :: sdo_server
  io_od :: 'od
  io_response :: bytes
  io_events :: "od_event list"

abbreviation set_transfer :: "transfer_state option \<Rightarrow> 'od sdo_io \<Rightarrow> 'od sdo_io" where
  "set_transfer t io \<equiv> io\<lparr>io_server := (io_server io)\<lparr>transfer := t\<rparr>\<rparr>"

abbreviation respond :: "bytes \<Rightarrow> 'od sdo_io \<Rightarrow> 'od sdo_io" where
  "respond r io \<equiv> io\<lparr>io_response := r\<rparr>"

text \<open>
  The commit sequence shared by the three download paths: validate, write, record the commit
  and push the event. Every failure overwrites the whole response with an abort frame.
\<close>

definition commit_download ::
  "nat \<Rightarrow> 'od od_ops \<Rightarrow> sdo_context \<Rightarrow> u16 \<Rightarrow> u8 \<Rightarrow> bytes \<Rightarrow> 'od sdo_io \<Rightarrow> 'od sdo_io" where
  "commit_download N ops ctx index subindex data io =
     (case validate_download ops (io_od io) ctx index subindex data of
        Inl code \<Rightarrow> respond (encode_sdo_abort index subindex code) io
      | Inr _ \<Rightarrow>
        (case od_write ops (io_od io) index subindex data of
           (Inr _, od') \<Rightarrow>
             io\<lparr>io_od := od',
                io_server := (io_server io)\<lparr>committed_write := Some (index, subindex)\<rparr>,
                io_events := push_event N (io_events io) (sdo_event index subindex)\<rparr>
         | (Inl e, od') \<Rightarrow>
             io\<lparr>io_od := od',
                io_response := encode_sdo_abort index subindex
                  (od_write_abort ops od' index subindex (length data) e)\<rparr>))"

section \<open>Segmented transfers\<close>

definition handle_initiate_upload ::
  "'od od_ops \<Rightarrow> bytes \<Rightarrow> u64 \<Rightarrow> 'od sdo_io \<Rightarrow> (bool \<times> 'od sdo_io) option" where
  "handle_initiate_upload ops request now io =
     (case parse_index_sub request of (index, subindex) \<Rightarrow>
      case od_read ops (io_od io) index subindex (replicate BUF_LEN 0) of
        (Inl e, buf) \<Rightarrow>
          Some (True, respond (encode_sdo_abort index subindex
                  (od_read_abort ops (io_od io) index e)) io)
      | (Inr len, buf) \<Rightarrow>
          if len > 0 \<and> len \<le> 4 then do {
            v \<leftarrow> slice buf 0 len;
            resp \<leftarrow> encode_upload_response_expedited index subindex v;
            Some (True, set_transfer None (respond resp io))
          } else
            Some (True, set_transfer (Some (Segmented
                \<lparr>seg_index = index, seg_subindex = subindex, seg_toggle = False,
                 seg_direction = Upload, seg_buf = buf, seg_offset = 0, seg_total_len = len,
                 seg_size_indicated = True, seg_last_activity_us = now\<rparr>))
              (respond (encode_upload_response_segmented index subindex (of_nat len)) io)))"

definition handle_upload_segment ::
  "bytes \<Rightarrow> u64 \<Rightarrow> 'od sdo_io \<Rightarrow> (bool \<times> 'od sdo_io) option" where
  "handle_upload_segment request now io =
     (case transfer (io_server io) of
        Some (Segmented t) \<Rightarrow>
          if seg_direction t \<noteq> Upload
          then Some (True, respond (encode_abort 0 0 InvalidCommandSpecifier) io)
          else if (request ! 0 AND 0x10 \<noteq> 0) \<noteq> seg_toggle t
          then Some (True, set_transfer None
                 (respond (encode_abort (seg_index t) (seg_subindex t) ToggleBitNotAlternated) io))
          else do {
            remaining \<leftarrow> sub_usize (seg_total_len t) (seg_offset t);
            let seg_len = min remaining 7;
            let is_last = (remaining \<le> 7);
            seg \<leftarrow> slice (seg_buf t) (seg_offset t) (seg_offset t + seg_len);
            resp \<leftarrow> encode_upload_segment_response (seg_toggle t) seg is_last;
            let t' = t\<lparr>seg_offset := seg_offset t + seg_len, seg_toggle := \<not> seg_toggle t,
                       seg_last_activity_us := now\<rparr>;
            Some (True, set_transfer (if is_last then None else Some (Segmented t')) (respond resp io))
          }
      | _ \<Rightarrow> Some (True, respond (encode_abort 0 0 InvalidCommandSpecifier) io))"

definition handle_initiate_download ::
  "nat \<Rightarrow> 'od od_ops \<Rightarrow> bytes \<Rightarrow> sdo_context \<Rightarrow> 'od sdo_io \<Rightarrow> (bool \<times> 'od sdo_io) option" where
  "handle_initiate_download N ops request ctx io =
     (case parse_index_sub request of (index, subindex) \<Rightarrow>
      if ctx_nmt_state ctx = Operational \<and> is_pdo_config_index index
      then Some (True, respond (encode_abort index subindex DataTransferDeviceState) io)
      else
        let expedited = (request ! 0 AND 0x02 \<noteq> 0);
            size_indicated = (request ! 0 AND 0x01 \<noteq> 0)
        in if expedited then do {
             let data_len = (if size_indicated then 4 - unat (drop_bit 2 (request ! 0) AND 0x03)
                             else case lookup_size ops (io_od io) index subindex of
                               Some sz \<Rightarrow> min sz 4 | None \<Rightarrow> 4);
             data \<leftarrow> slice request 4 (4 + data_len);
             Some (True, set_transfer None
               (commit_download N ops ctx index subindex data
                 (respond (encode_download_response index subindex) io)))
           } else
             let total_len = (if size_indicated
                              then unat (from_le_bytes (drop 4 request) :: u32) else 0)
             in if total_len > BUF_LEN
                then Some (True, respond (encode_abort index subindex OutOfMemory) io)
                else Some (True, set_transfer (Some (Segmented
                    \<lparr>seg_index = index, seg_subindex = subindex, seg_toggle = False,
                     seg_direction = Download, seg_buf = replicate BUF_LEN 0, seg_offset = 0,
                     seg_total_len = total_len, seg_size_indicated = size_indicated,
                     seg_last_activity_us = ctx_now_us ctx\<rparr>))
                  (respond (encode_download_response index subindex) io)))"

definition handle_download_segment ::
  "nat \<Rightarrow> 'od od_ops \<Rightarrow> bytes \<Rightarrow> sdo_context \<Rightarrow> 'od sdo_io \<Rightarrow> (bool \<times> 'od sdo_io) option" where
  "handle_download_segment N ops request ctx io =
     (case transfer (io_server io) of
        Some (Segmented t) \<Rightarrow>
          if seg_direction t \<noteq> Download
          then Some (True, respond (encode_abort 0 0 InvalidCommandSpecifier) io)
          else
            let client_toggle = (request ! 0 AND 0x10 \<noteq> 0);
                fail = (\<lambda>code. Some (True, set_transfer None
                          (respond (encode_abort (seg_index t) (seg_subindex t) code) io)))
            in if client_toggle \<noteq> seg_toggle t then fail ToggleBitNotAlternated
            else
              let is_last = (request ! 0 AND 0x01 \<noteq> 0);
                  n = unat (drop_bit 1 (request ! 0) AND 0x07);
                  seg_len = 7 - n;
                  received = seg_offset t + seg_len
              in if seg_size_indicated t \<and>
                    (received > seg_total_len t \<or> (is_last \<and> received \<noteq> seg_total_len t))
                 then fail (if received > seg_total_len t then LengthTooHigh else LengthTooLow)
                 else if seg_offset t + seg_len > BUF_LEN then fail OutOfMemory
                 else do {
                   seg \<leftarrow> slice request 1 (1 + seg_len);
                   buf' \<leftarrow> copy_from_slice (seg_buf t) (seg_offset t) seg;
                   let t' = t\<lparr>seg_buf := buf', seg_offset := seg_offset t + seg_len,
                              seg_toggle := \<not> seg_toggle t,
                              seg_last_activity_us := ctx_now_us ctx\<rparr>;
                   let io' = respond (encode_download_segment_response client_toggle) io;
                   if is_last then do {
                     write_buf \<leftarrow> slice buf' 0 (seg_offset t');
                     Some (True, commit_download N ops ctx (seg_index t) (seg_subindex t) write_buf
                                   (set_transfer None io'))
                   } else Some (True, set_transfer (Some (Segmented t')) io')
                 }
      | _ \<Rightarrow> Some (True, respond (encode_abort 0 0 InvalidCommandSpecifier) io))"

section \<open>Block transfers\<close>

definition valid_blksize :: "u8 \<Rightarrow> bool" where
  "valid_blksize b \<longleftrightarrow> 1 \<le> b \<and> b \<le> MAX_BLKSIZE"

definition initiate_block_upload ::
  "'od od_ops \<Rightarrow> bytes \<Rightarrow> u64 \<Rightarrow> 'od sdo_io \<Rightarrow> (bool \<times> 'od sdo_io) option" where
  "initiate_block_upload ops request now io =
     (case parse_index_sub request of (index, subindex) \<Rightarrow>
      let client_blksize = request ! 4 in
      if \<not> valid_blksize client_blksize
      then Some (True, respond (encode_abort index subindex InvalidBlockSize) io)
      else case od_read ops (io_od io) index subindex (replicate BUF_LEN 0) of
        (Inl e, buf) \<Rightarrow>
          Some (True, respond (encode_sdo_abort index subindex
                  (od_read_abort ops (io_od io) index e)) io)
      | (Inr len, buf) \<Rightarrow>
          Some (True, set_transfer (Some (BlockUpload
              \<lparr>bu_index = index, bu_subindex = subindex, bu_buf = buf, bu_total_len = len,
               bu_offset = 0, bu_subblock_start_offset = 0, bu_blksize = client_blksize,
               bu_seqno = 0, bu_last_seqno = 0, bu_crc = 0, bu_last_activity_us = now\<rparr>))
            (respond (sdo_frame (push_bit 5 6 OR 0x04 OR 0x02) index subindex
                        (to_le_bytes 4 (of_nat len :: u32))) io)))"

text \<open>The end-of-upload response: unused bytes of the last segment and the CRC.\<close>

definition end_block_upload_response :: "usize \<Rightarrow> u16 \<Rightarrow> bytes" where
  "end_block_upload_response total_len crc =
     (let n_unused = (if total_len mod 7 = 0 then 0 else 7 - total_len mod 7)
      in [push_bit 5 6 OR 0x01 OR push_bit 2 (of_nat n_unused AND 0x07), lo8 crc, hi8 crc]
         @ replicate 5 0)"

definition ack_block_upload ::
  "bytes \<Rightarrow> u64 \<Rightarrow> block_upload_state \<Rightarrow> 'od sdo_io \<Rightarrow> (bool \<times> 'od sdo_io) option" where
  "ack_block_upload request now st io =
     (let ackseq = request ! 1;
          new_blksize = request ! 2;
          fail = (\<lambda>code. Some (True, set_transfer None
                    (respond (encode_abort (bu_index st) (bu_subindex st) code) io)))
      in if \<not> valid_blksize new_blksize then fail InvalidBlockSize
         else if ackseq > bu_last_seqno st then fail InvalidSequenceNumber
         else do {
           let acknowledged = unat ackseq * 7;
           let offset = min (bu_subblock_start_offset st + acknowledged) (bu_total_len st);
           sent \<leftarrow> slice (bu_buf st) 0 offset;
           let st' = st\<lparr>bu_offset := offset, bu_crc := crc16_ccitt_update 0 sent,
                        bu_subblock_start_offset := offset, bu_blksize := new_blksize,
                        bu_last_activity_us := now\<rparr>;
           if offset \<ge> bu_total_len st'
           then Some (True, set_transfer None
                  (respond (end_block_upload_response (bu_total_len st') (bu_crc st')) io))
           else Some (False, set_transfer
                  (Some (BlockUpload (st'\<lparr>bu_seqno := 1, bu_last_seqno := 0\<rparr>))) io)
         })"

definition handle_block_upload ::
  "'od od_ops \<Rightarrow> bytes \<Rightarrow> u64 \<Rightarrow> 'od sdo_io \<Rightarrow> (bool \<times> 'od sdo_io) option" where
  "handle_block_upload ops request now io =
     (let sub_cmd = request ! 0 AND 0x03;
          bad = Some (True, respond (encode_abort 0 0 InvalidCommandSpecifier) io)
      in if sub_cmd = 0 then initiate_block_upload ops request now io
         else if sub_cmd = 3 then
           (case transfer (io_server io) of
              Some (BlockUpload st) \<Rightarrow>
                if bu_seqno st = 0 \<and> bu_offset st = 0
                then Some (False, set_transfer (Some (BlockUpload
                       (st\<lparr>bu_seqno := 1, bu_last_activity_us := now\<rparr>))) io)
                else bad
            | _ \<Rightarrow> bad)
         else if sub_cmd = 2 then
           (case transfer (io_server io) of
              Some (BlockUpload st) \<Rightarrow>
                if bu_seqno st = 0 then ack_block_upload request now st io else Some (False, io)
            | _ \<Rightarrow> bad)
         else if sub_cmd = 1 then
           (case transfer (io_server io) of
              Some (BlockUpload st) \<Rightarrow> Some (False, set_transfer None io)
            | _ \<Rightarrow> Some (False, io))
         else bad)"

definition initiate_block_download ::
  "bytes \<Rightarrow> sdo_context \<Rightarrow> 'od sdo_io \<Rightarrow> (bool \<times> 'od sdo_io) option" where
  "initiate_block_download request ctx io =
     (case parse_index_sub request of (index, subindex) \<Rightarrow>
      let size_indicated = (request ! 0 AND 0x02 \<noteq> 0);
          crc_enabled = (request ! 0 AND 0x04 \<noteq> 0)
      in if ctx_nmt_state ctx = Operational \<and> is_pdo_config_index index
         then Some (True, respond (encode_abort index subindex DataTransferDeviceState) io)
         else
           let total_len = (if size_indicated
                            then unat (from_le_bytes (drop 4 request) :: u32) else 0)
           in if total_len > BUF_LEN
              then Some (True, respond (encode_abort index subindex OutOfMemory) io)
              else Some (True, set_transfer (Some (BlockDownload
                  \<lparr>bd_index = index, bd_subindex = subindex, bd_buf = replicate BUF_LEN 0,
                   bd_offset = 0, bd_total_len = total_len, bd_size_indicated = size_indicated,
                   bd_blksize = MAX_BLKSIZE, bd_seqno = 0, bd_awaiting_end = False,
                   bd_crc_enabled = crc_enabled, bd_last_activity_us = ctx_now_us ctx\<rparr>))
                (respond (sdo_frame (push_bit 5 5 OR 0x04) index subindex [MAX_BLKSIZE, 0, 0, 0]) io)))"

definition end_block_download ::
  "nat \<Rightarrow> 'od od_ops \<Rightarrow> bytes \<Rightarrow> sdo_context \<Rightarrow> block_download_state \<Rightarrow> 'od sdo_io
   \<Rightarrow> (bool \<times> 'od sdo_io) option" where
  "end_block_download N ops request ctx st io =
     (let n_unused = unat (drop_bit 2 (request ! 0) AND 0x07);
          client_crc = ucast (request ! 1) OR push_bit 8 (ucast (request ! 2)) :: u16;
          fail = (\<lambda>code. Some (True, set_transfer None
                    (respond (encode_abort (bd_index st) (bd_subindex st) code) io)))
      in if n_unused > 6 \<or> bd_offset st < n_unused then fail DataTransferError
         else do {
           data_len \<leftarrow> sub_usize (bd_offset st) n_unused;
           write_buf \<leftarrow> slice (bd_buf st) 0 data_len;
           if bd_size_indicated st \<and> data_len \<noteq> bd_total_len st
           then fail (if data_len > bd_total_len st then LengthTooHigh else LengthTooLow)
           else if bd_crc_enabled st \<and> crc16_ccitt_update 0 write_buf \<noteq> client_crc
           then fail CrcError
           else Some (True, commit_download N ops ctx (bd_index st) (bd_subindex st) write_buf
                  (set_transfer None (respond ((push_bit 5 5 OR 0x01) # replicate 7 0) io)))
         })"

definition handle_block_download ::
  "nat \<Rightarrow> 'od od_ops \<Rightarrow> bytes \<Rightarrow> sdo_context \<Rightarrow> 'od sdo_io \<Rightarrow> (bool \<times> 'od sdo_io) option" where
  "handle_block_download N ops request ctx io =
     (if request ! 0 AND 0x01 = 0 then initiate_block_download request ctx io
      else case transfer (io_server io) of
        Some (BlockDownload st) \<Rightarrow> end_block_download N ops request ctx st io
      | _ \<Rightarrow> Some (True, respond (encode_abort 0 0 InvalidCommandSpecifier) io))"

definition handle_block_download_segment ::
  "bytes \<Rightarrow> u64 \<Rightarrow> 'od sdo_io \<Rightarrow> (bool \<times> 'od sdo_io) option" where
  "handle_block_download_segment request now io =
     (case transfer (io_server io) of
        Some (BlockDownload st) \<Rightarrow>
          let seqno = request ! 0 AND 0x7F;
              is_last = (request ! 0 AND 0x80 \<noteq> 0);
              expected_seqno = bd_seqno st + 1;
              fail = (\<lambda>code. Some (True, set_transfer None
                        (respond (encode_abort (bd_index st) (bd_subindex st) code) io)))
          in if seqno = 0 \<or> seqno \<noteq> expected_seqno then fail InvalidSequenceNumber
             else do {
               space \<leftarrow> sub_usize BUF_LEN (bd_offset st);
               if space < 7 then fail OutOfMemory
               else do {
                 seg \<leftarrow> slice request 1 8;
                 buf' \<leftarrow> copy_from_slice (bd_buf st) (bd_offset st) seg;
                 let st' = st\<lparr>bd_buf := buf', bd_offset := bd_offset st + 7, bd_seqno := seqno,
                              bd_last_activity_us := now\<rparr>;
                 if is_last \<or> seqno \<ge> bd_blksize st'
                 then Some (True, set_transfer (Some (BlockDownload
                        (if is_last then st'\<lparr>bd_awaiting_end := True\<rparr> else st'\<lparr>bd_seqno := 0\<rparr>)))
                      (respond ([push_bit 5 5 OR 0x02, bd_seqno st', bd_blksize st'] @ replicate 5 0) io))
                 else Some (False, set_transfer (Some (BlockDownload st')) io)
               }
             }
      | _ \<Rightarrow> Some (True, respond (encode_abort 0 0 InvalidCommandSpecifier) io))"

section \<open>Dispatch\<close>

definition dispatch_request ::
  "nat \<Rightarrow> 'od od_ops \<Rightarrow> bytes \<Rightarrow> sdo_context \<Rightarrow> 'od sdo_io \<Rightarrow> (bool \<times> 'od sdo_io) option" where
  "dispatch_request N ops request ctx io =
     (let now = ctx_now_us ctx; cs = command_specifier (request ! 0) in
      if cs = ccs_val CcsInitiateUpload then handle_initiate_upload ops request now io
      else if cs = ccs_val CcsUploadSegment then handle_upload_segment request now io
      else if cs = ccs_val CcsInitiateDownload then handle_initiate_download N ops request ctx io
      else if cs = ccs_val CcsDownloadSegment then handle_download_segment N ops request ctx io
      else if cs = ccs_val CcsBlockUpload then handle_block_upload ops request now io
      else if cs = ccs_val CcsBlockDownload then handle_block_download N ops request ctx io
      else if cs = ccs_val CcsAbortTransfer then Some (False, set_transfer None io)
      else case parse_index_sub request of (index, subindex) \<Rightarrow>
        Some (True, respond (encode_abort index subindex InvalidCommandSpecifier) io))"

definition is_receiving_block :: "sdo_server \<Rightarrow> bool" where
  "is_receiving_block srv = (case transfer srv of
     Some (BlockDownload st) \<Rightarrow> \<not> bd_awaiting_end st | _ \<Rightarrow> False)"

definition process_with_context ::
  "nat \<Rightarrow> 'od od_ops \<Rightarrow> bytes \<Rightarrow> sdo_context \<Rightarrow> 'od sdo_io \<Rightarrow> (bool \<times> 'od sdo_io) option" where
  "process_with_context N ops request ctx io =
     (if is_receiving_block (io_server io) \<and> request ! 0 \<noteq> 0x80
      then handle_block_download_segment request (ctx_now_us ctx) io
      else do {
        (ok, io') \<leftarrow> dispatch_request N ops request ctx io;
        Some (ok, if ok \<and> io_response io' ! 0 = 0x80 then set_transfer None io' else io')
      })"

text \<open>\<open>SdoServer::process\<close>: no node around the server, so nothing is claimed.\<close>

definition standalone_context :: "nmt_state \<Rightarrow> u64 \<Rightarrow> sdo_context" where
  "standalone_context st now = \<lparr>ctx_nmt_state = st, ctx_now_us = now,
     ctx_heartbeat_consumer_count = 0, ctx_cob_ids = sdo_cob_ids_default,
     ctx_reserved_cob_ids = reserved_cob_ids_default, ctx_sync_cob_id = 0\<rparr>"

definition sdo_process ::
  "nat \<Rightarrow> 'od od_ops \<Rightarrow> bytes \<Rightarrow> nmt_state \<Rightarrow> u64 \<Rightarrow> 'od sdo_io \<Rightarrow> (bool \<times> 'od sdo_io) option" where
  "sdo_process N ops request st now io =
     process_with_context N ops request (standalone_context st now) io"

end
