(* ===== verification/Sdo_Server_Inv.thy ===== *)
theory Sdo_Server_Inv
  imports Sdo_Server
begin

unbundle bit_operations_syntax

text \<open>
  The well-formedness invariant of the SDO server and its preservation: every request that a
  well-formed server processes over a lawful dictionary returns (no panic) and leaves the
  server well-formed. The segment sent by \<open>poll_block_upload\<close> is described exactly.
\<close>

section \<open>Well-formed servers\<close>

definition wf_segmented :: "segmented_transfer \<Rightarrow> bool" where
  "wf_segmented t \<longleftrightarrow> length (seg_buf t) = BUF_LEN \<and> seg_offset t \<le> BUF_LEN
     \<and> seg_total_len t \<le> BUF_LEN \<and> (seg_direction t = Upload \<longrightarrow> seg_offset t \<le> seg_total_len t)"

definition wf_block_upload :: "block_upload_state \<Rightarrow> bool" where
  "wf_block_upload st \<longleftrightarrow> length (bu_buf st) = BUF_LEN \<and> bu_total_len st \<le> BUF_LEN
     \<and> bu_offset st \<le> bu_total_len st \<and> bu_subblock_start_offset st \<le> bu_offset st
     \<and> valid_blksize (bu_blksize st) \<and> bu_seqno st \<le> bu_blksize st
     \<and> bu_crc st = crc16_ccitt_update 0 (take (bu_offset st) (bu_buf st))
     \<and> bu_offset st = min (bu_total_len st) (bu_subblock_start_offset st +
          7 * (if bu_seqno st = 0 then unat (bu_last_seqno st) else unat (bu_seqno st) - 1))"

definition wf_block_download :: "block_download_state \<Rightarrow> bool" where
  "wf_block_download st \<longleftrightarrow> length (bd_buf st) = BUF_LEN \<and> bd_offset st \<le> BUF_LEN
     \<and> 7 dvd bd_offset st \<and> bd_total_len st \<le> BUF_LEN \<and> bd_blksize st = MAX_BLKSIZE
     \<and> (\<not> bd_awaiting_end st \<longrightarrow> bd_seqno st < MAX_BLKSIZE)"

definition wf_transfer :: "transfer_state \<Rightarrow> bool" where
  "wf_transfer t = (case t of Segmented t \<Rightarrow> wf_segmented t | BlockUpload t \<Rightarrow> wf_block_upload t
     | BlockDownload t \<Rightarrow> wf_block_download t)"

definition wf_server :: "sdo_server \<Rightarrow> bool" where
  "wf_server srv \<longleftrightarrow> (\<forall>t. transfer srv = Some t \<longrightarrow> wf_transfer t)"

definition wf_io :: "('od \<Rightarrow> bool) \<Rightarrow> nat \<Rightarrow> 'od sdo_io \<Rightarrow> bool" where
  "wf_io od_inv N io \<longleftrightarrow> wf_server (io_server io) \<and> od_inv (io_od io)
     \<and> length (io_response io) = 8 \<and> length (io_events io) \<le> N"

section \<open>Returning well-formed results\<close>

text \<open>The handler returns, and what it returns is well-formed.\<close>

definition returns_wf :: "('od \<Rightarrow> bool) \<Rightarrow> nat \<Rightarrow> (bool \<times> 'od sdo_io) option \<Rightarrow> bool" where
  "returns_wf od_inv N r \<longleftrightarrow> (\<exists>ok io. r = Some (ok, io) \<and> wf_io od_inv N io)"

lemma returns_wf_Some [simp]: "returns_wf od_inv N (Some (ok, io)) \<longleftrightarrow> wf_io od_inv N io"
  by (simp add: returns_wf_def)

lemma wf_io_respond [simp, intro]:
  "wf_io od_inv N io \<Longrightarrow> length r = 8 \<Longrightarrow> wf_io od_inv N (respond r io)"
  by (simp add: wf_io_def)

lemma returns_wf_if:
  "(c \<Longrightarrow> returns_wf od_inv N a) \<Longrightarrow> (\<not> c \<Longrightarrow> returns_wf od_inv N b)
   \<Longrightarrow> returns_wf od_inv N (if c then a else b)"
  by simp

lemma returns_wf_slice:
  "i \<le> j \<Longrightarrow> j \<le> length xs \<Longrightarrow> returns_wf od_inv N (g (take (j - i) (drop i xs)))
   \<Longrightarrow> returns_wf od_inv N (slice xs i j \<bind> g)"
  by (simp add: rust_simps)

lemma returns_wf_copy:
  "i + length src \<le> length dst \<Longrightarrow> returns_wf od_inv N (g (overwrite dst i src))
   \<Longrightarrow> returns_wf od_inv N (copy_from_slice dst i src \<bind> g)"
  by (simp add: rust_simps)

lemma returns_wf_sub:
  "b \<le> a \<Longrightarrow> returns_wf od_inv N (g (a - b)) \<Longrightarrow> returns_wf od_inv N (sub_usize a b \<bind> g)"
  by (simp add: rust_simps)

lemmas returns_wf_rules = returns_wf_if returns_wf_slice returns_wf_copy returns_wf_sub

lemma wf_io_server [simp, intro]:
  "wf_io od_inv N io \<Longrightarrow> wf_server srv \<Longrightarrow> wf_io od_inv N (io\<lparr>io_server := srv\<rparr>)"
  by (simp add: wf_io_def)

lemma wf_server_transfer [simp]:
  "wf_server (srv\<lparr>transfer := None\<rparr>)" "wf_server (srv\<lparr>transfer := Some t\<rparr>) \<longleftrightarrow> wf_transfer t"
  by (simp_all add: wf_server_def)

lemma wf_transfer_simps [simp]:
  "wf_transfer (Segmented s) \<longleftrightarrow> wf_segmented s"
  "wf_transfer (BlockUpload u) \<longleftrightarrow> wf_block_upload u"
  "wf_transfer (BlockDownload d) \<longleftrightarrow> wf_block_download d"
  by (simp_all add: wf_transfer_def)

lemma wf_io_transfer: "wf_io od_inv N io \<Longrightarrow> transfer (io_server io) = Some t \<Longrightarrow> wf_transfer t"
  by (simp add: wf_io_def wf_server_def)

section \<open>Segmented transfers\<close>

context object_dictionary
begin

lemma commit_download_wf [simp]:
  "wf_io inv N io \<Longrightarrow> wf_io inv N (commit_download N ops ctx index subindex data io)"
  by (auto simp: commit_download_def wf_io_def wf_server_def length_push_event
      split: sum.splits prod.splits unit.splits dest: write_inv)

lemma handle_initiate_upload_wf:
  assumes "wf_io inv N io"
  shows "returns_wf inv N (handle_initiate_upload ops request now io)"
proof -
  have i: "inv (io_od io)" using assms by (simp add: wf_io_def)
  obtain index subindex where p: "parse_index_sub request = (index, subindex)" by fastforce
  from i show ?thesis
  proof (cases rule: read_cases [where i = index and s = subindex and buf = "replicate BUF_LEN 0"])
    case (ok v)
    then show ?thesis using assms
      by (auto simp: handle_initiate_upload_def p rust_simps encode_upload_response_expedited_def
          Let_def wf_segmented_def)
  next
    case (err e)
    then show ?thesis using assms by (simp add: handle_initiate_upload_def p)
  qed
qed

end

lemma handle_upload_segment_wf:
  assumes "wf_io od_inv N io"
  shows "returns_wf od_inv N (handle_upload_segment request now io)"
proof (cases "transfer (io_server io)")
  case None
  then show ?thesis using assms by (simp add: handle_upload_segment_def)
next
  case (Some t)
  show ?thesis
  proof (cases t)
    case (Segmented s)
    then have "wf_segmented s" using wf_io_transfer [OF assms Some] by simp
    then show ?thesis using assms
      unfolding handle_upload_segment_def Let_def Some option.case Segmented transfer_state.case
      by (intro returns_wf_rules)
        (auto simp: wf_segmented_def encode_upload_segment_response_def Let_def
          intro!: wf_io_server wf_io_respond)
  qed (use assms Some in \<open>auto simp: handle_upload_segment_def\<close>)
qed


context object_dictionary
begin

lemma wf_io_set_None: "wf_io inv N io \<Longrightarrow> wf_io inv N (set_transfer None io)"
  by simp

lemma lookup_size_le: "lookup_size ops od i s = Some n \<Longrightarrow> n \<le> 8"
  by (auto simp: lookup_size_def bind_eq_Some_conv dest: dt_size_bound)

lemma handle_initiate_download_wf:
  assumes "wf_io inv N io" and "length request = 8"
  shows "returns_wf inv N (handle_initiate_download N ops request ctx io)"
proof -
  obtain index subindex where p: "parse_index_sub request = (index, subindex)" by fastforce
  show ?thesis using assms and_3_le [of "drop_bit 2 (request ! 0)"]
    unfolding handle_initiate_download_def p prod.case Let_def
    by (intro returns_wf_rules) (auto simp: wf_segmented_def split: option.splits)
qed

lemma handle_download_segment_wf:
  assumes "wf_io inv N io" and "length request = 8"
  shows "returns_wf inv N (handle_download_segment N ops request ctx io)"
proof (cases "transfer (io_server io)")
  case None
  then show ?thesis using assms by (simp add: handle_download_segment_def)
next
  case (Some t)
  show ?thesis
  proof (cases t)
    case (Segmented s)
    have "wf_segmented s"
      using wf_io_transfer [OF assms(1) Some] Segmented by simp
    then show ?thesis using assms
      unfolding handle_download_segment_def Let_def Some option.case Segmented transfer_state.case
      by (intro returns_wf_rules) (auto simp: wf_segmented_def)
  qed (use assms Some in \<open>auto simp: handle_download_segment_def\<close>)
qed

end


section \<open>Block transfers and dispatch\<close>

lemma valid_blksize_127 [simp]: "valid_blksize MAX_BLKSIZE"
  by (simp add: valid_blksize_def)

lemma take_add_overwrite_crc:
  "crc16_ccitt_update (crc16_ccitt_update 0 (take n xs)) (take k (drop n xs))
   = crc16_ccitt_update 0 (take (n + k) xs)"
  by (simp add: crc_append [symmetric] take_add)

lemma ack_block_upload_wf:
  assumes "wf_io od_inv N io" and "wf_block_upload st"
  shows "returns_wf od_inv N (ack_block_upload request now st io)"
  using assms unfolding ack_block_upload_def Let_def
  by (intro returns_wf_rules)
    (auto simp: wf_block_upload_def end_block_upload_response_def Let_def valid_blksize_def
      intro!: wf_io_server wf_io_respond)

lemma initiate_block_download_wf:
  assumes "wf_io od_inv N io"
  shows "returns_wf od_inv N (initiate_block_download request ctx io)"
proof -
  obtain index subindex where p: "parse_index_sub request = (index, subindex)" by fastforce
  show ?thesis using assms
    unfolding initiate_block_download_def p prod.case Let_def
    by (intro returns_wf_rules) (auto simp: wf_block_download_def)
qed

lemma handle_block_download_segment_wf:
  assumes "wf_io od_inv N io" and "length request = 8"
  shows "returns_wf od_inv N (handle_block_download_segment request now io)"
proof (cases "transfer (io_server io)")
  case None
  then show ?thesis using assms by (simp add: handle_block_download_segment_def)
next
  case (Some t)
  show ?thesis
  proof (cases t)
    case (BlockDownload s)
    then have "wf_block_download s" using wf_io_transfer [OF assms(1) Some] by simp
    then show ?thesis using assms
      unfolding handle_block_download_segment_def Let_def Some option.case BlockDownload
        transfer_state.case
      by (intro returns_wf_rules) (auto simp: wf_block_download_def not_le)
  qed (use assms Some in \<open>auto simp: handle_block_download_segment_def\<close>)
qed

context object_dictionary
begin

lemma initiate_block_upload_wf:
  assumes "wf_io inv N io"
  shows "returns_wf inv N (initiate_block_upload ops request now io)"
proof -
  have i: "inv (io_od io)" using assms by (simp add: wf_io_def)
  obtain index subindex where p: "parse_index_sub request = (index, subindex)" by fastforce
  from i show ?thesis
  proof (cases rule: read_cases [where i = index and s = subindex and buf = "replicate BUF_LEN 0"])
    case (ok v)
    then show ?thesis using assms
      by (auto simp: initiate_block_upload_def p Let_def wf_block_upload_def valid_blksize_def
          crc16_ccitt_update_def intro!: wf_io_server wf_io_respond)
  next
    case (err e)
    then show ?thesis using assms by (simp add: initiate_block_upload_def p Let_def)
  qed
qed

lemma handle_block_upload_wf:
  assumes "wf_io inv N io"
  shows "returns_wf inv N (handle_block_upload ops request now io)"
proof (cases "transfer (io_server io)")
  case None
  then show ?thesis using assms initiate_block_upload_wf [OF assms]
    by (simp add: handle_block_upload_def Let_def)
next
  case (Some t)
  show ?thesis
  proof (cases t)
    case (BlockUpload s)
    then have "wf_block_upload s" using wf_io_transfer [OF assms(1) Some] by simp
    then show ?thesis using assms Some BlockUpload
        initiate_block_upload_wf [OF assms] ack_block_upload_wf [OF assms, of s]
      by (auto simp: handle_block_upload_def Let_def wf_block_upload_def valid_blksize_def
          intro!: wf_io_server)
  qed (use assms Some initiate_block_upload_wf [OF assms] in \<open>auto simp: handle_block_upload_def Let_def\<close>)
qed

lemma end_block_download_wf:
  assumes "wf_io inv N io" and "wf_block_download st"
  shows "returns_wf inv N (end_block_download N ops request ctx st io)"
  using assms unfolding end_block_download_def Let_def
  by (intro returns_wf_rules) (auto simp: wf_block_download_def)

lemma handle_block_download_wf:
  assumes "wf_io inv N io"
  shows "returns_wf inv N (handle_block_download N ops request ctx io)"
proof (cases "transfer (io_server io)")
  case None
  then show ?thesis using assms initiate_block_download_wf [OF assms]
    by (simp add: handle_block_download_def)
next
  case (Some t)
  show ?thesis
    using assms Some initiate_block_download_wf [OF assms] end_block_download_wf [OF assms]
      wf_io_transfer [OF assms Some]
    by (cases t) (auto simp: handle_block_download_def)
qed

lemma dispatch_request_wf:
  assumes "wf_io inv N io" and "length request = 8"
  shows "returns_wf inv N (dispatch_request N ops request ctx io)"
  using assms unfolding dispatch_request_def Let_def
  by (intro returns_wf_if)
    (auto intro: handle_initiate_upload_wf handle_upload_segment_wf handle_initiate_download_wf
      handle_download_segment_wf handle_block_upload_wf handle_block_download_wf split: prod.split)

lemma process_with_context_wf:
  assumes "wf_io inv N io" and "length request = 8"
  shows "returns_wf inv N (process_with_context N ops request ctx io)"
proof -
  obtain ok io' where "dispatch_request N ops request ctx io = Some (ok, io')" "wf_io inv N io'"
    using dispatch_request_wf [OF assms, of ctx] unfolding returns_wf_def by blast
  then show ?thesis using handle_block_download_segment_wf [OF assms]
    by (auto simp: process_with_context_def)
qed

end


section \<open>Sending a sub-block\<close>

text \<open>The segment a poll sends and the state it leaves, for a well-formed sender.\<close>

definition bu_remaining :: "block_upload_state \<Rightarrow> nat" where
  "bu_remaining st = bu_total_len st - bu_offset st"

definition bu_sent :: "block_upload_state \<Rightarrow> u64 \<Rightarrow> block_upload_state" where
  "bu_sent st now = (let n = min (bu_remaining st) 7;
      done = (bu_seqno st \<ge> bu_blksize st \<or> bu_remaining st \<le> 7)
    in st\<lparr>bu_crc := crc16_ccitt_update 0 (take (bu_offset st + n) (bu_buf st)),
          bu_offset := bu_offset st + n, bu_last_activity_us := now,
          bu_seqno := (if done then 0 else bu_seqno st + 1),
          bu_last_seqno := bu_seqno st\<rparr>)"

definition bu_frame :: "block_upload_state \<Rightarrow> bytes" where
  "bu_frame st = (if bu_remaining st \<le> 7 then bu_seqno st OR 0x80 else bu_seqno st)
     # overwrite (replicate 7 0) 0 (take (min (bu_remaining st) 7) (drop (bu_offset st) (bu_buf st)))"

lemma poll_block_upload_eq:
  assumes "transfer srv = Some (BlockUpload st)" and "wf_block_upload st" and "bu_seqno st \<noteq> 0"
  shows "poll_block_upload srv now =
     Some (Some (bu_frame st), srv\<lparr>transfer := Some (BlockUpload (bu_sent st now))\<rparr>)"
proof -
  have le: "bu_seqno st \<le> 127" and w: "length (bu_buf st) = BUF_LEN" "bu_total_len st \<le> BUF_LEN"
      "bu_offset st \<le> bu_total_len st" "bu_crc st = crc16_ccitt_update 0 (take (bu_offset st) (bu_buf st))"
    using assms(2) by (auto simp: wf_block_upload_def valid_blksize_def)
  let ?n = "min (bu_remaining st) 7"
  let ?seg = "take ?n (drop (bu_offset st) (bu_buf st))"
  have "sub_usize (bu_total_len st) (bu_offset st) = Some (bu_remaining st)"
    using w by (simp add: rust_simps bu_remaining_def)
  moreover have "slice (bu_buf st) (bu_offset st) (bu_offset st + ?n) = Some ?seg"
    using w by (simp add: slice_def bu_remaining_def)
  moreover have "copy_from_slice (b # replicate 7 0) 1 ?seg = Some (b # overwrite (replicate 7 0) 0 ?seg)" for b
    using w by (simp add: copy_from_slice_def overwrite_def bu_remaining_def)
  moreover have "crc16_ccitt_update (bu_crc st) ?seg = crc16_ccitt_update 0 (take (bu_offset st + ?n) (bu_buf st))"
    by (simp only: w take_add_overwrite_crc)
  ultimately show ?thesis using assms(1,3)
    by (simp add: poll_block_upload_def Let_def bu_frame_def bu_sent_def and_mask7 [OF le])
qed

lemma bu_sent_wf:
  assumes "wf_block_upload st" and "bu_seqno st \<noteq> 0"
  shows "wf_block_upload (bu_sent st now)"
proof -
  have n: "1 \<le> unat (bu_seqno st)" using assms(2) by (simp add: Suc_le_eq unat_gt_0)
  moreover have "unat (bu_seqno st + 1) = unat (bu_seqno st) + 1" if "bu_seqno st < bu_blksize st"
    using that by (rule unat_Suc_lt)
  ultimately show ?thesis using assms
    by (auto simp: wf_block_upload_def bu_sent_def bu_remaining_def Let_def not_le min_def
        word_le_nat_alt word_less_nat_alt split: if_splits)
qed

lemma poll_block_upload_wf:
  assumes "wf_server srv"
  shows "\<exists>r srv'. poll_block_upload srv now = Some (r, srv') \<and> wf_server srv' \<and>
     (\<forall>f. r = Some f \<longrightarrow> length f = 8)"
proof (cases "\<exists>st. transfer srv = Some (BlockUpload st) \<and> bu_seqno st \<noteq> 0")
  case True
  then obtain st where st: "transfer srv = Some (BlockUpload st)" "bu_seqno st \<noteq> 0" by blast
  with assms have "wf_block_upload st" by (simp add: wf_server_def)
  with st show ?thesis by (simp add: poll_block_upload_eq bu_sent_wf bu_frame_def)
next
  case False
  then have "poll_block_upload srv now = Some (None, srv)"
    by (auto simp: poll_block_upload_def split: option.splits transfer_state.splits)
  with assms show ?thesis by simp
qed

lemma check_timeout_wf: "wf_server srv \<Longrightarrow> wf_server (snd (check_timeout srv now))"
  by (auto simp: check_timeout_def wf_server_def split: option.splits prod.splits)

section \<open>What a request does to the dictionary\<close>

text \<open>
  Either nothing, or one validated write, which is recorded as committed and reported by one
  event when the dictionary accepts it.
\<close>

definition same_od :: "'od sdo_io \<Rightarrow> 'od sdo_io \<Rightarrow> bool" where
  "same_od io io' \<longleftrightarrow> io_od io' = io_od io \<and> io_events io' = io_events io
     \<and> committed_write (io_server io') = committed_write (io_server io)"

definition commit_step :: "nat \<Rightarrow> 'od od_ops \<Rightarrow> sdo_context \<Rightarrow> 'od sdo_io \<Rightarrow> 'od sdo_io \<Rightarrow> bool" where
  "commit_step N ops ctx io io' \<longleftrightarrow> (\<exists>i s d r. validate_download ops (io_od io) ctx i s d = Inr ()
     \<and> od_write ops (io_od io) i s d = (r, io_od io')
     \<and> (if is_ok r then io_events io' = push_event N (io_events io) (sdo_event i s)
          \<and> committed_write (io_server io') = Some (i, s)
        else io_events io' = io_events io \<and> committed_write (io_server io') = committed_write (io_server io)))"

definition request_step :: "nat \<Rightarrow> 'od od_ops \<Rightarrow> sdo_context \<Rightarrow> 'od sdo_io \<Rightarrow> 'od sdo_io \<Rightarrow> bool" where
  "request_step N ops ctx io io' \<longleftrightarrow> same_od io io' \<or> commit_step N ops ctx io io'"

lemma request_step_same [simp]: "same_od io io' \<Longrightarrow> request_step N ops ctx io io'"
  by (simp add: request_step_def)

lemma request_step_set_transfer [simp]:
  "request_step N ops ctx io (set_transfer t io') = request_step N ops ctx io io'"
  by (simp add: request_step_def same_od_def commit_step_def)

lemma commit_download_step [simp]: "request_step N ops ctx io (commit_download N ops ctx i s d io)"
proof (cases "validate_download ops (io_od io) ctx i s d")
  case (Inl c)
  then show ?thesis by (simp add: commit_download_def same_od_def)
next
  case (Inr u)
  obtain r od' where "od_write ops (io_od io) i s d = (r, od')" by fastforce
  with Inr have "commit_step N ops ctx io (commit_download N ops ctx i s d io)"
    unfolding commit_step_def
    by (intro exI [of _ i] exI [of _ s] exI [of _ d] exI [of _ r])
      (cases r; simp add: commit_download_def)
  then show ?thesis by (simp add: request_step_def)
qed

lemma request_step_commit [simp]:
  assumes "same_od io io1"
  shows "request_step N ops ctx io (commit_download N ops ctx i s d io1)"
proof -
  have "request_step N ops ctx io1 io2 = request_step N ops ctx io io2" for io2
    using assms by (simp add: request_step_def same_od_def commit_step_def)
  then show ?thesis by (metis commit_download_step)
qed

text \<open>The handlers that never write.\<close>

lemma upload_handlers_step:
  "handle_initiate_upload ops req now io = Some (ok, io') \<Longrightarrow> request_step N ops ctx io io'"
  "handle_upload_segment req now io = Some (ok, io') \<Longrightarrow> request_step N ops ctx io io'"
  "initiate_block_upload ops req now io = Some (ok, io') \<Longrightarrow> request_step N ops ctx io io'"
  "ack_block_upload req now st io = Some (ok, io') \<Longrightarrow> request_step N ops ctx io io'"
  "initiate_block_download req ctx' io = Some (ok, io') \<Longrightarrow> request_step N ops ctx io io'"
  "handle_block_download_segment req now io = Some (ok, io') \<Longrightarrow> request_step N ops ctx io io'"
  subgoal by (auto simp: handle_initiate_upload_def same_od_def
        split: prod.splits sum.splits if_splits bind_splits)
  subgoal by (auto simp: handle_upload_segment_def Let_def same_od_def
        split: option.splits transfer_state.splits if_splits bind_splits)
  subgoal by (auto simp: initiate_block_upload_def Let_def same_od_def
        split: prod.splits sum.splits if_splits)
  subgoal by (auto simp: ack_block_upload_def Let_def same_od_def split: if_splits bind_splits)
  subgoal by (auto simp: initiate_block_download_def Let_def same_od_def split: prod.splits if_splits)
  subgoal by (auto simp: handle_block_download_segment_def Let_def same_od_def
        split: option.splits transfer_state.splits if_splits bind_splits)
  done

lemma handle_block_upload_step:
  "handle_block_upload ops req now io = Some (ok, io') \<Longrightarrow> request_step N ops ctx io io'"
  by (auto simp: handle_block_upload_def Let_def same_od_def split: option.splits transfer_state.splits if_splits
      intro: upload_handlers_step)

lemma handle_initiate_download_step:
  "handle_initiate_download N ops req ctx io = Some (ok, io') \<Longrightarrow> request_step N ops ctx io io'"
  by (auto simp: handle_initiate_download_def Let_def same_od_def split: prod.splits if_splits bind_splits)

lemma handle_download_segment_step:
  "handle_download_segment N ops req ctx io = Some (ok, io') \<Longrightarrow> request_step N ops ctx io io'"
  by (auto simp: handle_download_segment_def Let_def same_od_def split: option.splits transfer_state.splits if_splits bind_splits)

lemma handle_block_download_step:
  "handle_block_download N ops req ctx io = Some (ok, io') \<Longrightarrow> request_step N ops ctx io io'"
  by (auto simp: handle_block_download_def end_block_download_def Let_def same_od_def
      split: option.splits transfer_state.splits if_splits bind_splits intro: upload_handlers_step)

lemma dispatch_request_step:
  "dispatch_request N ops req ctx io = Some (ok, io') \<Longrightarrow> request_step N ops ctx io io'"
  by (auto simp: dispatch_request_def Let_def same_od_def split: if_splits prod.splits
      intro: upload_handlers_step handle_block_upload_step handle_initiate_download_step
        handle_download_segment_step handle_block_download_step)

lemma process_with_context_step:
  assumes "process_with_context N ops req ctx io = Some (ok, io')"
  shows "request_step N ops ctx io io'"
  using assms by (auto simp: process_with_context_def same_od_def split: if_splits bind_splits
      intro: upload_handlers_step dest!: dispatch_request_step)

text \<open>An abort response means that no transfer is left.\<close>

lemma block_download_segment_abort:
  assumes "handle_block_download_segment req now io = Some (True, io')" "io_response io' ! 0 = 0x80"
    "is_receiving_block (io_server io)"
  shows "transfer (io_server io') = None"
  using assms by (auto simp: handle_block_download_segment_def is_receiving_block_def Let_def same_od_def
      split: option.splits transfer_state.splits if_splits bind_splits)

lemma process_with_context_abort:
  assumes "process_with_context N ops req ctx io = Some (True, io')" and "io_response io' ! 0 = 0x80"
  shows "transfer (io_server io') = None"
  using assms block_download_segment_abort
  by (auto simp: process_with_context_def same_od_def split: if_splits bind_splits)

end
