(* ===== verification/Sdo_Transfer.thy ===== *)
theory Sdo_Transfer
  imports Sdo_Client Sdo_Server_Inv
begin

unbundle bit_operations_syntax

text \<open>
  A whole SDO transfer: the client of \<open>sdo/client.rs\<close> against the server of
  \<open>sdo/server.rs\<close>. \<open>exchange\<close> is the loop that the client's documentation prescribes
  (send the frame, wait for the response, call \<open>process_response\<close>, send the next frame);
  its fuel is the list of server contexts at which the successive requests arrive. The lemmas
  show how many requests an upload or download takes and what it delivers.
\<close>

fun exchange ::
  "nat \<Rightarrow> nat \<Rightarrow> 'od od_ops \<Rightarrow> sdo_context list \<Rightarrow> can_frame \<Rightarrow> sdo_client \<Rightarrow> 'od sdo_io
   \<Rightarrow> (sdo_client_result \<times> sdo_client \<times> 'od sdo_io) option" where
  "exchange BUF N ops [] f c io = None"
| "exchange BUF N ops (ctx # ctxs) f c io = do {
     (ok, io') \<leftarrow> process_with_context N ops (frame_data f) ctx io;
     if ok then do {
       (r, c') \<leftarrow> process_response BUF c (io_response io');
       case r of SendNext f' \<Rightarrow> exchange BUF N ops ctxs f' c' io' | _ \<Rightarrow> Some (r, c', io')
     } else None
   }"

section \<open>Upload\<close>

lemma take_drop_overwrite:
  "k + m \<le> length v \<Longrightarrow> take m (drop k (overwrite buf 0 v)) = take m (drop k v)"
  by (simp add: overwrite_def)

definition data_segment :: "bytes \<Rightarrow> nat \<Rightarrow> bool \<Rightarrow> bytes" where
  "data_segment v k t = segment_byte t (7 - min (length v - k) 7) (length v - k \<le> 7)
     # overwrite (replicate 7 0) 0 (take (min (length v - k) 7) (drop k v))"

lemma data_segment_byte0 [simp]:
  "data_segment v k t ! 0 = segment_byte t (7 - min (length v - k) 7) (length v - k \<le> 7)"
  by (simp add: data_segment_def)

lemma length_data_segment [simp]: "length (data_segment v k t) = 8"
  by (simp add: data_segment_def)

lemma data_segment_payload [simp]:
  "slice (data_segment v k t) 1 (1 + min (length v - k) 7) = Some (take (min (length v - k) 7) (drop k v))"
  by (simp add: slice_def data_segment_def overwrite_def)

lemma segment_count [simp]: "7 - (7 - min n 7) = min n (7 :: nat)"
  by simp

lemma take_append_segment:
  assumes "take k buf = take k v" "k + m \<le> length v" "length v \<le> length buf"
  shows "take (k + m) (overwrite buf k (take m (drop k v))) = take (k + m) v"
  using assms take_overwrite [of k "take m (drop k v)" buf] by (simp add: take_add min_absorb2)

lemma server_upload_segment:
  assumes "transfer (io_server io) = Some (Segmented st)" and "seg_direction st = Upload"
    and "seg_toggle st = t" "seg_offset st = k" "seg_total_len st = length v"
    and "seg_buf st = overwrite (replicate BUF_LEN 0) 0 v" and "k \<le> length v" "length v \<le> BUF_LEN"
  shows "process_with_context N ops (segment_request t) ctx io =
    Some (True, set_transfer (if length v - k \<le> 7 then None
        else Some (Segmented (st\<lparr>seg_offset := k + min (length v - k) 7, seg_toggle := \<not> t,
                seg_last_activity_us := ctx_now_us ctx\<rparr>)))
      (respond (data_segment v k t) io))"
proof -
  let ?m = "min (length v - k) 7"
  have "slice (seg_buf st) k (k + ?m) = Some (take ?m (drop k v))"
    using assms by (simp add: slice_def take_drop_overwrite)
  moreover have "encode_upload_segment_response t (take ?m (drop k v)) (length v - k \<le> 7)
      = Some (data_segment v k t)"
    unfolding encode_upload_segment_response_def segment_byte_folds
    by (simp add: min_absorb2 Let_def data_segment_def)
  ultimately have "handle_upload_segment (segment_request t) (ctx_now_us ctx) io =
      Some (True, set_transfer (if length v - k \<le> 7 then None
        else Some (Segmented (st\<lparr>seg_offset := k + min (length v - k) 7, seg_toggle := \<not> t,
                seg_last_activity_us := ctx_now_us ctx\<rparr>)))
      (respond (data_segment v k t) io))"
    using assms
    by (simp add: handle_upload_segment_def rust_simps Let_def)
  moreover have "data_segment v k t ! 0 \<noteq> 0x80"
    by (simp add: frame_simps)
  ultimately show ?thesis using assms
    by (simp add: process_with_context_def is_receiving_block_def dispatch_request_def ccs_val_def Let_def)
qed

lemma handle_upload_segment_response_ok:
  assumes "cl_state c = UploadSegmented i s t" and "cl_upload_len c = Some len"
    and "wf_node (cl_target_node c)" and "length (cl_buf c) = BUF" and "len \<le> BUF"
    and "r ! 0 = segment_byte t (7 - m) l" and "m \<le> 7"
    and "slice r 1 (1 + m) = Some seg" and "length seg = m"
    and "cl_offset c + m \<le> len" and "l \<longleftrightarrow> cl_offset c + m = len"
  shows "handle_upload_segment_response BUF c r =
      (let c1 = c\<lparr>cl_buf := overwrite (cl_buf c) (cl_offset c) seg, cl_offset := cl_offset c + m\<rparr> in
       if l then Some (UploadComplete (cl_offset c + m), cl_idle c1)
       else Some (SendNext (request_to (cl_target_node c) (segment_request (\<not> t))),
              c1\<lparr>cl_state := UploadSegmented i s (\<not> t)\<rparr>))"
proof -
  have "7 - m \<le> 7" "7 - (7 - m) = m" using assms(7) by auto
  then show ?thesis using assms
    by (simp add: handle_upload_segment_response_def segment_byte_fields Let_def rust_simps
        make_upload_segment_request_eq)
qed

lemma client_upload_segment:
  assumes "wf_client BUF c" and "cl_state c = UploadSegmented i s t" and "cl_offset c = k"
    and "cl_upload_len c = Some (length v)" and "take k (cl_buf c) = take k v"
    and "k \<le> length v" "length v \<le> BUF"
  shows "\<exists>c'. process_response BUF c (data_segment v k t) =
      Some (if length v - k \<le> 7 then UploadComplete (length v)
            else SendNext (request_to (cl_target_node c) (segment_request (\<not> t))), c')
     \<and> wf_client BUF c' \<and> cl_offset c' = k + min (length v - k) 7
     \<and> take (cl_offset c') (cl_buf c') = take (cl_offset c') v
     \<and> (7 < length v - k \<longrightarrow> cl_state c' = UploadSegmented i s (\<not> t) \<and> cl_upload_len c' = Some (length v)
          \<and> cl_target_node c' = cl_target_node c)"
proof -
  let ?m = "min (length v - k) 7"
  let ?buf = "overwrite (cl_buf c) k (take ?m (drop k v))"
  have w: "length (cl_buf c) = BUF" "wf_node (cl_target_node c)" "k \<le> BUF"
    using assms by (auto simp: wf_client_def)
  have cp: "copy_from_slice (cl_buf c) k (take ?m (drop k v)) = Some ?buf"
    using w assms by (simp add: copy_from_slice_def)
  have t': "take (k + ?m) ?buf = take (k + ?m) v"
    using w assms by (intro take_append_segment) auto
  have b: "k + ?m \<le> BUF" "k + ?m \<le> length v" "length ?buf = BUF" using w assms by auto
  have "handle_upload_segment_response BUF c (data_segment v k t) =
      (let c1 = c\<lparr>cl_buf := ?buf, cl_offset := k + ?m\<rparr> in
       if length v - k \<le> 7 then Some (UploadComplete (k + ?m), cl_idle c1)
       else Some (SendNext (request_to (cl_target_node c) (segment_request (\<not> t))),
         c1\<lparr>cl_state := UploadSegmented i s (\<not> t)\<rparr>))"
    using assms(6) unfolding assms(3) [symmetric]
    by (subst handle_upload_segment_response_ok [OF assms(2,4) w(2,1) assms(7) data_segment_byte0 _ data_segment_payload])
      auto
  then show ?thesis using assms w b t'
    by (cases "length v - k \<le> 7")
      (simp_all add: process_response_def Let_def scs_val_def segment_byte_fields wf_client_def)
qed

lemma exchange_upload_segments:
  assumes "wf_client BUF c" and "cl_state c = UploadSegmented i s t" and "cl_offset c = k"
    and "cl_upload_len c = Some (length v)" and "take k (cl_buf c) = take k v"
    and "transfer (io_server io) = Some (Segmented st)" and "seg_direction st = Upload"
    and "seg_toggle st = t" "seg_offset st = k" "seg_total_len st = length v"
    and "seg_buf st = overwrite (replicate BUF_LEN 0) 0 v"
    and "k \<le> length v" "length v \<le> BUF" "length v \<le> BUF_LEN"
    and "ctxs \<noteq> []" and "length v - k \<le> 7 * length ctxs"
  shows "\<exists>c' io'. exchange BUF N ops ctxs (request_to (cl_target_node c) (segment_request t)) c io =
      Some (UploadComplete (length v), c', io') \<and> wf_client BUF c' \<and> client_data c' = Some v
      \<and> io_od io' = io_od io \<and> io_events io' = io_events io \<and> transfer (io_server io') = None"
  using assms
proof (induction ctxs arbitrary: c t k io st)
  case Nil
  then show ?case by simp
next
  case (Cons ctx ctxs)
  note prems = Cons.prems
  let ?m = "min (length v - k) 7"
  have srv: "process_with_context N ops (segment_request t) ctx io =
    Some (True, set_transfer (if length v - k \<le> 7 then None
        else Some (Segmented (st\<lparr>seg_offset := k + ?m, seg_toggle := \<not> t,
                seg_last_activity_us := ctx_now_us ctx\<rparr>)))
      (respond (data_segment v k t) io))"
    using prems(6-12,14) by (intro server_upload_segment) auto
  obtain c' where c': "process_response BUF c (data_segment v k t) =
      Some (if length v - k \<le> 7 then UploadComplete (length v)
            else SendNext (request_to (cl_target_node c) (segment_request (\<not> t))), c')"
     "wf_client BUF c'" "cl_offset c' = k + ?m" "take (cl_offset c') (cl_buf c') = take (cl_offset c') v"
     "7 < length v - k \<Longrightarrow> cl_state c' = UploadSegmented i s (\<not> t) \<and> cl_upload_len c' = Some (length v)
          \<and> cl_target_node c' = cl_target_node c"
    using client_upload_segment [OF prems(1-5,12,13)] by blast
  show ?case
  proof (cases "length v - k \<le> 7")
    case True
    have "client_data c' = Some v"
      using c' True prems(12,13) by (simp add: client_data_def slice_def wf_client_def)
    with True c' srv show ?thesis by simp
  next
    case False
    let ?st = "st\<lparr>seg_offset := k + ?m, seg_toggle := \<not> t, seg_last_activity_us := ctx_now_us ctx\<rparr>"
    let ?io = "set_transfer (Some (Segmented ?st)) (respond (data_segment v k t) io)"
    have "exchange BUF N ops (ctx # ctxs) (request_to (cl_target_node c) (segment_request t)) c io =
        exchange BUF N ops ctxs (request_to (cl_target_node c') (segment_request (\<not> t))) c' ?io"
      using False c' srv by simp
    moreover have "\<exists>c'' io'. exchange BUF N ops ctxs (request_to (cl_target_node c') (segment_request (\<not> t))) c' ?io =
      Some (UploadComplete (length v), c'', io') \<and> wf_client BUF c'' \<and> client_data c'' = Some v
      \<and> io_od io' = io_od ?io \<and> io_events io' = io_events ?io \<and> transfer (io_server io') = None"
      using False c' prems by (intro Cons.IH [where k = "k + ?m" and st = ?st]) auto
    ultimately show ?thesis by simp
  qed
qed
lemma server_upload_expedited:
  assumes "od_read ops (io_od io) i s (replicate BUF_LEN 0) = (Inr (length v), overwrite (replicate BUF_LEN 0) 0 v)"
    and "\<not> is_receiving_block (io_server io)" and "v \<noteq> []" "length v \<le> 4"
  shows "process_with_context N ops (sdo_frame 0x40 i s (replicate 4 0)) ctx io =
    Some (True, set_transfer None (respond (sdo_frame (expedited_byte 2 (4 - length v)) i s
      (overwrite (replicate 4 0) 0 v)) io))"
proof -
  have b: "command_specifier 0x40 = 2" by (simp add: command_specifier_def)
  have "handle_initiate_upload ops (sdo_frame 0x40 i s (replicate 4 0)) (ctx_now_us ctx) io =
     Some (True, set_transfer None (respond (sdo_frame (expedited_byte 2 (4 - length v)) i s
      (overwrite (replicate 4 0) 0 v)) io))"
    using assms unfolding handle_initiate_upload_def encode_upload_response_expedited_def expedited_byte_folds
    by (simp add: frame_simps rust_simps Let_def)
  then show ?thesis using assms b
    by (simp add: process_with_context_def dispatch_request_def frame_simps Let_def ccs_val_def)
qed

lemma server_upload_segmented:
  assumes "od_read ops (io_od io) i s (replicate BUF_LEN 0) = (Inr (length v), overwrite (replicate BUF_LEN 0) 0 v)"
    and "\<not> is_receiving_block (io_server io)" and "v = [] \<or> 4 < length v"
  shows "process_with_context N ops (sdo_frame 0x40 i s (replicate 4 0)) ctx io =
    Some (True, set_transfer (Some (Segmented
                \<lparr>seg_index = i, seg_subindex = s, seg_toggle = False,
                 seg_direction = Upload, seg_buf = overwrite (replicate BUF_LEN 0) 0 v, seg_offset = 0,
                 seg_total_len = length v, seg_size_indicated = True, seg_last_activity_us = ctx_now_us ctx\<rparr>))
      (respond (sdo_frame 0x41 i s (to_le_bytes 4 (of_nat (length v) :: u32))) io))"
proof -
  have "command_specifier 0x40 = 2" by (simp add: command_specifier_def)
  then show ?thesis using assms
    by (auto simp: process_with_context_def dispatch_request_def frame_simps Let_def ccs_val_def
      handle_initiate_upload_def encode_upload_response_segmented_def scs_val_def)
qed

lemma client_upload_expedited:
  assumes "wf_client BUF c" and "cl_state c = WaitingUploadInitResponse i s"
    and "v \<noteq> []" "length v \<le> 4" "length v \<le> BUF"
  shows "process_response BUF c (sdo_frame (expedited_byte 2 (4 - length v)) i s (overwrite (replicate 4 0) 0 v))
    = Some (UploadComplete (length v), c\<lparr>cl_buf := overwrite (cl_buf c) 0 v, cl_offset := length v,
        cl_upload_size_indicated := True, cl_state := ClIdle\<rparr>)"
proof -
  let ?r = "sdo_frame (expedited_byte 2 (4 - length v)) i s (overwrite (replicate 4 0) 0 v)"
  have n: "4 - length v \<le> 3" "4 - (4 - length v) = length v" using assms(3,4) by (cases v; simp)+
  have "slice ?r 4 (4 + length v) = Some v"
    using assms(4) by (simp add: slice_def frame_simps)
  moreover have "?r ! 0 = expedited_byte 2 (4 - length v)" by (simp add: frame_simps)
  ultimately have "handle_upload_init_response BUF c ?r = Some (UploadComplete (length v), c\<lparr>cl_buf := overwrite (cl_buf c) 0 v, cl_offset := length v,
        cl_upload_size_indicated := True, cl_state := ClIdle\<rparr>)"
    using assms n by (simp add: handle_upload_init_response_def expedited_byte_fields Let_def rust_simps wf_client_def)
  then show ?thesis using assms n
    by (simp add: process_response_def Let_def frame_simps expedited_byte_fields scs_val_def)
qed

lemma client_upload_segmented:
  assumes "wf_client BUF c" and "cl_state c = WaitingUploadInitResponse i s"
    and "length v \<le> BUF" "length v \<le> BUF_LEN"
  shows "process_response BUF c (sdo_frame 0x41 i s (to_le_bytes 4 (of_nat (length v) :: u32)))
    = Some (SendNext (request_to (cl_target_node c) (segment_request False)),
       c\<lparr>cl_upload_len := Some (length v), cl_upload_size_indicated := True,
         cl_state := UploadSegmented i s False, cl_offset := 0\<rparr>)"
proof -
  have b: "command_specifier 0x41 = 2" by (simp add: command_specifier_def)
  have "unat (of_nat (length v) :: u32) = length v" using assms by (simp add: unat_of_nat)
  then show ?thesis using assms b
    by (simp add: process_response_def Let_def frame_simps scs_val_def handle_upload_init_response_def
      from_le_to_le make_upload_segment_request_eq wf_client_def)
qed

context object_dictionary
begin

lemma exchange_upload:
  assumes "wf_client BUF c" and "start_upload c i s = Some (f, c1)"
    and "inv (io_od io)" and "val (io_od io) i s = Some v"
    and "length v \<le> BUF" "length v \<le> BUF_LEN"
    and "\<not> is_receiving_block (io_server io)" and "length v div 7 + 2 \<le> length ctxs"
  shows "\<exists>c' io'. exchange BUF N ops ctxs f c1 io = Some (UploadComplete (length v), c', io')
      \<and> wf_client BUF c' \<and> client_data c' = Some v
      \<and> io_od io' = io_od io \<and> io_events io' = io_events io \<and> transfer (io_server io') = None"
proof -
  obtain ctx rest where ctxs: "ctxs = ctx # rest" using assms(8) by (cases ctxs) auto
  have f: "f = request_to (cl_target_node c) (sdo_frame 0x40 i s (replicate 4 0))"
    and c1: "wf_client BUF c1" "cl_state c1 = WaitingUploadInitResponse i s" "cl_target_node c1 = cl_target_node c"
    using assms(1,2) start_upload_eq [OF assms(1)] by (auto simp: wf_client_def)
  have rd: "od_read ops (io_od io) i s (replicate BUF_LEN 0) = (Inr (length v), overwrite (replicate BUF_LEN 0) 0 v)"
    using assms(3,4,6) read_ok by simp
  show ?thesis
  proof (cases "v \<noteq> [] \<and> length v \<le> 4")
    case True
    then show ?thesis
      using server_upload_expedited [OF rd assms(7)] client_upload_expedited [OF c1(1,2)] assms c1
      by (simp add: ctxs f client_data_def slice_def wf_client_def)
  next
    case False
    let ?c = "c1\<lparr>cl_upload_len := Some (length v), cl_upload_size_indicated := True,
         cl_state := UploadSegmented i s False, cl_offset := 0\<rparr>"
    let ?st = "\<lparr>seg_index = i, seg_subindex = s, seg_toggle = False,
                 seg_direction = Upload, seg_buf = overwrite (replicate BUF_LEN 0) 0 v, seg_offset = 0,
                 seg_total_len = length v, seg_size_indicated = True, seg_last_activity_us = ctx_now_us ctx\<rparr>"
    let ?io = "set_transfer (Some (Segmented ?st)) (respond (sdo_frame 0x41 i s (to_le_bytes 4 (of_nat (length v) :: u32))) io)"
    have l: "v = [] \<or> 4 < length v" using False by auto
    have wc: "wf_client BUF ?c" using c1(1) by (simp add: wf_client_def)
    have "exchange BUF N ops ctxs f c1 io = exchange BUF N ops rest (request_to (cl_target_node ?c) (segment_request False)) ?c ?io"
      using server_upload_segmented [OF rd assms(7) l] client_upload_segmented [OF c1(1,2) assms(5,6)]
      by (simp add: ctxs f c1)
    moreover have "\<exists>c' io'. exchange BUF N ops rest (request_to (cl_target_node ?c) (segment_request False)) ?c ?io = Some (UploadComplete (length v), c', io')
      \<and> wf_client BUF c' \<and> client_data c' = Some v
      \<and> io_od io' = io_od ?io \<and> io_events io' = io_events ?io \<and> transfer (io_server io') = None"
      using assms(5,6,8) wc ctxs
      by (intro exchange_upload_segments [where i = i and s = s and k = 0 and st = ?st]) auto
    ultimately show ?thesis by simp
  qed
qed

end
section \<open>Download\<close>

text \<open>What a commit leaves alone, and the two responses it can give.\<close>

lemma commit_download_transfer [simp]:
  "transfer (io_server (commit_download N ops ctx i s v io)) = transfer (io_server io)"
  by (auto simp: commit_download_def split: sum.splits prod.splits unit.splits)

lemma set_transfer_None_idem: "transfer (io_server io) = None \<Longrightarrow> set_transfer None io = io"
  by (cases io) (cases "io_server io", auto)

lemma commit_download_response:
  "io_response (commit_download N ops ctx i s v io) = io_response io
   \<or> (\<exists>code. io_response (commit_download N ops ctx i s v io) = encode_sdo_abort i s code)"
  by (auto simp: commit_download_def split: sum.splits prod.splits unit.splits)

text \<open>What the client makes of the response to its last request.\<close>

definition download_result :: "'od sdo_io \<Rightarrow> sdo_client_result" where
  "download_result io = (if io_response io ! 0 = 0x80
     then ClientAborted (SdoAbort (response_u32 (io_response io))) else DownloadComplete)"

text \<open>The final state is that of one commit of the whole value, at one of the contexts.\<close>

definition commits ::
  "nat \<Rightarrow> 'od od_ops \<Rightarrow> sdo_context list \<Rightarrow> u16 \<Rightarrow> u8 \<Rightarrow> bytes \<Rightarrow> 'od sdo_io \<Rightarrow> 'od sdo_io \<Rightarrow> bool" where
  "commits N ops ctxs i s v io io' \<longleftrightarrow> (\<exists>ctx io0. ctx \<in> set ctxs \<and> io' = commit_download N ops ctx i s v io0
     \<and> io_od io0 = io_od io \<and> io_events io0 = io_events io \<and> transfer (io_server io0) = None
     \<and> io_response io0 ! 0 \<noteq> 0x80)"

lemma commitsI:
  assumes "ctx \<in> set ctxs" "io_od io0 = io_od io" "io_events io0 = io_events io"
    "transfer (io_server io0) = None" "io_response io0 ! 0 \<noteq> 0x80"
  shows "commits N ops ctxs i s v io (commit_download N ops ctx i s v io0)"
  using assms unfolding commits_def by blast

lemma commits_mono:
  assumes "commits N ops ctxs i s v io1 io'" and "set ctxs \<subseteq> set ctxs'"
    and "io_od io1 = io_od io" "io_events io1 = io_events io"
  shows "commits N ops ctxs' i s v io io'"
  using assms unfolding commits_def by auto

lemma download_result_not_send [simp]: "download_result io \<noteq> SendNext f"
  by (simp add: download_result_def)

lemma client_abort:
  assumes "active_object (cl_state c) = Some (i, s)"
  shows "process_response BUF c (encode_sdo_abort i s code) = Some (ClientAborted code, cl_idle c)"
proof -
  have "command_specifier 0x80 = 4" by (simp add: command_specifier_def)
  then show ?thesis using assms
    by (simp add: process_response_def encode_sdo_abort_def frame_simps scs_val_def Let_def
        from_le_to_le)
qed

lemma download_result_abort: "io_response io = encode_sdo_abort i s code \<Longrightarrow> download_result io = ClientAborted code"
  by (simp add: download_result_def encode_sdo_abort_def frame_simps from_le_to_le scs_val_def)

lemma client_commit:
  assumes "active_object (cl_state c) = Some (i, s)" and "io_response io = r" and "r ! 0 \<noteq> 0x80"
    and "process_response BUF c r = Some (DownloadComplete, cl_idle c)"
  shows "process_response BUF c (io_response (commit_download N ops ctx i s v io)) =
    Some (download_result (commit_download N ops ctx i s v io), cl_idle c)"
  using commit_download_response [of N ops ctx i s v io] assms client_abort [OF assms(1)]
  by (auto simp: download_result_abort) (simp add: download_result_def)

lemma handle_download_segment_ok:
  assumes "transfer (io_server io) = Some (Segmented st)" and "seg_direction st = Download"
    and "seg_size_indicated st" and "r ! 0 = segment_byte (seg_toggle st) (7 - m) l" and "m \<le> 7"
    and "slice r 1 (1 + m) = Some seg" "length seg = m"
    and "seg_offset st + m \<le> seg_total_len st" and "l \<longleftrightarrow> seg_offset st + m = seg_total_len st"
    and "length (seg_buf st) = BUF_LEN" "seg_total_len st \<le> BUF_LEN"
  shows "handle_download_segment N ops r ctx io =
    (let buf = overwrite (seg_buf st) (seg_offset st) seg;
         ack = respond (encode_download_segment_response (seg_toggle st)) io
     in Some (True, if l then commit_download N ops ctx (seg_index st) (seg_subindex st)
              (take (seg_total_len st) buf) (set_transfer None ack)
       else set_transfer (Some (Segmented (st\<lparr>seg_buf := buf, seg_offset := seg_offset st + m,
              seg_toggle := \<not> seg_toggle st, seg_last_activity_us := ctx_now_us ctx\<rparr>))) ack))"
proof -
  have "7 - m \<le> 7" "7 - (7 - m) = m" using assms(5) by auto
  then show ?thesis using assms
    by (simp add: handle_download_segment_def segment_byte_fields Let_def rust_simps)
qed

lemma server_download_segment:
  assumes "transfer (io_server io) = Some (Segmented st)" and "seg_direction st = Download"
    and "seg_index st = i" "seg_subindex st = s"
    and "seg_toggle st = t" "seg_offset st = k" "seg_total_len st = length v" "seg_size_indicated st"
    and "take k (seg_buf st) = take k v" "length (seg_buf st) = BUF_LEN"
    and "k \<le> length v" "length v \<le> BUF_LEN"
  defines "m \<equiv> min (length v - k) 7"
  defines "ack \<equiv> respond (encode_download_segment_response t) io"
  shows "process_with_context N ops (data_segment v k t) ctx io =
    Some (True, if length v - k \<le> 7 then commit_download N ops ctx i s v (set_transfer None ack)
      else set_transfer (Some (Segmented (st\<lparr>seg_buf := overwrite (seg_buf st) k (take m (drop k v)),
             seg_offset := k + m, seg_toggle := \<not> t, seg_last_activity_us := ctx_now_us ctx\<rparr>))) ack)"
proof -
  let ?buf = "overwrite (seg_buf st) k (take m (drop k v))"
  have m: "m \<le> 7" "7 - (7 - m) = m" "k + m \<le> length v" "length v - k \<le> 7 \<longleftrightarrow> k + m = length v"
    using assms(11) by (auto simp: m_def)
  have b0: "data_segment v k t ! 0 = segment_byte t (7 - m) (length v - k \<le> 7)" by (simp add: m_def)
  have b0': "data_segment v k t ! 0 = segment_byte (seg_toggle st) (7 - m) (length v - k \<le> 7)"
    using b0 assms(5) by simp
  have sl: "slice (data_segment v k t) 1 (1 + m) = Some (take m (drop k v))" by (simp add: m_def del: One_nat_def)
  have w: "take (length v) ?buf = v" if "length v - k \<le> 7"
    using take_append_segment [OF assms(9), of m] that m assms(10,12) by simp
  have h: "handle_download_segment N ops (data_segment v k t) ctx io =
     Some (True, if length v - k \<le> 7 then commit_download N ops ctx i s v (set_transfer None ack)
      else set_transfer (Some (Segmented (st\<lparr>seg_buf := ?buf, seg_offset := k + m,
             seg_toggle := \<not> t, seg_last_activity_us := ctx_now_us ctx\<rparr>))) ack)"
    using assms(3-7) w m(4)
    by (subst handle_download_segment_ok [OF assms(1,2,8) b0' m(1) sl])
      (use assms(3-7,10-12) m in \<open>auto simp: Let_def ack_def\<close>)
  have "(if io_response F ! 0 = 0x80 then set_transfer None F else F) = F"
    if "F = (if length v - k \<le> 7 then commit_download N ops ctx i s v (set_transfer None ack)
      else set_transfer (Some (Segmented st')) ack)" for F st'
    using that by (auto simp: set_transfer_None_idem ack_def encode_download_segment_response_def scs_val_def
      split: if_splits)
  with h show ?thesis using assms(1) m
    by (simp add: process_with_context_def is_receiving_block_def dispatch_request_def ccs_val_def b0
        segment_byte_fields Let_def)
qed

text \<open>The client after its segment at \<open>k\<close> is on the way.\<close>

definition client_sending :: "sdo_client \<Rightarrow> u16 \<Rightarrow> u8 \<Rightarrow> bool \<Rightarrow> bytes \<Rightarrow> nat \<Rightarrow> bool" where
  "client_sending c i s t v k \<longleftrightarrow> cl_state c = DownloadSegmented i s t \<and> cl_total_len c = length v
     \<and> take (length v) (cl_buf c) = v \<and> cl_offset c = k + min (length v - k) 7"

lemma take_drop_take: "k + m \<le> n \<Longrightarrow> take m (drop k (take n xs)) = take m (drop k xs)"
  by (simp add: drop_take min_absorb1)

lemma make_download_segment_data:
  assumes "wf_node (cl_target_node c)" and "cl_offset c \<le> length v" "cl_total_len c = length v"
    and "take (length v) (cl_buf c) = v"
  shows "make_download_segment c t = Some (request_to (cl_target_node c) (data_segment v (cl_offset c) t),
     c\<lparr>cl_offset := cl_offset c + min (length v - cl_offset c) 7\<rparr>)"
proof -
  have "length v \<le> length (cl_buf c)" using assms(4) by (metis length_take min.cobounded1 min.commute)
  moreover have "take m (drop k (cl_buf c)) = take m (drop k v)" if "k + m \<le> length v" for k m
    using take_drop_take [OF that, of "cl_buf c"] assms(4) by simp
  ultimately show ?thesis using make_download_segment_eq [of c t] assms
    by (simp add: data_segment_def)
qed

lemma download_ack_fields:
  "command_specifier (encode_download_segment_response t ! 0) = 1"
  "encode_download_segment_response t ! 0 AND 0x10 \<noteq> 0 \<longleftrightarrow> t"
  "encode_download_segment_response t ! 0 \<noteq> 0x80"
  by (auto simp: encode_download_segment_response_def command_specifier_def scs_val_def)

lemma client_download_last:
  assumes "client_sending c i s t v k" and "k \<le> length v" "length v - k \<le> 7"
  shows "process_response BUF c (encode_download_segment_response t) = Some (DownloadComplete, cl_idle c)"
  using assms download_ack_fields [of t]
  by (simp add: process_response_def client_sending_def handle_download_segment_response_def Let_def scs_val_def)

lemma client_download_next:
  assumes "wf_client BUF c" and "client_sending c i s t v k" and "7 < length v - k"
  shows "\<exists>c'. process_response BUF c (encode_download_segment_response t) =
      Some (SendNext (request_to (cl_target_node c) (data_segment v (k + 7) (\<not> t))), c')
     \<and> wf_client BUF c' \<and> client_sending c' i s (\<not> t) v (k + 7) \<and> cl_target_node c' = cl_target_node c"
proof -
  let ?c = "c\<lparr>cl_state := DownloadSegmented i s (\<not> t)\<rparr>"
  have "length v \<le> BUF" "wf_node (cl_target_node c)" "cl_offset c = k + 7"
    using assms by (auto simp: client_sending_def wf_client_def)
  then show ?thesis
    using assms download_ack_fields [of t] make_download_segment_data [of ?c v "\<not> t"]
    by (auto simp: process_response_def client_sending_def handle_download_segment_response_def
        Let_def scs_val_def wf_client_def)
qed

lemma exchange_download_segments:
  assumes "wf_client BUF c" and "client_sending c i s t v k"
    and "transfer (io_server io) = Some (Segmented st)" and "seg_direction st = Download"
    and "seg_index st = i" "seg_subindex st = s"
    and "seg_toggle st = t" "seg_offset st = k" "seg_total_len st = length v" "seg_size_indicated st"
    and "take k (seg_buf st) = take k v" "length (seg_buf st) = BUF_LEN"
    and "k \<le> length v" "length v \<le> BUF_LEN"
    and "ctxs \<noteq> []" and "length v - k \<le> 7 * length ctxs"
  shows "\<exists>c' io'. exchange BUF N ops ctxs (request_to (cl_target_node c) (data_segment v k t)) c io =
      Some (download_result io', c', io') \<and> wf_client BUF c' \<and> commits N ops ctxs i s v io io'"
  using assms
proof (induction ctxs arbitrary: c t k io st)
  case Nil
  then show ?case by simp
next
  case (Cons ctx ctxs)
  note prems = Cons.prems
  let ?m = "min (length v - k) 7"
  let ?ack = "respond (encode_download_segment_response t) io"
  let ?st = "st\<lparr>seg_buf := overwrite (seg_buf st) k (take ?m (drop k v)),
             seg_offset := k + ?m, seg_toggle := \<not> t, seg_last_activity_us := ctx_now_us ctx\<rparr>"
  have srv: "process_with_context N ops (data_segment v k t) ctx io =
    Some (True, if length v - k \<le> 7 then commit_download N ops ctx i s v (set_transfer None ?ack)
      else set_transfer (Some (Segmented ?st)) ?ack)"
    by (rule server_download_segment [OF prems(3-14)])
  show ?case
  proof (cases "length v - k \<le> 7")
    case True
    have "active_object (cl_state c) = Some (i, s)"
      using prems(2) by (simp add: client_sending_def active_object_def)
    from client_commit [OF this, of "set_transfer None ?ack" _ BUF N ops ctx v]
      client_download_last [OF prems(2,13) True] download_ack_fields(3)
    have "process_response BUF c (io_response (commit_download N ops ctx i s v (set_transfer None ?ack)))
      = Some (download_result (commit_download N ops ctx i s v (set_transfer None ?ack)), cl_idle c)"
      by simp
    then have "exchange BUF N ops (ctx # ctxs) (request_to (cl_target_node c) (data_segment v k t)) c io
      = Some (download_result (commit_download N ops ctx i s v (set_transfer None ?ack)), cl_idle c,
          commit_download N ops ctx i s v (set_transfer None ?ack))"
      using srv True by (simp split: sdo_client_result.split)
    moreover have "commits N ops (ctx # ctxs) i s v io (commit_download N ops ctx i s v (set_transfer None ?ack))"
      by (rule commitsI) (simp_all add: download_ack_fields(3))
    ultimately show ?thesis using wf_client_idle [OF prems(1)] by blast
  next
    case False
    then obtain c' where c': "process_response BUF c (encode_download_segment_response t) =
      Some (SendNext (request_to (cl_target_node c) (data_segment v (k + 7) (\<not> t))), c')"
      "wf_client BUF c'" "client_sending c' i s (\<not> t) v (k + 7)" "cl_target_node c' = cl_target_node c"
      using client_download_next [OF prems(1,2)] by auto
    let ?io = "set_transfer (Some (Segmented ?st)) ?ack"
    have e: "exchange BUF N ops (ctx # ctxs) (request_to (cl_target_node c) (data_segment v k t)) c io =
        exchange BUF N ops ctxs (request_to (cl_target_node c') (data_segment v (k + 7) (\<not> t))) c' ?io"
      using False c' srv by simp
    have "take (k + 7) (overwrite (seg_buf st) k (take 7 (drop k v))) = take (k + 7) v"
      using False prems by (intro take_append_segment) auto
    moreover have "ctxs \<noteq> []" "k + 7 \<le> length v" "length v - (k + 7) \<le> 7 * length ctxs"
      using False prems(16) by auto
    ultimately obtain c'' io' where "exchange BUF N ops ctxs (request_to (cl_target_node c') (data_segment v (k + 7) (\<not> t))) c' ?io =
      Some (download_result io', c'', io')" "wf_client BUF c''" "commits N ops ctxs i s v ?io io'"
      using False c' prems Cons.IH [of c' "\<not> t" "k + 7" ?io ?st] by auto
    moreover then have "commits N ops (ctx # ctxs) i s v io io'"
      by (auto elim: commits_mono)
    ultimately show ?thesis using e by auto
  qed
qed

lemma server_download_expedited:
  assumes "\<not> is_receiving_block (io_server io)" and "v \<noteq> []" "length v \<le> 4"
    and "\<not> (ctx_nmt_state ctx = Operational \<and> is_pdo_config_index i)"
  shows "process_with_context N ops (sdo_frame (expedited_byte 1 (4 - length v)) i s (overwrite (replicate 4 0) 0 v)) ctx io =
    Some (True, commit_download N ops ctx i s v
      (set_transfer None (respond (encode_download_response i s) io)))"
proof -
  let ?r = "sdo_frame (expedited_byte 1 (4 - length v)) i s (overwrite (replicate 4 0) 0 v)"
  let ?io = "respond (encode_download_response i s) io"
  have n: "4 - length v \<le> 3" "4 - (4 - length v) = length v" using assms(2,3) by (cases v; simp)+
  have "slice ?r 4 (4 + length v) = Some v"
    using assms(3) by (simp add: slice_def frame_simps)
  then have "handle_initiate_download N ops ?r ctx io =
      Some (True, set_transfer None (commit_download N ops ctx i s v ?io))"
    using n assms(4) by (auto simp: handle_initiate_download_def frame_simps expedited_byte_fields Let_def)
  moreover have "set_transfer None (commit_download N ops ctx i s v ?io) =
      commit_download N ops ctx i s v (set_transfer None ?io)"
    by (auto simp: commit_download_def split: sum.splits prod.splits unit.splits)
  ultimately show ?thesis using n assms(1)
    by (simp add: process_with_context_def dispatch_request_def frame_simps expedited_byte_fields
        ccs_val_def set_transfer_None_idem)
qed

lemma server_download_segmented:
  assumes "\<not> is_receiving_block (io_server io)" and "length v \<le> BUF_LEN"
    and "\<not> (ctx_nmt_state ctx = Operational \<and> is_pdo_config_index i)"
  shows "process_with_context N ops (sdo_frame 0x21 i s (to_le_bytes 4 (of_nat (length v) :: u32))) ctx io =
    Some (True, set_transfer (Some (Segmented
                    \<lparr>seg_index = i, seg_subindex = s, seg_toggle = False,
                     seg_direction = Download, seg_buf = replicate BUF_LEN 0, seg_offset = 0,
                     seg_total_len = length v, seg_size_indicated = True,
                     seg_last_activity_us = ctx_now_us ctx\<rparr>))
                  (respond (encode_download_response i s) io))"
proof -
  have b: "command_specifier 0x21 = 1" by (simp add: command_specifier_def)
  have l: "unat (of_nat (length v) :: u32) = length v" using assms(2) by (simp add: unat_of_nat)
  have "encode_download_response i s ! 0 \<noteq> 0x80"
    by (simp add: encode_download_response_def frame_simps scs_val_def)
  then show ?thesis using assms b l
    by (auto simp: process_with_context_def dispatch_request_def frame_simps Let_def ccs_val_def
      handle_initiate_download_def from_le_to_le)
qed

lemma download_response_fields:
  "command_specifier (encode_download_response i s ! 0) = 3" "encode_download_response i s ! 0 \<noteq> 0x80"
  "encode_download_response i s ! Suc 0 = lo8 i" "encode_download_response i s ! 2 = hi8 i"
  "encode_download_response i s ! 3 = s"
  by (simp_all add: encode_download_response_def frame_simps scs_val_def command_specifier_def)

lemma client_download_expedited:
  assumes "cl_state c = WaitingDownloadInitResponse i s" and "0 < cl_total_len c" "cl_total_len c \<le> 4"
  shows "process_response BUF c (encode_download_response i s) = Some (DownloadComplete, cl_idle c)"
  using assms
  by (simp add: process_response_def download_response_fields Let_def scs_val_def
      handle_download_init_response_def)

lemma client_download_segmented:
  assumes "wf_client BUF c" and "cl_state c = WaitingDownloadInitResponse i s"
    and "cl_total_len c = length v" "v = [] \<or> 4 < length v" "length v \<le> BUF"
    and "take (length v) (cl_buf c) = v" "cl_offset c = 0"
  shows "\<exists>c'. process_response BUF c (encode_download_response i s) =
      Some (SendNext (request_to (cl_target_node c) (data_segment v 0 False)), c')
     \<and> wf_client BUF c' \<and> client_sending c' i s False v 0 \<and> cl_target_node c' = cl_target_node c"
proof -
  let ?c = "c\<lparr>cl_state := DownloadSegmented i s False\<rparr>"
  have "\<not> (0 < length v \<and> length v \<le> 4)" using assms(4) by auto
  then show ?thesis
    using assms make_download_segment_data [of ?c v False]
    by (auto simp: process_response_def client_sending_def handle_download_init_response_def
        Let_def scs_val_def wf_client_def download_response_fields)
qed

lemma exchange_download:
  assumes "wf_client BUF c" and "start_download BUF c i s v = Some (Inr f, c1)"
    and "length v \<le> BUF_LEN" and "\<not> is_receiving_block (io_server io)"
    and "\<forall>ctx \<in> set ctxs. \<not> (ctx_nmt_state ctx = Operational \<and> is_pdo_config_index i)"
    and "length v div 7 + 2 \<le> length ctxs"
  shows "\<exists>c' io'. exchange BUF N ops ctxs f c1 io = Some (download_result io', c', io')
      \<and> wf_client BUF c' \<and> commits N ops ctxs i s v io io'"
proof -
  obtain ctx rest where ctxs: "ctxs = ctx # rest" using assms(6) by (cases ctxs) auto
  let ?ack = "respond (encode_download_response i s) io"
  show ?thesis
  proof (cases "v \<noteq> [] \<and> length v \<le> 4")
    case True
    then have f: "f = request_to (cl_target_node c)
       (sdo_frame (expedited_byte 1 (4 - length v)) i s (overwrite (replicate 4 0) 0 v))"
      and c1: "c1 = c\<lparr>cl_state := WaitingDownloadInitResponse i s, cl_total_len := length v\<rparr>"
      using start_download_expedited [OF assms(1), of v i s] assms(2) by auto
    let ?io = "commit_download N ops ctx i s v (set_transfer None ?ack)"
    have "process_response BUF c1 (encode_download_response i s) = Some (DownloadComplete, cl_idle c1)"
      by (rule client_download_expedited) (use True c1 in auto)
    then have "process_response BUF c1 (io_response ?io) = Some (download_result ?io, cl_idle c1)"
      by (intro client_commit) (auto simp: c1 active_object_def download_response_fields)
    moreover have "process_with_context N ops (frame_data f) ctx io = Some (True, ?io)"
      using server_download_expedited [of io v ctx i N ops s] True assms(4,5) by (simp add: f ctxs)
    ultimately have "exchange BUF N ops ctxs f c1 io = Some (download_result ?io, cl_idle c1, ?io)"
      by (simp add: ctxs split: sdo_client_result.split)
    moreover have "wf_client BUF (cl_idle c1)" using assms(1) by (simp add: c1 wf_client_def)
    moreover have "commits N ops ctxs i s v io ?io"
      by (rule commitsI) (simp_all add: ctxs download_response_fields)
    ultimately show ?thesis by blast
  next
    case False
    then have l: "v = [] \<or> 4 < length v" by auto
    have b: "length v \<le> BUF" using assms(2) False by (auto simp: start_download_def split: if_splits)
    have f: "f = request_to (cl_target_node c) (sdo_frame 0x21 i s (to_le_bytes 4 (of_nat (length v) :: u32)))"
      and c1: "c1 = c\<lparr>cl_state := WaitingDownloadInitResponse i s, cl_buf := overwrite (cl_buf c) 0 v,
       cl_total_len := length v, cl_offset := 0\<rparr>"
      using start_download_segmented [OF assms(1) l b, of i s] assms(2) by auto
    have w1: "wf_client BUF c1" using assms(1) b by (simp add: c1 wf_client_def)
    then obtain c' where c': "process_response BUF c1 (encode_download_response i s) =
      Some (SendNext (request_to (cl_target_node c1) (data_segment v 0 False)), c')"
      "wf_client BUF c'" "client_sending c' i s False v 0" "cl_target_node c' = cl_target_node c1"
      using client_download_segmented [OF w1, of i s v] l b by (auto simp: c1)
    let ?st = "\<lparr>seg_index = i, seg_subindex = s, seg_toggle = False,
                     seg_direction = Download, seg_buf = replicate BUF_LEN 0, seg_offset = 0,
                     seg_total_len = length v, seg_size_indicated = True,
                     seg_last_activity_us = ctx_now_us ctx\<rparr>"
    let ?io = "set_transfer (Some (Segmented ?st)) ?ack"
    have "exchange BUF N ops ctxs f c1 io =
        exchange BUF N ops rest (request_to (cl_target_node c') (data_segment v 0 False)) c' ?io"
      using server_download_segmented [OF assms(4,3), of ctx i N ops s] assms(5) c' by (simp add: ctxs f)
    moreover have "rest \<noteq> []" "length v \<le> 7 * length rest" using assms(6) ctxs by auto
    then obtain c'' io' where "exchange BUF N ops rest (request_to (cl_target_node c') (data_segment v 0 False)) c' ?io =
      Some (download_result io', c'', io')" "wf_client BUF c''" "commits N ops rest i s v ?io io'"
      using c' assms(3) exchange_download_segments [of BUF c' i s False v 0 ?io ?st rest N ops] by auto
    moreover then have "commits N ops ctxs i s v io io'"
      by (auto simp: ctxs elim: commits_mono)
    ultimately show ?thesis by auto
  qed
qed
text \<open>What one commit of the whole value means, when the download is accepted and when not.\<close>

lemma commit_download_eqs:
  "validate_download ops (io_od io) ctx i s v = Inl code \<Longrightarrow>
   commit_download N ops ctx i s v io = respond (encode_sdo_abort i s code) io"
  "validate_download ops (io_od io) ctx i s v = Inr () \<Longrightarrow>
   od_write ops (io_od io) i s v = (Inr (), od') \<Longrightarrow>
   commit_download N ops ctx i s v io = io\<lparr>io_od := od',
     io_server := (io_server io)\<lparr>committed_write := Some (i, s)\<rparr>,
     io_events := push_event N (io_events io) (sdo_event i s)\<rparr>"
  "validate_download ops (io_od io) ctx i s v = Inr () \<Longrightarrow>
   od_write ops (io_od io) i s v = (Inl e, od') \<Longrightarrow>
   commit_download N ops ctx i s v io = respond (encode_sdo_abort i s
     (od_write_abort ops od' i s (length v) e)) (io\<lparr>io_od := od'\<rparr>)"
  by (simp_all add: commit_download_def)

lemma commitsE:
  assumes "commits N ops ctxs i s v io io'"
    and "\<forall>ctx \<in> set ctxs. validate_download ops (io_od io) ctx i s v = r"
  obtains ctx io0 where "validate_download ops (io_od io0) ctx i s v = r"
    "io' = commit_download N ops ctx i s v io0" "io_od io0 = io_od io" "io_events io0 = io_events io"
    "transfer (io_server io0) = None" "io_response io0 ! 0 \<noteq> 0x80"
  using assms unfolding commits_def by metis

lemma commits_accepted:
  assumes "commits N ops ctxs i s v io io'"
    and "\<forall>ctx \<in> set ctxs. validate_download ops (io_od io) ctx i s v = Inr ()"
    and "od_write ops (io_od io) i s v = (Inr (), od')"
  shows "download_result io' = DownloadComplete \<and> io_od io' = od'
    \<and> io_events io' = push_event N (io_events io) (sdo_event i s)
    \<and> committed_write (io_server io') = Some (i, s) \<and> transfer (io_server io') = None"
  by (rule commitsE [OF assms(1,2)])
    (use assms(3) in \<open>simp add: commit_download_eqs download_result_def\<close>)

lemma commits_refused:
  assumes "commits N ops ctxs i s v io io'"
    and "\<forall>ctx \<in> set ctxs. validate_download ops (io_od io) ctx i s v = Inl code"
  shows "download_result io' = ClientAborted code \<and> io_od io' = io_od io
    \<and> io_events io' = io_events io \<and> transfer (io_server io') = None"
  by (rule commitsE [OF assms(1,2)])
    (simp add: commit_download_eqs download_result_abort [where i = i and s = s])

lemma commits_write_refused:
  assumes "commits N ops ctxs i s v io io'"
    and "\<forall>ctx \<in> set ctxs. validate_download ops (io_od io) ctx i s v = Inr ()"
    and "od_write ops (io_od io) i s v = (Inl e, od')"
  shows "download_result io' = ClientAborted (od_write_abort ops od' i s (length v) e)
    \<and> io_od io' = od' \<and> io_events io' = io_events io \<and> transfer (io_server io') = None"
  by (rule commitsE [OF assms(1,2)])
    (use assms(3) in \<open>simp add: commit_download_eqs download_result_abort [where i = i and s = s]\<close>)

end
