(* ===== verification/Rust_Str.thy ===== *)
theory Rust_Str
  imports Prelude
begin

text \<open>
  The operations of Rust's \<open>str\<close> and of its integer parsing that the text formats of the
  repository use. Text is a \<^typ>\<open>string\<close> of ASCII characters, one per byte: on
  ASCII text the Unicode notions of white space and case of the Rust library are the ones
  written here.
\<close>

section \<open>White space\<close>

definition is_ws :: "char \<Rightarrow> bool" where
  "is_ws c \<longleftrightarrow> (let n = of_char c :: nat in n = 32 \<or> 9 \<le> n \<and> n \<le> 13)"

definition trim_start :: "string \<Rightarrow> string" where "trim_start s = dropWhile is_ws s"

definition trim_end :: "string \<Rightarrow> string" where "trim_end s = rev (dropWhile is_ws (rev s))"

definition trim :: "string \<Rightarrow> string" where "trim s = trim_end (trim_start s)"

text \<open>\<open>trim_matches(c)\<close>\<close>

definition trim_matches :: "char \<Rightarrow> string \<Rightarrow> string" where
  "trim_matches c s = rev (dropWhile (\<lambda>x. x = c) (rev (dropWhile (\<lambda>x. x = c) s)))"

section \<open>Searching and splitting\<close>

definition strip_prefix :: "string \<Rightarrow> string \<Rightarrow> string option" where
  "strip_prefix p s = (if take (length p) s = p then Some (drop (length p) s) else None)"

definition starts_with :: "string \<Rightarrow> string \<Rightarrow> bool" where
  "starts_with p s \<longleftrightarrow> take (length p) s = p"

text \<open>\<open>split_once\<close> cuts at the first occurrence of the pattern.\<close>

fun split_once :: "string \<Rightarrow> string \<Rightarrow> (string \<times> string) option" where
  "split_once p [] = (if p = [] then Some ([], []) else None)"
| "split_once p (c # cs) =
     (if starts_with p (c # cs) then Some ([], drop (length p) (c # cs))
      else map_option (\<lambda>(a, b). (c # a, b)) (split_once p cs))"

definition contains :: "string \<Rightarrow> string \<Rightarrow> bool" where
  "contains p s \<longleftrightarrow> split_once p s \<noteq> None"

text \<open>\<open>split(c)\<close>: the pieces between the separators, at least one.\<close>

fun split_char :: "char \<Rightarrow> string \<Rightarrow> string list" where
  "split_char c [] = [[]]"
| "split_char c (x # xs) =
     (if x = c then [] # split_char c xs
      else (case split_char c xs of [] \<Rightarrow> [[x]] | p # ps \<Rightarrow> (x # p) # ps))"

text \<open>\<open>lines()\<close>: cut after every line feed, drop a carriage return before it, no final empty line.\<close>

definition chop_cr :: "string \<Rightarrow> string" where
  "chop_cr l = (if l \<noteq> [] \<and> last l = CHR 0x0D then butlast l else l)"

definition str_lines :: "string \<Rightarrow> string list" where
  "str_lines s =
     (let ps = split_char (CHR 0x0A) s;
          ls = map chop_cr (butlast ps)
      in if last ps = [] then ls else ls @ [last ps])"

lemma split_char_no_sep: "c \<notin> set x \<Longrightarrow> split_char c x = [x]"
  by (induction x) auto

lemma split_char_append: "c \<notin> set x \<Longrightarrow> split_char c (x @ c # ys) = x # split_char c ys"
  by (induction x) auto

section \<open>Case\<close>

definition ascii_lower :: "char \<Rightarrow> char" where
  "ascii_lower c = (let n = of_char c :: nat in if 65 \<le> n \<and> n \<le> 90 then char_of (n + 32) else c)"

definition to_lowercase :: "string \<Rightarrow> string" where "to_lowercase s = map ascii_lower s"

definition eq_ignore_ascii_case :: "string \<Rightarrow> string \<Rightarrow> bool" where
  "eq_ignore_ascii_case a b \<longleftrightarrow> map ascii_lower a = map ascii_lower b"

section \<open>Integers\<close>

text \<open>\<open>char::to_digit\<close>\<close>

definition to_digit :: "int \<Rightarrow> char \<Rightarrow> int option" where
  "to_digit r c =
     (let n = of_char c :: int;
          d = (if 48 \<le> n \<and> n \<le> 57 then Some (n - 48)
               else if 97 \<le> n \<and> n \<le> 122 then Some (n - 97 + 10)
               else if 65 \<le> n \<and> n \<le> 90 then Some (n - 65 + 10)
               else None)
      in case d of Some v \<Rightarrow> if v < r then Some v else None | None \<Rightarrow> None)"

text \<open>Horner's rule with an overflow check at every digit; \<open>bound\<close> is one more than the maximum.\<close>

fun parse_digits :: "int \<Rightarrow> int \<Rightarrow> int \<Rightarrow> string \<Rightarrow> int option" where
  "parse_digits bound r acc [] = Some acc"
| "parse_digits bound r acc (c # cs) = do {
     d \<leftarrow> to_digit r c;
     (let acc' = acc * r + d in if acc' < bound then parse_digits bound r acc' cs else None)
   }"

text \<open>\<open>uN::from_str_radix\<close>: an optional plus sign and at least one digit.\<close>

definition from_str_radix :: "nat \<Rightarrow> int \<Rightarrow> string \<Rightarrow> int option" where
  "from_str_radix bits r s =
     (let ds = (if starts_with ''+'' s then drop 1 s else s)
      in if ds = [] then None else parse_digits (2 ^ bits) r 0 ds)"

text \<open>\<open>str::parse::<i64>()\<close>\<close>

definition parse_i64 :: "string \<Rightarrow> int option" where
  "parse_i64 s =
     (if starts_with ''-'' s
      then (if drop 1 s = [] then None
            else map_option uminus (parse_digits (2 ^ 63 + 1) 10 0 (drop 1 s)))
      else (let ds = (if starts_with ''+'' s then drop 1 s else s)
            in if ds = [] then None else parse_digits (2 ^ 63) 10 0 ds))"

text \<open>A decimal number, or a hexadecimal one after \<open>0x\<close> or \<open>0X\<close>.\<close>

definition hex_prefix :: "string \<Rightarrow> string option" where
  "hex_prefix s = (case strip_prefix ''0x'' s of Some h \<Rightarrow> Some h | None \<Rightarrow> strip_prefix ''0X'' s)"

definition parse_hex_or_dec :: "nat \<Rightarrow> string \<Rightarrow> int option" where
  "parse_hex_or_dec bits s0 =
     (let s = trim s0 in
      case hex_prefix s of Some hex \<Rightarrow> from_str_radix bits 16 hex | None \<Rightarrow> from_str_radix bits 10 s)"

definition str_bytes :: "string \<Rightarrow> bytes" where "str_bytes s = map of_char s"

lemma to_digit_bounds: "to_digit r c = Some d \<Longrightarrow> 0 \<le> d \<and> d < r"
  by (auto simp: to_digit_def Let_def split: if_splits)

lemma parse_digits_bounds:
  "parse_digits b r acc s = Some n \<Longrightarrow> 0 \<le> acc \<Longrightarrow> acc < b \<Longrightarrow> 0 \<le> r \<Longrightarrow> 0 \<le> n \<and> n < b"
  by (induction b r acc s rule: parse_digits.induct)
     (auto simp: bind_eq_Some_conv Let_def split: if_splits dest!: to_digit_bounds)

lemma from_str_radix_bounds: "from_str_radix bits r s = Some n \<Longrightarrow> 0 \<le> r \<Longrightarrow> 0 \<le> n \<and> n < 2 ^ bits"
  by (auto simp: from_str_radix_def Let_def split: if_splits dest: parse_digits_bounds)

lemma parse_hex_or_dec_bounds: "parse_hex_or_dec bits s = Some n \<Longrightarrow> 0 \<le> n \<and> n < 2 ^ bits"
  by (auto simp: parse_hex_or_dec_def Let_def split: option.splits dest: from_str_radix_bounds)

section \<open>Printed numbers\<close>

text \<open>Reference printers: the digits of a number, most significant first.\<close>

definition digit_char :: "int \<Rightarrow> char" where
  "digit_char d = (if d < 10 then char_of (48 + d) else char_of (87 + d))"

function show_radix :: "int \<Rightarrow> int \<Rightarrow> string" where
  "show_radix r n = (if n < r \<or> r \<le> 1 then [digit_char n] else show_radix r (n div r) @ [digit_char (n mod r)])"
  by pat_completeness auto
termination
proof (relation "measure (\<lambda>(r, n). nat n)")
  fix r n :: int
  assume "\<not> (n < r \<or> r \<le> 1)"
  then have "n div r < n" "0 < n" by (auto simp: int_div_less_self)
  then show "((r, n div r), (r, n)) \<in> measure (\<lambda>(r, n). nat n)" by simp
qed simp

declare show_radix.simps [simp del]

definition show_int :: "int \<Rightarrow> string" where
  "show_int i = (if i < 0 then CHR ''-'' # show_radix 10 (- i) else show_radix 10 i)"

lemma to_digit_digit_char:
  "0 \<le> d \<Longrightarrow> d < r \<Longrightarrow> r \<le> 16 \<Longrightarrow> to_digit r (digit_char d) = Some d"
  by (auto simp: to_digit_def digit_char_def Let_def split: if_splits)

lemma parse_digits_append:
  "parse_digits b r acc (xs @ ys) = Option.bind (parse_digits b r acc xs) (\<lambda>a. parse_digits b r a ys)"
  by (induction b r acc xs rule: parse_digits.induct) (auto simp: Let_def split: bind_split)

lemma parse_show_radix:
  "1 < r \<Longrightarrow> r \<le> 16 \<Longrightarrow> 0 \<le> n \<Longrightarrow> parse_digits b r 0 (show_radix r n) = (if n < b then Some n else None)"
proof (induction r n rule: show_radix.induct)
  case (1 r n)
  have m: "0 \<le> n mod r" "n mod r < r" using "1.prems" by simp_all
  show ?case
  proof (cases "n < r")
    case True
    then show ?thesis using "1.prems" by (simp add: show_radix.simps [of r n] to_digit_digit_char)
  next
    case False
    have le: "n div r \<le> n" using "1.prems" False int_div_less_self [of n r] by linarith
    have "0 \<le> n div r" using "1.prems" by (simp add: pos_imp_zdiv_nonneg_iff)
    then have "parse_digits b r 0 (show_radix r (n div r)) = (if n div r < b then Some (n div r) else None)"
      using "1.IH" False "1.prems" by simp
    then show ?thesis using False "1.prems" m le
      by (simp add: show_radix.simps [of r n] parse_digits_append to_digit_digit_char)
  qed
qed

lemma show_radix_nonempty [simp]: "show_radix r n \<noteq> []"
  by (simp add: show_radix.simps [of r n])

lemma show_radix_digits:
  "1 < r \<Longrightarrow> r \<le> 16 \<Longrightarrow> 0 \<le> n \<Longrightarrow> c \<in> set (show_radix r n) \<Longrightarrow> to_digit r c \<noteq> None"
proof (induction r n rule: show_radix.induct)
  case (1 r n)
  have "0 \<le> n mod r" "n mod r < r" "0 \<le> n div r" using "1.prems"
    by (simp_all add: pos_imp_zdiv_nonneg_iff)
  then show ?case using 1
    by (auto simp: show_radix.simps [of r n] to_digit_digit_char split: if_splits)
qed

lemma digit_not_special:
  assumes "to_digit r c \<noteq> None" and "r \<le> 16"
  shows "\<not> is_ws c" "c \<noteq> CHR ''+''" "c \<noteq> CHR ''-''" "c \<noteq> CHR ''x''" "c \<noteq> CHR ''X''"
    "c \<noteq> CHR '','' " "c \<noteq> CHR '':''" "c \<noteq> CHR ''$''" "c \<noteq> CHR ''s''"
proof -
  have w: "is_ws c \<longleftrightarrow> (of_char c :: int) = 32 \<or> 9 \<le> (of_char c :: int) \<and> (of_char c :: int) \<le> 13"
  proof -
    have "(of_char c :: int) = int (of_char c)" by (simp only: of_nat_of_char)
    then show ?thesis unfolding is_ws_def Let_def by linarith
  qed
  show "\<not> is_ws c" using assms by (auto simp: w to_digit_def Let_def split: if_splits)
  show "c \<noteq> CHR ''+''" "c \<noteq> CHR ''-''" "c \<noteq> CHR ''x''" "c \<noteq> CHR ''X''"
    "c \<noteq> CHR '','' " "c \<noteq> CHR '':''" "c \<noteq> CHR ''$''" "c \<noteq> CHR ''s''"
    using assms by (auto simp: to_digit_def Let_def split: if_splits)
qed

lemma trim_no_ws: "\<forall>c\<in>set s. \<not> is_ws c \<Longrightarrow> trim s = s"
proof -
  assume a: "\<forall>c\<in>set s. \<not> is_ws c"
  have "dropWhile is_ws s = s" using a by (cases s) auto
  moreover have "dropWhile is_ws (rev s) = rev s" using a by (cases "rev s") (auto simp: rev_eq_Cons_iff)
  ultimately show ?thesis by (simp add: trim_def trim_start_def trim_end_def)
qed

lemma starts_with_single: "starts_with [c] s \<longleftrightarrow> s \<noteq> [] \<and> hd s = c"
  by (cases s) (auto simp: starts_with_def)

lemma from_str_radix_show:
  assumes "1 < r" "r \<le> 16" "0 \<le> n"
  shows "from_str_radix bits r (show_radix r n) = (if n < 2 ^ bits then Some n else None)"
proof -
  have "hd (show_radix r n) \<noteq> CHR ''+''"
    using digit_not_special(2) [OF show_radix_digits [OF assms hd_in_set [OF show_radix_nonempty]] assms(2)] .
  then show ?thesis using parse_show_radix [OF assms] by (simp add: from_str_radix_def starts_with_single)
qed

lemma hex_prefix_none:
  assumes "\<forall>c\<in>set s. c \<noteq> CHR ''x'' \<and> c \<noteq> CHR ''X''"
  shows "hex_prefix s = None"
proof -
  have "take 2 s \<noteq> ''0x''" "take 2 s \<noteq> ''0X''" using assms
    by (metis in_set_takeD list.set_intros)+
  then show ?thesis by (simp add: hex_prefix_def strip_prefix_def numeral_2_eq_2)
qed

text \<open>Decimal and prefixed hexadecimal numbers are read back.\<close>

lemma show_radix_no_ws: "1 < r \<Longrightarrow> r \<le> 16 \<Longrightarrow> 0 \<le> n \<Longrightarrow> c \<in> set (show_radix r n) \<Longrightarrow> \<not> is_ws c"
  using show_radix_digits digit_not_special(1) by blast

lemma hex_prefix_dec: "0 \<le> n \<Longrightarrow> hex_prefix (show_radix 10 n) = None"
  using show_radix_digits [of 10 n] digit_not_special(4,5) [of 10]
  by (intro hex_prefix_none) auto

lemma parse_hex_or_dec_dec:
  assumes "0 \<le> n"
  shows "parse_hex_or_dec bits (show_radix 10 n) = (if n < 2 ^ bits then Some n else None)"
proof -
  have "trim (show_radix 10 n) = show_radix 10 n"
    using show_radix_no_ws [of 10 n] assms by (intro trim_no_ws) auto
  then show ?thesis
    using from_str_radix_show [of 10 n bits] hex_prefix_dec [OF assms] assms by (simp add: parse_hex_or_dec_def)
qed

lemma parse_hex_or_dec_hex:
  assumes "0 \<le> n"
  shows "parse_hex_or_dec bits (''0x'' @ show_radix 16 n) = (if n < 2 ^ bits then Some n else None)"
proof -
  have "\<forall>c\<in>set (''0x'' @ show_radix 16 n). \<not> is_ws c"
    using show_radix_no_ws [of 16 n] assms by (auto simp: is_ws_def)
  then have "trim (''0x'' @ show_radix 16 n) = ''0x'' @ show_radix 16 n" by (rule trim_no_ws)
  then show ?thesis using from_str_radix_show [of 16 n bits] assms
    by (simp add: parse_hex_or_dec_def hex_prefix_def strip_prefix_def)
qed

lemma parse_i64_show_neg:
  "i < 0 \<Longrightarrow> parse_i64 (show_int i) = (if - (2 ^ 63) \<le> i then Some i else None)"
  using parse_show_radix [of 10 "- i" "2 ^ 63 + 1"]
  by (auto simp: parse_i64_def show_int_def starts_with_def)

end
