(* ===== verification/Dcf.thy ===== *)
theory Dcf
  imports Rust_Str Object_Dictionary Can_Transport
begin

unbundle bit_operations_syntax

text \<open>
  The device configuration files of \<open>canopen-core/src/dcf.rs\<close>: the INI reader, the
  serialisation of values by data type, \<open>Dcf::parse\<close>, and applying a configuration to an
  object dictionary. Decimal floating point text is converted by the Rust library; the two
  conversions are the parameters \<open>p32\<close> and \<open>p64\<close>, from text to the IEEE bit pattern.
\<close>

section \<open>Data\<close>

record dcf_entry =
  dce_index :: u16
  dce_subindex :: u8
  dce_data :: bytes
  dce_name :: string

record dcf =
  dcf_node_id :: "u8 option"
  dcf_baud_rate :: "u32 option"
  dcf_entries :: "dcf_entry list"

datatype dcf_error = ParseError string | DcfOdError u16 u8 od_error

type_synonym props = "(string \<times> string) list"
type_synonym sections = "(string \<times> props) list"

section \<open>INI text\<close>

text \<open>The loop state of \<open>parse_ini_sections\<close>: finished sections, current name and properties.\<close>

definition ini_line :: "string \<Rightarrow> sections \<times> string \<times> props \<Rightarrow> sections \<times> string \<times> props" where
  "ini_line line0 = (\<lambda>(secs, cur, ps).
     (let line = trim line0 in
      if line = [] \<or> starts_with '';'' line then (secs, cur, ps)
      else if starts_with ''['' line \<and> last line = CHR '']'' then
        (let (secs, ps) = (if cur \<noteq> [] then (secs @ [(cur, ps)], []) else (secs, ps))
         in (secs, butlast (tl line), ps))
      else (case split_once ''='' line of
         Some (key, value) \<Rightarrow> (secs, cur, ps @ [(trim key, trim value)])
       | None \<Rightarrow> (secs, cur, ps))))"

definition parse_ini_sections :: "string \<Rightarrow> sections" where
  "parse_ini_sections content =
     (let (secs, cur, ps) = fold ini_line (str_lines content) ([], [], [])
      in if cur \<noteq> [] then secs @ [(cur, ps)] else secs)"

definition find_section :: "sections \<Rightarrow> string \<Rightarrow> props option" where
  "find_section secs name = map_option snd (List.find (\<lambda>(n, _). eq_ignore_ascii_case n name) secs)"

definition get_prop :: "props \<Rightarrow> string \<Rightarrow> string option" where
  "get_prop ps key = map_option snd (List.find (\<lambda>(k, _). eq_ignore_ascii_case k key) ps)"

definition parse_int_val :: "string \<Rightarrow> int option" where
  "parse_int_val s = parse_hex_or_dec 64 s"

definition parse_section_index :: "string \<Rightarrow> (u16 \<times> u8 option) option" where
  "parse_section_index section =
     (let lower = to_lowercase section in
      case split_once ''sub'' lower of
        Some (idx_str, sub_str) \<Rightarrow> do {
          index \<leftarrow> from_str_radix 16 16 idx_str;
          sub \<leftarrow> (case from_str_radix 8 16 sub_str of
                    Some s \<Rightarrow> Some s | None \<Rightarrow> from_str_radix 8 10 sub_str);
          Some (word_of_int index, Some (word_of_int sub))
        }
      | None \<Rightarrow> do {
          index \<leftarrow> from_str_radix 16 16 lower;
          if index \<ge> 0x1000 then Some (word_of_int index, None) else None
        })"

definition is_pdo_index :: "u16 \<Rightarrow> bool" where
  "is_pdo_index i \<longleftrightarrow> 0x1400 \<le> i \<and> i \<le> 0x15FF \<or> 0x1600 \<le> i \<and> i \<le> 0x17FF
     \<or> 0x1800 \<le> i \<and> i \<le> 0x19FF \<or> 0x1A00 \<le> i \<and> i \<le> 0x1BFF"

section \<open>Values\<close>

definition serialize_integer :: "string \<Rightarrow> nat \<Rightarrow> bool \<Rightarrow> bytes option" where
  "serialize_integer value bits is_signed = do {
     raw \<leftarrow> (if is_signed \<and> starts_with ''-'' value
       then do {
         n \<leftarrow> parse_i64 value;
         if n < - (2 ^ (bits - 1)) then None else Some (word_of_int n :: u64)
       }
       else do {
         n \<leftarrow> parse_int_val value;
         let hex = (starts_with ''0x'' value \<or> starts_with ''0X'' value);
         let limit_bits = (if is_signed \<and> \<not> hex then bits - 1 else bits);
         if limit_bits < 64 \<and> n \<ge> 2 ^ limit_bits then None else Some (word_of_int n)
       });
     slice (to_le_bytes 8 raw) 0 (bits div 8)
   }"

text \<open>\<open>(0..hex.len()).step_by(2)\<close> over the pairs of hexadecimal digits.\<close>

fun hex_octets :: "string \<Rightarrow> bytes option" where
  "hex_octets (a # b # cs) = do {
     x \<leftarrow> from_str_radix 8 16 [a, b];
     xs \<leftarrow> hex_octets cs;
     Some (word_of_int x # xs)
   }"
| "hex_octets _ = Some []"

definition serialize_value ::
  "(string \<Rightarrow> u32 option) \<Rightarrow> (string \<Rightarrow> u64 option) \<Rightarrow> string \<Rightarrow> u16 \<Rightarrow> bytes option" where
  "serialize_value p32 p64 value data_type =
     (let v = trim_matches (CHR 0x22) (trim value) in
      if data_type = 0x0001 then
        (if v = ''false'' then Some [0]
         else if v = ''true'' then Some [1]
         else case parse_int_val v of
           None \<Rightarrow> None
         | Some n \<Rightarrow> if n = 0 then Some [0] else if n = 1 then Some [1] else None)
      else if data_type = 0x0002 then serialize_integer v 8 True
      else if data_type = 0x0005 then serialize_integer v 8 False
      else if data_type = 0x0003 then serialize_integer v 16 True
      else if data_type = 0x0006 then serialize_integer v 16 False
      else if data_type = 0x0010 then serialize_integer v 24 True
      else if data_type = 0x0016 then serialize_integer v 24 False
      else if data_type = 0x0004 then serialize_integer v 32 True
      else if data_type = 0x0007 then serialize_integer v 32 False
      else if data_type = 0x0008 then
        (case hex_prefix v of
           Some hex \<Rightarrow> map_option (\<lambda>n. to_le_bytes 4 (word_of_int n :: u32)) (from_str_radix 32 16 hex)
         | None \<Rightarrow> map_option (to_le_bytes 4) (p32 v))
      else if data_type = 0x0009 then Some (str_bytes v)
      else if data_type = 0x000A \<or> data_type = 0x000F then
        (case hex_prefix v of
           Some hex \<Rightarrow> if length hex mod 2 \<noteq> 0 then None else hex_octets hex
         | None \<Rightarrow> Some (str_bytes v))
      else if data_type = 0x0011 then
        (case hex_prefix v of
           Some hex \<Rightarrow> map_option (\<lambda>n. to_le_bytes 8 (word_of_int n :: u64)) (from_str_radix 64 16 hex)
         | None \<Rightarrow> map_option (to_le_bytes 8) (p64 v))
      else if data_type = 0x0015 then serialize_integer v 64 True
      else if data_type = 0x001B then serialize_integer v 64 False
      else None)"

section \<open>Parsing a file\<close>

text \<open>\<open>{:04X}\<close> and the like: upper-case hexadecimal, padded with zeros.\<close>

definition ascii_upper :: "char \<Rightarrow> char" where
  "ascii_upper c = (let n = of_char c :: nat in if 97 \<le> n \<and> n \<le> 122 then char_of (n - 32) else c)"

definition show_upper_hex :: "nat \<Rightarrow> int \<Rightarrow> string" where
  "show_upper_hex width n =
     (let s = map ascii_upper (show_radix 16 n) in replicate (width - length s) (CHR ''0'') @ s)"

text \<open>\<open>node_id\<close> and \<open>baud_rate\<close>: absent, a number below the bound, or an error.\<close>

definition commissioning :: "sections \<Rightarrow> string \<Rightarrow> nat \<Rightarrow> dcf_error + int option" where
  "commissioning secs key bits =
     (case Option.bind (find_section secs ''DeviceComissioning'') (\<lambda>ps. get_prop ps key) of
        None \<Rightarrow> Inr None
      | Some v \<Rightarrow>
          (case parse_int_val v of
             Some n \<Rightarrow> if n < 2 ^ bits then Inr (Some n) else Inl (ParseError (''Invalid '' @ key @ '': '' @ v))
           | None \<Rightarrow> Inl (ParseError (''Invalid '' @ key @ '': '' @ v))))"

text \<open>One section: skipped (\<^term>\<open>Inr None\<close>), an entry, or an error.\<close>

definition dcf_section ::
  "(string \<Rightarrow> u32 option) \<Rightarrow> (string \<Rightarrow> u64 option) \<Rightarrow> string \<times> props \<Rightarrow> dcf_error + dcf_entry option" where
  "dcf_section p32 p64 = (\<lambda>(section_name, ps).
     case parse_section_index section_name of
       None \<Rightarrow> Inr None
     | Some (index, subindex) \<Rightarrow>
         if is_pdo_index index then Inr None
         else if subindex = Some 0 then Inr None
         else
           let sub = (case subindex of None \<Rightarrow> 0 | Some s \<Rightarrow> s) in
           (case Option.bind (get_prop ps ''DataType'') parse_int_val of
              None \<Rightarrow> Inr None
            | Some data_type \<Rightarrow>
                (case (case get_prop ps ''ParameterValue'' of Some v \<Rightarrow> Some v
                       | None \<Rightarrow> get_prop ps ''DefaultValue'') of
                   None \<Rightarrow> Inr None
                 | Some value_str \<Rightarrow>
                     let trimmed = trim value_str in
                     if trimmed = [] \<or> contains ''$NODEID'' trimmed \<or> contains ''$nodeid'' trimmed then Inr None
                     else (case (if data_type < 2 ^ 16 then serialize_value p32 p64 trimmed (word_of_int data_type) else None) of
                        None \<Rightarrow> Inl (ParseError (''Invalid or unsupported value at 0x''
                          @ show_upper_hex 4 (uint index) @ '':'' @ show_upper_hex 2 (uint sub) @ '': '' @ trimmed
                          @ '' (type 0x'' @ show_upper_hex 0 data_type @ '')''))
                      | Some data \<Rightarrow> Inr (Some \<lparr>dce_index = index, dce_subindex = sub, dce_data = data,
                          dce_name = (case get_prop ps ''ParameterName'' of None \<Rightarrow> [] | Some n \<Rightarrow> n)\<rparr>)))))"

fun dcf_entries_of ::
  "(string \<Rightarrow> u32 option) \<Rightarrow> (string \<Rightarrow> u64 option) \<Rightarrow> sections \<Rightarrow> dcf_entry list \<Rightarrow> dcf_error + dcf_entry list" where
  "dcf_entries_of p32 p64 [] es = Inr es"
| "dcf_entries_of p32 p64 (sec # secs) es =
     (case dcf_section p32 p64 sec of
        Inl e \<Rightarrow> Inl e
      | Inr None \<Rightarrow> dcf_entries_of p32 p64 secs es
      | Inr (Some e) \<Rightarrow> dcf_entries_of p32 p64 secs (es @ [e]))"

definition dcf_parse :: "(string \<Rightarrow> u32 option) \<Rightarrow> (string \<Rightarrow> u64 option) \<Rightarrow> string \<Rightarrow> dcf_error + dcf" where
  "dcf_parse p32 p64 content =
     (let secs = parse_ini_sections content in
      case commissioning secs ''NodeID'' 8 of
        Inl e \<Rightarrow> Inl e
      | Inr node_id \<Rightarrow>
          (case commissioning secs ''BaudRate'' 32 of
             Inl e \<Rightarrow> Inl e
           | Inr baud_rate \<Rightarrow>
               (case dcf_entries_of p32 p64 secs [] of
                  Inl e \<Rightarrow> Inl e
                | Inr entries \<Rightarrow> Inr \<lparr>dcf_node_id = map_option word_of_int node_id,
                    dcf_baud_rate = map_option word_of_int baud_rate, dcf_entries = entries\<rparr>)))"

section \<open>Applying a configuration\<close>

definition dcf_apply_step :: "'od od_ops \<Rightarrow> dcf_entry \<Rightarrow> nat \<times> 'od \<Rightarrow> nat \<times> 'od" where
  "dcf_apply_step ops e = (\<lambda>(count, od).
     (let (r, od) = od_write ops od (dce_index e) (dce_subindex e) (dce_data e)
      in (if is_ok r then count + 1 else count, od)))"

definition dcf_apply :: "'od od_ops \<Rightarrow> dcf \<Rightarrow> 'od \<Rightarrow> nat \<times> 'od" where
  "dcf_apply ops d od = fold (dcf_apply_step ops) (dcf_entries d) (0, od)"

fun apply_strict_loop :: "'od od_ops \<Rightarrow> dcf_entry list \<Rightarrow> nat \<Rightarrow> 'od \<Rightarrow> (dcf_error + nat) \<times> 'od" where
  "apply_strict_loop ops [] count od = (Inr count, od)"
| "apply_strict_loop ops (e # es) count od =
     (let (r, od) = od_write ops od (dce_index e) (dce_subindex e) (dce_data e)
      in case r of
        Inl err \<Rightarrow> (Inl (DcfOdError (dce_index e) (dce_subindex e) err), od)
      | Inr _ \<Rightarrow> apply_strict_loop ops es (count + 1) od)"

definition apply_strict :: "'od od_ops \<Rightarrow> dcf \<Rightarrow> 'od \<Rightarrow> (dcf_error + nat) \<times> 'od" where
  "apply_strict ops d od = apply_strict_loop ops (dcf_entries d) 0 od"

section \<open>Integer values\<close>

text \<open>The little-endian two's complement bytes of an integer.\<close>

definition int_le_bytes :: "nat \<Rightarrow> int \<Rightarrow> bytes" where
  "int_le_bytes n x = map (\<lambda>i. word_of_int (x div 256 ^ i)) [0..<n]"

lemma ucast_drop_word_of_int:
  assumes "k + 8 \<le> 64"
  shows "(ucast (drop_bit k (word_of_int x :: u64)) :: u8) = word_of_int (x div 2 ^ k)"
proof -
  have "word_of_int (x div 2 ^ k) = (word_of_int (drop_bit k x) :: u8)" by (simp add: drop_bit_eq_div)
  then show ?thesis using assms
    by (auto intro!: bit_eqI simp: bit_unsigned_iff bit_drop_bit_eq bit_word_of_int_iff ac_simps)
qed

lemma slice_int_le_bytes:
  assumes "n \<le> 8"
  shows "slice (to_le_bytes 8 (word_of_int x :: u64)) 0 n = Some (int_le_bytes n x)"
proof -
  have "take n (to_le_bytes 8 (word_of_int x :: u64)) = int_le_bytes n x"
  proof (rule nth_equalityI)
    fix i
    assume "i < length (take n (to_le_bytes 8 (word_of_int x :: u64)))"
    then have i: "i < n" "i < 8" using assms by simp_all
    then have "8 * i + 8 \<le> 64" by linarith
    moreover have "(256 :: int) ^ i = 2 ^ (8 * i)" by (simp add: power_mult)
    ultimately show "take n (to_le_bytes 8 (word_of_int x :: u64)) ! i = int_le_bytes n x ! i"
      using i ucast_drop_word_of_int [of "8 * i" x] by (simp add: to_le_bytes_def int_le_bytes_def)
  qed (use assms in \<open>simp add: int_le_bytes_def\<close>)
  then show ?thesis using assms by (simp add: slice_def)
qed

lemma not_hex_dec: "0 \<le> n \<Longrightarrow> \<not> starts_with ''0x'' (show_radix 10 n) \<and> \<not> starts_with ''0X'' (show_radix 10 n)"
  using hex_prefix_dec [of n] by (auto simp: hex_prefix_def strip_prefix_def starts_with_def split: if_splits)

lemma not_minus_radix: "1 < r \<Longrightarrow> r \<le> 16 \<Longrightarrow> 0 \<le> n \<Longrightarrow> \<not> starts_with ''-'' (show_radix r n)"
  using digit_not_special(3) [OF show_radix_digits [OF _ _ _ hd_in_set [OF show_radix_nonempty]]]
  by (simp add: starts_with_single)

lemma parse_int_val_minus: "parse_int_val (CHR ''-'' # s) = None"
proof -
  have "trim (CHR ''-'' # s) = CHR ''-'' # rev (dropWhile is_ws (rev s))"
    by (simp add: trim_def trim_start_def trim_end_def is_ws_def dropWhile_append)
  then show ?thesis
    by (simp add: parse_int_val_def parse_hex_or_dec_def hex_prefix_def strip_prefix_def from_str_radix_def
        starts_with_def to_digit_def)
qed

abbreviation int_widths :: "nat set" where "int_widths \<equiv> {8, 16, 24, 32, 64}"

lemma serialize_signed:
  assumes "bits \<in> int_widths"
  shows "serialize_integer (show_int x) bits True
    = (if - (2 ^ (bits - 1)) \<le> x \<and> x < 2 ^ (bits - 1) then Some (int_le_bytes (bits div 8) x) else None)"
proof (cases "x < 0")
  case True
  have "starts_with ''-'' (show_int x)" using True by (simp add: show_int_def starts_with_def)
  moreover have "(- (2 ^ 63) :: int) \<le> - (2 ^ (bits - 1))" using assms by auto
  ultimately show ?thesis using True parse_i64_show_neg [OF True] assms
    by (auto simp: serialize_integer_def slice_int_le_bytes not_le)
next
  case False
  then have "show_int x = show_radix 10 x" by (simp add: show_int_def)
  moreover have "parse_int_val (show_radix 10 x) = (if x < 2 ^ 64 then Some x else None)"
    using False by (simp add: parse_int_val_def parse_hex_or_dec_dec)
  moreover have "(2 :: int) ^ (bits - 1) \<le> 2 ^ 64" using assms by auto
  ultimately show ?thesis using False not_hex_dec [of x] not_minus_radix [of 10 x] assms
    by (auto simp: serialize_integer_def slice_int_le_bytes)
qed

lemma serialize_unsigned:
  assumes "bits \<in> int_widths"
  shows "serialize_integer (show_int x) bits False
    = (if 0 \<le> x \<and> x < 2 ^ bits then Some (int_le_bytes (bits div 8) x) else None)"
proof (cases "x < 0")
  case True
  then show ?thesis by (simp add: serialize_integer_def show_int_def parse_int_val_minus)
next
  case False
  then have "show_int x = show_radix 10 x" by (simp add: show_int_def)
  moreover have "parse_int_val (show_radix 10 x) = (if x < 2 ^ 64 then Some x else None)"
    using False by (simp add: parse_int_val_def parse_hex_or_dec_dec)
  ultimately show ?thesis using False assms
    by (auto simp: serialize_integer_def slice_int_le_bytes)
qed

lemma serialize_hex:
  assumes "bits \<in> int_widths" and "0 \<le> n"
  shows "serialize_integer (''0x'' @ show_radix 16 n) bits is_signed
    = (if n < 2 ^ bits then Some (int_le_bytes (bits div 8) n) else None)"
proof -
  have "parse_int_val (''0x'' @ show_radix 16 n) = (if n < 2 ^ 64 then Some n else None)"
    using assms parse_hex_or_dec_hex [of n 64] by (simp add: parse_int_val_def)
  then show ?thesis using assms(1)
    by (auto simp: serialize_integer_def slice_int_le_bytes starts_with_def)
qed


section \<open>Configuration text\<close>

text \<open>Integer settings and the file that lists them, one section per setting.\<close>

record dcf_setting =
  st_index :: u16
  st_type :: u16
  st_value :: int

definition st_bits :: "u16 \<Rightarrow> (nat \<times> bool) option" where
  "st_bits t = (if t = 0x0002 then Some (8, True) else if t = 0x0005 then Some (8, False)
     else if t = 0x0003 then Some (16, True) else if t = 0x0006 then Some (16, False)
     else if t = 0x0010 then Some (24, True) else if t = 0x0016 then Some (24, False)
     else if t = 0x0004 then Some (32, True) else if t = 0x0007 then Some (32, False)
     else if t = 0x0015 then Some (64, True) else if t = 0x001B then Some (64, False) else None)"

definition st_in_range :: "nat \<Rightarrow> bool \<Rightarrow> int \<Rightarrow> bool" where
  "st_in_range bits sg x \<longleftrightarrow>
     (if sg then - (2 ^ (bits - 1)) \<le> x \<and> x < 2 ^ (bits - 1) else 0 \<le> x \<and> x < 2 ^ bits)"

definition valid_setting :: "dcf_setting \<Rightarrow> bool" where
  "valid_setting s \<longleftrightarrow> 0x1000 \<le> st_index s \<and> \<not> is_pdo_index (st_index s)
     \<and> (case st_bits (st_type s) of None \<Rightarrow> False | Some (bits, sg) \<Rightarrow> st_in_range bits sg (st_value s))"

definition setting_entry :: "dcf_setting \<Rightarrow> dcf_entry" where
  "setting_entry s = \<lparr>dce_index = st_index s, dce_subindex = 0,
     dce_data = (case st_bits (st_type s) of None \<Rightarrow> [] | Some (bits, _) \<Rightarrow> int_le_bytes (bits div 8) (st_value s)),
     dce_name = []\<rparr>"

definition setting_lines :: "dcf_setting \<Rightarrow> string list" where
  "setting_lines s = [''['' @ show_radix 16 (uint (st_index s)) @ '']'',
     ''DataType=0x'' @ show_radix 16 (uint (st_type s)), ''ParameterValue='' @ show_int (st_value s)]"

definition dcf_text :: "dcf_setting list \<Rightarrow> string" where
  "dcf_text ss = concat (map (\<lambda>l. l @ [CHR 0x0A]) (concat (map setting_lines ss)))"

definition setting_section :: "dcf_setting \<Rightarrow> string \<times> props" where
  "setting_section s = (show_radix 16 (uint (st_index s)),
     [(''DataType'', ''0x'' @ show_radix 16 (uint (st_type s))), (''ParameterValue'', show_int (st_value s))])"

lemma split_lines:
  "\<forall>l\<in>set ls. CHR 0x0A \<notin> set l \<Longrightarrow> split_char (CHR 0x0A) (concat (map (\<lambda>l. l @ [CHR 0x0A]) ls)) = ls @ [[]]"
  by (induction ls) (simp_all add: split_char_append)

lemma str_lines_text:
  assumes "\<forall>l\<in>set ls. \<forall>c\<in>set l. \<not> is_ws c"
  shows "str_lines (concat (map (\<lambda>l. l @ [CHR 0x0A]) ls)) = ls"
proof -
  have ws: "is_ws (CHR 0x0A)" "is_ws (CHR 0x0D)" by (simp_all add: is_ws_def)
  have "chop_cr l = l" if "l \<in> set ls" for l
    using assms ws(2) that last_in_set [of l] unfolding chop_cr_def by metis
  then have "map chop_cr ls = ls" by (intro map_idI)
  moreover have "\<forall>l\<in>set ls. CHR 0x0A \<notin> set l" using assms ws(1) by blast
  ultimately show ?thesis by (simp add: str_lines_def split_lines)
qed

lemma show_int_chars: "c \<in> set (show_int x) \<Longrightarrow> c = CHR ''-'' \<or> to_digit 10 c \<noteq> None"
  using show_radix_digits [of 10 x c] show_radix_digits [of 10 "- x" c] by (auto simp: show_int_def split: if_splits)

lemma show_int_no_ws: "c \<in> set (show_int x) \<Longrightarrow> \<not> is_ws c"
  using show_int_chars [of c x] digit_not_special(1) [of 10 c] by (auto simp: is_ws_def)

lemma setting_lines_no_ws: "l \<in> set (setting_lines s) \<Longrightarrow> c \<in> set l \<Longrightarrow> \<not> is_ws c"
  using show_radix_no_ws [of 16 "uint (st_index s)" c] show_radix_no_ws [of 16 "uint (st_type s)" c]
    show_int_no_ws [of c "st_value s"]
  by (auto simp: setting_lines_def is_ws_def)

lemma ini_lines_setting:
  "fold ini_line (setting_lines s) (secs, cur, ps)
    = ((if cur \<noteq> [] then secs @ [(cur, ps)] else secs), show_radix 16 (uint (st_index s)),
       (if cur \<noteq> [] then [] else ps) @ snd (setting_section s))"
proof -
  have t: "trim l = l" if "l \<in> set (setting_lines s)" for l
    using setting_lines_no_ws [OF that] by (intro trim_no_ws) auto
  have u: "trim (show_int (st_value s)) = show_int (st_value s)"
    "trim (''0x'' @ show_radix 16 (uint (st_type s))) = ''0x'' @ show_radix 16 (uint (st_type s))"
    using show_int_no_ws [of _ "st_value s"] show_radix_no_ws [of 16 "uint (st_type s)"]
    by (auto intro!: trim_no_ws simp: is_ws_def)
  have v: "trim ''DataType'' = ''DataType''" "trim ''ParameterValue'' = ''ParameterValue''" by code_simp+
  note lines = t [of "''['' @ show_radix 16 (uint (st_index s)) @ '']''"]
    t [of "''DataType=0x'' @ show_radix 16 (uint (st_type s))"] t [of "''ParameterValue='' @ show_int (st_value s)"]
  show ?thesis
    using lines u v
    by (simp add: setting_lines_def ini_line_def starts_with_def setting_section_def Let_def butlast_append)
qed

lemma ini_sections_settings:
  "fold ini_line (concat (map setting_lines ss)) (secs, cur, ps) = (secs', cur', ps') \<Longrightarrow> cur \<noteq> [] \<Longrightarrow>
   (if cur' \<noteq> [] then secs' @ [(cur', ps')] else secs') = secs @ [(cur, ps)] @ map setting_section ss"
proof (induction ss arbitrary: secs cur ps)
  case (Cons s ss)
  from Cons.prems(1) have "fold ini_line (concat (map setting_lines ss))
      (secs @ [(cur, ps)], show_radix 16 (uint (st_index s)), snd (setting_section s)) = (secs', cur', ps')"
    using Cons.prems(2) by (simp add: ini_lines_setting)
  from Cons.IH [OF this] show ?case by (simp add: setting_section_def)
qed simp

lemma parse_ini_text: "parse_ini_sections (dcf_text ss) = map setting_section ss"
proof -
  have "str_lines (dcf_text ss) = concat (map setting_lines ss)"
    unfolding dcf_text_def by (rule str_lines_text) (use setting_lines_no_ws in auto)
  moreover have "(case fold ini_line (concat (map setting_lines ss)) ([], [], []) of
      (secs, cur, ps) \<Rightarrow> if cur \<noteq> [] then secs @ [(cur, ps)] else secs) = map setting_section ss"
  proof (cases ss)
    case (Cons s ss')
    obtain secs' cur' ps' where f: "fold ini_line (concat (map setting_lines ss'))
        ([], show_radix 16 (uint (st_index s)), snd (setting_section s)) = (secs', cur', ps')"
      by (cases "fold ini_line (concat (map setting_lines ss'))
        ([], show_radix 16 (uint (st_index s)), snd (setting_section s))") auto
    from ini_sections_settings [OF this] show ?thesis
      by (simp add: Cons ini_lines_setting f) (simp add: setting_section_def)
  qed simp
  ultimately show ?thesis by (simp add: parse_ini_sections_def)
qed


section \<open>Sections of the text\<close>

lemma split_once_None:
  assumes "p \<noteq> []" and "hd p \<notin> set s"
  shows "split_once p s = None"
  using assms
proof (induction s)
  case (Cons c cs)
  then have "\<not> starts_with p (c # cs)" by (cases p) (auto simp: starts_with_def)
  then show ?case using Cons by simp
qed simp

lemma lower_hex_digits:
  assumes "0 \<le> n"
  shows "to_lowercase (show_radix 16 n) = show_radix 16 n"
proof -
  have "ascii_lower c = c" if "c \<in> set (show_radix 16 n)" for c
    using that assms
  proof (induction "16 :: int" n rule: show_radix.induct)
    case (1 n)
    have l: "ascii_lower (digit_char d) = digit_char d" if "0 \<le> d" "d < 16" for d
    proof -
      have "d \<in> set [0..15]" using that by simp
      moreover have "list_all (\<lambda>d. ascii_lower (digit_char d) = digit_char d) [0..15]" by code_simp
      ultimately show ?thesis by (simp add: list_all_iff)
    qed
    show ?case using 1 l [of n] l [of "n mod 16"]
      by (auto simp: show_radix.simps [of 16 n] pos_imp_zdiv_nonneg_iff split: if_splits)
  qed
  then show ?thesis by (simp add: to_lowercase_def map_idI)
qed

lemma parse_section_setting:
  assumes "0x1000 \<le> i"
  shows "parse_section_index (show_radix 16 (uint i)) = Some (i, None)"
proof -
  have "CHR ''s'' \<notin> set (show_radix 16 (uint i))"
    using show_radix_digits [of 16 "uint i" "CHR ''s''"] digit_not_special(9) [of 16 "CHR ''s''"] by auto
  then have "split_once ''sub'' (show_radix 16 (uint i)) = None" by (intro split_once_None) simp_all
  moreover have "uint i < 2 ^ 16" using unsigned_less [of i] by simp
  moreover have "0x1000 \<le> uint i" using assms by (simp add: word_le_def)
  ultimately show ?thesis
    using from_str_radix_show [of 16 "uint i" 16] by (simp add: parse_section_index_def lower_hex_digits)
qed

lemma get_prop_setting:
  "get_prop (snd (setting_section s)) ''DataType'' = Some (''0x'' @ show_radix 16 (uint (st_type s)))"
  "get_prop (snd (setting_section s)) ''ParameterValue'' = Some (show_int (st_value s))"
  "get_prop (snd (setting_section s)) ''ParameterName'' = None"
proof -
  have e: "\<not> eq_ignore_ascii_case ''DataType'' ''ParameterValue''"
    "\<not> eq_ignore_ascii_case ''DataType'' ''ParameterName''"
    "\<not> eq_ignore_ascii_case ''ParameterValue'' ''ParameterName''" by code_simp+
  have r: "eq_ignore_ascii_case k k" for k by (simp add: eq_ignore_ascii_case_def)
  show "get_prop (snd (setting_section s)) ''DataType'' = Some (''0x'' @ show_radix 16 (uint (st_type s)))"
    "get_prop (snd (setting_section s)) ''ParameterValue'' = Some (show_int (st_value s))"
    "get_prop (snd (setting_section s)) ''ParameterName'' = None"
    using e r by (simp_all add: get_prop_def setting_section_def)
qed

lemma show_int_trimmed:
  "trim (show_int x) = show_int x" "trim_matches (CHR 0x22) (show_int x) = show_int x" "show_int x \<noteq> []"
proof -
  show "trim (show_int x) = show_int x" using show_int_no_ws by (intro trim_no_ws) auto
  have q: "CHR 0x22 \<notin> set (show_int x)"
    using show_int_chars [of "CHR 0x22" x] by (auto simp: to_digit_def)
  then have "dropWhile (\<lambda>c. c = CHR 0x22) (show_int x) = show_int x" by (cases "show_int x") auto
  moreover have "dropWhile (\<lambda>c. c = CHR 0x22) (rev (show_int x)) = rev (show_int x)"
    using q by (cases "rev (show_int x)") (auto simp: rev_eq_Cons_iff)
  ultimately show "trim_matches (CHR 0x22) (show_int x) = show_int x" by (simp add: trim_matches_def)
  show "show_int x \<noteq> []" by (simp add: show_int_def)
qed

lemma show_int_no_dollar: "\<not> contains ''$NODEID'' (show_int x) \<and> \<not> contains ''$nodeid'' (show_int x)"
proof -
  have "CHR ''$'' \<notin> set (show_int x)"
    using show_int_chars [of "CHR ''$''" x] by (auto simp: to_digit_def)
  then show ?thesis by (simp add: contains_def split_once_None)
qed

lemma serialize_setting:
  assumes "st_bits t = Some (bits, sg)" and "st_in_range bits sg x"
  shows "serialize_value p32 p64 (show_int x) t = Some (int_le_bytes (bits div 8) x)"
proof -
  have "serialize_value p32 p64 (show_int x) t = serialize_integer (show_int x) bits sg"
    using assms(1)
    by (auto simp: serialize_value_def st_bits_def show_int_trimmed split: if_splits)
  moreover have "bits \<in> int_widths" using assms(1) by (auto simp: st_bits_def split: if_splits)
  ultimately show ?thesis using assms(2) serialize_signed [of bits x] serialize_unsigned [of bits x]
    by (auto simp: st_in_range_def split: if_splits)
qed

lemma dcf_section_setting:
  assumes "valid_setting s"
  shows "dcf_section p32 p64 (setting_section s) = Inr (Some (setting_entry s))"
proof -
  obtain bits sg where b: "st_bits (st_type s) = Some (bits, sg)" "st_in_range bits sg (st_value s)"
    using assms by (auto simp: valid_setting_def split: option.splits)
  have u: "uint (st_type s) < 2 ^ 16" using unsigned_less [of "st_type s"] by simp
  then have "parse_int_val (''0x'' @ show_radix 16 (uint (st_type s))) = Some (uint (st_type s))"
    using parse_hex_or_dec_hex [of "uint (st_type s)" 64] by (simp add: parse_int_val_def)
  moreover obtain n ps where sec: "setting_section s = (n, ps)" "n = show_radix 16 (uint (st_index s))"
    by (simp add: setting_section_def)
  ultimately show ?thesis
    using get_prop_setting [of s] parse_section_setting [of "st_index s"] u assms serialize_setting [OF b]
    by (simp add: dcf_section_def Let_def valid_setting_def b show_int_trimmed show_int_no_dollar setting_entry_def)
qed

lemma dcf_entries_settings:
  "\<forall>s\<in>set ss. valid_setting s \<Longrightarrow>
   dcf_entries_of p32 p64 (map setting_section ss) es = Inr (es @ map setting_entry ss)"
  by (induction ss arbitrary: es) (simp_all add: dcf_section_setting)

lemma no_commissioning: "find_section (map setting_section ss) ''DeviceComissioning'' = None"
proof -
  have "\<not> eq_ignore_ascii_case (show_radix 16 (uint i)) ''DeviceComissioning''" for i :: u16
  proof
    assume "eq_ignore_ascii_case (show_radix 16 (uint i)) ''DeviceComissioning''"
    then have "to_lowercase (show_radix 16 (uint i)) = to_lowercase ''DeviceComissioning''"
      by (simp add: eq_ignore_ascii_case_def to_lowercase_def)
    moreover have "CHR ''v'' \<in> set (to_lowercase ''DeviceComissioning'')" by code_simp
    ultimately have "CHR ''v'' \<in> set (show_radix 16 (uint i))" by (simp add: lower_hex_digits)
    then have "to_digit 16 (CHR ''v'') \<noteq> None" using show_radix_digits [of 16 "uint i"] by simp
    then show False by (simp add: to_digit_def)
  qed
  then show ?thesis by (auto simp: find_section_def find_None_iff setting_section_def)
qed

lemma dcf_parse_text:
  assumes "\<forall>s\<in>set ss. valid_setting s"
  shows "dcf_parse p32 p64 (dcf_text ss)
    = Inr \<lparr>dcf_node_id = None, dcf_baud_rate = None, dcf_entries = map setting_entry ss\<rparr>"
  using dcf_entries_settings [OF assms, of p32 p64 "[]"]
  by (simp add: dcf_parse_def parse_ini_text commissioning_def no_commissioning)

end
