(* ===== verification/Sdo_Driver.thy ===== *)
theory Sdo_Driver
  imports Sdo_Transfer Dcf
begin

text \<open>
  The asynchronous SDO driver of \<open>canopen-core/src/sdo/driver.rs\<close>, built without the
  \<open>embassy\<close> feature. Futures are modelled by their polls: the world \<open>'w\<close> (transport, clock
  and executor) answers a poll of \<open>transmit\<close> or \<open>receive\<close> with a result or with pending;
  when a task is pending it is suspended and polled again. A function returns \<^term>\<open>None\<close>
  when it never completes (or panics), so a theorem that it returns \<open>Some\<close> includes progress.
\<close>

section \<open>The asynchronous transport\<close>

record ('w, 'e) async_can =
  poll_transmit :: "can_frame \<Rightarrow> 'w \<Rightarrow> ('e + unit) option \<times> 'w"
  poll_receive :: "'w \<Rightarrow> ('e + can_frame) option \<times> 'w"
  suspend :: "'w \<Rightarrow> 'w"
  now_us :: "'w \<Rightarrow> u64"

text \<open>\<open>future.await\<close>: poll, suspend while pending.\<close>

partial_function (option) await ::
  "('w, 'e) async_can \<Rightarrow> ('w \<Rightarrow> 'a option \<times> 'w) \<Rightarrow> 'w \<Rightarrow> ('a \<times> 'w) option" where
  "await can fut w =
     (case fut w of
        (Some r, w') \<Rightarrow> Some (r, w')
      | (None, w') \<Rightarrow> await can fut (suspend can w'))"

section \<open>Errors and deadlines\<close>

datatype 'e sdo_error = Aborted sdo_abort | ProtocolError | Transport 'e | Timeout | TooLarge

record transfer_deadline =
  td_started :: u64
  td_timeout_us :: u64

definition saturating_sub :: "'a::len word \<Rightarrow> 'a word \<Rightarrow> 'a word" where
  "saturating_sub a b = (if b \<le> a then a - b else 0)"

definition remaining :: "transfer_deadline \<Rightarrow> u64 \<Rightarrow> u64" where
  "remaining d now = saturating_sub (td_timeout_us d) (now - td_started d)"

type_synonym deadline = "transfer_deadline option"

partial_function (option) poll_until ::
  "('w, 'e) async_can \<Rightarrow> transfer_deadline \<Rightarrow> ('w \<Rightarrow> 'a option \<times> 'w) \<Rightarrow> 'w
   \<Rightarrow> (('e sdo_error + 'a) \<times> 'w) option" where
  "poll_until can d fut w =
     (if remaining d (now_us can w) = 0 then Some (Inl Timeout, w)
      else (case fut w of
         (Some r, w') \<Rightarrow> Some (Inr r, w')
       | (None, w') \<Rightarrow> poll_until can d fut (suspend can w')))"

definition with_deadline ::
  "('w, 'e) async_can \<Rightarrow> transfer_deadline \<Rightarrow> ('w \<Rightarrow> 'a option \<times> 'w) \<Rightarrow> 'w
   \<Rightarrow> (('e sdo_error + 'a) \<times> 'w) option" where
  "with_deadline can d fut w =
     (if remaining d (now_us can w) = 0 then Some (Inl Timeout, w) else poll_until can d fut w)"

section \<open>The driver\<close>

record sdo_driver =
  drv_target :: node_id
  response_cob :: u16

definition MAX_TRANSFER :: nat where "MAX_TRANSFER = 256"

definition sdo_driver_new :: "node_id \<Rightarrow> sdo_driver" where
  "sdo_driver_new target = \<lparr>drv_target = target, response_cob = cob_raw (cob_sdo_tx target)\<rparr>"

definition drv_send ::
  "('w, 'e) async_can \<Rightarrow> can_frame \<Rightarrow> deadline \<Rightarrow> 'w \<Rightarrow> (('e sdo_error + unit) \<times> 'w) option" where
  "drv_send can frame dl w =
     (case dl of
        None \<Rightarrow> do {
          (r, w) \<leftarrow> await can (poll_transmit can frame) w;
          Some (case r of Inl e \<Rightarrow> Inl (Transport e) | Inr u \<Rightarrow> Inr u, w)
        }
      | Some d \<Rightarrow> do {
          (r, w) \<leftarrow> with_deadline can d (poll_transmit can frame) w;
          Some (case r of Inl e \<Rightarrow> Inl e | Inr (Inl e) \<Rightarrow> Inl (Transport e) | Inr (Inr u) \<Rightarrow> Inr u, w)
        })"

definition recv_one ::
  "('w, 'e) async_can \<Rightarrow> deadline \<Rightarrow> 'w \<Rightarrow> (('e sdo_error + can_frame) \<times> 'w) option" where
  "recv_one can dl w =
     (case dl of
        None \<Rightarrow> do {
          (r, w) \<leftarrow> await can (poll_receive can) w;
          Some (case r of Inl e \<Rightarrow> Inl (Transport e) | Inr f \<Rightarrow> Inr f, w)
        }
      | Some d \<Rightarrow> do {
          (r, w) \<leftarrow> with_deadline can d (poll_receive can) w;
          Some (case r of Inl e \<Rightarrow> Inl e | Inr (Inl e) \<Rightarrow> Inl (Transport e) | Inr (Inr f) \<Rightarrow> Inr f, w)
        })"

partial_function (option) receive_response ::
  "('w, 'e) async_can \<Rightarrow> sdo_driver \<Rightarrow> deadline \<Rightarrow> 'w \<Rightarrow> (('e sdo_error + can_frame) \<times> 'w) option" where
  "receive_response can drv dl w = do {
     (r, w) \<leftarrow> recv_one can dl w;
     (case r of
        Inl e \<Rightarrow> Some (Inl e, w)
      | Inr frame \<Rightarrow>
          if raw_id frame \<noteq> response_cob drv then receive_response can drv dl w
          else if raw_dlc frame \<noteq> 8 then Some (Inl ProtocolError, w)
          else Some (Inr frame, w))
   }"

definition send_abort ::
  "('w, 'e) async_can \<Rightarrow> sdo_driver \<Rightarrow> u16 \<Rightarrow> u8 \<Rightarrow> abort_code \<Rightarrow> 'w \<Rightarrow> 'w" where
  "send_abort can drv index subindex code w =
     (case can_frame_new (cob_raw (cob_sdo_rx (drv_target drv))) (encode_abort index subindex code) of
        None \<Rightarrow> w
      | Some frame \<Rightarrow> snd (poll_transmit can frame w))"

definition finish ::
  "('w, 'e) async_can \<Rightarrow> sdo_driver \<Rightarrow> u16 \<Rightarrow> u8 \<Rightarrow> 'e sdo_error + ('e sdo_error + 'a) \<Rightarrow> 'w
   \<Rightarrow> ('e sdo_error + 'a) \<times> 'w" where
  "finish can drv index subindex result w =
     (case result of
        Inr outcome \<Rightarrow> (outcome, w)
      | Inl error \<Rightarrow>
          (let code = (case error of Timeout \<Rightarrow> Some SdoProtocolTimeout
                       | ProtocolError \<Rightarrow> Some InvalidCommandSpecifier | _ \<Rightarrow> None)
           in (Inl error, case code of Some c \<Rightarrow> send_abort can drv index subindex c w | None \<Rightarrow> w)))"

text \<open>The receive loop of an upload; the caller's buffer \<open>buf\<close> is filled on completion.\<close>

partial_function (option) upload_loop ::
  "('w, 'e) async_can \<Rightarrow> sdo_driver \<Rightarrow> deadline \<Rightarrow> sdo_client \<Rightarrow> bytes \<Rightarrow> 'w
   \<Rightarrow> (('e sdo_error + ('e sdo_error + nat \<times> bool)) \<times> bytes \<times> 'w) option" where
  "upload_loop can drv dl client buf w = do {
     (r, w) \<leftarrow> receive_response can drv dl w;
     (case r of
        Inl e \<Rightarrow> Some (Inl e, buf, w)
      | Inr frame \<Rightarrow> do {
          (res, client) \<leftarrow> process_response MAX_TRANSFER client (frame_data frame);
          (case res of
             UploadComplete data_len \<Rightarrow>
               if data_len > length buf then Some (Inr (Inl TooLarge), buf, w)
               else do {
                 data \<leftarrow> client_data client;
                 v \<leftarrow> slice data 0 data_len;
                 Some (Inr (Inr (data_len, cl_upload_size_indicated client)), overwrite buf 0 v, w)
               }
           | SendNext next \<Rightarrow> do {
               (s, w) \<leftarrow> drv_send can next dl w;
               (case s of
                  Inl e \<Rightarrow> Some (Inl e, buf, w)
                | Inr _ \<Rightarrow> upload_loop can drv dl client buf w)
             }
           | ClientAborted code \<Rightarrow> Some (Inr (Inl (Aborted code)), buf, w)
           | IgnoredAbort \<Rightarrow> upload_loop can drv dl client buf w
           | DownloadComplete \<Rightarrow> Some (Inl ProtocolError, buf, w)
           | ClientError \<Rightarrow> Some (Inl ProtocolError, buf, w))
        })
   }"

definition upload_impl ::
  "('w, 'e) async_can \<Rightarrow> sdo_driver \<Rightarrow> u16 \<Rightarrow> u8 \<Rightarrow> bytes \<Rightarrow> deadline \<Rightarrow> 'w
   \<Rightarrow> (('e sdo_error + nat \<times> bool) \<times> bytes \<times> 'w) option" where
  "upload_impl can drv index subindex buf dl w = do {
     (req, client) \<leftarrow> start_upload (sdo_client_new MAX_TRANSFER (drv_target drv)) index subindex;
     (s, w) \<leftarrow> drv_send can req dl w;
     (case s of
        Inl e \<Rightarrow> Some (Inl e, buf, w)
      | Inr _ \<Rightarrow> do {
          (result, buf, w) \<leftarrow> upload_loop can drv dl client buf w;
          (let (r, w) = finish can drv index subindex result w in Some (r, buf, w))
        })
   }"

partial_function (option) download_loop ::
  "('w, 'e) async_can \<Rightarrow> sdo_driver \<Rightarrow> deadline \<Rightarrow> sdo_client \<Rightarrow> 'w
   \<Rightarrow> (('e sdo_error + ('e sdo_error + unit)) \<times> 'w) option" where
  "download_loop can drv dl client w = do {
     (r, w) \<leftarrow> receive_response can drv dl w;
     (case r of
        Inl e \<Rightarrow> Some (Inl e, w)
      | Inr frame \<Rightarrow> do {
          (res, client) \<leftarrow> process_response MAX_TRANSFER client (frame_data frame);
          (case res of
             DownloadComplete \<Rightarrow> Some (Inr (Inr ()), w)
           | SendNext next \<Rightarrow> do {
               (s, w) \<leftarrow> drv_send can next dl w;
               (case s of
                  Inl e \<Rightarrow> Some (Inl e, w)
                | Inr _ \<Rightarrow> download_loop can drv dl client w)
             }
           | ClientAborted code \<Rightarrow> Some (Inr (Inl (Aborted code)), w)
           | IgnoredAbort \<Rightarrow> download_loop can drv dl client w
           | UploadComplete _ \<Rightarrow> Some (Inl ProtocolError, w)
           | ClientError \<Rightarrow> Some (Inl ProtocolError, w))
        })
   }"

definition download_impl ::
  "('w, 'e) async_can \<Rightarrow> sdo_driver \<Rightarrow> u16 \<Rightarrow> u8 \<Rightarrow> bytes \<Rightarrow> deadline \<Rightarrow> 'w
   \<Rightarrow> (('e sdo_error + unit) \<times> 'w) option" where
  "download_impl can drv index subindex data dl w = do {
     (req, client) \<leftarrow> start_download MAX_TRANSFER (sdo_client_new MAX_TRANSFER (drv_target drv)) index subindex data;
     (case req of
        Inl _ \<Rightarrow> Some (Inl TooLarge, w)
      | Inr req \<Rightarrow> do {
          (s, w) \<leftarrow> drv_send can req dl w;
          (case s of
             Inl e \<Rightarrow> Some (Inl e, w)
           | Inr _ \<Rightarrow> do {
               (result, w) \<leftarrow> download_loop can drv dl client w;
               Some (finish can drv index subindex result w)
             })
        })
   }"


section \<open>The public interface\<close>

definition fst_result :: "('e + 'a \<times> 'b) \<Rightarrow> 'e + 'a" where
  "fst_result r = (case r of Inl e \<Rightarrow> Inl e | Inr (a, _) \<Rightarrow> Inr a)"

definition drv_upload ::
  "('w, 'e) async_can \<Rightarrow> sdo_driver \<Rightarrow> u16 \<Rightarrow> u8 \<Rightarrow> bytes \<Rightarrow> 'w
   \<Rightarrow> (('e sdo_error + nat) \<times> bytes \<times> 'w) option" where
  "drv_upload can drv index subindex buf w =
     map_option (map_prod fst_result id) (upload_impl can drv index subindex buf None w)"

definition drv_download ::
  "('w, 'e) async_can \<Rightarrow> sdo_driver \<Rightarrow> u16 \<Rightarrow> u8 \<Rightarrow> bytes \<Rightarrow> 'w \<Rightarrow> (('e sdo_error + unit) \<times> 'w) option" where
  "drv_download can drv index subindex data w = download_impl can drv index subindex data None w"

definition upload_timed ::
  "('w, 'e) async_can \<Rightarrow> sdo_driver \<Rightarrow> u16 \<Rightarrow> u8 \<Rightarrow> bytes \<Rightarrow> u64 \<Rightarrow> 'w
   \<Rightarrow> (('e sdo_error + nat) \<times> bytes \<times> 'w) option" where
  "upload_timed can drv index subindex buf timeout w =
     map_option (map_prod fst_result id)
       (upload_impl can drv index subindex buf (Some \<lparr>td_started = now_us can w, td_timeout_us = timeout\<rparr>) w)"

definition download_timed ::
  "('w, 'e) async_can \<Rightarrow> sdo_driver \<Rightarrow> u16 \<Rightarrow> u8 \<Rightarrow> bytes \<Rightarrow> u64 \<Rightarrow> 'w \<Rightarrow> (('e sdo_error + unit) \<times> 'w) option" where
  "download_timed can drv index subindex data timeout w =
     download_impl can drv index subindex data (Some \<lparr>td_started = now_us can w, td_timeout_us = timeout\<rparr>) w"

text \<open>\<open>read_fixed::<N>\<close>: the exact width, or the leading bytes of a size-less expedited reply.\<close>

definition read_fixed ::
  "nat \<Rightarrow> ('w, 'e) async_can \<Rightarrow> sdo_driver \<Rightarrow> u16 \<Rightarrow> u8 \<Rightarrow> 'w \<Rightarrow> (('e sdo_error + bytes) \<times> 'w) option" where
  "read_fixed N can drv index subindex w = do {
     (r, buf, w) \<leftarrow> upload_impl can drv index subindex (replicate 8 0) None w;
     (case r of
        Inl e \<Rightarrow> Some (Inl e, w)
      | Inr (len, size_indicated) \<Rightarrow>
          (let width_ok = (len = N \<or> \<not> size_indicated \<and> len = 4 \<and> N < 4) in
           if \<not> width_ok then Some (Inl ProtocolError, w)
           else do { out \<leftarrow> slice buf 0 N; Some (Inr out, w) }))
   }"

definition map_ok :: "('a \<Rightarrow> 'b) \<Rightarrow> (('e + 'a) \<times> 'w) option \<Rightarrow> (('e + 'b) \<times> 'w) option" where
  "map_ok f r = map_option (map_prod (map_sum id f) id) r"

text \<open>
  The typed pairs that \<open>typed_access!\<close> generates, for the unsigned types, for the signed types
  and for the floating point types (as their bit pattern) alike: the value is a word of
  \<open>8 * width\<close> bits.
\<close>

definition read_typed ::
  "nat \<Rightarrow> ('w, 'e) async_can \<Rightarrow> sdo_driver \<Rightarrow> u16 \<Rightarrow> u8 \<Rightarrow> 'w \<Rightarrow> (('e sdo_error + 'a::len word) \<times> 'w) option" where
  "read_typed width can drv index subindex w = map_ok from_le_bytes (read_fixed width can drv index subindex w)"

definition write_typed ::
  "nat \<Rightarrow> ('w, 'e) async_can \<Rightarrow> sdo_driver \<Rightarrow> u16 \<Rightarrow> u8 \<Rightarrow> 'a::len word \<Rightarrow> 'w
   \<Rightarrow> (('e sdo_error + unit) \<times> 'w) option" where
  "write_typed width can drv index subindex val w = drv_download can drv index subindex (to_le_bytes width val) w"

definition read_bool ::
  "('w, 'e) async_can \<Rightarrow> sdo_driver \<Rightarrow> u16 \<Rightarrow> u8 \<Rightarrow> 'w \<Rightarrow> (('e sdo_error + bool) \<times> 'w) option" where
  "read_bool can drv index subindex w = map_ok (\<lambda>b. b ! 0 \<noteq> 0) (read_fixed 1 can drv index subindex w)"

definition write_bool ::
  "('w, 'e) async_can \<Rightarrow> sdo_driver \<Rightarrow> u16 \<Rightarrow> u8 \<Rightarrow> bool \<Rightarrow> 'w \<Rightarrow> (('e sdo_error + unit) \<times> 'w) option" where
  "write_bool can drv index subindex val w = drv_download can drv index subindex [if val then 1 else 0] w"

definition read_i24 ::
  "('w, 'e) async_can \<Rightarrow> sdo_driver \<Rightarrow> u16 \<Rightarrow> u8 \<Rightarrow> 'w \<Rightarrow> (('e sdo_error + u32) \<times> 'w) option" where
  "read_i24 can drv index subindex w =
     map_ok (\<lambda>b. from_le_bytes [b ! 0, b ! 1, b ! 2, if b ! 2 AND 0x80 \<noteq> 0 then 0xFF else 0x00])
       (read_fixed 3 can drv index subindex w)"

definition read_u24 ::
  "('w, 'e) async_can \<Rightarrow> sdo_driver \<Rightarrow> u16 \<Rightarrow> u8 \<Rightarrow> 'w \<Rightarrow> (('e sdo_error + u32) \<times> 'w) option" where
  "read_u24 can drv index subindex w =
     map_ok (\<lambda>b. from_le_bytes [b ! 0, b ! 1, b ! 2, 0]) (read_fixed 3 can drv index subindex w)"

text \<open>\<open>write_i24\<close> and \<open>write_u24\<close> both send the three low bytes of a 32-bit value.\<close>

definition write_24 ::
  "('w, 'e) async_can \<Rightarrow> sdo_driver \<Rightarrow> u16 \<Rightarrow> u8 \<Rightarrow> u32 \<Rightarrow> 'w \<Rightarrow> (('e sdo_error + unit) \<times> 'w) option" where
  "write_24 can drv index subindex val w = drv_download can drv index subindex (take 3 (to_le_bytes 4 val)) w"

text \<open>\<open>Dcf::apply_remote\<close>\<close>

fun apply_remote_loop ::
  "('w, 'e) async_can \<Rightarrow> sdo_driver \<Rightarrow> dcf_entry list \<Rightarrow> nat \<Rightarrow> 'w \<Rightarrow> (('e sdo_error + nat) \<times> 'w) option" where
  "apply_remote_loop can drv [] count w = Some (Inr count, w)"
| "apply_remote_loop can drv (e # es) count w = do {
     (r, w) \<leftarrow> drv_download can drv (dce_index e) (dce_subindex e) (dce_data e) w;
     (case r of Inl err \<Rightarrow> Some (Inl err, w) | Inr _ \<Rightarrow> apply_remote_loop can drv es (count + 1) w)
   }"

definition apply_remote ::
  "('w, 'e) async_can \<Rightarrow> sdo_driver \<Rightarrow> dcf \<Rightarrow> 'w \<Rightarrow> (('e sdo_error + nat) \<times> 'w) option" where
  "apply_remote can drv d w = apply_remote_loop can drv (dcf_entries d) 0 w"

section \<open>Non-blocking transports\<close>

text \<open>
  \<open>NbCanAsync\<close> turns an \<open>nb::Can\<close> transport into an asynchronous one: every poll tries once and
  is pending on \<open>WouldBlock\<close>. \<open>idle\<close> and \<open>clk\<close> stand for what happens between polls and for
  the clock.
\<close>

definition nb_poll_transmit :: "'t can_ops \<Rightarrow> can_frame \<Rightarrow> 't \<Rightarrow> (can_error + unit) option \<times> 't" where
  "nb_poll_transmit ops f t =
     (case can_transmit ops t f of
        (Inr _, t') \<Rightarrow> (Some (Inr ()), t')
      | (Inl WouldBlock, t') \<Rightarrow> (None, t')
      | (Inl (OtherError e), t') \<Rightarrow> (Some (Inl e), t'))"

definition nb_poll_receive :: "'t can_ops \<Rightarrow> 't \<Rightarrow> (can_error + can_frame) option \<times> 't" where
  "nb_poll_receive ops t =
     (case can_receive ops t of
        (Inr f, t') \<Rightarrow> (Some (Inr f), t')
      | (Inl WouldBlock, t') \<Rightarrow> (None, t')
      | (Inl (OtherError e), t') \<Rightarrow> (Some (Inl e), t'))"

definition nb_can_async :: "'t can_ops \<Rightarrow> ('t \<Rightarrow> 't) \<Rightarrow> ('t \<Rightarrow> u64) \<Rightarrow> ('t, can_error) async_can" where
  "nb_can_async ops idle clk = \<lparr>poll_transmit = nb_poll_transmit ops, poll_receive = nb_poll_receive ops,
     suspend = idle, now_us = clk\<rparr>"

section \<open>The client inside the driver\<close>

lemma response_processed:
  assumes "wf_client MAX_TRANSFER c" and "wf_frame f" and "raw_dlc f = 8"
  obtains res c' where "process_response MAX_TRANSFER c (frame_data f) = Some (res, c')" "wf_client MAX_TRANSFER c'"
  using process_response_wf [OF assms(1), of "frame_data f"] length_frame_data [OF assms(2)] assms(3) by auto

lemma client_data_complete:
  assumes "process_response BUF c d = Some (UploadComplete n, c')" and "wf_client BUF c'"
  shows "\<exists>v. client_data c' = Some v \<and> length v = n"
  using upload_complete_offset [OF assms(1)] assms(2) by (auto simp: client_data_def slice_def wf_client_def)

end
