(* ===== verification/Sdo_Deadline.thy ===== *)
theory Sdo_Deadline
  imports Sdo_Driver
begin

text \<open>
  Deadlines: whatever the transport does, a timed transfer of the driver ends. The clock may
  start anywhere, so that the microsecond counter wraps around during the transfer.
\<close>

section \<open>Worlds with a clock\<close>

text \<open>
  \<open>elapsed\<close> is the true time of a world, of which the 64-bit clock shows the low bits. No
  operation takes more than \<open>D\<close> microseconds, a suspended task is woken later, and receiving
  a frame takes time. Received frames are well-formed, as every \<open>CanFrame\<close> is.
\<close>

locale clocked_can =
  fixes can :: "('w, 'e) async_can" and elapsed :: "'w \<Rightarrow> nat" and good :: "'w \<Rightarrow> bool" and D :: nat
  assumes clock: "now_us can w = of_nat (elapsed w)"
    and transmit_time: "good w \<Longrightarrow> poll_transmit can f w = (r, w') \<Longrightarrow>
      good w' \<and> elapsed w \<le> elapsed w' \<and> elapsed w' \<le> elapsed w + D"
    and receive_time: "good w \<Longrightarrow> poll_receive can w = (x, w') \<Longrightarrow>
      good w' \<and> elapsed w \<le> elapsed w' \<and> elapsed w' \<le> elapsed w + D"
    and receive_tick: "good w \<Longrightarrow> poll_receive can w = (Some y, w') \<Longrightarrow> elapsed w < elapsed w'"
    and receive_frame: "good w \<Longrightarrow> poll_receive can w = (Some (Inr f), w') \<Longrightarrow> wf_frame f"
    and suspend_time: "good w \<Longrightarrow>
      good (suspend can w) \<and> elapsed w < elapsed (suspend can w) \<and> elapsed (suspend can w) \<le> elapsed w + D"
begin

text \<open>The transfer started at \<open>s0\<close>; the world is within the range that the clock can tell apart.\<close>

definition within :: "nat \<Rightarrow> u64 \<Rightarrow> 'w \<Rightarrow> bool" where
  "within s0 timeout w \<longleftrightarrow> good w \<and> s0 \<le> elapsed w \<and> elapsed w - s0 \<le> unat timeout + 2 * D"

lemma remaining_expired:
  assumes "within s0 timeout w" and "unat timeout + 2 * D < 2 ^ 64"
  shows "remaining \<lparr>td_started = of_nat s0, td_timeout_us = timeout\<rparr> (now_us can w) = 0
    \<longleftrightarrow> unat timeout \<le> elapsed w - s0"
proof -
  define k where "k = elapsed w - s0"
  have "elapsed w = s0 + k" using assms(1) by (simp add: k_def within_def)
  then have "now_us can w - of_nat s0 = of_nat k" by (simp add: clock)
  moreover have "k < 2 ^ 64" using assms by (simp add: k_def within_def)
  then have "unat (of_nat k :: u64) = k" by (simp add: unat_of_nat take_bit_nat_eq_self)
  ultimately show ?thesis unfolding k_def [symmetric]
    by (auto simp: remaining_def saturating_sub_def word_le_nat_alt word_unat_eq_iff unat_sub_if')
qed

text \<open>How a poll under the deadline ends: timed out, or with the result of a poll made in time.\<close>

definition polled :: "nat \<Rightarrow> u64 \<Rightarrow> ('w \<Rightarrow> 'a option \<times> 'w) \<Rightarrow> 'w \<Rightarrow> 'e sdo_error + 'a \<Rightarrow> 'w \<Rightarrow> bool" where
  "polled s0 timeout fut w r w' \<longleftrightarrow> within s0 timeout w' \<and> elapsed w \<le> elapsed w'
    \<and> (r = Inl Timeout \<and> unat timeout \<le> elapsed w' - s0
       \<or> (\<exists>x w1. r = Inr x \<and> fut w1 = (Some x, w') \<and> good w1 \<and> elapsed w \<le> elapsed w1 \<and> elapsed w1 - s0 < unat timeout))"

lemma polled_mono: "polled s0 timeout fut w2 r w' \<Longrightarrow> elapsed w \<le> elapsed w2 \<Longrightarrow> polled s0 timeout fut w r w'"
  unfolding polled_def using le_trans by fastforce

abbreviation dl_at :: "nat \<Rightarrow> u64 \<Rightarrow> transfer_deadline" where
  "dl_at s0 timeout \<equiv> \<lparr>td_started = of_nat s0, td_timeout_us = timeout\<rparr>"

lemma poll_until_returns:
  fixes fut :: "'w \<Rightarrow> 'a option \<times> 'w"
  assumes fut: "\<And>w r w'. good w \<Longrightarrow> fut w = (r, w') \<Longrightarrow> good w' \<and> elapsed w \<le> elapsed w' \<and> elapsed w' \<le> elapsed w + D"
    and T: "unat timeout + 2 * D < 2 ^ 64" and "within s0 timeout w"
  shows "\<exists>r w'. poll_until can (dl_at s0 timeout) fut w = Some (r, w') \<and> polled s0 timeout fut w r w'"
  using assms(3)
proof (induction "unat timeout - (elapsed w - s0)" arbitrary: w rule: less_induct)
  case less
  note exp = remaining_expired [OF less.prems T]
  show ?case
  proof (cases "unat timeout \<le> elapsed w - s0")
    case True
    then have "poll_until can (dl_at s0 timeout) fut w = Some (Inl Timeout, w)"
      using exp by (subst poll_until.simps) simp
    then show ?thesis using less.prems True by (simp add: polled_def)
  next
    case False
    obtain o1 w1 where f: "fut w = (o1, w1)" by force
    have "good w" using less.prems by (simp add: within_def)
    note t1 = fut [OF this f]
    show ?thesis
    proof (cases o1)
      case (Some x)
      then have "poll_until can (dl_at s0 timeout) fut w = Some (Inr x, w1)"
        using exp False f by (subst poll_until.simps) simp
      moreover have "within s0 timeout w1" using less.prems False t1 by (auto simp: within_def)
      ultimately show ?thesis using f Some False t1 \<open>good w\<close> by (auto simp: polled_def)
    next
      case None
      let ?w2 = "suspend can w1"
      have t2: "good ?w2" "elapsed w1 < elapsed ?w2" "elapsed ?w2 \<le> elapsed w1 + D"
        using suspend_time [of w1] t1 by blast+
      have p: "poll_until can (dl_at s0 timeout) fut w = poll_until can (dl_at s0 timeout) fut ?w2"
        using exp False f None by (subst poll_until.simps) simp
      have "within s0 timeout ?w2" using less.prems False t1 t2 by (auto simp: within_def)
      moreover have "unat timeout - (elapsed ?w2 - s0) < unat timeout - (elapsed w - s0)"
        using False less.prems t1 t2 by (auto simp: within_def)
      ultimately obtain r w' where "poll_until can (dl_at s0 timeout) fut ?w2 = Some (r, w')"
        "polled s0 timeout fut ?w2 r w'"
        using less.hyps by blast
      moreover have "elapsed w \<le> elapsed ?w2" using t1 t2 by linarith
      ultimately show ?thesis unfolding p using polled_mono by blast
    qed
  qed
qed

lemma with_deadline_returns:
  fixes fut :: "'w \<Rightarrow> 'a option \<times> 'w"
  assumes fut: "\<And>w r w'. good w \<Longrightarrow> fut w = (r, w') \<Longrightarrow> good w' \<and> elapsed w \<le> elapsed w' \<and> elapsed w' \<le> elapsed w + D"
    and T: "unat timeout + 2 * D < 2 ^ 64" and "within s0 timeout w"
  shows "\<exists>r w'. with_deadline can (dl_at s0 timeout) fut w = Some (r, w') \<and> polled s0 timeout fut w r w'"
proof (cases "remaining (dl_at s0 timeout) (now_us can w) = 0")
  case True
  then show ?thesis using remaining_expired [OF assms(3) T] assms(3) by (simp add: with_deadline_def polled_def)
next
  case False
  then show ?thesis using poll_until_returns [OF fut T assms(3)] by (simp add: with_deadline_def)
qed

text \<open>What the driver knows after one of its waits: it is still in range, and a timeout is real.\<close>

definition waited :: "nat \<Rightarrow> u64 \<Rightarrow> 'w \<Rightarrow> 'e sdo_error + 'a \<Rightarrow> 'w \<Rightarrow> bool" where
  "waited s0 timeout w r w' \<longleftrightarrow> within s0 timeout w' \<and> elapsed w \<le> elapsed w'
     \<and> (r = Inl Timeout \<longrightarrow> unat timeout \<le> elapsed w' - s0)"

lemma waited_mono: "waited s0 timeout w2 r w' \<Longrightarrow> elapsed w \<le> elapsed w2 \<Longrightarrow> waited s0 timeout w r w'"
  unfolding waited_def by (meson le_trans)

lemma drv_send_returns:
  assumes T: "unat timeout + 2 * D < 2 ^ 64" and "within s0 timeout w"
  shows "\<exists>r w'. drv_send can f (Some (dl_at s0 timeout)) w = Some (r, w') \<and> waited s0 timeout w r w'"
proof -
  have "\<exists>r w'. with_deadline can (dl_at s0 timeout) (poll_transmit can f) w = Some (r, w')
      \<and> polled s0 timeout (poll_transmit can f) w r w'"
    by (rule with_deadline_returns [OF _ assms]) (erule (1) transmit_time)
  then show ?thesis by (auto simp: drv_send_def polled_def waited_def split: sum.splits)
qed

text \<open>A frame that was received in time, and took time.\<close>

definition received :: "nat \<Rightarrow> u64 \<Rightarrow> 'w \<Rightarrow> 'e sdo_error + can_frame \<Rightarrow> 'w \<Rightarrow> bool" where
  "received s0 timeout w r w' \<longleftrightarrow> waited s0 timeout w r w'
     \<and> (\<forall>f. r = Inr f \<longrightarrow> wf_frame f \<and> elapsed w < elapsed w' \<and> elapsed w - s0 < unat timeout)"

lemma received_mono: "received s0 timeout w2 r w' \<Longrightarrow> elapsed w \<le> elapsed w2 \<Longrightarrow> received s0 timeout w r w'"
  using waited_mono [of s0 timeout w2 r w' w] by (auto simp: received_def)

lemma recv_one_returns:
  assumes T: "unat timeout + 2 * D < 2 ^ 64" and "within s0 timeout w"
  shows "\<exists>r w'. recv_one can (Some (dl_at s0 timeout)) w = Some (r, w') \<and> received s0 timeout w r w'"
proof -
  have "\<exists>r w'. with_deadline can (dl_at s0 timeout) (poll_receive can) w = Some (r, w')
      \<and> polled s0 timeout (poll_receive can) w r w'"
    by (rule with_deadline_returns [OF _ assms]) (erule (1) receive_time)
  then obtain r w' where d: "with_deadline can (dl_at s0 timeout) (poll_receive can) w = Some (r, w')"
    and c: "polled s0 timeout (poll_receive can) w r w'" by blast
  show ?thesis
  proof (cases r)
    case (Inl e)
    then show ?thesis using d c by (auto simp: recv_one_def received_def waited_def polled_def)
  next
    case (Inr x)
    then obtain w1 where w1: "poll_receive can w1 = (Some x, w')" "elapsed w \<le> elapsed w1" "elapsed w1 - s0 < unat timeout"
      "within s0 timeout w'" "good w1" using c by (auto simp: polled_def)
    have "elapsed w < elapsed w'" "elapsed w - s0 < unat timeout"
      using receive_tick [OF w1(5,1)] w1(2,3) by linarith+
    then show ?thesis using d Inr receive_frame [of w1 _ w'] w1(1,4,5)
      by (cases x) (auto simp: recv_one_def received_def waited_def)
  qed
qed

text \<open>Every received frame costs time, so the receive loop ends however much traffic there is.\<close>

lemma receive_response_returns:
  assumes T: "unat timeout + 2 * D < 2 ^ 64" and "within s0 timeout w"
  shows "\<exists>r w'. receive_response can drv (Some (dl_at s0 timeout)) w = Some (r, w') \<and> received s0 timeout w r w'
    \<and> (\<forall>f. r = Inr f \<longrightarrow> raw_dlc f = 8)"
  using assms(2)
proof (induction "unat timeout - (elapsed w - s0)" arbitrary: w rule: less_induct)
  case less
  let ?dl = "Some (dl_at s0 timeout)"
  obtain r w1 where r: "recv_one can ?dl w = Some (r, w1)" "received s0 timeout w r w1"
    using recv_one_returns [OF T less.prems] by blast
  consider (err) e where "r = Inl e" | (noise) f where "r = Inr f" "raw_id f \<noteq> response_cob drv"
    | (bad) f where "r = Inr f" "raw_id f = response_cob drv" "raw_dlc f \<noteq> 8"
    | (ok) f where "r = Inr f" "raw_id f = response_cob drv" "raw_dlc f = 8" by (cases r) auto
  then show ?case
  proof cases
    case err
    then show ?thesis using r by (subst receive_response.simps) simp
  next
    case bad
    then show ?thesis using r by (subst receive_response.simps) (simp add: received_def waited_def)
  next
    case ok
    then show ?thesis using r by (subst receive_response.simps) simp
  next
    case noise
    have p: "receive_response can drv ?dl w = receive_response can drv ?dl w1"
      using r noise by (subst receive_response.simps) simp
    have "elapsed w < elapsed w1" "within s0 timeout w1" "elapsed w - s0 < unat timeout"
      using r noise by (auto simp: received_def waited_def)
    moreover from this have "unat timeout - (elapsed w1 - s0) < unat timeout - (elapsed w - s0)"
      using less.prems by (auto simp: within_def)
    ultimately obtain r' w' where "receive_response can drv ?dl w1 = Some (r', w')" "received s0 timeout w1 r' w'"
      "\<forall>f. r' = Inr f \<longrightarrow> raw_dlc f = 8" using less.hyps by blast
    then show ?thesis unfolding p using received_mono \<open>elapsed w < elapsed w1\<close> by (meson less_imp_le)
  qed
qed


text \<open>How a transfer loop ends: in range, with a real timeout if it reports one.\<close>

definition ended :: "nat \<Rightarrow> u64 \<Rightarrow> 'w \<Rightarrow> 'e sdo_error + ('e sdo_error + 'a) \<Rightarrow> 'w \<Rightarrow> bool" where
  "ended s0 timeout w r w' \<longleftrightarrow> waited s0 timeout w r w' \<and> r \<noteq> Inr (Inl Timeout)"

lemma ended_mono: "ended s0 timeout w2 r w' \<Longrightarrow> elapsed w \<le> elapsed w2 \<Longrightarrow> ended s0 timeout w r w'"
  using waited_mono by (auto simp: ended_def)

lemma waited_map:
  "waited s0 timeout w (Inl e) w' \<Longrightarrow> waited s0 timeout w (Inl e) w'"
  "waited s0 timeout w r w' \<Longrightarrow> waited s0 timeout w (Inr x) w'"
  "e \<noteq> Timeout \<Longrightarrow> waited s0 timeout w r w' \<Longrightarrow> waited s0 timeout w (Inl e) w'"
  by (auto simp: waited_def)

lemma upload_loop_returns:
  assumes T: "unat timeout + 2 * D < 2 ^ 64" and "within s0 timeout w" and "wf_client MAX_TRANSFER c"
  shows "\<exists>r buf' w'. upload_loop can drv (Some (dl_at s0 timeout)) c buf w = Some (r, buf', w')
    \<and> ended s0 timeout w r w'"
  using assms(2,3)
proof (induction "unat timeout - (elapsed w - s0)" arbitrary: w c rule: less_induct)
  case less
  let ?dl = "Some (dl_at s0 timeout)"
  obtain r w1 where r: "receive_response can drv ?dl w = Some (r, w1)" "received s0 timeout w r w1"
    "\<forall>f. r = Inr f \<longrightarrow> raw_dlc f = 8"
    using receive_response_returns [OF T less.prems(1)] by blast
  have w1: "within s0 timeout w1" "elapsed w \<le> elapsed w1" using r(2) by (auto simp: received_def waited_def)
  show ?case
  proof (cases r)
    case (Inl e)
    then show ?thesis using r by (subst upload_loop.simps) (auto simp: ended_def received_def waited_def)
  next
    case (Inr f)
    obtain res c' where p: "process_response MAX_TRANSFER c (frame_data f) = Some (res, c')" "wf_client MAX_TRANSFER c'"
      using response_processed [OF less.prems(2)] r(2,3) Inr by (auto simp: received_def)
    have wait: "waited s0 timeout w (Inr f) w1" using r(2) Inr by (simp add: received_def)
    have more: "\<exists>r' buf' w'. upload_loop can drv ?dl c' buf w2 = Some (r', buf', w') \<and> ended s0 timeout w r' w'"
      if "within s0 timeout w2" "elapsed w1 \<le> elapsed w2" for w2
    proof -
      have e: "elapsed w < elapsed w2" "elapsed w - s0 < unat timeout" using r(2) Inr that by (auto simp: received_def)
      then have "unat timeout - (elapsed w2 - s0) < unat timeout - (elapsed w - s0)"
        using less.prems(1) by (auto simp: within_def)
      from less.hyps [OF this that(1) p(2)] show ?thesis using ended_mono e(1) less_imp_le by meson
    qed
    show ?thesis
    proof (cases res)
      case (UploadComplete n)
      obtain v where "client_data c' = Some v" "length v = n"
        using client_data_complete [of MAX_TRANSFER c "frame_data f" n c'] p UploadComplete by blast
      then show ?thesis using r(1) Inr p(1) UploadComplete wait
        by (subst upload_loop.simps) (auto simp: slice_eq ended_def waited_def)
    next
      case (SendNext nf)
      obtain s w2 where s: "drv_send can nf ?dl w1 = Some (s, w2)" "waited s0 timeout w1 s w2"
        using drv_send_returns [OF T w1(1)] by blast
      show ?thesis
      proof (cases s)
        case (Inl e)
        then show ?thesis using r(1) Inr p(1) SendNext s w1(2)
          by (subst upload_loop.simps) (auto simp: ended_def waited_def)
      next
        case (Inr u)
        have "upload_loop can drv ?dl c buf w = upload_loop can drv ?dl c' buf w2"
          using r(1) \<open>r = Inr f\<close> p(1) SendNext s Inr by (subst upload_loop.simps) simp
        then show ?thesis using more [of w2] s(2) by (simp add: waited_def)
      qed
    next
      case IgnoredAbort
      have "upload_loop can drv ?dl c buf w = upload_loop can drv ?dl c' buf w1"
        using r(1) Inr p(1) IgnoredAbort by (subst upload_loop.simps) simp
      then show ?thesis using more [of w1] w1 by simp
    next
      case DownloadComplete
      then show ?thesis using r(1) Inr p(1) wait by (subst upload_loop.simps) (auto simp: ended_def waited_def)
    next
      case (ClientAborted code)
      then show ?thesis using r(1) Inr p(1) wait by (subst upload_loop.simps) (auto simp: ended_def waited_def)
    next
      case ClientError
      then show ?thesis using r(1) Inr p(1) wait by (subst upload_loop.simps) (auto simp: ended_def waited_def)
    qed
  qed
qed

lemma download_loop_returns:
  assumes T: "unat timeout + 2 * D < 2 ^ 64" and "within s0 timeout w" and "wf_client MAX_TRANSFER c"
  shows "\<exists>r w'. download_loop can drv (Some (dl_at s0 timeout)) c w = Some (r, w') \<and> ended s0 timeout w r w'"
  using assms(2,3)
proof (induction "unat timeout - (elapsed w - s0)" arbitrary: w c rule: less_induct)
  case less
  let ?dl = "Some (dl_at s0 timeout)"
  obtain r w1 where r: "receive_response can drv ?dl w = Some (r, w1)" "received s0 timeout w r w1"
    "\<forall>f. r = Inr f \<longrightarrow> raw_dlc f = 8"
    using receive_response_returns [OF T less.prems(1)] by blast
  have w1: "within s0 timeout w1" "elapsed w \<le> elapsed w1" using r(2) by (auto simp: received_def waited_def)
  show ?case
  proof (cases r)
    case (Inl e)
    then show ?thesis using r by (subst download_loop.simps) (auto simp: ended_def received_def waited_def)
  next
    case (Inr f)
    obtain res c' where p: "process_response MAX_TRANSFER c (frame_data f) = Some (res, c')" "wf_client MAX_TRANSFER c'"
      using response_processed [OF less.prems(2)] r(2,3) Inr by (auto simp: received_def)
    have wait: "waited s0 timeout w (Inr f) w1" using r(2) Inr by (simp add: received_def)
    have more: "\<exists>r' w'. download_loop can drv ?dl c' w2 = Some (r', w') \<and> ended s0 timeout w r' w'"
      if "within s0 timeout w2" "elapsed w1 \<le> elapsed w2" for w2
    proof -
      have e: "elapsed w < elapsed w2" "elapsed w - s0 < unat timeout" using r(2) Inr that by (auto simp: received_def)
      then have "unat timeout - (elapsed w2 - s0) < unat timeout - (elapsed w - s0)"
        using less.prems(1) by (auto simp: within_def)
      from less.hyps [OF this that(1) p(2)] show ?thesis using ended_mono e(1) less_imp_le by meson
    qed
    show ?thesis
    proof (cases res)
      case (SendNext nf)
      obtain s w2 where s: "drv_send can nf ?dl w1 = Some (s, w2)" "waited s0 timeout w1 s w2"
        using drv_send_returns [OF T w1(1)] by blast
      show ?thesis
      proof (cases s)
        case (Inl e)
        then show ?thesis using r(1) Inr p(1) SendNext s w1(2)
          by (subst download_loop.simps) (auto simp: ended_def waited_def)
      next
        case (Inr u)
        have "download_loop can drv ?dl c w = download_loop can drv ?dl c' w2"
          using r(1) \<open>r = Inr f\<close> p(1) SendNext s Inr by (subst download_loop.simps) simp
        then show ?thesis using more [of w2] s(2) by (simp add: waited_def)
      qed
    next
      case IgnoredAbort
      have "download_loop can drv ?dl c w = download_loop can drv ?dl c' w1"
        using r(1) Inr p(1) IgnoredAbort by (subst download_loop.simps) simp
      then show ?thesis using more [of w1] w1 by simp
    qed (use r(1) Inr p(1) wait in \<open>subst download_loop.simps; auto simp: ended_def waited_def\<close>)+
  qed
qed

lemma finish_time:
  assumes "ended s0 timeout w r w1" and "finish can drv i s r w1 = (out, w')"
  shows "elapsed w1 \<le> elapsed w' \<and> elapsed w' \<le> elapsed w1 + D
    \<and> (out = Inl Timeout \<longrightarrow> unat timeout \<le> elapsed w1 - s0)"
proof -
  have g: "good w1" using assms(1) by (simp add: ended_def waited_def within_def)
  have a: "elapsed w1 \<le> elapsed (send_abort can drv i s c w1) \<and> elapsed (send_abort can drv i s c w1) \<le> elapsed w1 + D" for c
    using transmit_time [OF g surjective_pairing] by (auto simp: send_abort_def split: option.splits)
  show ?thesis using assms a
    by (auto simp: finish_def ended_def waited_def Let_def split: sum.splits option.splits sdo_error.splits)
qed

text \<open>The whole transfers: the bound counts the last poll, the last suspension and the abort.\<close>

lemma upload_timed_returns:
  assumes T: "unat timeout + 2 * D < 2 ^ 64" and g: "good w" and n: "wf_node (drv_target drv)"
  shows "\<exists>r buf' w'. upload_timed can drv i s buf timeout w = Some (r, buf', w')
    \<and> elapsed w \<le> elapsed w' \<and> elapsed w' - elapsed w \<le> unat timeout + 3 * D
    \<and> (r = Inl Timeout \<longrightarrow> unat timeout \<le> elapsed w' - elapsed w)"
proof -
  let ?s0 = "elapsed w" and ?dl = "Some (dl_at (elapsed w) timeout)"
  have in0: "within ?s0 timeout w" using g by (simp add: within_def)
  obtain req c where c: "start_upload (sdo_client_new MAX_TRANSFER (drv_target drv)) i s = Some (req, c)"
    "wf_client MAX_TRANSFER c" using start_upload_wf [OF sdo_client_new_wf [OF n]] by blast
  obtain s1 w1 where s1: "drv_send can req ?dl w = Some (s1, w1)" "waited ?s0 timeout w s1 w1"
    using drv_send_returns [OF T in0] by blast
  have dl: "\<lparr>td_started = now_us can w, td_timeout_us = timeout\<rparr> = dl_at ?s0 timeout" by (simp add: clock)
  show ?thesis
  proof (cases s1)
    case (Inl e)
    then have "upload_timed can drv i s buf timeout w = Some (Inl e, buf, w1)"
      using c(1) s1(1) by (simp add: upload_timed_def dl upload_impl_def fst_result_def)
    then show ?thesis using s1(2) Inl by (auto simp: waited_def within_def)
  next
    case (Inr u)
    have "within ?s0 timeout w1" using s1(2) by (simp add: waited_def)
    from upload_loop_returns [OF T this c(2)] obtain r buf' w2 where
      l: "upload_loop can drv ?dl c buf w1 = Some (r, buf', w2)" "ended ?s0 timeout w1 r w2" by blast
    obtain out w' where f: "finish can drv i s r w2 = (out, w')" by force
    have "upload_timed can drv i s buf timeout w = Some (fst_result out, buf', w')"
      using c(1) s1(1) Inr l(1) f by (simp add: upload_timed_def dl upload_impl_def)
    moreover have "fst_result out = Inl Timeout \<longleftrightarrow> out = Inl Timeout"
      by (auto simp: fst_result_def split: sum.splits)
    ultimately show ?thesis using finish_time [OF l(2) f] l(2) s1(2)
      by (auto simp: ended_def waited_def within_def)
  qed
qed

lemma download_timed_returns:
  assumes T: "unat timeout + 2 * D < 2 ^ 64" and g: "good w" and n: "wf_node (drv_target drv)"
  shows "\<exists>r w'. download_timed can drv i s data timeout w = Some (r, w')
    \<and> elapsed w \<le> elapsed w' \<and> elapsed w' - elapsed w \<le> unat timeout + 3 * D
    \<and> (r = Inl Timeout \<longrightarrow> unat timeout \<le> elapsed w' - elapsed w)"
proof -
  let ?s0 = "elapsed w" and ?dl = "Some (dl_at (elapsed w) timeout)"
  have in0: "within ?s0 timeout w" using g by (simp add: within_def)
  have dl: "\<lparr>td_started = now_us can w, td_timeout_us = timeout\<rparr> = dl_at ?s0 timeout" by (simp add: clock)
  obtain rq c where c: "start_download MAX_TRANSFER (sdo_client_new MAX_TRANSFER (drv_target drv)) i s data = Some (rq, c)"
    "wf_client MAX_TRANSFER c" using start_download_wf [OF sdo_client_new_wf [OF n]] by blast
  show ?thesis
  proof (cases rq)
    case (Inl u)
    then show ?thesis using c(1) by (simp add: download_timed_def download_impl_def)
  next
    case (Inr req)
    obtain s1 w1 where s1: "drv_send can req ?dl w = Some (s1, w1)" "waited ?s0 timeout w s1 w1"
      using drv_send_returns [OF T in0] by blast
    show ?thesis
    proof (cases s1)
      case (Inl e)
      then have "download_timed can drv i s data timeout w = Some (Inl e, w1)"
        using c(1) s1(1) Inr by (simp add: download_timed_def dl download_impl_def)
      then show ?thesis using s1(2) Inl by (auto simp: waited_def within_def)
    next
      case (Inr u)
      have "within ?s0 timeout w1" using s1(2) by (simp add: waited_def)
      from download_loop_returns [OF T this c(2)] obtain r w2 where
        l: "download_loop can drv ?dl c w1 = Some (r, w2)" "ended ?s0 timeout w1 r w2" by blast
      obtain out w' where f: "finish can drv i s r w2 = (out, w')" by force
      have "download_timed can drv i s data timeout w = Some (out, w')"
        using c(1) s1(1) \<open>rq = Inr req\<close> Inr l(1) f by (simp add: download_timed_def dl download_impl_def)
      then show ?thesis using finish_time [OF l(2) f] l(2) s1(2)
        by (auto simp: ended_def waited_def within_def)
    qed
  qed
qed

end

section \<open>A mailbox with a clock\<close>

text \<open>
  \<open>NbCanAsync\<close> over a mailbox transport, where every access to the mailbox and every suspension
  takes one microsecond.
\<close>

definition ticking_ops :: "nat \<Rightarrow> (mailbox \<times> nat) can_ops" where
  "ticking_ops TX = \<lparr>can_transmit = (\<lambda>(m, t) f. map_prod id (\<lambda>m'. (m', Suc t)) (mailbox_transmit TX m f)),
     can_receive = (\<lambda>(m, t). map_prod id (\<lambda>m'. (m', Suc t)) (mailbox_receive m))\<rparr>"

definition ticking_can :: "nat \<Rightarrow> (mailbox \<times> nat, can_error) async_can" where
  "ticking_can TX = nb_can_async (ticking_ops TX) (\<lambda>(m, t). (m, Suc t)) (\<lambda>(m, t). of_nat t)"

interpretation ticking: clocked_can "ticking_can TX" snd "\<lambda>(m, t). \<forall>f\<in>set (rx_queue m). wf_frame f" 1
  for TX :: nat
  by unfold_locales
    (auto simp: ticking_can_def nb_can_async_def nb_poll_transmit_def nb_poll_receive_def ticking_ops_def
      mailbox_transmit_def mailbox_receive_def split: if_splits list.splits)

section \<open>Properties\<close>

text \<open>
  C7. A timed SDO transfer always ends: whatever frames arrive, whenever the transport accepts
  or delays frames, and wherever the 64-bit microsecond clock starts, \<open>upload_timed\<close> and
  \<open>download_timed\<close> return without a panic at most three operations after the deadline, and
  they report a timeout only when the full time has passed.
\<close>

theorem timed_transfer_ends:
  assumes "clocked_can can elapsed good D" and "unat timeout + 2 * D < 2 ^ 64" and "good w"
    and "wf_node (drv_target drv)"
  shows "(\<exists>r buf' w'. upload_timed can drv i s buf timeout w = Some (r, buf', w')
      \<and> elapsed w \<le> elapsed w' \<and> elapsed w' - elapsed w \<le> unat timeout + 3 * D
      \<and> (r = Inl Timeout \<longrightarrow> unat timeout \<le> elapsed w' - elapsed w))
    \<and> (\<exists>r w'. download_timed can drv i s data timeout w = Some (r, w')
      \<and> elapsed w \<le> elapsed w' \<and> elapsed w' - elapsed w \<le> unat timeout + 3 * D
      \<and> (r = Inl Timeout \<longrightarrow> unat timeout \<le> elapsed w' - elapsed w))"
  using clocked_can.upload_timed_returns [OF assms] clocked_can.download_timed_returns [OF assms] by blast

text \<open>A silent bus, with the clock ten microseconds before its wrap-around.\<close>

theorem timed_transfer_ends_witness:
  "\<exists>r buf' w'. upload_timed (ticking_can 4) (sdo_driver_new (NodeId 5)) 0x1000 0 (replicate 4 0) 100
      (mailbox_new, 2 ^ 64 - 10) = Some (r, buf', w')
    \<and> snd w' - (2 ^ 64 - 10) \<le> 103 \<and> (r = Inl Timeout \<longrightarrow> 100 \<le> snd w' - (2 ^ 64 - 10))"
proof -
  have "\<exists>r buf' w'. upload_timed (ticking_can 4) (sdo_driver_new (NodeId 5)) 0x1000 0 (replicate 4 0) 100
      (mailbox_new, 2 ^ 64 - 10) = Some (r, buf', w')
    \<and> snd (mailbox_new, 2 ^ 64 - 10 :: nat) \<le> snd w' \<and> snd w' - snd (mailbox_new, 2 ^ 64 - 10 :: nat) \<le> unat (100 :: u64) + 3 * 1
    \<and> (r = Inl Timeout \<longrightarrow> unat (100 :: u64) \<le> snd w' - snd (mailbox_new, 2 ^ 64 - 10 :: nat))"
    using timed_transfer_ends [OF ticking.clocked_can_axioms, of 100 "(mailbox_new, 2 ^ 64 - 10)"
        "sdo_driver_new (NodeId 5)" 4 "0x1000" 0 "replicate 4 0"]
    by (simp add: mailbox_new_def sdo_driver_new_def wf_node_def)
  then show ?thesis by simp blast
qed

end
