(* ===== verification/Sdo_Session.thy ===== *)
theory Sdo_Session
  imports Sdo_Driver
begin

text \<open>
  Whole transfers of the driver. The locale \<open>sdo_link\<close> states what a transport has to do for one
  request and its response to cross it; the transfers are proved once over it. Its first instance
  is a server on a shared bus.
\<close>

section \<open>Requests of the client\<close>

definition is_request :: "node_id \<Rightarrow> can_frame \<Rightarrow> bool" where
  "is_request node f \<longleftrightarrow> raw_id f = cob_raw (cob_sdo_rx node) \<and> length (frame_data f) = 8"

lemma can_frame_request:
  "can_frame_new (cob_raw (cob_sdo_rx node)) d = Some f \<Longrightarrow> length d = 8 \<Longrightarrow> is_request node f"
  by (simp add: is_request_def can_frame_new_raw_id can_frame_new_data)

lemma start_upload_request:
  "start_upload c i s = Some (f, c') \<Longrightarrow> is_request (cl_target_node c) f \<and> cl_target_node c' = cl_target_node c"
  by (auto simp: start_upload_def bind_eq_Some_conv tx_cobid_def sdo_frame_def intro!: can_frame_request)

lemma make_upload_segment_request_is:
  "make_upload_segment_request c t = Some f \<Longrightarrow> is_request (cl_target_node c) f"
  by (auto simp: make_upload_segment_request_def tx_cobid_def intro!: can_frame_request)

lemma make_download_segment_is:
  "make_download_segment c t = Some (f, c') \<Longrightarrow> is_request (cl_target_node c) f \<and> cl_target_node c' = cl_target_node c"
  by (auto simp: make_download_segment_def Let_def bind_eq_Some_conv tx_cobid_def copy_from_slice_def
      split: if_splits intro!: can_frame_request)

lemma copy_from_slice_length: "copy_from_slice dst i src = Some d \<Longrightarrow> length d = length dst"
  by (auto simp: copy_from_slice_def split: if_splits)

lemma start_download_request:
  "start_download BUF c i s v = Some (Inr f, c') \<Longrightarrow> is_request (cl_target_node c) f \<and> cl_target_node c' = cl_target_node c"
  by (auto simp: start_download_def Let_def bind_eq_Some_conv tx_cobid_def sdo_frame_def
      split: if_splits intro!: can_frame_request dest!: copy_from_slice_length)

definition next_ok :: "sdo_client \<Rightarrow> (sdo_client_result \<times> sdo_client) option \<Rightarrow> bool" where
  "next_ok c r \<longleftrightarrow> (\<forall>res c'. r = Some (res, c') \<longrightarrow> cl_target_node c' = cl_target_node c
     \<and> (\<forall>f. res = SendNext f \<longrightarrow> is_request (cl_target_node c) f))"

lemma handlers_next_ok:
  "next_ok c (handle_upload_init_response BUF c response)"
  "next_ok c (handle_upload_segment_response BUF c response)"
  "next_ok c (handle_download_init_response c)"
  "next_ok c (handle_download_segment_response c response)"
  by (auto simp: next_ok_def handle_upload_init_response_def handle_upload_segment_response_def
      handle_download_init_response_def handle_download_segment_response_def Let_def bind_eq_Some_conv
      split: if_splits option.splits client_state.splits
      dest!: make_upload_segment_request_is make_download_segment_is)

lemma process_response_next: "next_ok c (process_response BUF c response)"
proof -
  have "next_ok c (Some (ClientError, cl_idle c))" "next_ok c (Some (ClientError, c))" "next_ok c (Some (IgnoredAbort, c))"
    "next_ok c (Some (ClientAborted a, cl_idle c))" for a
    by (simp_all add: next_ok_def)
  then show ?thesis
    using handlers_next_ok(1,2) [of c BUF response] handlers_next_ok(3) [of c] handlers_next_ok(4) [of c response]
    unfolding process_response_def Let_def by (simp split: client_state.split)
qed

section \<open>Outcomes\<close>

text \<open>How the driver's loops report the client's final result.\<close>

definition upload_outcome ::
  "sdo_client_result \<Rightarrow> sdo_client \<Rightarrow> bytes \<Rightarrow> ('e sdo_error + ('e sdo_error + nat \<times> bool)) \<times> bytes" where
  "upload_outcome r c buf = (case r of
      UploadComplete n \<Rightarrow> if n > length buf then (Inr (Inl TooLarge), buf)
        else (Inr (Inr (n, cl_upload_size_indicated c)), overwrite buf 0 (the (client_data c)))
    | ClientAborted code \<Rightarrow> (Inr (Inl (Aborted code)), buf)
    | _ \<Rightarrow> (Inl ProtocolError, buf))"

definition download_outcome :: "sdo_client_result \<Rightarrow> 'e sdo_error + ('e sdo_error + unit)" where
  "download_outcome r = (case r of
      DownloadComplete \<Rightarrow> Inr (Inr ()) | ClientAborted code \<Rightarrow> Inr (Inl (Aborted code)) | _ \<Rightarrow> Inl ProtocolError)"

definition remains :: "sdo_context list \<Rightarrow> sdo_context list \<Rightarrow> sdo_context list \<Rightarrow> bool" where
  "remains cs rest left \<longleftrightarrow> (\<exists>n \<le> length cs. left = drop n cs @ rest)"

lemma remains_Cons: "remains cs rest left \<Longrightarrow> remains (ctx # cs) rest left"
  unfolding remains_def by (elim exE conjE, rule_tac x = "Suc n" in exI) simp

lemma remains_tl: "left = cs @ rest \<Longrightarrow> remains (ctx # cs) rest left"
  unfolding remains_def by (intro exI [of _ 1]) simp

lemma remainsD:
  assumes "remains (take k cs) (drop k cs) left"
  shows "length cs \<le> length left + k \<and> set left \<subseteq> set cs"
proof -
  obtain n where "n \<le> k" "left = drop n (take k cs) @ drop k cs" using assms by (auto simp: remains_def)
  then show ?thesis by (auto dest: in_set_dropD in_set_takeD)
qed

text \<open>What \<open>apply_remote\<close> reports when the local application of the same entries reports \<open>r\<close>.\<close>

definition remote_outcome ::
  "'od od_ops \<Rightarrow> (dcf_error + nat) \<times> 'od \<Rightarrow> ('e sdo_error + nat) \<Rightarrow> bool" where
  "remote_outcome ops r out \<longleftrightarrow> (case r of
      (Inr n, _) \<Rightarrow> out = Inr n
    | (Inl (DcfOdError i s err), od) \<Rightarrow> (\<exists>len. out = Inl (Aborted (od_write_abort ops od i s len err)))
    | _ \<Rightarrow> False)"

text \<open>Every entry passes the server's validation on the dictionary that the entries before it leave.\<close>

fun admitted :: "'od od_ops \<Rightarrow> sdo_context set \<Rightarrow> dcf_entry list \<Rightarrow> 'od \<Rightarrow> bool" where
  "admitted ops ctxs [] od \<longleftrightarrow> True"
| "admitted ops ctxs (e # es) od \<longleftrightarrow>
     (\<forall>ctx\<in>ctxs. validate_download ops od ctx (dce_index e) (dce_subindex e) (dce_data e) = Inr ())
     \<and> admitted ops ctxs es (snd (od_write ops od (dce_index e) (dce_subindex e) (dce_data e)))"

section \<open>The contract of a link\<close>

text \<open>
  \<open>io\<close> is the server at the far end, \<open>ctxs\<close> the contexts at which its next requests arrive.
  A request sent over a ready link is processed by the server, the driver's wait returns the frame
  with the server's response, and the link is ready again.
\<close>

locale sdo_link = object_dictionary ops val inv
  for ops :: "'od od_ops" and val :: "'od \<Rightarrow> u16 \<Rightarrow> u8 \<Rightarrow> bytes option" and inv :: "'od \<Rightarrow> bool" +
  fixes N :: nat and node :: node_id and can :: "('w, 'e) async_can"
    and io :: "'w \<Rightarrow> 'od sdo_io" and ctxs :: "'w \<Rightarrow> sdo_context list" and ready :: "'w \<Rightarrow> bool"
  assumes ready_wf: "ready w \<Longrightarrow> wf_node node \<and> wf_io inv N (io w)"
    and round_trip: "ready w \<Longrightarrow> is_request node f \<Longrightarrow> ctxs w = ctx # rest \<Longrightarrow>
      process_with_context N ops (frame_data f) ctx (io w) = Some (True, io') \<Longrightarrow> wf_io inv N io' \<Longrightarrow>
      \<exists>w1 w2 g. drv_send can f None w = Some (Inr (), w1)
        \<and> receive_response can (sdo_driver_new node) None w1 = Some (Inr g, w2)
        \<and> frame_data g = io_response io' \<and> ready w2 \<and> io w2 = io' \<and> ctxs w2 = rest"
begin

lemma session_step:
  assumes "ready w" and "is_request node f" and "wf_client MAX_TRANSFER c"
    and "exchange MAX_TRANSFER N ops cs f c (io w) = Some (r, c', io')" and w: "ctxs w = cs @ rest"
  obtains r1 c1 w1 w2 g where
    "drv_send can f None w = Some (Inr (), w1)"
    "receive_response can (sdo_driver_new node) None w1 = Some (Inr g, w2)"
    "process_response MAX_TRANSFER c (frame_data g) = Some (r1, c1)" "wf_client MAX_TRANSFER c1"
    "ready w2" "ctxs w2 = tl cs @ rest"
    "case r1 of SendNext f' \<Rightarrow> exchange MAX_TRANSFER N ops (tl cs) f' c1 (io w2) = Some (r, c', io')
      | _ \<Rightarrow> (r1, c1, io w2) = (r, c', io')"
    "cl_target_node c1 = cl_target_node c" "\<forall>f'. r1 = SendNext f' \<longrightarrow> is_request (cl_target_node c) f'"
proof -
  obtain ctx cs' where cs: "cs = ctx # cs'" using assms(4) by (cases cs) auto
  then have ctxs: "ctxs w = ctx # cs' @ rest" using w by simp
  obtain ok io1 where p: "process_with_context N ops (frame_data f) ctx (io w) = Some (ok, io1)"
    using assms(4) cs by (auto simp: bind_eq_Some_conv)
  have "ok" using assms(4) p cs by (auto split: if_splits)
  with p have p: "process_with_context N ops (frame_data f) ctx (io w) = Some (True, io1)" by simp
  have wf: "wf_io inv N io1"
    using process_with_context_wf [of N "io w" "frame_data f" ctx] ready_wf [OF assms(1)] assms(2) p
    by (auto simp: returns_wf_def is_request_def)
  obtain w1 w2 g where s: "drv_send can f None w = Some (Inr (), w1)"
    "receive_response can (sdo_driver_new node) None w1 = Some (Inr g, w2)" "frame_data g = io_response io1"
    "ready w2" "io w2 = io1" "ctxs w2 = cs' @ rest"
    using round_trip [OF assms(1,2) ctxs p wf] by blast
  have l: "length (frame_data g) = 8" using s(3) wf by (simp add: wf_io_def)
  obtain r1 c1 where c1: "process_response MAX_TRANSFER c (frame_data g) = Some (r1, c1)" "wf_client MAX_TRANSFER c1"
    using process_response_wf [OF assms(3) l] by blast
  have ex: "case r1 of SendNext f' \<Rightarrow> exchange MAX_TRANSFER N ops cs' f' c1 io1 = Some (r, c', io')
      | _ \<Rightarrow> (r1, c1, io1) = (r, c', io')"
    using assms(4) p c1(1) s(3) by (auto simp: cs split: sdo_client_result.splits)
  have nx: "cl_target_node c1 = cl_target_node c" "\<forall>f'. r1 = SendNext f' \<longrightarrow> is_request (cl_target_node c) f'"
    using process_response_next [of c MAX_TRANSFER "frame_data g"] c1(1) by (auto simp: next_ok_def)
  show thesis by (rule that [OF s(1,2) c1 s(4) _ _ nx]) (use ex s(5,6) cs in \<open>auto split: sdo_client_result.splits\<close>)
qed

lemma upload_session:
  assumes "ready w" and "is_request node f" and "wf_client MAX_TRANSFER c"
    and "cl_target_node c = node"
    and "exchange MAX_TRANSFER N ops cs f c (io w) = Some (r, c', io')" and "ctxs w = cs @ rest" and "r \<noteq> IgnoredAbort"
  shows "\<exists>w1 w2. drv_send can f None w = Some (Inr (), w1)
    \<and> upload_loop can (sdo_driver_new node) None c buf w1
        = Some (case upload_outcome r c' buf of (out, b) \<Rightarrow> (out, b, w2))
    \<and> ready w2 \<and> io w2 = io' \<and> remains cs rest (ctxs w2)"
  using assms(1-6)
proof (induction cs arbitrary: w f c)
  case Nil
  from Nil.prems(5) show ?case by simp
next
  case (Cons ctx cs)
  show ?case
  proof (rule session_step [OF Cons.prems(1-3,5,6)])
    fix r1 c1 w1 w2 g
    assume s: "drv_send can f None w = Some (Inr (), w1)"
      "receive_response can (sdo_driver_new node) None w1 = Some (Inr g, w2)"
      "process_response MAX_TRANSFER c (frame_data g) = Some (r1, c1)" "wf_client MAX_TRANSFER c1"
      "ready w2" "ctxs w2 = tl (ctx # cs) @ rest"
      and ex: "case r1 of SendNext f' \<Rightarrow> exchange MAX_TRANSFER N ops (tl (ctx # cs)) f' c1 (io w2) = Some (r, c', io')
        | _ \<Rightarrow> (r1, c1, io w2) = (r, c', io')"
      and nx: "cl_target_node c1 = cl_target_node c" "\<forall>f'. r1 = SendNext f' \<longrightarrow> is_request (cl_target_node c) f'"
    have ctxs: "ctxs w2 = cs @ rest" using s(6) by simp
    note rt = remains_tl [OF ctxs, of ctx]
    show ?thesis
    proof (cases r1)
    case (SendNext f')
    have "\<exists>w3 w4. drv_send can f' None w2 = Some (Inr (), w3)
      \<and> upload_loop can (sdo_driver_new node) None c1 buf w3
          = Some (case upload_outcome r c' buf of (out, b) \<Rightarrow> (out, b, w4))
      \<and> ready w4 \<and> io w4 = io' \<and> remains (ctx # cs) rest (ctxs w4)"
      using Cons.IH [OF s(5) _ s(4) _ _ ctxs, of f'] nx ex SendNext Cons.prems(4)
      by (auto dest!: remains_Cons [of cs rest _ ctx])
    then show ?thesis using s(1-3) SendNext by (subst upload_loop.simps) auto
  next
    case (UploadComplete n)
    obtain v where "client_data c1 = Some v" "length v = n"
      using client_data_complete [OF s(3) [unfolded UploadComplete] s(4)] by blast
    then show ?thesis using s ex UploadComplete rt
      by (subst upload_loop.simps) (auto simp: upload_outcome_def slice_eq)
  qed (use s ex assms(7) rt in \<open>subst upload_loop.simps; auto simp: upload_outcome_def\<close>)+
  qed
qed

lemma download_session:
  assumes "ready w" and "is_request node f" and "wf_client MAX_TRANSFER c"
    and "cl_target_node c = node"
    and "exchange MAX_TRANSFER N ops cs f c (io w) = Some (r, c', io')" and "ctxs w = cs @ rest" and "r \<noteq> IgnoredAbort"
  shows "\<exists>w1 w2. drv_send can f None w = Some (Inr (), w1)
    \<and> download_loop can (sdo_driver_new node) None c w1 = Some (download_outcome r, w2)
    \<and> ready w2 \<and> io w2 = io' \<and> remains cs rest (ctxs w2)"
  using assms(1-6)
proof (induction cs arbitrary: w f c)
  case Nil
  from Nil.prems(5) show ?case by simp
next
  case (Cons ctx cs)
  show ?case
  proof (rule session_step [OF Cons.prems(1-3,5,6)])
    fix r1 c1 w1 w2 g
    assume s: "drv_send can f None w = Some (Inr (), w1)"
      "receive_response can (sdo_driver_new node) None w1 = Some (Inr g, w2)"
      "process_response MAX_TRANSFER c (frame_data g) = Some (r1, c1)" "wf_client MAX_TRANSFER c1"
      "ready w2" "ctxs w2 = tl (ctx # cs) @ rest"
      and ex: "case r1 of SendNext f' \<Rightarrow> exchange MAX_TRANSFER N ops (tl (ctx # cs)) f' c1 (io w2) = Some (r, c', io')
        | _ \<Rightarrow> (r1, c1, io w2) = (r, c', io')"
      and nx: "cl_target_node c1 = cl_target_node c" "\<forall>f'. r1 = SendNext f' \<longrightarrow> is_request (cl_target_node c) f'"
    have ctxs: "ctxs w2 = cs @ rest" using s(6) by simp
    note rt = remains_tl [OF ctxs, of ctx]
    show ?thesis
    proof (cases r1)
    case (SendNext f')
    have "\<exists>w3 w4. drv_send can f' None w2 = Some (Inr (), w3)
      \<and> download_loop can (sdo_driver_new node) None c1 w3 = Some (download_outcome r, w4)
      \<and> ready w4 \<and> io w4 = io' \<and> remains (ctx # cs) rest (ctxs w4)"
      using Cons.IH [OF s(5) _ s(4) _ _ ctxs, of f'] nx ex SendNext Cons.prems(4)
      by (auto dest!: remains_Cons [of cs rest _ ctx])
    then show ?thesis using s(1-3) SendNext by (subst download_loop.simps) auto
  qed (use s ex assms(7) rt in \<open>subst download_loop.simps; auto simp: download_outcome_def\<close>)+
  qed
qed


text \<open>Reading an object of the server through the driver.\<close>

lemma driver_upload:
  assumes "ready w" and "val (io_od (io w)) i s = Some v"
    and "length v \<le> length buf" "length v \<le> MAX_TRANSFER"
    and "\<not> is_receiving_block (io_server (io w))" and "length v div 7 + 2 \<le> length (ctxs w)"
  shows "\<exists>sz w'. upload_impl can (sdo_driver_new node) i s buf None w
      = Some (Inr (length v, sz), overwrite buf 0 v, w')
    \<and> ready w' \<and> io_od (io w') = io_od (io w) \<and> io_events (io w') = io_events (io w)
    \<and> transfer (io_server (io w')) = None
    \<and> length (ctxs w) \<le> length (ctxs w') + (length v div 7 + 2) \<and> set (ctxs w') \<subseteq> set (ctxs w)"
proof -
  let ?k = "length v div 7 + 2"
  let ?cs = "take ?k (ctxs w)" and ?rest = "drop ?k (ctxs w)"
  let ?c0 = "sdo_client_new MAX_TRANSFER node"
  have c0: "wf_client MAX_TRANSFER ?c0" "cl_target_node ?c0 = node"
    using sdo_client_new_wf [of node] ready_wf [OF assms(1)] by (simp_all add: sdo_client_new_def)
  obtain f c1 where f: "start_upload ?c0 i s = Some (f, c1)" "wf_client MAX_TRANSFER c1"
    using start_upload_wf [OF c0(1)] by blast
  have rq: "is_request node f" "cl_target_node c1 = node" using start_upload_request [OF f(1)] c0(2) by simp_all
  have od: "inv (io_od (io w))" using ready_wf [OF assms(1)] by (simp add: wf_io_def)
  have l: "length v \<le> BUF_LEN" using assms(4) by (simp add: MAX_TRANSFER_def)
  obtain c' io' where x: "exchange MAX_TRANSFER N ops ?cs f c1 (io w) = Some (UploadComplete (length v), c', io')"
    "client_data c' = Some v" "io_od io' = io_od (io w)" "io_events io' = io_events (io w)"
    "transfer (io_server io') = None"
    using exchange_upload [OF c0(1) f(1) od assms(2,4) l assms(5), of ?cs N] assms(6) by auto
  obtain w1 w2 where "drv_send can f None w = Some (Inr (), w1)"
    "upload_loop can (sdo_driver_new node) None c1 buf w1
      = Some (Inr (Inr (length v, cl_upload_size_indicated c')), overwrite buf 0 v, w2)"
    "ready w2" "io w2 = io'" "remains ?cs ?rest (ctxs w2)"
    using upload_session [OF assms(1) rq(1) f(2) rq(2) x(1), of ?rest buf] assms(3) x(2)
    by (auto simp: upload_outcome_def)
  then show ?thesis using f(1) x remainsD [of ?k "ctxs w" "ctxs w2"] by (simp add: upload_impl_def sdo_driver_new_def finish_def)
qed

lemma driver_download:
  assumes "ready w"
    and "length v \<le> MAX_TRANSFER" and "\<not> is_receiving_block (io_server (io w))"
    and "\<forall>ctx \<in> set (ctxs w). \<not> (ctx_nmt_state ctx = Operational \<and> is_pdo_config_index i)"
    and "length v div 7 + 2 \<le> length (ctxs w)"
  shows "\<exists>w'. drv_download can (sdo_driver_new node) i s v w
      = Some (case download_result (io w') of DownloadComplete \<Rightarrow> Inr () | ClientAborted code \<Rightarrow> Inl (Aborted code)
                | _ \<Rightarrow> Inl ProtocolError, w')
    \<and> ready w' \<and> commits N ops (ctxs w) i s v (io w) (io w')
    \<and> length (ctxs w) \<le> length (ctxs w') + (length v div 7 + 2) \<and> set (ctxs w') \<subseteq> set (ctxs w)"
proof -
  let ?k = "length v div 7 + 2"
  let ?cs = "take ?k (ctxs w)" and ?rest = "drop ?k (ctxs w)"
  let ?c0 = "sdo_client_new MAX_TRANSFER node"
  have c0: "wf_client MAX_TRANSFER ?c0" "cl_target_node ?c0 = node"
    using sdo_client_new_wf [of node] ready_wf [OF assms(1)] by (simp_all add: sdo_client_new_def)
  obtain r c1 where r: "start_download MAX_TRANSFER ?c0 i s v = Some (r, c1)" "wf_client MAX_TRANSFER c1" "is_ok r"
    using start_download_wf [OF c0(1), of i s v] assms(2) by blast
  then obtain f where f: "start_download MAX_TRANSFER ?c0 i s v = Some (Inr f, c1)" by (auto elim: is_ok_E)
  have rq: "is_request node f" "cl_target_node c1 = node" using start_download_request [OF f] c0(2) by simp_all
  have l: "length v \<le> BUF_LEN" using assms(2) by (simp add: MAX_TRANSFER_def)
  have lock: "\<forall>ctx \<in> set ?cs. \<not> (ctx_nmt_state ctx = Operational \<and> is_pdo_config_index i)"
    using assms(4) by (auto dest: in_set_takeD)
  obtain c' io' where x: "exchange MAX_TRANSFER N ops ?cs f c1 (io w) = Some (download_result io', c', io')"
    and c: "commits N ops ?cs i s v (io w) io'"
    using exchange_download [OF c0(1) f l assms(3) lock, of N ops] assms(5) by auto
  have c: "commits N ops (ctxs w) i s v (io w) io'" by (rule commits_mono [OF c]) (auto dest: in_set_takeD)
  have d: "download_result io' = DownloadComplete \<or> (\<exists>code. download_result io' = ClientAborted code)"
    by (simp add: download_result_def)
  then have "download_result io' \<noteq> IgnoredAbort" by auto
  from download_session [OF assms(1) rq(1) r(2) rq(2) x _ this, of ?rest] obtain w1 w2 where
    "drv_send can f None w = Some (Inr (), w1)"
    "download_loop can (sdo_driver_new node) None c1 w1 = Some (download_outcome (download_result io'), w2)"
    "ready w2" "io w2 = io'" "remains ?cs ?rest (ctxs w2)" by auto
  then show ?thesis using f x d c remainsD [of ?k "ctxs w" "ctxs w2"]
    by (auto simp: drv_download_def download_impl_def sdo_driver_new_def finish_def download_outcome_def)
qed

text \<open>The typed reads of the driver.\<close>

lemma driver_read_fixed:
  assumes "ready w" and "val (io_od (io w)) i s = Some v" and "length v \<le> 8"
    and "\<not> is_receiving_block (io_server (io w))" and "length v div 7 + 2 \<le> length (ctxs w)"
  shows "\<exists>w'. read_fixed (length v) can (sdo_driver_new node) i s w = Some (Inr v, w')
    \<and> ready w' \<and> io_od (io w') = io_od (io w)"
proof -
  have "length v \<le> length (replicate 8 (0 :: u8))" "length v \<le> MAX_TRANSFER" using assms(3) by (simp_all add: MAX_TRANSFER_def)
  from driver_upload [OF assms(1,2) this assms(4,5)] show ?thesis
    using assms(3) by (auto simp: read_fixed_def slice_def take_overwrite)
qed

text \<open>Downloading the entries of a configuration, in order.\<close>

lemma apply_remote_strict:
  assumes "\<forall>e\<in>set es. length (dce_data e) \<le> MAX_TRANSFER
      \<and> (\<forall>ctx\<in>C. \<not> (ctx_nmt_state ctx = Operational \<and> is_pdo_config_index (dce_index e)))"
    and "ready w" and "transfer (io_server (io w)) = None" and "set (ctxs w) \<subseteq> C"
    and "(\<Sum>e\<leftarrow>es. length (dce_data e) div 7 + 2) \<le> length (ctxs w)"
    and "admitted ops C es (io_od (io w))"
  shows "\<exists>w'. ready w' \<and> transfer (io_server (io w')) = None
    \<and> (\<exists>out. apply_remote_loop can (sdo_driver_new node) es k w = Some (out, w')
        \<and> remote_outcome ops (apply_strict_loop ops es k (io_od (io w))) out)
    \<and> io_od (io w') = snd (apply_strict_loop ops es k (io_od (io w)))"
  using assms
proof (induction es arbitrary: k w)
  case (Cons e es)
  let ?i = "dce_index e" and ?s = "dce_subindex e" and ?v = "dce_data e"
  have b: "\<not> is_receiving_block (io_server (io w))" using Cons.prems(3) by (simp add: is_receiving_block_def)
  have lock: "\<forall>ctx \<in> set (ctxs w). \<not> (ctx_nmt_state ctx = Operational \<and> is_pdo_config_index ?i)"
    using Cons.prems(1,4) by auto
  have v: "\<forall>ctx \<in> set (ctxs w). validate_download ops (io_od (io w)) ctx ?i ?s ?v = Inr ()"
    using Cons.prems(4,6) by auto
  obtain w1 where d: "drv_download can (sdo_driver_new node) ?i ?s ?v w
      = Some (case download_result (io w1) of DownloadComplete \<Rightarrow> Inr () | ClientAborted code \<Rightarrow> Inl (Aborted code)
                | _ \<Rightarrow> Inl ProtocolError, w1)"
    and w1: "ready w1" "commits N ops (ctxs w) ?i ?s ?v (io w) (io w1)"
    and r1: "length (ctxs w) \<le> length (ctxs w1) + (length ?v div 7 + 2)" "set (ctxs w1) \<subseteq> set (ctxs w)"
    using driver_download [OF Cons.prems(2) _ b lock, of ?v ?s] Cons.prems(1,5) by auto
  obtain r od1 where w: "od_write ops (io_od (io w)) ?i ?s ?v = (r, od1)" by force
  show ?case
  proof (cases r)
    case (Inl err)
    then show ?thesis using d w1 commits_write_refused [OF w1(2) v w [unfolded Inl]] w
      by (intro exI [of _ w1]) (auto simp: remote_outcome_def)
  next
    case (Inr u)
    note c = commits_accepted [OF w1(2) v, of od1] 
    then show ?thesis using d w1 w Inr r1 Cons.prems Cons.IH [of w1 "k + 1"] c
      by auto
  qed
qed (auto simp: remote_outcome_def)

end

section \<open>A server on a shared bus\<close>

text \<open>
  The world holds the server of one node, the contexts at which its requests will arrive, the
  frames on their way to the driver, and the traffic of other nodes that the bus carries ahead of
  each response; a gap in the traffic is a poll at which nothing has arrived. It generalises the
  \<open>MockAsyncCan\<close> of the driver's tests, which has no other traffic.
\<close>

record 'od sdo_bus =
  bw_io :: "'od sdo_io"
  bw_ctxs :: "sdo_context list"
  bw_traffic :: "can_frame option list list"
  bw_inbox :: "can_frame option list"

definition bus_transmit ::
  "nat \<Rightarrow> 'od od_ops \<Rightarrow> node_id \<Rightarrow> can_frame \<Rightarrow> 'od sdo_bus \<Rightarrow> (unit + unit) option \<times> 'od sdo_bus" where
  "bus_transmit N ops node f w =
     (if raw_id f \<noteq> cob_raw (cob_sdo_rx node) then (Some (Inr ()), w)
      else case bw_ctxs w of
        [] \<Rightarrow> (None, w)
      | ctx # ctxs \<Rightarrow>
          (case process_with_context N ops (frame_data f) ctx (bw_io w) of
             None \<Rightarrow> (Some (Inl ()), w)
           | Some (ok, io') \<Rightarrow>
               (let noise = (case bw_traffic w of [] \<Rightarrow> [] | n # _ \<Rightarrow> n);
                    resp = (if ok then [can_frame_new (cob_raw (cob_sdo_tx node)) (io_response io')] else [])
                in (Some (Inr ()), w\<lparr>bw_io := io', bw_ctxs := ctxs, bw_traffic := drop 1 (bw_traffic w),
                      bw_inbox := bw_inbox w @ noise @ resp\<rparr>))))"

definition bus_receive :: "'od sdo_bus \<Rightarrow> (unit + can_frame) option \<times> 'od sdo_bus" where
  "bus_receive w =
     (case bw_inbox w of
        [] \<Rightarrow> (None, w)
      | None # q \<Rightarrow> (None, w\<lparr>bw_inbox := q\<rparr>)
      | Some f # q \<Rightarrow> (Some (Inr f), w\<lparr>bw_inbox := q\<rparr>))"

definition bus_can :: "nat \<Rightarrow> 'od od_ops \<Rightarrow> node_id \<Rightarrow> ('od sdo_bus, unit) async_can" where
  "bus_can N ops node = \<lparr>poll_transmit = bus_transmit N ops node, poll_receive = bus_receive,
     suspend = (\<lambda>w. w), now_us = (\<lambda>_. 0)\<rparr>"

text \<open>Other nodes do not send on the response identifier of this node.\<close>

definition foreign :: "node_id \<Rightarrow> can_frame option list \<Rightarrow> bool" where
  "foreign node q \<longleftrightarrow> (\<forall>f. Some f \<in> set q \<longrightarrow> raw_id f \<noteq> cob_raw (cob_sdo_tx node))"

text \<open>A world in which the driver has nothing outstanding, over a well-formed server.\<close>

definition bus_ready :: "('od \<Rightarrow> bool) \<Rightarrow> nat \<Rightarrow> node_id \<Rightarrow> 'od sdo_bus \<Rightarrow> bool" where
  "bus_ready od_inv N node w \<longleftrightarrow> wf_node node \<and> bw_inbox w = [] \<and> (\<forall>q\<in>set (bw_traffic w). foreign node q) \<and> wf_io od_inv N (bw_io w)"

lemma bus_can_sel [simp]:
  "poll_transmit (bus_can N ops node) = bus_transmit N ops node" "poll_receive (bus_can N ops node) = bus_receive" "suspend (bus_can N ops node) w = w"
  by (simp_all add: bus_can_def)

lemma recv_one_gap: "bw_inbox w = None # q \<Longrightarrow> recv_one (bus_can N ops node) None w = recv_one (bus_can N ops node) None (w\<lparr>bw_inbox := q\<rparr>)"
  by (simp add: recv_one_def) (subst await.simps, simp add: bus_receive_def)

lemma recv_one_frame: "bw_inbox w = Some f # q \<Longrightarrow> recv_one (bus_can N ops node) None w = Some (Inr f, w\<lparr>bw_inbox := q\<rparr>)"
  by (simp add: recv_one_def) (subst await.simps, simp add: bus_receive_def)

lemma receive_response_gap:
  assumes "bw_inbox w = None # q"
  shows "receive_response (bus_can N ops node) drv None w = receive_response (bus_can N ops node) drv None (w\<lparr>bw_inbox := q\<rparr>)"
  by (subst (1 2) receive_response.simps) (simp add: recv_one_gap [OF assms])

text \<open>Unrelated traffic and idle polls do not disturb the wait for the response.\<close>

lemma receive_response_traffic:
  assumes "foreign node pre" and "bw_inbox w = pre @ Some f # q" and "raw_id f = cob_raw (cob_sdo_tx node)"
    and "raw_dlc f = 8"
  shows "receive_response (bus_can N ops node) (sdo_driver_new node) None w = Some (Inr f, w\<lparr>bw_inbox := q\<rparr>)"
  using assms(1,2)
proof (induction pre arbitrary: w)
  case Nil
  then show ?case using assms(3,4)
    by (subst receive_response.simps) (simp add: recv_one_frame sdo_driver_new_def)
next
  case (Cons x pre)
  have f: "foreign node pre" using Cons.prems(1) by (simp add: foreign_def)
  let ?w = "w\<lparr>bw_inbox := pre @ Some f # q\<rparr>"
  have step: "receive_response (bus_can N ops node) (sdo_driver_new node) None w = receive_response (bus_can N ops node) (sdo_driver_new node) None ?w"
  proof (cases x)
    case None
    then show ?thesis using Cons.prems(2) by (simp add: receive_response_gap)
  next
    case (Some g)
    then have "raw_id g \<noteq> response_cob (sdo_driver_new node)"
      using Cons.prems(1) by (auto simp: foreign_def sdo_driver_new_def)
    then show ?thesis using Cons.prems(2) Some
      by (subst receive_response.simps) (simp add: recv_one_frame)
  qed
  show ?case unfolding step using Cons.IH [OF f, of ?w] by simp
qed

lemma drv_send_request:
  assumes "is_request node f" and "bw_ctxs w = ctx # ctxs"
    and "process_with_context N ops (frame_data f) ctx (bw_io w) = Some (True, io')"
    and "length (io_response io') = 8" and "wf_node node" and "bw_inbox w = []"
    and "\<forall>q\<in>set (bw_traffic w). foreign node q"
  shows "\<exists>w1 pre g. drv_send (bus_can N ops node) f None w = Some (Inr (), w1) \<and> bw_io w1 = io' \<and> bw_ctxs w1 = ctxs
    \<and> bw_traffic w1 = drop 1 (bw_traffic w) \<and> pre = concat (take 1 (bw_traffic w))
    \<and> bw_inbox w1 = pre @ [Some g] \<and> foreign node pre
    \<and> raw_id g = cob_raw (cob_sdo_tx node) \<and> raw_dlc g = 8 \<and> frame_data g = io_response io'"
proof -
  have "cob_raw (cob_sdo_tx node) \<le> 0x7FF"
  proof -
    obtain b where b: "node = NodeId b" "b \<le> 127" using assms(5) by (cases node) (auto simp: wf_node_def)
    have "unat (0x580 + ucast b :: u16) = 0x580 + unat b"
      using b(2) by (simp add: unat_word_ariths word_le_nat_alt)
    then show ?thesis using b by (simp add: cob_sdo_tx_def word_le_nat_alt)
  qed
  then obtain g where g: "can_frame_new (cob_raw (cob_sdo_tx node)) (io_response io') = Some g"
    using assms(4) can_frame_new_Some by (metis order_refl)
  have "raw_dlc g = 8" using can_frame_new_raw_dlc [OF g] assms(4) by (simp add: word_unat_eq_iff)
  let ?pre = "concat (take 1 (bw_traffic w))"
  let ?w1 = "w\<lparr>bw_io := io', bw_ctxs := ctxs, bw_traffic := drop 1 (bw_traffic w), bw_inbox := ?pre @ [Some g]\<rparr>"
  have "bus_transmit N ops node f w = (Some (Inr ()), ?w1)"
    using assms(1-3,6) g by (simp add: bus_transmit_def is_request_def Let_def split: list.split)
  then have "drv_send (bus_can N ops node) f None w = Some (Inr (), ?w1)"
    by (simp add: drv_send_def) (subst await.simps, simp)
  moreover have "foreign node ?pre" using assms(7) by (cases "bw_traffic w") (auto simp: foreign_def)
  ultimately show ?thesis
    using can_frame_new_raw_id [OF g] can_frame_new_data [OF g] \<open>raw_dlc g = 8\<close>
    by (intro exI [of _ ?w1] exI [of _ ?pre] exI [of _ g]) simp
qed

lemma foreign_drop: "\<forall>q\<in>set tr. foreign node q \<Longrightarrow> \<forall>q\<in>set (drop n tr). foreign node q"
  by (auto dest: in_set_dropD)

sublocale object_dictionary \<subseteq> bus: sdo_link ops val inv N node "bus_can N ops node" bw_io bw_ctxs "bus_ready inv N node"
  for N node
proof
  fix w f ctx rest io'
  assume r: "bus_ready inv N node w" and f: "is_request node f" "bw_ctxs w = ctx # rest"
    "process_with_context N ops (frame_data f) ctx (bw_io w) = Some (True, io')" and wf: "wf_io inv N io'"
  obtain w1 pre g where s: "drv_send (bus_can N ops node) f None w = Some (Inr (), w1)" "bw_io w1 = io'"
    "bw_ctxs w1 = rest" "bw_traffic w1 = drop 1 (bw_traffic w)" "bw_inbox w1 = pre @ [Some g]" "foreign node pre"
    "raw_id g = cob_raw (cob_sdo_tx node)" "raw_dlc g = 8" "frame_data g = io_response io'"
    using drv_send_request [OF f] r wf unfolding bus_ready_def wf_io_def by blast
  have "bus_ready inv N node (w1\<lparr>bw_inbox := []\<rparr>)"
    using s r wf foreign_drop [of "bw_traffic w" node 1] by (simp add: bus_ready_def)
  then show "\<exists>w1 w2 g. drv_send (bus_can N ops node) f None w = Some (Inr (), w1)
      \<and> receive_response (bus_can N ops node) (sdo_driver_new node) None w1 = Some (Inr g, w2)
      \<and> frame_data g = io_response io' \<and> bus_ready inv N node w2 \<and> bw_io w2 = io' \<and> bw_ctxs w2 = rest"
    using s receive_response_traffic [OF s(6,5,7,8)] by fastforce
qed (simp add: bus_ready_def)

context object_dictionary
begin

lemmas bus_transfers = bus.driver_upload bus.driver_read_fixed bus.driver_download bus.apply_remote_strict

end

end
