(* ===== verification/Can_Router.thy ===== *)
theory Can_Router
  imports Sdo_Deadline Sdo_Session
begin

text \<open>
  The frame demultiplexers of \<open>canopen-core/src/can_router.rs\<close>. A port is itself an asynchronous
  transport: its state is the one of the transport below together with the port's buffers. Every
  receive loop takes frames from the transport until one is accepted; the others are diverted into
  buffers.
\<close>

section \<open>Receive loops\<close>

text \<open>
  One poll of a receive loop: it is pending only when the transport is, so it takes every frame
  that is ready and not accepted. \<open>None\<close> stands for a poll that never returns, which needs a
  transport that never runs out of frames.
\<close>

partial_function (option) recv_loop ::
  "('w, 'e) async_can \<Rightarrow> ('s \<Rightarrow> can_frame \<Rightarrow> bool) \<Rightarrow> ('s \<Rightarrow> can_frame \<Rightarrow> 's) \<Rightarrow> 'w \<Rightarrow> 's
   \<Rightarrow> (('e + can_frame) option \<times> 'w \<times> 's) option" where
  "recv_loop can accept divert w s =
     (case poll_receive can w of
        (None, w') \<Rightarrow> Some (None, w', s)
      | (Some r, w') \<Rightarrow> (case r of
          Inl e \<Rightarrow> Some (Some (Inl e), w', s)
        | Inr frame \<Rightarrow>
            if accept s frame then Some (Some (Inr frame), w', s)
            else recv_loop can accept divert w' (divert s frame)))"

definition port_can ::
  "('s \<Rightarrow> can_frame \<Rightarrow> bool) \<Rightarrow> ('s \<Rightarrow> can_frame \<Rightarrow> 's) \<Rightarrow> ('w, 'e) async_can \<Rightarrow> ('w \<times> 's, 'e) async_can" where
  "port_can accept divert can =
     \<lparr>poll_transmit = (\<lambda>f (w, s). let (r, w') = poll_transmit can f w in (r, w', s)),
      poll_receive = (\<lambda>(w, s). case recv_loop can accept divert w s of Some r \<Rightarrow> r | None \<Rightarrow> (None, w, s)),
      suspend = (\<lambda>(w, s). (suspend can w, s)), now_us = (\<lambda>(w, s). now_us can w)\<rparr>"

section \<open>\<open>SdoPort\<close>\<close>

record sdo_port =
  sdp_response_cob :: u16
  sdp_overflow :: "can_frame list"
  sdp_overflow_dropped :: u32

definition sdo_port_new :: "node_id \<Rightarrow> sdo_port" where
  "sdo_port_new target = \<lparr>sdp_response_cob = cob_raw (cob_sdo_tx target), sdp_overflow = [], sdp_overflow_dropped = 0\<rparr>"

definition drain_overflow :: "sdo_port \<Rightarrow> can_frame list \<times> sdo_port" where
  "drain_overflow p = (sdp_overflow p, p\<lparr>sdp_overflow := []\<rparr>)"

definition clear_overflow :: "sdo_port \<Rightarrow> sdo_port" where
  "clear_overflow p = p\<lparr>sdp_overflow := []\<rparr>"

definition sdp_divert :: "sdo_port \<Rightarrow> can_frame \<Rightarrow> sdo_port" where
  "sdp_divert p frame =
     (if length (sdp_overflow p) < 16 then p\<lparr>sdp_overflow := sdp_overflow p @ [frame]\<rparr>
      else p\<lparr>sdp_overflow_dropped := saturating_add (sdp_overflow_dropped p) 1\<rparr>)"

definition sdo_port_can :: "('w, 'e) async_can \<Rightarrow> ('w \<times> sdo_port, 'e) async_can" where
  "sdo_port_can can = port_can (\<lambda>p frame. raw_id frame = sdp_response_cob p) sdp_divert can"

section \<open>\<open>HeartbeatPort\<close>\<close>

definition parsed_frame :: "can_frame \<Rightarrow> parsed_cob_id option" where
  "parsed_frame f = map_option parse (cob_id_new (raw_id f))"

definition heartbeat_of :: "node_id option \<Rightarrow> can_frame \<Rightarrow> bool" where
  "heartbeat_of node f =
     (case parsed_frame f of Some (Heartbeat n) \<Rightarrow> node = None \<or> node = Some n | _ \<Rightarrow> False)"

record heartbeat_port =
  hp_filter_node :: "node_id option"
  hp_overflow :: "can_frame list"

definition heartbeat_port_new :: "node_id option \<Rightarrow> heartbeat_port" where
  "heartbeat_port_new node = \<lparr>hp_filter_node = node, hp_overflow = []\<rparr>"

definition heartbeat_port_can :: "('w, 'e) async_can \<Rightarrow> ('w \<times> heartbeat_port, 'e) async_can" where
  "heartbeat_port_can can = port_can (\<lambda>p. heartbeat_of (hp_filter_node p))
     (\<lambda>p frame. p\<lparr>hp_overflow := push_back 16 (hp_overflow p) frame\<rparr>) can"

section \<open>\<open>CanDemux\<close>\<close>

record can_demux =
  pdo_buf :: "can_frame list"
  heartbeat_buf :: "can_frame list"
  other_buf :: "can_frame list"

definition can_demux_new :: can_demux where
  "can_demux_new = \<lparr>pdo_buf = [], heartbeat_buf = [], other_buf = []\<rparr>"

definition route_frame :: "can_demux \<Rightarrow> can_frame \<Rightarrow> can_demux" where
  "route_frame d frame =
     (case parsed_frame frame of
        Some (Heartbeat _) \<Rightarrow> d\<lparr>heartbeat_buf := push_back 8 (heartbeat_buf d) frame\<rparr>
      | Some (Tpdo _ _) \<Rightarrow> d\<lparr>pdo_buf := push_back 16 (pdo_buf d) frame\<rparr>
      | Some (Rpdo _ _) \<Rightarrow> d\<lparr>pdo_buf := push_back 16 (pdo_buf d) frame\<rparr>
      | _ \<Rightarrow> d\<lparr>other_buf := push_back 4 (other_buf d) frame\<rparr>)"

definition heartbeat_node :: "can_frame \<Rightarrow> node_id option" where
  "heartbeat_node f = (case parsed_frame f of Some (Heartbeat n) \<Rightarrow> Some n | _ \<Rightarrow> None)"

fun take_buffered_loop ::
  "nat \<Rightarrow> node_id option \<Rightarrow> can_frame option \<Rightarrow> can_frame list \<Rightarrow> can_frame option \<times> can_frame list" where
  "take_buffered_loop 0 node found q = (found, q)"
| "take_buffered_loop (Suc n) node found q =
     (case q of
        [] \<Rightarrow> take_buffered_loop n node found []
      | f # q' \<Rightarrow>
          if found = None \<and> (node = None \<or> heartbeat_node f = node)
          then take_buffered_loop n node (Some f) q'
          else take_buffered_loop n node found (push_back 8 q' f))"

definition take_buffered_heartbeat :: "node_id option \<Rightarrow> can_demux \<Rightarrow> can_frame option \<times> can_demux" where
  "take_buffered_heartbeat node d =
     (let (found, q) = take_buffered_loop (length (heartbeat_buf d)) node None (heartbeat_buf d)
      in (found, d\<lparr>heartbeat_buf := q\<rparr>))"

text \<open>An asynchronous receive of the demultiplexer: the loop of \<open>recv_heartbeat\<close> and \<open>recv_pdo\<close>.\<close>

definition demux_recv ::
  "('w, 'e) async_can \<Rightarrow> (can_frame \<Rightarrow> bool) \<Rightarrow> 'w \<Rightarrow> can_demux \<Rightarrow> (('e + can_frame) \<times> 'w \<times> can_demux) option" where
  "demux_recv can wanted w d =
     (let p = port_can (\<lambda>_. wanted) route_frame can in await p (poll_receive p) (w, d))"

definition recv_heartbeat ::
  "('w, 'e) async_can \<Rightarrow> node_id option \<Rightarrow> 'w \<Rightarrow> can_demux \<Rightarrow> (('e + can_frame) \<times> 'w \<times> can_demux) option" where
  "recv_heartbeat can node w d =
     (case take_buffered_heartbeat node d of
        (Some f, d) \<Rightarrow> Some (Inr f, w, d)
      | (None, d) \<Rightarrow> demux_recv can (heartbeat_of node) w d)"

definition is_pdo_frame :: "can_frame \<Rightarrow> bool" where
  "is_pdo_frame f = (case parsed_frame f of Some (Tpdo _ _) \<Rightarrow> True | Some (Rpdo _ _) \<Rightarrow> True | _ \<Rightarrow> False)"

definition recv_pdo ::
  "('w, 'e) async_can \<Rightarrow> 'w \<Rightarrow> can_demux \<Rightarrow> (('e + can_frame) \<times> 'w \<times> can_demux) option" where
  "recv_pdo can w d =
     (case pdo_buf d of
        f # q \<Rightarrow> Some (Inr f, w, d\<lparr>pdo_buf := q\<rparr>)
      | [] \<Rightarrow> demux_recv can is_pdo_frame w d)"

definition pop_front :: "'a list \<Rightarrow> 'a option \<times> 'a list" where
  "pop_front q = (case q of [] \<Rightarrow> (None, []) | x # q' \<Rightarrow> (Some x, q'))"

definition try_recv_heartbeat :: "can_demux \<Rightarrow> can_frame option \<times> can_demux" where
  "try_recv_heartbeat d = (let (f, q) = pop_front (heartbeat_buf d) in (f, d\<lparr>heartbeat_buf := q\<rparr>))"

definition try_recv_pdo :: "can_demux \<Rightarrow> can_frame option \<times> can_demux" where
  "try_recv_pdo d = (let (f, q) = pop_front (pdo_buf d) in (f, d\<lparr>pdo_buf := q\<rparr>))"

definition try_recv_other :: "can_demux \<Rightarrow> can_frame option \<times> can_demux" where
  "try_recv_other d = (let (f, q) = pop_front (other_buf d) in (f, d\<lparr>other_buf := q\<rparr>))"

text \<open>The timed wait checks the clock before every poll of the transport.\<close>

partial_function (option) poll_before ::
  "('w, 'e) async_can \<Rightarrow> u64 \<Rightarrow> u64 \<Rightarrow> 'w \<Rightarrow> (('e + can_frame option) \<times> 'w) option" where
  "poll_before can started timeout_us w =
     (if now_us can w - started \<ge> timeout_us then Some (Inr None, w)
      else (case poll_receive can w of
         (Some r, w') \<Rightarrow> Some (map_sum id Some r, w')
       | (None, w') \<Rightarrow> poll_before can started timeout_us (suspend can w')))"

partial_function (option) recv_heartbeat_timed_loop ::
  "('w, 'e) async_can \<Rightarrow> node_id option \<Rightarrow> u64 \<Rightarrow> u64 \<Rightarrow> 'w \<Rightarrow> can_demux
   \<Rightarrow> (('e + can_frame option) \<times> 'w \<times> can_demux) option" where
  "recv_heartbeat_timed_loop can node started timeout_us w d = do {
     (r, w) \<leftarrow> poll_before can started timeout_us w;
     (case r of
        Inl e \<Rightarrow> Some (Inl e, w, d)
      | Inr None \<Rightarrow> Some (Inr None, w, d)
      | Inr (Some frame) \<Rightarrow>
          if heartbeat_of node frame then Some (Inr (Some frame), w, d)
          else recv_heartbeat_timed_loop can node started timeout_us w (route_frame d frame))
   }"

definition recv_heartbeat_timed ::
  "('w, 'e) async_can \<Rightarrow> node_id option \<Rightarrow> u64 \<Rightarrow> 'w \<Rightarrow> can_demux
   \<Rightarrow> (('e + can_frame option) \<times> 'w \<times> can_demux) option" where
  "recv_heartbeat_timed can node timeout_us w d =
     (let started = now_us can w in
      case take_buffered_heartbeat node d of
        (Some f, d) \<Rightarrow> Some (Inr (Some f), w, d)
      | (None, d) \<Rightarrow> recv_heartbeat_timed_loop can node started timeout_us w d)"

text \<open>\<open>DemuxSdoPort\<close>\<close>

definition demux_sdo_port :: "node_id \<Rightarrow> ('w, 'e) async_can \<Rightarrow> ('w \<times> can_demux, 'e) async_can" where
  "demux_sdo_port target can =
     port_can (\<lambda>_ frame. raw_id frame = cob_raw (cob_sdo_tx target) \<and> raw_dlc frame = 8) route_frame can"

section \<open>Sources of frames\<close>

text \<open>
  \<open>inbox\<close> is what the transport will hand out, a gap being a poll at which nothing has arrived;
  \<open>view\<close> is what receiving does not touch.
\<close>

locale frame_source =
  fixes can :: "('w, 'e) async_can" and inbox :: "'w \<Rightarrow> can_frame option list" and view :: "'w \<Rightarrow> 'v"
  assumes recv_frame: "inbox w = Some f # q \<Longrightarrow>
      \<exists>w'. poll_receive can w = (Some (Inr f), w') \<and> inbox w' = q \<and> view w' = view w"
    and recv_gap: "inbox w = None # q \<Longrightarrow>
      \<exists>w'. poll_receive can w = (None, w') \<and> inbox (suspend can w') = q \<and> view (suspend can w') = view w"

fun arrived :: "can_frame option list \<Rightarrow> can_frame list" where
  "arrived [] = []"
| "arrived (None # q) = arrived q"
| "arrived (Some f # q) = f # arrived q"

lemma arrived_append [simp]: "arrived (p @ q) = arrived p @ arrived q"
  by (induction p rule: arrived.induct) simp_all

lemma set_arrived: "f \<in> set (arrived q) \<longleftrightarrow> Some f \<in> set q"
  by (induction q rule: arrived.induct) auto

lemma port_can_sel [simp]:
  "suspend (port_can accept divert can) (w, s) = (suspend can w, s)"
  "poll_receive (port_can accept divert can) (w, s) =
     (case recv_loop can accept divert w s of Some r \<Rightarrow> r | None \<Rightarrow> (None, w, s))"
  "poll_transmit (port_can accept divert can) f (w, s) = (let (r, w') = poll_transmit can f w in (r, w', s))"
  by (simp_all add: port_can_def)

lemma await_ready: "fut w = (Some r, w') \<Longrightarrow> await can fut w = Some (r, w')"
  by (subst await.simps) simp

lemma await_pending: "fut w = (None, w') \<Longrightarrow> await can fut w = await can fut (suspend can w')"
  by (subst await.simps) simp

lemma await_cong: "fut w = fut w' \<Longrightarrow> await can fut w = await can fut w'"
  by (subst (1 2) await.simps) simp

context frame_source
begin

lemma recv_loop_returns:
  assumes "\<And>s g. accept (divert s g) = accept s"
  shows "inbox w = pre @ Some f # q \<Longrightarrow> accept s f \<Longrightarrow> recv_loop can accept divert w s \<noteq> None"
proof (induction pre arbitrary: w s)
  case Nil
  then show ?case using recv_frame [of w f q] by (auto simp: recv_loop.simps)
next
  case (Cons x pre)
  show ?case
  proof (cases x)
    case None
    then show ?thesis using Cons.prems recv_gap [of w] by (auto simp: recv_loop.simps)
  next
    case (Some g)
    then obtain w' where "poll_receive can w = (Some (Inr g), w')" "inbox w' = pre @ Some f # q"
      using Cons.prems recv_frame [of w g] by auto
    then show ?thesis using Cons.IH [of w' "divert s g"] Cons.prems(2) assms
      by (subst recv_loop.simps) simp
  qed
qed

text \<open>A receive loop returns the first accepted frame; the frames before it are diverted in order.\<close>

lemma port_await:
  assumes acc: "\<And>s g. accept (divert s g) = accept s"
  shows "inbox w = pre @ Some f # q \<Longrightarrow> accept s f \<Longrightarrow> \<forall>g\<in>set (arrived pre). \<not> accept s g \<Longrightarrow>
    \<exists>w'. await (port_can accept divert can) (poll_receive (port_can accept divert can)) (w, s)
        = Some (Inr f, w', foldl divert s (arrived pre)) \<and> inbox w' = q \<and> view w' = view w"
proof (induction pre arbitrary: w s)
  case Nil
  then obtain w' where "poll_receive can w = (Some (Inr f), w')" "inbox w' = q" "view w' = view w"
    using recv_frame [of w f q] by auto
  moreover from this(1) have "poll_receive (port_can accept divert can) (w, s) = (Some (Inr f), w', s)"
    using Nil.prems(2) by (simp add: recv_loop.simps)
  from await_ready [of "poll_receive (port_can accept divert can)", OF this]
  have "await (port_can accept divert can) (poll_receive (port_can accept divert can)) (w, s) = Some (Inr f, w', s)" .
  ultimately show ?case by (intro exI [of _ w']) simp
next
  case (Cons x pre)
  show ?case
  proof (cases x)
    case None
    then obtain w' where w': "poll_receive can w = (None, w')" "inbox (suspend can w') = pre @ Some f # q"
      "view (suspend can w') = view w" using Cons.prems(1) recv_gap [of w] by auto
    have "poll_receive (port_can accept divert can) (w, s) = (None, w', s)" using w'(1) by (simp add: recv_loop.simps)
    from await_pending [of "poll_receive (port_can accept divert can)" _ _ "port_can accept divert can", OF this]
    have "await (port_can accept divert can) (poll_receive (port_can accept divert can)) (w, s)
        = await (port_can accept divert can) (poll_receive (port_can accept divert can)) (suspend can w', s)"
      by simp
    then show ?thesis using Cons.IH [OF w'(2) Cons.prems(2)] Cons.prems(3) w'(3) None by auto
  next
    case (Some g)
    then obtain w' where w': "poll_receive can w = (Some (Inr g), w')" "inbox w' = pre @ Some f # q" "view w' = view w"
      using Cons.prems(1) recv_frame [of w g] by auto
    have g: "\<not> accept s g" using Cons.prems(3) Some by simp
    have "recv_loop can accept divert w' (divert s g) \<noteq> None"
      using recv_loop_returns [of accept divert, OF acc w'(2)] Cons.prems(2) acc by simp
    then have "await (port_can accept divert can) (poll_receive (port_can accept divert can)) (w, s)
        = await (port_can accept divert can) (poll_receive (port_can accept divert can)) (w', divert s g)"
      using w'(1) g by (intro await_cong) (auto simp: recv_loop.simps [of can _ _ w s])
    then show ?thesis using Cons.IH [OF w'(2), of "divert s g"] Cons.prems(2,3) w'(3) Some acc by auto
  qed
qed

end

interpretation bus_src: frame_source "bus_can N ops node" bw_inbox "\<lambda>w. (bw_io w, bw_ctxs w, bw_traffic w)"
  for N ops node
  by unfold_locales (auto simp: bus_receive_def)

interpretation mailbox_src: frame_source "nb_can_async (mailbox_ops TX) id clk" "\<lambda>m. map Some (rx_queue m)" tx_queue
  for TX clk
  by unfold_locales (auto simp: nb_can_async_def nb_poll_receive_def mailbox_ops_def mailbox_receive_def)

section \<open>What the buffers hold\<close>

lemma take_take_append: "take n (take n xs @ ys) = take n (xs @ ys)"
  by (cases "length xs \<le> n") simp_all

lemma sdp_divert_all:
  assumes "length (sdp_overflow p) \<le> 16"
  shows "sdp_response_cob (foldl sdp_divert p fs) = sdp_response_cob p
    \<and> sdp_overflow (foldl sdp_divert p fs) = take 16 (sdp_overflow p @ fs)
    \<and> unat (sdp_overflow_dropped (foldl sdp_divert p fs)) =
        min (2 ^ 32 - 1) (unat (sdp_overflow_dropped p) + (length (sdp_overflow p) + length fs - 16))"
  using assms
proof (induction fs arbitrary: p)
  case Nil
  moreover have "unat (sdp_overflow_dropped p) < 2 ^ 32" by (rule order.strict_trans2 [OF unsigned_less]) simp
  ultimately show ?case by simp
next
  case (Cons f fs)
  have "unat (saturating_add (sdp_overflow_dropped p) 1) = min (2 ^ 32 - 1) (unat (sdp_overflow_dropped p) + 1)"
    by (auto simp: saturating_add_def unat_word_ariths unsigned_minus_1_eq_mask mask_eq_exp_minus_1)
  moreover have "take 16 (take 16 (sdp_overflow p @ [f]) @ fs) = take 16 (sdp_overflow p @ f # fs)"
    using take_take_append [of 16 "sdp_overflow p @ [f]" fs] by simp
  moreover have "sdp_response_cob (sdp_divert p f) = sdp_response_cob p"
    "sdp_overflow (sdp_divert p f) = take 16 (sdp_overflow p @ [f])"
    "sdp_overflow_dropped (sdp_divert p f) = (if length (sdp_overflow p) < 16 then sdp_overflow_dropped p
       else saturating_add (sdp_overflow_dropped p) 1)"
    using Cons.prems by (simp_all add: sdp_divert_def)
  ultimately show ?case using Cons.IH [of "sdp_divert p f"] Cons.prems by (cases "length (sdp_overflow p) < 16") auto
qed

definition other_frame :: "can_frame \<Rightarrow> bool" where
  "other_frame f \<longleftrightarrow> \<not> heartbeat_of None f \<and> \<not> is_pdo_frame f"

definition routed :: "can_demux \<Rightarrow> can_frame list \<Rightarrow> can_demux" where
  "routed d fs = d\<lparr>pdo_buf := take 16 (pdo_buf d @ filter is_pdo_frame fs),
     heartbeat_buf := take 8 (heartbeat_buf d @ filter (heartbeat_of None) fs),
     other_buf := take 4 (other_buf d @ filter other_frame fs)\<rparr>"

definition wf_demux :: "can_demux \<Rightarrow> bool" where
  "wf_demux d \<longleftrightarrow> length (pdo_buf d) \<le> 16 \<and> length (heartbeat_buf d) \<le> 8 \<and> length (other_buf d) \<le> 4
     \<and> list_all (heartbeat_of None) (heartbeat_buf d) \<and> list_all is_pdo_frame (pdo_buf d) \<and> list_all other_frame (other_buf d)"

lemma route_frame_routed: "wf_demux d \<Longrightarrow> route_frame d f = routed d [f] \<and> wf_demux (route_frame d f)"
  by (auto simp: wf_demux_def route_frame_def routed_def push_back_def other_frame_def is_pdo_frame_def heartbeat_of_def
      split: option.splits parsed_cob_id.splits)

lemma routed_routed: "routed (routed d fs) gs = routed d (fs @ gs)"
proof -
  have t: "take n (take n (xs @ filter P fs) @ filter P gs) = take n (xs @ filter P (fs @ gs))" for n P and xs :: "can_frame list"
    by (simp only: take_take_append filter_append append_assoc)
  show ?thesis by (simp add: routed_def t del: take_append filter_append)
qed

lemma route_all:
  "wf_demux d \<Longrightarrow> foldl route_frame d fs = routed d fs \<and> wf_demux (foldl route_frame d fs)"
proof (induction fs arbitrary: d)
  case Nil
  then show ?case by (simp add: routed_def wf_demux_def)
next
  case (Cons f fs)
  have "routed (routed d [f]) fs = routed d (f # fs)" using routed_routed [of d "[f]" fs] by simp
  then show ?case using Cons.IH [of "route_frame d f"] route_frame_routed [OF Cons.prems, of f] by auto
qed

section \<open>Heartbeats that were buffered\<close>

lemma take_buffered_found:
  "length (todo @ done) \<le> 8 \<Longrightarrow>
   take_buffered_loop (length todo) node (Some f) (todo @ done) = (Some f, done @ todo)"
proof (induction todo arbitrary: "done")
  case (Cons x todo)
  then show ?case using Cons.IH [of "done @ [x]"] by (simp add: push_back_def)
qed simp

lemma take_buffered_rotates:
  assumes "\<And>f. P f \<longleftrightarrow> node = None \<or> heartbeat_node f = node"
  shows "length (todo @ done) \<le> 8 \<Longrightarrow> take_buffered_loop (length todo) node None (todo @ done) =
    (case find P todo of None \<Rightarrow> (None, done @ todo) | Some f \<Rightarrow> (Some f, done @ remove1 f todo))"
proof (induction todo arbitrary: "done")
  case (Cons x todo)
  show ?case
  proof (cases "P x")
    case True
    then show ?thesis using Cons.prems take_buffered_found [of todo "done"] assms [of x] by simp
  next
    case False
    then have "find P todo = Some f \<Longrightarrow> f \<noteq> x" for f by (auto simp: find_Some_iff)
    then show ?thesis using Cons.IH [of "done @ [x]"] Cons.prems False assms [of x]
      by (auto simp: push_back_def split: option.splits)
  qed
qed simp

lemma heartbeat_of_node: "heartbeat_of None f \<Longrightarrow> heartbeat_of node f \<longleftrightarrow> node = None \<or> heartbeat_node f = node"
  by (auto simp: heartbeat_of_def heartbeat_node_def split: option.splits parsed_cob_id.splits)

text \<open>The rotation takes out the oldest matching heartbeat and leaves the others in order.\<close>

lemma take_buffered_heartbeat_eq:
  assumes "wf_demux d"
  shows "take_buffered_heartbeat node d =
    (case find (heartbeat_of node) (heartbeat_buf d) of None \<Rightarrow> (None, d)
     | Some f \<Rightarrow> (Some f, d\<lparr>heartbeat_buf := remove1 f (heartbeat_buf d)\<rparr>))"
proof -
  have "find (\<lambda>f. node = None \<or> heartbeat_node f = node) (heartbeat_buf d) = find (heartbeat_of node) (heartbeat_buf d)"
    using assms heartbeat_of_node by (intro find_cong) (auto simp: wf_demux_def list_all_iff)
  then show ?thesis
    using take_buffered_rotates [of "\<lambda>f. node = None \<or> heartbeat_node f = node" node "heartbeat_buf d" "[]"] assms
    by (auto simp: take_buffered_heartbeat_def wf_demux_def split: option.splits)
qed

context frame_source
begin

lemma demux_recv_exact:
  assumes "wf_demux d" and "inbox w = pre @ Some f # q" and "wanted f" and "\<forall>g\<in>set (arrived pre). \<not> wanted g"
  shows "\<exists>w'. demux_recv can wanted w d = Some (Inr f, w', routed d (arrived pre)) \<and> inbox w' = q \<and> view w' = view w"
  using port_await [of "\<lambda>_. wanted" route_frame w pre f q d] route_all [OF assms(1), of "arrived pre"] assms(2-)
  by (simp add: demux_recv_def Let_def)

end

section \<open>Transfers through a port\<close>

lemma await_port_transmit:
  fixes accept :: "'s \<Rightarrow> can_frame \<Rightarrow> bool"
  assumes "await can (poll_transmit can f) w = Some x"
  shows "await (port_can accept divert can) (poll_transmit (port_can accept divert can) f) (w, s) = Some (fst x, snd x, s)"
proof -
  let ?P = "\<lambda>can fut w x. fut = poll_transmit can f \<longrightarrow>
    await (port_can accept divert can) (poll_transmit (port_can accept divert can) f) (w, s) = Some (fst x, snd x, s)"
  have "?P can (poll_transmit can f) w x"
  proof (rule await.raw_induct [where P = ?P, OF _ assms], intro impI)
    fix aw can w x and fut :: "'b \<Rightarrow> ('a + unit) option \<times> 'b"
    assume IH: "\<And>can fut w x. aw can fut w = Some x \<Longrightarrow> ?P can fut w x"
      and r: "(case fut w of (None, w') \<Rightarrow> aw can fut (suspend can w') | (Some r, w') \<Rightarrow> Some (r, w')) = Some x"
      and fut: "fut = poll_transmit can f"
    obtain o1 w1 where p: "poll_transmit can f w = (o1, w1)" by force
    show "await (port_can accept divert can) (poll_transmit (port_can accept divert can) f) (w, s) = Some (fst x, snd x, s)"
      using IH [of can fut "suspend can w1" x] r fut p by (subst await.simps) (auto split: option.splits)
  qed
  then show ?thesis by blast
qed

lemma drv_send_port:
  "drv_send can f None w = Some (r, w') \<Longrightarrow> drv_send (port_can accept divert can) f None (w, s) = Some (r, w', s)"
  using await_port_transmit [of can f w _ accept divert s] by (auto simp: drv_send_def bind_eq_Some_conv)

text \<open>
  Over the bus, a port whose loop accepts the response and nothing of the other traffic returns the
  response and diverts what arrived ahead of it.
\<close>

lemma port_receive_response:
  assumes "bw_inbox w = pre @ [Some g]" and "raw_id g = cob_raw (cob_sdo_tx node)" and "raw_dlc g = 8"
    and "\<And>s h. accept (divert s h) = accept s" and "accept s g" and "\<forall>h\<in>set (arrived pre). \<not> accept s h"
  shows "\<exists>w'. receive_response (port_can accept divert (bus_can N ops node)) (sdo_driver_new node) None (w, s)
      = Some (Inr g, w', foldl divert s (arrived pre))
    \<and> bw_inbox w' = [] \<and> bw_io w' = bw_io w \<and> bw_ctxs w' = bw_ctxs w \<and> bw_traffic w' = bw_traffic w"
proof -
  obtain w' where "await (port_can accept divert (bus_can N ops node))
      (poll_receive (port_can accept divert (bus_can N ops node))) (w, s) = Some (Inr g, w', foldl divert s (arrived pre))"
    "bw_inbox w' = []" "(bw_io w', bw_ctxs w', bw_traffic w') = (bw_io w, bw_ctxs w, bw_traffic w)"
    using bus_src.port_await [of accept divert, OF assms(4,1,5,6)] by blast
  then show ?thesis using assms(2,3)
    by (intro exI [of _ w']) (subst receive_response.simps, simp add: recv_one_def sdo_driver_new_def)
qed

text \<open>
  The link through a port, started with the traffic \<open>T\<close> ahead and the port in state \<open>s0\<close>: the
  port holds what arrived so far.
\<close>

definition port_ready ::
  "('od \<Rightarrow> bool) \<Rightarrow> nat \<Rightarrow> node_id \<Rightarrow> ('s \<Rightarrow> can_frame \<Rightarrow> 's) \<Rightarrow> 's \<Rightarrow> can_frame option list list
   \<Rightarrow> 'od sdo_bus \<times> 's \<Rightarrow> bool" where
  "port_ready od_inv N node divert s0 T = (\<lambda>(w, s). bus_ready od_inv N node w
     \<and> (\<exists>k. bw_traffic w = drop k T \<and> s = foldl divert s0 (arrived (concat (take k T)))))"

lemma port_ready_start: "bus_ready od_inv N node w \<Longrightarrow> port_ready od_inv N node divert s0 (bw_traffic w) (w, s0)"
  unfolding port_ready_def by (auto intro: exI [of _ 0])

lemma accept_foldl:
  assumes "\<And>s h. accept (divert s h) = accept s"
  shows "accept (foldl divert s hs) = accept s"
  by (induction hs arbitrary: s) (simp_all add: assms)

context object_dictionary
begin

lemma port_link:
  assumes acc: "\<And>s h. accept (divert s h) = accept s"
    and own: "\<And>g. raw_id g = cob_raw (cob_sdo_tx node) \<Longrightarrow> raw_dlc g = 8 \<Longrightarrow> accept s0 g"
    and other: "\<And>h. raw_id h \<noteq> cob_raw (cob_sdo_tx node) \<Longrightarrow> \<not> accept s0 h"
  shows "sdo_link ops val inv N node (port_can accept divert (bus_can N ops node)) (bw_io \<circ> fst) (bw_ctxs \<circ> fst)
    (port_ready inv N node divert s0 T)"
proof (unfold_locales, goal_cases)
  case (1 ws)
  then show ?case by (auto simp: port_ready_def bus_ready_def)
next
  case (2 ws f ctx rest io')
  obtain w s k where ws: "ws = (w, s)" and r: "bus_ready inv N node w" "bw_traffic w = drop k T"
    and s: "s = foldl divert s0 (arrived (concat (take k T)))"
    using 2(1) by (auto simp: port_ready_def)
  have f: "bw_ctxs w = ctx # rest" "process_with_context N ops (frame_data f) ctx (bw_io w) = Some (True, io')"
    using 2(3,4) ws by simp_all
  obtain w1 pre g where d: "drv_send (bus_can N ops node) f None w = Some (Inr (), w1)" "bw_io w1 = io'"
    "bw_ctxs w1 = rest" "bw_traffic w1 = drop 1 (bw_traffic w)" "pre = concat (take 1 (bw_traffic w))"
    "bw_inbox w1 = pre @ [Some g]" "foreign node pre"
    "raw_id g = cob_raw (cob_sdo_tx node)" "raw_dlc g = 8" "frame_data g = io_response io'"
    using drv_send_request [OF 2(2) f] r(1) 2(5) unfolding bus_ready_def wf_io_def by blast
  have st: "accept s = accept s0" unfolding s by (rule accept_foldl [of accept divert, OF acc])
  have "\<forall>h\<in>set (arrived pre). \<not> accept s h" using d(7) other by (auto simp: st set_arrived foreign_def)
  then obtain w2 where w2: "receive_response (port_can accept divert (bus_can N ops node)) (sdo_driver_new node) None (w1, s)
      = Some (Inr g, w2, foldl divert s (arrived pre))" "bw_inbox w2 = []" "bw_io w2 = io'" "bw_ctxs w2 = rest"
      "bw_traffic w2 = drop 1 (bw_traffic w)"
    using port_receive_response [of w1 pre g node accept divert s N ops] d(2-4,6,8,9) acc own st by auto
  have "foldl divert s (arrived pre) = foldl divert s0 (arrived (concat (take (Suc k) T)))"
    using d(5) r(2) by (simp add: s take_add [of k 1 T, simplified] flip: foldl_append)
  then have "port_ready inv N node divert s0 T (w2, foldl divert s (arrived pre))"
    using w2 r 2(5) foreign_drop [of "bw_traffic w" node 1]
    by (auto simp: port_ready_def bus_ready_def intro!: exI [of _ "Suc k"])
  then show ?case using drv_send_port [OF d(1), of accept divert s] w2 d(10) ws by auto
qed

end

sublocale object_dictionary \<subseteq> sport: sdo_link ops val inv N node "sdo_port_can (bus_can N ops node)"
    "bw_io \<circ> fst" "bw_ctxs \<circ> fst" "port_ready inv N node sdp_divert (sdo_port_new node) T"
  for N node T
  unfolding sdo_port_can_def by (rule port_link) (simp_all add: sdp_divert_def sdo_port_new_def)

sublocale object_dictionary \<subseteq> dport: sdo_link ops val inv N node "demux_sdo_port node (bus_can N ops node)"
    "bw_io \<circ> fst" "bw_ctxs \<circ> fst" "port_ready inv N node route_frame d T"
  for N node d T
  unfolding demux_sdo_port_def by (rule port_link) simp_all

context object_dictionary
begin

lemmas port_transfers = sport.driver_upload sport.driver_read_fixed sport.driver_download sport.apply_remote_strict

lemmas demux_transfers = dport.driver_upload dport.driver_read_fixed dport.driver_download dport.apply_remote_strict

end

section \<open>Timed waits\<close>

lemma remaining_zero:
  "remaining \<lparr>td_started = st, td_timeout_us = t\<rparr> now = 0 \<longleftrightarrow> t \<le> now - st"
  by (auto simp: remaining_def saturating_sub_def)

text \<open>The wait for a heartbeat is the driver's deadline wait, with its timeout reported as no frame.\<close>

lemma poll_before_until:
  assumes "poll_until can \<lparr>td_started = st, td_timeout_us = t\<rparr> (poll_receive can) w = Some x"
  shows "poll_before can st t w = Some (case fst x of Inl _ \<Rightarrow> Inr None | Inr y \<Rightarrow> map_sum id Some y, snd x)"
proof -
  let ?P = "\<lambda>can dl fut w x. dl = \<lparr>td_started = st, td_timeout_us = t\<rparr> \<and> fut = poll_receive can \<longrightarrow>
    poll_before can st t w = Some (case fst x of Inl _ \<Rightarrow> Inr None | Inr y \<Rightarrow> map_sum id Some y, snd x)"
  have "?P can \<lparr>td_started = st, td_timeout_us = t\<rparr> (poll_receive can) w x"
  proof (rule poll_until.raw_induct [where P = ?P, OF _ assms], intro impI)
    fix pu :: "('b, 'a) async_can \<Rightarrow> transfer_deadline \<Rightarrow> ('b \<Rightarrow> ('a + can_frame) option \<times> 'b) \<Rightarrow> 'b
      \<Rightarrow> (('a sdo_error + 'a + can_frame) \<times> 'b) option" and can dl fut w x
    assume IH: "\<And>can dl fut w x. pu can dl fut w = Some x \<Longrightarrow> ?P can dl fut w x"
      and r: "(if remaining dl (now_us can w) = 0 then Some (Inl Timeout, w)
        else case fut w of (None, w') \<Rightarrow> pu can dl fut (suspend can w') | (Some r, w') \<Rightarrow> Some (Inr r, w')) = Some x"
      and e: "dl = \<lparr>td_started = st, td_timeout_us = t\<rparr> \<and> fut = poll_receive can"
    obtain o1 w1 where p: "poll_receive can w = (o1, w1)" by force
    show "poll_before can st t w = Some (case fst x of Inl _ \<Rightarrow> Inr None | Inr y \<Rightarrow> map_sum id Some y, snd x)"
      using IH [of can dl fut "suspend can w1" x] r e p
      by (subst poll_before.simps) (auto simp: remaining_zero split: option.splits if_splits)
  qed
  then show ?thesis by blast
qed

context clocked_can
begin

definition hb_ended :: "nat \<Rightarrow> u64 \<Rightarrow> node_id option \<Rightarrow> 'w \<Rightarrow> 'e + can_frame option \<Rightarrow> 'w \<Rightarrow> bool" where
  "hb_ended s0 timeout node w r w' \<longleftrightarrow> within s0 timeout w' \<and> elapsed w \<le> elapsed w'
     \<and> (r = Inr None \<longrightarrow> unat timeout \<le> elapsed w' - s0) \<and> (\<forall>f. r = Inr (Some f) \<longrightarrow> heartbeat_of node f)"

lemma recv_heartbeat_timed_loop_returns:
  assumes T: "unat timeout + 2 * D < 2 ^ 64" and "within s0 timeout w"
  shows "\<exists>r w' d'. recv_heartbeat_timed_loop can node (of_nat s0) timeout w d = Some (r, w', d')
    \<and> hb_ended s0 timeout node w r w'"
  using assms(2)
proof (induction "unat timeout - (elapsed w - s0)" arbitrary: w d rule: less_induct)
  case less
  have "\<exists>r w'. poll_until can (dl_at s0 timeout) (poll_receive can) w = Some (r, w')
      \<and> polled s0 timeout (poll_receive can) w r w'"
    by (rule poll_until_returns [OF _ T less.prems]) (erule (1) receive_time)
  then obtain r w1 where u: "poll_until can (dl_at s0 timeout) (poll_receive can) w = Some (r, w1)"
    and c: "polled s0 timeout (poll_receive can) w r w1" by blast
  note b = poll_before_until [OF u]
  show ?case
  proof (cases r)
    case (Inl e)
    then show ?thesis using b c
      by (subst recv_heartbeat_timed_loop.simps) (simp add: hb_ended_def polled_def)
  next
    case (Inr x)
    then obtain w0 where w0: "poll_receive can w0 = (Some x, w1)" "good w0" "elapsed w \<le> elapsed w0" "elapsed w0 - s0 < unat timeout"
      "within s0 timeout w1" using c by (auto simp: polled_def)
    have t: "elapsed w < elapsed w1" "elapsed w - s0 < unat timeout" using receive_tick [OF w0(2,1)] w0(3,4) by linarith+
    show ?thesis
    proof (cases "\<exists>f. x = Inr f \<and> \<not> heartbeat_of node f")
      case True
      then obtain f where f: "x = Inr f" "\<not> heartbeat_of node f" by blast
      have "unat timeout - (elapsed w1 - s0) < unat timeout - (elapsed w - s0)"
        using less.prems t by (auto simp: within_def)
      from less.hyps [OF this w0(5), of "route_frame d f"] obtain r' w' d' where
        "recv_heartbeat_timed_loop can node (of_nat s0) timeout w1 (route_frame d f) = Some (r', w', d')"
        "hb_ended s0 timeout node w1 r' w'" by blast
      then show ?thesis using b Inr f t(1)
        by (subst recv_heartbeat_timed_loop.simps) (auto simp: hb_ended_def)
    next
      case False
      then show ?thesis using b Inr w0(5) t
        by (subst recv_heartbeat_timed_loop.simps) (cases x, auto simp: hb_ended_def)
    qed
  qed
qed

end

section \<open>Properties\<close>

text \<open>
  C13. The demultiplexer loses no frame to the wrong reader: \<open>recv_heartbeat\<close> returns the oldest
  matching heartbeat that is buffered, taking out that one and keeping the order of the others;
  when none is buffered it waits for the first matching one, and every frame that arrives before it
  is kept, in order, in the buffer of its class (the newest are dropped when 16 PDOs, 8 heartbeats
  or 4 other frames are already waiting). The transmit side of the transport is untouched.
\<close>

theorem demux_recv_heartbeat_exact:
  assumes "frame_source can inbox view" and "wf_demux d"
  shows "(case find (heartbeat_of node) (heartbeat_buf d) of
      Some f \<Rightarrow> recv_heartbeat can node w d = Some (Inr f, w, d\<lparr>heartbeat_buf := remove1 f (heartbeat_buf d)\<rparr>)
    | None \<Rightarrow> (\<forall>pre f q. inbox w = pre @ Some f # q \<and> heartbeat_of node f
          \<and> (\<forall>g\<in>set (arrived pre). \<not> heartbeat_of node g) \<longrightarrow>
        (\<exists>w'. recv_heartbeat can node w d = Some (Inr f, w', routed d (arrived pre))
          \<and> wf_demux (routed d (arrived pre)) \<and> inbox w' = q \<and> view w' = view w)))"
proof (cases "find (heartbeat_of node) (heartbeat_buf d)")
  case None
  have "recv_heartbeat can node w d = demux_recv can (heartbeat_of node) w d"
    using take_buffered_heartbeat_eq [OF assms(2), of node] None by (simp add: recv_heartbeat_def)
  moreover have "wf_demux (routed d fs)" for fs using route_all [OF assms(2), of fs] by metis
  ultimately show ?thesis using frame_source.demux_recv_exact [OF assms, of w _ _ _ "heartbeat_of node"] None by simp
qed (use take_buffered_heartbeat_eq [OF assms(2), of node] in \<open>simp add: recv_heartbeat_def\<close>)

theorem demux_recv_heartbeat_exact_witness:
  "\<exists>w'. recv_heartbeat (nb_can_async (mailbox_ops 4) id (\<lambda>_. 0)) (Some (NodeId 5))
      \<lparr>tx_queue = [], rx_queue = [\<lparr>cf_id = 0x181, cf_dlc = 1, cf_data = [7, 0, 0, 0, 0, 0, 0, 0]\<rparr>,
         \<lparr>cf_id = 0x705, cf_dlc = 1, cf_data = [5, 0, 0, 0, 0, 0, 0, 0]\<rparr>]\<rparr> can_demux_new
    = Some (Inr \<lparr>cf_id = 0x705, cf_dlc = 1, cf_data = [5, 0, 0, 0, 0, 0, 0, 0]\<rparr>, w',
        can_demux_new\<lparr>pdo_buf := [\<lparr>cf_id = 0x181, cf_dlc = 1, cf_data = [7, 0, 0, 0, 0, 0, 0, 0]\<rparr>]\<rparr>)"
proof -
  let ?p = "\<lparr>cf_id = 0x181, cf_dlc = 1, cf_data = [7, 0, 0, 0, 0, 0, 0, 0]\<rparr>"
  let ?h = "\<lparr>cf_id = 0x705, cf_dlc = 1, cf_data = [5, 0, 0, 0, 0, 0, 0, 0]\<rparr>"
  let ?m = "\<lparr>tx_queue = [], rx_queue = [?p, ?h]\<rparr>"
  have "wf_demux can_demux_new" by code_simp
  note t = demux_recv_heartbeat_exact [OF mailbox_src.frame_source_axioms [of 4 "\<lambda>_. 0"] this, where node = "Some (NodeId 5)" and w = ?m]
  have "find (heartbeat_of (Some (NodeId 5))) (heartbeat_buf can_demux_new) = None" by code_simp
  moreover have "heartbeat_of (Some (NodeId 5)) ?h" "\<not> heartbeat_of (Some (NodeId 5)) ?p" by code_simp+
  moreover have "routed can_demux_new [?p] = can_demux_new\<lparr>pdo_buf := [?p]\<rparr>" by code_simp
  ultimately show ?thesis using t by (auto dest!: spec [of _ "[Some ?p]"])
qed

text \<open>
  A timed wait for a heartbeat ends: with a clock that advances, \<open>recv_heartbeat_timed\<close>
  returns whatever traffic arrives, reports a missing heartbeat only after the full time, across a
  wrap-around of the clock too, and returns only heartbeats of the requested node.
\<close>

theorem heartbeat_wait_ends:
  assumes "clocked_can can elapsed good D" and "unat timeout + 2 * D < 2 ^ 64" and "good w" and "wf_demux d"
  shows "\<exists>r w' d'. recv_heartbeat_timed can node timeout w d = Some (r, w', d')
    \<and> elapsed w \<le> elapsed w' \<and> elapsed w' - elapsed w \<le> unat timeout + 2 * D
    \<and> (r = Inr None \<longrightarrow> unat timeout \<le> elapsed w' - elapsed w) \<and> (\<forall>f. r = Inr (Some f) \<longrightarrow> heartbeat_of node f)"
proof -
  have w: "clocked_can.within elapsed good D (elapsed w) timeout w"
    using assms(1,3) by (simp add: clocked_can.within_def)
  obtain r w' d' where "recv_heartbeat_timed_loop can node (of_nat (elapsed w)) timeout w d = Some (r, w', d')"
    and "clocked_can.hb_ended elapsed good D (elapsed w) timeout node w r w'"
    using clocked_can.recv_heartbeat_timed_loop_returns [OF assms(1,2) w] by blast
  then show ?thesis
    using take_buffered_heartbeat_eq [OF assms(4), of node] clocked_can.clock [OF assms(1)] assms(1)
    by (cases "find (heartbeat_of node) (heartbeat_buf d)")
      (auto simp: recv_heartbeat_timed_def Let_def clocked_can.hb_ended_def clocked_can.within_def find_Some_iff)
qed

theorem heartbeat_wait_ends_witness:
  "\<exists>r w' d'. recv_heartbeat_timed (ticking_can 4) None 100 (mailbox_new, 2 ^ 64 - 10) can_demux_new = Some (r, w', d')
     \<and> snd w' - (2 ^ 64 - 10) \<le> 102"
proof -
  have "wf_demux can_demux_new" by code_simp
  from heartbeat_wait_ends [OF ticking.clocked_can_axioms _ _ this, of 100 "(mailbox_new, 2 ^ 64 - 10)" 4 None]
  show ?thesis by (simp add: mailbox_new_def) blast
qed

end
