(* ===== verification/Can_Bus.thy ===== *)
theory Can_Bus
  imports Sdo_Deadline "HOL-Library.Sublist"
begin

text \<open>
  The shared bus of \<open>canopen-core/src/bus.rs\<close>: subscriptions with bounded queues, the transmit
  queue and the pump. Every access to a queue or to the subscriber list happens under its lock, so
  an operation is a function on the state of the bus. A subscription is an address: the bus holds
  weak references, and a subscription that was dropped is no longer in \<open>cb_live\<close>. A waker is
  the number of its task; an operation that wakes tasks returns their wakers.
\<close>

section \<open>Subscriptions\<close>

type_synonym waker = nat

definition waker_register :: "waker list \<Rightarrow> waker \<Rightarrow> waker list" where
  "waker_register wakers w = (if w \<in> set wakers then wakers else wakers @ [w])"

datatype overflow_policy = DropOldest | DropNewest

record subscription =
  sb_queue :: "can_frame list"
  sb_rx_wakers :: "waker list"
  sb_capacity :: nat
  sb_policy :: overflow_policy
  sb_overflow :: u64
  sb_filter :: "(can_frame \<Rightarrow> bool) option"

text \<open>
  \<open>SubscriptionShared::push\<close> has two critical sections: the queue is updated under its lock,
  then the wakers are taken under theirs. The first also tells whether the second is reached.
\<close>

definition push_enqueue :: "can_frame \<Rightarrow> subscription \<Rightarrow> bool \<times> subscription" where
  "push_enqueue frame s =
     (if length (sb_queue s) \<ge> sb_capacity s
      then (let s = s\<lparr>sb_overflow := sb_overflow s + 1\<rparr> in
            case sb_policy s of
              DropOldest \<Rightarrow> (True, s\<lparr>sb_queue := drop 1 (sb_queue s) @ [frame]\<rparr>)
            | DropNewest \<Rightarrow> (False, s))
      else (True, s\<lparr>sb_queue := sb_queue s @ [frame]\<rparr>))"

definition push_take :: "subscription \<Rightarrow> waker list \<times> subscription" where
  "push_take s = (sb_rx_wakers s, s\<lparr>sb_rx_wakers := []\<rparr>)"

definition sub_push :: "can_frame \<Rightarrow> subscription \<Rightarrow> waker list \<times> subscription" where
  "sub_push frame s = (let (go, s) = push_enqueue frame s in if go then push_take s else ([], s))"

section \<open>The bus\<close>

record can_bus =
  cb_subs :: "nat list"
  cb_live :: "nat \<rightharpoonup> subscription"
  cb_fresh :: nat

definition shared_can_bus_new :: can_bus where
  "shared_can_bus_new = \<lparr>cb_subs = [], cb_live = Map.empty, cb_fresh = 0\<rparr>"

definition subscribe_with ::
  "nat \<Rightarrow> overflow_policy \<Rightarrow> (can_frame \<Rightarrow> bool) option \<Rightarrow> can_bus \<Rightarrow> (nat \<times> can_bus) option" where
  "subscribe_with capacity policy flt b =
     (if capacity = 0 then None
      else (let a = cb_fresh b;
                shared = \<lparr>sb_queue = [], sb_rx_wakers = [], sb_capacity = capacity, sb_policy = policy,
                  sb_overflow = 0, sb_filter = flt\<rparr>
            in Some (a, b\<lparr>cb_subs := cb_subs b @ [a], cb_live := (cb_live b)(a \<mapsto> shared), cb_fresh := a + 1\<rparr>)))"

definition subscribe :: "nat \<Rightarrow> can_bus \<Rightarrow> (nat \<times> can_bus) option" where
  "subscribe capacity b = subscribe_with capacity DropOldest None b"

definition subscribe_filtered :: "nat \<Rightarrow> (can_frame \<Rightarrow> bool) \<Rightarrow> can_bus \<Rightarrow> (nat \<times> can_bus) option" where
  "subscribe_filtered capacity flt b = subscribe_with capacity DropOldest (Some flt) b"

text \<open>Dropping the last handle of a subscription.\<close>

definition drop_subscription :: "nat \<Rightarrow> can_bus \<Rightarrow> can_bus" where
  "drop_subscription a b = b\<lparr>cb_live := (cb_live b)(a := None)\<rparr>"

definition accepts :: "subscription \<Rightarrow> can_frame \<Rightarrow> bool" where
  "accepts s frame = (case sb_filter s of None \<Rightarrow> True | Some f \<Rightarrow> f frame)"

text \<open>The \<open>retain\<close> loop of \<open>publish\<close>: kept references, the live subscriptions, wakers.\<close>

fun publish_retain ::
  "can_frame \<Rightarrow> nat list \<Rightarrow> (nat \<rightharpoonup> subscription) \<Rightarrow> waker list \<Rightarrow> nat list \<times> (nat \<rightharpoonup> subscription) \<times> waker list" where
  "publish_retain frame [] live wake = ([], live, wake)"
| "publish_retain frame (a # subs) live wake =
     (case live a of
        None \<Rightarrow> publish_retain frame subs live wake
      | Some sub \<Rightarrow>
          (let (ws, sub') = (if accepts sub frame then sub_push frame sub else ([], sub));
               (kept, live', wake') = publish_retain frame subs (live(a \<mapsto> sub')) (wake @ ws)
           in (a # kept, live', wake')))"

definition publish :: "can_frame \<Rightarrow> can_bus \<Rightarrow> waker list \<times> can_bus" where
  "publish frame b =
     (let (kept, live, wake) = publish_retain frame (cb_subs b) (cb_live b) []
      in (wake, b\<lparr>cb_subs := kept, cb_live := live\<rparr>))"

definition subscriber_count :: "can_bus \<Rightarrow> nat \<times> can_bus" where
  "subscriber_count b = (let subs = filter (\<lambda>a. cb_live b a \<noteq> None) (cb_subs b) in (length subs, b\<lparr>cb_subs := subs\<rparr>))"

section \<open>The receiving end\<close>

definition sub_try_recv :: "subscription \<Rightarrow> can_frame option \<times> subscription" where
  "sub_try_recv s = (case sb_queue s of [] \<Rightarrow> (None, s) | f # q \<Rightarrow> (Some f, s\<lparr>sb_queue := q\<rparr>))"

definition on_sub :: "nat \<Rightarrow> (subscription \<Rightarrow> 'a option \<times> subscription) \<Rightarrow> can_bus \<Rightarrow> 'a option \<times> can_bus" where
  "on_sub a op b = (case cb_live b a of None \<Rightarrow> (None, b)
     | Some s \<Rightarrow> (let (r, s') = op s in (r, b\<lparr>cb_live := (cb_live b)(a \<mapsto> s')\<rparr>)))"

definition take_overflow_count :: "subscription \<Rightarrow> u64 \<times> subscription" where
  "take_overflow_count s = (sb_overflow s, s\<lparr>sb_overflow := 0\<rparr>)"

text \<open>A poll of \<open>recv_async\<close>, when nothing else runs in between.\<close>

definition recv_async_poll :: "waker \<Rightarrow> subscription \<Rightarrow> can_frame option \<times> subscription" where
  "recv_async_poll w s =
     (case sub_try_recv s of
        (Some f, s') \<Rightarrow> (Some f, s')
      | (None, s') \<Rightarrow> sub_try_recv (s'\<lparr>sb_rx_wakers := waker_register (sb_rx_wakers s') w\<rparr>))"

text \<open>
  The blocking receives run in a world in which other threads act while they wait; \<open>wait\<close> is a
  wait on the condition variable, \<open>now\<close> the monotonic clock in microseconds.
\<close>

partial_function (option) sub_recv ::
  "('w \<Rightarrow> can_frame option \<times> 'w) \<Rightarrow> ('w \<Rightarrow> 'w) \<Rightarrow> 'w \<Rightarrow> (can_frame \<times> 'w) option" where
  "sub_recv pop wait w =
     (case pop w of (Some f, w') \<Rightarrow> Some (f, w') | (None, w') \<Rightarrow> sub_recv pop wait (wait w'))"

partial_function (option) recv_until ::
  "('w \<Rightarrow> can_frame option \<times> 'w) \<Rightarrow> ('w \<Rightarrow> nat) \<Rightarrow> (nat \<Rightarrow> 'w \<Rightarrow> 'w) \<Rightarrow> nat \<Rightarrow> 'w \<Rightarrow> (can_frame option \<times> 'w) option" where
  "recv_until pop now wait deadline w =
     (case pop w of
        (Some f, w') \<Rightarrow> Some (Some f, w')
      | (None, w') \<Rightarrow>
          if now w' \<ge> deadline then Some (None, w')
          else recv_until pop now wait deadline (wait (deadline - now w') w'))"

definition recv_timeout ::
  "('w \<Rightarrow> can_frame option \<times> 'w) \<Rightarrow> ('w \<Rightarrow> nat) \<Rightarrow> (nat \<Rightarrow> 'w \<Rightarrow> 'w) \<Rightarrow> nat \<Rightarrow> 'w \<Rightarrow> (can_frame option \<times> 'w) option" where
  "recv_timeout pop now wait timeout w = recv_until pop now wait (now w + timeout) w"

section \<open>The transmit queue\<close>

record tx_queue_state =
  tq_queue :: "can_frame list"
  tq_capacity :: nat
  tq_space_wakers :: "waker list"

definition tx_queue_new :: "nat \<Rightarrow> tx_queue_state option" where
  "tx_queue_new capacity =
     (if capacity = 0 then None else Some \<lparr>tq_queue = [], tq_capacity = capacity, tq_space_wakers = []\<rparr>)"

definition tx_try_send :: "can_frame \<Rightarrow> tx_queue_state \<Rightarrow> bool \<times> tx_queue_state" where
  "tx_try_send frame q =
     (if length (tq_queue q) \<ge> tq_capacity q then (False, q)
      else (True, q\<lparr>tq_queue := tq_queue q @ [frame]\<rparr>))"

partial_function (option) tx_send ::
  "(can_frame \<Rightarrow> 'w \<Rightarrow> bool \<times> 'w) \<Rightarrow> ('w \<Rightarrow> 'w) \<Rightarrow> can_frame \<Rightarrow> 'w \<Rightarrow> 'w option" where
  "tx_send push wait frame w =
     (case push frame w of (ok, w') \<Rightarrow> if ok then Some w' else tx_send push wait frame (wait w'))"

definition send_async_poll :: "waker \<Rightarrow> can_frame \<Rightarrow> tx_queue_state \<Rightarrow> unit option \<times> tx_queue_state" where
  "send_async_poll w frame q =
     (case tx_try_send frame q of
        (True, q') \<Rightarrow> (Some (), q')
      | (False, q') \<Rightarrow>
          (case tx_try_send frame (q'\<lparr>tq_space_wakers := waker_register (tq_space_wakers q') w\<rparr>) of
             (True, q'') \<Rightarrow> (Some (), q'')
           | (False, q'') \<Rightarrow> (None, q'')))"

text \<open>\<open>try_pop\<close>: the frame under the lock of the queue, then the wakers under theirs.\<close>

definition tx_pop :: "tx_queue_state \<Rightarrow> can_frame option \<times> tx_queue_state" where
  "tx_pop q = (case tq_queue q of [] \<Rightarrow> (None, q) | f # fs \<Rightarrow> (Some f, q\<lparr>tq_queue := fs\<rparr>))"

definition tx_try_pop :: "tx_queue_state \<Rightarrow> can_frame option \<times> waker list \<times> tx_queue_state" where
  "tx_try_pop q = (let (frame, q) = tx_pop q in
     if frame \<noteq> None then (frame, tq_space_wakers q, q\<lparr>tq_space_wakers := []\<rparr>) else (None, [], q))"

section \<open>\<open>SubscriptionPort\<close>\<close>

text \<open>
  The port of a task over the transmit queue and the subscription at address \<open>a\<close>; \<open>others\<close> is
  what pump and other tasks do while it is suspended. Its error type is \<open>Infallible\<close>: it never
  returns an error.
\<close>

definition subscription_port ::
  "waker \<Rightarrow> nat \<Rightarrow> (can_bus \<times> tx_queue_state \<Rightarrow> can_bus \<times> tx_queue_state) \<Rightarrow> (can_bus \<times> tx_queue_state, unit) async_can" where
  "subscription_port me a others =
     \<lparr>poll_transmit = (\<lambda>f (b, q). let (r, q') = send_async_poll me f q in (map_option Inr r, b, q')),
      poll_receive = (\<lambda>(b, q). let (r, b') = on_sub a (recv_async_poll me) b in (map_option Inr r, b', q)),
      suspend = others, now_us = (\<lambda>_. 0)\<rparr>"

section \<open>The pump\<close>

datatype pump_error = PumpTransport can_error | TxStuck

text \<open>The 500 milliseconds of \<open>TX_STUCK_TIMEOUT\<close> in microseconds.\<close>

definition TX_STUCK_TIMEOUT :: nat where "TX_STUCK_TIMEOUT = 500000"

partial_function (option) pump_rx ::
  "'t can_ops \<Rightarrow> 't \<Rightarrow> can_bus \<Rightarrow> bool \<Rightarrow> ((pump_error + bool) \<times> 't \<times> can_bus) option" where
  "pump_rx ops t b busy =
     (case can_receive ops t of
        (Inr frame, t') \<Rightarrow> pump_rx ops t' (snd (publish frame b)) True
      | (Inl WouldBlock, t') \<Rightarrow> Some (Inr busy, t', b)
      | (Inl (OtherError e), t') \<Rightarrow> Some (Inl (PumpTransport e), t', b))"

text \<open>\<open>now\<close> reads the clock of the transport's world, \<open>sleep\<close> lets time pass in it.\<close>

partial_function (option) pump_transmit ::
  "'t can_ops \<Rightarrow> ('t \<Rightarrow> nat) \<Rightarrow> (nat \<Rightarrow> 't \<Rightarrow> 't) \<Rightarrow> nat \<Rightarrow> can_frame \<Rightarrow> 't \<Rightarrow> ((pump_error + unit) \<times> 't) option" where
  "pump_transmit ops now sleep deadline frame t =
     (case can_transmit ops t frame of
        (Inr _, t') \<Rightarrow> Some (Inr (), t')
      | (Inl WouldBlock, t') \<Rightarrow>
          if now t' < deadline then pump_transmit ops now sleep deadline frame (sleep 50 t')
          else Some (Inl TxStuck, t')
      | (Inl (OtherError e), t') \<Rightarrow> Some (Inl (PumpTransport e), t'))"

partial_function (option) pump_tx ::
  "'t can_ops \<Rightarrow> ('t \<Rightarrow> nat) \<Rightarrow> (nat \<Rightarrow> 't \<Rightarrow> 't) \<Rightarrow> 't \<Rightarrow> tx_queue_state \<Rightarrow> bool
   \<Rightarrow> ((pump_error + bool) \<times> 't \<times> tx_queue_state) option" where
  "pump_tx ops now sleep t q busy =
     (case tx_try_pop q of
        (None, _, q') \<Rightarrow> Some (Inr busy, t, q')
      | (Some frame, _, q') \<Rightarrow> do {
          (r, t') \<leftarrow> pump_transmit ops now sleep (now t + TX_STUCK_TIMEOUT) frame t;
          (case r of Inl e \<Rightarrow> Some (Inl e, t', q') | Inr _ \<Rightarrow> pump_tx ops now sleep t' q' True)
        })"

text \<open>
  \<open>run_pump\<close>; \<open>stop\<close> reads the stop flag in the world of the transport. Other threads use bus
  and queue between the operations of the pump; here the pump runs alone.
\<close>

partial_function (option) run_pump ::
  "'t can_ops \<Rightarrow> ('t \<Rightarrow> nat) \<Rightarrow> (nat \<Rightarrow> 't \<Rightarrow> 't) \<Rightarrow> ('t \<Rightarrow> bool) \<Rightarrow> nat \<Rightarrow> 't \<Rightarrow> can_bus \<Rightarrow> tx_queue_state
   \<Rightarrow> ((pump_error + unit) \<times> 't \<times> can_bus \<times> tx_queue_state) option" where
  "run_pump ops now sleep stop idle_sleep t b q =
     (if stop t then Some (Inr (), t, b, q)
      else do {
        (r, t, b) \<leftarrow> pump_rx ops t b False;
        (case r of
           Inl e \<Rightarrow> Some (Inl e, t, b, q)
         | Inr busy \<Rightarrow> do {
             (r, t, q) \<leftarrow> pump_tx ops now sleep t q busy;
             (case r of
                Inl e \<Rightarrow> Some (Inl e, t, b, q)
              | Inr busy \<Rightarrow> run_pump ops now sleep stop idle_sleep (if busy then t else sleep idle_sleep t) b q)
           })
      })"

section \<open>Publishing\<close>

definition delivered :: "can_frame \<Rightarrow> subscription \<Rightarrow> subscription" where
  "delivered frame s = (if accepts s frame then snd (sub_push frame s) else s)"

definition wf_bus :: "can_bus \<Rightarrow> bool" where
  "wf_bus b \<longleftrightarrow> distinct (cb_subs b) \<and> (\<forall>a \<in> dom (cb_live b). a \<in> set (cb_subs b))
     \<and> (\<forall>a \<in> set (cb_subs b) \<union> dom (cb_live b). a < cb_fresh b)
     \<and> (\<forall>s \<in> ran (cb_live b). 0 < sb_capacity s \<and> length (sb_queue s) \<le> sb_capacity s)"

lemma publish_retain_live:
  "distinct subs \<Longrightarrow> fst (publish_retain frame subs live wake) = filter (\<lambda>a. live a \<noteq> None) subs
   \<and> fst (snd (publish_retain frame subs live wake)) =
      (\<lambda>a. if a \<in> set subs then map_option (delivered frame) (live a) else live a)"
proof (induction subs arbitrary: live wake)
  case (Cons a subs)
  show ?case
  proof (cases "live a")
    case None
    then show ?thesis using Cons.IH [of live wake] Cons.prems by (auto simp: fun_eq_iff)
  next
    case (Some s)
    define ws where "ws = (if accepts s frame then fst (sub_push frame s) else [])"
    define L where "L = live(a \<mapsto> delivered frame s)"
    have p: "publish_retain frame (a # subs) live wake =
        (case publish_retain frame subs L (wake @ ws) of (kept, live', wake') \<Rightarrow> (a # kept, live', wake'))"
      using Some by (simp add: delivered_def Let_def case_prod_unfold L_def ws_def)
    have "filter (\<lambda>x. L x \<noteq> None) subs = filter (\<lambda>x. live x \<noteq> None) subs"
      using Cons.prems by (intro filter_cong) (auto simp: L_def)
    moreover have "(\<lambda>x. if x \<in> set subs then map_option (delivered frame) (L x) else L x)
        = (\<lambda>x. if x \<in> set (a # subs) then map_option (delivered frame) (live x) else live x)"
      using Cons.prems Some by (auto simp: L_def fun_eq_iff)
    ultimately show ?thesis unfolding p using Cons.IH [of L "wake @ ws"] Cons.prems Some
      by (simp add: case_prod_unfold)
  qed
qed simp

lemma publish_live: "wf_bus b \<Longrightarrow> cb_live (snd (publish frame b)) a = map_option (delivered frame) (cb_live b a)"
  using publish_retain_live [of "cb_subs b" frame "cb_live b" "[]"]
  by (cases "cb_live b a") (auto simp: publish_def case_prod_unfold wf_bus_def dom_def)

lemma delivered_fields:
  "sb_filter (delivered f s) = sb_filter s" "sb_capacity (delivered f s) = sb_capacity s"
  "accepts (delivered f s) = accepts s"
  by (auto simp: delivered_def sub_push_def push_enqueue_def push_take_def accepts_def Let_def fun_eq_iff split: overflow_policy.splits)

lemma delivered_length: "0 < sb_capacity s \<Longrightarrow> length (sb_queue s) \<le> sb_capacity s \<Longrightarrow> length (sb_queue (delivered f s)) \<le> sb_capacity s"
  by (auto simp: delivered_def sub_push_def push_enqueue_def push_take_def Let_def split: overflow_policy.splits)

lemma publish_wf: "wf_bus b \<Longrightarrow> wf_bus (snd (publish frame b))"
proof -
  assume wf: "wf_bus b"
  have s: "cb_subs (snd (publish frame b)) = filter (\<lambda>a. cb_live b a \<noteq> None) (cb_subs b)"
    "cb_fresh (snd (publish frame b)) = cb_fresh b"
    using publish_retain_live [of "cb_subs b" frame "cb_live b" "[]"] wf
    by (auto simp: publish_def case_prod_unfold wf_bus_def)
  have l: "cb_live (snd (publish frame b)) = map_option (delivered frame) \<circ> cb_live b"
    using publish_live [OF wf] by (auto simp: fun_eq_iff)
  show ?thesis using wf delivered_length delivered_fields(2)
    by (auto simp: wf_bus_def s l dom_def ran_def)
qed

section \<open>Sequences of operations\<close>

text \<open>
  The operations of all tasks, in the order in which they take the locks. A subscribe with
  capacity zero panics in its caller and leaves the bus as it is.
\<close>

datatype bus_op =
    BusPublish can_frame
  | BusSubscribe nat overflow_policy "(can_frame \<Rightarrow> bool) option"
  | BusTryRecv nat
  | BusDrop nat
  | BusCount

fun bus_step :: "bus_op \<Rightarrow> can_bus \<Rightarrow> (nat \<times> can_frame) list \<times> can_bus" where
  "bus_step (BusPublish f) b = ([], snd (publish f b))"
| "bus_step (BusSubscribe capacity policy flt) b =
     ([], case subscribe_with capacity policy flt b of None \<Rightarrow> b | Some (_, b') \<Rightarrow> b')"
| "bus_step (BusTryRecv a) b =
     (case on_sub a sub_try_recv b of (r, b') \<Rightarrow> (case r of None \<Rightarrow> [] | Some f \<Rightarrow> [(a, f)], b'))"
| "bus_step (BusDrop a) b = ([], drop_subscription a b)"
| "bus_step BusCount b = ([], snd (subscriber_count b))"

fun bus_run :: "bus_op list \<Rightarrow> can_bus \<Rightarrow> (nat \<times> can_frame) list \<times> can_bus" where
  "bus_run [] b = ([], b)"
| "bus_run (op # ops) b = (let (d, b) = bus_step op b; (ds, b) = bus_run ops b in (d @ ds, b))"

fun published :: "bus_op list \<Rightarrow> can_frame list" where
  "published [] = []"
| "published (BusPublish f # ops) = f # published ops"
| "published (_ # ops) = published ops"

definition received_by :: "nat \<Rightarrow> (nat \<times> can_frame) list \<Rightarrow> can_frame list" where
  "received_by a ds = map snd (filter (\<lambda>(x, _). x = a) ds)"

text \<open>
  From a subscription \<open>s0\<close> on: \<open>acc\<close> was accepted, \<open>rcv\<close> received, \<open>n\<close> frames were dropped.
\<close>

definition fifo :: "subscription \<Rightarrow> can_frame list \<Rightarrow> can_frame list \<Rightarrow> nat \<Rightarrow> subscription \<Rightarrow> bool" where
  "fifo s0 acc rcv n s \<longleftrightarrow> subseq (rcv @ sb_queue s) (sb_queue s0 @ acc)
     \<and> sb_overflow s = sb_overflow s0 + of_nat n \<and> accepts s = accepts s0
     \<and> length rcv + length (sb_queue s) + n = length (sb_queue s0) + length acc"

lemma fifo_delivered:
  assumes "fifo s0 acc rcv n s" and "0 < sb_capacity s"
  shows "\<exists>n'. fifo s0 (acc @ (if accepts s0 f then [f] else [])) rcv n' (delivered f s)"
proof (cases "accepts s0 f")
  case False
  then show ?thesis using assms by (auto simp: fifo_def delivered_def)
next
  case True
  have sub: "subseq (rcv @ sb_queue s) (sb_queue s0 @ acc)" using assms(1) by (simp add: fifo_def)
  then have app: "subseq (rcv @ sb_queue s @ [f]) (sb_queue s0 @ acc @ [f])"
    using list_emb_append_mono [OF sub, of "[f]" "[f]"] by simp
  show ?thesis
  proof (cases "length (sb_queue s) < sb_capacity s")
    case less: True
    then show ?thesis using assms True app
      by (intro exI [of _ n]) (auto simp: fifo_def delivered_def sub_push_def push_enqueue_def push_take_def accepts_def fun_eq_iff)
  next
    case full: False
    then obtain x q where q: "sb_queue s = x # q" using assms(2) by (cases "sb_queue s") auto
    have "subseq (rcv @ q @ [f]) (rcv @ sb_queue s @ [f])" unfolding q by (intro list_emb_append_mono) auto
    then have old: "subseq (rcv @ q @ [f]) (sb_queue s0 @ acc @ [f])" using app subseq_order.order_trans by blast
    have new: "subseq (rcv @ sb_queue s) (sb_queue s0 @ acc @ [f])"
      using sub list_emb_append_mono [OF sub, of "[]" "[f]"] by simp
    show ?thesis using assms True full old new q
      by (intro exI [of _ "Suc n"], cases "sb_policy s")
        (auto simp: fifo_def delivered_def sub_push_def push_enqueue_def push_take_def Let_def accepts_def fun_eq_iff)
  qed
qed

lemma fifo_recv: "fifo s0 acc rcv n s \<Longrightarrow> sb_queue s = f # q \<Longrightarrow> fifo s0 acc (rcv @ [f]) n (s\<lparr>sb_queue := q\<rparr>)"
  by (auto simp: fifo_def accepts_def fun_eq_iff)

lemma bus_step_wf: "wf_bus b \<Longrightarrow> wf_bus (snd (bus_step op b))"
proof (cases op)
  case (BusPublish f)
  then show "wf_bus b \<Longrightarrow> ?thesis" using publish_wf by simp
next
  case (BusTryRecv a)
  then show "wf_bus b \<Longrightarrow> ?thesis"
    by (force simp: on_sub_def sub_try_recv_def wf_bus_def ran_def split: option.splits list.splits)
qed (auto simp: subscribe_with_def drop_subscription_def subscriber_count_def wf_bus_def ran_def Let_def
    split: if_splits intro!: less_SucI)

lemma subscribe_live: "wf_bus b \<Longrightarrow> subscribe_with c p flt b = Some (x, b') \<Longrightarrow> cb_live b a = Some s \<Longrightarrow> cb_live b' a = Some s"
  by (auto simp: subscribe_with_def wf_bus_def Let_def split: if_splits)

lemma bus_step_fifo:
  assumes "wf_bus b" and "cb_live b a = Some s" and "op \<noteq> BusDrop a" and "fifo s0 acc rcv n s"
  shows "\<exists>s' n'. cb_live (snd (bus_step op b)) a = Some s'
    \<and> fifo s0 (acc @ filter (accepts s0) (published [op])) (rcv @ received_by a (fst (bus_step op b))) n' s'"
proof (cases op)
  case (BusPublish f)
  have "0 < sb_capacity s" using assms(1,2) by (auto simp: wf_bus_def ran_def)
  then show ?thesis using fifo_delivered [OF assms(4), of f] publish_live [OF assms(1), of f a] assms(2) BusPublish
    by (auto simp: received_by_def)
next
  case (BusSubscribe c p flt)
  then show ?thesis using assms subscribe_live [OF assms(1)]
    by (auto simp: received_by_def split: option.splits)
next
  case (BusTryRecv x)
  show ?thesis
  proof (cases "x = a")
    case True
    then show ?thesis using BusTryRecv assms(2,4) fifo_recv [OF assms(4)]
      by (cases "sb_queue s") (auto simp: on_sub_def sub_try_recv_def received_by_def)
  next
    case False
    then show ?thesis using BusTryRecv assms(2,4)
      by (auto simp: on_sub_def sub_try_recv_def received_by_def split: option.splits list.splits)
  qed
qed (use assms in \<open>auto simp: drop_subscription_def subscriber_count_def Let_def received_by_def\<close>)

lemma published_append [simp]: "published (xs @ ys) = published xs @ published ys"
  by (induction xs rule: published.induct) simp_all

lemma bus_run_fifo:
  assumes "wf_bus b" and "cb_live b a = Some s" and "BusDrop a \<notin> set ops" and "fifo s0 acc rcv n s"
  shows "\<exists>s' n'. cb_live (snd (bus_run ops b)) a = Some s'
    \<and> fifo s0 (acc @ filter (accepts s0) (published ops)) (rcv @ received_by a (fst (bus_run ops b))) n' s'"
  using assms
proof (induction ops arbitrary: b s acc rcv n)
  case Nil
  then show ?case by (auto simp: received_by_def)
next
  case (Cons op ops)
  obtain d b1 where st: "bus_step op b = (d, b1)" by force
  have wf: "wf_bus b1" using bus_step_wf [OF Cons.prems(1), of op] st by simp
  obtain s1 n1 where s1: "cb_live b1 a = Some s1"
    "fifo s0 (acc @ filter (accepts s0) (published [op])) (rcv @ received_by a d) n1 s1"
    using bus_step_fifo [OF Cons.prems(1,2) _ Cons.prems(4), of op] Cons.prems(3) st by auto
  have "published (op # ops) = published [op] @ published ops" using published_append [of "[op]" ops] by simp
  moreover have "received_by a (d @ ds) = received_by a d @ received_by a ds" for ds by (simp add: received_by_def)
  ultimately show ?case using Cons.IH [OF wf s1(1) _ s1(2)] Cons.prems(3) st by (auto simp: case_prod_unfold Let_def)
qed

section \<open>Properties of the bus\<close>

text \<open>
  C10. Every subscriber gets the frames it accepts in publish order: whatever the other tasks do
  with the bus, as long as a subscription is not dropped, what its reader has received followed by
  what is still queued is a subsequence of what was queued before followed by the published frames
  that pass its filter; the overflow counter counts exactly the missing ones, so that nothing is
  missing when it has not moved.
\<close>

theorem bus_subscriber_fifo:
  assumes "wf_bus b" and "cb_live b a = Some s" and "BusDrop a \<notin> set ops"
  shows "\<exists>s' n. cb_live (snd (bus_run ops b)) a = Some s' \<and> sb_overflow s' = sb_overflow s + of_nat n
    \<and> (let got = received_by a (fst (bus_run ops b)) @ sb_queue s';
           due = sb_queue s @ filter (accepts s) (published ops)
       in subseq got due \<and> length got + n = length due \<and> (n = 0 \<longrightarrow> got = due))"
proof -
  have "fifo s [] [] 0 s" by (simp add: fifo_def)
  from bus_run_fifo [OF assms this] obtain s' n where
    "cb_live (snd (bus_run ops b)) a = Some s'"
    "fifo s (filter (accepts s) (published ops)) (received_by a (fst (bus_run ops b))) n s'" by auto
  then show ?thesis using subseq_same_length by (fastforce simp: fifo_def Let_def)
qed

definition demo_bus :: can_bus where
  "demo_bus = snd (bus_step (BusSubscribe 2 DropOldest None) shared_can_bus_new)"

definition demo_bus_frame :: "u8 \<Rightarrow> can_frame" where
  "demo_bus_frame x = \<lparr>cf_id = 0x181, cf_dlc = 1, cf_data = [x, 0, 0, 0, 0, 0, 0, 0]\<rparr>"

definition demo_bus_ops :: "bus_op list" where
  "demo_bus_ops = [BusSubscribe 1 DropNewest None, BusPublish (demo_bus_frame 1), BusPublish (demo_bus_frame 2),
     BusDrop 1, BusPublish (demo_bus_frame 3), BusTryRecv 0, BusCount]"

theorem bus_subscriber_fifo_witness:
  "\<exists>s' n. cb_live (snd (bus_run demo_bus_ops demo_bus)) 0 = Some s'
     \<and> subseq (received_by 0 (fst (bus_run demo_bus_ops demo_bus)) @ sb_queue s') (map demo_bus_frame [1, 2, 3])
     \<and> sb_overflow s' = of_nat n \<and> length (received_by 0 (fst (bus_run demo_bus_ops demo_bus)) @ sb_queue s') + n = 3"
proof -
  let ?s = "\<lparr>sb_queue = [], sb_rx_wakers = [], sb_capacity = 2, sb_policy = DropOldest, sb_overflow = 0, sb_filter = None\<rparr>"
  have "wf_bus shared_can_bus_new" by (simp add: wf_bus_def shared_can_bus_new_def)
  then have wf: "wf_bus demo_bus" unfolding demo_bus_def by (rule bus_step_wf)
  have l: "cb_live demo_bus 0 = Some ?s"
    by (simp add: demo_bus_def subscribe_with_def shared_can_bus_new_def Let_def)
  have p: "published demo_bus_ops = map demo_bus_frame [1, 2, 3]" by (simp add: demo_bus_ops_def)
  have "filter (accepts ?s) (published demo_bus_ops) = map demo_bus_frame [1, 2, 3]" unfolding p by (simp add: accepts_def)
  moreover have "BusDrop 0 \<notin> set demo_bus_ops" by (simp add: demo_bus_ops_def)
  from bus_subscriber_fifo [OF wf l this] obtain s' n where
    "cb_live (snd (bus_run demo_bus_ops demo_bus)) 0 = Some s'" "sb_overflow s' = of_nat n"
    "subseq (received_by 0 (fst (bus_run demo_bus_ops demo_bus)) @ sb_queue s') (filter (accepts ?s) (published demo_bus_ops))"
    "length (received_by 0 (fst (bus_run demo_bus_ops demo_bus)) @ sb_queue s') + n = length (filter (accepts ?s) (published demo_bus_ops))"
    by (auto simp: Let_def)
  ultimately show ?thesis by (intro exI [of _ s'] exI [of _ n]) (simp only: list.map list.size, simp)
qed

end
