(* ===== verification/Can_Pump.thy ===== *)
theory Can_Pump
  imports Can_Bus
begin

text \<open>
  The pump of \<open>canopen-core/src/bus.rs\<close> over a transport with a clock: what a pass publishes and
  sends, and that the pump returns.
\<close>

section \<open>Transports with a clock\<close>

locale timed_transport = can_transport ops backlog sent inv
  for ops :: "'t can_ops" and backlog :: "'t \<Rightarrow> can_frame list" and sent :: "'t \<Rightarrow> can_frame list" and inv :: "'t \<Rightarrow> bool" +
  fixes now :: "'t \<Rightarrow> nat" and sleep :: "nat \<Rightarrow> 't \<Rightarrow> 't"
  assumes receive_now: "inv t \<Longrightarrow> can_receive ops t = (r, t') \<Longrightarrow> now t \<le> now t'"
    and transmit_now: "inv t \<Longrightarrow> can_transmit ops t f = (r', t') \<Longrightarrow> now t \<le> now t'"
    and sleep_passes: "inv t \<Longrightarrow> inv (sleep d t) \<and> backlog (sleep d t) = backlog t \<and> sent (sleep d t) = sent t
      \<and> now t + d \<le> now (sleep d t)"
begin

text \<open>The receive half of a pass publishes the backlog in order and empties it.\<close>

lemma pump_rx_publishes:
  "inv t \<Longrightarrow> \<exists>r t'. pump_rx ops t b busy = Some (r, t', foldl (\<lambda>b f. snd (publish f b)) b (backlog t))
    \<and> inv t' \<and> backlog t' = [] \<and> sent t' = sent t \<and> now t \<le> now t'
    \<and> (\<forall>k. r = Inr k \<longrightarrow> k = (busy \<or> backlog t \<noteq> []))"
proof (induction "backlog t" arbitrary: t b busy)
  case Nil
  then obtain e t' where "can_receive ops t = (Inl e, t')" "inv t'" "backlog t' = []" "sent t' = sent t"
    using receive_empty [of t] by metis
  then show ?case using Nil receive_now [of t] by (cases e) (auto simp: pump_rx.simps [of ops t])
next
  case (Cons f fs)
  then obtain t' where t': "can_receive ops t = (Inr f, t')" "inv t'" "backlog t' = fs" "sent t' = sent t"
    using receive_frame [of t f fs] by metis
  moreover have "now t \<le> now t'" using receive_now [OF Cons.prems t'(1)] .
  moreover have "pump_rx ops t b busy = pump_rx ops t' (snd (publish f b)) True"
    using t'(1) by (subst pump_rx.simps) simp
  moreover have "backlog t = f # backlog t'" using Cons.hyps(2) t'(3) by simp
  ultimately show ?case using Cons.hyps(1) [of t' "snd (publish f b)" True] by fastforce
qed

text \<open>
  A frame is sent, or the transport reports an error, or the pump gives up after the time-out; the
  retries end because every one of them sleeps.
\<close>

lemma pump_transmit_returns:
  "inv t \<Longrightarrow> \<exists>r t'. pump_transmit ops now sleep deadline f t = Some (r, t')
    \<and> inv t' \<and> backlog t' = backlog t \<and> now t \<le> now t'
    \<and> sent t' = (if is_ok r then sent t @ [f] else sent t) \<and> (r = Inl TxStuck \<longrightarrow> deadline \<le> now t')"
proof (induction "deadline - now t" arbitrary: t rule: less_induct)
  case less
  obtain r t1 where tx: "can_transmit ops t f = (r, t1)" by force
  note s = transmit_step [OF less.prems tx] and n = transmit_now [OF less.prems tx]
  show ?case
  proof (cases "r = Inl WouldBlock \<and> now t1 < deadline")
    case True
    let ?t = "sleep 50 t1"
    have sl: "inv ?t" "backlog ?t = backlog t" "sent ?t = sent t" "now t1 + 50 \<le> now ?t"
      using sleep_passes [of t1 50] s True by auto
    have p: "pump_transmit ops now sleep deadline f t = pump_transmit ops now sleep deadline f ?t"
      using tx True by (subst pump_transmit.simps) simp
    have "deadline - now ?t < deadline - now t" using sl(4) n True by linarith
    from less.hyps [OF this sl(1)] show ?thesis unfolding p using sl n by (auto intro: order_trans)
  next
    case False
    then consider x where "r = Inr x" | "r = Inl WouldBlock" "deadline \<le> now t1" | e where "r = Inl (OtherError e)"
      by (metis nb_error.exhaust not_less old.sum.exhaust)
    then show ?thesis using tx s n by cases (subst pump_transmit.simps, simp)+
  qed
qed

text \<open>The transmit half sends the queue in order; an error loses the frame in hand only.\<close>

lemma pump_tx_sends:
  "inv t \<Longrightarrow> \<exists>r t' q' k. pump_tx ops now sleep t q busy = Some (r, t', q')
    \<and> inv t' \<and> backlog t' = backlog t \<and> now t \<le> now t' \<and> sent t' = sent t @ take k (tq_queue q)
    \<and> (case r of Inr c \<Rightarrow> k = length (tq_queue q) \<and> tq_queue q' = [] \<and> c = (busy \<or> tq_queue q \<noteq> [])
       | Inl e \<Rightarrow> k < length (tq_queue q) \<and> tq_queue q' = drop (Suc k) (tq_queue q))"
proof (induction "tq_queue q" arbitrary: t q busy)
  case Nil
  then show ?case
    by (subst pump_tx.simps) (auto simp: tx_try_pop_def tx_pop_def intro!: exI [of _ 0] split: list.split)
next
  case (Cons f fs)
  obtain q1 ws where q1: "tx_try_pop q = (Some f, ws, q1)" "tq_queue q1 = fs"
  proof (rule that)
    show "tx_try_pop q = (Some f, tq_space_wakers q, q\<lparr>tq_queue := fs, tq_space_wakers := []\<rparr>)"
      by (simp add: tx_try_pop_def tx_pop_def flip: Cons.hyps(2))
  qed simp
  obtain r t1 where r: "pump_transmit ops now sleep (now t + TX_STUCK_TIMEOUT) f t = Some (r, t1)" "inv t1"
    "backlog t1 = backlog t" "now t \<le> now t1" "sent t1 = (if is_ok r then sent t @ [f] else sent t)"
    using pump_transmit_returns [OF Cons.prems] by blast
  show ?case
  proof (cases r)
    case (Inl e)
    then show ?thesis using r q1 Cons.hyps(2)
      by (subst pump_tx.simps) (auto intro!: exI [of _ 0] simp flip: Cons.hyps(2))
  next
    case (Inr u)
    obtain r' t' q' k where i: "pump_tx ops now sleep t1 q1 True = Some (r', t', q')" "inv t'" "backlog t' = backlog t1"
      "now t1 \<le> now t'" "sent t' = sent t1 @ take k (tq_queue q1)"
      "case r' of Inr c \<Rightarrow> k = length (tq_queue q1) \<and> tq_queue q' = [] \<and> c = (True \<or> tq_queue q1 \<noteq> [])
       | Inl e \<Rightarrow> k < length (tq_queue q1) \<and> tq_queue q' = drop (Suc k) (tq_queue q1)"
      using Cons.hyps(1) [OF q1(2) [symmetric] r(2)] by blast
    have p: "pump_tx ops now sleep t q busy = pump_tx ops now sleep t1 q1 True"
      using q1(1) r(1) Inr by (subst pump_tx.simps) simp
    show ?thesis unfolding p using i r Inr q1(2)
      by (intro exI [of _ r'] exI [of _ t'] exI [of _ q'] exI [of _ "Suc k"])
        (auto simp flip: Cons.hyps(2) split: sum.splits)
  qed
qed

text \<open>Once there is nothing to do, the pump sleeps until it is stopped.\<close>

lemma run_pump_idle:
  assumes "0 < idle" and "\<And>t. stop t \<longleftrightarrow> T \<le> now t"
  shows "inv t \<Longrightarrow> backlog t = [] \<Longrightarrow> tq_queue q = [] \<Longrightarrow>
    \<exists>r t' q'. run_pump ops now sleep stop idle t b q = Some (r, t', b, q') \<and> tq_queue q' = []
      \<and> inv t' \<and> backlog t' = [] \<and> sent t' = sent t \<and> (r = Inr () \<longrightarrow> T \<le> now t')"
proof (induction "T - now t" arbitrary: t q rule: less_induct)
  case less
  show ?case
  proof (cases "stop t")
    case True
    then show ?thesis using less.prems assms(2) by (subst run_pump.simps) simp
  next
    case False
    obtain r t1 where rx: "pump_rx ops t b False = Some (r, t1, b)" "inv t1" "backlog t1 = []" "sent t1 = sent t"
      "now t \<le> now t1" "\<forall>k. r = Inr k \<longrightarrow> \<not> k"
      using pump_rx_publishes [OF less.prems(1), of b False] less.prems(2) by auto
    show ?thesis
    proof (cases r)
      case (Inl e)
      then show ?thesis using rx False less.prems(3) by (subst run_pump.simps) simp
    next
      case (Inr k)
      have tx: "pump_tx ops now sleep t1 q k = Some (Inr k, t1, q)"
        using less.prems(3) by (subst pump_tx.simps) (simp add: tx_try_pop_def tx_pop_def)
      let ?t = "sleep idle t1"
      have sl: "inv ?t" "backlog ?t = []" "sent ?t = sent t" "now t1 + idle \<le> now ?t"
        using sleep_passes [OF rx(2), of idle] rx by auto
      have "\<not> k" using rx(6) Inr by simp
      then have p: "run_pump ops now sleep stop idle t b q = run_pump ops now sleep stop idle ?t b q"
        using rx(1) tx Inr False by (subst run_pump.simps) simp
      have "T - now ?t < T - now t" using sl(4) rx(5) False assms by auto
      from less.hyps [OF this sl(1,2) less.prems(3)] show ?thesis unfolding p using sl(3) by simp
    qed
  qed
qed

lemma run_pump_returns:
  assumes "inv t" and "0 < idle" and "\<And>t. stop t \<longleftrightarrow> T \<le> now t" and "\<not> stop t"
  shows "\<exists>r t' q' k. run_pump ops now sleep stop idle t b q
        = Some (r, t', foldl (\<lambda>b f. snd (publish f b)) b (backlog t), q')
    \<and> backlog t' = [] \<and> sent t' = sent t @ take k (tq_queue q)
    \<and> (r = Inr () \<longrightarrow> T \<le> now t' \<and> sent t' = sent t @ tq_queue q \<and> tq_queue q' = [])"
proof -
  let ?b = "foldl (\<lambda>b f. snd (publish f b)) b (backlog t)"
  obtain r t1 where rx: "pump_rx ops t b False = Some (r, t1, ?b)" "inv t1" "backlog t1 = []" "sent t1 = sent t"
    using pump_rx_publishes [OF assms(1), of b False] by blast
  show ?thesis
  proof (cases r)
    case (Inl e)
    then show ?thesis using rx assms(4) by (subst run_pump.simps) (auto intro!: exI [of _ 0])
  next
    case (Inr c)
    obtain r2 t2 q2 k where tx: "pump_tx ops now sleep t1 q c = Some (r2, t2, q2)" "inv t2" "backlog t2 = []"
      "sent t2 = sent t @ take k (tq_queue q)" "\<forall>c. r2 = Inr c \<longrightarrow> k = length (tq_queue q) \<and> tq_queue q2 = []"
      using pump_tx_sends [OF rx(2), of q c] rx(3,4) by (fastforce split: sum.splits)
    show ?thesis
    proof (cases r2)
      case (Inl e)
      then show ?thesis using rx tx Inr assms(4) by (subst run_pump.simps) auto
    next
      case c2: (Inr c2)
      let ?t = "if c2 then t2 else sleep idle t2"
      have p: "run_pump ops now sleep stop idle t b q = run_pump ops now sleep stop idle ?t ?b q2"
        using rx(1) tx(1) Inr c2 assms(4) by (subst run_pump.simps) simp
      have "inv ?t" "backlog ?t = []" "sent ?t = sent t @ tq_queue q" "tq_queue q2 = []"
        using tx sleep_passes [OF tx(2), of idle] c2 by auto
      then show ?thesis unfolding p using run_pump_idle [OF assms(2,3), of ?t q2 ?b]
        by (fastforce intro: exI [of _ "length (tq_queue q)"])
    qed
  qed
qed

end

text \<open>The mailbox with a clock, where sleeping moves the clock.\<close>

interpretation ticking_pump: timed_transport "ticking_ops TX" "\<lambda>(m, t). rx_queue m" "\<lambda>(m, t). tx_queue m"
    "\<lambda>(m, t). mailbox_inv TX m" snd "\<lambda>d (m, t). (m, t + d)"
  for TX :: nat
  by unfold_locales
    (auto simp: ticking_ops_def mailbox_transmit_def mailbox_receive_def mailbox_inv_def split: if_splits list.splits)

section \<open>Properties of the pump\<close>



end
