(* ===== verification/Bus_Wakeup.thy ===== *)
theory Bus_Wakeup
  imports Can_Bus
begin

text \<open>
  Wake-ups on the shared bus (\<open>canopen-core/src/bus.rs\<close>). A task that waits for a queue polls in
  three critical sections: it tries, registers its waker, and tries again. The other side changes
  the queue, takes the registered wakers, and wakes them, again in separate sections. The sections
  of all tasks interleave arbitrarily; no task is left asleep while it could go on.
\<close>

section \<open>Waiting tasks\<close>

text \<open>Between polls a task is idle or suspended; a woken task is notified, also during a poll.\<close>

datatype task_phase = TaskIdle | TaskTried | TaskRegistered | TaskSuspended

text \<open>A producer that has changed the queue, then one that holds the wakers it still has to wake.\<close>

datatype producer = Changed | Holding "waker list"

record 's wait_state =
  wt_res :: 's
  wt_phase :: "waker \<Rightarrow> task_phase"
  wt_notified :: "waker \<Rightarrow> bool"
  wt_producers :: "producer list"

definition wait_start :: "'s \<Rightarrow> 's wait_state" where
  "wait_start s = \<lparr>wt_res = s, wt_phase = (\<lambda>_. TaskIdle), wt_notified = (\<lambda>_. False), wt_producers = []\<rparr>"

text \<open>The producers' own steps: take the registered wakers, wake them one by one.\<close>

inductive wake_step :: "('s \<Rightarrow> waker list) \<Rightarrow> (waker list \<Rightarrow> 's \<Rightarrow> 's) \<Rightarrow> 's wait_state \<Rightarrow> 's wait_state \<Rightarrow> bool"
  for get :: "'s \<Rightarrow> waker list" and put :: "waker list \<Rightarrow> 's \<Rightarrow> 's" where
  take_wakers: "wt_producers c = ps @ Changed # qs \<Longrightarrow>
    wake_step get put c (c\<lparr>wt_res := put [] (wt_res c), wt_producers := ps @ Holding (get (wt_res c)) # qs\<rparr>)"
| wake: "wt_producers c = ps @ Holding (w # ws) # qs \<Longrightarrow>
    wake_step get put c (c\<lparr>wt_notified := (wt_notified c)(w := True), wt_producers := ps @ Holding ws # qs\<rparr>)"

text \<open>
  All steps. \<open>attempt t s\<close> is the attempt of task \<open>t\<close> on the queue, \<open>produce s s' sig\<close> a change by
  somebody else, with \<open>sig\<close> when it goes on to take the wakers.
\<close>

inductive wait_step ::
  "(waker \<Rightarrow> 's \<Rightarrow> 's option) \<Rightarrow> ('s \<Rightarrow> 's \<Rightarrow> bool \<Rightarrow> bool) \<Rightarrow> ('s \<Rightarrow> waker list) \<Rightarrow> (waker list \<Rightarrow> 's \<Rightarrow> 's)
   \<Rightarrow> 's wait_state \<Rightarrow> 's wait_state \<Rightarrow> bool"
  for attempt :: "waker \<Rightarrow> 's \<Rightarrow> 's option" and produce :: "'s \<Rightarrow> 's \<Rightarrow> bool \<Rightarrow> bool"
    and get :: "'s \<Rightarrow> waker list" and put :: "waker list \<Rightarrow> 's \<Rightarrow> 's" where
  poll_ok: "wt_phase c t \<in> {TaskIdle, TaskSuspended} \<Longrightarrow> attempt t (wt_res c) = Some s' \<Longrightarrow>
    wait_step attempt produce get put c
      (c\<lparr>wt_res := s', wt_phase := (wt_phase c)(t := TaskIdle), wt_notified := (wt_notified c)(t := False)\<rparr>)"
| poll_wait: "wt_phase c t \<in> {TaskIdle, TaskSuspended} \<Longrightarrow> attempt t (wt_res c) = None \<Longrightarrow>
    wait_step attempt produce get put c
      (c\<lparr>wt_phase := (wt_phase c)(t := TaskTried), wt_notified := (wt_notified c)(t := False)\<rparr>)"
| register: "wt_phase c t = TaskTried \<Longrightarrow>
    wait_step attempt produce get put c
      (c\<lparr>wt_res := put (waker_register (get (wt_res c)) t) (wt_res c), wt_phase := (wt_phase c)(t := TaskRegistered)\<rparr>)"
| recheck_ok: "wt_phase c t = TaskRegistered \<Longrightarrow> attempt t (wt_res c) = Some s' \<Longrightarrow>
    wait_step attempt produce get put c (c\<lparr>wt_res := s', wt_phase := (wt_phase c)(t := TaskIdle)\<rparr>)"
| recheck_wait: "wt_phase c t = TaskRegistered \<Longrightarrow> attempt t (wt_res c) = None \<Longrightarrow>
    wait_step attempt produce get put c (c\<lparr>wt_phase := (wt_phase c)(t := TaskSuspended)\<rparr>)"
| cancel: "wait_step attempt produce get put c (c\<lparr>wt_phase := (wt_phase c)(t := TaskIdle)\<rparr>)"
| change: "produce (wt_res c) s' True \<Longrightarrow>
    wait_step attempt produce get put c (c\<lparr>wt_res := s', wt_producers := wt_producers c @ [Changed]\<rparr>)"
| change_silent: "produce (wt_res c) s' False \<Longrightarrow> wait_step attempt produce get put c (c\<lparr>wt_res := s'\<rparr>)"
| producer: "wake_step get put c c' \<Longrightarrow> wait_step attempt produce get put c c'"

inductive_cases wake_stepE: "wake_step get put c c'"

section \<open>The contract of a queue with waiters\<close>

text \<open>
  Wakers are apart from the contents; a change that does not signal, and an attempt of another
  task, make nothing possible that was not possible before.
\<close>

locale wait_queue =
  fixes attempt :: "waker \<Rightarrow> 's \<Rightarrow> 's option" and produce :: "'s \<Rightarrow> 's \<Rightarrow> bool \<Rightarrow> bool"
    and get :: "'s \<Rightarrow> waker list" and put :: "waker list \<Rightarrow> 's \<Rightarrow> 's"
  assumes get_put: "get (put ws s) = ws"
    and attempt_put: "attempt t (put ws s) = None \<longleftrightarrow> attempt t s = None"
    and attempt_get: "attempt t s = Some s' \<Longrightarrow> get s' = get s"
    and attempt_other: "attempt t s = Some s' \<Longrightarrow> attempt t' s = None \<Longrightarrow> attempt t' s' = None"
    and produce_get: "produce s s' b \<Longrightarrow> get s' = get s"
    and produce_silent: "produce s s' False \<Longrightarrow> attempt t s = None \<Longrightarrow> attempt t s' = None"
begin

definition held :: "'s wait_state \<Rightarrow> waker \<Rightarrow> bool" where
  "held c t \<longleftrightarrow> wt_notified c t \<or> (\<exists>ws. Holding ws \<in> set (wt_producers c) \<and> t \<in> set ws)"

definition wait_inv :: "'s wait_state \<Rightarrow> bool" where
  "wait_inv c \<longleftrightarrow> (\<forall>t. wt_phase c t \<in> {TaskRegistered, TaskSuspended} \<longrightarrow> t \<in> set (get (wt_res c)) \<or> held c t)
    \<and> (\<forall>t. wt_phase c t = TaskSuspended \<and> attempt t (wt_res c) \<noteq> None \<longrightarrow>
        held c t \<or> t \<in> set (get (wt_res c)) \<and> Changed \<in> set (wt_producers c))"

lemma attempt_was: "attempt t s = Some s' \<Longrightarrow> attempt t' s' = Some y \<Longrightarrow> \<exists>y. attempt t' s = Some y"
  using attempt_other [of t s s' t'] by (cases "attempt t' s") auto

lemma produce_was: "produce s s' False \<Longrightarrow> attempt t s' = Some y \<Longrightarrow> \<exists>y. attempt t s = Some y"
  using produce_silent [of s s' t] by (cases "attempt t s") auto

lemma wait_inv_start: "wait_inv (wait_start s)"
  by (simp add: wait_inv_def wait_start_def)

lemma held_take:
  assumes "wt_producers c = ps @ Changed # qs"
  shows "held (c\<lparr>wt_res := s, wt_producers := ps @ Holding ws # qs\<rparr>) t \<longleftrightarrow> held c t \<or> t \<in> set ws"
  using assms by (auto simp: held_def)

lemma held_wake:
  assumes "wt_producers c = ps @ Holding (w # ws) # qs"
  shows "held (c\<lparr>wt_notified := (wt_notified c)(w := True), wt_producers := ps @ Holding ws # qs\<rparr>) t \<longleftrightarrow> held c t"
  using assms by (auto simp: held_def)

lemma wake_step_inv: "wake_step get put c c' \<Longrightarrow> wait_inv c \<Longrightarrow> wait_inv c'"
proof (erule wake_stepE)
  fix ps qs
  assume p: "wt_producers c = ps @ Changed # qs" and i: "wait_inv c"
    and c': "c' = c\<lparr>wt_res := put [] (wt_res c), wt_producers := ps @ Holding (get (wt_res c)) # qs\<rparr>"
  show "wait_inv c'" using i unfolding c' wait_inv_def by (auto simp: held_take [OF p] get_put attempt_put)
next
  fix ps w ws qs
  assume p: "wt_producers c = ps @ Holding (w # ws) # qs" and i: "wait_inv c"
    and c': "c' = c\<lparr>wt_notified := (wt_notified c)(w := True), wt_producers := ps @ Holding ws # qs\<rparr>"
  show "wait_inv c'" using i unfolding c' wait_inv_def by (auto simp: held_wake [OF p] p)
qed

lemma wait_step_inv: "wait_step attempt produce get put c c' \<Longrightarrow> wait_inv c \<Longrightarrow> wait_inv c'"
proof (induction rule: wait_step.induct)
  case (poll_ok c t s')
  then show ?case using attempt_get [OF poll_ok(2)] attempt_was [OF poll_ok(2)]
    by (fastforce simp: wait_inv_def held_def)
next
  case (recheck_ok c t s')
  then show ?case using attempt_get [OF recheck_ok(2)] attempt_was [OF recheck_ok(2)]
    by (fastforce simp: wait_inv_def held_def)
next
  case (register c t)
  then show ?case by (auto simp: wait_inv_def held_def get_put attempt_put waker_register_def)
next
  case (change c s')
  then show ?case using produce_get [OF change(1)] by (auto simp: wait_inv_def held_def)
next
  case (change_silent c s')
  then show ?case using produce_get [OF change_silent(1)] produce_was [OF change_silent(1)]
    by (fastforce simp: wait_inv_def held_def)
next
  case (producer c c')
  then show ?case using wake_step_inv by blast
qed (auto simp: wait_inv_def held_def)

lemma reachable_inv: "(wait_step attempt produce get put)\<^sup>*\<^sup>* (wait_start s) c \<Longrightarrow> wait_inv c"
  by (induction rule: rtranclp_induct) (simp_all add: wait_inv_start wait_step_inv)

lemma holding_wakes:
  "wt_producers c = ps @ Holding ws # qs \<Longrightarrow> t \<in> set ws \<Longrightarrow>
   \<exists>c'. (wake_step get put)\<^sup>*\<^sup>* c c' \<and> wt_notified c' t"
proof (induction ws arbitrary: c)
  case (Cons w ws)
  define c1 where "c1 = c\<lparr>wt_notified := (wt_notified c)(w := True), wt_producers := ps @ Holding ws # qs\<rparr>"
  have s: "wake_step get put c c1" unfolding c1_def by (rule wake_step.wake [OF Cons.prems(1)])
  show ?case
  proof (cases "t = w")
    case True
    then have "wt_notified c1 t" by (simp add: c1_def)
    then show ?thesis using s by blast
  next
    case False
    then have "wt_producers c1 = ps @ Holding ws # qs" "t \<in> set ws" using Cons.prems(2) by (simp_all add: c1_def)
    from Cons.IH [OF this] s show ?thesis by (meson converse_rtranclp_into_rtranclp)
  qed
qed simp

lemma no_lost_wakeup:
  assumes "(wait_step attempt produce get put)\<^sup>*\<^sup>* (wait_start s) c" and "wt_phase c t = TaskSuspended"
    and "attempt t (wt_res c) \<noteq> None"
  shows "\<exists>c'. (wake_step get put)\<^sup>*\<^sup>* c c' \<and> wt_notified c' t"
proof -
  from reachable_inv [OF assms(1)] assms(2,3) consider "wt_notified c t"
    | ws where "Holding ws \<in> set (wt_producers c)" "t \<in> set ws"
    | "t \<in> set (get (wt_res c))" "Changed \<in> set (wt_producers c)"
    by (auto simp: wait_inv_def held_def)
  then show ?thesis
  proof cases
    case 1
    then show ?thesis by blast
  next
    case 2
    then show ?thesis using holding_wakes by (metis split_list)
  next
    case 3
    then obtain ps qs where p: "wt_producers c = ps @ Changed # qs" by (meson split_list)
    define c1 where "c1 = c\<lparr>wt_res := put [] (wt_res c), wt_producers := ps @ Holding (get (wt_res c)) # qs\<rparr>"
    have "wake_step get put c c1" unfolding c1_def by (rule wake_step.take_wakers [OF p])
    moreover have "wt_producers c1 = ps @ Holding (get (wt_res c)) # qs" by (simp add: c1_def)
    ultimately show ?thesis using holding_wakes 3(1) by (meson converse_rtranclp_into_rtranclp)
  qed
qed

end

section \<open>Receivers of a subscription\<close>

definition rx_attempt :: "waker \<Rightarrow> subscription \<Rightarrow> subscription option" where
  "rx_attempt t s = (case sub_try_recv s of (None, _) \<Rightarrow> None | (Some _, s') \<Rightarrow> Some s')"

text \<open>What others do with the subscription: publish to it, receive from it without waiting, read the counter.\<close>

definition rx_produce :: "subscription \<Rightarrow> subscription \<Rightarrow> bool \<Rightarrow> bool" where
  "rx_produce s s' b \<longleftrightarrow> (\<exists>f. push_enqueue f s = (b, s')) \<or> (\<exists>f. sub_try_recv s = (Some f, s') \<and> \<not> b)
     \<or> take_overflow_count s = (sb_overflow s, s') \<and> \<not> b"

interpretation rx_wait: wait_queue rx_attempt rx_produce sb_rx_wakers "\<lambda>ws s. s\<lparr>sb_rx_wakers := ws\<rparr>"
  by unfold_locales
    (auto simp: rx_attempt_def rx_produce_def sub_try_recv_def push_enqueue_def take_overflow_count_def Let_def
      split: list.splits if_splits overflow_policy.splits)

section \<open>Senders to the transmit queue\<close>

definition tx_attempt :: "(waker \<Rightarrow> can_frame) \<Rightarrow> waker \<Rightarrow> tx_queue_state \<Rightarrow> tx_queue_state option" where
  "tx_attempt frame t q = (case tx_try_send (frame t) q of (False, _) \<Rightarrow> None | (True, q') \<Rightarrow> Some q')"

text \<open>The pump pops; blocking senders fill the queue.\<close>

definition tx_produce :: "tx_queue_state \<Rightarrow> tx_queue_state \<Rightarrow> bool \<Rightarrow> bool" where
  "tx_produce q q' b \<longleftrightarrow> (\<exists>f. tx_pop q = (Some f, q') \<and> b) \<or> (\<exists>f. tx_try_send f q = (True, q') \<and> \<not> b)"

interpretation tx_wait: wait_queue "tx_attempt frame" tx_produce tq_space_wakers "\<lambda>ws q. q\<lparr>tq_space_wakers := ws\<rparr>"
  for frame
  by unfold_locales
    (auto simp: tx_attempt_def tx_produce_def tx_try_send_def tx_pop_def split: list.splits if_splits)

section \<open>Properties of the wake-ups\<close>

abbreviation rx_step :: "subscription wait_state \<Rightarrow> subscription wait_state \<Rightarrow> bool" where
  "rx_step \<equiv> wait_step rx_attempt rx_produce sb_rx_wakers (\<lambda>ws s. s\<lparr>sb_rx_wakers := ws\<rparr>)"

abbreviation rx_wakes :: "subscription wait_state \<Rightarrow> subscription wait_state \<Rightarrow> bool" where
  "rx_wakes \<equiv> wake_step sb_rx_wakers (\<lambda>ws s. s\<lparr>sb_rx_wakers := ws\<rparr>)"

abbreviation tx_step :: "(waker \<Rightarrow> can_frame) \<Rightarrow> tx_queue_state wait_state \<Rightarrow> tx_queue_state wait_state \<Rightarrow> bool" where
  "tx_step frame \<equiv> wait_step (tx_attempt frame) tx_produce tq_space_wakers (\<lambda>ws q. q\<lparr>tq_space_wakers := ws\<rparr>)"

abbreviation tx_wakes :: "tx_queue_state wait_state \<Rightarrow> tx_queue_state wait_state \<Rightarrow> bool" where
  "tx_wakes \<equiv> wake_step tq_space_wakers (\<lambda>ws q. q\<lparr>tq_space_wakers := ws\<rparr>)"

text \<open>
  C11. No wake-up is lost: in every interleaving of the critical sections of receiving, sending,
  publishing and popping tasks, a task that is suspended in \<open>recv_async\<close> while its queue holds a
  frame, or in \<open>send_async\<close> while the transmit queue has space, has been woken or is woken when the
  publishers, or the pump, finish the operation they are in.
\<close>

theorem bus_no_lost_wakeup:
  "(rx_step\<^sup>*\<^sup>* (wait_start s) c \<and> wt_phase c t = TaskSuspended \<and> sb_queue (wt_res c) \<noteq> [] \<longrightarrow>
      (\<exists>c'. rx_wakes\<^sup>*\<^sup>* c c' \<and> wt_notified c' t))
   \<and> ((tx_step frame)\<^sup>*\<^sup>* (wait_start q) d \<and> wt_phase d t = TaskSuspended
        \<and> length (tq_queue (wt_res d)) < tq_capacity (wt_res d) \<longrightarrow>
      (\<exists>d'. tx_wakes\<^sup>*\<^sup>* d d' \<and> wt_notified d' t))"
  using rx_wait.no_lost_wakeup [of s c t] tx_wait.no_lost_wakeup [of frame q d t]
  by (auto simp: rx_attempt_def sub_try_recv_def tx_attempt_def tx_try_send_def split: list.splits)

definition demo_sub :: subscription where
  "demo_sub = \<lparr>sb_queue = [], sb_rx_wakers = [], sb_capacity = 2, sb_policy = DropOldest, sb_overflow = 0, sb_filter = None\<rparr>"

text \<open>Task 7 suspends on an empty subscription, then a frame is published.\<close>

definition demo_waiting :: "subscription wait_state" where
  "demo_waiting = \<lparr>wt_res = snd (push_enqueue (demo_bus_frame 1) (demo_sub\<lparr>sb_rx_wakers := [7]\<rparr>)),
     wt_phase = (\<lambda>_. TaskIdle)(7 := TaskSuspended), wt_notified = (\<lambda>_. False), wt_producers = [Changed]\<rparr>"

lemma demo_waiting_reachable: "rx_step\<^sup>*\<^sup>* (wait_start demo_sub) demo_waiting"
proof -
  let ?c = "\<lambda>s p. \<lparr>wt_res = s, wt_phase = (\<lambda>_. TaskIdle)(7 := p), wt_notified = (\<lambda>_. False), wt_producers = []\<rparr> :: subscription wait_state"
  let ?s = "demo_sub\<lparr>sb_rx_wakers := [7]\<rparr>"
  have e: "rx_attempt 7 demo_sub = None" "rx_attempt 7 ?s = None" by (simp_all add: rx_attempt_def sub_try_recv_def demo_sub_def)
  have 1: "rx_step (wait_start demo_sub) (?c demo_sub TaskTried)"
    using wait_step.poll_wait [of "wait_start demo_sub" 7 rx_attempt rx_produce] e(1) by (simp add: wait_start_def fun_upd_idem)
  have 2: "rx_step (?c demo_sub TaskTried) (?c ?s TaskRegistered)"
    using wait_step.register [of "?c demo_sub TaskTried" 7 rx_attempt rx_produce sb_rx_wakers "\<lambda>ws s. s\<lparr>sb_rx_wakers := ws\<rparr>"]
    by (simp add: waker_register_def demo_sub_def)
  have 3: "rx_step (?c ?s TaskRegistered) (?c ?s TaskSuspended)"
    using wait_step.recheck_wait [of "?c ?s TaskRegistered" 7 rx_attempt rx_produce] e(2) by simp
  have "rx_produce ?s (snd (push_enqueue (demo_bus_frame 1) ?s)) True"
    by (auto simp: rx_produce_def push_enqueue_def demo_sub_def)
  then have 4: "rx_step (?c ?s TaskSuspended) demo_waiting"
    using wait_step.change [of rx_produce "?c ?s TaskSuspended"] by (simp add: demo_waiting_def)
  show ?thesis using 1 2 3 4 by (meson rtranclp.rtrancl_refl converse_rtranclp_into_rtranclp)
qed

theorem bus_no_lost_wakeup_witness: "\<exists>c'. rx_wakes\<^sup>*\<^sup>* demo_waiting c' \<and> wt_notified c' 7"
proof -
  have "wt_phase demo_waiting 7 = TaskSuspended" "sb_queue (wt_res demo_waiting) \<noteq> []"
    by (simp_all add: demo_waiting_def push_enqueue_def demo_sub_def)
  with bus_no_lost_wakeup [of demo_sub demo_waiting 7] demo_waiting_reachable show ?thesis by blast
qed

end
