(* ===== verification/Pdo_Bits.thy ===== *)
theory Pdo_Bits
  imports Prelude
begin

unbundle bit_operations_syntax

text \<open>
  The bit-level helpers of \<open>canopen-core/src/pdo/mod.rs\<close>. A byte list is read as a sequence
  of bits, least significant bit first; both paths of \<open>copy_pdo_bits\<close> (whole bytes and bit
  by bit) are shown to do the same on that view.
\<close>

section \<open>Definitions\<close>

text \<open>Bit \<open>k\<close> of a payload, and \<open>|=\<close> or \<open>&= !\<close> of one bit; both panic out of range.\<close>

definition get_bit :: "bytes \<Rightarrow> nat \<Rightarrow> bool option" where
  "get_bit bs k = (if k div 8 < length bs
     then Some (drop_bit (k mod 8) (bs ! (k div 8)) AND 1 \<noteq> 0) else None)"

definition put_bit :: "bytes \<Rightarrow> nat \<Rightarrow> bool \<Rightarrow> bytes option" where
  "put_bit bs k b = (if k div 8 < length bs
     then Some (bs[k div 8 := (if b then bs ! (k div 8) OR push_bit (k mod 8) 1
                               else bs ! (k div 8) AND NOT (push_bit (k mod 8) 1))]) else None)"

definition copy_pdo_bits :: "bytes \<Rightarrow> nat \<Rightarrow> bytes \<Rightarrow> nat \<Rightarrow> nat \<Rightarrow> bytes option" where
  "copy_pdo_bits src src_off dst dst_off bit_len =
     (if src_off mod 8 = 0 \<and> dst_off mod 8 = 0 \<and> bit_len mod 8 = 0 then do {
        seg \<leftarrow> slice src (src_off div 8) (src_off div 8 + bit_len div 8);
        copy_from_slice dst (dst_off div 8) seg
      } else
        for_each (\<lambda>i dst. do {
            v \<leftarrow> get_bit src (src_off + i);
            put_bit dst (dst_off + i) v
          }) [0..<bit_len] dst)"

definition sign_extend_pdo_bits :: "bytes \<Rightarrow> nat \<Rightarrow> bytes option" where
  "sign_extend_pdo_bits val bits =
     (if bits = 0 \<or> bits \<ge> length val * 8 then Some val
      else do {
        sign \<leftarrow> get_bit val (bits - 1);
        if \<not> sign then Some val
        else for_each (\<lambda>i val. put_bit val i True) [bits..<length val * 8] val
      })"

section \<open>The bit sequence of a payload\<close>

definition bit_at :: "bytes \<Rightarrow> nat \<Rightarrow> bool" where
  "bit_at bs k = bit (bs ! (k div 8)) (k mod 8)"

lemma get_bit_eq: "k < 8 * length bs \<Longrightarrow> get_bit bs k = Some (bit_at bs k)"
proof -
  assume "k < 8 * length bs"
  moreover have "w AND 1 \<noteq> 0 \<longleftrightarrow> bit w 0" for w :: u8
    using and_exp [of w 0] by simp
  ultimately show ?thesis by (auto simp: get_bit_def bit_at_def bit_drop_bit_eq)
qed

lemma bit_at_put:
  assumes "k < 8 * length bs"
  obtains bs' where "put_bit bs k b = Some bs'" "length bs' = length bs"
    "\<And>j. j < 8 * length bs \<Longrightarrow> bit_at bs' j = (if j = k then b else bit_at bs j)"
proof -
  let ?w = "bs ! (k div 8)"
  let ?w' = "if b then ?w OR push_bit (k mod 8) 1 else ?w AND NOT (push_bit (k mod 8) 1)"
  have k: "k div 8 < length bs" using assms by auto
  have w: "bit ?w' n = (if n = k mod 8 then b else bit ?w n)" if "n < 8" for n
    using that by (auto simp: bit_or_iff bit_and_iff bit_not_iff bit_exp_iff)
  have "bit_at (bs[k div 8 := ?w']) j = (if j = k then b else bit_at bs j)"
    if "j < 8 * length bs" for j
  proof (cases "j div 8 = k div 8")
    case True
    then have "j = k \<longleftrightarrow> j mod 8 = k mod 8" by (metis mult_div_mod_eq)
    then show ?thesis using True k w [of "j mod 8"] by (simp add: bit_at_def)
  next
    case False
    then show ?thesis by (auto simp: bit_at_def)
  qed
  then show thesis using that [of "bs[k div 8 := ?w']"] k by (simp add: put_bit_def)
qed

text \<open>Two payloads of the same length with the same bits are equal.\<close>

lemma bit_at_eqI:
  assumes "length xs = length ys" and "\<And>k. k < 8 * length xs \<Longrightarrow> bit_at xs k = bit_at ys k"
  shows "xs = ys"
proof (rule nth_equalityI)
  fix i assume i: "i < length xs"
  show "xs ! i = ys ! i"
  proof (rule bit_eqI)
    fix n assume "possible_bit TYPE(8 word) n"
    then have "n < 8" by simp
    with i have "8 * i + n < 8 * length xs" by linarith
    then have "bit_at xs (8 * i + n) = bit_at ys (8 * i + n)" by (rule assms(2))
    then show "bit (xs ! i) n = bit (ys ! i) n" using \<open>n < 8\<close> by (simp add: bit_at_def)
  qed
qed (rule assms(1))

section \<open>Copying\<close>

text \<open>What a copy of \<open>n\<close> bits does: the target range takes the source's bits, the rest stays.\<close>

definition copied_bits :: "bytes \<Rightarrow> nat \<Rightarrow> bytes \<Rightarrow> nat \<Rightarrow> nat \<Rightarrow> bytes \<Rightarrow> bool" where
  "copied_bits src so dst d n dst' \<longleftrightarrow> length dst' = length dst \<and>
     (\<forall>k < 8 * length dst. bit_at dst' k =
        (if d \<le> k \<and> k < d + n then bit_at src (so + (k - d)) else bit_at dst k))"

lemma copy_bit_loop:
  assumes "so + n \<le> 8 * length src" "d + n \<le> 8 * length dst"
  shows "\<exists>dst'. for_each (\<lambda>i dst. do { v \<leftarrow> get_bit src (so + i); put_bit dst (d + i) v }) [0..<n] dst = Some dst'
     \<and> copied_bits src so dst d n dst'"
  using assms
proof (induction n)
  case (Suc n)
  then obtain dst1 where 1: "for_each (\<lambda>i dst. do { v \<leftarrow> get_bit src (so + i); put_bit dst (d + i) v }) [0..<n] dst = Some dst1"
    "copied_bits src so dst d n dst1" by auto
  have l: "length dst1 = length dst" using 1 by (simp add: copied_bits_def)
  then have "d + n < 8 * length dst1" using Suc by simp
  then obtain dst2 where 2: "put_bit dst1 (d + n) (bit_at src (so + n)) = Some dst2"
    "length dst2 = length dst1"
    "\<And>j. j < 8 * length dst1 \<Longrightarrow> bit_at dst2 j = (if j = d + n then bit_at src (so + n) else bit_at dst1 j)"
    using bit_at_put [of "d + n" dst1 "bit_at src (so + n)"] by blast
  have "get_bit src (so + n) = Some (bit_at src (so + n))"
    using Suc by (intro get_bit_eq) auto
  with 1 2 have "for_each (\<lambda>i dst. do { v \<leftarrow> get_bit src (so + i); put_bit dst (d + i) v }) [0..<Suc n] dst = Some dst2"
    by (simp add: for_each_append)
  moreover have "copied_bits src so dst d (Suc n) dst2"
    using 1(2) 2(2,3) l by (auto simp: copied_bits_def less_Suc_eq)
  ultimately show ?case by blast
qed (auto simp: copied_bits_def)

lemma copy_bytes:
  assumes "so + n \<le> length src" "d + n \<le> length dst"
  shows "\<exists>dst'. (do { seg \<leftarrow> slice src so (so + n); copy_from_slice dst d seg }) = Some dst'
     \<and> copied_bits src (8 * so) dst (8 * d) (8 * n) dst'"
proof -
  have "copied_bits src (8 * so) dst (8 * d) (8 * n) (overwrite dst d (take n (drop so src)))"
    unfolding copied_bits_def
  proof (intro conjI allI impI)
    fix k assume k: "k < 8 * length dst"
    show "bit_at (overwrite dst d (take n (drop so src))) k =
        (if 8 * d \<le> k \<and> k < 8 * d + 8 * n then bit_at src (8 * so + (k - 8 * d)) else bit_at dst k)"
    proof (cases "8 * d \<le> k \<and> k < 8 * d + 8 * n")
      case True
      define m where "m = k - 8 * d"
      have m: "k = 8 * d + m" "m < 8 * n" using True by (auto simp: m_def)
      then have "k div 8 = d + m div 8" "k mod 8 = m mod 8" "m div 8 < n" by auto
      then show ?thesis using True k assms by (simp add: bit_at_def nth_overwrite m_def [symmetric])
    next
      case False
      then have "\<not> (d \<le> k div 8 \<and> k div 8 < d + n)" by linarith
      moreover have "k div 8 < length dst" using k by linarith
      ultimately show ?thesis using False assms by (auto simp: bit_at_def nth_overwrite)
    qed
  qed (use assms in simp)
  with assms show ?thesis by (simp add: slice_def copy_from_slice_def)
qed

lemma copy_pdo_bits_spec:
  assumes "so + n \<le> 8 * length src" "d + n \<le> 8 * length dst"
  shows "\<exists>dst'. copy_pdo_bits src so dst d n = Some dst' \<and> copied_bits src so dst d n dst'"
proof (cases "so mod 8 = 0 \<and> d mod 8 = 0 \<and> n mod 8 = 0")
  case True
  then obtain so' d' n' where "so = 8 * so'" "d = 8 * d'" "n = 8 * n'" by (metis mod_0_imp_dvd dvd_def)
  with copy_bytes [of so' n' src d' dst] assms show ?thesis by (simp add: copy_pdo_bits_def)
next
  case False
  with copy_bit_loop [OF assms] show ?thesis by (auto simp: copy_pdo_bits_def)
qed

text \<open>The fast path for whole bytes and the bit loop compute the same.\<close>

lemma copied_bits_unique:
  assumes "copied_bits src so dst d n x" "copied_bits src so dst d n y"
  shows "x = y"
  using assms by (intro bit_at_eqI) (auto simp: copied_bits_def)

section \<open>Sign extension\<close>

lemma put_bits_loop:
  assumes "a \<le> b" "b \<le> 8 * length val"
  shows "\<exists>val'. for_each (\<lambda>i val. put_bit val i True) [a..<b] val = Some val' \<and> length val' = length val
     \<and> (\<forall>k < 8 * length val. bit_at val' k = (a \<le> k \<and> k < b \<or> bit_at val k))"
  using assms
proof (induction b)
  case (Suc b)
  show ?case
  proof (cases "a \<le> b")
    case True
    with Suc obtain v1 where 1: "for_each (\<lambda>i val. put_bit val i True) [a..<b] val = Some v1"
      "length v1 = length val" "\<forall>k < 8 * length val. bit_at v1 k = (a \<le> k \<and> k < b \<or> bit_at val k)"
      by auto
    with Suc have "b < 8 * length v1" by simp
    then obtain v2 where "put_bit v1 b True = Some v2" "length v2 = length v1"
      "\<And>j. j < 8 * length v1 \<Longrightarrow> bit_at v2 j = (if j = b then True else bit_at v1 j)"
      using bit_at_put [of b v1 True] by blast
    with 1 True show ?thesis by (auto simp: for_each_append less_Suc_eq)
  next
    case False
    with Suc have "a = Suc b" by simp
    then show ?thesis by auto
  qed
qed simp

text \<open>
  The result is the two's-complement widening: the low bits are kept and every higher bit of a
  value whose higher bits are zero becomes the sign bit.
\<close>

lemma sign_extend_spec:
  assumes "0 < n" "n \<le> 8 * length val" "\<forall>k < 8 * length val. n \<le> k \<longrightarrow> \<not> bit_at val k"
  shows "\<exists>val'. sign_extend_pdo_bits val n = Some val' \<and> length val' = length val
     \<and> (\<forall>k < 8 * length val. bit_at val' k = (if k < n then bit_at val k else bit_at val (n - 1)))"
proof (cases "n < 8 * length val \<and> bit_at val (n - 1)")
  case True
  then show ?thesis using put_bits_loop [of n "length val * 8" val] assms get_bit_eq [of "n - 1" val]
    by (auto simp: sign_extend_pdo_bits_def)
next
  case False
  then show ?thesis using assms get_bit_eq [of "n - 1" val]
    by (auto simp: sign_extend_pdo_bits_def)
qed

section \<open>Properties\<close>

text \<open>
  C26. Copying PDO bits never panics within range and copies exactly the requested bits, on
  the whole-byte path as on the bit-by-bit path.
\<close>

theorem copy_pdo_bits_correct:
  assumes "so + n \<le> 8 * length src" "d + n \<le> 8 * length dst"
  shows "\<exists>dst'. copy_pdo_bits src so dst d n = Some dst' \<and> length dst' = length dst
     \<and> (\<forall>k < 8 * length dst. bit_at dst' k =
          (if d \<le> k \<and> k < d + n then bit_at src (so + (k - d)) else bit_at dst k))"
  using copy_pdo_bits_spec [OF assms] by (auto simp: copied_bits_def)

theorem copy_pdo_bits_correct_witness:
  "\<exists>dst'. copy_pdo_bits [0xA5, 0xFF] 4 [0, 0] 3 5 = Some dst' \<and> length dst' = 2 \<and> bit_at dst' 3 = bit_at [0xA5, 0xFF] 4"
  using copy_pdo_bits_correct [of 4 5 "[0xA5, 0xFF]" 3 "[0, 0]"] by force

text \<open>
  Widening a signed partial mapping keeps the received bits and fills the rest with the
  sign bit.
\<close>

theorem sign_extend_correct:
  assumes "0 < n" "n \<le> 8 * length val" "\<forall>k < 8 * length val. n \<le> k \<longrightarrow> \<not> bit_at val k"
  shows "\<exists>val'. sign_extend_pdo_bits val n = Some val' \<and> length val' = length val
     \<and> (\<forall>k < 8 * length val. bit_at val' k = (if k < n then bit_at val k else bit_at val (n - 1)))"
  using assms by (rule sign_extend_spec)

theorem sign_extend_correct_witness:
  "\<exists>val'. sign_extend_pdo_bits [0xFF, 0x00] 8 = Some val' \<and> length val' = 2"
proof -
  have "\<forall>k < 8 * length [0xFF, 0x00 :: u8]. 8 \<le> k \<longrightarrow> \<not> bit_at [0xFF, 0x00] k"
    by (auto simp: bit_at_def nth_Cons' split: if_splits)
  from sign_extend_correct [OF _ _ this] show ?thesis by auto
qed

end
