(* ===== verification/Pdo_Engine.thy ===== *)
theory Pdo_Engine
  imports Object_Dictionary Pdo_Bits
begin

unbundle bit_operations_syntax

text \<open>
  The PDO engines of \<open>canopen-core/src/pdo/engine.rs\<close>. An engine's per-slot arrays are lists
  of the same length; the outer option of a result is a panic. The dictionary is a parameter,
  as in the source.
\<close>

section \<open>Mappings and transmission types\<close>

abbreviation PDO_MAX_PAYLOAD_BITS :: nat where "PDO_MAX_PAYLOAD_BITS \<equiv> 64"
abbreviation PDO_MAX_MAPPINGS :: nat where "PDO_MAX_MAPPINGS \<equiv> 64"

record pdo_mapping =
  pm_index :: u16
  pm_subindex :: u8
  pm_bit_length :: u8

definition from_mapping_value :: "u32 \<Rightarrow> pdo_mapping" where
  "from_mapping_value v = \<lparr>pm_index = ucast (drop_bit 16 v), pm_subindex = ucast (drop_bit 8 v),
     pm_bit_length = ucast v\<rparr>"

definition to_mapping_value :: "pdo_mapping \<Rightarrow> u32" where
  "to_mapping_value m = push_bit 16 (ucast (pm_index m)) OR push_bit 8 (ucast (pm_subindex m))
     OR ucast (pm_bit_length m)"

definition mapping_bits :: "pdo_mapping list \<Rightarrow> nat" where
  "mapping_bits ms = sum_list (map (\<lambda>m. unat (pm_bit_length m)) ms)"

definition is_dummy_mapping_index :: "u16 \<Rightarrow> bool" where
  "is_dummy_mapping_index index \<longleftrightarrow> 0x0001 \<le> index \<and> index \<le> 0x0007"

definition bytes_for_bits :: "nat \<Rightarrow> nat" where
  "bytes_for_bits bits = (bits + 7) div 8"

definition raw_is_synchronous :: "u8 \<Rightarrow> bool" where
  "raw_is_synchronous raw \<longleftrightarrow> raw \<le> 240"

datatype transmission_type =
  SyncAcyclic | SyncCyclic u8 | RtrSync | RtrEvent | EventDrivenManufacturer | EventDriven

text \<open>\<open>TransmissionType::raw\<close>, with its \<open>assert!\<close>.\<close>

definition tt_raw :: "transmission_type \<Rightarrow> u8 option" where
  "tt_raw t = (case t of
     SyncAcyclic \<Rightarrow> Some 0
   | SyncCyclic n \<Rightarrow> if n \<ge> 1 \<and> n \<le> 240 then Some n else None
   | RtrSync \<Rightarrow> Some 252 | RtrEvent \<Rightarrow> Some 253
   | EventDrivenManufacturer \<Rightarrow> Some 254 | EventDriven \<Rightarrow> Some 255)"

definition tt_is_synchronous :: "transmission_type \<Rightarrow> bool" where
  "tt_is_synchronous t = (case t of SyncAcyclic \<Rightarrow> True | SyncCyclic _ \<Rightarrow> True | _ \<Rightarrow> False)"

definition tt_from_raw :: "u8 \<Rightarrow> transmission_type option" where
  "tt_from_raw raw =
     (if raw = 0 then Some SyncAcyclic
      else if 1 \<le> raw \<and> raw \<le> 240 then Some (SyncCyclic raw)
      else if raw = 252 then Some RtrSync
      else if raw = 253 then Some RtrEvent
      else if raw = 254 then Some EventDrivenManufacturer
      else if raw = 255 then Some EventDriven
      else None)"

definition pdo_number_for_slot :: "u16 \<Rightarrow> nat \<Rightarrow> u16" where
  "pdo_number_for_slot od_number slot = (if od_number = 0 then of_nat slot + 1 else od_number)"

section \<open>Configurations\<close>

record tpdo_config =
  tc_od_number :: u16
  tc_cob_id :: u16
  tc_transmission_type :: u8
  tc_inhibit_time_100us :: u16
  tc_event_timer_ms :: u16
  tc_mappings :: "pdo_mapping list"
  tc_enabled :: bool

definition tpdo_config_default :: tpdo_config where
  "tpdo_config_default = \<lparr>tc_od_number = 0, tc_cob_id = 0, tc_transmission_type = 255,
     tc_inhibit_time_100us = 0, tc_event_timer_ms = 0, tc_mappings = [], tc_enabled = False\<rparr>"

definition tpdo_is_placeholder :: "tpdo_config \<Rightarrow> bool" where
  "tpdo_is_placeholder c \<longleftrightarrow> tc_od_number c = 0 \<and> tc_cob_id c = 0 \<and> \<not> tc_enabled c \<and> tc_mappings c = []"

record rpdo_config =
  rc_od_number :: u16
  rc_cob_id :: u16
  rc_transmission_type :: u8
  rc_deadline_ms :: u16
  rc_mappings :: "pdo_mapping list"
  rc_enabled :: bool

definition rpdo_config_default :: rpdo_config where
  "rpdo_config_default = \<lparr>rc_od_number = 0, rc_cob_id = 0, rc_transmission_type = 255,
     rc_deadline_ms = 0, rc_mappings = [], rc_enabled = False\<rparr>"

definition rpdo_is_placeholder :: "rpdo_config \<Rightarrow> bool" where
  "rpdo_is_placeholder c \<longleftrightarrow> rc_od_number c = 0 \<and> rc_cob_id c = 0 \<and> \<not> rc_enabled c \<and> rc_mappings c = []"

definition validate_mapping_target :: "'od od_ops \<Rightarrow> 'od \<Rightarrow> u32 \<Rightarrow> bool \<Rightarrow> od_error + unit" where
  "validate_mapping_target ops od descriptor receive =
     (let index = ucast (drop_bit 16 descriptor) in
      if is_dummy_mapping_index index then Inr ()
      else if (case od_lookup ops od index (ucast (drop_bit 8 descriptor)) of
                 Some m \<Rightarrow> meta_pdo_mappable m \<and>
                   (if receive then meta_access m = Wo \<or> meta_access m = Rw else meta_access m \<noteq> Wo)
               | None \<Rightarrow> False)
      then Inr () else Inl (AbortWith (abort_of_code ObjectCannotBeMapped)))"

section \<open>The TPDO engine\<close>

record tpdo_engine =
  te_pdos :: "tpdo_config list"
  te_sync_counter :: "u8 list"
  te_last_send_us :: "u64 list"
  te_sync_event_pending :: "bool list"
  te_async_event_pending :: "bool list"

definition tpdo_engine_new :: "tpdo_config list \<Rightarrow> tpdo_engine" where
  "tpdo_engine_new pdos = (let N = length pdos in
     \<lparr>te_pdos = pdos, te_sync_counter = replicate N 0, te_last_send_us = replicate N 0,
      te_sync_event_pending = replicate N False, te_async_event_pending = replicate N False\<rparr>)"

abbreviation te_slots :: "tpdo_engine \<Rightarrow> nat list" where
  "te_slots e \<equiv> [0..<length (te_pdos e)]"

text \<open>\<open>slot_for_number\<close> and the configurations addressed by PDO number or slot.\<close>

definition tpdo_slot_for_number :: "tpdo_engine \<Rightarrow> pdo_number \<Rightarrow> nat option" where
  "tpdo_slot_for_number e number = find (\<lambda>slot. \<not> tpdo_is_placeholder (te_pdos e ! slot)
     \<and> pdo_number_for_slot (tc_od_number (te_pdos e ! slot)) slot = pdo_raw number) (te_slots e)"

definition tpdo_config_of :: "tpdo_engine \<Rightarrow> pdo_number \<Rightarrow> tpdo_config option" where
  "tpdo_config_of e number = map_option (\<lambda>s. te_pdos e ! s) (tpdo_slot_for_number e number)"

definition latch_slot_event :: "nat \<Rightarrow> tpdo_engine \<Rightarrow> tpdo_engine" where
  "latch_slot_event slot e =
     (if slot \<ge> length (te_pdos e) then e
      else let pdo = te_pdos e ! slot; tt = tc_transmission_type pdo in
        if \<not> tc_enabled pdo then e
        else if tt = 0 then e\<lparr>te_sync_event_pending := (te_sync_event_pending e)[slot := True]\<rparr>
        else if tt = 254 \<or> tt = 255
        then e\<lparr>te_async_event_pending := (te_async_event_pending e)[slot := True]\<rparr>
        else e)"

definition maps_object :: "pdo_mapping list \<Rightarrow> u16 \<Rightarrow> u8 \<Rightarrow> bool" where
  "maps_object ms index subindex \<longleftrightarrow> (\<exists>m \<in> set ms. pm_index m = index \<and> pm_subindex m = subindex)"

definition notify_changed :: "u16 \<Rightarrow> u8 \<Rightarrow> tpdo_engine \<Rightarrow> tpdo_engine" where
  "notify_changed index subindex e =
     fold (\<lambda>slot e. if tc_enabled (te_pdos e ! slot) \<and> maps_object (tc_mappings (te_pdos e ! slot)) index subindex
                    then latch_slot_event slot e else e) (te_slots e) e"

definition has_dirty_mapping :: "tpdo_config \<Rightarrow> (u16 \<times> u8) list \<Rightarrow> bool" where
  "has_dirty_mapping pdo dirty \<longleftrightarrow>
     dirty \<noteq> [] \<and> (\<exists>m \<in> set (tc_mappings pdo). (pm_index m, pm_subindex m) \<in> set dirty)"

definition latch_sync_events :: "(u16 \<times> u8) list \<Rightarrow> tpdo_engine \<Rightarrow> tpdo_engine" where
  "latch_sync_events dirty e =
     (if dirty = [] then e
      else fold (\<lambda>i e. if tc_enabled (te_pdos e ! i) \<and> tc_transmission_type (te_pdos e ! i) = 0
                          \<and> has_dirty_mapping (te_pdos e ! i) dirty
                       then e\<lparr>te_sync_event_pending := (te_sync_event_pending e)[i := True]\<rparr> else e)
             (te_slots e) e)"

definition discard_sync_events :: "tpdo_engine \<Rightarrow> tpdo_engine" where
  "discard_sync_events e = e\<lparr>te_sync_event_pending := replicate (length (te_pdos e)) False\<rparr>"

definition discard_async_events :: "tpdo_engine \<Rightarrow> tpdo_engine" where
  "discard_async_events e = e\<lparr>te_async_event_pending := replicate (length (te_pdos e)) False\<rparr>"

definition tpdo_reset_communication_state :: "tpdo_engine \<Rightarrow> tpdo_engine" where
  "tpdo_reset_communication_state e = (let N = length (te_pdos e) in
     e\<lparr>te_sync_counter := replicate N 0, te_sync_event_pending := replicate N False,
       te_async_event_pending := replicate N False\<rparr>)"

text \<open>
  The packing loop. The object buffer is all zero at every read, since the loop clears it
  after each copy and leaves the function when a read fails.
\<close>

fun pack_mappings ::
  "'od od_ops \<Rightarrow> 'od \<Rightarrow> pdo_mapping list \<Rightarrow> bytes \<Rightarrow> nat \<Rightarrow> (bytes \<times> nat) option option" where
  "pack_mappings ops od [] data bit_offset = Some (Some (data, bit_offset))"
| "pack_mappings ops od (m # ms) data bit_offset =
     (let bit_len = unat (pm_bit_length m); end_bit = bit_offset + bit_len in
      if end_bit > 64 then Some None
      else if is_dummy_mapping_index (pm_index m) then pack_mappings ops od ms data end_bit
      else case od_read ops od (pm_index m) (pm_subindex m) (replicate 8 0) of
        (Inl _, _) \<Rightarrow> Some None
      | (Inr read_len, object_data) \<Rightarrow>
          if read_len * 8 < bit_len then Some None
          else do {
            data' \<leftarrow> copy_pdo_bits object_data 0 data bit_offset bit_len;
            pack_mappings ops od ms data' end_bit
          })"

definition build_pdo_frame :: "'od od_ops \<Rightarrow> tpdo_config \<Rightarrow> 'od \<Rightarrow> can_frame option option" where
  "build_pdo_frame ops pdo od = do {
     r \<leftarrow> pack_mappings ops od (tc_mappings pdo) (replicate 8 0) 0;
     case r of
       None \<Rightarrow> Some None
     | Some (data, bits) \<Rightarrow> do {
         payload \<leftarrow> slice data 0 ((bits + 7) div 8);
         Some (can_frame_new (tc_cob_id pdo) payload)
       }
   }"

text \<open>\<open>if let Some(frame) = .. { let _ = out.push(frame); }\<close> into a vector of capacity \<open>N\<close>.\<close>

definition push_frame :: "nat \<Rightarrow> can_frame list \<Rightarrow> can_frame option \<Rightarrow> can_frame list" where
  "push_frame N out r = (case r of None \<Rightarrow> out | Some f \<Rightarrow> push_back N out f)"

text \<open>A \<open>u8\<close> increment, which panics on overflow in a debug build.\<close>

definition incr_u8 :: "u8 \<Rightarrow> u8 option" where
  "incr_u8 c = (if c = 255 then None else Some (c + 1))"

definition tpdo_on_sync_slot ::
  "'od od_ops \<Rightarrow> 'od \<Rightarrow> nat \<Rightarrow> tpdo_engine \<times> can_frame list \<Rightarrow> (tpdo_engine \<times> can_frame list) option" where
  "tpdo_on_sync_slot ops od i s = (case s of (e, out) \<Rightarrow>
     let pdo = te_pdos e ! i; tt = tc_transmission_type pdo; N = length (te_pdos e) in
     if \<not> tc_enabled pdo then Some (e, out)
     else if tt = 0 then
       (if te_sync_event_pending e ! i then do {
          r \<leftarrow> build_pdo_frame ops pdo od;
          Some (e\<lparr>te_sync_event_pending := (te_sync_event_pending e)[i := False]\<rparr>, push_frame N out r)
        } else Some (e, out))
     else if tt \<ge> 1 \<and> tt \<le> 240 then do {
       c \<leftarrow> incr_u8 (te_sync_counter e ! i);
       if c \<ge> tt then do {
         r \<leftarrow> build_pdo_frame ops pdo od;
         Some (e\<lparr>te_sync_counter := (te_sync_counter e)[i := 0]\<rparr>, push_frame N out r)
       } else Some (e\<lparr>te_sync_counter := (te_sync_counter e)[i := c]\<rparr>, out)
     } else Some (e, out))"

definition tpdo_on_sync ::
  "'od od_ops \<Rightarrow> 'od \<Rightarrow> tpdo_engine \<Rightarrow> can_frame list \<Rightarrow> (tpdo_engine \<times> can_frame list) option" where
  "tpdo_on_sync ops od e out = for_each (tpdo_on_sync_slot ops od) (te_slots e) (e, out)"

text \<open>
  \<open>poll_with\<close>: \<open>accept\<close> is the transmit closure with the state it captures.
\<close>

definition tpdo_poll_slot ::
  "'od od_ops \<Rightarrow> 'od \<Rightarrow> u64 \<Rightarrow> (u16 \<times> u8) list \<Rightarrow> ('t \<Rightarrow> can_frame \<Rightarrow> bool \<times> 't)
   \<Rightarrow> nat \<Rightarrow> tpdo_engine \<times> 't \<Rightarrow> (tpdo_engine \<times> 't) option" where
  "tpdo_poll_slot ops od now dirty accept i s = (case s of (e, t) \<Rightarrow>
     let pdo = te_pdos e ! i; tt = tc_transmission_type pdo in
     if \<not> tc_enabled pdo then Some (e, t)
     else if tt \<noteq> 254 \<and> tt \<noteq> 255 then Some (e, t)
     else
       let inhibit_us = ucast (tc_inhibit_time_100us pdo) * 100 :: u64;
           elapsed = now - te_last_send_us e ! i;
           e1 = (if has_dirty_mapping pdo dirty
                 then e\<lparr>te_async_event_pending := (te_async_event_pending e)[i := True]\<rparr> else e);
           timer_trigger = (tc_event_timer_ms pdo > 0 \<and> elapsed \<ge> ucast (tc_event_timer_ms pdo) * 1000);
           application_trigger = te_async_event_pending e1 ! i
       in if (application_trigger \<or> timer_trigger) \<and> elapsed \<ge> inhibit_us then do {
            r \<leftarrow> build_pdo_frame ops pdo od;
            case r of
              None \<Rightarrow> Some (e1, t)
            | Some f \<Rightarrow> (case accept t f of (ok, t') \<Rightarrow>
                Some (if ok then e1\<lparr>te_last_send_us := (te_last_send_us e1)[i := now],
                                    te_async_event_pending := (te_async_event_pending e1)[i := False]\<rparr>
                      else e1, t'))
          } else Some (e1, t))"

definition tpdo_poll_with ::
  "'od od_ops \<Rightarrow> 'od \<Rightarrow> u64 \<Rightarrow> (u16 \<times> u8) list \<Rightarrow> ('t \<Rightarrow> can_frame \<Rightarrow> bool \<times> 't)
   \<Rightarrow> tpdo_engine \<Rightarrow> 't \<Rightarrow> (tpdo_engine \<times> 't) option" where
  "tpdo_poll_with ops od now dirty accept e t =
     for_each (tpdo_poll_slot ops od now dirty accept) (te_slots e) (e, t)"

text \<open>\<open>poll\<close>: accept as long as the output vector has room.\<close>

definition tpdo_poll ::
  "'od od_ops \<Rightarrow> 'od \<Rightarrow> u64 \<Rightarrow> (u16 \<times> u8) list \<Rightarrow> tpdo_engine \<Rightarrow> can_frame list
   \<Rightarrow> (tpdo_engine \<times> can_frame list) option" where
  "tpdo_poll ops od now dirty e out = tpdo_poll_with ops od now dirty
     (\<lambda>out f. if length out < length (te_pdos e) then (True, out @ [f]) else (False, out)) e out"

section \<open>The RPDO engine\<close>

definition is_signed_integer :: "data_type \<Rightarrow> bool" where
  "is_signed_integer t \<longleftrightarrow> t = I8 \<or> t = I16 \<or> t = I24 \<or> t = I32 \<or> t = I64"

text \<open>The bytes written for one mapping: extracted, then widened to the object's size.\<close>

definition rpdo_value ::
  "'od od_ops \<Rightarrow> 'od \<Rightarrow> pdo_mapping \<Rightarrow> bytes \<Rightarrow> nat \<Rightarrow> bytes option" where
  "rpdo_value ops od m data bit_offset =
     (let bit_len = unat (pm_bit_length m); object_len = bytes_for_bits bit_len in do {
        object_data \<leftarrow> copy_pdo_bits data bit_offset (replicate 8 0) 0 bit_len;
        case Option.bind (od_lookup ops od (pm_index m) (pm_subindex m))
               (\<lambda>meta. map_option (\<lambda>sz. (meta_data_type meta, sz)) (dt_size (meta_data_type meta))) of
          Some (data_type, sz) \<Rightarrow>
            if sz \<ge> object_len \<and> sz \<le> 8 then
              if is_signed_integer data_type then do {
                part \<leftarrow> slice object_data 0 sz;
                sign_extend_pdo_bits part bit_len
              } else slice object_data 0 sz
            else slice object_data 0 object_len
        | None \<Rightarrow> slice object_data 0 object_len
      })"

definition rpdo_event :: "pdo_mapping \<Rightarrow> od_event" where
  "rpdo_event m = \<lparr>ev_index = pm_index m, ev_subindex = pm_subindex m, ev_source = SrcRpdo\<rparr>"

text \<open>The loop; \<open>Q\<close> is the capacity of the event queue, \<open>dropped\<close> the events it lost.\<close>

fun apply_mapped ::
  "nat \<Rightarrow> 'od od_ops \<Rightarrow> pdo_mapping list \<Rightarrow> bytes \<Rightarrow> nat \<Rightarrow> 'od \<times> od_event list \<times> u32
   \<Rightarrow> ('od \<times> od_event list \<times> u32) option" where
  "apply_mapped Q ops [] data bit_offset s = Some s"
| "apply_mapped Q ops (m # ms) data bit_offset (od, events, dropped) =
     (let bit_len = unat (pm_bit_length m); end_bit = bit_offset + bit_len in
      if end_bit > length data * 8 \<or> bytes_for_bits bit_len > 8 then Some (od, events, dropped)
      else if is_dummy_mapping_index (pm_index m)
      then apply_mapped Q ops ms data end_bit (od, events, dropped)
      else do {
        v \<leftarrow> rpdo_value ops od m data bit_offset;
        case od_write ops od (pm_index m) (pm_subindex m) v of
          (Inl _, od') \<Rightarrow> apply_mapped Q ops ms data end_bit (od', events, dropped)
        | (Inr _, od') \<Rightarrow>
            apply_mapped Q ops ms data end_bit (od', push_evict Q events (rpdo_event m),
              if length events \<ge> Q then saturating_add dropped 1 else dropped)
      })"

definition mapped_payload_len :: "rpdo_config \<Rightarrow> nat option" where
  "mapped_payload_len pdo = (let total_bits = sum_list (map (\<lambda>m. unat (pm_bit_length m)) (rc_mappings pdo))
     in if total_bits \<le> PDO_MAX_PAYLOAD_BITS then Some (bytes_for_bits total_bits) else None)"

record rpdo_engine =
  re_pdos :: "rpdo_config list"
  re_pending :: "can_frame option list"
  re_last_rx_us :: "u64 list"
  re_armed :: "bool list"
  re_expired :: "bool list"
  re_length_errors :: u32

definition rpdo_engine_new :: "rpdo_config list \<Rightarrow> rpdo_engine" where
  "rpdo_engine_new pdos = (let N = length pdos in
     \<lparr>re_pdos = pdos, re_pending = replicate N None, re_last_rx_us = replicate N 0,
      re_armed = replicate N False, re_expired = replicate N False, re_length_errors = 0\<rparr>)"

abbreviation re_slots :: "rpdo_engine \<Rightarrow> nat list" where
  "re_slots e \<equiv> [0..<length (re_pdos e)]"

definition rpdo_slot_for_number :: "rpdo_engine \<Rightarrow> pdo_number \<Rightarrow> nat option" where
  "rpdo_slot_for_number e number = find (\<lambda>slot. \<not> rpdo_is_placeholder (re_pdos e ! slot)
     \<and> pdo_number_for_slot (rc_od_number (re_pdos e ! slot)) slot = pdo_raw number) (re_slots e)"

definition rpdo_config_of :: "rpdo_engine \<Rightarrow> pdo_number \<Rightarrow> rpdo_config option" where
  "rpdo_config_of e number = map_option (\<lambda>s. re_pdos e ! s) (rpdo_slot_for_number e number)"

text \<open>\<open>process_with_drop_count\<close>: consumed, lost events, engine, dictionary, events.\<close>

definition rpdo_process ::
  "nat \<Rightarrow> 'od od_ops \<Rightarrow> can_frame \<Rightarrow> u64 \<Rightarrow> rpdo_engine \<Rightarrow> 'od \<Rightarrow> od_event list
   \<Rightarrow> (bool \<times> u32 \<times> rpdo_engine \<times> 'od \<times> od_event list) option" where
  "rpdo_process Q ops f now e od events =
     (case find (\<lambda>i. rc_enabled (re_pdos e ! i) \<and> raw_id f = rc_cob_id (re_pdos e ! i)) (re_slots e) of
        None \<Rightarrow> Some (False, 0, e, od, events)
      | Some slot \<Rightarrow>
          let pdo = re_pdos e ! slot in
          if (case mapped_payload_len pdo of None \<Rightarrow> True | Some len \<Rightarrow> length (frame_data f) < len)
          then Some (True, 0, e\<lparr>re_length_errors := saturating_add (re_length_errors e) 1\<rparr>, od, events)
          else
            let e1 = e\<lparr>re_last_rx_us := (re_last_rx_us e)[slot := now],
                       re_armed := (re_armed e)[slot := True],
                       re_expired := (re_expired e)[slot := False]\<rparr>
            in if raw_is_synchronous (rc_transmission_type pdo)
               then Some (True, 0, e1\<lparr>re_pending := (re_pending e1)[slot := Some f]\<rparr>, od, events)
               else do {
                 (od', events', dropped) \<leftarrow> apply_mapped Q ops (rc_mappings pdo) (frame_data f) 0 (od, events, 0);
                 Some (True, dropped, e1, od', events')
               })"

definition rpdo_on_sync_slot ::
  "nat \<Rightarrow> 'od od_ops \<Rightarrow> nat \<Rightarrow> rpdo_engine \<times> 'od \<times> od_event list \<times> u32
   \<Rightarrow> (rpdo_engine \<times> 'od \<times> od_event list \<times> u32) option" where
  "rpdo_on_sync_slot Q ops slot s = (case s of (e, od, events, dropped) \<Rightarrow>
     (case re_pending e ! slot of
        None \<Rightarrow> Some (e, od, events, dropped)
      | Some f \<Rightarrow> do {
          (od', events', d) \<leftarrow> apply_mapped Q ops (rc_mappings (re_pdos e ! slot)) (frame_data f) 0 (od, events, 0);
          Some (e\<lparr>re_pending := (re_pending e)[slot := None]\<rparr>, od', events', saturating_add dropped d)
        }))"

definition rpdo_on_sync ::
  "nat \<Rightarrow> 'od od_ops \<Rightarrow> rpdo_engine \<Rightarrow> 'od \<Rightarrow> od_event list
   \<Rightarrow> (rpdo_engine \<times> 'od \<times> od_event list \<times> u32) option" where
  "rpdo_on_sync Q ops e od events = for_each (rpdo_on_sync_slot Q ops) (re_slots e) (e, od, events, 0)"

definition has_pending :: "rpdo_engine \<Rightarrow> pdo_number \<Rightarrow> bool" where
  "has_pending e number = (case rpdo_slot_for_number e number of
     Some slot \<Rightarrow> re_pending e ! slot \<noteq> None | None \<Rightarrow> False)"

definition discard_pending :: "rpdo_engine \<Rightarrow> rpdo_engine" where
  "discard_pending e = e\<lparr>re_pending := replicate (length (re_pdos e)) None\<rparr>"

definition check_deadline_slot ::
  "u64 \<Rightarrow> nat \<Rightarrow> rpdo_engine \<times> pdo_number list \<Rightarrow> rpdo_engine \<times> pdo_number list" where
  "check_deadline_slot now slot s = (case s of (e, out) \<Rightarrow>
     let pdo = re_pdos e ! slot in
     if \<not> rc_enabled pdo \<or> rc_deadline_ms pdo = 0 \<or> \<not> re_armed e ! slot \<or> re_expired e ! slot then (e, out)
     else if now - re_last_rx_us e ! slot > ucast (rc_deadline_ms pdo) * 1000 then
       (e\<lparr>re_expired := (re_expired e)[slot := True]\<rparr>,
        case pdo_number_new (pdo_number_for_slot (rc_od_number pdo) slot) of
          Some number \<Rightarrow> push_back (length (re_pdos e)) out number | None \<Rightarrow> out)
     else (e, out))"

definition check_deadlines :: "u64 \<Rightarrow> rpdo_engine \<Rightarrow> pdo_number list \<Rightarrow> rpdo_engine \<times> pdo_number list" where
  "check_deadlines now e out = fold (check_deadline_slot now) (re_slots e) (e, out)"

definition deadline_expired_slot :: "rpdo_engine \<Rightarrow> nat \<Rightarrow> bool" where
  "deadline_expired_slot e slot \<longleftrightarrow> slot < length (re_pdos e) \<and>
     (let pdo = re_pdos e ! slot in
      rc_enabled pdo \<and> rc_deadline_ms pdo > 0 \<and> (\<not> re_armed e ! slot \<or> re_expired e ! slot))"

definition deadline_expired :: "rpdo_engine \<Rightarrow> pdo_number \<Rightarrow> bool" where
  "deadline_expired e number = (case rpdo_slot_for_number e number of
     Some slot \<Rightarrow> deadline_expired_slot e slot | None \<Rightarrow> False)"

definition reset_deadline_monitoring :: "rpdo_engine \<Rightarrow> rpdo_engine" where
  "reset_deadline_monitoring e = (let N = length (re_pdos e) in
     e\<lparr>re_armed := replicate N False, re_expired := replicate N False\<rparr>)"

end
