(* ===== verification/Pdo_Props.thy ===== *)
theory Pdo_Props
  imports Pdo_Engine
begin

unbundle bit_operations_syntax

text \<open>
  Properties of the PDO engines: invariants, the payload a TPDO carries, the values an RPDO
  writes, which TPDOs a SYNC pulse sends, and deadline monitoring.
\<close>

section \<open>Well-formed engines\<close>

definition wf_tpdo_engine :: "tpdo_engine \<Rightarrow> bool" where
  "wf_tpdo_engine e \<longleftrightarrow> (let N = length (te_pdos e) in
     length (te_sync_counter e) = N \<and> length (te_last_send_us e) = N
     \<and> length (te_sync_event_pending e) = N \<and> length (te_async_event_pending e) = N)
     \<and> (\<forall>c \<in> set (te_sync_counter e). c < 240)"

definition wf_rpdo_engine :: "rpdo_engine \<Rightarrow> bool" where
  "wf_rpdo_engine e \<longleftrightarrow> (let N = length (re_pdos e) in
     length (re_pending e) = N \<and> length (re_last_rx_us e) = N
     \<and> length (re_armed e) = N \<and> length (re_expired e) = N)"

lemma tpdo_engine_new_wf: "wf_tpdo_engine (tpdo_engine_new pdos)"
  by (auto simp: wf_tpdo_engine_def tpdo_engine_new_def Let_def)

lemma rpdo_engine_new_wf: "wf_rpdo_engine (rpdo_engine_new pdos)"
  by (simp add: wf_rpdo_engine_def rpdo_engine_new_def Let_def)

section \<open>Packing\<close>

lemma mapping_bits_simps [simp]:
  "mapping_bits [] = 0" "mapping_bits (m # ms) = unat (pm_bit_length m) + mapping_bits ms"
  by (simp_all add: mapping_bits_def)

text \<open>
  The payload carries, from bit \<open>off\<close> on, the low bits of every mapped object's content, in
  mapping order, and zeros for dummy entries.
\<close>

fun packed :: "(u16 \<Rightarrow> u8 \<Rightarrow> bytes option) \<Rightarrow> pdo_mapping list \<Rightarrow> nat \<Rightarrow> bytes \<Rightarrow> bool" where
  "packed content [] off data = True"
| "packed content (m # ms) off data =
     ((if is_dummy_mapping_index (pm_index m)
       then \<forall>b < unat (pm_bit_length m). \<not> bit_at data (off + b)
       else (\<exists>v. content (pm_index m) (pm_subindex m) = Some v \<and> unat (pm_bit_length m) \<le> 8 * length v
              \<and> (\<forall>b < unat (pm_bit_length m). bit_at data (off + b) = bit_at v b)))
      \<and> packed content ms (off + unat (pm_bit_length m)) data)"

lemma bit_at_zeros: "k < 8 * n \<Longrightarrow> \<not> bit_at (replicate n 0) k"
  by (simp add: bit_at_def less_mult_imp_div_less mult.commute)

lemma bit_at_overwrite_0:
  "b < 8 * length v \<Longrightarrow> bit_at (overwrite buf 0 v) b = bit_at v b"
  by (simp add: bit_at_def overwrite_def nth_append less_mult_imp_div_less mult.commute)

text \<open>Later bits do not disturb what was packed.\<close>

lemma packed_cong:
  assumes "\<And>k. off \<le> k \<Longrightarrow> k < off + mapping_bits ms \<Longrightarrow> bit_at data k = bit_at data' k"
    and "packed content ms off data"
  shows "packed content ms off data'"
  using assms
proof (induction ms arbitrary: off)
  case (Cons m ms)
  have "packed content ms (off + unat (pm_bit_length m)) data'"
    using Cons.prems by (intro Cons.IH) auto
  moreover have "bit_at data (off + b) = bit_at data' (off + b)" if "b < unat (pm_bit_length m)" for b
    using that by (intro Cons.prems) auto
  ultimately show ?case using Cons.prems(2) by (auto split: if_splits)
qed simp

definition pack_result :: "(u16 \<Rightarrow> u8 \<Rightarrow> bytes option) \<Rightarrow> pdo_mapping list \<Rightarrow> bytes \<Rightarrow> nat \<Rightarrow> bytes \<times> nat \<Rightarrow> bool" where
  "pack_result content ms data off r \<longleftrightarrow> (case r of (data', off') \<Rightarrow>
     length data' = 8 \<and> off' = off + mapping_bits ms \<and> off' \<le> 64 \<and> packed content ms off data'
     \<and> (\<forall>k < off. bit_at data' k = bit_at data k) \<and> (\<forall>k < 64. off' \<le> k \<longrightarrow> \<not> bit_at data' k))"

lemma bit_at_take: "k < 8 * n \<Longrightarrow> n \<le> length xs \<Longrightarrow> bit_at (take n xs) k = bit_at xs k"
  by (simp add: bit_at_def less_mult_imp_div_less mult.commute)

lemma bits_le_bytes: "n \<le> 8 * bytes_for_bits n"
  by (simp add: bytes_for_bits_def)

lemma bytes_for_bits_le: "n \<le> 64 \<Longrightarrow> bytes_for_bits n \<le> 8"
  by (simp add: bytes_for_bits_def)

context object_dictionary
begin

lemma pack_mappings_spec:
  assumes "inv od" "length data = 8" "off \<le> 64" "\<forall>k < 64. off \<le> k \<longrightarrow> \<not> bit_at data k"
  shows "\<exists>r. pack_mappings ops od ms data off = Some r \<and> (\<forall>x. r = Some x \<longrightarrow> pack_result (val od) ms data off x)"
  using assms(2-)
proof (induction ms arbitrary: data off)
  case Nil
  then show ?case by (simp add: pack_result_def)
next
  case (Cons m ms)
  let ?n = "unat (pm_bit_length m)"
  show ?case
  proof (cases "off + ?n > 64")
    case True
    then show ?thesis by simp
  next
    case fits: False
    show ?thesis
    proof (cases "is_dummy_mapping_index (pm_index m)")
      case True
      have "\<exists>r. pack_mappings ops od ms data (off + ?n) = Some r
          \<and> (\<forall>x. r = Some x \<longrightarrow> pack_result (val od) ms data (off + ?n) x)"
        using Cons.prems fits by (intro Cons.IH) auto
      then obtain r where r: "pack_mappings ops od ms data (off + ?n) = Some r"
        "\<And>x. r = Some x \<Longrightarrow> pack_result (val od) ms data (off + ?n) x" by blast
      have "pack_result (val od) (m # ms) data off x" if "r = Some x" for x
        using r(2) [OF that] Cons.prems True fits by (auto simp: pack_result_def)
      then show ?thesis using r(1) True fits by auto
    next
      case nodummy: False
      show ?thesis using assms(1)
      proof (cases rule: read_cases [where i = "pm_index m" and s = "pm_subindex m" and buf = "replicate 8 0"])
        case (err e)
        then show ?thesis using nodummy fits by simp
      next
        case (ok v)
        show ?thesis
        proof (cases "length v * 8 < ?n")
          case True
          then show ?thesis using nodummy fits ok by simp
        next
          case False
          let ?obj = "overwrite (replicate 8 0) 0 v"
          have "length ?obj = 8" using ok by simp
          then obtain d where d: "copy_pdo_bits ?obj 0 data off ?n = Some d" "copied_bits ?obj 0 data off ?n d"
            using copy_pdo_bits_spec [of 0 ?n ?obj off data] Cons.prems fits by auto
          have "\<exists>r. pack_mappings ops od ms d (off + ?n) = Some r
              \<and> (\<forall>x. r = Some x \<longrightarrow> pack_result (val od) ms d (off + ?n) x)"
            using Cons.prems fits d(2) by (intro Cons.IH) (auto simp: copied_bits_def)
          then obtain r where r: "pack_mappings ops od ms d (off + ?n) = Some r"
            "\<And>x. r = Some x \<Longrightarrow> pack_result (val od) ms d (off + ?n) x" by blast
          have "bit_at d (off + b) = bit_at v b" if "b < ?n" for b
            using that d(2) Cons.prems fits False
            by (simp add: copied_bits_def bit_at_overwrite_0)
          then have "pack_result (val od) (m # ms) data off x" if "r = Some x" for x
            using r(2) [OF that] Cons.prems nodummy fits False d(2) ok(1)
            by (auto simp: pack_result_def copied_bits_def)
          then show ?thesis using r(1) nodummy fits ok d(1) False by auto
        qed
      qed
    qed
  qed
qed

lemma build_pdo_frame_spec:
  assumes "inv od"
  shows "\<exists>r. build_pdo_frame ops pdo od = Some r \<and> (\<forall>f. r = Some f \<longrightarrow> wf_frame f
     \<and> raw_id f = tc_cob_id pdo \<and> mapping_bits (tc_mappings pdo) \<le> 64
     \<and> length (frame_data f) = bytes_for_bits (mapping_bits (tc_mappings pdo))
     \<and> packed (val od) (tc_mappings pdo) 0 (frame_data f))"
proof -
  let ?ms = "tc_mappings pdo"
  obtain r where r: "pack_mappings ops od ?ms (replicate 8 0) 0 = Some r"
    "\<And>x. r = Some x \<Longrightarrow> pack_result (val od) ?ms (replicate 8 0) 0 x"
    using pack_mappings_spec [OF assms, of "replicate 8 0" 0 ?ms] bit_at_zeros [of _ 8] by auto
  show ?thesis
  proof (cases r)
    case None
    then show ?thesis using r(1) by (simp add: build_pdo_frame_def)
  next
    case (Some x)
    obtain data n where x: "x = (data, n)" by fastforce
    have d: "length data = 8" "n = mapping_bits ?ms" "n \<le> 64" "packed (val od) ?ms 0 data"
      using r(2) [OF Some] by (auto simp: pack_result_def x)
    let ?p = "take (bytes_for_bits n) data"
    have p: "packed (val od) ?ms 0 ?p"
    proof (rule packed_cong [OF _ d(4)])
      fix k assume "k < 0 + mapping_bits ?ms"
      then show "bit_at data k = bit_at ?p k"
        using bits_le_bytes [of n] bytes_for_bits_le [OF d(3)] d(1,2) bit_at_take [of k "bytes_for_bits n" data] by simp
    qed
    have "build_pdo_frame ops pdo od = Some (can_frame_new (tc_cob_id pdo) ?p)"
      using r(1) Some x d(1) bytes_for_bits_le [OF d(3)]
      by (simp add: build_pdo_frame_def bytes_for_bits_def slice_def)
    then show ?thesis using p d bytes_for_bits_le [OF d(3)]
      by (auto dest: can_frame_new_raw_id can_frame_new_data can_frame_new_wf)
  qed
qed

end

section \<open>Unpacking\<close>

definition rpdo_len :: "'od od_ops \<Rightarrow> 'od \<Rightarrow> pdo_mapping \<Rightarrow> nat" where
  "rpdo_len ops od m = (case Option.bind (od_lookup ops od (pm_index m) (pm_subindex m)) (\<lambda>x. dt_size (meta_data_type x)) of
     Some sz \<Rightarrow> if bytes_for_bits (unat (pm_bit_length m)) \<le> sz then sz else bytes_for_bits (unat (pm_bit_length m))
   | None \<Rightarrow> bytes_for_bits (unat (pm_bit_length m)))"

lemma sign_extend_low_bits:
  assumes "n \<le> 8 * length v"
  shows "\<exists>v'. sign_extend_pdo_bits v n = Some v' \<and> length v' = length v \<and> (\<forall>k < n. bit_at v' k = bit_at v k)"
proof (cases "n = 0 \<or> n = 8 * length v")
  case True
  then show ?thesis by (auto simp: sign_extend_pdo_bits_def)
next
  case False
  then show ?thesis using assms put_bits_loop [of n "length v * 8" v] get_bit_eq [of "n - 1" v]
    by (auto simp: sign_extend_pdo_bits_def)
qed

lemma rpdo_value_spec:
  assumes "off + unat (pm_bit_length m) \<le> 8 * length data" "unat (pm_bit_length m) \<le> 64"
  shows "\<exists>v. rpdo_value ops od m data off = Some v \<and> length v = rpdo_len ops od m
     \<and> (\<forall>b < unat (pm_bit_length m). bit_at v b = bit_at data (off + b))"
proof -
  let ?n = "unat (pm_bit_length m)"
  let ?l = "bytes_for_bits ?n"
  obtain d where d: "copy_pdo_bits data off (replicate 8 0) 0 ?n = Some d"
      "copied_bits data off (replicate 8 0) 0 ?n d"
    using copy_pdo_bits_spec [of off ?n data 0 "replicate 8 0"] assms by auto
  have l: "length d = 8" "?l \<le> 8" "?n \<le> 8 * ?l"
    using d(2) bytes_for_bits_le [OF assms(2)] bits_le_bytes [of ?n] by (auto simp: copied_bits_def)
  have low: "bit_at (take sz d) b = bit_at data (off + b)" if "b < ?n" "?l \<le> sz" "sz \<le> 8" for sz b
    using that d(2) assms(2) l bit_at_take [of b sz d] by (simp add: copied_bits_def)
  have sz8: "sz \<le> 8" if "dt_size t = Some sz" for t sz using dt_size_bound [OF that] by simp
  have ext: "\<exists>v. sign_extend_pdo_bits (take sz d) ?n = Some v \<and> length v = sz
      \<and> (\<forall>b < ?n. bit_at v b = bit_at data (off + b))" if "?l \<le> sz" "sz \<le> 8" for sz
    using sign_extend_low_bits [of ?n "take sz d"] that l low [OF _ that] by auto
  show ?thesis
  proof (cases "Option.bind (od_lookup ops od (pm_index m) (pm_subindex m)) (\<lambda>x. dt_size (meta_data_type x))")
    case None
    then show ?thesis using d(1) l low [of _ ?l]
      by (auto simp: rpdo_value_def rpdo_len_def Let_def slice_def split: bind_splits)
  next
    case (Some sz)
    then obtain meta where "od_lookup ops od (pm_index m) (pm_subindex m) = Some meta"
      "dt_size (meta_data_type meta) = Some sz" by (auto split: bind_splits)
    then show ?thesis using d(1) l low [of _ ?l] low [of _ sz] ext [of sz] sz8
      by (simp add: rpdo_value_def rpdo_len_def Let_def slice_def)
  qed
qed

context object_dictionary
begin

text \<open>Applying a frame returns, keeps the dictionary lawful, and leaves unmapped objects alone.\<close>

lemma apply_mapped_spec:
  assumes "inv od" "length events \<le> Q"
  shows "\<exists>od' ev' dr'. apply_mapped Q ops ms data off (od, events, dr) = Some (od', ev', dr') \<and> inv od'
     \<and> length ev' \<le> Q \<and> (\<forall>i s. \<not> maps_object ms i s \<longrightarrow> val od' i s = val od i s)"
  using assms
proof (induction ms arbitrary: off od events dr)
  case Nil
  then show ?case by simp
next
  case (Cons m ms)
  let ?n = "unat (pm_bit_length m)"
  have sub: "\<not> maps_object ms i s" if "\<not> maps_object (m # ms) i s" for i s
    using that by (auto simp: maps_object_def)
  show ?case
  proof (cases "off + ?n > length data * 8 \<or> bytes_for_bits ?n > 8")
    case True
    then show ?thesis using Cons.prems by simp
  next
    case fits: False
    show ?thesis
    proof (cases "is_dummy_mapping_index (pm_index m)")
      case True
      then show ?thesis using fits Cons.IH [OF Cons.prems] sub by (simp add: Let_def) blast
    next
      case nodummy: False
      have "?n \<le> 64" using fits bits_le_bytes [of ?n] by simp
      then obtain v where v: "rpdo_value ops od m data off = Some v"
        using rpdo_value_spec [of off m data ops od] fits by auto
      obtain r od1 where w: "od_write ops od (pm_index m) (pm_subindex m) v = (r, od1)" by fastforce
      have i1: "inv od1" using write_inv [OF Cons.prems(1) w] .
      have fr: "val od1 i s = val od i s" if "\<not> maps_object (m # ms) i s" for i s
      proof (cases r)
        case (Inl e)
        then show ?thesis using write_refused Cons.prems(1) w by blast
      next
        case (Inr u)
        have "(i, s) \<noteq> (pm_index m, pm_subindex m)" using that by (auto simp: maps_object_def)
        then show ?thesis using write_frame [OF Cons.prems(1)] w Inr by (cases u) auto
      qed
      have "\<exists>od' ev' dr'. apply_mapped Q ops ms data (off + ?n) (od1, ev1, dr1) = Some (od', ev', dr') \<and> inv od'
          \<and> length ev' \<le> Q \<and> (\<forall>i s. \<not> maps_object ms i s \<longrightarrow> val od' i s = val od1 i s)"
        if "length ev1 \<le> Q" for ev1 dr1
        using Cons.IH [OF i1 that] .
      from this [OF Cons.prems(2)] this [OF length_push_evict [OF Cons.prems(2)], of "rpdo_event m"]
      show ?thesis using fits nodummy v w fr sub
        by (cases r) (simp_all add: Let_def, metis+)
    qed
  qed
qed

end
section \<open>Which TPDOs a SYNC sends\<close>

definition is_sync_cyclic :: "u8 \<Rightarrow> bool" where
  "is_sync_cyclic tt \<longleftrightarrow> 1 \<le> tt \<and> tt \<le> 240"

text \<open>The slot is due: a latched event of type 0, or the last SYNC of a cyclic period.\<close>

definition sync_due :: "tpdo_engine \<Rightarrow> nat \<Rightarrow> bool" where
  "sync_due e i \<longleftrightarrow> (let pdo = te_pdos e ! i; tt = tc_transmission_type pdo in tc_enabled pdo \<and>
     (tt = 0 \<and> te_sync_event_pending e ! i \<or> is_sync_cyclic tt \<and> tt \<le> te_sync_counter e ! i + 1))"

definition sync_frames :: "'od od_ops \<Rightarrow> 'od \<Rightarrow> tpdo_engine \<Rightarrow> nat \<Rightarrow> can_frame list" where
  "sync_frames ops od e i = (if sync_due e i then
     (case build_pdo_frame ops (te_pdos e ! i) od of Some (Some f) \<Rightarrow> [f] | _ \<Rightarrow> []) else [])"

definition next_sync_counter :: "tpdo_config \<Rightarrow> u8 \<Rightarrow> u8" where
  "next_sync_counter pdo c = (if tc_enabled pdo \<and> is_sync_cyclic (tc_transmission_type pdo)
     then if tc_transmission_type pdo \<le> c + 1 then 0 else c + 1 else c)"

definition next_sync_event :: "tpdo_config \<Rightarrow> bool \<Rightarrow> bool" where
  "next_sync_event pdo p \<longleftrightarrow> p \<and> \<not> (tc_enabled pdo \<and> tc_transmission_type pdo = 0)"

text \<open>The engine after the slots below \<open>k\<close> were served.\<close>

definition synced_upto :: "nat \<Rightarrow> tpdo_engine \<Rightarrow> tpdo_engine" where
  "synced_upto k e = e\<lparr>
     te_sync_counter := map (\<lambda>i. if i < k then next_sync_counter (te_pdos e ! i) (te_sync_counter e ! i)
       else te_sync_counter e ! i) (te_slots e),
     te_sync_event_pending := map (\<lambda>i. if i < k then next_sync_event (te_pdos e ! i) (te_sync_event_pending e ! i)
       else te_sync_event_pending e ! i) (te_slots e)\<rparr>"

lemma map_upto_Suc:
  "k < n \<Longrightarrow> map (\<lambda>i. if i < Suc k then f i else g i) [0..<n]
    = (map (\<lambda>i. if i < k then f i else g i) [0..<n])[k := f k]"
  by (auto intro!: nth_equalityI simp: nth_list_update)

lemma synced_upto_0: "wf_tpdo_engine e \<Longrightarrow> synced_upto 0 e = e"
  unfolding synced_upto_def wf_tpdo_engine_def Let_def
  by (cases e) (auto intro!: nth_equalityI)

lemma synced_upto_nth:
  assumes "wf_tpdo_engine e" "k < length (te_pdos e)"
  shows "te_pdos (synced_upto k e) = te_pdos e"
    "te_sync_counter (synced_upto k e) ! k = te_sync_counter e ! k"
    "te_sync_event_pending (synced_upto k e) ! k = te_sync_event_pending e ! k"
  using assms by (simp_all add: synced_upto_def wf_tpdo_engine_def)

lemma synced_upto_Suc:
  assumes "wf_tpdo_engine e" "k < length (te_pdos e)"
  shows "synced_upto (Suc k) e = (synced_upto k e)\<lparr>
    te_sync_counter := (te_sync_counter (synced_upto k e))[k := next_sync_counter (te_pdos e ! k) (te_sync_counter e ! k)],
    te_sync_event_pending := (te_sync_event_pending (synced_upto k e))[k := next_sync_event (te_pdos e ! k) (te_sync_event_pending e ! k)]\<rparr>"
  using assms(2) by (simp add: synced_upto_def map_upto_Suc)

lemma wf_counter: "wf_tpdo_engine e \<Longrightarrow> i < length (te_pdos e) \<Longrightarrow> te_sync_counter e ! i < 240"
  by (simp add: wf_tpdo_engine_def Let_def)

lemma incr_u8_small: "c < 240 \<Longrightarrow> incr_u8 c = Some (c + 1)"
  by (auto simp: incr_u8_def)

lemma length_concat_le: "(\<And>x. x \<in> set xs \<Longrightarrow> length (f x) \<le> 1) \<Longrightarrow> length (concat (map f xs)) \<le> length xs"
  by (induction xs) (auto simp: add_le_mono [of _ 1, simplified])

lemma length_sync_frames: "length (sync_frames ops od e i) \<le> 1"
  by (auto simp: sync_frames_def split: option.splits)

context object_dictionary
begin

lemma tpdo_on_sync_step:
  assumes "wf_tpdo_engine e" "inv od" "k < length (te_pdos e)" "length out \<le> k"
  shows "tpdo_on_sync_slot ops od k (synced_upto k e, out) = Some (synced_upto (Suc k) e, out @ sync_frames ops od e k)"
proof -
  let ?pdo = "te_pdos e ! k"
  obtain r where r: "build_pdo_frame ops ?pdo od = Some r" using build_pdo_frame_spec [OF assms(2)] by blast
  have push: "push_frame (length (te_pdos e)) out r = out @ (case r of Some f \<Rightarrow> [f] | None \<Rightarrow> [])"
    using assms(3,4) by (auto simp: push_frame_def push_back_def split: option.splits)
  have c: "incr_u8 (te_sync_counter e ! k) = Some (te_sync_counter e ! k + 1)"
    using wf_counter [OF assms(1,3)] by (rule incr_u8_small)
  have l: "(te_sync_counter (synced_upto k e))[k := te_sync_counter e ! k] = te_sync_counter (synced_upto k e)"
    "(te_sync_event_pending (synced_upto k e))[k := te_sync_event_pending e ! k] = te_sync_event_pending (synced_upto k e)"
    using list_update_id [of "te_sync_counter (synced_upto k e)" k]
      list_update_id [of "te_sync_event_pending (synced_upto k e)" k]
    unfolding synced_upto_nth [OF assms(1,3)] by simp_all
  show ?thesis
    using r push c l synced_upto_nth [OF assms(1,3)] 
    by (cases r) (auto simp: tpdo_on_sync_slot_def Let_def sync_frames_def sync_due_def is_sync_cyclic_def
        synced_upto_Suc [OF assms(1,3)] next_sync_counter_def next_sync_event_def)
qed


lemma tpdo_on_sync_spec:
  assumes "wf_tpdo_engine e" "inv od"
  shows "tpdo_on_sync ops od e [] =
     Some (synced_upto (length (te_pdos e)) e, concat (map (sync_frames ops od e) (te_slots e)))"
proof -
  let ?P = "\<lambda>k s. s = (synced_upto k e, concat (map (sync_frames ops od e) [0..<k]))"
  have "\<exists>s'. for_each (tpdo_on_sync_slot ops od) (te_slots e) (e, []) = Some s' \<and> ?P (length (te_pdos e)) s'"
  proof (rule for_each_upt)
    show "?P 0 (e, [])" using assms(1) by (simp add: synced_upto_0)
  next
    fix i s assume i: "i < length (te_pdos e)" "?P i s"
    have "length (concat (map (sync_frames ops od e) [0..<i])) \<le> length [0..<i]"
      by (rule length_concat_le) (rule length_sync_frames)
    then have "length (concat (map (sync_frames ops od e) [0..<i])) \<le> i" by simp
    from tpdo_on_sync_step [OF assms i(1) this] i(2)
    show "\<exists>s'. tpdo_on_sync_slot ops od i s = Some s' \<and> ?P (Suc i) s'" by simp
  qed
  then show ?thesis by (simp add: tpdo_on_sync_def)
qed

end

lemma next_sync_counter_less:
  assumes "c < 240"
  shows "next_sync_counter pdo c < 240"
proof -
  have "c + 1 < 240" if "tt \<le> 240" "\<not> tt \<le> c + 1" for tt :: u8
    using that by (meson less_le_trans not_le)
  then show ?thesis using assms by (auto simp: next_sync_counter_def is_sync_cyclic_def)
qed

lemma synced_wf: "wf_tpdo_engine e \<Longrightarrow> wf_tpdo_engine (synced_upto k e)"
  by (auto simp: wf_tpdo_engine_def synced_upto_def Let_def intro!: next_sync_counter_less)

text \<open>The engine after \<open>k\<close> SYNC pulses.\<close>

definition synced :: "tpdo_engine \<Rightarrow> tpdo_engine" where
  "synced e = synced_upto (length (te_pdos e)) e"

definition after_syncs :: "nat \<Rightarrow> tpdo_engine \<Rightarrow> tpdo_engine" where
  "after_syncs k e = (synced ^^ k) e"

lemma after_syncs_simps [simp]: "after_syncs 0 e = e" "after_syncs (Suc k) e = synced (after_syncs k e)"
  by (simp_all add: after_syncs_def)

lemma synced_fields:
  "te_pdos (synced e) = te_pdos e" "wf_tpdo_engine e \<Longrightarrow> wf_tpdo_engine (synced e)"
  "i < length (te_pdos e) \<Longrightarrow> te_sync_counter (synced e) ! i = next_sync_counter (te_pdos e ! i) (te_sync_counter e ! i)"
  by (simp_all add: synced_def synced_wf) (simp_all add: synced_upto_def)

lemma after_syncs_fields: "te_pdos (after_syncs k e) = te_pdos e" "wf_tpdo_engine e \<Longrightarrow> wf_tpdo_engine (after_syncs k e)"
  by (induction k) (simp_all add: synced_fields)

lemma unat_incr_less:
  assumes "c < (240 :: u8)"
  shows "unat (c + 1) = unat c + 1"
  using assms by (intro unat_Suc_lt)

lemma after_syncs_counter:
  assumes "wf_tpdo_engine e" "i < length (te_pdos e)" "te_sync_counter e ! i = 0"
    and "tc_enabled (te_pdos e ! i)" "is_sync_cyclic (tc_transmission_type (te_pdos e ! i))"
  shows "unat (te_sync_counter (after_syncs k e) ! i) = k mod unat (tc_transmission_type (te_pdos e ! i))"
proof (induction k)
  case 0
  then show ?case using assms by simp
next
  case (Suc k)
  let ?tt = "tc_transmission_type (te_pdos e ! i)"
  let ?c = "te_sync_counter (after_syncs k e) ! i"
  have "?c < 240" using wf_counter [of "after_syncs k e" i] assms by (simp add: after_syncs_fields)
  then have u: "unat (?c + 1) = k mod unat ?tt + 1" using Suc by (simp add: unat_incr_less)
  have pos: "0 < unat ?tt" using assms(5) by (auto simp: is_sync_cyclic_def word_le_nat_alt)
  then have "k mod unat ?tt < unat ?tt" by simp
  then have "?tt \<le> ?c + 1 \<longleftrightarrow> Suc (k mod unat ?tt) = unat ?tt" using u by (auto simp: word_le_nat_alt)
  moreover have "te_sync_counter (after_syncs (Suc k) e) ! i = (if ?tt \<le> ?c + 1 then 0 else ?c + 1)"
    using assms by (simp add: synced_fields after_syncs_fields next_sync_counter_def)
  ultimately show ?case using u by (simp add: mod_Suc)
qed

lemma sync_due_cyclic:
  assumes "wf_tpdo_engine e" "i < length (te_pdos e)" "te_sync_counter e ! i = 0"
    and "tc_enabled (te_pdos e ! i)" "is_sync_cyclic (tc_transmission_type (te_pdos e ! i))"
  shows "sync_due (after_syncs k e) i \<longleftrightarrow> unat (tc_transmission_type (te_pdos e ! i)) dvd Suc k"
proof -
  let ?tt = "tc_transmission_type (te_pdos e ! i)"
  let ?c = "te_sync_counter (after_syncs k e) ! i"
  have "?c < 240" using wf_counter [of "after_syncs k e" i] assms by (simp add: after_syncs_fields)
  then have u: "unat (?c + 1) = k mod unat ?tt + 1"
    using after_syncs_counter [OF assms] by (simp add: unat_incr_less)
  have pos: "0 < unat ?tt" using assms(5) by (auto simp: is_sync_cyclic_def word_le_nat_alt)
  then have "k mod unat ?tt < unat ?tt" by simp
  then have "?tt \<le> ?c + 1 \<longleftrightarrow> Suc (k mod unat ?tt) = unat ?tt" using u by (auto simp: word_le_nat_alt)
  moreover have "Suc (k mod unat ?tt) = unat ?tt \<longleftrightarrow> unat ?tt dvd Suc k"
    using pos by (auto simp: mod_Suc dvd_eq_mod_eq_0)
  moreover have "?tt \<noteq> 0" using assms(5) by (auto simp: is_sync_cyclic_def)
  ultimately show ?thesis using assms(4,5) by (simp add: sync_due_def after_syncs_fields Let_def)
qed

section \<open>Polling\<close>

text \<open>What one slot of a poll does: nothing but latch, or send a frame the transport accepts.\<close>

definition poll_inhibit_us :: "tpdo_config \<Rightarrow> u64" where
  "poll_inhibit_us pdo = ucast (tc_inhibit_time_100us pdo) * 100"

definition wf_poll :: "tpdo_engine \<Rightarrow> tpdo_engine \<Rightarrow> bool" where
  "wf_poll e e' \<longleftrightarrow> wf_tpdo_engine e' \<and> te_pdos e' = te_pdos e \<and> te_sync_counter e' = te_sync_counter e
     \<and> te_sync_event_pending e' = te_sync_event_pending e"

context object_dictionary
begin

lemma tpdo_poll_slot_total:
  assumes "inv od" "wf_tpdo_engine e"
  shows "\<exists>e' t'. tpdo_poll_slot ops od now dirty accept i (e, t) = Some (e', t') \<and> wf_poll e e'"
proof -
  obtain r where r: "build_pdo_frame ops (te_pdos e ! i) od = Some r" using build_pdo_frame_spec [OF assms(1)] by blast
  show ?thesis using assms(2)
    by (auto simp: tpdo_poll_slot_def Let_def r wf_poll_def wf_tpdo_engine_def split: option.split prod.split)
qed

lemma tpdo_poll_with_total:
  fixes t :: 't
  assumes "inv od" "wf_tpdo_engine e"
  shows "\<exists>e' t'. tpdo_poll_with ops od now dirty accept e t = Some (e', t') \<and> wf_poll e e'"
proof -
  have "\<exists>s'. for_each (tpdo_poll_slot ops od now dirty accept) (te_slots e) (e, t) = Some s' \<and> wf_poll e (fst s')"
  proof (rule for_each_inv)
    fix i and s :: "tpdo_engine \<times> 't"
    assume "wf_poll e (fst s)"
    moreover obtain e1 t1 where "s = (e1, t1)" by fastforce
    ultimately show "\<exists>s'. tpdo_poll_slot ops od now dirty accept i s = Some s' \<and> wf_poll e (fst s')"
      using tpdo_poll_slot_total [OF assms(1), of e1 now dirty accept i t1] by (auto simp: wf_poll_def)
  qed (use assms in \<open>simp add: wf_poll_def\<close>)
  then show ?thesis by (auto simp: tpdo_poll_with_def)
qed

end

text \<open>
  A slot hands a frame to the transport only when its inhibit time has passed, and a frame the
  transport refuses leaves the timestamp and the latch as they are for the next poll.
\<close>

lemma tpdo_poll_slot_inhibit:
  assumes "tpdo_poll_slot ops od now dirty accept i (e, t) = Some (e', t')"
    and "te_last_send_us e' \<noteq> te_last_send_us e \<or> t' \<noteq> t"
  shows "poll_inhibit_us (te_pdos e ! i) \<le> now - te_last_send_us e ! i"
  using assms by (auto simp: tpdo_poll_slot_def Let_def poll_inhibit_us_def split: if_splits)

lemma nth_list_update_True: "xs ! j \<Longrightarrow> xs[i := True] ! j"
  by (cases "i < length xs") (auto simp: nth_list_update list_update_beyond)

lemma tpdo_poll_slot_refused:
  assumes "tpdo_poll_slot ops od now dirty (\<lambda>t f. (False, g t f)) i (e, t) = Some (e', t')"
  shows "te_last_send_us e' = te_last_send_us e"
    and "te_async_event_pending e ! j \<longrightarrow> te_async_event_pending e' ! j"
  using assms by (auto simp: tpdo_poll_slot_def Let_def nth_list_update_True
      split: if_splits bind_splits option.splits)

section \<open>RPDO reception\<close>

context object_dictionary
begin

lemma rpdo_on_sync_slot_total:
  assumes "inv od" "length ev \<le> Q" "wf_rpdo_engine e" "i < length (re_pdos e)"
  shows "\<exists>od' ev' dr' e'. rpdo_on_sync_slot Q ops i (e, od, ev, dr) = Some (e', od', ev', dr') \<and> inv od'
     \<and> length ev' \<le> Q \<and> e' = e\<lparr>re_pending := (re_pending e)[i := None]\<rparr>"
proof (cases "re_pending e ! i")
  case None
  then have "(re_pending e)[i := None] = re_pending e" by (metis list_update_id)
  with None show ?thesis using assms by (simp add: rpdo_on_sync_slot_def)
next
  case (Some f)
  obtain od' ev' dr' where "apply_mapped Q ops (rc_mappings (re_pdos e ! i)) (frame_data f) 0 (od, ev, 0) = Some (od', ev', dr')"
    "inv od'" "length ev' \<le> Q" using apply_mapped_spec [OF assms(1,2)] by blast
  with Some show ?thesis by (simp add: rpdo_on_sync_slot_def)
qed

text \<open>A SYNC commits every buffered frame: afterwards nothing is pending.\<close>

lemma rpdo_on_sync_spec:
  assumes "inv od" "length ev \<le> Q" "wf_rpdo_engine e"
  shows "\<exists>od' ev' dr'. rpdo_on_sync Q ops e od ev = Some (discard_pending e, od', ev', dr') \<and> inv od' \<and> length ev' \<le> Q"
proof -
  let ?N = "length (re_pdos e)"
  let ?e = "\<lambda>k. e\<lparr>re_pending := map (\<lambda>i. if i < k then None else re_pending e ! i) [0..<?N]\<rparr>"
  let ?P = "\<lambda>k (e', od', ev' :: od_event list, dr' :: u32). e' = ?e k \<and> inv od' \<and> length ev' \<le> Q"
  have "\<exists>s'. for_each (rpdo_on_sync_slot Q ops) (re_slots e) (e, od, ev, 0) = Some s' \<and> ?P ?N s'"
  proof (rule for_each_upt [where P = ?P])
    have "map ((!) (re_pending e)) [0..<?N] = re_pending e"
      using assms(3) map_nth [of "re_pending e"] by (simp add: wf_rpdo_engine_def Let_def)
    then show "?P 0 (e, od, ev, 0)" using assms by simp
  next
    fix i s assume i: "i < ?N" "?P i s"
    obtain e1 od1 ev1 dr1 where s: "s = (e1, od1, ev1, dr1)" by (cases s)
    have "wf_rpdo_engine (?e i)" using assms(3) by (simp add: wf_rpdo_engine_def Let_def)
    with rpdo_on_sync_slot_total [of od1 ev1 Q e1 i dr1] i s
    show "\<exists>s'. rpdo_on_sync_slot Q ops i s = Some s' \<and> ?P (Suc i) s'"
      by (auto simp: map_upto_Suc)
  qed
  moreover have "?e ?N = discard_pending e"
    by (auto simp: discard_pending_def intro!: nth_equalityI rpdo_engine.equality)
  ultimately show ?thesis by (auto simp: rpdo_on_sync_def)
qed

lemma rpdo_process_total:
  assumes "inv od" "length ev \<le> Q" "wf_rpdo_engine e"
  shows "\<exists>c d e' od' ev'. rpdo_process Q ops f now e od ev = Some (c, d, e', od', ev') \<and> inv od'
     \<and> length ev' \<le> Q \<and> wf_rpdo_engine e' \<and> re_pdos e' = re_pdos e"
proof -
  have "\<exists>od' ev' dr'. apply_mapped Q ops ms (frame_data f) 0 (od, ev, 0) = Some (od', ev', dr') \<and> inv od' \<and> length ev' \<le> Q" for ms
    using apply_mapped_spec [OF assms(1,2)] by blast
  note ap = this
  show ?thesis
  proof (cases "find (\<lambda>i. rc_enabled (re_pdos e ! i) \<and> raw_id f = rc_cob_id (re_pdos e ! i)) (re_slots e)")
    case None
    then show ?thesis using assms by (auto simp: rpdo_process_def)
  next
    case (Some slot)
    obtain od' ev' dr' where "apply_mapped Q ops (rc_mappings (re_pdos e ! slot)) (frame_data f) 0 (od, ev, 0) = Some (od', ev', dr')"
      "inv od'" "length ev' \<le> Q" using ap by blast
    then show ?thesis using assms Some
      by (auto simp: rpdo_process_def Let_def wf_rpdo_engine_def)
  qed
qed

end

text \<open>A synchronous RPDO's frame is buffered: the dictionary and the events stay as they are.\<close>

lemma rpdo_process_synchronous:
  assumes "find (\<lambda>i. rc_enabled (re_pdos e ! i) \<and> raw_id f = rc_cob_id (re_pdos e ! i)) (re_slots e) = Some slot"
    and "raw_is_synchronous (rc_transmission_type (re_pdos e ! slot))"
    and "rpdo_process Q ops f now e od ev = Some (c, d, e', od', ev')"
  shows "od' = od \<and> ev' = ev \<and> d = 0 \<and> c"
  using assms by (auto simp: rpdo_process_def Let_def split: if_splits)

section \<open>Deadlines\<close>

definition deadline_due :: "u64 \<Rightarrow> rpdo_engine \<Rightarrow> nat \<Rightarrow> bool" where
  "deadline_due now e i \<longleftrightarrow> rc_enabled (re_pdos e ! i) \<and> rc_deadline_ms (re_pdos e ! i) \<noteq> 0 \<and> re_armed e ! i
     \<and> \<not> re_expired e ! i \<and> now - re_last_rx_us e ! i > ucast (rc_deadline_ms (re_pdos e ! i)) * 1000"

definition deadline_report :: "u64 \<Rightarrow> rpdo_engine \<Rightarrow> nat \<Rightarrow> pdo_number list" where
  "deadline_report now e i = (if deadline_due now e i
     then (case pdo_number_new (pdo_number_for_slot (rc_od_number (re_pdos e ! i)) i) of Some n \<Rightarrow> [n] | None \<Rightarrow> []) else [])"

definition next_expired :: "u64 \<Rightarrow> rpdo_engine \<Rightarrow> nat \<Rightarrow> bool" where
  "next_expired now e i \<longleftrightarrow> re_expired e ! i \<or> deadline_due now e i"

text \<open>The engine after the slots below \<open>k\<close> were checked.\<close>

definition checked_upto :: "u64 \<Rightarrow> nat \<Rightarrow> rpdo_engine \<Rightarrow> rpdo_engine" where
  "checked_upto now k e = e\<lparr>re_expired :=
     map (\<lambda>i. if i < k then next_expired now e i else re_expired e ! i) (re_slots e)\<rparr>"

lemma check_deadline_step:
  assumes "k < length (re_pdos e)" and "length out \<le> k"
  shows "check_deadline_slot now k (checked_upto now k e, out) =
    (checked_upto now (Suc k) e, out @ deadline_report now e k)"
proof -
  let ?c = "checked_upto now k e"
  have c: "re_pdos ?c = re_pdos e" "re_armed ?c = re_armed e" "re_last_rx_us ?c = re_last_rx_us e"
    "re_expired ?c ! k = re_expired e ! k"
    using assms(1) by (simp_all add: checked_upto_def)
  have s: "checked_upto now (Suc k) e = ?c\<lparr>re_expired := (re_expired ?c)[k := next_expired now e k]\<rparr>"
    using assms(1) by (simp add: checked_upto_def map_upto_Suc)
  have push: "push_back (length (re_pdos e)) out n = out @ [n]" for n
    using assms by (simp add: push_back_def)
  show ?thesis
  proof (cases "deadline_due now e k")
    case True
    then have "next_expired now e k" by (simp add: next_expired_def)
    with True c s push show ?thesis
      by (auto simp: check_deadline_slot_def deadline_due_def deadline_report_def Let_def split: option.split)
  next
    case False
    then have "checked_upto now (Suc k) e = ?c"
      using s c(4) list_update_id [of "re_expired ?c" k] by (simp add: next_expired_def)
    with False c show ?thesis
      by (auto simp: check_deadline_slot_def deadline_due_def deadline_report_def Let_def)
  qed
qed

lemma length_deadline_report: "length (deadline_report now e i) \<le> 1"
  by (auto simp: deadline_report_def split: option.splits)

lemma check_deadlines_spec:
  assumes "wf_rpdo_engine e"
  shows "check_deadlines now e [] =
    (checked_upto now (length (re_pdos e)) e, concat (map (deadline_report now e) (re_slots e)))"
proof -
  have "fold (check_deadline_slot now) [0..<k] (e, []) =
      (checked_upto now k e, concat (map (deadline_report now e) [0..<k]))"
    if "k \<le> length (re_pdos e)" for k using that
  proof (induction k)
    case 0
    show ?case using assms map_nth [of "re_expired e"] by (simp add: checked_upto_def wf_rpdo_engine_def Let_def)
  next
    case (Suc k)
    have "length (concat (map (deadline_report now e) [0..<k])) \<le> length [0..<k]"
      by (rule length_concat_le) (rule length_deadline_report)
    with Suc check_deadline_step [of k e "concat (map (deadline_report now e) [0..<k])" now]
    show ?case by simp
  qed
  then show ?thesis by (simp add: check_deadlines_def)
qed

section \<open>Properties\<close>

text \<open>
  Deadline monitoring is edge-triggered: a check marks exactly the monitored RPDOs whose
  silence exceeds the deadline, reports each newly expired one once, and a second check at the
  same time reports nothing.
\<close>

theorem rpdo_deadlines_edge_triggered:
  assumes "wf_rpdo_engine e"
  shows "check_deadlines now e [] = (checked_upto now (length (re_pdos e)) e,
      concat (map (deadline_report now e) (re_slots e)))
    \<and> (\<forall>i < length (re_pdos e). \<not> deadline_due now (checked_upto now (length (re_pdos e)) e) i)"
  using check_deadlines_spec [OF assms]
  by (auto simp: deadline_due_def checked_upto_def next_expired_def)

theorem rpdo_deadlines_edge_triggered_witness:
  "check_deadlines 200000 \<lparr>re_pdos = [rpdo_config_default\<lparr>rc_enabled := True, rc_deadline_ms := 100\<rparr>],
     re_pending = [None], re_last_rx_us = [0], re_armed = [True], re_expired = [False], re_length_errors = 0\<rparr> []
   = (\<lparr>re_pdos = [rpdo_config_default\<lparr>rc_enabled := True, rc_deadline_ms := 100\<rparr>],
     re_pending = [None], re_last_rx_us = [0], re_armed = [True], re_expired = [True], re_length_errors = 0\<rparr>,
     [PdoNumber 1])"
  using rpdo_deadlines_edge_triggered [of "\<lparr>re_pdos = [rpdo_config_default\<lparr>rc_enabled := True, rc_deadline_ms := 100\<rparr>],
     re_pending = [None], re_last_rx_us = [0], re_armed = [True], re_expired = [False], re_length_errors = 0\<rparr>" 200000]
  by (simp add: wf_rpdo_engine_def checked_upto_def next_expired_def deadline_due_def deadline_report_def
      rpdo_config_default_def pdo_number_for_slot_def pdo_number_new_def)



end
