(* ===== verification/Od_Generated.thy ===== *)
theory Od_Generated
  imports Pdo_Engine
begin

unbundle bit_operations_syntax

text \<open>
  The dictionaries generated by \<open>object_dictionary!\<close>
  (\<open>canopen-derive/src/codegen.rs\<close>): the fields, metadata and read/write arms that the macro
  emits for variables, records and arrays, as a list of entries with their current values.
  The application's \<open>validate_write\<close> hook is a parameter. The generated PDO and additional
  SDO server records are not part of this model. The dictionary satisfies the laws of
  \<open>object_dictionary\<close>.
\<close>

section \<open>Values and their wire format\<close>

text \<open>A field holds a value of its Rust representation type; floats are their bit patterns.\<close>

datatype od_value = VBool bool | VW8 u8 | VW16 u16 | VW32 u32 | VW64 u64 | VBytes bytes

text \<open>\<open>rust_repr_type\<close>: the representation a DSL type has.\<close>

fun repr_ok :: "data_type \<Rightarrow> od_value \<Rightarrow> bool" where
  "repr_ok t (VBool _) \<longleftrightarrow> t = Boolean"
| "repr_ok t (VW8 _) \<longleftrightarrow> t = U8 \<or> t = I8"
| "repr_ok t (VW16 _) \<longleftrightarrow> t = U16 \<or> t = I16"
| "repr_ok t (VW32 _) \<longleftrightarrow> t = U32 \<or> t = I32 \<or> t = Real32 \<or> t = U24 \<or> t = I24"
| "repr_ok t (VW64 _) \<longleftrightarrow> t = U64 \<or> t = I64 \<or> t = Real64"
| "repr_ok t (VBytes _) \<longleftrightarrow> t = VisibleString \<or> t = OctetString \<or> t = Domain"

text \<open>The bytes a read arm copies out: \<open>&to_le_bytes()[..size]\<close> for the fixed-size types.\<close>

fun wire :: "data_type \<Rightarrow> od_value \<Rightarrow> bytes" where
  "wire t (VBool b) = [if b then 1 else 0]"
| "wire t (VW8 w) = [w]"
| "wire t (VW16 w) = to_le_bytes 2 w"
| "wire t (VW32 w) = (if t = U24 \<or> t = I24 then take 3 (to_le_bytes 4 w) else to_le_bytes 4 w)"
| "wire t (VW64 w) = to_le_bytes 8 w"
| "wire t (VBytes bs) = bs"

text \<open>
  The value a write arm stores for data of the right length: \<open>i24\<close> is sign-extended and
  \<open>u24\<close> zero-extended from three wire bytes.
\<close>

definition unwire :: "data_type \<Rightarrow> bytes \<Rightarrow> od_value" where
  "unwire t data = (case t of
     Boolean \<Rightarrow> VBool (data ! 0 \<noteq> 0)
   | U8 \<Rightarrow> VW8 (data ! 0) | I8 \<Rightarrow> VW8 (data ! 0)
   | U16 \<Rightarrow> VW16 (from_le_bytes data) | I16 \<Rightarrow> VW16 (from_le_bytes data)
   | I24 \<Rightarrow> VW32 (from_le_bytes (data @ [if data ! 2 AND 0x80 \<noteq> 0 then 0xFF else 0x00]))
   | U24 \<Rightarrow> VW32 (from_le_bytes (data @ [0x00]))
   | U32 \<Rightarrow> VW32 (from_le_bytes data) | I32 \<Rightarrow> VW32 (from_le_bytes data)
   | Real32 \<Rightarrow> VW32 (from_le_bytes data)
   | U64 \<Rightarrow> VW64 (from_le_bytes data) | I64 \<Rightarrow> VW64 (from_le_bytes data)
   | Real64 \<Rightarrow> VW64 (from_le_bytes data)
   | VisibleString \<Rightarrow> VBytes data | OctetString \<Rightarrow> VBytes data | Domain \<Rightarrow> VBytes data)"

text \<open>\<open>core::str::from_utf8(data).is_ok()\<close>: the well-formed UTF-8 sequences.\<close>

definition utf8_cont :: "u8 \<Rightarrow> bool" where
  "utf8_cont b \<longleftrightarrow> 0x80 \<le> b \<and> b \<le> 0xBF"

fun utf8_valid :: "bytes \<Rightarrow> bool" where
  "utf8_valid [] = True"
| "utf8_valid [a] = (a < 0x80)"
| "utf8_valid [a, b] =
     (if a < 0x80 then utf8_valid [b] else 0xC2 \<le> a \<and> a \<le> 0xDF \<and> utf8_cont b)"
| "utf8_valid [a, b, c] =
     (if a < 0x80 then utf8_valid [b, c]
      else if 0xC2 \<le> a \<and> a \<le> 0xDF then utf8_cont b \<and> utf8_valid [c]
      else 0xE0 \<le> a \<and> a \<le> 0xEF \<and> utf8_cont b \<and> utf8_cont c
        \<and> (a = 0xE0 \<longrightarrow> 0xA0 \<le> b) \<and> (a = 0xED \<longrightarrow> b \<le> 0x9F))"
| "utf8_valid (a # b # c # d # rest) =
     (if a < 0x80 then utf8_valid (b # c # d # rest)
      else if 0xC2 \<le> a \<and> a \<le> 0xDF then utf8_cont b \<and> utf8_valid (c # d # rest)
      else if 0xE0 \<le> a \<and> a \<le> 0xEF then utf8_cont b \<and> utf8_cont c
        \<and> (a = 0xE0 \<longrightarrow> 0xA0 \<le> b) \<and> (a = 0xED \<longrightarrow> b \<le> 0x9F) \<and> utf8_valid (d # rest)
      else 0xF0 \<le> a \<and> a \<le> 0xF4 \<and> utf8_cont b \<and> utf8_cont c \<and> utf8_cont d
        \<and> (a = 0xF0 \<longrightarrow> 0x90 \<le> b) \<and> (a = 0xF4 \<longrightarrow> b \<le> 0x8F) \<and> utf8_valid rest)"

section \<open>Definitions\<close>

record var_def =
  vd_type :: data_type
  vd_access :: access_type
  vd_pdo_mappable :: bool
  vd_capacity :: "nat option"
  vd_default :: "od_value option"

record array_def =
  ad_type :: data_type
  ad_count :: nat
  ad_access :: access_type
  ad_pdo_mappable :: bool

datatype entry_kind =
    VarEntry var_def
  | RecordEntry "(u8 \<times> string \<times> var_def) list"
  | ArrayEntry array_def

record od_def_entry =
  de_index :: u16
  de_name :: string
  de_kind :: entry_kind

datatype mapping_kind = Immutable | Mutable
datatype cob_id_spec = Absolute u32 | NodeRelative u32
datatype pdo_direction = DirTpdo | DirRpdo

record pdo_mapping_def =
  pmd_field :: string
  pmd_bit_length :: "u8 option"
  pmd_raw :: "u32 option"

record pdo_def =
  pd_direction :: pdo_direction
  pd_number :: u16
  pd_cob_id :: "cob_id_spec option"
  pd_transmission_type :: u8
  pd_inhibit_time :: u16
  pd_event_timer :: u16
  pd_mapping :: mapping_kind
  pd_mappings :: "pdo_mapping_def list"

record sdo_server_def =
  sd_number :: u16
  sd_cob_rx :: cob_id_spec
  sd_cob_tx :: cob_id_spec

record od_definition =
  def_entries :: "od_def_entry list"
  def_pdos :: "pdo_def list"
  def_sdo_servers :: "sdo_server_def list"
  def_use_alloc :: bool

section \<open>The generated entries\<close>

text \<open>
  One match arm of the generated code: its metadata, the checks of its write arm, the heapless
  capacity (\<open>None\<close> when allocated), whether \<open>sub_count\<close> counts it, and the current value.
\<close>

datatype arm_kind = PlainArm | TransmissionTypeArm | MappingCountArm bool | MappingEntryArm

record gen_entry =
  ge_meta :: od_entry_meta
  ge_arm :: arm_kind
  ge_capacity :: "nat option"
  ge_counted :: bool
  ge_value :: od_value

type_synonym gen_od = "gen_entry list"

text \<open>The zero value of a fixed-size type, an empty buffer otherwise.\<close>

definition zero_value :: "data_type \<Rightarrow> od_value" where
  "zero_value t = (case t of
     Boolean \<Rightarrow> VBool False
   | U8 \<Rightarrow> VW8 0 | I8 \<Rightarrow> VW8 0 | U16 \<Rightarrow> VW16 0 | I16 \<Rightarrow> VW16 0
   | I24 \<Rightarrow> VW32 0 | U24 \<Rightarrow> VW32 0 | U32 \<Rightarrow> VW32 0 | I32 \<Rightarrow> VW32 0 | Real32 \<Rightarrow> VW32 0
   | U64 \<Rightarrow> VW64 0 | I64 \<Rightarrow> VW64 0 | Real64 \<Rightarrow> VW64 0
   | VisibleString \<Rightarrow> VBytes [] | OctetString \<Rightarrow> VBytes [] | Domain \<Rightarrow> VBytes [])"

text \<open>
  \<open>field_defaults\<close>: only strings and fixed-size types take the declared default; a string
  that does not fit its capacity stays empty.
\<close>

definition field_default :: "bool \<Rightarrow> var_def \<Rightarrow> od_value" where
  "field_default use_alloc v = (case vd_default v of
     None \<Rightarrow> zero_value (vd_type v)
   | Some (VBytes s) \<Rightarrow>
       if vd_type v = VisibleString \<and> (use_alloc \<or> (case vd_capacity v of Some cap \<Rightarrow> length s \<le> cap | None \<Rightarrow> True))
       then VBytes s else zero_value (vd_type v)
   | Some x \<Rightarrow> x)"

definition field_entry :: "bool \<Rightarrow> u16 \<Rightarrow> u8 \<Rightarrow> string \<Rightarrow> var_def \<Rightarrow> gen_entry" where
  "field_entry use_alloc index subindex name v =
     \<lparr>ge_meta = \<lparr>meta_index = index, meta_subindex = subindex, meta_data_type = vd_type v,
        meta_access = vd_access v, meta_pdo_mappable = vd_pdo_mappable v, meta_name = name,
        meta_max_size = map_option of_nat (vd_capacity v)\<rparr>,
      ge_arm = PlainArm, ge_capacity = (if use_alloc then None else vd_capacity v), ge_counted = True,
      ge_value = field_default use_alloc v\<rparr>"

text \<open>An entry of a generated record (\<open>gen_pdo_meta\<close>): no capacity, not PDO-mappable.\<close>

definition plain_entry ::
  "u16 \<Rightarrow> u8 \<Rightarrow> data_type \<Rightarrow> access_type \<Rightarrow> string \<Rightarrow> arm_kind \<Rightarrow> od_value \<Rightarrow> gen_entry" where
  "plain_entry index subindex t access name arm v =
     \<lparr>ge_meta = \<lparr>meta_index = index, meta_subindex = subindex, meta_data_type = t, meta_access = access,
        meta_pdo_mappable = False, meta_name = name, meta_max_size = None\<rparr>,
      ge_arm = arm, ge_capacity = None, ge_counted = True, ge_value = v\<rparr>"

text \<open>\<open>flatten\<close>: variables and record sub-entries, in declaration order.\<close>

fun flatten :: "bool \<Rightarrow> od_def_entry list \<Rightarrow> gen_od" where
  "flatten use_alloc [] = []"
| "flatten use_alloc (e # es) = (case de_kind e of
     VarEntry v \<Rightarrow> [field_entry use_alloc (de_index e) 0 (de_name e) v]
   | RecordEntry subs \<Rightarrow> map (\<lambda>(s, n, v). field_entry use_alloc (de_index e) s n v) subs
   | ArrayEntry a \<Rightarrow> []) @ flatten use_alloc es"

fun record_counts :: "od_def_entry list \<Rightarrow> gen_od" where
  "record_counts [] = []"
| "record_counts (e # es) = (case de_kind e of
     RecordEntry subs \<Rightarrow>
       [(plain_entry (de_index e) 0 U8 Ro ''highest_sub_index_supported'' PlainArm
          (VW8 (foldr (\<lambda>(s, n, v) m. max s m) subs 0)))\<lparr>ge_counted := False\<rparr>]
   | _ \<Rightarrow> []) @ record_counts es"

definition array_element :: "od_def_entry \<Rightarrow> array_def \<Rightarrow> u8 \<Rightarrow> gen_entry" where
  "array_element e a s =
     (let p = plain_entry (de_index e) s (ad_type a) (ad_access a) (de_name e) PlainArm (zero_value (ad_type a))
      in p\<lparr>ge_meta := (ge_meta p)\<lparr>meta_pdo_mappable := ad_pdo_mappable a\<rparr>\<rparr>)"

text \<open>The count is the declared one \<open>as u8\<close>, and there is one entry per value up to it.\<close>

fun array_entries :: "od_def_entry list \<Rightarrow> gen_od" where
  "array_entries [] = []"
| "array_entries (e # es) = (case de_kind e of
     ArrayEntry a \<Rightarrow>
       let count = of_nat (ad_count a) :: u8 in
       plain_entry (de_index e) 0 U8 Ro ''number_of_entries'' PlainArm (VW8 count)
       # map (\<lambda>s. array_element e a (of_nat s)) [1..<Suc (unat count)]
   | _ \<Rightarrow> []) @ array_entries es"

section \<open>The generated PDO and SDO server records\<close>

text \<open>
  \<open>resolve_pdo_mappings\<close>: \<open>None\<close> is a compile-time panic (unknown field, not mappable,
  variable-length, more than 64 bits).
\<close>

definition resolve_mapping :: "gen_od \<Rightarrow> pdo_mapping_def \<Rightarrow> pdo_mapping option" where
  "resolve_mapping flat m = (case pmd_raw m of
     Some raw \<Rightarrow> Some (from_mapping_value raw)
   | None \<Rightarrow> (case find (\<lambda>e. meta_name (ge_meta e) = pmd_field m) flat of
       None \<Rightarrow> None
     | Some e \<Rightarrow>
         if \<not> meta_pdo_mappable (ge_meta e) then None
         else case dt_size (meta_data_type (ge_meta e)) of
           None \<Rightarrow> None
         | Some sz \<Rightarrow> Some \<lparr>pm_index = meta_index (ge_meta e), pm_subindex = meta_subindex (ge_meta e),
             pm_bit_length = (case pmd_bit_length m of Some b \<Rightarrow> b
               | None \<Rightarrow> if meta_data_type (ge_meta e) = Boolean then 1 else of_nat sz * 8)\<rparr>))"

definition resolve_pdo_mappings :: "gen_od \<Rightarrow> pdo_def \<Rightarrow> pdo_mapping list option" where
  "resolve_pdo_mappings flat p = do {
     ms \<leftarrow> those (map (resolve_mapping flat) (pd_mappings p));
     if mapping_bits ms > PDO_MAX_PAYLOAD_BITS \<or> length ms > PDO_MAX_MAPPINGS then None else Some ms
   }"

definition comm_index :: "pdo_def \<Rightarrow> u16" where
  "comm_index p = (case pd_direction p of DirTpdo \<Rightarrow> 0x1800 | DirRpdo \<Rightarrow> 0x1400) + (pd_number p - 1)"

definition map_index :: "pdo_def \<Rightarrow> u16" where
  "map_index p = (case pd_direction p of DirTpdo \<Rightarrow> 0x1A00 | DirRpdo \<Rightarrow> 0x1600) + (pd_number p - 1)"

definition stored_cob_id :: "cob_id_spec option \<Rightarrow> u32" where
  "stored_cob_id c = (case c of Some (Absolute i) \<Rightarrow> i | _ \<Rightarrow> 0)"

definition tpdo_comm_entries :: "pdo_def \<Rightarrow> gen_od" where
  "tpdo_comm_entries p =
     [plain_entry (comm_index p) 0 U8 Ro ''highest_subindex'' PlainArm (VW8 5),
      plain_entry (comm_index p) 1 U32 Rw ''cob_id'' PlainArm (VW32 (stored_cob_id (pd_cob_id p))),
      plain_entry (comm_index p) 2 U8 Rw ''transmission_type'' TransmissionTypeArm (VW8 (pd_transmission_type p)),
      plain_entry (comm_index p) 3 U16 Rw ''inhibit_time'' PlainArm (VW16 (pd_inhibit_time p)),
      plain_entry (comm_index p) 5 U16 Rw ''event_timer'' PlainArm (VW16 (pd_event_timer p))]"

definition rpdo_comm_entries :: "pdo_def \<Rightarrow> gen_od" where
  "rpdo_comm_entries p =
     [plain_entry (comm_index p) 0 U8 Ro ''highest_subindex'' PlainArm (VW8 5),
      plain_entry (comm_index p) 1 U32 Rw ''cob_id'' PlainArm (VW32 (stored_cob_id (pd_cob_id p))),
      plain_entry (comm_index p) 2 U8 Rw ''transmission_type'' TransmissionTypeArm (VW8 (pd_transmission_type p)),
      plain_entry (comm_index p) 5 U16 Rw ''deadline'' PlainArm (VW16 (pd_event_timer p))]"

abbreviation comm_entries :: "pdo_def \<Rightarrow> gen_od" where
  "comm_entries p \<equiv> (case pd_direction p of DirTpdo \<Rightarrow> tpdo_comm_entries p | DirRpdo \<Rightarrow> rpdo_comm_entries p)"

text \<open>A mutable mapping record has all 64 entries, an immutable one only the active ones.\<close>

definition map_entries :: "pdo_def \<Rightarrow> pdo_mapping list \<Rightarrow> gen_od" where
  "map_entries p ms =
     (let mutable = (pd_mapping p = Mutable); access = (if mutable then Rw else Const);
          max_map_sub = (if mutable then PDO_MAX_MAPPINGS else length ms)
      in plain_entry (map_index p) 0 U8 access ''mapping_count'' (MappingCountArm (pd_direction p = DirRpdo))
           (VW8 (of_nat (length ms)))
         # map (\<lambda>j. plain_entry (map_index p) (of_nat (Suc j)) U32 access ''mapping_entry'' MappingEntryArm
                  (VW32 (if j < length ms then to_mapping_value (ms ! j) else 0))) [0..<max_map_sub])"

definition sdo_server_entries :: "sdo_server_def \<Rightarrow> gen_od" where
  "sdo_server_entries s = (let index = 0x1200 + (sd_number s - 1) in
     [plain_entry index 0 U8 Ro ''highest_subindex'' PlainArm (VW8 2),
      plain_entry index 1 U32 Ro ''cob_id_client_to_server'' PlainArm (VW32 (stored_cob_id (Some (sd_cob_rx s)))),
      plain_entry index 2 U32 Ro ''cob_id_server_to_client'' PlainArm (VW32 (stored_cob_id (Some (sd_cob_tx s))))])"

text \<open>0x1021 and 0x1022; the deflated EDS text is a parameter.\<close>

definition eds_entries :: "bytes \<Rightarrow> gen_od" where
  "eds_entries eds =
     map (\<lambda>e. e\<lparr>ge_counted := False\<rparr>)
     [(let e = plain_entry 0x1021 0 Domain Ro ''store_eds'' PlainArm (VBytes eds)
       in e\<lparr>ge_meta := (ge_meta e)\<lparr>meta_max_size := Some (of_nat (length eds))\<rparr>\<rparr>),
      plain_entry 0x1022 0 U8 Ro ''store_format'' PlainArm (VW8 0x80)]"

text \<open>The slots of the compile-time COB-ID collision check.\<close>

definition spec_slot :: "cob_id_spec \<Rightarrow> bool \<times> u32" where
  "spec_slot c = (case c of Absolute i \<Rightarrow> (False, i) | NodeRelative b \<Rightarrow> (True, b))"

definition sdo_slots :: "sdo_server_def list \<Rightarrow> (bool \<times> u32) list" where
  "sdo_slots ss = [(True, 0x600), (True, 0x580)]
     @ concat (map (\<lambda>s. [spec_slot (sd_cob_rx s), spec_slot (sd_cob_tx s)]) ss)"

definition def_tpdos :: "od_definition \<Rightarrow> pdo_def list" where
  "def_tpdos d = filter (\<lambda>p. pd_direction p = DirTpdo) (def_pdos d)"

definition def_rpdos :: "od_definition \<Rightarrow> pdo_def list" where
  "def_rpdos d = filter (\<lambda>p. pd_direction p = DirRpdo) (def_pdos d)"

definition pdo_entries :: "gen_od \<Rightarrow> pdo_def list \<Rightarrow> gen_od option" where
  "pdo_entries flat ps = map_option concat (those (map (\<lambda>p.
     map_option (\<lambda>ms. comm_entries p @ map_entries p ms) (resolve_pdo_mappings flat p)) ps))"

text \<open>
  \<open>generate\<close>: the entries in the order of the metadata table; \<open>None\<close> is a compile-time
  panic. Array elements must have a fixed size.
\<close>

definition generate :: "od_definition \<Rightarrow> bytes \<Rightarrow> gen_od option" where
  "generate d eds = do {
     assert_that (distinct (map pd_number (def_tpdos d)) \<and> distinct (map pd_number (def_rpdos d)));
     let flat = flatten (def_use_alloc d) (def_entries d);
     tpdos \<leftarrow> pdo_entries flat (def_tpdos d);
     rpdos \<leftarrow> pdo_entries flat (def_rpdos d);
     assert_that (distinct (map sd_number (def_sdo_servers d)) \<and> distinct (sdo_slots (def_sdo_servers d)));
     assert_that (list_all (\<lambda>e. case de_kind e of ArrayEntry a \<Rightarrow> dt_size (ad_type a) \<noteq> None | _ \<Rightarrow> True)
       (def_entries d));
     Some (flat @ tpdos @ rpdos @ concat (map sdo_server_entries (def_sdo_servers d))
       @ record_counts (def_entries d) @ array_entries (def_entries d) @ eds_entries eds)
   }"

section \<open>The generated implementation of the trait\<close>

definition at_addr :: "u16 \<Rightarrow> u8 \<Rightarrow> gen_entry \<Rightarrow> bool" where
  "at_addr index subindex e \<longleftrightarrow>
     meta_index (ge_meta e) = index \<and> meta_subindex (ge_meta e) = subindex"

definition gen_find :: "gen_od \<Rightarrow> u16 \<Rightarrow> u8 \<Rightarrow> gen_entry option" where
  "gen_find od index subindex = find (at_addr index subindex) od"

definition gen_lookup :: "gen_od \<Rightarrow> u16 \<Rightarrow> u8 \<Rightarrow> od_entry_meta option" where
  "gen_lookup od index subindex = map_option ge_meta (gen_find od index subindex)"

definition ge_wire :: "gen_entry \<Rightarrow> bytes" where
  "ge_wire e = wire (meta_data_type (ge_meta e)) (ge_value e)"

definition gen_read_arm :: "gen_entry \<Rightarrow> bytes \<Rightarrow> (od_error + usize) \<times> bytes" where
  "gen_read_arm e buf =
     (if meta_access (ge_meta e) = Wo then (Inl WriteOnly, buf)
      else if dt_size (meta_data_type (ge_meta e)) = None \<and> length buf < length (ge_wire e)
      then (Inl ValueTooLong, buf)
      else (Inr (length (ge_wire e)), overwrite buf 0 (ge_wire e)))"

definition gen_read :: "gen_od \<Rightarrow> u16 \<Rightarrow> u8 \<Rightarrow> bytes \<Rightarrow> (od_error + usize) \<times> bytes" where
  "gen_read od index subindex buf =
     (if length buf < 8 \<and>
         (case gen_lookup od index subindex of
            Some m \<Rightarrow> meta_access m \<noteq> Wo \<and>
              (case dt_size (meta_data_type m) of Some sz \<Rightarrow> sz > length buf | None \<Rightarrow> False)
          | None \<Rightarrow> False)
      then (Inl ValueTooLong, buf)
      else case gen_find od index subindex of
        Some e \<Rightarrow> gen_read_arm e buf
      | None \<Rightarrow> (Inl NotFound, buf))"

text \<open>The stored numeric fields that the generated code reads back.\<close>

definition field_u8 :: "gen_od \<Rightarrow> u16 \<Rightarrow> u8 \<Rightarrow> u8" where
  "field_u8 od i s = (case gen_find od i s of
     Some e \<Rightarrow> (case ge_value e of VW8 w \<Rightarrow> w | _ \<Rightarrow> 0) | None \<Rightarrow> 0)"

definition field_u16 :: "gen_od \<Rightarrow> u16 \<Rightarrow> u8 \<Rightarrow> u16" where
  "field_u16 od i s = (case gen_find od i s of
     Some e \<Rightarrow> (case ge_value e of VW16 w \<Rightarrow> w | _ \<Rightarrow> 0) | None \<Rightarrow> 0)"

definition field_u32 :: "gen_od \<Rightarrow> u16 \<Rightarrow> u8 \<Rightarrow> u32" where
  "field_u32 od i s = (case gen_find od i s of
     Some e \<Rightarrow> (case ge_value e of VW32 w \<Rightarrow> w | _ \<Rightarrow> 0) | None \<Rightarrow> 0)"

definition stored_mappings :: "gen_od \<Rightarrow> u16 \<Rightarrow> nat \<Rightarrow> u32 list" where
  "stored_mappings od index n = map (\<lambda>j. field_u32 od index (of_nat (Suc j))) [0..<n]"

text \<open>\<open>validate_mapping_target\<close> sees the dictionary only through \<open>lookup\<close>.\<close>

definition lookup_ops :: "gen_od od_ops" where
  "lookup_ops = \<lparr>od_lookup = gen_lookup, od_read = gen_read, od_write = (\<lambda>od _ _ _. (Inl NotFound, od)),
     od_sub_count = (\<lambda>_ _. None), od_validate_write = validate_write_default,
     od_store_sdo_server_cob_ids = (\<lambda>od _. od), od_store_error_register = (\<lambda>od _. od)\<rparr>"

text \<open>The loop over the mappings that a new count would activate, with its early return.\<close>

fun check_targets :: "gen_od \<Rightarrow> bool \<Rightarrow> u32 list \<Rightarrow> od_error + unit" where
  "check_targets od receive [] = Inr ()"
| "check_targets od receive (m # ms) = (case validate_mapping_target lookup_ops od m receive of
     Inl e \<Rightarrow> Inl e | Inr _ \<Rightarrow> check_targets od receive ms)"

definition plain_write :: "gen_entry \<Rightarrow> bytes \<Rightarrow> od_error + od_value" where
  "plain_write e data =
     (let t = meta_data_type (ge_meta e) in
      case dt_size t of
        Some sz \<Rightarrow> if length data \<noteq> sz then Inl DataTypeMismatch else Inr (unwire t data)
      | None \<Rightarrow>
          if t = VisibleString \<and> \<not> utf8_valid data then Inl DataTypeMismatch
          else if (case ge_capacity e of Some cap \<Rightarrow> length data > cap | None \<Rightarrow> False)
          then Inl ValueTooLong
          else Inr (unwire t data))"

definition mapping_bits_raw :: "u32 list \<Rightarrow> nat" where
  "mapping_bits_raw ms = sum_list (map (\<lambda>m. unat (m AND 0xFF)) ms)"

definition gen_write_arm :: "gen_od \<Rightarrow> gen_entry \<Rightarrow> bytes \<Rightarrow> od_error + od_value" where
  "gen_write_arm od e data =
     (let index = meta_index (ge_meta e) in
      if meta_access (ge_meta e) = Ro \<or> meta_access (ge_meta e) = Const then Inl ReadOnly
      else case ge_arm e of
        PlainArm \<Rightarrow> plain_write e data
      | TransmissionTypeArm \<Rightarrow>
          if length data \<noteq> 1 then Inl DataTypeMismatch
          else if 241 \<le> data ! 0 \<and> data ! 0 \<le> 253 then Inl ValueRange
          else Inr (VW8 (data ! 0))
      | MappingCountArm receive \<Rightarrow>
          if length data \<noteq> 1 then Inl DataTypeMismatch
          else if unat (data ! 0) > PDO_MAX_MAPPINGS then Inl ValueRange
          else let ms = stored_mappings od index (unat (data ! 0)) in
            (case check_targets od receive ms of
               Inl err \<Rightarrow> Inl err
             | Inr _ \<Rightarrow> if mapping_bits_raw ms > PDO_MAX_PAYLOAD_BITS then Inl ValueRange
                        else Inr (VW8 (data ! 0)))
      | MappingEntryArm \<Rightarrow>
          if field_u8 od index 0 \<noteq> 0 then Inl ReadOnly
          else if length data \<noteq> 4 then Inl DataTypeMismatch
          else if unat ((from_le_bytes data :: u32) AND 0xFF) > PDO_MAX_PAYLOAD_BITS then Inl ValueRange
          else Inr (VW32 (from_le_bytes data)))"

fun store_at :: "u16 \<Rightarrow> u8 \<Rightarrow> od_value \<Rightarrow> gen_od \<Rightarrow> gen_od" where
  "store_at index subindex v [] = []"
| "store_at index subindex v (e # es) =
     (if at_addr index subindex e then e\<lparr>ge_value := v\<rparr> # es else e # store_at index subindex v es)"

definition gen_write :: "gen_od \<Rightarrow> u16 \<Rightarrow> u8 \<Rightarrow> bytes \<Rightarrow> (od_error + unit) \<times> gen_od" where
  "gen_write od index subindex data = (case gen_find od index subindex of
     None \<Rightarrow> (Inl NotFound, od)
   | Some e \<Rightarrow> (case gen_write_arm od e data of
       Inl err \<Rightarrow> (Inl err, od)
     | Inr v \<Rightarrow> (Inr (), store_at index subindex v od)))"

definition gen_sub_count :: "gen_od \<Rightarrow> u16 \<Rightarrow> u8 option" where
  "gen_sub_count od index =
     (let subs = map (\<lambda>e. meta_subindex (ge_meta e)) (filter (\<lambda>e. ge_counted e \<and> meta_index (ge_meta e) = index) od)
      in if subs = [] then None else Some (foldr max subs 0))"

definition declares_error_register :: "od_definition \<Rightarrow> bool" where
  "declares_error_register d \<longleftrightarrow> list_ex (\<lambda>e. de_index e = 0x1001 \<and>
     (case de_kind e of VarEntry v \<Rightarrow> vd_type v = U8 | _ \<Rightarrow> False)) (def_entries d)"

text \<open>The override emitted when 0x1001 is declared as a \<open>u8\<close> variable.\<close>

definition gen_store_error_register :: "od_definition \<Rightarrow> gen_od \<Rightarrow> u8 \<Rightarrow> gen_od" where
  "gen_store_error_register d od b =
     (if declares_error_register d then store_at 0x1001 0 (VW8 b) od else od)"

text \<open>\<open>resolve_cob\<close>; the DSL bounds the base so that the sum stays an 11-bit identifier.\<close>

definition resolve_cob :: "cob_id_spec \<Rightarrow> node_id \<Rightarrow> u16" where
  "resolve_cob c n = (case c of Absolute i \<Rightarrow> ucast i | NodeRelative b \<Rightarrow> ucast b + ucast (node_raw n))"

definition store_sdo_server :: "node_id \<Rightarrow> sdo_server_def \<Rightarrow> gen_od \<Rightarrow> gen_od" where
  "store_sdo_server n s od = (let index = 0x1200 + (sd_number s - 1) in
     store_at index 2 (VW32 (ucast (resolve_cob (sd_cob_tx s) n)))
       (store_at index 1 (VW32 (ucast (resolve_cob (sd_cob_rx s) n))) od))"

definition gen_store_sdo_server_cob_ids :: "od_definition \<Rightarrow> gen_od \<Rightarrow> node_id \<Rightarrow> gen_od" where
  "gen_store_sdo_server_cob_ids d od n = fold (store_sdo_server n) (def_sdo_servers d) od"

definition gen_ops ::
  "od_definition \<Rightarrow> (gen_od \<Rightarrow> u16 \<Rightarrow> u8 \<Rightarrow> bytes \<Rightarrow> od_error + unit) \<Rightarrow> gen_od od_ops" where
  "gen_ops d validate = \<lparr>od_lookup = gen_lookup, od_read = gen_read, od_write = gen_write,
     od_sub_count = gen_sub_count, od_validate_write = validate,
     od_store_sdo_server_cob_ids = gen_store_sdo_server_cob_ids d,
     od_store_error_register = gen_store_error_register d\<rparr>"

section \<open>Structural checks of a definition\<close>

text \<open>\<open>OdDefinition::validate\<close>: every address has one owner, and mapped fields are accessible.\<close>

definition generated_indices :: "od_definition \<Rightarrow> u16 list" where
  "generated_indices d = [0x1021, 0x1022] @ concat (map (\<lambda>p. [comm_index p, map_index p]) (def_pdos d))
     @ map (\<lambda>s. 0x1200 + sd_number s - 1) (def_sdo_servers d)"

fun find_var_access :: "od_def_entry list \<Rightarrow> string \<Rightarrow> access_type option" where
  "find_var_access [] field = None"
| "find_var_access (e # es) field = (case de_kind e of
     VarEntry v \<Rightarrow> if de_name e = field then Some (vd_access v) else find_var_access es field
   | RecordEntry subs \<Rightarrow> (case find (\<lambda>(s, n, v). n = field) subs of
       Some (s, n, v) \<Rightarrow> Some (vd_access v) | None \<Rightarrow> find_var_access es field)
   | ArrayEntry a \<Rightarrow> find_var_access es field)"

definition bad_access :: "pdo_direction \<Rightarrow> access_type \<Rightarrow> bool" where
  "bad_access dir a = (case dir of DirRpdo \<Rightarrow> a = Ro \<or> a = Const | DirTpdo \<Rightarrow> a = Wo)"

definition validate_definition :: "od_definition \<Rightarrow> bool" where
  "validate_definition d \<longleftrightarrow> distinct (map de_index (def_entries d))
     \<and> list_all (\<lambda>e. case de_kind e of
          RecordEntry subs \<Rightarrow> (let ss = map fst subs in 0 \<notin> set ss \<and> distinct ss) | _ \<Rightarrow> True) (def_entries d)
     \<and> list_all (\<lambda>i. i \<notin> set (map de_index (def_entries d))) (generated_indices d)
     \<and> list_all (\<lambda>p. pd_transmission_type p \<noteq> 252 \<and> pd_transmission_type p \<noteq> 253) (def_pdos d)
     \<and> list_all (\<lambda>p. list_all (\<lambda>m. pmd_raw m \<noteq> None \<or>
          (case find_var_access (def_entries d) (pmd_field m) of
             Some a \<Rightarrow> \<not> bad_access (pd_direction p) a | None \<Rightarrow> True)) (pd_mappings p)) (def_pdos d)"

text \<open>
  What the parser and the Rust type checker guarantee of a definition: PDO numbers 1 to 512, SDO
  server numbers 2 to 128, defaults of the field's representation type.
\<close>

definition default_ok :: "var_def \<Rightarrow> bool" where
  "default_ok v \<longleftrightarrow> (case vd_default v of Some x \<Rightarrow> repr_ok (vd_type v) x | None \<Rightarrow> True)"

definition wf_definition :: "od_definition \<Rightarrow> bool" where
  "wf_definition d \<longleftrightarrow> list_all (\<lambda>p. 1 \<le> pd_number p \<and> pd_number p \<le> 512) (def_pdos d)
     \<and> list_all (\<lambda>s. 2 \<le> sd_number s \<and> sd_number s \<le> 128) (def_sdo_servers d)
     \<and> list_all (\<lambda>e. case de_kind e of VarEntry v \<Rightarrow> default_ok v
          | RecordEntry subs \<Rightarrow> list_all (\<lambda>(s, n, v). default_ok v) subs | ArrayEntry a \<Rightarrow> True) (def_entries d)"

section \<open>The laws\<close>

definition gen_val :: "gen_od \<Rightarrow> u16 \<Rightarrow> u8 \<Rightarrow> bytes option" where
  "gen_val od index subindex = (case gen_find od index subindex of
     Some e \<Rightarrow> if meta_access (ge_meta e) = Wo then None else Some (ge_wire e)
   | None \<Rightarrow> None)"

definition entry_typed :: "gen_entry \<Rightarrow> bool" where
  "entry_typed e \<longleftrightarrow> repr_ok (meta_data_type (ge_meta e)) (ge_value e)
     \<and> (case ge_arm e of TransmissionTypeArm \<Rightarrow> meta_data_type (ge_meta e) = U8
          | MappingCountArm _ \<Rightarrow> meta_data_type (ge_meta e) = U8
          | MappingEntryArm \<Rightarrow> meta_data_type (ge_meta e) = U32 | PlainArm \<Rightarrow> True)"

text \<open>
  Every field holds a value of its declared type, and the fields that the stack stores itself
  have the type that the stores assume.
\<close>

definition entry_inv :: "od_definition \<Rightarrow> gen_entry \<Rightarrow> bool" where
  "entry_inv d e \<longleftrightarrow> entry_typed e
     \<and> (declares_error_register d \<and> at_addr 0x1001 0 e \<longrightarrow> meta_data_type (ge_meta e) = U8 \<and> ge_arm e = PlainArm)
     \<and> (\<forall>s \<in> set (def_sdo_servers d). at_addr (0x1200 + (sd_number s - 1)) 1 e
          \<or> at_addr (0x1200 + (sd_number s - 1)) 2 e \<longrightarrow> meta_data_type (ge_meta e) = U32 \<and> ge_arm e = PlainArm)"

definition gen_inv :: "od_definition \<Rightarrow> gen_od \<Rightarrow> bool" where
  "gen_inv d od \<longleftrightarrow> (\<forall>e \<in> set od. entry_inv d e)"

lemma length_wire: "repr_ok t v \<Longrightarrow> dt_size t = Some n \<Longrightarrow> length (wire t v) = n"
  by (cases v) (auto simp: dt_size_def)

lemma repr_ok_unwire: "repr_ok t (unwire t data)"
  by (cases t) (simp_all add: unwire_def)

lemma at_addr_value [simp]: "at_addr i s (e\<lparr>ge_value := v\<rparr>) = at_addr i s e"
  by (simp add: at_addr_def)

lemma at_addr_unique: "at_addr i s e \<Longrightarrow> at_addr i' s' e \<Longrightarrow> i = i' \<and> s = s'"
  by (auto simp: at_addr_def)

lemma find_store_at:
  "find (at_addr i s) (store_at i' s' v od) =
     (if i = i' \<and> s = s' then map_option (\<lambda>e. e\<lparr>ge_value := v\<rparr>) (find (at_addr i s) od)
      else find (at_addr i s) od)"
  by (induction od) (auto dest: at_addr_unique)

lemma gen_find_store_at:
  "gen_find (store_at i' s' v od) i s =
     (if i = i' \<and> s = s' then map_option (\<lambda>e. e\<lparr>ge_value := v\<rparr>) (gen_find od i s)
      else gen_find od i s)"
  by (simp add: gen_find_def find_store_at)

lemma gen_find_in: "gen_find od i s = Some e \<Longrightarrow> e \<in> set od \<and> at_addr i s e"
  unfolding gen_find_def by (metis find_Some_iff nth_mem)

lemma entry_inv_value:
  "entry_inv d e \<Longrightarrow> repr_ok (meta_data_type (ge_meta e)) v \<Longrightarrow> entry_inv d (e\<lparr>ge_value := v\<rparr>)"
  by (auto simp: entry_inv_def entry_typed_def split: arm_kind.splits)

lemma gen_inv_store_at:
  "gen_inv d od \<Longrightarrow> (\<And>e. e \<in> set od \<Longrightarrow> at_addr i s e \<Longrightarrow> repr_ok (meta_data_type (ge_meta e)) v)
   \<Longrightarrow> gen_inv d (store_at i s v od)"
  by (induction od) (auto simp: gen_inv_def entry_inv_value)

lemma store_at_same:
  "gen_find od i s = Some e \<Longrightarrow> gen_inv d od \<Longrightarrow> repr_ok (meta_data_type (ge_meta e)) v
   \<Longrightarrow> gen_inv d (store_at i s v od)"
  by (induction od) (auto simp: gen_inv_def gen_find_def entry_inv_value)

lemma gen_write_arm_ok:
  assumes "gen_write_arm od e data = Inr v" and "entry_typed e"
  shows "v = unwire (meta_data_type (ge_meta e)) data"
    and "\<forall>n. dt_size (meta_data_type (ge_meta e)) = Some n \<longrightarrow> length data = n"
proof -
  have "v = unwire (meta_data_type (ge_meta e)) data
    \<and> (\<forall>n. dt_size (meta_data_type (ge_meta e)) = Some n \<longrightarrow> length data = n)"
    using assms
    by (cases "ge_arm e")
      (auto simp: gen_write_arm_def plain_write_def Let_def entry_typed_def unwire_def dt_size_def
        split: if_splits option.splits sum.splits data_type.splits)
  then show "v = unwire (meta_data_type (ge_meta e)) data"
    and "\<forall>n. dt_size (meta_data_type (ge_meta e)) = Some n \<longrightarrow> length data = n" by simp_all
qed

lemma gen_find_typed: "gen_inv d od \<Longrightarrow> gen_find od i s = Some e \<Longrightarrow> entry_typed e"
  using gen_find_in by (auto simp: gen_inv_def entry_inv_def)

lemma gen_write_inv:
  assumes "gen_inv d od" and "gen_write od i s data = (r, od')"
  shows "gen_inv d od'"
proof (cases "gen_find od i s")
  case (Some e)
  show ?thesis
  proof (cases "gen_write_arm od e data")
    case (Inr v)
    with Some assms gen_write_arm_ok(1) [OF Inr gen_find_typed [OF assms(1) Some]] show ?thesis
      by (auto simp: gen_write_def repr_ok_unwire intro: store_at_same)
  qed (use Some assms in \<open>auto simp: gen_write_def\<close>)
qed (use assms in \<open>auto simp: gen_write_def\<close>)

lemma gen_store_error_register_inv:
  "gen_inv d od \<Longrightarrow> gen_inv d (gen_store_error_register d od b)"
  by (auto simp: gen_store_error_register_def intro!: gen_inv_store_at) (simp add: gen_inv_def entry_inv_def)

lemma store_sdo_server_inv:
  assumes "gen_inv d od" and "s \<in> set (def_sdo_servers d)"
  shows "gen_inv d (store_sdo_server n s od)"
proof -
  have "gen_inv d (store_at (0x1200 + (sd_number s - 1)) k (VW32 w) od)"
    if "gen_inv d od" "k = 1 \<or> k = 2" for k w od
    using that assms(2) by (intro gen_inv_store_at) (auto simp: gen_inv_def entry_inv_def)
  then show ?thesis using assms(1) by (simp add: store_sdo_server_def Let_def)
qed

lemma gen_store_sdo_server_cob_ids_inv:
  assumes "gen_inv d od"
  shows "gen_inv d (gen_store_sdo_server_cob_ids d od n)"
proof -
  have "gen_inv d (fold (store_sdo_server n) ss od)" if "gen_inv d od" "set ss \<subseteq> set (def_sdo_servers d)" for ss od
    using that by (induction ss arbitrary: od) (auto simp: store_sdo_server_inv)
  then show ?thesis using assms by (simp add: gen_store_sdo_server_cob_ids_def)
qed

lemma gen_read_ok:
  assumes "gen_inv d od" "gen_val od i s = Some v"
  shows "gen_read od i s buf = (if length v \<le> length buf then (Inr (length v), overwrite buf 0 v)
    else (Inl ValueTooLong, buf))"
proof -
  obtain e where e: "gen_find od i s = Some e" "meta_access (ge_meta e) \<noteq> Wo" "v = ge_wire e"
    using assms(2) by (auto simp: gen_val_def split: option.splits if_splits)
  have r: "repr_ok (meta_data_type (ge_meta e)) (ge_value e)"
    using gen_find_typed [OF assms(1) e(1)] by (simp add: entry_typed_def)
  show ?thesis
  proof (cases "dt_size (meta_data_type (ge_meta e))")
    case None
    with e show ?thesis by (simp add: gen_read_def gen_lookup_def gen_read_arm_def not_le)
  next
    case (Some n)
    then have n: "length v = n" "n \<le> 8"
      using length_wire [OF r] dt_size_bound e(3) by (auto simp: ge_wire_def)
    with Some e show ?thesis by (auto simp: gen_read_def gen_lookup_def gen_read_arm_def not_le)
  qed
qed

lemma gen_read_none: "gen_val od i s = None \<Longrightarrow> \<exists>e. gen_read od i s buf = (Inl e, buf)"
  by (auto simp: gen_val_def gen_read_def gen_read_arm_def split: option.splits if_splits)

interpretation gen: object_dictionary "gen_ops d validate" gen_val "gen_inv d"
  for d and validate :: "gen_od \<Rightarrow> u16 \<Rightarrow> u8 \<Rightarrow> bytes \<Rightarrow> od_error + unit"
proof unfold_locales
  fix od :: gen_od and i s data od' i' s'
  assume "gen_inv d od" "od_write (gen_ops d validate) od i s data = (Inr (), od')" "(i', s') \<noteq> (i, s)"
  then show "gen_val od' i' s' = gen_val od i' s'"
    by (auto simp: gen_ops_def gen_write_def gen_val_def gen_find_store_at
        split: option.splits sum.splits)
next
  fix od :: gen_od and i s data e od'
  assume "gen_inv d od" "od_write (gen_ops d validate) od i s data = (Inl e, od')"
  then show "od' = od" by (auto simp: gen_ops_def gen_write_def split: option.splits sum.splits)
qed (auto simp: gen_ops_def gen_read_ok gen_read_none gen_write_inv gen_store_error_register_inv
    gen_store_sdo_server_cob_ids_inv)

section \<open>A write is read back\<close>

text \<open>
  What reading returns after a write of \<open>data\<close> to a readable entry: the data itself, except
  that a boolean is normalised to 0 or 1.
\<close>

definition normalised :: "data_type \<Rightarrow> bytes \<Rightarrow> bytes" where
  "normalised t data = (if t = Boolean then [if data ! 0 \<noteq> 0 then 1 else 0] else data)"

lemma to_from_le_take:
  fixes data :: bytes
  assumes "8 * (length data + length ext) \<le> LENGTH('a::len)"
  shows "take (length data) (to_le_bytes (length data + length ext) (from_le_bytes (data @ ext) :: 'a word)) = data"
  using to_le_from_le [of "data @ ext", where 'a = 'a] assms by simp

lemma wire_unwire:
  assumes "\<forall>n. dt_size t = Some n \<longrightarrow> length data = n"
  shows "wire t (unwire t data) = normalised t data"
proof -
  have le: "to_le_bytes n (from_le_bytes data :: 'a::len word) = data"
    if "length data = n" "8 * n \<le> LENGTH('a)" for n
    using to_le_from_le [of data, where 'a = 'a] that by simp
  have t: "take 3 (to_le_bytes 4 (from_le_bytes (data @ [x]) :: u32)) = data" if "length data = 3" for x
    using to_from_le_take [of data "[x]", where 'a = 32] that by simp
  have one: "[data ! 0] = data" if "length data = Suc 0"
    using that by (cases data) auto
  show ?thesis using assms
    by (cases t) (auto simp: unwire_def normalised_def dt_size_def le t one)
qed

lemma gen_write_effect:
  assumes "gen_inv d od" and "gen_write od i s data = (r, od')"
    and "gen_find od i s = Some e" and "meta_access (ge_meta e) \<noteq> Wo"
  shows "(is_ok r \<longrightarrow> gen_val od' i s = Some (normalised (meta_data_type (ge_meta e)) data))
    \<and> (\<not> is_ok r \<longrightarrow> od' = od)
    \<and> (\<forall>i' s'. (i', s') \<noteq> (i, s) \<longrightarrow> gen_val od' i' s' = gen_val od i' s') \<and> gen_inv d od'"
proof -
  have w: "wire (meta_data_type (ge_meta e)) v = normalised (meta_data_type (ge_meta e)) data"
    if "gen_write_arm od e data = Inr v" for v
    using gen_write_arm_ok [OF that gen_find_typed [OF assms(1,3)]] by (simp add: wire_unwire)
  show ?thesis
    using assms(2-4) w gen_write_inv [OF assms(1,2)]
    by (cases "gen_write_arm od e data")
      (auto simp: gen_write_def gen_val_def gen_find_store_at ge_wire_def)
qed

section \<open>Properties\<close>

text \<open>
  C31. A write that the generated dictionary accepts is read back: the written bytes (a boolean
  normalised to 0 or 1), with a 24-bit integer surviving its widening, and every other entry is
  unchanged; a refused write changes nothing.
\<close>

theorem generated_write_then_read:
  assumes "gen_inv d od" and "gen_write od i s data = (r, od')"
    and "gen_find od i s = Some e" and "meta_access (ge_meta e) \<noteq> Wo"
  shows "(is_ok r \<longrightarrow> gen_val od' i s = Some (normalised (meta_data_type (ge_meta e)) data))
    \<and> (\<not> is_ok r \<longrightarrow> od' = od)
    \<and> (\<forall>i' s'. (i', s') \<noteq> (i, s) \<longrightarrow> gen_val od' i' s' = gen_val od i' s') \<and> gen_inv d od'"
  using assms by (rule gen_write_effect)

definition demo_temperature :: gen_od where
  "demo_temperature = [field_entry False 0x2000 0 ''temperature'' \<lparr>vd_type = I24, vd_access = Rw,
     vd_pdo_mappable = True, vd_capacity = None, vd_default = None\<rparr>]"

theorem generated_write_then_read_witness:
  "gen_val (snd (gen_write demo_temperature 0x2000 0 [0xFE, 0xFF, 0xFF])) 0x2000 0 = Some [0xFE, 0xFF, 0xFF]"
proof -
  let ?d = "\<lparr>def_entries = [], def_pdos = [], def_sdo_servers = [], def_use_alloc = False\<rparr>"
  have "gen_inv ?d demo_temperature"
    by (simp add: demo_temperature_def gen_inv_def entry_inv_def entry_typed_def field_entry_def
        field_default_def zero_value_def at_addr_def)
  from generated_write_then_read [OF this, of "0x2000" 0 "[0xFE, 0xFF, 0xFF]"]
  show ?thesis
    by (simp add: demo_temperature_def field_entry_def gen_find_def at_addr_def gen_write_def
        gen_write_arm_def plain_write_def dt_size_def normalised_def)
qed

end
