(* ===== verification/Pdo_Delivery.thy ===== *)
theory Pdo_Delivery
  imports Pdo_Props Od_Generated
begin

unbundle bit_operations_syntax

text \<open>
  A process image from one generated dictionary to another: what a TPDO packs on the producer
  is what an RPDO with mappings of the same widths writes on the consumer.
\<close>

text \<open>A producer mapping and a consumer mapping of the same width for a whole object.\<close>

definition linked :: "gen_od \<Rightarrow> gen_od \<Rightarrow> pdo_mapping \<Rightarrow> pdo_mapping \<Rightarrow> bool" where
  "linked p c m m' \<longleftrightarrow> \<not> is_dummy_mapping_index (pm_index m) \<and> \<not> is_dummy_mapping_index (pm_index m')
     \<and> pm_bit_length m' = pm_bit_length m
     \<and> (case gen_find c (pm_index m') (pm_subindex m') of
          Some e \<Rightarrow> meta_access (ge_meta e) = Rw \<and> ge_arm e = PlainArm \<and> meta_data_type (ge_meta e) \<noteq> Boolean
            \<and> (case dt_size (meta_data_type (ge_meta e)) of
                 Some n \<Rightarrow> unat (pm_bit_length m) = 8 * n
                   \<and> (case gen_val p (pm_index m) (pm_subindex m) of Some v \<Rightarrow> length v = n | None \<Rightarrow> False)
               | None \<Rightarrow> False)
        | None \<Rightarrow> False)"

definition mapping_addr :: "pdo_mapping \<Rightarrow> u16 \<times> u8" where
  "mapping_addr m = (pm_index m, pm_subindex m)"

lemma linked_store:
  "linked p (store_at i s v c) m m' = linked p c m m'"
  by (auto simp: linked_def gen_find_store_at split: option.splits)

lemma gen_lookup_find: "gen_find c i s = Some e \<Longrightarrow> gen_lookup c i s = Some (ge_meta e)"
  by (simp add: gen_lookup_def)

lemma bytes_for_whole: "bytes_for_bits (8 * n) = n"
  by (simp add: bytes_for_bits_def)

text \<open>The value that a consumer unpacks for a linked mapping is the producer's.\<close>

lemma rpdo_value_linked:
  assumes "linked p c m m'" and "off + unat (pm_bit_length m) \<le> 8 * length data"
    and "gen_val p (pm_index m) (pm_subindex m) = Some v"
    and "\<forall>b < unat (pm_bit_length m). bit_at data (off + b) = bit_at v b"
  shows "rpdo_value (gen_ops d validate) c m' data off = Some v"
proof -
  obtain e n where e: "gen_find c (pm_index m') (pm_subindex m') = Some e"
      "dt_size (meta_data_type (ge_meta e)) = Some n" "unat (pm_bit_length m) = 8 * n" "length v = n"
      "pm_bit_length m' = pm_bit_length m"
    using assms(1,3) by (auto simp: linked_def split: option.splits)
  have n: "n \<le> 8" using dt_size_bound [OF e(2)] by simp
  obtain w where w: "rpdo_value (gen_ops d validate) c m' data off = Some w"
      "length w = rpdo_len (gen_ops d validate) c m'" "\<forall>b < 8 * n. bit_at w b = bit_at data (off + b)"
    using rpdo_value_spec [of off m' data "gen_ops d validate" c] assms(2) e n by auto
  moreover have "rpdo_len (gen_ops d validate) c m' = n"
    using e by (simp add: rpdo_len_def gen_ops_def gen_lookup_find bytes_for_whole)
  ultimately have "w = v" using e assms(4) by (intro bit_at_eqI) auto
  with w show ?thesis by simp
qed

lemma write_linked:
  assumes "linked p c m m'" and "gen_val p (pm_index m) (pm_subindex m) = Some v"
  shows "\<exists>u. gen_write c (pm_index m') (pm_subindex m') v =
      (Inr (), store_at (pm_index m') (pm_subindex m') u c)
    \<and> gen_val (store_at (pm_index m') (pm_subindex m') u c) (pm_index m') (pm_subindex m') = Some v"
proof -
  obtain e n where e: "gen_find c (pm_index m') (pm_subindex m') = Some e"
      "dt_size (meta_data_type (ge_meta e)) = Some n" "length v = n"
      "meta_access (ge_meta e) = Rw" "ge_arm e = PlainArm" "meta_data_type (ge_meta e) \<noteq> Boolean"
    using assms by (auto simp: linked_def split: option.splits)
  let ?t = "meta_data_type (ge_meta e)"
  have "wire ?t (unwire ?t v) = v"
    using wire_unwire [of ?t v] e by (simp add: normalised_def)
  then show ?thesis using e
    by (intro exI [of _ "unwire ?t v"])
      (simp add: gen_write_def gen_write_arm_def plain_write_def Let_def gen_val_def gen_find_store_at ge_wire_def)
qed

lemma apply_mapped_delivers:
  assumes "packed (gen_val p) ms off data" and "off + mapping_bits ms \<le> 8 * length data"
    and "list_all2 (linked p c) ms ms'" and "distinct (map mapping_addr ms')"
  shows "\<exists>c' ev' dr'. apply_mapped Q (gen_ops d validate) ms' data off (c, ev, dr) = Some (c', ev', dr')
    \<and> (\<forall>i s. (i, s) \<notin> set (map mapping_addr ms') \<longrightarrow> gen_val c' i s = gen_val c i s)
    \<and> list_all2 (\<lambda>m m'. gen_val c' (pm_index m') (pm_subindex m') = gen_val p (pm_index m) (pm_subindex m)) ms ms'"
  using assms
proof (induction ms arbitrary: ms' off c ev dr)
  case Nil
  then show ?case by simp
next
  case (Cons m ms)
  then obtain m' ms1 where ms': "ms' = m' # ms1" "linked p c m m'" "list_all2 (linked p c) ms ms1"
    by (auto simp: list_all2_Cons1)
  let ?n = "unat (pm_bit_length m)"
  have nd: "\<not> is_dummy_mapping_index (pm_index m)" "\<not> is_dummy_mapping_index (pm_index m')"
    "pm_bit_length m' = pm_bit_length m" using ms'(2) by (auto simp: linked_def)
  obtain v where v: "gen_val p (pm_index m) (pm_subindex m) = Some v"
      "\<forall>b < ?n. bit_at data (off + b) = bit_at v b"
    using Cons.prems(1) nd(1) by auto
  have fits: "off + ?n \<le> 8 * length data" "?n \<le> 64"
    using Cons.prems(2) ms'(2) dt_size_bound by (auto simp: linked_def split: option.splits)
  have val: "rpdo_value (gen_ops d validate) c m' data off = Some v"
    using rpdo_value_linked [OF ms'(2) fits(1) v] .
  obtain u where u: "gen_write c (pm_index m') (pm_subindex m') v =
        (Inr (), store_at (pm_index m') (pm_subindex m') u c)"
      "gen_val (store_at (pm_index m') (pm_subindex m') u c) (pm_index m') (pm_subindex m') = Some v"
    using write_linked [OF ms'(2) v(1)] by blast
  let ?c = "store_at (pm_index m') (pm_subindex m') u c"
  have ll: "list_all2 (linked p ?c) ms ms1" using ms'(3) by (rule list_all2_mono) (simp add: linked_store)
  have di: "distinct (map mapping_addr ms1)" using Cons.prems(4) by (simp add: ms'(1))
  have pk: "packed (gen_val p) ms (off + ?n) data" "off + ?n + mapping_bits ms \<le> 8 * length data"
    using Cons.prems(1,2) by (simp_all add: ac_simps)
  obtain c' ev' dr' where IH:
    "apply_mapped Q (gen_ops d validate) ms1 data (off + ?n) (?c, push_evict Q ev (rpdo_event m'),
        if length ev \<ge> Q then saturating_add dr 1 else dr) = Some (c', ev', dr')"
    "\<forall>i s. (i, s) \<notin> set (map mapping_addr ms1) \<longrightarrow> gen_val c' i s = gen_val ?c i s"
    "list_all2 (\<lambda>m m'. gen_val c' (pm_index m') (pm_subindex m') = gen_val p (pm_index m) (pm_subindex m)) ms ms1"
    using Cons.IH [OF pk ll di] by blast
  have "apply_mapped Q (gen_ops d validate) ms' data off (c, ev, dr) = Some (c', ev', dr')"
    using IH(1) fits nd val u(1) bytes_for_bits_le [OF fits(2)]
    by (simp add: ms'(1) gen_ops_def Let_def mult.commute)
  moreover have "gen_val c' i s = gen_val c i s" if "(i, s) \<notin> set (map mapping_addr ms')" for i s
    using that IH(2) [rule_format, of i s] by (auto simp: ms'(1) mapping_addr_def gen_val_def gen_find_store_at)
  moreover have "gen_val c' (pm_index m') (pm_subindex m') = Some v"
    using IH(2) [rule_format, of "pm_index m'" "pm_subindex m'"] u(2) Cons.prems(4) by (auto simp: ms'(1) mapping_addr_def)
  ultimately show ?case using IH(3) v(1) by (auto simp: ms'(1))
qed

end
