(* ===== verification/Od_Configs.thy ===== *)
theory Od_Configs
  imports Od_Generated
begin

unbundle bit_operations_syntax

text \<open>
  The configurations that the generated dictionary derives from its PDO and SDO server records
  (\<open>tpdo_configs\<close>, \<open>rpdo_configs\<close>, \<open>sdo_server_configs\<close> of
  \<open>canopen-derive/src/codegen.rs\<close>).
\<close>

section \<open>Configurations\<close>

definition default_cob :: "u16 \<Rightarrow> pdo_def \<Rightarrow> node_id \<Rightarrow> u16" where
  "default_cob base p n = (case pd_cob_id p of
     Some (NodeRelative b) \<Rightarrow> ucast b + ucast (node_raw n)
   | _ \<Rightarrow> if pd_number p \<le> 4 then base + (pd_number p - 1) * 0x100 + ucast (node_raw n) else 0)"

definition config_cob :: "u16 \<Rightarrow> pdo_def \<Rightarrow> node_id \<Rightarrow> u32 \<Rightarrow> u16" where
  "config_cob base p n raw = (if raw = 0 then default_cob base p n else ucast (raw AND 0x7FF))"

definition active_mappings :: "gen_od \<Rightarrow> u16 \<Rightarrow> pdo_mapping list" where
  "active_mappings od index = map from_mapping_value
     (stored_mappings od index (min (unat (field_u8 od index 0)) PDO_MAX_MAPPINGS))"

definition tpdo_config_from :: "gen_od \<Rightarrow> node_id \<Rightarrow> pdo_def \<Rightarrow> tpdo_config" where
  "tpdo_config_from od n p =
     (let c = comm_index p; raw = field_u32 od c 1; cob_id = config_cob 0x180 p n raw
      in \<lparr>tc_od_number = pd_number p, tc_cob_id = cob_id, tc_transmission_type = field_u8 od c 2,
          tc_inhibit_time_100us = field_u16 od c 3, tc_event_timer_ms = field_u16 od c 5,
          tc_mappings = active_mappings od (map_index p),
          tc_enabled = (raw AND 0x80000000 = 0 \<and> cob_id \<noteq> 0)\<rparr>)"

definition rpdo_config_from :: "gen_od \<Rightarrow> node_id \<Rightarrow> pdo_def \<Rightarrow> rpdo_config" where
  "rpdo_config_from od n p =
     (let c = comm_index p; raw = field_u32 od c 1; cob_id = config_cob 0x200 p n raw
      in \<lparr>rc_od_number = pd_number p, rc_cob_id = cob_id, rc_transmission_type = field_u8 od c 2,
          rc_deadline_ms = field_u16 od c 5, rc_mappings = active_mappings od (map_index p),
          rc_enabled = (raw AND 0x80000000 = 0 \<and> cob_id \<noteq> 0)\<rparr>)"

definition tpdo_configs :: "od_definition \<Rightarrow> gen_od \<Rightarrow> node_id \<Rightarrow> tpdo_config list" where
  "tpdo_configs d od n = map (tpdo_config_from od n) (def_tpdos d)"

definition rpdo_configs :: "od_definition \<Rightarrow> gen_od \<Rightarrow> node_id \<Rightarrow> rpdo_config list" where
  "rpdo_configs d od n = map (rpdo_config_from od n) (def_rpdos d)"

record sdo_server_config =
  ssc_number :: u16
  ssc_cob_rx :: u16
  ssc_cob_tx :: u16

definition sdo_server_configs :: "od_definition \<Rightarrow> node_id \<Rightarrow> sdo_server_config list" where
  "sdo_server_configs d n = map (\<lambda>s. \<lparr>ssc_number = sd_number s, ssc_cob_rx = resolve_cob (sd_cob_rx s) n,
     ssc_cob_tx = resolve_cob (sd_cob_tx s) n\<rparr>) (def_sdo_servers d)"

end
