(* ===== verification/Od_Unique.thy ===== *)
theory Od_Unique
  imports Od_Configs
begin

unbundle bit_operations_syntax

text \<open>
  The addresses of a generated dictionary: a definition that \<open>OdDefinition::validate\<close>
  accepts generates no address twice, and the generated fields are well-typed.
\<close>

section \<open>Addresses\<close>

definition entry_addr :: "gen_entry \<Rightarrow> u16 \<times> u8" where
  "entry_addr e = (meta_index (ge_meta e), meta_subindex (ge_meta e))"

abbreviation addrs :: "gen_od \<Rightarrow> (u16 \<times> u8) list" where
  "addrs od \<equiv> map entry_addr od"

definition indices :: "gen_od \<Rightarrow> u16 set" where
  "indices od = (\<lambda>e. meta_index (ge_meta e)) ` set od"

lemma indices_simps [simp]:
  "indices [] = {}" "indices (e # od) = insert (meta_index (ge_meta e)) (indices od)"
  "indices (od @ od') = indices od \<union> indices od'"
  by (auto simp: indices_def)

lemma addrs_disjoint: "indices a \<inter> indices b = {} \<Longrightarrow> set (addrs a) \<inter> set (addrs b) = {}"
  by (fastforce simp: indices_def entry_addr_def)

lemma plain_entry_simps [simp]:
  "meta_index (ge_meta (plain_entry i s t a n k v)) = i"
  "entry_addr (plain_entry i s t a n k v) = (i, s)"
  "ge_arm (plain_entry i s t a n k v) = k" "ge_value (plain_entry i s t a n k v) = v"
  "meta_data_type (ge_meta (plain_entry i s t a n k v)) = t"
  by (simp_all add: plain_entry_def entry_addr_def)

lemma field_entry_simps [simp]:
  "meta_index (ge_meta (field_entry al i s n v)) = i" "entry_addr (field_entry al i s n v) = (i, s)"
  "ge_arm (field_entry al i s n v) = PlainArm" "meta_data_type (ge_meta (field_entry al i s n v)) = vd_type v"
  by (simp_all add: field_entry_def entry_addr_def)

lemma array_element_simps [simp]:
  "meta_index (ge_meta (array_element e a s)) = de_index e" "entry_addr (array_element e a s) = (de_index e, s)"
  "ge_arm (array_element e a s) = PlainArm" "meta_data_type (ge_meta (array_element e a s)) = ad_type a"
  "ge_value (array_element e a s) = zero_value (ad_type a)"
  by (simp_all add: array_element_def entry_addr_def plain_entry_def Let_def)

lemma entry_addr_counted [simp]: "entry_addr (e\<lparr>ge_counted := b\<rparr>) = entry_addr e"
  by (simp add: entry_addr_def)

lemma of_nat_u8_eq: "x < 256 \<Longrightarrow> y < 256 \<Longrightarrow> (of_nat x :: u8) = of_nat y \<longleftrightarrow> x = y"
  by (auto simp: unat_of_nat word_unat_eq_iff)

lemma indices_subset:
  "indices (flatten al es) \<subseteq> de_index ` set es" "indices (record_counts es) \<subseteq> de_index ` set es"
  "indices (array_entries es) \<subseteq> de_index ` set es"
  by (induction es) (auto simp: indices_def Let_def split: entry_kind.splits)

definition record_ok :: "od_def_entry \<Rightarrow> bool" where
  "record_ok e \<longleftrightarrow> (case de_kind e of
     RecordEntry subs \<Rightarrow> (let ss = map fst subs in 0 \<notin> set ss \<and> distinct ss) | _ \<Rightarrow> True)"

lemma block_distinct:
  assumes "record_ok e"
  shows "distinct (addrs (flatten al [e] @ record_counts [e] @ array_entries [e]))"
proof (cases "de_kind e")
  case (RecordEntry subs)
  then have "0 \<notin> fst ` set subs" "distinct (map fst subs)" using assms by (simp_all add: record_ok_def)
  moreover have "addrs (map (\<lambda>(s, n, v). field_entry al (de_index e) s n v) subs)
      = map (Pair (de_index e)) (map fst subs)" by (auto simp: split_def)
  ultimately show ?thesis using RecordEntry
    by (auto simp: distinct_map inj_on_def split_def)
next
  case (ArrayEntry a)
  let ?n = "unat (of_nat (ad_count a) :: u8)"
  have "?n < 256" by (rule order.strict_trans2 [OF unsigned_less]) simp
  then have "inj_on (\<lambda>s. (de_index e, of_nat s :: u8)) {1..<Suc ?n}"
    and "\<forall>s \<in> {1..<Suc ?n}. (of_nat s :: u8) \<noteq> 0"
    using of_nat_u8_eq [of _ 0] by (auto intro!: inj_onI simp: of_nat_u8_eq)
  then show ?thesis using ArrayEntry
    by (auto simp: Let_def distinct_map o_def simp del: upt_Suc)
qed simp

lemma distinct_interleave:
  "distinct (a @ b @ c) \<Longrightarrow> distinct (a' @ b' @ c') \<Longrightarrow> set (a @ b @ c) \<inter> set (a' @ b' @ c') = {}
   \<Longrightarrow> distinct ((a @ a') @ (b @ b') @ (c @ c'))"
  by auto

lemma entries_distinct:
  assumes "distinct (map de_index es)" and "\<forall>e \<in> set es. record_ok e"
  shows "distinct (addrs (flatten al es @ record_counts es @ array_entries es))"
  using assms
proof (induction es)
  case (Cons e es)
  let ?E = "flatten al [e] @ record_counts [e] @ array_entries [e]"
  let ?R = "flatten al es @ record_counts es @ array_entries es"
  have "indices ?E \<subseteq> {de_index e}" using indices_subset(1) [of al "[e]"] indices_subset(2,3) [of "[e]"] by simp
  moreover have "indices ?R \<subseteq> de_index ` set es" using indices_subset(1) [of al es] indices_subset(2,3) [of es] by simp
  ultimately have d: "set (addrs ?E) \<inter> set (addrs ?R) = {}"
    using Cons.prems(1) by (intro addrs_disjoint) auto
  have e: "flatten al (e # es) = flatten al [e] @ flatten al es"
    "record_counts (e # es) = record_counts [e] @ record_counts es"
    "array_entries (e # es) = array_entries [e] @ array_entries es" by simp_all
  have "distinct (addrs ?E)" using Cons.prems(2) by (intro block_distinct) simp
  moreover have "distinct (addrs ?R)" using Cons by auto
  ultimately show ?case unfolding e map_append
    by (intro distinct_interleave) (use d in \<open>simp_all only: map_append\<close>)
qed simp

lemma unat_pdo_index:
  fixes n :: u16 and b :: u16
  assumes "1 \<le> n" "n \<le> 512" "b \<le> 0x2000"
  shows "unat (b + (n - 1)) = unat b + (unat n - 1)"
proof -
  have "unat n \<le> 512" "unat b \<le> 0x2000" using assms(2,3) by (simp_all add: word_le_nat_alt)
  moreover have "unat (n - 1) = unat n - 1" using assms(1) by (simp add: unat_sub)
  ultimately show ?thesis by (simp add: unat_word_ariths)
qed

definition pdo_base :: "pdo_direction \<Rightarrow> u16 \<times> u16" where
  "pdo_base dir = (case dir of DirTpdo \<Rightarrow> (0x1800, 0x1A00) | DirRpdo \<Rightarrow> (0x1400, 0x1600))"

lemma unat_pdo_indices:
  assumes "1 \<le> pd_number p" "pd_number p \<le> 512"
  shows "unat (comm_index p) = unat (fst (pdo_base (pd_direction p))) + (unat (pd_number p) - 1)"
    and "unat (map_index p) = unat (snd (pdo_base (pd_direction p))) + (unat (pd_number p) - 1)"
  using unat_pdo_index [OF assms, of "fst (pdo_base (pd_direction p))"]
    unat_pdo_index [OF assms, of "snd (pdo_base (pd_direction p))"]
  by (cases "pd_direction p"; simp add: comm_index_def map_index_def pdo_base_def)+

lemma pdo_entries_Nil [simp]: "pdo_entries flat [] = Some []"
  by (simp add: pdo_entries_def)

lemma pdo_entries_Cons: "pdo_entries flat (p # ps) = Some od \<longleftrightarrow>
    (\<exists>ms od'. resolve_pdo_mappings flat p = Some ms \<and> pdo_entries flat ps = Some od'
       \<and> od = (comm_entries p @ map_entries p ms) @ od')"
  by (auto simp: pdo_entries_def split: option.splits)

lemma pdo_block_indices [simp]:
  "indices (comm_entries p) = {comm_index p}" "indices (map_entries p ms) = {map_index p}"
  by (auto simp: tpdo_comm_entries_def rpdo_comm_entries_def map_entries_def Let_def indices_def split: pdo_direction.splits)

lemma resolve_bounds:
  "resolve_pdo_mappings flat p = Some ms \<Longrightarrow> mapping_bits ms \<le> 64 \<and> length ms \<le> 64"
  by (auto simp: resolve_pdo_mappings_def split: if_splits bind_splits)

lemma pdo_block_distinct:
  assumes "length ms \<le> 64" and "comm_index p \<noteq> map_index p"
  shows "distinct (addrs (comm_entries p @ map_entries p ms))"
proof -
  have "distinct (addrs (comm_entries p))"
    by (simp add: tpdo_comm_entries_def rpdo_comm_entries_def split: pdo_direction.splits)
  moreover have "distinct (addrs (map_entries p ms))"
  proof -
    have z: "(of_nat (Suc j) :: u8) \<noteq> 0" if "j < 64" for j
      using that of_nat_u8_eq [of "Suc j" 0] by simp
    have "inj_on (\<lambda>j. (map_index p, of_nat (Suc j) :: u8)) {0..<n}" if "n \<le> 64" for n
      using that of_nat_u8_eq [of "Suc _" "Suc _"] by (auto intro!: inj_onI simp del: of_nat_Suc)
    then show ?thesis using assms(1) z
      by (auto simp: map_entries_def Let_def distinct_map o_def simp del: of_nat_Suc)
  qed
  moreover have "set (addrs (comm_entries p)) \<inter> set (addrs (map_entries p ms)) = {}"
    using assms(2) by (intro addrs_disjoint) simp
  ultimately show ?thesis by (simp add: Int_commute)
qed

lemma pdo_entries_indices:
  "pdo_entries flat ps = Some od \<Longrightarrow> indices od = (\<Union>p \<in> set ps. {comm_index p, map_index p})"
  by (induction ps arbitrary: od) (auto simp: pdo_entries_Cons)

definition pdo_ok :: "pdo_direction \<Rightarrow> pdo_def \<Rightarrow> bool" where
  "pdo_ok dir p \<longleftrightarrow> pd_direction p = dir \<and> 1 \<le> pd_number p \<and> pd_number p \<le> 512"

lemma pdo_index_distinct:
  assumes "pdo_ok dir p" "pdo_ok dir q"
  shows "comm_index p \<noteq> map_index q"
    and "comm_index p = comm_index q \<longleftrightarrow> pd_number p = pd_number q"
    and "map_index p = map_index q \<longleftrightarrow> pd_number p = pd_number q"
proof -
  have n: "unat (pd_number p) \<le> 512" "unat (pd_number q) \<le> 512"
    using assms by (simp_all add: pdo_ok_def word_le_nat_alt)
  have "unat (comm_index p) \<noteq> unat (map_index q)"
    using n assms unat_pdo_indices [of p] unat_pdo_indices [of q]
    by (cases dir) (auto simp: pdo_ok_def pdo_base_def)
  then show "comm_index p \<noteq> map_index q" by auto
qed (use assms in \<open>auto simp: pdo_ok_def comm_index_def map_index_def split: pdo_direction.splits\<close>)

lemma pdo_entries_distinct:
  assumes "pdo_entries flat ps = Some od" and "\<forall>p \<in> set ps. pdo_ok dir p" and "distinct (map pd_number ps)"
  shows "distinct (addrs od)"
  using assms
proof (induction ps arbitrary: od)
  case (Cons p ps)
  then obtain ms od' where od: "resolve_pdo_mappings flat p = Some ms" "pdo_entries flat ps = Some od'"
      "od = (comm_entries p @ map_entries p ms) @ od'"
    by (auto simp: pdo_entries_Cons)
  have p: "pdo_ok dir p" using Cons.prems(2) by simp
  have "distinct (addrs (comm_entries p @ map_entries p ms))"
    using resolve_bounds [OF od(1)] pdo_index_distinct(1) [OF p p] by (intro pdo_block_distinct) auto
  moreover have "distinct (addrs od')" using Cons od(2) by simp
  moreover have "set (addrs (comm_entries p @ map_entries p ms)) \<inter> set (addrs od') = {}"
  proof (rule addrs_disjoint)
    have "comm_index q \<noteq> comm_index p" "comm_index q \<noteq> map_index p" "map_index q \<noteq> comm_index p"
      "map_index q \<noteq> map_index p" if "q \<in> set ps" for q
      using that Cons.prems(2,3) pdo_index_distinct [of dir p q] pdo_index_distinct [of dir q p]
      by (auto simp: image_iff)
    then show "indices (comm_entries p @ map_entries p ms) \<inter> indices od' = {}"
      by (fastforce simp: pdo_entries_indices [OF od(2)])
  qed
  ultimately show ?case unfolding od(3) map_append by (simp only: distinct_append)
qed simp

lemma unat_sdo_index:
  fixes n :: u16
  assumes "2 \<le> n" "n \<le> 128"
  shows "unat (0x1200 + (n - 1)) = 0x1200 + (unat n - 1)"
  using unat_pdo_index [of n "0x1200"] assms order_trans [of 1 2 n] order_trans [of n 128 512] by simp

lemma sdo_entries_distinct:
  assumes "distinct (map sd_number ss)"
  shows "distinct (addrs (concat (map sdo_server_entries ss)))"
    and "indices (concat (map sdo_server_entries ss)) = (\<lambda>s. 0x1200 + (sd_number s - 1)) ` set ss"
proof -
  show i: "indices (concat (map sdo_server_entries ss)) = (\<lambda>s. 0x1200 + (sd_number s - 1)) ` set ss" for ss
    by (induction ss) (auto simp: sdo_server_entries_def Let_def)
  show "distinct (addrs (concat (map sdo_server_entries ss)))" using assms
  proof (induction ss)
    case (Cons s ss)
    have "set (addrs (sdo_server_entries s)) \<inter> set (addrs (concat (map sdo_server_entries ss))) = {}"
      using Cons.prems by (intro addrs_disjoint) (auto simp: i sdo_server_entries_def Let_def)
    moreover have "distinct (addrs (sdo_server_entries s))" by (simp add: sdo_server_entries_def Let_def)
    ultimately show ?case using Cons by simp
  qed simp
qed

lemma generate_parts:
  assumes "generate d eds = Some od"
  obtains t r where "pdo_entries (flatten (def_use_alloc d) (def_entries d)) (def_tpdos d) = Some t"
    "pdo_entries (flatten (def_use_alloc d) (def_entries d)) (def_rpdos d) = Some r"
    "distinct (map pd_number (def_tpdos d))" "distinct (map pd_number (def_rpdos d))"
    "distinct (map sd_number (def_sdo_servers d))"
    "od = flatten (def_use_alloc d) (def_entries d) @ t @ r @ concat (map sdo_server_entries (def_sdo_servers d))
       @ record_counts (def_entries d) @ array_entries (def_entries d) @ eds_entries eds"
  using assms that by (auto simp: generate_def assert_that_def Let_def split: bind_splits if_splits)

lemma generated_not_declared:
  assumes "validate_definition d" "i \<in> set (generated_indices d)"
  shows "i \<notin> de_index ` set (def_entries d)"
  using assms by (auto simp: validate_definition_def list_all_iff)

lemma generated_ranges:
  assumes "wf_definition d"
  shows "p \<in> set (def_tpdos d) \<Longrightarrow> pdo_ok DirTpdo p
      \<and> 0x1800 \<le> unat (comm_index p) \<and> 0x1800 \<le> unat (map_index p)"
    and "p \<in> set (def_rpdos d) \<Longrightarrow> pdo_ok DirRpdo p \<and> 0x1400 \<le> unat (comm_index p) \<and> unat (comm_index p) < 0x1800
      \<and> 0x1400 \<le> unat (map_index p) \<and> unat (map_index p) < 0x1800"
    and "s \<in> set (def_sdo_servers d) \<Longrightarrow> 0x1200 < unat (0x1200 + (sd_number s - 1))
      \<and> unat (0x1200 + (sd_number s - 1)) < 0x1400"
proof -
  have ok: "1 \<le> pd_number p" "pd_number p \<le> 512" "unat (pd_number p) \<le> 512" if "p \<in> set (def_pdos d)"
    using assms that by (auto simp: wf_definition_def list_all_iff word_le_nat_alt)
  show "p \<in> set (def_tpdos d) \<Longrightarrow> pdo_ok DirTpdo p
      \<and> 0x1800 \<le> unat (comm_index p) \<and> 0x1800 \<le> unat (map_index p)"
    using ok unat_pdo_indices [of p] by (auto simp: def_tpdos_def pdo_ok_def pdo_base_def)
  show "p \<in> set (def_rpdos d) \<Longrightarrow> pdo_ok DirRpdo p \<and> 0x1400 \<le> unat (comm_index p) \<and> unat (comm_index p) < 0x1800
      \<and> 0x1400 \<le> unat (map_index p) \<and> unat (map_index p) < 0x1800"
    using ok unat_pdo_indices [of p] by (auto simp: def_rpdos_def pdo_ok_def pdo_base_def)
  show "s \<in> set (def_sdo_servers d) \<Longrightarrow> 0x1200 < unat (0x1200 + (sd_number s - 1))
      \<and> unat (0x1200 + (sd_number s - 1)) < 0x1400"
    using assms unat_sdo_index [of "sd_number s"]
    by (auto simp: wf_definition_def list_all_iff word_le_nat_alt)
qed

lemma distinct_around:
  "distinct (a @ b @ c) \<Longrightarrow> distinct (g @ h) \<Longrightarrow> set (a @ b @ c) \<inter> set (g @ h) = {}
   \<Longrightarrow> distinct (a @ g @ b @ c @ h)"
  by auto

lemma generate_distinct:
  assumes "validate_definition d" "wf_definition d" "generate d eds = Some od"
  shows "distinct (addrs od)"
proof -
  let ?es = "def_entries d" let ?F = "flatten (def_use_alloc d) ?es"
  let ?S = "concat (map sdo_server_entries (def_sdo_servers d))"
  obtain t r where p: "pdo_entries ?F (def_tpdos d) = Some t" "pdo_entries ?F (def_rpdos d) = Some r"
    and dn: "distinct (map pd_number (def_tpdos d))" "distinct (map pd_number (def_rpdos d))"
      "distinct (map sd_number (def_sdo_servers d))"
    and od: "od = ?F @ t @ r @ ?S @ record_counts ?es @ array_entries ?es @ eds_entries eds"
    by (rule generate_parts [OF assms(3)])
  note rng = generated_ranges [OF assms(2)]
  have e: "distinct (addrs (eds_entries eds))" "indices (eds_entries eds) = {0x1021, 0x1022}"
    by (auto simp: eds_entries_def Let_def entry_addr_def plain_entry_def)
  have s: "distinct (addrs ?S)" "indices ?S = (\<lambda>s. 0x1200 + (sd_number s - 1)) ` set (def_sdo_servers d)"
    using sdo_entries_distinct [OF dn(3)] by auto
  have T: "distinct (addrs t)" using rng(1) by (intro pdo_entries_distinct [OF p(1) _ dn(1)]) blast
  have R: "distinct (addrs r)" using rng(2) by (intro pdo_entries_distinct [OF p(2) _ dn(2)]) blast
  have it: "\<forall>i \<in> indices t. 0x1800 \<le> unat i" using rng(1) by (auto simp: pdo_entries_indices [OF p(1)])
  have ir: "\<forall>i \<in> indices r. 0x1400 \<le> unat i \<and> unat i < 0x1800"
    using rng(2) by (auto simp: pdo_entries_indices [OF p(2)])
  have isd: "\<forall>i \<in> indices ?S. 0x1200 < unat i \<and> unat i < 0x1400" using rng(3) by (auto simp: s(2))
  have ie: "\<forall>i \<in> indices (eds_entries eds). unat i < 0x1200" by (simp add: e(2))
  let ?G = "t @ r @ ?S @ eds_entries eds"
  have G: "distinct (addrs ?G)"
  proof -
    have j: "indices t \<inter> indices (r @ ?S @ eds_entries eds) = {}" "indices r \<inter> indices (?S @ eds_entries eds) = {}"
      "indices ?S \<inter> indices (eds_entries eds) = {}"
      using it ir isd ie by fastforce+
    show ?thesis using j [THEN addrs_disjoint] T R s(1) e(1) by (simp only: map_append distinct_append)
  qed
  have D: "distinct (addrs (?F @ record_counts ?es @ array_entries ?es))"
    using assms(1) by (intro entries_distinct) (auto simp: validate_definition_def record_ok_def list_all_iff)
  have "indices ?G \<subseteq> set (generated_indices d)"
    by (auto simp: s(2) e(2) pdo_entries_indices [OF p(1)] pdo_entries_indices [OF p(2)] generated_indices_def
        def_tpdos_def def_rpdos_def add_diff_eq)
  moreover have "indices (?F @ record_counts ?es @ array_entries ?es) \<subseteq> de_index ` set ?es"
    using indices_subset(1) [of "def_use_alloc d" ?es] indices_subset(2,3) [of ?es] by simp
  ultimately have "indices (?F @ record_counts ?es @ array_entries ?es) \<inter> indices ?G = {}"
    using generated_not_declared [OF assms(1)] by blast
  then have "set (addrs (?F @ record_counts ?es @ array_entries ?es)) \<inter> set (addrs ?G) = {}"
    by (rule addrs_disjoint)
  then show ?thesis
    using distinct_around [of "addrs ?F" "addrs (record_counts ?es)" "addrs (array_entries ?es)"
        "addrs (t @ r @ ?S)" "addrs (eds_entries eds)"] D G
    unfolding od by (simp only: map_append append_assoc)
qed

section \<open>The generated dictionary is well-typed\<close>

lemma addr_unique:
  "distinct (addrs od) \<Longrightarrow> e \<in> set od \<Longrightarrow> e' \<in> set od \<Longrightarrow> entry_addr e = entry_addr e' \<Longrightarrow> e = e'"
  by (metis distinct_map inj_onD)

lemma at_addr_iff: "at_addr i s e \<longleftrightarrow> entry_addr e = (i, s)"
  by (simp add: at_addr_def entry_addr_def)

lemma gen_find_unique:
  assumes "distinct (addrs od)" "e \<in> set od"
  shows "gen_find od (fst (entry_addr e)) (snd (entry_addr e)) = Some e"
proof (cases "gen_find od (fst (entry_addr e)) (snd (entry_addr e))")
  case None
  then show ?thesis using assms(2) by (auto simp: gen_find_def find_None_iff at_addr_iff)
next
  case (Some e')
  then show ?thesis using gen_find_in [OF Some] addr_unique [OF assms(1), of e' e] assms(2)
    by (simp add: at_addr_iff)
qed

lemma repr_ok_zero: "repr_ok t (zero_value t)"
  by (cases t) (simp_all add: zero_value_def)

lemma repr_ok_default: "default_ok v \<Longrightarrow> repr_ok (vd_type v) (field_default al v)"
  by (auto simp: default_ok_def field_default_def repr_ok_zero split: option.splits od_value.splits)

lemma field_entry_typed: "default_ok v \<Longrightarrow> entry_typed (field_entry al i s n v)"
  by (simp add: entry_typed_def field_entry_def repr_ok_default)

lemma flatten_typed:
  "\<forall>e \<in> set es. (case de_kind e of VarEntry v \<Rightarrow> default_ok v
      | RecordEntry subs \<Rightarrow> list_all (\<lambda>(s, n, v). default_ok v) subs | ArrayEntry a \<Rightarrow> True)
   \<Longrightarrow> \<forall>e \<in> set (flatten al es). entry_typed e"
  by (induction es) (auto simp: field_entry_typed list_all_iff split: entry_kind.splits)

lemma record_counts_typed: "\<forall>e \<in> set (record_counts es). entry_typed e"
  by (induction es) (auto simp: entry_typed_def plain_entry_def split: entry_kind.splits)

lemma array_entries_typed: "\<forall>e \<in> set (array_entries es). entry_typed e"
  by (induction es) (auto simp: entry_typed_def repr_ok_zero Let_def split: entry_kind.splits)

lemma pdo_entries_typed: "pdo_entries flat ps = Some od \<Longrightarrow> \<forall>e \<in> set od. entry_typed e"
  by (induction ps arbitrary: od)
    (auto simp: pdo_entries_Cons tpdo_comm_entries_def rpdo_comm_entries_def map_entries_def entry_typed_def Let_def split: pdo_direction.splits)

lemma generate_typed:
  assumes "wf_definition d" "generate d eds = Some od"
  shows "\<forall>e \<in> set od. entry_typed e"
proof -
  obtain t r where "pdo_entries (flatten (def_use_alloc d) (def_entries d)) (def_tpdos d) = Some t"
      "pdo_entries (flatten (def_use_alloc d) (def_entries d)) (def_rpdos d) = Some r"
    and od: "od = flatten (def_use_alloc d) (def_entries d) @ t @ r @ concat (map sdo_server_entries (def_sdo_servers d))
       @ record_counts (def_entries d) @ array_entries (def_entries d) @ eds_entries eds"
    by (rule generate_parts [OF assms(2)])
  moreover have "\<forall>e \<in> set (eds_entries eds). entry_typed e"
    by (simp add: eds_entries_def entry_typed_def plain_entry_def Let_def)
  moreover have "\<forall>e \<in> set (sdo_server_entries s). entry_typed e" for s
    by (simp add: sdo_server_entries_def entry_typed_def Let_def)
  ultimately show ?thesis
    using pdo_entries_typed record_counts_typed array_entries_typed
      flatten_typed [of "def_entries d" "def_use_alloc d"] assms(1)
    by (simp add: od wf_definition_def list_all_iff ball_Un)
qed

lemma flatten_var:
  "e \<in> set es \<Longrightarrow> de_kind e = VarEntry v \<Longrightarrow> field_entry al (de_index e) 0 (de_name e) v \<in> set (flatten al es)"
  by (induction es) auto

lemma declares_error_registerE:
  assumes "declares_error_register d"
  obtains x v where "x \<in> set (def_entries d)" "de_index x = 0x1001" "de_kind x = VarEntry v" "vd_type v = U8"
proof -
  obtain x where x: "x \<in> set (def_entries d)" "de_index x = 0x1001"
      "case de_kind x of VarEntry v \<Rightarrow> vd_type v = U8 | _ \<Rightarrow> False"
    using assms unfolding declares_error_register_def list_ex_iff by blast
  with that show thesis by (cases "de_kind x") simp_all
qed

lemma sdo_entry_at:
  "k = 1 \<or> k = 2 \<Longrightarrow> \<exists>x \<in> set (sdo_server_entries s). entry_addr x = (0x1200 + (sd_number s - 1), k)
     \<and> meta_data_type (ge_meta x) = U32 \<and> ge_arm x = PlainArm"
  by (auto simp: sdo_server_entries_def Let_def)

lemma generate_inv:
  assumes "validate_definition d" "wf_definition d" "generate d eds = Some od"
  shows "gen_inv d od"
  unfolding gen_inv_def
proof
  fix e assume e: "e \<in> set od"
  note dist = generate_distinct [OF assms]
  obtain t r where od: "od = flatten (def_use_alloc d) (def_entries d) @ t @ r
       @ concat (map sdo_server_entries (def_sdo_servers d))
       @ record_counts (def_entries d) @ array_entries (def_entries d) @ eds_entries eds"
    by (rule generate_parts [OF assms(3)])
  have er: "meta_data_type (ge_meta e) = U8 \<and> ge_arm e = PlainArm" if de: "declares_error_register d" and ae: "at_addr 0x1001 0 e"
  proof -
    obtain x v where x: "x \<in> set (def_entries d)" "de_index x = 0x1001" "de_kind x = VarEntry v" "vd_type v = U8"
      by (rule declares_error_registerE [OF de])
    let ?x = "field_entry (def_use_alloc d) 0x1001 0 (de_name x) v"
    have "?x \<in> set od" using flatten_var [OF x(1,3), of "def_use_alloc d"] by (simp add: od x(2))
    then have "e = ?x" using addr_unique [OF dist e] ae by (simp add: at_addr_iff)
    then show ?thesis using x(4) by simp
  qed
  have "meta_data_type (ge_meta e) = U32 \<and> ge_arm e = PlainArm"
    if s: "s \<in> set (def_sdo_servers d)" and a: "at_addr (0x1200 + (sd_number s - 1)) k e" "k = 1 \<or> k = 2" for s k
  proof -
    obtain x where x: "x \<in> set (sdo_server_entries s)" "entry_addr x = (0x1200 + (sd_number s - 1), k)"
      "meta_data_type (ge_meta x) = U32" "ge_arm x = PlainArm"
      using sdo_entry_at [OF a(2), of s] by blast
    then have "x \<in> set od" using s by (auto simp: od)
    then have "e = x" using addr_unique [OF dist e] a(1) x(2) by (simp add: at_addr_iff)
    then show ?thesis using x by simp
  qed
  with er e generate_typed [OF assms(2,3)] show "entry_inv d e" by (auto simp: entry_inv_def)
qed

end
