(* ===== verification/Od_Mapping.thy ===== *)
theory Od_Mapping
  imports Od_Unique
begin

unbundle bit_operations_syntax

text \<open>
  The PDO mapping records of a generated dictionary under arbitrary writes: the active mappings
  always fit a frame, and immutable mappings never change.
\<close>

section \<open>The mapping records\<close>

text \<open>
  What holds of a PDO's mapping record in every state: its entries have their write arms, and the
  active mappings fit the frame.
\<close>

definition mapping_shape :: "gen_od \<Rightarrow> pdo_def \<Rightarrow> bool" where
  "mapping_shape od p \<longleftrightarrow> (\<forall>s e. gen_find od (map_index p) s = Some e \<longrightarrow>
     ge_arm e = (if s = 0 then MappingCountArm (pd_direction p = DirRpdo) else MappingEntryArm))"

definition mapping_fits :: "gen_od \<Rightarrow> pdo_def \<Rightarrow> bool" where
  "mapping_fits od p \<longleftrightarrow> (let n = unat (field_u8 od (map_index p) 0) in
     n \<le> PDO_MAX_MAPPINGS \<and> mapping_bits_raw (stored_mappings od (map_index p) n) \<le> PDO_MAX_PAYLOAD_BITS)"

lemma gen_find_store_arm:
  "gen_find (store_at i s v od) i' s' = Some e \<Longrightarrow> \<exists>e0. gen_find od i' s' = Some e0 \<and> ge_arm e = ge_arm e0"
  by (auto simp: gen_find_store_at split: if_splits)

lemma mapping_shape_store: "mapping_shape od p \<Longrightarrow> mapping_shape (store_at i s v od) p"
  unfolding mapping_shape_def using gen_find_store_arm by metis

lemma field_store_other:
  "(i', s') \<noteq> (i, s) \<Longrightarrow> field_u8 (store_at i s v od) i' s' = field_u8 od i' s'"
  "(i', s') \<noteq> (i, s) \<Longrightarrow> field_u32 (store_at i s v od) i' s' = field_u32 od i' s'"
  "(i', s') \<noteq> (i, s) \<Longrightarrow> field_u16 (store_at i s v od) i' s' = field_u16 od i' s'"
  by (auto simp: field_u8_def field_u32_def field_u16_def gen_find_store_at)

lemma Suc_u8_nonzero: "j < 255 \<Longrightarrow> (of_nat (Suc j) :: u8) \<noteq> 0"
  using of_nat_u8_eq [of "Suc j" 0] by simp

lemma stored_mappings_other:
  "i' \<noteq> i \<or> (s = 0 \<and> n \<le> PDO_MAX_MAPPINGS) \<Longrightarrow> stored_mappings (store_at i s v od) i' n = stored_mappings od i' n"
  using Suc_u8_nonzero by (fastforce simp: stored_mappings_def field_store_other simp del: of_nat_Suc)

lemma field_u8_store_same:
  "gen_find od i s = Some e \<Longrightarrow> field_u8 (store_at i s (VW8 w) od) i s = w"
  by (simp add: field_u8_def gen_find_store_at)

lemma gen_write_cases:
  assumes "gen_write od i s data = (r, od')"
  obtains (refused) "\<not> is_ok r" "od' = od"
  | (written) e v where "gen_find od i s = Some e" "gen_write_arm od e data = Inr v"
      "r = Inr ()" "od' = store_at i s v od"
proof (cases "gen_find od i s")
  case None
  with assms refused show thesis by (auto simp: gen_write_def)
next
  case (Some e)
  show thesis
  proof (cases "gen_write_arm od e data")
    case (Inl err)
    with assms Some have "r = Inl err" "od' = od" by (auto simp: gen_write_def)
    then show thesis using refused by simp
  next
    case (Inr v)
    with assms Some have "r = Inr ()" "od' = store_at i s v od" by (auto simp: gen_write_def)
    then show thesis using written Some Inr by blast
  qed
qed

lemma mapping_fits_write:
  assumes "mapping_shape od p" and "mapping_fits od p" and "gen_write od i s data = (r, od')"
  shows "mapping_fits od' p"
  using assms(3)
proof (cases rule: gen_write_cases)
  case refused
  with assms(2) show ?thesis by simp
next
  case (written e v)
  then have idx: "meta_index (ge_meta e) = i" using gen_find_in by (auto simp: at_addr_def)
  have arm: "ge_arm e = (if s = 0 then MappingCountArm (pd_direction p = DirRpdo) else MappingEntryArm)"
    if "i = map_index p" using assms(1) written(1) that by (simp add: mapping_shape_def)
  consider "i \<noteq> map_index p" | "i = map_index p" "s = 0" | "i = map_index p" "s \<noteq> 0" by blast
  then show ?thesis
  proof cases
    case 1
    then show ?thesis using assms(2) by (auto simp: written(4) mapping_fits_def field_store_other stored_mappings_other)
  next
    case 2
    with arm idx written(2) have "v = VW8 (data ! 0) \<and> unat (data ! 0) \<le> 64
        \<and> mapping_bits_raw (stored_mappings od i (unat (data ! 0))) \<le> 64"
      by (simp add: gen_write_arm_def Let_def split: if_split_asm sum.split_asm)
    then show ?thesis using written(1) 2
      by (simp add: written(4) mapping_fits_def field_u8_store_same stored_mappings_other)
  next
    case 3
    with arm idx written(2) have "field_u8 od i 0 = 0"
      by (simp add: gen_write_arm_def Let_def split: if_split_asm)
    with 3 show ?thesis
      by (simp add: written(4) mapping_fits_def field_store_other stored_mappings_def mapping_bits_raw_def)
  qed
qed

text \<open>A refinement of a finite sequence of writes, as SDO downloads and RPDOs perform them.\<close>

fun gen_writes :: "(u16 \<times> u8 \<times> bytes) list \<Rightarrow> gen_od \<Rightarrow> gen_od" where
  "gen_writes [] od = od"
| "gen_writes ((i, s, data) # ws) od = gen_writes ws (snd (gen_write od i s data))"

lemma gen_writes_inv: "gen_inv d od \<Longrightarrow> gen_inv d (gen_writes ws od)"
  by (induction ws od rule: gen_writes.induct) (auto simp: gen_write_inv [OF _ surjective_pairing])

lemma mapping_shape_write: "mapping_shape od p \<Longrightarrow> gen_write od i s data = (r, od') \<Longrightarrow> mapping_shape od' p"
  by (erule gen_write_cases) (auto simp: mapping_shape_store)

lemma mapping_fits_writes:
  "mapping_shape od p \<Longrightarrow> mapping_fits od p \<Longrightarrow> mapping_fits (gen_writes ws od) p \<and> mapping_shape (gen_writes ws od) p"
proof (induction ws od rule: gen_writes.induct)
  case (2 i s data ws od)
  then show ?case
    using mapping_fits_write [of od p i s data] mapping_shape_write [of od p i s data]
    by (cases "gen_write od i s data") auto
qed simp

lemma bits_from_mapping_value: "unat (pm_bit_length (from_mapping_value w)) = unat (w AND 0xFF)"
proof -
  have "w AND 0xFF = take_bit 8 w" by (simp add: take_bit_eq_mask mask_eq_exp_minus_1)
  then show ?thesis by (simp add: from_mapping_value_def unsigned_ucast_eq unsigned_take_bit_eq)
qed

lemma active_mappings_fit:
  "mapping_fits od p \<Longrightarrow> length (active_mappings od (map_index p)) \<le> 64 \<and> mapping_bits (active_mappings od (map_index p)) \<le> 64"
  by (simp add: mapping_fits_def active_mappings_def mapping_bits_def mapping_bits_raw_def Let_def min_absorb1
      comp_def bits_from_mapping_value stored_mappings_def)

lemma from_to_mapping_value: "from_mapping_value (to_mapping_value m) = m"
proof -
  have "ucast (drop_bit 16 (to_mapping_value m)) = pm_index m"
    by (rule bit_word_eqI) (auto simp: to_mapping_value_def bit_simps dest: bit_imp_le_length)
  moreover have "ucast (drop_bit 8 (to_mapping_value m)) = pm_subindex m"
    by (rule bit_word_eqI) (auto simp: to_mapping_value_def bit_simps dest: bit_imp_le_length)
  moreover have "ucast (to_mapping_value m) = pm_bit_length m"
    by (rule bit_word_eqI) (auto simp: to_mapping_value_def bit_simps dest: bit_imp_le_length)
  ultimately show ?thesis by (simp add: from_mapping_value_def)
qed

lemma pdo_entries_in:
  "pdo_entries flat ps = Some od \<Longrightarrow> e \<in> set od \<Longrightarrow> \<exists>q ms. q \<in> set ps \<and> resolve_pdo_mappings flat q = Some ms
     \<and> (e \<in> set (comm_entries q) \<or> e \<in> set (map_entries q ms))"
  by (induction ps arbitrary: od) (auto simp: pdo_entries_Cons, metis+)

lemma pdo_entries_of:
  "pdo_entries flat ps = Some od \<Longrightarrow> p \<in> set ps \<Longrightarrow> \<exists>ms. resolve_pdo_mappings flat p = Some ms
     \<and> set (map_entries p ms) \<subseteq> set od"
  by (induction ps arbitrary: od) (auto simp: pdo_entries_Cons, metis subset_iff)

lemma in_indices: "e \<in> set od \<Longrightarrow> meta_index (ge_meta e) \<in> indices od"
  by (simp add: indices_def)

lemma entry_index_of_block:
  "e \<in> set (comm_entries q) \<Longrightarrow> meta_index (ge_meta e) = comm_index q"
  "e \<in> set (map_entries q ms) \<Longrightarrow> meta_index (ge_meta e) = map_index q"
  using in_indices [of e "comm_entries q"] in_indices [of e "map_entries q ms"] by auto

lemma map_index_owner:
  assumes "pdo_entries flat ps = Some od" and "\<forall>p \<in> set ps. pdo_ok dir p" and "distinct (map pd_number ps)"
    and "p \<in> set ps" and "resolve_pdo_mappings flat p = Some ms"
    and "e \<in> set od" and "meta_index (ge_meta e) = map_index p"
  shows "e \<in> set (map_entries p ms)"
proof -
  obtain q ms' where q: "q \<in> set ps" "resolve_pdo_mappings flat q = Some ms'"
      "e \<in> set (comm_entries q) \<or> e \<in> set (map_entries q ms')"
    using pdo_entries_in [OF assms(1,6)] by blast
  have ok: "pdo_ok dir q" "pdo_ok dir p" using assms(2,4) q(1) by auto
  have "comm_index q \<noteq> map_index p" by (rule pdo_index_distinct(1) [OF ok])
  with q(3) assms(7) have m: "e \<in> set (map_entries q ms')" "map_index q = map_index p"
    using entry_index_of_block by metis+
  then have "pd_number q = pd_number p" using pdo_index_distinct(3) [OF ok] by simp
  then have "q = p" using assms(3,4) q(1) by (metis distinct_map inj_onD)
  with m q(2) assms(5) show ?thesis by simp
qed

lemma generate_map_block:
  assumes "validate_definition d" "wf_definition d" "generate d eds = Some od" and "p \<in> set (def_pdos d)"
  shows "\<exists>ms. resolve_pdo_mappings (flatten (def_use_alloc d) (def_entries d)) p = Some ms
    \<and> set (map_entries p ms) \<subseteq> set od
    \<and> (\<forall>e \<in> set od. meta_index (ge_meta e) = map_index p \<longrightarrow> e \<in> set (map_entries p ms))"
proof -
  let ?es = "def_entries d" let ?F = "flatten (def_use_alloc d) ?es"
  let ?S = "concat (map sdo_server_entries (def_sdo_servers d))"
  obtain t r where pe: "pdo_entries ?F (def_tpdos d) = Some t" "pdo_entries ?F (def_rpdos d) = Some r"
    and dn: "distinct (map pd_number (def_tpdos d))" "distinct (map pd_number (def_rpdos d))"
      "distinct (map sd_number (def_sdo_servers d))"
    and od: "od = ?F @ t @ r @ ?S @ record_counts ?es @ array_entries ?es @ eds_entries eds"
    by (rule generate_parts [OF assms(3)])
  note rng = generated_ranges [OF assms(2)]
  have dir: "p \<in> set (def_tpdos d) \<or> p \<in> set (def_rpdos d)"
    using assms(4) by (cases "pd_direction p") (auto simp: def_tpdos_def def_rpdos_def)
  have "set t \<subseteq> set od" "set r \<subseteq> set od" by (auto simp: od)
  with dir obtain ms where ms: "resolve_pdo_mappings ?F p = Some ms" "set (map_entries p ms) \<subseteq> set od"
    using pdo_entries_of [OF pe(1), of p] pdo_entries_of [OF pe(2), of p] by (meson subset_trans)
  have nd: "map_index p \<notin> de_index ` set ?es"
    using assms(4) by (intro generated_not_declared [OF assms(1)]) (auto simp: generated_indices_def)
  have lo: "0x1400 \<le> unat (map_index p)" using dir rng(1,2) [of p] by auto
  have "e \<in> set (map_entries p ms)" if e: "e \<in> set od" "meta_index (ge_meta e) = map_index p" for e
  proof -
    have "map_index p \<notin> indices (?F @ record_counts ?es @ array_entries ?es)"
      using nd indices_subset(1) [of "def_use_alloc d" ?es] indices_subset(2,3) [of ?es] by auto
    moreover have "map_index p \<notin> indices (eds_entries eds)"
      using lo by (auto simp: eds_entries_def Let_def plain_entry_def)
    moreover have "map_index p \<notin> indices ?S"
      using lo rng(3) by (fastforce simp: sdo_entries_distinct(2) [OF dn(3)])
    ultimately have tr: "e \<in> set t \<or> e \<in> set r"
      using e(1) in_indices [of e, unfolded e(2)] unfolding od set_append Un_iff indices_simps by blast
    show ?thesis
    proof (cases "p \<in> set (def_tpdos d)")
      case True
      have "map_index p \<notin> indices r"
        using rng(1) [OF True] rng(2) by (fastforce simp: pdo_entries_indices [OF pe(2)])
      then have "e \<in> set t" using tr in_indices [of e r] e(2) by auto
      then show ?thesis using rng(1) by (intro map_index_owner [OF pe(1) _ dn(1) True ms(1) _ e(2)]) auto
    next
      case False
      then have T: "p \<in> set (def_rpdos d)" using dir by simp
      have "map_index p \<notin> indices t"
        using rng(2) [OF T] rng(1) by (fastforce simp: pdo_entries_indices [OF pe(1)])
      then have "e \<in> set r" using tr in_indices [of e t] e(2) by auto
      then show ?thesis using rng(2) by (intro map_index_owner [OF pe(2) _ dn(2) T ms(1) _ e(2)]) auto
    qed
  qed
  with ms show ?thesis by blast
qed

lemma map_entries_find:
  assumes "distinct (addrs od)" and "set (map_entries p ms) \<subseteq> set od" and "length ms \<le> 64"
  shows "field_u8 od (map_index p) 0 = of_nat (length ms)"
    and "j < length ms \<Longrightarrow> field_u32 od (map_index p) (of_nat (Suc j)) = to_mapping_value (ms ! j)"
proof -
  have f: "gen_find od i s = Some e" if "e \<in> set (map_entries p ms)" "entry_addr e = (i, s)" for e i s
    using gen_find_unique [OF assms(1), of e] that assms(2) by auto
  have c: "\<exists>e \<in> set (map_entries p ms). entry_addr e = (map_index p, 0) \<and> ge_value e = VW8 (of_nat (length ms))"
    by (simp add: map_entries_def Let_def)
  then show "field_u8 od (map_index p) 0 = of_nat (length ms)" using f by (auto simp: field_u8_def)
  show "field_u32 od (map_index p) (of_nat (Suc j)) = to_mapping_value (ms ! j)" if "j < length ms"
  proof -
    have "\<exists>e \<in> set (map_entries p ms). entry_addr e = (map_index p, of_nat (Suc j))
        \<and> ge_value e = VW32 (to_mapping_value (ms ! j))"
      using that assms(3) by (auto simp: map_entries_def Let_def image_iff simp del: of_nat_Suc)
    then show ?thesis using f by (auto simp: field_u32_def simp del: of_nat_Suc)
  qed
qed

lemma map_entries_arm:
  assumes "e \<in> set (map_entries p ms)" and "entry_addr e = (map_index p, s)" and "length ms \<le> 64"
  shows "ge_arm e = (if s = 0 then MappingCountArm (pd_direction p = DirRpdo) else MappingEntryArm)"
    and "pd_mapping p = Immutable \<Longrightarrow> meta_access (ge_meta e) = Const"
proof -
  have "(of_nat (Suc j) :: u8) \<noteq> 0" if "j < 64" for j using that by (intro Suc_u8_nonzero) simp
  with assms show "ge_arm e = (if s = 0 then MappingCountArm (pd_direction p = DirRpdo) else MappingEntryArm)"
    by (auto simp: map_entries_def Let_def simp del: of_nat_Suc split: if_split_asm)
  show "pd_mapping p = Immutable \<Longrightarrow> meta_access (ge_meta e) = Const"
    using assms(1) by (auto simp: map_entries_def Let_def plain_entry_def)
qed

lemma generate_mappings:
  assumes "validate_definition d" "wf_definition d" "generate d eds = Some od" and "p \<in> set (def_pdos d)"
  shows "mapping_shape od p \<and> mapping_fits od p
    \<and> resolve_pdo_mappings (flatten (def_use_alloc d) (def_entries d)) p = Some (active_mappings od (map_index p))
    \<and> (pd_mapping p = Immutable \<longrightarrow>
         (\<forall>s e. gen_find od (map_index p) s = Some e \<longrightarrow> meta_access (ge_meta e) = Const))"
proof -
  obtain ms where ms: "resolve_pdo_mappings (flatten (def_use_alloc d) (def_entries d)) p = Some ms"
      "set (map_entries p ms) \<subseteq> set od"
      "\<forall>e \<in> set od. meta_index (ge_meta e) = map_index p \<longrightarrow> e \<in> set (map_entries p ms)"
    using generate_map_block [OF assms] by blast
  have b: "mapping_bits ms \<le> 64" "length ms \<le> 64" using resolve_bounds [OF ms(1)] by auto
  note find = map_entries_find [OF generate_distinct [OF assms(1-3)] ms(2) b(2)]
  have n: "unat (of_nat (length ms) :: u8) = length ms" using b(2) by (simp add: unat_of_nat)
  have st: "stored_mappings od (map_index p) (length ms) = map to_mapping_value ms"
    using find(2) by (auto simp: stored_mappings_def intro!: nth_equalityI simp del: of_nat_Suc)
  have own: "e \<in> set (map_entries p ms)" "entry_addr e = (map_index p, s)"
    if "gen_find od (map_index p) s = Some e" for s e
    using gen_find_in [OF that] ms(3) by (auto simp: at_addr_def entry_addr_def)
  have "mapping_bits_raw (map to_mapping_value ms) = mapping_bits ms"
    by (simp add: mapping_bits_raw_def mapping_bits_def comp_def flip: bits_from_mapping_value)
      (simp add: from_to_mapping_value)
  moreover have "active_mappings od (map_index p) = ms"
    using b(2) by (simp add: active_mappings_def find(1) n st min_absorb1 comp_def from_to_mapping_value)
  moreover have "mapping_shape od p"
    unfolding mapping_shape_def using own map_entries_arm(1) [OF _ _ b(2)] by blast
  moreover have "meta_access (ge_meta e) = Const" if "pd_mapping p = Immutable" "gen_find od (map_index p) s = Some e" for s e
    using own [OF that(2)] map_entries_arm(2) [OF _ _ b(2) that(1)] by blast
  ultimately show ?thesis using b ms(1) by (simp add: mapping_fits_def find(1) n st)
qed

lemma const_write:
  assumes "gen_find od i s = Some e" "meta_access (ge_meta e) = Const"
  shows "gen_write od i s data = (Inl ReadOnly, od)"
  using assms by (simp add: gen_write_def gen_write_arm_def Let_def)

lemma active_mappings_other:
  "i \<noteq> j \<Longrightarrow> active_mappings (store_at i s v od) j = active_mappings od j"
  by (simp add: active_mappings_def field_store_other stored_mappings_other)

lemma immutable_writes:
  assumes "\<forall>s e. gen_find od j s = Some e \<longrightarrow> meta_access (ge_meta e) = Const"
  shows "active_mappings (gen_writes ws od) j = active_mappings od j"
  using assms
proof (induction ws od rule: gen_writes.induct)
  case (2 i s data ws od)
  obtain r od' where w: "gen_write od i s data = (r, od')" by fastforce
  then have "active_mappings od' j = active_mappings od j
      \<and> (\<forall>s e. gen_find od' j s = Some e \<longrightarrow> meta_access (ge_meta e) = Const)"
  proof (cases rule: gen_write_cases)
    case (written e v)
    then have "i \<noteq> j" using "2.prems" const_write [of od i s e data] w by auto
    then show ?thesis using "2.prems" written(4) by (auto simp: active_mappings_other gen_find_store_at)
  qed (use "2.prems" in auto)
  with 2 w show ?case by simp
qed simp

section \<open>Properties\<close>

text \<open>
  C32. Every address of a generated dictionary has exactly one owner: for a definition that the
  structural checks accept, no two generated entries share an index and sub-index (declared
  variables, records, arrays, PDO and SDO server records and the EDS objects together), and every
  entry holds a value of its declared type.
\<close>

theorem generated_addresses_unique:
  assumes "validate_definition d" "wf_definition d" "generate d eds = Some od"
  shows "distinct (map entry_addr od) \<and> gen_inv d od
    \<and> (\<forall>e \<in> set od. gen_find od (meta_index (ge_meta e)) (meta_subindex (ge_meta e)) = Some e)"
  using generate_distinct [OF assms] generate_inv [OF assms] gen_find_unique [OF generate_distinct [OF assms]]
  by (simp add: entry_addr_def)

text \<open>
  C33. Remapping never breaks the frame budget: whatever sequence of writes reaches a generated
  dictionary, every TPDO and RPDO configuration derived from it has at most 64 mappings of at
  most 64 bits in total, and the mapping of an immutable PDO stays the declared one.
\<close>

theorem generated_pdo_budget:
  assumes "validate_definition d" "wf_definition d" "generate d eds = Some od"
  shows "(\<forall>c \<in> set (tpdo_configs d (gen_writes ws od) n).
        length (tc_mappings c) \<le> 64 \<and> mapping_bits (tc_mappings c) \<le> 64)
    \<and> (\<forall>c \<in> set (rpdo_configs d (gen_writes ws od) n).
        length (rc_mappings c) \<le> 64 \<and> mapping_bits (rc_mappings c) \<le> 64)
    \<and> (\<forall>p \<in> set (def_pdos d). pd_mapping p = Immutable \<longrightarrow>
        resolve_pdo_mappings (flatten (def_use_alloc d) (def_entries d)) p
          = Some (active_mappings (gen_writes ws od) (map_index p)))"
proof -
  note g = generate_mappings [OF assms]
  have "length (active_mappings (gen_writes ws od) (map_index p)) \<le> 64
      \<and> mapping_bits (active_mappings (gen_writes ws od) (map_index p)) \<le> 64" if "p \<in> set (def_pdos d)" for p
    using g [OF that] mapping_fits_writes [of od p ws] active_mappings_fit by blast
  moreover have "resolve_pdo_mappings (flatten (def_use_alloc d) (def_entries d)) p
      = Some (active_mappings (gen_writes ws od) (map_index p))"
    if "p \<in> set (def_pdos d)" "pd_mapping p = Immutable" for p
    using g [OF that(1)] immutable_writes [of od "map_index p" ws] that(2) by simp
  ultimately show ?thesis
    by (auto simp: tpdo_configs_def rpdo_configs_def def_tpdos_def def_rpdos_def tpdo_config_from_def
        rpdo_config_from_def Let_def)
qed

text \<open>A device with one TPDO, at which the properties are applied.\<close>

definition demo_def :: "mapping_kind \<Rightarrow> od_definition" where
  "demo_def k = \<lparr>def_entries =
     [\<lparr>de_index = 0x2000, de_name = ''label'', de_kind = VarEntry \<lparr>vd_type = OctetString, vd_access = Rw,
         vd_pdo_mappable = False, vd_capacity = Some 32, vd_default = None\<rparr>\<rparr>,
      \<lparr>de_index = 0x2001, de_name = ''speed'', de_kind = VarEntry \<lparr>vd_type = U16, vd_access = Rw,
         vd_pdo_mappable = True, vd_capacity = None, vd_default = Some (VW16 0x1234)\<rparr>\<rparr>],
     def_pdos = [\<lparr>pd_direction = DirTpdo, pd_number = 1, pd_cob_id = Some (Absolute 0x185),
       pd_transmission_type = 1, pd_inhibit_time = 0, pd_event_timer = 0, pd_mapping = k,
       pd_mappings = [\<lparr>pmd_field = ''speed'', pmd_bit_length = None, pmd_raw = None\<rparr>]\<rparr>],
     def_sdo_servers = [], def_use_alloc = False\<rparr>"

definition demo_od :: "mapping_kind \<Rightarrow> gen_od" where
  "demo_od k = the (generate (demo_def k) [])"

lemma demo_def_ok: "validate_definition (demo_def k)" "wf_definition (demo_def k)"
  by (cases k; code_simp)+

lemma demo_generated: "generate (demo_def k) [] = Some (demo_od k)"
proof -
  have "generate (demo_def k) [] \<noteq> None" by (cases k; code_simp)
  then show ?thesis by (simp add: demo_od_def)
qed

theorem generated_addresses_unique_witness:
  "distinct (map entry_addr (demo_od Mutable)) \<and> gen_inv (demo_def Mutable) (demo_od Mutable)"
  using generated_addresses_unique [OF demo_def_ok demo_generated] by blast

theorem generated_pdo_budget_witness:
  "list_all (\<lambda>c. length (tc_mappings c) \<le> 64 \<and> mapping_bits (tc_mappings c) \<le> 64) (tpdo_configs (demo_def Mutable)
      (gen_writes [(0x1A00, 0, [0]), (0x1A00, 1, [0x10, 0, 1, 0x20]), (0x1A00, 0, [1])] (demo_od Mutable)) (NodeId 5))"
  unfolding list_all_iff using generated_pdo_budget [OF demo_def_ok demo_generated] by blast

end
