(* ===== verification/Emcy.thy ===== *)
theory Emcy
  imports Cob_Id Sdo_Protocol
begin

unbundle bit_operations_syntax

text \<open>
  Emergency messages, \<open>canopen-core/src/emcy.rs\<close>: the frame, the consumer's parser and the
  producer with its error register and bounded queue.
\<close>

section \<open>Frames\<close>

datatype emcy_error_code =
    NoError | GenericError | CurrentGeneric | VoltageGeneric | TemperatureGeneric
  | DeviceHardwareGeneric | DeviceSoftwareGeneric | AdditionalModulesGeneric | MonitoringGeneric
  | CommunicationGeneric | HeartbeatErrorCode | ProtocolError | RpdoTimeout | ExternalError
  | ManufacturerSpecific

definition emcy_code :: "emcy_error_code \<Rightarrow> u16" where
  "emcy_code c = (case c of
     NoError \<Rightarrow> 0x0000 | GenericError \<Rightarrow> 0x1000 | CurrentGeneric \<Rightarrow> 0x2000
   | VoltageGeneric \<Rightarrow> 0x3000 | TemperatureGeneric \<Rightarrow> 0x4000 | DeviceHardwareGeneric \<Rightarrow> 0x5000
   | DeviceSoftwareGeneric \<Rightarrow> 0x6000 | AdditionalModulesGeneric \<Rightarrow> 0x7000
   | MonitoringGeneric \<Rightarrow> 0x8000 | CommunicationGeneric \<Rightarrow> 0x8100 | HeartbeatErrorCode \<Rightarrow> 0x8130
   | ProtocolError \<Rightarrow> 0x8200 | RpdoTimeout \<Rightarrow> 0x8250 | ExternalError \<Rightarrow> 0x9000
   | ManufacturerSpecific \<Rightarrow> 0xFF00)"

text \<open>The bytes of the frame: code, register, and at most five vendor bytes.\<close>

definition emcy_bytes :: "u16 \<Rightarrow> u8 \<Rightarrow> bytes \<Rightarrow> bytes" where
  "emcy_bytes error_code error_register vendor_data =
     [lo8 error_code, hi8 error_code, error_register]
     @ overwrite (replicate 5 0) 0 (take (min (length vendor_data) 5) vendor_data)"

definition build_emcy_frame :: "node_id \<Rightarrow> u16 \<Rightarrow> u8 \<Rightarrow> bytes \<Rightarrow> can_frame option" where
  "build_emcy_frame n error_code error_register vendor_data =
     can_frame_new (cob_raw (cob_emergency n)) (emcy_bytes error_code error_register vendor_data)"

record emcy_message =
  em_node :: node_id
  em_error_code :: u16
  em_error_register :: u8
  em_vendor_data :: bytes

definition is_error_reset :: "emcy_message \<Rightarrow> bool" where
  "is_error_reset m \<longleftrightarrow> em_error_code m = 0x0000"

definition emcy_parse :: "can_frame \<Rightarrow> emcy_message option" where
  "emcy_parse f = do {
     c \<leftarrow> cob_id_new (raw_id f);
     case parse c of
       Emergency n \<Rightarrow>
         let data = frame_data f in
         if length data < 8 then None
         else Some \<lparr>em_node = n, em_error_code = from_le_bytes [data ! 0, data ! 1],
                    em_error_register = data ! 2, em_vendor_data = take 5 (drop 3 data)\<rparr>
     | _ \<Rightarrow> None
   }"

section \<open>The producer\<close>

text \<open>The bit that \<open>set_error\<close> adds to every report, \<open>1 << 0\<close>.\<close>

definition GENERIC :: u8 where "GENERIC = push_bit 0 1"

text \<open>The capacity of the queue of pending frames.\<close>

abbreviation EMCY_PENDING :: nat where "EMCY_PENDING \<equiv> 4"

record emcy_producer =
  ep_node_id :: node_id
  ep_error_register :: u8
  ep_pending :: "can_frame list"
  ep_dropped :: u32

definition emcy_producer_new :: "node_id \<Rightarrow> emcy_producer" where
  "emcy_producer_new n = \<lparr>ep_node_id = n, ep_error_register = 0, ep_pending = [], ep_dropped = 0\<rparr>"

definition queue_emcy :: "emcy_producer \<Rightarrow> can_frame \<Rightarrow> emcy_producer" where
  "queue_emcy p f =
     (let p1 = (if length (ep_pending p) \<ge> EMCY_PENDING
                then p\<lparr>ep_pending := drop 1 (ep_pending p),
                       ep_dropped := saturating_add (ep_dropped p) 1\<rparr>
                else p)
      in p1\<lparr>ep_pending := push_back EMCY_PENDING (ep_pending p1) f\<rparr>)"

definition set_error :: "emcy_producer \<Rightarrow> u16 \<Rightarrow> u8 \<Rightarrow> bytes \<Rightarrow> emcy_producer option" where
  "set_error p error_code register_bits vendor_data = do {
     let p1 = p\<lparr>ep_error_register := ep_error_register p OR (register_bits OR GENERIC)\<rparr>;
     f \<leftarrow> build_emcy_frame (ep_node_id p1) error_code (ep_error_register p1) vendor_data;
     Some (queue_emcy p1 f)
   }"

text \<open>The register after \<open>clear_error\<close>.\<close>

definition cleared_register :: "u8 \<Rightarrow> u8 \<Rightarrow> u8" where
  "cleared_register before register_bits =
     (let cleared_categories = before AND register_bits AND NOT GENERIC;
          reg = before AND NOT register_bits
      in if reg AND NOT GENERIC \<noteq> 0 then reg OR GENERIC
         else if cleared_categories \<noteq> 0 then 0 else reg)"

definition clear_error :: "emcy_producer \<Rightarrow> u8 \<Rightarrow> emcy_producer option" where
  "clear_error p register_bits =
     (let before = ep_error_register p;
          p1 = p\<lparr>ep_error_register := cleared_register before register_bits\<rparr>
      in if before \<noteq> 0 \<and> ep_error_register p1 = 0 then do {
           f \<leftarrow> build_emcy_frame (ep_node_id p1) (emcy_code NoError) 0 [];
           Some (queue_emcy p1 f)
         } else Some p1)"

definition clear_all :: "emcy_producer \<Rightarrow> emcy_producer option" where
  "clear_all p = do {
     let p1 = p\<lparr>ep_error_register := 0\<rparr>;
     f \<leftarrow> build_emcy_frame (ep_node_id p1) (emcy_code NoError) 0 [];
     Some (queue_emcy p1 f)
   }"

definition take_pending :: "emcy_producer \<Rightarrow> can_frame option \<times> emcy_producer" where
  "take_pending p = (case ep_pending p of
     [] \<Rightarrow> (None, p) | f # fs \<Rightarrow> (Some f, p\<lparr>ep_pending := fs\<rparr>))"

definition peek_pending :: "emcy_producer \<Rightarrow> can_frame option" where
  "peek_pending p = (case ep_pending p of [] \<Rightarrow> None | f # fs \<Rightarrow> Some f)"

section \<open>Lemmas\<close>

text \<open>The frame that \<open>build_emcy_frame\<close> returns.\<close>

definition emcy_frame :: "node_id \<Rightarrow> u16 \<Rightarrow> u8 \<Rightarrow> bytes \<Rightarrow> can_frame" where
  "emcy_frame n code reg vendor =
     \<lparr>cf_id = cob_raw (cob_emergency n), cf_dlc = 8, cf_data = emcy_bytes code reg vendor\<rparr>"

lemma length_emcy_bytes [simp]: "length (emcy_bytes code reg vendor) = 8"
  by (simp add: emcy_bytes_def)

lemma cob_emergency_le: "wf_node n \<Longrightarrow> cob_raw (cob_emergency n) \<le> 0x7FF"
  using base_node_bounds(2) [of n "0x80"] unat_base_node [of n "0x80"]
  by (simp add: cob_emergency_def word_le_nat_alt wf_node_def)

lemma build_emcy_frame_eq [frame_simps]:
  "wf_node n \<Longrightarrow> build_emcy_frame n code reg vendor = Some (emcy_frame n code reg vendor)"
  by (simp add: build_emcy_frame_def emcy_frame_def can_frame_new_Some cob_emergency_le overwrite_def)

lemma emcy_frame_fields [frame_simps]:
  "raw_id (emcy_frame n code reg vendor) = cob_raw (cob_emergency n)"
  "frame_data (emcy_frame n code reg vendor) = emcy_bytes code reg vendor"
  by (simp_all add: emcy_frame_def raw_id_def frame_data_def)

lemma emcy_bytes_fields:
  "from_le_bytes [emcy_bytes code reg vendor ! 0, emcy_bytes code reg vendor ! 1] = code"
  "emcy_bytes code reg vendor ! 2 = reg"
  "take 5 (drop 3 (emcy_bytes code reg vendor)) = take 5 vendor @ replicate (5 - length vendor) 0"
  by (simp_all add: emcy_bytes_def overwrite_def min_def)

lemma emcy_parse_frame:
  assumes "wf_node n"
  shows "emcy_parse (emcy_frame n code reg vendor) =
    Some \<lparr>em_node = n, em_error_code = code, em_error_register = reg,
          em_vendor_data = take 5 vendor @ replicate (5 - length vendor) 0\<rparr>"
  using assms parse_constructed(1) [OF assms] cob_emergency_le [OF assms]
  by (simp add: emcy_parse_def frame_simps cob_id_new_def emcy_bytes_fields Let_def
      del: from_le_bytes.simps One_nat_def)

text \<open>
  The producer's invariant: a node in range, a bounded queue, and the generic bit set whenever
  a category bit is.
\<close>

definition emcy_inv :: "emcy_producer \<Rightarrow> bool" where
  "emcy_inv p \<longleftrightarrow> wf_node (ep_node_id p) \<and> length (ep_pending p) \<le> EMCY_PENDING
     \<and> (ep_error_register p \<noteq> 0 \<longrightarrow> ep_error_register p AND GENERIC \<noteq> 0)"

lemma emcy_producer_new_inv: "wf_node n \<Longrightarrow> emcy_inv (emcy_producer_new n)"
  by (simp add: emcy_inv_def emcy_producer_new_def)

lemma queue_emcy_fields [simp]:
  "ep_node_id (queue_emcy p f) = ep_node_id p"
  "ep_error_register (queue_emcy p f) = ep_error_register p"
  by (simp_all add: queue_emcy_def Let_def)

lemma queue_emcy_pending: "ep_pending (queue_emcy p f) = push_evict EMCY_PENDING (ep_pending p) f"
  by (simp add: queue_emcy_def push_evict_def Let_def)

lemma queue_emcy_inv: "emcy_inv p \<Longrightarrow> emcy_inv (queue_emcy p f)"
  by (simp add: emcy_inv_def queue_emcy_pending length_push_evict)

lemma GENERIC_nonzero [simp]: "GENERIC \<noteq> 0"
  by (simp add: GENERIC_def)

lemma or_generic: "(x OR GENERIC) AND GENERIC = GENERIC"
  by (simp add: bit.conj_disj_distrib2)

lemma set_error_eq:
  assumes "emcy_inv p"
  shows "set_error p code bits vendor =
    Some (let reg = ep_error_register p OR bits OR GENERIC
          in queue_emcy (p\<lparr>ep_error_register := reg\<rparr>) (emcy_frame (ep_node_id p) code reg vendor))"
  using assms by (simp add: set_error_def emcy_inv_def frame_simps Let_def or.assoc)

lemma set_error_inv:
  assumes "emcy_inv p" and "set_error p code bits vendor = Some p'"
  shows "emcy_inv p'"
proof -
  have "emcy_inv (p\<lparr>ep_error_register := ep_error_register p OR bits OR GENERIC\<rparr>)"
    using assms(1) or_generic [of "ep_error_register p OR bits"]
    by (simp add: emcy_inv_def or.assoc)
  then show ?thesis using assms set_error_eq [OF assms(1)] by (auto simp: Let_def queue_emcy_inv)
qed

text \<open>The categories that remain are the old ones without those cleared.\<close>

lemma and_not_generic_or: "(x OR GENERIC) AND NOT GENERIC = x AND NOT GENERIC"
  by (auto intro!: bit_eqI simp: bit_and_iff bit_or_iff bit_not_iff)

lemma cleared_register_categories:
  "cleared_register before bits AND NOT GENERIC = (before AND NOT bits) AND NOT GENERIC"
  by (simp add: cleared_register_def Let_def and_not_generic_or)

lemma and_generic_zero: "x AND NOT GENERIC = 0 \<Longrightarrow> x \<noteq> 0 \<Longrightarrow> x AND GENERIC \<noteq> 0"
  using and_not_zero [of x GENERIC] by auto

lemma cleared_register_generic:
  "cleared_register before bits \<noteq> 0 \<longrightarrow> cleared_register before bits AND GENERIC \<noteq> 0"
  using or_generic [of "before AND NOT bits"] and_generic_zero [of "before AND NOT bits"]
  by (auto simp: cleared_register_def Let_def)

lemma clear_error_eq:
  assumes "emcy_inv p"
  shows "clear_error p bits =
    Some (let p1 = p\<lparr>ep_error_register := cleared_register (ep_error_register p) bits\<rparr>
          in if ep_error_register p \<noteq> 0 \<and> ep_error_register p1 = 0
             then queue_emcy p1 (emcy_frame (ep_node_id p) 0 0 []) else p1)"
  using assms by (simp add: clear_error_def emcy_inv_def frame_simps Let_def emcy_code_def)

lemma clear_error_inv:
  assumes "emcy_inv p" and "clear_error p bits = Some p'"
  shows "emcy_inv p'"
proof -
  have "emcy_inv (p\<lparr>ep_error_register := cleared_register (ep_error_register p) bits\<rparr>)"
    using assms(1) cleared_register_generic [of "ep_error_register p" bits] by (simp add: emcy_inv_def)
  then show ?thesis using assms clear_error_eq [OF assms(1)]
    by (auto simp: Let_def queue_emcy_inv split: if_splits)
qed

lemma clear_all_eq:
  "emcy_inv p \<Longrightarrow> clear_all p =
     Some (queue_emcy (p\<lparr>ep_error_register := 0\<rparr>) (emcy_frame (ep_node_id p) 0 0 []))"
  by (simp add: clear_all_def emcy_inv_def frame_simps emcy_code_def)

lemma clear_all_inv: "emcy_inv p \<Longrightarrow> clear_all p = Some p' \<Longrightarrow> emcy_inv p'"
  by (auto simp: clear_all_eq intro!: queue_emcy_inv) (simp add: emcy_inv_def)

lemma take_pending_inv: "emcy_inv p \<Longrightarrow> emcy_inv (snd (take_pending p))"
  by (auto simp: take_pending_def emcy_inv_def split: list.splits)

section \<open>Properties\<close>



end
