(* ===== verification/Heartbeat_Protocol.thy ===== *)
theory Heartbeat_Protocol
  imports Nmt
begin

unbundle bit_operations_syntax

text \<open>
  Heartbeat producer and consumer, \<open>canopen-core/src/heartbeat.rs\<close>. Time is a wrapping
  \<open>u64\<close> in microseconds.
\<close>

section \<open>Producer\<close>

record heartbeat_producer =
  hp_node_id :: node_id
  hp_interval_us :: u64
  hp_last_sent_us :: u64

definition interval_of_ms :: "u16 \<Rightarrow> u64" where
  "interval_of_ms ms = ucast ms * 1000"

definition heartbeat_producer_new :: "node_id \<Rightarrow> u16 \<Rightarrow> heartbeat_producer" where
  "heartbeat_producer_new n ms =
     \<lparr>hp_node_id = n, hp_interval_us = interval_of_ms ms, hp_last_sent_us = 0\<rparr>"

definition set_interval_ms :: "heartbeat_producer \<Rightarrow> u16 \<Rightarrow> heartbeat_producer" where
  "set_interval_ms p ms = p\<lparr>hp_interval_us := interval_of_ms ms\<rparr>"

definition interval_ms :: "heartbeat_producer \<Rightarrow> u16" where
  "interval_ms p = ucast (hp_interval_us p div 1000)"

definition heartbeat_frame :: "node_id \<Rightarrow> nmt_state \<Rightarrow> can_frame option" where
  "heartbeat_frame n st = can_frame_new (cob_raw (cob_heartbeat n)) [heartbeat_byte st]"

text \<open>\<open>pending\<close>: the outer option is a panic, the inner one the method's result.\<close>

definition heartbeat_pending ::
  "heartbeat_producer \<Rightarrow> u64 \<Rightarrow> nmt_state \<Rightarrow> can_frame option option" where
  "heartbeat_pending p now st =
     (if hp_interval_us p = 0 then Some None
      else if now - hp_last_sent_us p \<ge> hp_interval_us p
      then do { f \<leftarrow> heartbeat_frame (hp_node_id p) st; Some (Some f) }
      else Some None)"

definition heartbeat_confirm_sent :: "heartbeat_producer \<Rightarrow> u64 \<Rightarrow> heartbeat_producer" where
  "heartbeat_confirm_sent p now = p\<lparr>hp_last_sent_us := now\<rparr>"

definition heartbeat_poll ::
  "heartbeat_producer \<Rightarrow> u64 \<Rightarrow> nmt_state \<Rightarrow> (can_frame option \<times> heartbeat_producer) option" where
  "heartbeat_poll p now st = do {
     r \<leftarrow> heartbeat_pending p now st;
     Some (case r of None \<Rightarrow> (None, p) | Some f \<Rightarrow> (Some f, heartbeat_confirm_sent p now))
   }"

definition send_boot :: "heartbeat_producer \<Rightarrow> u64 \<Rightarrow> (can_frame \<times> heartbeat_producer) option" where
  "send_boot p now = do {
     let p1 = p\<lparr>hp_last_sent_us := now\<rparr>;
     f \<leftarrow> heartbeat_frame (hp_node_id p1) Initializing;
     Some (f, p1)
   }"

section \<open>Consumer\<close>

datatype heartbeat_monitor_state =
    MonDisabled
  | MonWaiting
  | MonAlive nmt_state u64
  | MonTimeout nmt_state u64 u64

definition monitor_is_alive :: "heartbeat_monitor_state \<Rightarrow> bool" where
  "monitor_is_alive s = (case s of MonAlive _ _ \<Rightarrow> True | _ \<Rightarrow> False)"

datatype heartbeat_event =
    HbStarted node_id nmt_state
  | HbStateChanged node_id nmt_state nmt_state
  | HbRemoteReset node_id
  | HbTimeout node_id
  | HbRecovered node_id nmt_state

record heartbeat_monitor =
  hm_node_id :: node_id
  hm_timeout_ms :: u16
  hm_state :: heartbeat_monitor_state

definition heartbeat_monitor_new :: "node_id \<Rightarrow> u16 \<Rightarrow> heartbeat_monitor" where
  "heartbeat_monitor_new n ms = \<lparr>hm_node_id = n, hm_timeout_ms = ms, hm_state = MonWaiting\<rparr>"

text \<open>The capacity of \<open>HeartbeatEventBuf\<close>.\<close>

abbreviation HB_EVENT_BUF :: nat where "HB_EVENT_BUF \<equiv> 2"

definition monitor_process ::
  "heartbeat_monitor \<Rightarrow> node_id \<Rightarrow> u8 \<Rightarrow> u64 \<Rightarrow> heartbeat_event list
   \<Rightarrow> bool \<times> heartbeat_monitor \<times> heartbeat_event list" where
  "monitor_process m node state_byte now events =
     (if node \<noteq> hm_node_id m then (False, m, events)
      else case from_heartbeat_byte state_byte of
        None \<Rightarrow> (True, m, events)
      | Some new_state \<Rightarrow>
          let node = hm_node_id m;
              push = push_back HB_EVENT_BUF;
              events' = (case hm_state m of
                  MonDisabled \<Rightarrow> push events (HbStarted node new_state)
                | MonWaiting \<Rightarrow> push events (HbStarted node new_state)
                | MonAlive old _ \<Rightarrow>
                    if new_state \<noteq> old then
                      let e = push events (HbStateChanged node old new_state) in
                      if new_state = Initializing then push e (HbRemoteReset node) else e
                    else events
                | MonTimeout last_state _ _ \<Rightarrow>
                    let e = push events (HbRecovered node new_state) in
                    if new_state = Initializing \<and> last_state \<noteq> Initializing
                    then push e (HbRemoteReset node) else e)
          in (True, m\<lparr>hm_state := MonAlive new_state now\<rparr>, events'))"

definition monitor_check_timeout ::
  "heartbeat_monitor \<Rightarrow> u64 \<Rightarrow> heartbeat_event option \<times> heartbeat_monitor" where
  "monitor_check_timeout m now = (case hm_state m of
     MonAlive st last_seen \<Rightarrow>
       if hm_timeout_ms m \<noteq> 0 \<and> now - last_seen > interval_of_ms (hm_timeout_ms m)
       then (Some (HbTimeout (hm_node_id m)), m\<lparr>hm_state := MonTimeout st last_seen now\<rparr>)
       else (None, m)
   | _ \<Rightarrow> (None, m))"

section \<open>Producer lemmas\<close>

lemma unat_interval_of_ms: "unat (interval_of_ms ms) = unat ms * 1000"
proof -
  have "unat ms < 2 ^ 16" by (rule order.strict_trans2 [OF unsigned_less]) simp
  then show ?thesis by (simp add: interval_of_ms_def unat_word_ariths unat_ucast_up)
qed

lemma interval_ms_new [simp]: "interval_ms (heartbeat_producer_new n ms) = ms"
proof -
  have "unat (interval_of_ms ms div 1000) = unat ms"
    by (simp add: unat_div unat_interval_of_ms)
  then have "interval_of_ms ms div 1000 = ucast ms"
    by (simp add: word_unat_eq_iff unat_ucast_up)
  then show ?thesis by (simp add: interval_ms_def heartbeat_producer_new_def ucast_ucast_up)
qed

lemma interval_of_ms_0 [simp]: "interval_of_ms ms = 0 \<longleftrightarrow> ms = 0"
  using unat_interval_of_ms [of ms] by (auto simp: unat_eq_0 interval_of_ms_def)

lemma heartbeat_frame_eq:
  assumes "wf_node n"
  shows "heartbeat_frame n st =
    Some \<lparr>cf_id = cob_raw (cob_heartbeat n), cf_dlc = 1, cf_data = heartbeat_byte st # replicate 7 0\<rparr>"
proof -
  have "cob_raw (cob_heartbeat n) \<le> 0x7FF"
    using base_node_le [OF assms, of "0x700"] by (simp add: cob_heartbeat_def)
  then show ?thesis by (simp add: heartbeat_frame_def can_frame_new_Some overwrite_def numeral_nat)
qed

lemma heartbeat_pending_total: "wf_node (hp_node_id p) \<Longrightarrow> heartbeat_pending p now st \<noteq> None"
  by (simp add: heartbeat_pending_def heartbeat_frame_eq)

text \<open>After a frame was sent, the next one is due only when the interval has passed.\<close>

lemma heartbeat_pending_after_sent:
  assumes "wf_node (hp_node_id p)" and "hp_interval_us p \<noteq> 0"
  shows "(\<exists>f. heartbeat_pending (heartbeat_confirm_sent p t) (t + d) st = Some (Some f))
     \<longleftrightarrow> d \<ge> hp_interval_us p"
  using assms by (auto simp: heartbeat_pending_def heartbeat_confirm_sent_def heartbeat_frame_eq)

section \<open>Consumer lemmas\<close>

text \<open>What one consumer sees: heartbeat frames and the passing of time.\<close>

datatype monitor_input = HbFrame node_id u8 u64 | HbTick u64

definition monitor_step ::
  "heartbeat_monitor \<Rightarrow> monitor_input \<Rightarrow> heartbeat_event list \<times> heartbeat_monitor" where
  "monitor_step m inp = (case inp of
     HbFrame n b now \<Rightarrow> (case monitor_process m n b now [] of (_, m', ev) \<Rightarrow> (ev, m'))
   | HbTick now \<Rightarrow> (case monitor_check_timeout m now of (e, m') \<Rightarrow>
       ((case e of Some e \<Rightarrow> [e] | None \<Rightarrow> []), m')))"

fun monitor_run :: "heartbeat_monitor \<Rightarrow> monitor_input list \<Rightarrow> heartbeat_event list \<times> heartbeat_monitor" where
  "monitor_run m [] = ([], m)"
| "monitor_run m (x # xs) =
     (case monitor_step m x of (ev, m') \<Rightarrow> case monitor_run m' xs of (ev', m'') \<Rightarrow> (ev @ ev', m''))"

text \<open>
  The events of a monitored node, as a state machine: started once, then timeouts and
  recoveries strictly alternate.
\<close>

datatype event_phase = PhWaiting | PhAlive | PhTimeout

fun phase_step :: "event_phase \<Rightarrow> heartbeat_event \<Rightarrow> event_phase option" where
  "phase_step PhWaiting (HbStarted _ _) = Some PhAlive"
| "phase_step PhAlive (HbStateChanged _ _ _) = Some PhAlive"
| "phase_step PhAlive (HbRemoteReset _) = Some PhAlive"
| "phase_step PhAlive (HbTimeout _) = Some PhTimeout"
| "phase_step PhTimeout (HbRecovered _ _) = Some PhAlive"
| "phase_step _ _ = None"

fun phase_run :: "event_phase \<Rightarrow> heartbeat_event list \<Rightarrow> event_phase option" where
  "phase_run p [] = Some p"
| "phase_run p (e # es) = Option.bind (phase_step p e) (\<lambda>p'. phase_run p' es)"

definition monitor_phase :: "heartbeat_monitor \<Rightarrow> event_phase" where
  "monitor_phase m = (case hm_state m of
     MonAlive _ _ \<Rightarrow> PhAlive | MonTimeout _ _ _ \<Rightarrow> PhTimeout | _ \<Rightarrow> PhWaiting)"

lemma phase_run_append: "phase_run p (xs @ ys) = Option.bind (phase_run p xs) (\<lambda>p'. phase_run p' ys)"
  by (induction xs arbitrary: p) (auto split: bind_split)

lemma monitor_step_phase:
  "monitor_step m x = (ev, m') \<Longrightarrow> phase_run (monitor_phase m) ev = Some (monitor_phase m')"
  by (auto simp: monitor_step_def monitor_process_def monitor_check_timeout_def monitor_phase_def
      push_back_def Let_def
      split: monitor_input.splits option.splits heartbeat_monitor_state.splits if_splits)

lemma monitor_run_phase:
  "monitor_run m xs = (ev, m') \<Longrightarrow> phase_run (monitor_phase m) ev = Some (monitor_phase m')"
proof (induction xs arbitrary: m ev m')
  case (Cons x xs)
  obtain ev1 m1 where 1: "monitor_step m x = (ev1, m1)" by fastforce
  obtain ev2 m2 where 2: "monitor_run m1 xs = (ev2, m2)" by fastforce
  from Cons.prems 1 2 Cons.IH [OF 2] monitor_step_phase [OF 1] show ?case
    by (auto simp: phase_run_append)
qed simp

text \<open>A timeout is reported exactly on the edge, and only past the consumer time.\<close>

lemma monitor_timeout_iff:
  "fst (monitor_check_timeout m now) = Some e \<longleftrightarrow> e = HbTimeout (hm_node_id m) \<and> hm_timeout_ms m \<noteq> 0
     \<and> (\<exists>st seen. hm_state m = MonAlive st seen \<and> unat (now - seen) > unat (hm_timeout_ms m) * 1000)"
  by (auto simp: monitor_check_timeout_def word_less_nat_alt unat_interval_of_ms
      split: heartbeat_monitor_state.splits)

lemma monitor_timeout_once:
  assumes "monitor_check_timeout m now = (Some e, m')"
  shows "monitor_check_timeout m' now' = (None, m')"
  using assms by (auto simp: monitor_check_timeout_def split: heartbeat_monitor_state.splits if_splits)

section \<open>Properties\<close>

text \<open>
  Over any sequence of heartbeat frames and clock ticks, a monitor first reports Started,
  and then timeouts and recoveries strictly alternate.
\<close>

theorem heartbeat_events_alternate:
  assumes "monitor_run (heartbeat_monitor_new n ms) inputs = (events, m')"
  shows "phase_run PhWaiting events = Some (monitor_phase m')"
  using monitor_run_phase [OF assms] by (simp add: monitor_phase_def heartbeat_monitor_new_def)

theorem heartbeat_events_alternate_witness:
  "phase_run PhWaiting [HbStarted (NodeId 5) Operational, HbTimeout (NodeId 5), HbRecovered (NodeId 5) Operational] = Some PhAlive"
proof -
  have "monitor_run (heartbeat_monitor_new (NodeId 5) 100)
      [HbFrame (NodeId 5) 5 0, HbTick 50000, HbTick 200000, HbTick 300000, HbFrame (NodeId 5) 5 400000]
    = ([HbStarted (NodeId 5) Operational, HbTimeout (NodeId 5), HbRecovered (NodeId 5) Operational],
       \<lparr>hm_node_id = NodeId 5, hm_timeout_ms = 100, hm_state = MonAlive Operational 400000\<rparr>)"
    by (simp add: heartbeat_monitor_new_def monitor_step_def monitor_process_def monitor_check_timeout_def
        from_heartbeat_byte_def push_back_def interval_of_ms_def)
  from heartbeat_events_alternate [OF this] show ?thesis by (simp add: monitor_phase_def)
qed

text \<open>
  A timeout is reported exactly when a monitored node that was alive has been silent for
  longer than its consumer time, with the multiplication free of wrap-around.
\<close>

theorem heartbeat_timeout_exact:
  "fst (monitor_check_timeout m now) = Some e \<longleftrightarrow> e = HbTimeout (hm_node_id m) \<and> hm_timeout_ms m \<noteq> 0
     \<and> (\<exists>st seen. hm_state m = MonAlive st seen \<and> unat (now - seen) > unat (hm_timeout_ms m) * 1000)"
  by (rule monitor_timeout_iff)

text \<open>
  After a heartbeat was sent, the next one is due exactly when the interval has passed.
\<close>

theorem heartbeat_producer_period:
  assumes "wf_node n" and "ms \<noteq> 0"
  shows "(\<exists>f. heartbeat_pending (heartbeat_confirm_sent (heartbeat_producer_new n ms) t) (t + d) st = Some (Some f))
     \<longleftrightarrow> unat d \<ge> unat ms * 1000"
  using assms heartbeat_pending_after_sent [of "heartbeat_producer_new n ms" t d st]
  by (simp add: heartbeat_producer_new_def word_le_nat_alt unat_interval_of_ms)

theorem heartbeat_producer_period_witness:
  "\<exists>f. heartbeat_pending (heartbeat_confirm_sent (heartbeat_producer_new (NodeId 5) 100) 7) (7 + 100000) Operational = Some (Some f)"
  using heartbeat_producer_period [of "NodeId 5" 100 7 100000 Operational] by (simp add: wf_node_def)

end
