(* ===== verification/Canopen_Events.thy ===== *)
theory Canopen_Events
  imports Emcy Heartbeat_Protocol
begin

unbundle bit_operations_syntax

text \<open>
  The decoding of raw frames into events, \<open>canopen-core/src/events.rs\<close>.
\<close>

datatype canopen_event =
    EvNmt u8 "node_id option"
  | EvSync
  | EvEmcy emcy_message
  | EvHeartbeat node_id nmt_state
  | EvTpdo u8 node_id bytes u8
  | EvRpdo u8 node_id bytes u8
  | EvSdoResponse node_id bytes
  | EvSdoRequest node_id bytes

definition copy_payload :: "bytes \<Rightarrow> bytes \<times> u8" where
  "copy_payload data = (let len = min (length data) 8
     in (overwrite (replicate 8 0) 0 (take len data), of_nat len))"

definition decode :: "can_frame \<Rightarrow> canopen_event option" where
  "decode f = do {
     cob \<leftarrow> cob_id_new (raw_id f);
     let data = frame_data f;
     case parse cob of
       Nmt \<Rightarrow>
         if length data < 2 then None
         else if data ! 1 = 0 then Some (EvNmt (data ! 0) None)
         else do { n \<leftarrow> node_id_new (data ! 1); Some (EvNmt (data ! 0) (Some n)) }
     | Sync \<Rightarrow> Some EvSync
     | Emergency _ \<Rightarrow> map_option EvEmcy (emcy_parse f)
     | Heartbeat node \<Rightarrow>
         (case data of [] \<Rightarrow> None
          | b # _ \<Rightarrow> map_option (EvHeartbeat node) (from_heartbeat_byte b))
     | Tpdo num node \<Rightarrow> (case copy_payload data of (payload, len) \<Rightarrow> Some (EvTpdo num node payload len))
     | Rpdo num node \<Rightarrow> (case copy_payload data of (payload, len) \<Rightarrow> Some (EvRpdo num node payload len))
     | SdoResponse node \<Rightarrow> if length data = 8 then Some (EvSdoResponse node data) else None
     | SdoRequest node \<Rightarrow> if length data = 8 then Some (EvSdoRequest node data) else None
     | Unknown _ \<Rightarrow> None
   }"

definition event_node :: "canopen_event \<Rightarrow> node_id option" where
  "event_node e = (case e of
     EvNmt _ target \<Rightarrow> target
   | EvSync \<Rightarrow> None
   | EvEmcy msg \<Rightarrow> Some (em_node msg)
   | EvHeartbeat n _ \<Rightarrow> Some n
   | EvTpdo _ n _ _ \<Rightarrow> Some n
   | EvRpdo _ n _ _ \<Rightarrow> Some n
   | EvSdoResponse n _ \<Rightarrow> Some n
   | EvSdoRequest n _ \<Rightarrow> Some n)"

definition matches_node :: "canopen_event \<Rightarrow> node_id \<Rightarrow> bool" where
  "matches_node e n = (case e of
     EvNmt _ None \<Rightarrow> True | EvSync \<Rightarrow> False | _ \<Rightarrow> event_node e = Some n)"

section \<open>What the producers send is what a consumer decodes\<close>

lemma cob_id_new_cob: "cob_raw c \<le> 0x7FF \<Longrightarrow> cob_id_new (cob_raw c) = Some c"
  by (cases c) (simp add: cob_id_new_def)

lemma decode_heartbeat:
  assumes "wf_node n" and "heartbeat_frame n st = Some f"
  shows "decode f = Some (EvHeartbeat n st)"
proof -
  have c: "cob_raw (cob_heartbeat n) \<le> 0x7FF"
    using base_node_le [OF assms(1), of "0x700"] by (simp add: cob_heartbeat_def)
  have "raw_id f = cob_raw (cob_heartbeat n)" "frame_data f = [heartbeat_byte st]"
    using assms(2) can_frame_new_raw_id can_frame_new_data unfolding heartbeat_frame_def by blast+
  moreover have "from_heartbeat_byte (heartbeat_byte st) = Some st"
    by (cases st) (simp_all add: heartbeat_byte_def from_heartbeat_byte_def)
  ultimately show ?thesis using parse_constructed(4) [OF assms(1)]
    by (simp add: decode_def cob_id_new_cob [OF c])
qed

lemma decode_emcy:
  assumes "wf_node n" and "build_emcy_frame n code reg vendor = Some f"
  shows "decode f = Some (EvEmcy \<lparr>em_node = n, em_error_code = code, em_error_register = reg,
          em_vendor_data = take 5 vendor @ replicate (5 - length vendor) 0\<rparr>)"
proof -
  have "f = emcy_frame n code reg vendor" using assms by (simp add: build_emcy_frame_eq)
  then show ?thesis
    using parse_constructed(1) [OF assms(1)] emcy_parse_frame [OF assms(1)] cob_emergency_le [OF assms(1)]
    by (simp add: decode_def frame_simps cob_id_new_cob Let_def)
qed

lemma emcy_parse_node: "emcy_parse f = Some m \<Longrightarrow> cob_id_new (raw_id f) = Some c \<Longrightarrow>
   parse c = Emergency (em_node m)"
  by (auto simp: emcy_parse_def Let_def split: parsed_cob_id.splits if_splits)

text \<open>Outside NMT commands, the decoded node is the one the identifier names.\<close>

lemma decode_node:
  assumes "decode f = Some e" and "raw_id f \<noteq> 0"
  shows "event_node e = parsed_node (parse (CobId (raw_id f)))"
proof -
  have c: "cob_id_new (raw_id f) = Some (CobId (raw_id f))"
    using assms(1) by (auto simp: decode_def cob_id_new_def split: bind_splits if_splits)
  have "parse (CobId (raw_id f)) \<noteq> Nmt"
    using assms(2) parse_cob_of_parsed [of "raw_id f"] by (auto simp: cob_of_parsed_def cob_nmt_def)
  with assms(1) c emcy_parse_node [OF _ c] show ?thesis
    by (auto simp: decode_def event_node_def Let_def split: parsed_cob_id.splits list.splits if_splits prod.splits)
qed

section \<open>Properties\<close>

text \<open>
  An EMCY frame built by the producer is decoded by a consumer to the same node, code,
  register and (padded) vendor bytes.
\<close>

theorem emcy_frame_decodes:
  assumes "wf_node n"
  shows "\<exists>f. build_emcy_frame n code reg vendor = Some f
    \<and> decode f = Some (EvEmcy \<lparr>em_node = n, em_error_code = code, em_error_register = reg,
          em_vendor_data = take 5 vendor @ replicate (5 - length vendor) 0\<rparr>)"
  using assms decode_emcy [OF assms] by (simp add: build_emcy_frame_eq)

theorem emcy_frame_decodes_witness:
  "\<exists>f. build_emcy_frame (NodeId 5) 0x8130 0x11 [7] = Some f
    \<and> decode f = Some (EvEmcy \<lparr>em_node = NodeId 5, em_error_code = 0x8130, em_error_register = 0x11,
          em_vendor_data = 7 # replicate 4 0\<rparr>)"
  using emcy_frame_decodes [of "NodeId 5" "0x8130" "0x11" "[7]"] by (simp add: wf_node_def)

text \<open>
  Outside NMT commands, a decoded event names the node that the frame's identifier names.
\<close>

theorem event_node_from_cob_id:
  assumes "decode f = Some e" and "raw_id f \<noteq> 0"
  shows "event_node e = parsed_node (parse (CobId (raw_id f)))"
  using assms by (rule decode_node)

theorem event_node_from_cob_id_witness:
  "event_node (EvHeartbeat (NodeId 5) Operational) = Some (NodeId 5)"
proof -
  let ?f = "\<lparr>cf_id = 0x705, cf_dlc = 1, cf_data = [5, 0, 0, 0, 0, 0, 0, 0]\<rparr>"
  have p: "parse (CobId 0x705) = Heartbeat (NodeId 5)" by (simp add: parse_def in_range_def or_unknown_def node_id_new_def)
  then have "decode ?f = Some (EvHeartbeat (NodeId 5) Operational)"
    by (simp add: decode_def raw_id_def frame_data_def cob_id_new_def from_heartbeat_byte_def)
  from event_node_from_cob_id [OF this] p show ?thesis by (simp add: raw_id_def)
qed

end
