(* ===== verification/Lss.thy ===== *)
theory Lss
  imports Can_Transport
begin

unbundle bit_operations_syntax

text \<open>
  The LSS slave of \<open>canopen-core/src/lss.rs\<close>: switching modes globally or selectively by
  identity, configuring the node id, inquiries.
\<close>

section \<open>State\<close>

abbreviation LSS_REQUEST_COB :: u16 where "LSS_REQUEST_COB \<equiv> 0x7E5"
abbreviation LSS_RESPONSE_COB :: u16 where "LSS_RESPONSE_COB \<equiv> 0x7E4"

record lss_identity =
  vendor_id :: u32
  product_code :: u32
  revision :: u32
  serial :: u32

datatype lss_mode = LssWaiting | LssConfiguration

datatype lss_event = NodeIdConfigured u8 | StoreConfiguration

record lss_slave =
  lss_identity :: lss_identity
  lss_node_id :: u8
  lss_mode :: lss_mode
  selective_step :: u8
  pending_event :: "lss_event option"

definition lss_new :: "lss_identity \<Rightarrow> u8 \<Rightarrow> lss_slave" where
  "lss_new ident n = \<lparr>lss_identity = ident, lss_node_id = n, lss_mode = LssWaiting,
     selective_step = 0, pending_event = None\<rparr>"

definition take_event :: "lss_slave \<Rightarrow> lss_event option \<times> lss_slave" where
  "take_event s = (pending_event s, s\<lparr>pending_event := None\<rparr>)"

section \<open>Requests\<close>

definition make_response :: "bytes \<Rightarrow> can_frame option" where
  "make_response data = can_frame_new LSS_RESPONSE_COB data"

text \<open>The step of a selection command and the identity value it must name.\<close>

definition selection_of :: "lss_identity \<Rightarrow> u8 \<Rightarrow> u8 \<times> u32" where
  "selection_of ident cmd =
     (if cmd = 0x40 then (0, vendor_id ident)
      else if cmd = 0x41 then (1, product_code ident)
      else if cmd = 0x42 then (2, revision ident)
      else (3, serial ident))"

definition lss_select :: "lss_slave \<Rightarrow> bytes \<Rightarrow> can_frame option \<times> lss_slave" where
  "lss_select s data =
     (let val = from_le_bytes (take 4 (drop 1 data)) :: u32 in
      case selection_of (lss_identity s) (data ! 0) of (step, expected) \<Rightarrow>
        let s1 = (if step = 0 then s\<lparr>selective_step := 0\<rparr> else s) in
        if selective_step s1 \<noteq> step \<or> val \<noteq> expected then (None, s1\<lparr>selective_step := 0\<rparr>)
        else if step < 3 then (None, s1\<lparr>selective_step := step + 1\<rparr>)
        else (make_response (0x44 # replicate 7 0),
              s1\<lparr>selective_step := 0, lss_mode := LssConfiguration\<rparr>))"

definition lss_configure_node_id :: "lss_slave \<Rightarrow> bytes \<Rightarrow> can_frame option \<times> lss_slave" where
  "lss_configure_node_id s data =
     (let new_id = data ! 1 in
      if (new_id \<ge> 1 \<and> new_id \<le> 127) \<or> new_id = 0xFF
      then (make_response ([0x11, 0] @ replicate 6 0),
            s\<lparr>lss_node_id := new_id, pending_event := Some (NodeIdConfigured new_id)\<rparr>)
      else (make_response ([0x11, 1] @ replicate 6 0), s))"

definition lss_inquire :: "u8 \<Rightarrow> u32 \<Rightarrow> can_frame option" where
  "lss_inquire cmd v = make_response ([cmd] @ to_le_bytes 4 v @ replicate 3 0)"

definition is_selection_cmd :: "u8 \<Rightarrow> bool" where
  "is_selection_cmd cmd \<longleftrightarrow> cmd = 0x40 \<or> cmd = 0x41 \<or> cmd = 0x42 \<or> cmd = 0x43"

definition lss_process :: "lss_slave \<Rightarrow> can_frame \<Rightarrow> can_frame option \<times> lss_slave" where
  "lss_process s frame =
     (if raw_id frame \<noteq> LSS_REQUEST_COB \<or> raw_dlc frame < 8 then (None, s)
      else
        let data = frame_data frame; cmd = data ! 0 in
        if cmd = 0x04 then
          (None, if data ! 1 = 0 then s\<lparr>lss_mode := LssWaiting, selective_step := 0\<rparr>
                 else if data ! 1 = 1 then s\<lparr>lss_mode := LssConfiguration\<rparr> else s)
        else if is_selection_cmd cmd \<and> lss_mode s = LssWaiting then lss_select s data
        else if lss_mode s \<noteq> LssConfiguration then (None, s)
        else if cmd = 0x11 then lss_configure_node_id s data
        else if cmd = 0x17 then
          (make_response ([0x17, 0] @ replicate 6 0), s\<lparr>pending_event := Some StoreConfiguration\<rparr>)
        else if cmd = 0x5A then (lss_inquire cmd (vendor_id (lss_identity s)), s)
        else if cmd = 0x5B then (lss_inquire cmd (product_code (lss_identity s)), s)
        else if cmd = 0x5C then (lss_inquire cmd (revision (lss_identity s)), s)
        else if cmd = 0x5D then (lss_inquire cmd (serial (lss_identity s)), s)
        else if cmd = 0x5E then (make_response ([cmd, lss_node_id s] @ replicate 6 0), s)
        else (None, s))"

section \<open>Selection by identity\<close>

definition lss_run :: "lss_slave \<Rightarrow> can_frame list \<Rightarrow> lss_slave" where
  "lss_run s fs = foldl (\<lambda>s f. snd (lss_process s f)) s fs"

definition lss_cmd :: "can_frame \<Rightarrow> u8 option" where
  "lss_cmd f = (if raw_id f \<noteq> LSS_REQUEST_COB \<or> raw_dlc f < 8 then None else Some (frame_data f ! 0))"

definition is_selection :: "can_frame \<Rightarrow> bool" where
  "is_selection f = (case lss_cmd f of Some c \<Rightarrow> is_selection_cmd c | None \<Rightarrow> False)"

text \<open>A request that names the value the identity has at selection step \<open>k\<close>.\<close>

definition selects :: "lss_identity \<Rightarrow> nat \<Rightarrow> can_frame \<Rightarrow> bool" where
  "selects ident k f \<longleftrightarrow> lss_cmd f = Some (0x40 + of_nat k)
     \<and> from_le_bytes (take 4 (drop 1 (frame_data f))) = [vendor_id ident, product_code ident, revision ident, serial ident] ! k"

text \<open>The last \<open>k\<close> selection requests were the first \<open>k\<close> of the identity's sequence.\<close>

fun selection_progress :: "lss_identity \<Rightarrow> nat \<Rightarrow> can_frame list \<Rightarrow> bool" where
  "selection_progress ident 0 fs = True"
| "selection_progress ident (Suc k) fs = (case fs of [] \<Rightarrow> False
     | f # fs' \<Rightarrow> selects ident k f \<and> selection_progress ident k fs')"

lemma selection_cases:
  assumes "is_selection_cmd c"
  obtains k where "k < 4" "c = 0x40 + of_nat k" "selection_of ident c =
      (of_nat k, [vendor_id ident, product_code ident, revision ident, serial ident] ! k)"
proof -
  from assms consider "c = 0x40" | "c = 0x41" | "c = 0x42" | "c = 0x43"
    by (auto simp: is_selection_cmd_def)
  then show thesis
    by cases (rule that [of 0] that [of 1] that [of 2] that [of 3]; simp add: selection_of_def; fail)+
qed

lemma lss_select_identity [simp]: "lss_identity (snd (lss_select s data)) = lss_identity s"
  by (cases "selection_of (lss_identity s) (data ! 0)") (simp add: lss_select_def Let_def)

lemma lss_configure_node_id_keeps [simp]:
  "lss_identity (snd (lss_configure_node_id s data)) = lss_identity s"
  "lss_mode (snd (lss_configure_node_id s data)) = lss_mode s"
  by (simp_all add: lss_configure_node_id_def Let_def)

lemma lss_process_identity [simp]: "lss_identity (snd (lss_process s f)) = lss_identity s"
  by (simp add: lss_process_def Let_def)

lemma lss_run_snoc: "lss_run s (fs @ [f]) = snd (lss_process (lss_run s fs) f)"
  by (simp add: lss_run_def)

lemma lss_process_configuration:
  assumes "lss_mode s = LssConfiguration" and "lss_cmd f \<noteq> Some 0x04"
  shows "lss_mode (snd (lss_process s f)) = LssConfiguration"
  using assms by (auto simp: lss_process_def lss_cmd_def Let_def split: if_splits)

lemma lss_process_not_selection:
  assumes "lss_mode s = LssWaiting" and "lss_cmd f \<noteq> Some 0x04" and "\<not> is_selection f"
  shows "snd (lss_process s f) = s"
  using assms by (auto simp: lss_process_def lss_cmd_def Let_def is_selection_def)

text \<open>One selection request to a waiting slave at step \<open>k\<close>.\<close>

lemma lss_process_selection:
  assumes "lss_mode s = LssWaiting" and "is_selection f"
    and "selective_step s = of_nat k" "k < 4" "selection_progress (lss_identity s) k h"
  defines "s' \<equiv> snd (lss_process s f)"
  shows "(lss_mode s' = LssWaiting \<and> (\<exists>k'<4. selective_step s' = of_nat k'
            \<and> selection_progress (lss_identity s) k' (f # h)))
       \<or> (lss_mode s' = LssConfiguration \<and> selection_progress (lss_identity s) 4 (f # h))"
proof -
  let ?id = "lss_identity s"
  let ?v = "from_le_bytes (take 4 (drop 1 (frame_data f))) :: u32"
  have c: "lss_cmd f = Some (frame_data f ! 0)" "is_selection_cmd (frame_data f ! 0)"
    using assms(2) by (auto simp: is_selection_def lss_cmd_def split: option.splits if_splits)
  obtain j where j: "j < 4" "frame_data f ! 0 = 0x40 + of_nat j" "selection_of ?id (frame_data f ! 0) =
      (of_nat j, [vendor_id ?id, product_code ?id, revision ?id, serial ?id] ! j)"
    using selection_cases [OF c(2)] by metis
  let ?e = "[vendor_id ?id, product_code ?id, revision ?id, serial ?id] ! j"
  have s': "s' = snd (lss_select s (frame_data f))"
    using c assms(1) by (auto simp: s'_def lss_process_def lss_cmd_def Let_def is_selection_cmd_def split: if_splits)
  have small: "(of_nat a :: u8) = of_nat b \<longleftrightarrow> a = b" if "a < 4" "b < 4" for a b
    using that by (auto simp: word_of_nat_eq_iff take_bit_eq_mod)
  have lt3: "(of_nat j :: u8) < 3 \<longleftrightarrow> j < 3" using j(1) by (simp add: word_less_nat_alt unat_of_nat)
  consider (match) "j = k \<or> j = 0" "?v = ?e" | (nomatch) "\<not> ((j = k \<or> j = 0) \<and> ?v = ?e)" by blast
  then show ?thesis
  proof cases
    case match
    have p: "selection_progress ?id (Suc j) (f # h)"
      using match assms(5) c(1) j(2) by (auto simp: selects_def)
    show ?thesis
    proof (cases "j < 3")
      case True
      have "lss_mode s' = LssWaiting" "selective_step s' = of_nat (Suc j)"
        using match True lt3 assms(1,3) j small [of j 0] unfolding s' 
        by (auto simp: lss_select_def Let_def)
      then show ?thesis using p True by (intro disjI1 conjI exI [of _ "Suc j"]) auto
    next
      case False
      then have "j = 3" using j(1) by simp
      moreover then have "lss_mode s' = LssConfiguration"
        using match lt3 assms(1,3) j small unfolding s' by (auto simp: lss_select_def Let_def)
      ultimately show ?thesis using p by (simp add: eval_nat_numeral)
    qed
  next
    case nomatch
    have "lss_mode s' = LssWaiting" "selective_step s' = 0"
      using nomatch assms(1,3,4) j small [of j k] small [of j 0] small [of 0 k] unfolding s'
      by (auto simp: lss_select_def Let_def)
    then show ?thesis by (intro disjI1 conjI exI [of _ 0]) auto
  qed
qed

text \<open>At some point the last four selection requests were the identity's, in order.\<close>

definition selected_by :: "lss_identity \<Rightarrow> can_frame list \<Rightarrow> bool" where
  "selected_by ident fs \<longleftrightarrow> (\<exists>k \<le> length fs. selection_progress ident 4 (rev (filter is_selection (take k fs))))"

lemma lss_run_inv:
  assumes "\<forall>f \<in> set fs. lss_cmd f \<noteq> Some 0x04"
  shows "lss_identity (lss_run (lss_new ident n) fs) = ident \<and>
    ((lss_mode (lss_run (lss_new ident n) fs) = LssWaiting \<and>
      (\<exists>k<4. selective_step (lss_run (lss_new ident n) fs) = of_nat k \<and>
         selection_progress ident k (rev (filter is_selection fs))))
     \<or> (lss_mode (lss_run (lss_new ident n) fs) = LssConfiguration \<and> selected_by ident fs))"
  using assms
proof (induction fs rule: rev_induct)
  case Nil
  then show ?case by (auto simp: lss_run_def lss_new_def intro!: exI [of _ 0])
next
  case (snoc f fs)
  let ?s = "lss_run (lss_new ident n) fs"
  have f: "lss_cmd f \<noteq> Some 0x04" and IH: "lss_identity ?s = ident"
    "(lss_mode ?s = LssWaiting \<and> (\<exists>k<4. selective_step ?s = of_nat k \<and>
         selection_progress ident k (rev (filter is_selection fs))))
     \<or> (lss_mode ?s = LssConfiguration \<and> selected_by ident fs)"
    using snoc by auto
  have mono: "selected_by ident (fs @ [f])" if "selected_by ident fs"
    using that by (auto simp: selected_by_def intro: le_SucI)
  have fin: "selected_by ident (fs @ [f])" if "selection_progress ident 4 (f # rev (filter is_selection fs))" "is_selection f"
    using that by (auto simp: selected_by_def intro!: exI [of _ "Suc (length fs)"])
  from IH(2) show ?case
  proof (elim disjE conjE exE)
    fix k assume k: "lss_mode ?s = LssWaiting" "k < 4" "selective_step ?s = of_nat k"
      "selection_progress ident k (rev (filter is_selection fs))"
    show ?case
    proof (cases "is_selection f")
      case True
      with lss_process_selection [OF k(1) True k(3,2)] k(4) IH(1) fin show ?thesis
        by (auto simp: lss_run_snoc)
    next
      case False
      with lss_process_not_selection [OF k(1) f False] k IH(1) show ?thesis
        by (auto simp: lss_run_snoc)
    qed
  next
    assume "lss_mode ?s = LssConfiguration" "selected_by ident fs"
    with lss_process_configuration [OF _ f] mono IH(1) show ?case by (simp add: lss_run_snoc)
  qed
qed
section \<open>Properties\<close>

text \<open>
  C34. Without a global switch, a slave enters configuration mode only when four successive
  selection requests named its vendor, product, revision and serial number, in that order.
\<close>

theorem lss_selected_only_by_identity:
  assumes "\<forall>f \<in> set fs. lss_cmd f \<noteq> Some 0x04"
    and "lss_mode (lss_run (lss_new ident n) fs) = LssConfiguration"
  shows "selected_by ident fs"
  using lss_run_inv [OF assms(1), of ident n] assms(2) by auto

theorem lss_selected_only_by_identity_witness:
  "selected_by \<lparr>vendor_id = 1, product_code = 2, revision = 3, serial = 4\<rparr>
     (map (\<lambda>(c, v). \<lparr>cf_id = 0x7E5, cf_dlc = 8, cf_data = [c, v, 0, 0, 0, 0, 0, 0]\<rparr>)
       [(0x40, 1), (0x41, 2), (0x42, 3), (0x43, 4)])"
  by (rule lss_selected_only_by_identity [where n = 5]) code_simp+

end
