(* ===== verification/Node_State.thy ===== *)
theory Node_State
  imports Od_Configs Sdo_Server_Inv Emcy Heartbeat_Protocol Lss Pdo_Props
begin

unbundle bit_operations_syntax

text \<open>
  The state of a node and the operations that do not touch the transport
  (\<open>canopen-core/src/node.rs\<close>): construction with its COB-ID checks, the live
  configuration re-read from the dictionary (PDO parameters, heartbeat, SYNC), the error
  register, change notification, resets and the event queues. The dictionary is a parameter;
  an operation that can panic returns an option.
\<close>

section \<open>Configuration\<close>

datatype reset_type = RstApplication | RstCommunication

record node_config =
  nc_node_id :: node_id
  nc_heartbeat_interval_ms :: u16
  nc_auto_start :: bool
  nc_tpdo :: "tpdo_config list"
  nc_rpdo :: "rpdo_config list"
  nc_sdo_servers :: "sdo_server_config list"
  nc_identity :: lss_identity

text \<open>The traits \<open>PdoConfigSource\<close> and \<open>SdoServerConfigSource\<close> of a dictionary.\<close>

record 'od config_source =
  cs_tpdo_configs :: "'od \<Rightarrow> node_id \<Rightarrow> tpdo_config list"
  cs_rpdo_configs :: "'od \<Rightarrow> node_id \<Rightarrow> rpdo_config list"
  cs_sdo_server_configs :: "'od \<Rightarrow> node_id \<Rightarrow> sdo_server_config list"

text \<open>Their implementation for the generated dictionary of a definition.\<close>

definition gen_config_source :: "od_definition \<Rightarrow> gen_od config_source" where
  "gen_config_source d = \<lparr>cs_tpdo_configs = tpdo_configs d, cs_rpdo_configs = rpdo_configs d,
     cs_sdo_server_configs = (\<lambda>od. sdo_server_configs d)\<rparr>"

definition identity_sub :: "'od od_ops \<Rightarrow> 'od \<Rightarrow> u8 \<Rightarrow> u32" where
  "identity_sub ops od sub = (case od_read ops od 0x1018 sub (replicate 8 0) of
     (Inr n, buf) \<Rightarrow> if n = 4 then from_le_bytes (take 4 buf) else 0
   | (Inl _, _) \<Rightarrow> 0)"

definition node_config_from_od :: "'od od_ops \<Rightarrow> 'od config_source \<Rightarrow> 'od \<Rightarrow> node_id \<Rightarrow> node_config" where
  "node_config_from_od ops src od n =
     \<lparr>nc_node_id = n, nc_heartbeat_interval_ms = 1000, nc_auto_start = False,
      nc_tpdo = cs_tpdo_configs src od n, nc_rpdo = cs_rpdo_configs src od n,
      nc_sdo_servers = cs_sdo_server_configs src od n,
      nc_identity = \<lparr>vendor_id = identity_sub ops od 1, product_code = identity_sub ops od 2,
                     revision = identity_sub ops od 3, serial = identity_sub ops od 4\<rparr>\<rparr>"

section \<open>The pending SDO response of a channel\<close>

text \<open>At most one frame the protocol still owes, with the time it was queued.\<close>

record pending_sdo_tx =
  ptx_frame :: "(can_frame \<times> u64) option"
  ptx_refused_this_poll :: bool

definition ptx_default :: pending_sdo_tx where
  "ptx_default = \<lparr>ptx_frame = None, ptx_refused_this_poll = False\<rparr>"

definition ptx_queue :: "pending_sdo_tx \<Rightarrow> u16 \<Rightarrow> bytes \<Rightarrow> u64 \<Rightarrow> pending_sdo_tx" where
  "ptx_queue p cob data now = p\<lparr>ptx_frame := map_option (\<lambda>f. (f, now)) (can_frame_new cob data)\<rparr>"

definition ptx_stale :: "pending_sdo_tx \<Rightarrow> u64 \<Rightarrow> bool" where
  "ptx_stale p now = (case ptx_frame p of
     Some (_, since) \<Rightarrow> now - since \<ge> SDO_TIMEOUT_US | None \<Rightarrow> False)"

definition ptx_begin_poll ::
  "u16 \<Rightarrow> u64 \<Rightarrow> pending_sdo_tx \<times> sdo_server \<Rightarrow> pending_sdo_tx \<times> sdo_server" where
  "ptx_begin_poll cob now s = (case s of (p, srv) \<Rightarrow>
     let p1 = p\<lparr>ptx_refused_this_poll := False\<rparr> in
     if ptx_stale p1 now then (p1\<lparr>ptx_frame := None\<rparr>, abort_transfer srv)
     else case check_timeout srv now of
       (Some abort, srv') \<Rightarrow> (ptx_queue p1 cob abort now, srv')
     | (None, srv') \<Rightarrow> (p1, srv'))"

definition ptx_try_send :: "'t can_ops \<Rightarrow> pending_sdo_tx \<times> 't \<Rightarrow> pending_sdo_tx \<times> 't" where
  "ptx_try_send tops s = (case s of (p, t) \<Rightarrow>
     if ptx_refused_this_poll p then (p, t)
     else case ptx_frame p of
       None \<Rightarrow> (p, t)
     | Some (f, _) \<Rightarrow> (case can_transmit tops t f of (r, t') \<Rightarrow>
         (if is_ok r then p\<lparr>ptx_frame := None\<rparr> else p\<lparr>ptx_refused_this_poll := True\<rparr>, t')))"

text \<open>The loop \<open>for _ in 0..127\<close> with its two \<open>break\<close>s.\<close>

fun ptx_service_loop ::
  "'t can_ops \<Rightarrow> u16 \<Rightarrow> u64 \<Rightarrow> nat \<Rightarrow> pending_sdo_tx \<times> sdo_server \<times> 't
   \<Rightarrow> (pending_sdo_tx \<times> sdo_server \<times> 't) option" where
  "ptx_service_loop tops cob now 0 s = Some s"
| "ptx_service_loop tops cob now (Suc k) (p, srv, t) =
     (if ptx_frame p \<noteq> None then Some (p, srv, t)
      else do {
        (r, srv') \<leftarrow> poll_block_upload srv now;
        case r of
          None \<Rightarrow> Some (p, srv', t)
        | Some data \<Rightarrow> (case ptx_try_send tops (ptx_queue p cob data now, t) of
            (p', t') \<Rightarrow> ptx_service_loop tops cob now k (p', srv', t'))
      })"

definition ptx_service ::
  "'t can_ops \<Rightarrow> u16 \<Rightarrow> u64 \<Rightarrow> pending_sdo_tx \<times> sdo_server \<times> 't
   \<Rightarrow> (pending_sdo_tx \<times> sdo_server \<times> 't) option" where
  "ptx_service tops cob now s = (case s of (p, srv, t) \<Rightarrow>
     case ptx_try_send tops (p, t) of (p', t') \<Rightarrow> ptx_service_loop tops cob now 127 (p', srv, t'))"

section \<open>The node\<close>

abbreviation MAX_HEARTBEAT_MONITORS :: nat where "MAX_HEARTBEAT_MONITORS \<equiv> 8"
abbreviation HB_EVENT_QUEUE :: nat where "HB_EVENT_QUEUE \<equiv> 8"
abbreviation RESERVED_COB_IDS :: nat where "RESERVED_COB_IDS \<equiv> 32"

record 'od node =
  nd_node_id :: node_id
  nd_od :: 'od
  nd_nmt :: nmt_handler
  nd_sdo_server :: sdo_server
  nd_sdo_tx :: pending_sdo_tx
  nd_extra_sdo :: "sdo_server list"
  nd_extra_sdo_pending_tx :: "pending_sdo_tx list"
  nd_extra_sdo_rx :: "u16 list"
  nd_extra_sdo_tx :: "u16 list"
  nd_tpdo :: tpdo_engine
  nd_rpdo :: rpdo_engine
  nd_sync :: sync_consumer
  nd_sync_producer :: sync_producer
  nd_sync_window :: sync_window
  nd_pending_sync_tpdo :: "can_frame list"
  nd_sync_tpdo_last_attempt_us :: "u64 option"
  nd_heartbeat :: heartbeat_producer
  nd_hb_monitors :: "heartbeat_monitor option list"
  nd_hb_event_queue :: "heartbeat_event list"
  nd_emcy :: emcy_producer
  nd_lss :: lss_slave
  nd_booted :: bool
  nd_auto_start :: bool
  nd_event_queue :: "od_event list"
  nd_dirty_set :: "(u16 \<times> u8) list"
  nd_event_overflow_count :: u32
  nd_reset_event :: "reset_type option"

abbreviation nd_state :: "'od node \<Rightarrow> nmt_state" where
  "nd_state nd \<equiv> nmt_state (nd_nmt nd)"

text \<open>SDO is served in Pre-Operational and Operational only.\<close>

definition sdo_available :: "nmt_state \<Rightarrow> bool" where
  "sdo_available st \<longleftrightarrow> st = PreOperational \<or> st = Operational"

section \<open>COB-IDs in use\<close>

definition nd_sdo_cob_ids :: "'od node \<Rightarrow> sdo_cob_ids" where
  "nd_sdo_cob_ids nd = \<lparr>default_rx = cob_raw (cob_sdo_rx (nd_node_id nd)),
     default_tx = cob_raw (cob_sdo_tx (nd_node_id nd)),
     extra_rx = nd_extra_sdo_rx nd, extra_tx = nd_extra_sdo_tx nd\<rparr>"

abbreviation nd_sync_cob :: "'od node \<Rightarrow> u16" where
  "nd_sync_cob nd \<equiv> (case sync_consumer_cob_id (nd_sync nd) of Some c \<Rightarrow> c | None \<Rightarrow> 0)"

definition tpdo_cobs :: "'od node \<Rightarrow> u16 list" where
  "tpdo_cobs nd = map tc_cob_id (te_pdos (nd_tpdo nd))"

definition rpdo_cobs :: "'od node \<Rightarrow> u16 list" where
  "rpdo_cobs nd = map rc_cob_id (re_pdos (nd_rpdo nd))"

text \<open>\<open>hb_monitors.iter().flatten()\<close>.\<close>

definition monitors :: "'od node \<Rightarrow> heartbeat_monitor list" where
  "monitors nd = concat (map (\<lambda>m. case m of Some m \<Rightarrow> [m] | None \<Rightarrow> []) (nd_hb_monitors nd))"

definition monitored_cobs :: "'od node \<Rightarrow> u16 list" where
  "monitored_cobs nd = map (\<lambda>m. cob_raw (cob_heartbeat (hm_node_id m))) (monitors nd)"

definition extra_server_ok :: "'od node \<Rightarrow> u16 list \<Rightarrow> nat \<Rightarrow> bool" where
  "extra_server_ok nd fixed i =
     (let rx = nd_extra_sdo_rx nd ! i; tx = nd_extra_sdo_tx nd ! i in
      \<not> (rx = 0 \<or> tx = 0 \<or> rx = tx) \<and> \<not> (rx \<in> set fixed \<or> tx \<in> set fixed)
      \<and> list_all (\<lambda>j. let orx = nd_extra_sdo_rx nd ! j; otx = nd_extra_sdo_tx nd ! j in
            \<not> (rx = orx \<or> rx = otx \<or> tx = orx \<or> tx = otx)) [Suc i..<length (nd_extra_sdo nd)])"

definition sdo_cob_ids_are_unique :: "'od node \<Rightarrow> bool" where
  "sdo_cob_ids_are_unique nd =
     (let n = nd_node_id nd; sdo_cobs = nd_sdo_cob_ids nd;
          fixed = [cob_raw cob_nmt, nd_sync_cob nd, cob_raw (cob_emergency n), default_rx sdo_cobs,
                   default_tx sdo_cobs, cob_raw (cob_heartbeat n), LSS_REQUEST_COB, LSS_RESPONSE_COB]
      in list_all (extra_server_ok nd fixed) [0..<length (nd_extra_sdo nd)]
         \<and> list_all (\<lambda>c. \<not> sdo_claims sdo_cobs c) (tpdo_cobs nd)
         \<and> list_all (\<lambda>c. \<not> sdo_claims sdo_cobs c) (rpdo_cobs nd)
         \<and> list_all (\<lambda>c. \<not> sdo_claims sdo_cobs c) (monitored_cobs nd))"

text \<open>The loop of \<open>reserved_cob_ids\<close>: a vector of capacity 32 and whether it held everything.\<close>

definition reserve_cob :: "u16 \<Rightarrow> u16 list \<times> bool \<Rightarrow> u16 list \<times> bool" where
  "reserve_cob cob s = (case s of (out, complete) \<Rightarrow>
     if cob \<noteq> 0 \<and> cob \<notin> set out then
       (if length out < RESERVED_COB_IDS then (out @ [cob], complete) else (out, False))
     else (out, complete))"

definition fixed_cobs :: "'od node \<Rightarrow> u16 list" where
  "fixed_cobs nd = [cob_raw (cob_emergency (nd_node_id nd)), cob_raw (cob_heartbeat (nd_node_id nd)),
     LSS_REQUEST_COB, LSS_RESPONSE_COB]"

definition node_reserved_cob_ids :: "'od node \<Rightarrow> u16 list \<times> bool" where
  "node_reserved_cob_ids nd =
     fold reserve_cob (fixed_cobs nd @ tpdo_cobs nd @ rpdo_cobs nd @ monitored_cobs nd) ([], True)"

definition sync_cob_id_is_unique :: "'od node \<Rightarrow> bool" where
  "sync_cob_id_is_unique nd = (case sync_consumer_cob_id (nd_sync nd) of
     None \<Rightarrow> True
   | Some sync \<Rightarrow>
       \<not> (sync = cob_raw cob_nmt \<or> sdo_claims (nd_sdo_cob_ids nd) sync)
       \<and> sync \<notin> set (fixed_cobs nd)
       \<and> sync \<notin> set (tpdo_cobs nd) \<and> sync \<notin> set (rpdo_cobs nd) \<and> sync \<notin> set (monitored_cobs nd))"

section \<open>Live configuration from the dictionary\<close>

text \<open>\<open>od.read(..).is_ok()\<close> with the buffer it leaves.\<close>

definition try_read :: "'od od_ops \<Rightarrow> 'od \<Rightarrow> u16 \<Rightarrow> u8 \<Rightarrow> bytes \<Rightarrow> bool \<times> bytes" where
  "try_read ops od i s buf = (case od_read ops od i s buf of (r, buf') \<Rightarrow> (is_ok r, buf'))"

text \<open>A \<open>u16\<close> addition, which panics on overflow in a debug build.\<close>

definition add_u16 :: "u16 \<Rightarrow> u16 \<Rightarrow> u16 option" where
  "add_u16 a b = (if unat a + unat b < 65536 then Some (a + b) else None)"

definition pdo_od_offset :: "u16 \<Rightarrow> nat \<Rightarrow> u16" where
  "pdo_od_offset od_number slot = (if od_number = 0 then of_nat slot else od_number - 1)"

definition configured_monitor :: "bytes \<Rightarrow> (node_id \<times> u16) option" where
  "configured_monitor buf =
     (let raw = from_le_bytes buf :: u32; time_ms = ucast (raw AND 0xFFFF) :: u16 in
      if time_ms = 0 then None
      else map_option (\<lambda>node. (node, time_ms)) (node_id_new (ucast (drop_bit 16 raw AND 0xFF))))"

definition next_monitor ::
  "bool \<Rightarrow> (node_id \<times> u16) option \<Rightarrow> heartbeat_monitor option \<Rightarrow> heartbeat_monitor option" where
  "next_monitor preserve configured existing = (case configured of
     None \<Rightarrow> None
   | Some (node, time) \<Rightarrow> (case existing of
       Some m \<Rightarrow> if preserve \<and> hm_node_id m = node \<and> hm_timeout_ms m = time then Some m
                 else Some (heartbeat_monitor_new node time)
     | None \<Rightarrow> Some (heartbeat_monitor_new node time)))"

definition sync_monitor_slot ::
  "'od od_ops \<Rightarrow> 'od \<Rightarrow> bool \<Rightarrow> nat \<Rightarrow> heartbeat_monitor option list \<times> bytes
   \<Rightarrow> heartbeat_monitor option list \<times> bytes" where
  "sync_monitor_slot ops od preserve slot s = (case s of (ms, buf4) \<Rightarrow>
     case try_read ops od 0x1016 (of_nat (slot + 1)) buf4 of (ok, buf4') \<Rightarrow>
       (ms[slot := next_monitor preserve (if ok then configured_monitor buf4' else None) (ms ! slot)], buf4'))"

definition sync_heartbeat_from_od :: "'od od_ops \<Rightarrow> bool \<Rightarrow> 'od node \<Rightarrow> 'od node" where
  "sync_heartbeat_from_od ops preserve nd =
     (case try_read ops (nd_od nd) 0x1017 0 (replicate 2 0) of (ok, buf2) \<Rightarrow>
      let nd1 = (if ok then nd\<lparr>nd_heartbeat := set_interval_ms (nd_heartbeat nd) (from_le_bytes buf2)\<rparr> else nd)
      in nd1\<lparr>nd_hb_monitors := fst (fold (sync_monitor_slot ops (nd_od nd) preserve)
               [0..<MAX_HEARTBEAT_MONITORS] (nd_hb_monitors nd1, replicate 4 0))\<rparr>)"

text \<open>0x1005 with its assertion; a missing object means the default.\<close>

definition configured_sync :: "'od od_ops \<Rightarrow> 'od \<Rightarrow> bytes \<Rightarrow> (sync_cob_id \<times> bytes) option" where
  "configured_sync ops od buf4 = (case try_read ops od 0x1005 0 buf4 of (ok, buf4') \<Rightarrow>
     if ok then do {
       assert_that (is_supported_sync_cob_id (from_le_bytes buf4'));
       s \<leftarrow> sync_cob_id_from_raw (from_le_bytes buf4');
       Some (s, buf4')
     } else Some (sync_cob_id_DEFAULT, buf4'))"

definition sync_config_from_od :: "'od od_ops \<Rightarrow> 'od node \<Rightarrow> 'od node option" where
  "sync_config_from_od ops nd = do {
     (s, b0) \<leftarrow> configured_sync ops (nd_od nd) (replicate 4 0);
     let (ok6, b1) = try_read ops (nd_od nd) 0x1006 0 b0;
     let period_us = (if ok6 then ucast (from_le_bytes b1 :: u32) else 0);
     let (ok7, b2) = try_read ops (nd_od nd) 0x1007 0 b1;
     let window_us = (if ok7 then ucast (from_le_bytes b2 :: u32) else 0);
     let (ok19, c1) = try_read ops (nd_od nd) 0x1019 0 (replicate 1 0);
     let overflow = (if ok19 then c1 ! 0 else 0);
     assert_that (is_valid_sync_counter_overflow overflow);
     Some (nd\<lparr>nd_sync := sync_consumer_set_cob_id (nd_sync nd) (sc_cob_id s),
              nd_sync_window := sync_window_configure (nd_sync_window nd) window_us,
              nd_sync_producer := sync_producer_configure (nd_sync_producer nd)
                (if sc_produce s then sc_cob_id s else 0) period_us overflow\<rparr>)
   }"

text \<open>The mapping entries 1 to \<open>count\<close>, read with one shared buffer.\<close>

fun read_mappings ::
  "'od od_ops \<Rightarrow> 'od \<Rightarrow> u16 \<Rightarrow> u8 list \<Rightarrow> pdo_mapping list \<times> bytes \<Rightarrow> pdo_mapping list \<times> bytes" where
  "read_mappings ops od map_idx [] s = s"
| "read_mappings ops od map_idx (sub # subs) (ms, buf4) =
     (case try_read ops od map_idx sub buf4 of (ok, buf4') \<Rightarrow>
        read_mappings ops od map_idx subs
          (if ok then push_back PDO_MAX_MAPPINGS ms (from_mapping_value (from_le_bytes buf4')) else ms, buf4'))"

definition sync_mappings :: "'od od_ops \<Rightarrow> 'od \<Rightarrow> u16 \<Rightarrow> bytes \<Rightarrow> pdo_mapping list \<times> bytes" where
  "sync_mappings ops od map_idx buf4 = (case try_read ops od map_idx 0 buf4 of (ok, b) \<Rightarrow>
     if ok then read_mappings ops od map_idx (subs_upto (min (b ! 0) (of_nat PDO_MAX_MAPPINGS))) ([], b)
     else ([], b))"

definition cob_enabled :: "u32 \<Rightarrow> bool" where
  "cob_enabled raw \<longleftrightarrow> raw AND 0x80000000 = 0 \<and> raw AND 0x7FF \<noteq> 0"

definition sync_tpdo_config ::
  "'od od_ops \<Rightarrow> 'od \<Rightarrow> u16 \<Rightarrow> u16 \<Rightarrow> tpdo_config \<times> bytes \<times> bytes \<Rightarrow> tpdo_config \<times> bytes \<times> bytes" where
  "sync_tpdo_config ops od comm_idx map_idx s = (case s of (c, b4, b2) \<Rightarrow>
     let (ok1, b4) = try_read ops od comm_idx 1 b4;
         raw = from_le_bytes b4 :: u32;
         c = (if ok1 then c\<lparr>tc_enabled := cob_enabled raw, tc_cob_id := ucast (raw AND 0x7FF)\<rparr> else c);
         (ok2, b4) = try_read ops od comm_idx 2 b4;
         c = (if ok2 then c\<lparr>tc_transmission_type := b4 ! 0\<rparr> else c);
         (ok3, b2) = try_read ops od comm_idx 3 b2;
         c = (if ok3 then c\<lparr>tc_inhibit_time_100us := from_le_bytes b2\<rparr> else c);
         (ok5, b2) = try_read ops od comm_idx 5 b2;
         c = (if ok5 then c\<lparr>tc_event_timer_ms := from_le_bytes b2\<rparr> else c);
         (ms, b4) = sync_mappings ops od map_idx b4
     in (c\<lparr>tc_mappings := ms\<rparr>, b4, b2))"

definition sync_rpdo_config ::
  "'od od_ops \<Rightarrow> 'od \<Rightarrow> u16 \<Rightarrow> u16 \<Rightarrow> rpdo_config \<times> bytes \<times> bytes \<Rightarrow> rpdo_config \<times> bytes \<times> bytes" where
  "sync_rpdo_config ops od comm_idx map_idx s = (case s of (c, b4, b2) \<Rightarrow>
     let (ok1, b4) = try_read ops od comm_idx 1 b4;
         raw = from_le_bytes b4 :: u32;
         c = (if ok1 then c\<lparr>rc_enabled := cob_enabled raw, rc_cob_id := ucast (raw AND 0x7FF)\<rparr> else c);
         (ok2, b4) = try_read ops od comm_idx 2 b4;
         c = (if ok2 then c\<lparr>rc_transmission_type := b4 ! 0\<rparr> else c);
         (ok5, b2) = try_read ops od comm_idx 5 b2;
         c = (if ok5 then c\<lparr>rc_deadline_ms := from_le_bytes b2\<rparr> else c);
         (ms, b4) = sync_mappings ops od map_idx b4
     in (c\<lparr>rc_mappings := ms\<rparr>, b4, b2))"

definition sync_tpdo_slot ::
  "'od od_ops \<Rightarrow> 'od \<Rightarrow> nat \<Rightarrow> tpdo_config list \<times> bytes \<times> bytes
   \<Rightarrow> (tpdo_config list \<times> bytes \<times> bytes) option" where
  "sync_tpdo_slot ops od n s = (case s of (cs, b4, b2) \<Rightarrow> do {
     let off = pdo_od_offset (tc_od_number (cs ! n)) n;
     comm_idx \<leftarrow> add_u16 0x1800 off;
     map_idx \<leftarrow> add_u16 0x1A00 off;
     let (c, b4, b2) = sync_tpdo_config ops od comm_idx map_idx (cs ! n, b4, b2);
     Some (cs[n := c], b4, b2)
   })"

definition sync_rpdo_slot ::
  "'od od_ops \<Rightarrow> 'od \<Rightarrow> nat \<Rightarrow> rpdo_config list \<times> bytes \<times> bytes
   \<Rightarrow> (rpdo_config list \<times> bytes \<times> bytes) option" where
  "sync_rpdo_slot ops od n s = (case s of (cs, b4, b2) \<Rightarrow> do {
     let off = pdo_od_offset (rc_od_number (cs ! n)) n;
     comm_idx \<leftarrow> add_u16 0x1400 off;
     map_idx \<leftarrow> add_u16 0x1600 off;
     let (c, b4, b2) = sync_rpdo_config ops od comm_idx map_idx (cs ! n, b4, b2);
     Some (cs[n := c], b4, b2)
   })"

definition sync_pdo_from_od :: "'od od_ops \<Rightarrow> 'od node \<Rightarrow> 'od node option" where
  "sync_pdo_from_od ops nd = do {
     (ts, b4, b2) \<leftarrow> for_each (sync_tpdo_slot ops (nd_od nd)) (te_slots (nd_tpdo nd))
       (te_pdos (nd_tpdo nd), replicate 4 0, replicate 2 0);
     (rs, _, _) \<leftarrow> for_each (sync_rpdo_slot ops (nd_od nd)) (re_slots (nd_rpdo nd))
       (re_pdos (nd_rpdo nd), b4, b2);
     Some (nd\<lparr>nd_tpdo := (nd_tpdo nd)\<lparr>te_pdos := ts\<rparr>, nd_rpdo := (nd_rpdo nd)\<lparr>re_pdos := rs\<rparr>\<rparr>)
   }"

text \<open>The COB-IDs resolved at construction, written back to the communication records.\<close>

definition cob_entry :: "u16 \<Rightarrow> bool \<Rightarrow> u32" where
  "cob_entry cob enabled = ucast cob OR (if enabled then 0 else 0x80000000)"

definition write_pdo_cob_ids_to_od :: "'od od_ops \<Rightarrow> 'od node \<Rightarrow> 'od node option" where
  "write_pdo_cob_ids_to_od ops nd = do {
     od1 \<leftarrow> for_each (\<lambda>n od. do {
         let c = te_pdos (nd_tpdo nd) ! n;
         i \<leftarrow> add_u16 0x1800 (pdo_od_offset (tc_od_number c) n);
         Some (snd (od_write ops od i 1 (to_le_bytes 4 (cob_entry (tc_cob_id c) (tc_enabled c)))))
       }) (te_slots (nd_tpdo nd)) (nd_od nd);
     od2 \<leftarrow> for_each (\<lambda>n od. do {
         let c = re_pdos (nd_rpdo nd) ! n;
         i \<leftarrow> add_u16 0x1400 (pdo_od_offset (rc_od_number c) n);
         Some (snd (od_write ops od i 1 (to_le_bytes 4 (cob_entry (rc_cob_id c) (rc_enabled c)))))
       }) (re_slots (nd_rpdo nd)) od1;
     Some (nd\<lparr>nd_od := od2\<rparr>)
   }"

section \<open>Construction\<close>

definition node_init :: "node_config \<Rightarrow> 'od \<Rightarrow> 'od node" where
  "node_init config od = (let S = length (nc_sdo_servers config) in
     \<lparr>nd_node_id = nc_node_id config, nd_od = od, nd_nmt = nmt_new, nd_sdo_server = sdo_server_new,
      nd_sdo_tx = ptx_default, nd_extra_sdo = replicate S sdo_server_new,
      nd_extra_sdo_pending_tx = replicate S ptx_default,
      nd_extra_sdo_rx = map ssc_cob_rx (nc_sdo_servers config),
      nd_extra_sdo_tx = map ssc_cob_tx (nc_sdo_servers config),
      nd_tpdo = tpdo_engine_new (nc_tpdo config), nd_rpdo = rpdo_engine_new (nc_rpdo config),
      nd_sync = sync_consumer_default_cob, nd_sync_producer = sync_producer_new,
      nd_sync_window = sync_window_new, nd_pending_sync_tpdo = [], nd_sync_tpdo_last_attempt_us = None,
      nd_heartbeat = heartbeat_producer_new (nc_node_id config) (nc_heartbeat_interval_ms config),
      nd_hb_monitors = replicate MAX_HEARTBEAT_MONITORS None, nd_hb_event_queue = [],
      nd_emcy = emcy_producer_new (nc_node_id config),
      nd_lss = lss_new (nc_identity config) (node_raw (nc_node_id config)),
      nd_booted = False, nd_auto_start = nc_auto_start config, nd_event_queue = [],
      nd_dirty_set = [], nd_event_overflow_count = 0, nd_reset_event = None\<rparr>)"

definition node_new :: "'od od_ops \<Rightarrow> node_config \<Rightarrow> 'od \<Rightarrow> 'od node option" where
  "node_new ops config od = do {
     nd1 \<leftarrow> write_pdo_cob_ids_to_od ops (node_init config od);
     let nd2 = nd1\<lparr>nd_od := od_store_sdo_server_cob_ids ops (nd_od nd1) (nc_node_id config)\<rparr>;
     let nd3 = nd2\<lparr>nd_od := od_store_error_register ops (nd_od nd2) (ep_error_register (nd_emcy nd2))\<rparr>;
     nd4 \<leftarrow> sync_config_from_od ops (sync_heartbeat_from_od ops False nd3);
     assert_that (sdo_cob_ids_are_unique nd4);
     assert_that (sync_cob_id_is_unique nd4);
     Some nd4
   }"

section \<open>Leaving Operational, and resets\<close>

definition leave_operational :: "'od node \<Rightarrow> 'od node" where
  "leave_operational nd = nd\<lparr>nd_rpdo := discard_pending (reset_deadline_monitoring (nd_rpdo nd)),
     nd_tpdo := discard_async_events (discard_sync_events (nd_tpdo nd)), nd_dirty_set := [],
     nd_sync_window := sync_window_reset (nd_sync_window nd), nd_pending_sync_tpdo := [],
     nd_sync_tpdo_last_attempt_us := None\<rparr>"

definition reset_sync_state :: "'od od_ops \<Rightarrow> 'od node \<Rightarrow> 'od node option" where
  "reset_sync_state ops nd = do {
     nd1 \<leftarrow> sync_config_from_od ops nd;
     Some (nd1\<lparr>nd_sync := sync_consumer_reset (nd_sync nd1),
               nd_sync_producer := sync_producer_reset (nd_sync_producer nd1),
               nd_sync_window := sync_window_reset (nd_sync_window nd1),
               nd_pending_sync_tpdo := [], nd_sync_tpdo_last_attempt_us := None,
               nd_rpdo := reset_deadline_monitoring (discard_pending (nd_rpdo nd1)), nd_dirty_set := [],
               nd_tpdo := tpdo_reset_communication_state (nd_tpdo nd1)\<rparr>)
   }"

definition abort_all_sdo_transfers :: "'od node \<Rightarrow> 'od node" where
  "abort_all_sdo_transfers nd = nd\<lparr>nd_sdo_server := abort_transfer (nd_sdo_server nd),
     nd_sdo_tx := ptx_default, nd_extra_sdo := map abort_transfer (nd_extra_sdo nd),
     nd_extra_sdo_pending_tx := map (\<lambda>_. ptx_default) (nd_extra_sdo_pending_tx nd)\<rparr>"

text \<open>The sequence shared by both resets, whether commanded or requested.\<close>

definition reset_communication :: "'od od_ops \<Rightarrow> reset_type \<Rightarrow> 'od node \<Rightarrow> 'od node option" where
  "reset_communication ops rt nd = do {
     nd1 \<leftarrow> sync_pdo_from_od ops (abort_all_sdo_transfers (nd\<lparr>nd_reset_event := Some rt, nd_booted := False\<rparr>));
     reset_sync_state ops (sync_heartbeat_from_od ops False nd1)
   }"

definition request_reset :: "'od od_ops \<Rightarrow> reset_type \<Rightarrow> 'od node \<Rightarrow> 'od node option" where
  "request_reset ops rt nd = do {
     nd1 \<leftarrow> reset_communication ops rt nd;
     Some (nd1\<lparr>nd_nmt := nmt_new\<rparr>)
   }"

definition take_reset_event :: "'od node \<Rightarrow> reset_type option \<times> 'od node" where
  "take_reset_event nd = (nd_reset_event nd, nd\<lparr>nd_reset_event := None\<rparr>)"

section \<open>Changes made by the application\<close>

definition node_notify_changed :: "nat \<Rightarrow> u16 \<Rightarrow> u8 \<Rightarrow> 'od node \<Rightarrow> 'od node" where
  "node_notify_changed D index subindex nd =
     nd\<lparr>nd_tpdo := notify_changed index subindex (nd_tpdo nd),
        nd_dirty_set := (if (index, subindex) \<in> set (nd_dirty_set nd) then nd_dirty_set nd
                         else push_back D (nd_dirty_set nd) (index, subindex))\<rparr>"

definition mirror_error_register :: "'od od_ops \<Rightarrow> nat \<Rightarrow> 'od node \<Rightarrow> 'od node" where
  "mirror_error_register ops D nd =
     (let val = ep_error_register (nd_emcy nd);
          changed = \<not> (case od_read ops (nd_od nd) 0x1001 0 (replicate 8 0) of
            (Inr n, old) \<Rightarrow> n = 1 \<and> old ! 0 = val | (Inl _, _) \<Rightarrow> False);
          nd1 = nd\<lparr>nd_od := od_store_error_register ops (nd_od nd) val\<rparr>
      in if changed then node_notify_changed D 0x1001 0 nd1 else nd1)"

definition node_set_error :: "'od od_ops \<Rightarrow> nat \<Rightarrow> u16 \<Rightarrow> u8 \<Rightarrow> bytes \<Rightarrow> 'od node \<Rightarrow> 'od node option" where
  "node_set_error ops D code bits vendor nd = do {
     p \<leftarrow> set_error (nd_emcy nd) code bits vendor;
     Some (mirror_error_register ops D (nd\<lparr>nd_emcy := p\<rparr>))
   }"

definition node_clear_error :: "'od od_ops \<Rightarrow> nat \<Rightarrow> u8 \<Rightarrow> 'od node \<Rightarrow> 'od node option" where
  "node_clear_error ops D bits nd = do {
     p \<leftarrow> clear_error (nd_emcy nd) bits;
     Some (mirror_error_register ops D (nd\<lparr>nd_emcy := p\<rparr>))
   }"

definition clear_all_errors :: "'od od_ops \<Rightarrow> nat \<Rightarrow> 'od node \<Rightarrow> 'od node option" where
  "clear_all_errors ops D nd = do {
     p \<leftarrow> clear_all (nd_emcy nd);
     Some (mirror_error_register ops D (nd\<lparr>nd_emcy := p\<rparr>))
   }"

text \<open>The guard's comparison of one mapped object with the snapshot.\<close>

definition object_changed :: "'od od_ops \<Rightarrow> 'od \<Rightarrow> 'od \<Rightarrow> pdo_mapping \<Rightarrow> bool option" where
  "object_changed ops snapshot od m =
     (let (r_old, old) = od_read ops snapshot (pm_index m) (pm_subindex m) (replicate 8 0);
          (r_new, new) = od_read ops od (pm_index m) (pm_subindex m) (replicate 8 0);
          old_len = (case r_old of Inr n \<Rightarrow> n | Inl _ \<Rightarrow> 0);
          new_len = (case r_new of Inr n \<Rightarrow> n | Inl _ \<Rightarrow> 0)
      in if old_len \<noteq> new_len then Some True
         else do { a \<leftarrow> slice old 0 old_len; b \<leftarrow> slice new 0 new_len; Some (a \<noteq> b) })"

fun any_changed :: "'od od_ops \<Rightarrow> 'od \<Rightarrow> 'od \<Rightarrow> pdo_mapping list \<Rightarrow> bool option" where
  "any_changed ops snapshot od [] = Some False"
| "any_changed ops snapshot od (m # ms) = do {
     c \<leftarrow> object_changed ops snapshot od m;
     if c then Some True else any_changed ops snapshot od ms
   }"

text \<open>
  Dropping the guard: first every TPDO is compared with the snapshot, then the changed ones
  are latched.
\<close>

definition od_guard_drop :: "'od od_ops \<Rightarrow> 'od \<Rightarrow> 'od node \<Rightarrow> 'od node option" where
  "od_guard_drop ops snapshot nd = do {
     changed \<leftarrow> for_each (\<lambda>slot cs. do {
         c \<leftarrow> any_changed ops snapshot (nd_od nd) (tc_mappings (te_pdos (nd_tpdo nd) ! slot));
         Some (cs @ [c])
       }) (te_slots (nd_tpdo nd)) [];
     Some (nd\<lparr>nd_tpdo := fold (\<lambda>slot e. if changed ! slot then latch_slot_event slot e else e)
                               (te_slots (nd_tpdo nd)) (nd_tpdo nd)\<rparr>)
   }"

section \<open>Queries and event queues\<close>

definition next_event :: "'od node \<Rightarrow> od_event option \<times> 'od node" where
  "next_event nd = (case nd_event_queue nd of
     [] \<Rightarrow> (None, nd) | e # es \<Rightarrow> (Some e, nd\<lparr>nd_event_queue := es\<rparr>))"

text \<open>\<open>next_change\<close>; \<open>decode\<close> is the dictionary's \<open>decode_event\<close>.\<close>

fun next_change_queue :: "(od_event \<Rightarrow> 'c option) \<Rightarrow> od_event list \<Rightarrow> 'c option \<times> od_event list" where
  "next_change_queue decode [] = (None, [])"
| "next_change_queue decode (e # es) =
     (case decode e of Some c \<Rightarrow> (Some c, es) | None \<Rightarrow> next_change_queue decode es)"

definition next_change :: "('od \<Rightarrow> od_event \<Rightarrow> 'c option) \<Rightarrow> 'od node \<Rightarrow> 'c option \<times> 'od node" where
  "next_change decode nd = (case next_change_queue (decode (nd_od nd)) (nd_event_queue nd) of
     (c, q) \<Rightarrow> (c, nd\<lparr>nd_event_queue := q\<rparr>))"

definition next_heartbeat_event :: "'od node \<Rightarrow> heartbeat_event option \<times> 'od node" where
  "next_heartbeat_event nd = (case nd_hb_event_queue nd of
     [] \<Rightarrow> (None, nd) | e # es \<Rightarrow> (Some e, nd\<lparr>nd_hb_event_queue := es\<rparr>))"

definition node_tpdo_cob_id :: "'od node \<Rightarrow> pdo_number \<Rightarrow> cob_id option" where
  "node_tpdo_cob_id nd number = (case tpdo_config_of (nd_tpdo nd) number of
     Some c \<Rightarrow> if tc_cob_id c \<noteq> 0 then cob_id_new (tc_cob_id c) else None | None \<Rightarrow> None)"

definition node_rpdo_cob_id :: "'od node \<Rightarrow> pdo_number \<Rightarrow> cob_id option" where
  "node_rpdo_cob_id nd number = (case rpdo_config_of (nd_rpdo nd) number of
     Some c \<Rightarrow> if rc_cob_id c \<noteq> 0 then cob_id_new (rc_cob_id c) else None | None \<Rightarrow> None)"

definition heartbeat_status :: "'od node \<Rightarrow> node_id \<Rightarrow> heartbeat_monitor_state" where
  "heartbeat_status nd node = (case find (\<lambda>m. hm_node_id m = node) (monitors nd) of
     Some m \<Rightarrow> hm_state m | None \<Rightarrow> MonDisabled)"

end
