(* ===== verification/Node_Process.thy ===== *)
theory Node_Process
  imports Node_State
begin

text \<open>
  The node's processing cycle (\<open>canopen-core/src/node.rs\<close>): SDO requests, SYNC pulses,
  frame dispatch and \<open>process\<close>. The transport is a parameter, as in the source; a result
  is the node with the transport, \<open>None\<close> a panic. \<open>N\<close> is the capacity of the
  event queue.
\<close>

section \<open>SDO requests\<close>

datatype sdo_server_sel = DefaultServer | ExtraServer nat

definition sel_server :: "sdo_server_sel \<Rightarrow> 'od node \<Rightarrow> sdo_server" where
  "sel_server sel nd = (case sel of DefaultServer \<Rightarrow> nd_sdo_server nd | ExtraServer i \<Rightarrow> nd_extra_sdo nd ! i)"

definition sel_tx :: "sdo_server_sel \<Rightarrow> 'od node \<Rightarrow> pending_sdo_tx" where
  "sel_tx sel nd = (case sel of DefaultServer \<Rightarrow> nd_sdo_tx nd | ExtraServer i \<Rightarrow> nd_extra_sdo_pending_tx nd ! i)"

definition sel_cob :: "sdo_server_sel \<Rightarrow> 'od node \<Rightarrow> u16" where
  "sel_cob sel nd = (case sel of
     DefaultServer \<Rightarrow> cob_raw (cob_sdo_tx (nd_node_id nd)) | ExtraServer i \<Rightarrow> nd_extra_sdo_tx nd ! i)"

definition put_server :: "sdo_server_sel \<Rightarrow> sdo_server \<Rightarrow> 'od node \<Rightarrow> 'od node" where
  "put_server sel srv nd = (case sel of
     DefaultServer \<Rightarrow> nd\<lparr>nd_sdo_server := srv\<rparr>
   | ExtraServer i \<Rightarrow> nd\<lparr>nd_extra_sdo := (nd_extra_sdo nd)[i := srv]\<rparr>)"

definition put_tx :: "sdo_server_sel \<Rightarrow> pending_sdo_tx \<Rightarrow> 'od node \<Rightarrow> 'od node" where
  "put_tx sel p nd = (case sel of
     DefaultServer \<Rightarrow> nd\<lparr>nd_sdo_tx := p\<rparr>
   | ExtraServer i \<Rightarrow> nd\<lparr>nd_extra_sdo_pending_tx := (nd_extra_sdo_pending_tx nd)[i := p]\<rparr>)"

definition node_context :: "'od od_ops \<Rightarrow> 'od node \<Rightarrow> u64 \<Rightarrow> sdo_context" where
  "node_context ops nd now = (case node_reserved_cob_ids nd of (reserved, complete) \<Rightarrow>
     \<lparr>ctx_nmt_state = nd_state nd, ctx_now_us = now,
      ctx_heartbeat_consumer_count =
        min (case od_sub_count ops (nd_od nd) 0x1016 of Some c \<Rightarrow> c | None \<Rightarrow> 0) (of_nat MAX_HEARTBEAT_MONITORS),
      ctx_cob_ids = nd_sdo_cob_ids nd,
      ctx_reserved_cob_ids = \<lparr>reserved_ids = reserved, reserved_truncated = \<not> complete\<rparr>,
      ctx_sync_cob_id = nd_sync_cob nd\<rparr>)"

text \<open>The services re-read after a committed download.\<close>

definition resync_committed :: "'od od_ops \<Rightarrow> u16 \<Rightarrow> 'od node \<Rightarrow> 'od node option" where
  "resync_committed ops index nd = do {
     nd1 \<leftarrow> (if 0x1400 \<le> index \<and> index \<le> 0x1BFF then sync_pdo_from_od ops nd else Some nd);
     let nd2 = (if index = 0x1016 \<or> index = 0x1017 then sync_heartbeat_from_od ops True nd1 else nd1);
     if index = 0x1005 \<or> index = 0x1006 \<or> index = 0x1007 \<or> index = 0x1019
     then sync_config_from_od ops nd2 else Some nd2
   }"

text \<open>
  Taking the committed write, counting the event that a full queue lost, and the resync.
\<close>

definition finish_request :: "'od od_ops \<Rightarrow> sdo_server_sel \<Rightarrow> bool \<Rightarrow> 'od node \<Rightarrow> 'od node option" where
  "finish_request ops sel was_full nd =
     (case take_committed_write (sel_server sel nd) of (committed, srv) \<Rightarrow>
      let nd1 = put_server sel srv nd;
          nd2 = (if was_full \<and> committed \<noteq> None
                 then nd1\<lparr>nd_event_overflow_count := saturating_add (nd_event_overflow_count nd1) 1\<rparr> else nd1)
      in case committed of None \<Rightarrow> Some nd2 | Some (index, _) \<Rightarrow> resync_committed ops index nd2)"

definition handle_sdo_request ::
  "nat \<Rightarrow> 'od od_ops \<Rightarrow> 't can_ops \<Rightarrow> sdo_server_sel \<Rightarrow> can_frame \<Rightarrow> u64 \<Rightarrow> 'od node \<times> 't
   \<Rightarrow> ('od node \<times> 't) option" where
  "handle_sdo_request N ops tops sel f now s = (case s of (nd, t) \<Rightarrow>
     if \<not> sdo_available (nd_state nd) \<or> raw_dlc f \<noteq> 8 then Some (nd, t)
     else do {
       let req = frame_data f;
       assert_that (length req = 8);
       if req ! 0 \<noteq> 0x80 \<and> ptx_frame (sel_tx sel nd) \<noteq> None then Some (nd, t)
       else do {
         let nd1 = (if req ! 0 = 0x80 then put_tx sel ((sel_tx sel nd)\<lparr>ptx_frame := None\<rparr>) nd else nd);
         let was_full = (length (nd_event_queue nd1) \<ge> N);
         (ok, io) \<leftarrow> process_with_context N ops req (node_context ops nd1 now)
           \<lparr>io_server = sel_server sel nd1, io_od = nd_od nd1, io_response = replicate 8 0,
            io_events = nd_event_queue nd1\<rparr>;
         let nd2 = put_server sel (io_server io) (nd1\<lparr>nd_od := io_od io, nd_event_queue := io_events io\<rparr>);
         let (p, t') = (if ok
           then ptx_try_send tops (ptx_queue (sel_tx sel nd2) (sel_cob sel nd2) (io_response io) now, t)
           else (sel_tx sel nd2, t));
         nd3 \<leftarrow> finish_request ops sel was_full (put_tx sel p nd2);
         Some (nd3, t')
       }
     })"

section \<open>SYNC\<close>

text \<open>Offer frames to the transport; the refused ones are kept (capacity: the TPDO count).\<close>

fun transmit_all ::
  "'t can_ops \<Rightarrow> nat \<Rightarrow> can_frame list \<Rightarrow> can_frame list \<times> 't \<Rightarrow> can_frame list \<times> 't" where
  "transmit_all tops cap [] s = s"
| "transmit_all tops cap (f # fs) (refused, t) = (case can_transmit tops t f of (r, t') \<Rightarrow>
     transmit_all tops cap fs (if is_ok r then refused else push_back cap refused f, t'))"

abbreviation tpdo_count :: "'od node \<Rightarrow> nat" where
  "tpdo_count nd \<equiv> length (te_pdos (nd_tpdo nd))"

definition handle_sync ::
  "nat \<Rightarrow> 'od od_ops \<Rightarrow> 't can_ops \<Rightarrow> u64 \<Rightarrow> 'od node \<times> 't \<Rightarrow> ('od node \<times> 't) option" where
  "handle_sync N ops tops now s = (case s of (nd, t) \<Rightarrow>
     if nd_state nd \<noteq> Operational then Some (nd, t)
     else do {
       let nd1 = nd\<lparr>nd_pending_sync_tpdo := [], nd_sync_window := sync_window_open (nd_sync_window nd) now,
                    nd_sync_tpdo_last_attempt_us := Some now\<rparr>;
       (rpdo, od, events, dropped) \<leftarrow> rpdo_on_sync N ops (nd_rpdo nd1) (nd_od nd1) (nd_event_queue nd1);
       let nd2 = nd1\<lparr>nd_rpdo := rpdo, nd_od := od, nd_event_queue := events,
                     nd_event_overflow_count := saturating_add (nd_event_overflow_count nd1) dropped\<rparr>;
       (tpdo, out) \<leftarrow> tpdo_on_sync ops (nd_od nd2) (nd_tpdo nd2) [];
       let nd3 = nd2\<lparr>nd_tpdo := tpdo\<rparr>;
       let (refused, t') = transmit_all tops (tpdo_count nd3) out (nd_pending_sync_tpdo nd3, t);
       Some (nd3\<lparr>nd_pending_sync_tpdo := refused,
                 nd_sync_tpdo_last_attempt_us :=
                   (if refused = [] then None else nd_sync_tpdo_last_attempt_us nd3)\<rparr>, t')
     })"

definition retry_pending_sync_tpdo :: "'t can_ops \<Rightarrow> u64 \<Rightarrow> 'od node \<times> 't \<Rightarrow> 'od node \<times> 't" where
  "retry_pending_sync_tpdo tops now s = (case s of (nd, t) \<Rightarrow>
     if nd_pending_sync_tpdo nd = [] then (nd, t)
     else if nd_state nd \<noteq> Operational \<or> \<not> allows_transmit (nd_sync_window nd) now
     then (nd\<lparr>nd_pending_sync_tpdo := [], nd_sync_tpdo_last_attempt_us := None\<rparr>, t)
     else if nd_sync_tpdo_last_attempt_us nd = Some now then (nd, t)
     else case transmit_all tops (tpdo_count nd) (nd_pending_sync_tpdo nd) ([], t) of (refused, t') \<Rightarrow>
       (nd\<lparr>nd_pending_sync_tpdo := refused,
           nd_sync_tpdo_last_attempt_us := (if refused = [] then None else Some now)\<rparr>, t'))"

section \<open>Dispatch\<close>

definition process_rpdo_frame :: "nat \<Rightarrow> 'od od_ops \<Rightarrow> can_frame \<Rightarrow> u64 \<Rightarrow> 'od node \<Rightarrow> 'od node option" where
  "process_rpdo_frame N ops f now nd =
     (if nd_state nd = Operational then do {
        (_, dropped, rpdo, od, events) \<leftarrow> rpdo_process N ops f now (nd_rpdo nd) (nd_od nd) (nd_event_queue nd);
        Some (nd\<lparr>nd_rpdo := rpdo, nd_od := od, nd_event_queue := events,
                 nd_event_overflow_count := saturating_add (nd_event_overflow_count nd) dropped\<rparr>)
      } else Some nd)"

text \<open>Queue a heartbeat event, evicting (and counting) the oldest of a full queue.\<close>

definition push_hb_event :: "heartbeat_event \<Rightarrow> 'od node \<Rightarrow> 'od node" where
  "push_hb_event e nd = nd\<lparr>nd_hb_event_queue := push_evict HB_EVENT_QUEUE (nd_hb_event_queue nd) e,
     nd_event_overflow_count := (if length (nd_hb_event_queue nd) \<ge> HB_EVENT_QUEUE
       then saturating_add (nd_event_overflow_count nd) 1 else nd_event_overflow_count nd)\<rparr>"

definition dispatch_nmt :: "'od od_ops \<Rightarrow> can_frame \<Rightarrow> 'od node \<Rightarrow> 'od node option" where
  "dispatch_nmt ops f nd =
     (if raw_dlc f \<noteq> 2 then Some nd
      else case frame_data f of
        b0 # b1 # _ \<Rightarrow> (case nmt_from_byte b0 of
            None \<Rightarrow> Some nd
          | Some cmd \<Rightarrow> (case process_command (nd_nmt nd) cmd b1 (nd_node_id nd) of (transition, h) \<Rightarrow>
              let nd1 = nd\<lparr>nd_nmt := h\<rparr> in
              (case transition of
                 TransResetApplication \<Rightarrow> reset_communication ops RstApplication nd1
               | TransResetCommunication \<Rightarrow> reset_communication ops RstCommunication nd1
               | StateChanged \<Rightarrow>
                   Some (if nd_state nd1 \<noteq> Operational then
                           (let nd2 = leave_operational nd1 in
                            if nd_state nd2 = Stopped then abort_all_sdo_transfers nd2 else nd2)
                         else nd1)
               | NoTransition \<Rightarrow> Some nd1)))
      | _ \<Rightarrow> None)"

text \<open>The first monitor slot whose heartbeat COB-ID the frame has; only for one-byte frames.\<close>

definition monitor_slot_for :: "can_frame \<Rightarrow> 'od node \<Rightarrow> nat option" where
  "monitor_slot_for f nd = (if raw_dlc f = 1
     then find (\<lambda>i. case nd_hb_monitors nd ! i of
                  Some m \<Rightarrow> cob_raw (cob_heartbeat (hm_node_id m)) = raw_id f | None \<Rightarrow> False)
            [0..<length (nd_hb_monitors nd)]
     else None)"

definition dispatch_heartbeat :: "nat \<Rightarrow> can_frame \<Rightarrow> u64 \<Rightarrow> 'od node \<Rightarrow> 'od node option" where
  "dispatch_heartbeat slot f now nd = (case (nd_hb_monitors nd ! slot, frame_data f) of
     (Some m, b # _) \<Rightarrow> (case monitor_process m (hm_node_id m) b now [] of (_, m', events) \<Rightarrow>
        Some (fold push_hb_event events (nd\<lparr>nd_hb_monitors := (nd_hb_monitors nd)[slot := Some m']\<rparr>)))
   | _ \<Rightarrow> None)"

definition dispatch_frame ::
  "nat \<Rightarrow> 'od od_ops \<Rightarrow> 't can_ops \<Rightarrow> can_frame \<Rightarrow> u64 \<Rightarrow> 'od node \<times> 't \<Rightarrow> ('od node \<times> 't) option" where
  "dispatch_frame N ops tops f now s = (case s of (nd, t) \<Rightarrow>
     case find (\<lambda>i. nd_extra_sdo_rx nd ! i = raw_id f) [0..<length (nd_extra_sdo nd)] of
       Some i \<Rightarrow> handle_sdo_request N ops tops (ExtraServer i) f now (nd, t)
     | None \<Rightarrow>
       if sync_consumer_cob_id (nd_sync nd) = Some (raw_id f) then
         (case sync_consumer_process (nd_sync nd) f of (r, c) \<Rightarrow>
            let nd1 = nd\<lparr>nd_sync := c\<rparr> in
            if r \<noteq> None then handle_sync N ops tops now (nd1, t) else Some (nd1, t))
       else if raw_id f = cob_raw cob_nmt then map_option (\<lambda>nd. (nd, t)) (dispatch_nmt ops f nd)
       else if raw_id f = cob_raw (cob_sdo_rx (nd_node_id nd))
       then handle_sdo_request N ops tops DefaultServer f now (nd, t)
       else if raw_id f = LSS_REQUEST_COB then
         (case lss_process (nd_lss nd) f of (resp, l) \<Rightarrow>
            Some (nd\<lparr>nd_lss := l\<rparr>, case resp of Some r \<Rightarrow> snd (can_transmit tops t r) | None \<Rightarrow> t))
       else map_option (\<lambda>nd. (nd, t))
         (case monitor_slot_for f nd of
            Some slot \<Rightarrow> dispatch_heartbeat slot f now nd
          | None \<Rightarrow> process_rpdo_frame N ops f now nd))"

section \<open>The processing cycle\<close>

text \<open>
  The receive loop. It ends when the transport reports an error, so it is defined as a partial
  function; \<open>None\<close> is a panic of a handler or a transport that never stops delivering.
\<close>

partial_function (option) drain_incoming ::
  "nat \<Rightarrow> 'od od_ops \<Rightarrow> 't can_ops \<Rightarrow> u64 \<Rightarrow> 'od node \<times> 't \<Rightarrow> ('od node \<times> 't) option" where
  [code]: "drain_incoming N ops tops now s = (case s of (nd, t) \<Rightarrow>
     case can_receive tops t of
       (Inl _, t') \<Rightarrow> Some (nd, t')
     | (Inr f, t') \<Rightarrow> Option.bind (dispatch_frame N ops tops f now (nd, t')) (drain_incoming N ops tops now))"

text \<open>The boot sequence; the flag says whether the cycle goes on.\<close>

definition boot_sequence :: "'t can_ops \<Rightarrow> u64 \<Rightarrow> 'od node \<times> 't \<Rightarrow> (bool \<times> 'od node \<times> 't) option" where
  "boot_sequence tops now s = (case s of (nd, t) \<Rightarrow>
     if nd_booted nd then Some (True, nd, t)
     else do {
       (boot_frame, hb) \<leftarrow> send_boot (nd_heartbeat nd) now;
       let nd1 = nd\<lparr>nd_heartbeat := hb\<rparr>;
       let (r, t') = can_transmit tops t boot_frame;
       if r = Inl WouldBlock then Some (False, nd1, t')
       else
         let nd2 = nd1\<lparr>nd_booted := True, nd_nmt := boot_complete (nd_nmt nd1)\<rparr>;
             nd3 = (if nd_auto_start nd2
                    then nd2\<lparr>nd_nmt := snd (process_command (nd_nmt nd2) StartRemoteNode 0 (nd_node_id nd2))\<rparr>
                    else nd2)
         in Some (True, nd3, t')
     })"

text \<open>\<open>begin_poll\<close> and \<open>service\<close> on every SDO channel, the default one first.\<close>

definition begin_poll_sel :: "u64 \<Rightarrow> sdo_server_sel \<Rightarrow> 'od node \<Rightarrow> 'od node" where
  "begin_poll_sel now sel nd = (case ptx_begin_poll (sel_cob sel nd) now (sel_tx sel nd, sel_server sel nd) of
     (p, srv) \<Rightarrow> put_tx sel p (put_server sel srv nd))"

definition service_sel ::
  "'t can_ops \<Rightarrow> u64 \<Rightarrow> sdo_server_sel \<Rightarrow> 'od node \<times> 't \<Rightarrow> ('od node \<times> 't) option" where
  "service_sel tops now sel s = (case s of (nd, t) \<Rightarrow> do {
     (p, srv, t') \<leftarrow> ptx_service tops (sel_cob sel nd) now (sel_tx sel nd, sel_server sel nd, t);
     Some (put_tx sel p (put_server sel srv nd), t')
   })"

definition all_servers :: "'od node \<Rightarrow> sdo_server_sel list" where
  "all_servers nd = DefaultServer # map ExtraServer [0..<length (nd_extra_sdo nd)]"

definition produce_sync ::
  "nat \<Rightarrow> 'od od_ops \<Rightarrow> 't can_ops \<Rightarrow> u64 \<Rightarrow> 'od node \<times> 't \<Rightarrow> ('od node \<times> 't) option" where
  "produce_sync N ops tops now s = (case s of (nd, t) \<Rightarrow>
     if nd_booted nd \<and> nd_state nd \<noteq> Stopped then
       (case sync_producer_poll (nd_sync_producer nd) now of (r, p) \<Rightarrow>
          let nd1 = nd\<lparr>nd_sync_producer := p\<rparr> in
          (case r of
             None \<Rightarrow> Some (nd1, t)
           | Some f \<Rightarrow> (case can_transmit tops t f of (ok, t') \<Rightarrow>
               if is_ok ok
               then handle_sync N ops tops now
                      (nd1\<lparr>nd_sync_producer := sync_producer_confirm_sent (nd_sync_producer nd1) now\<rparr>, t')
               else Some (nd1, t'))))
     else Some (nd, t))"

definition push_deadline_event :: "nat \<Rightarrow> pdo_number \<Rightarrow> 'od node \<Rightarrow> 'od node option" where
  "push_deadline_event N number nd = do {
     i \<leftarrow> add_u16 0x1400 (od_offset number);
     Some (nd\<lparr>nd_event_queue := push_evict N (nd_event_queue nd)
                \<lparr>ev_index = i, ev_subindex = 0, ev_source = SrcRpdoDeadline\<rparr>,
              nd_event_overflow_count := (if length (nd_event_queue nd) \<ge> N
                then saturating_add (nd_event_overflow_count nd) 1 else nd_event_overflow_count nd)\<rparr>)
   }"

definition monitor_deadlines :: "nat \<Rightarrow> u64 \<Rightarrow> 'od node \<Rightarrow> 'od node option" where
  "monitor_deadlines N now nd =
     (if nd_state nd = Operational then
        (case check_deadlines now (nd_rpdo nd) [] of (rpdo, expired) \<Rightarrow>
           for_each (push_deadline_event N) expired (nd\<lparr>nd_rpdo := rpdo\<rparr>))
      else Some (leave_operational nd))"

definition produce_heartbeat :: "'t can_ops \<Rightarrow> u64 \<Rightarrow> 'od node \<times> 't \<Rightarrow> ('od node \<times> 't) option" where
  "produce_heartbeat tops now s = (case s of (nd, t) \<Rightarrow>
     if nd_booted nd then do {
       r \<leftarrow> heartbeat_pending (nd_heartbeat nd) now (nd_state nd);
       case r of
         None \<Rightarrow> Some (nd, t)
       | Some hb \<Rightarrow> (case can_transmit tops t hb of (ok, t') \<Rightarrow>
           Some (if is_ok ok then nd\<lparr>nd_heartbeat := heartbeat_confirm_sent (nd_heartbeat nd) now\<rparr> else nd, t'))
     } else Some (nd, t))"

definition check_monitor :: "u64 \<Rightarrow> nat \<Rightarrow> 'od node \<Rightarrow> 'od node" where
  "check_monitor now slot nd = (case nd_hb_monitors nd ! slot of
     None \<Rightarrow> nd
   | Some m \<Rightarrow> (case monitor_check_timeout m now of (r, m') \<Rightarrow>
       let nd1 = nd\<lparr>nd_hb_monitors := (nd_hb_monitors nd)[slot := Some m']\<rparr> in
       (case r of None \<Rightarrow> nd1 | Some e \<Rightarrow> push_hb_event e nd1)))"

definition check_monitors :: "u64 \<Rightarrow> 'od node \<Rightarrow> 'od node" where
  "check_monitors now nd = fold (check_monitor now) [0..<length (nd_hb_monitors nd)] nd"

text \<open>\<open>while let Some(frame) = peek_pending() { transmit or break; take_pending() }\<close>.\<close>

function emcy_drain :: "'t can_ops \<Rightarrow> emcy_producer \<times> 't \<Rightarrow> emcy_producer \<times> 't" where
  "emcy_drain tops (p, t) = (case peek_pending p of
     None \<Rightarrow> (p, t)
   | Some f \<Rightarrow> (case can_transmit tops t f of (r, t') \<Rightarrow>
       if is_ok r then emcy_drain tops (snd (take_pending p), t') else (p, t')))"
  by pat_completeness auto
termination
  by (relation "measure (\<lambda>(tops, p, t). length (ep_pending p))")
    (auto simp: peek_pending_def take_pending_def split: list.splits)

definition send_emcy :: "'t can_ops \<Rightarrow> 'od node \<times> 't \<Rightarrow> 'od node \<times> 't" where
  "send_emcy tops s = (case s of (nd, t) \<Rightarrow>
     if nd_booted nd \<and> (nd_state nd = PreOperational \<or> nd_state nd = Operational)
     then (case emcy_drain tops (nd_emcy nd, t) of (p, t') \<Rightarrow> (nd\<lparr>nd_emcy := p\<rparr>, t'))
     else (nd, t))"

definition poll_tpdos :: "'od od_ops \<Rightarrow> 't can_ops \<Rightarrow> u64 \<Rightarrow> 'od node \<times> 't \<Rightarrow> ('od node \<times> 't) option" where
  "poll_tpdos ops tops now s = (case s of (nd, t) \<Rightarrow>
     if nd_state nd = Operational then do {
       (e, t') \<leftarrow> tpdo_poll_with ops (nd_od nd) now (nd_dirty_set nd)
         (\<lambda>t f. case can_transmit tops t f of (r, t') \<Rightarrow> (is_ok r, t')) (nd_tpdo nd) t;
       Some (nd\<lparr>nd_tpdo := e\<rparr>, t')
     } else Some (nd, t))"

text \<open>The part of \<open>process\<close> after the boot sequence.\<close>

definition process_booted ::
  "nat \<Rightarrow> 'od od_ops \<Rightarrow> 't can_ops \<Rightarrow> u64 \<Rightarrow> 'od node \<times> 't \<Rightarrow> ('od node \<times> 't) option" where
  "process_booted N ops tops now s = (case s of (nd, t) \<Rightarrow> do {
     let nd1 = nd\<lparr>nd_tpdo := latch_sync_events (nd_dirty_set nd) (nd_tpdo nd)\<rparr>;
     let nd2 = fold (begin_poll_sel now) (all_servers nd1) nd1;
     (nd3, t3) \<leftarrow> drain_incoming N ops tops now (nd2, t);
     s4 \<leftarrow> for_each (service_sel tops now) (all_servers nd3) (nd3, t3);
     s5 \<leftarrow> produce_sync N ops tops now s4;
     let (nd6, t6) = retry_pending_sync_tpdo tops now s5;
     nd7 \<leftarrow> monitor_deadlines N now nd6;
     (nd8, t8) \<leftarrow> produce_heartbeat tops now (nd7, t6);
     let s9 = send_emcy tops (check_monitors now nd8, t8);
     (nd10, t10) \<leftarrow> poll_tpdos ops tops now s9;
     Some (nd10\<lparr>nd_dirty_set := []\<rparr>, t10)
   })"

definition process ::
  "nat \<Rightarrow> 'od od_ops \<Rightarrow> 't can_ops \<Rightarrow> u64 \<Rightarrow> 'od node \<times> 't \<Rightarrow> ('od node \<times> 't) option" where
  "process N ops tops now s = do {
     (go, nd, t) \<leftarrow> boot_sequence tops now s;
     if go then process_booted N ops tops now (nd, t) else Some (nd, t)
   }"

end
