(* ===== verification/Node_Inv.thy ===== *)
theory Node_Inv
  imports Node_Process Od_Mapping
begin

unbundle bit_operations_syntax

text \<open>
  The node's invariant, and that construction establishes it and the operations of the
  application keep it; the abstract machine of the node's life cycle.
\<close>

section \<open>Well-formed nodes\<close>

definition wf_sdo :: "'od node \<Rightarrow> bool" where
  "wf_sdo nd \<longleftrightarrow> wf_server (nd_sdo_server nd) \<and> (\<forall>srv \<in> set (nd_extra_sdo nd). wf_server srv)
     \<and> length (nd_extra_sdo_pending_tx nd) = length (nd_extra_sdo nd)
     \<and> length (nd_extra_sdo_rx nd) = length (nd_extra_sdo nd)
     \<and> length (nd_extra_sdo_tx nd) = length (nd_extra_sdo nd) \<and> 0 \<notin> set (nd_extra_sdo_rx nd)"

definition offsets_ok :: "u16 list \<Rightarrow> bool" where
  "offsets_ok ns \<longleftrightarrow> (\<forall>i < length ns. unat (pdo_od_offset (ns ! i) i) < 512)"

definition wf_pdo :: "'od node \<Rightarrow> bool" where
  "wf_pdo nd \<longleftrightarrow> wf_tpdo_engine (nd_tpdo nd) \<and> wf_rpdo_engine (nd_rpdo nd)
     \<and> offsets_ok (map tc_od_number (te_pdos (nd_tpdo nd))) \<and> offsets_ok (map rc_od_number (re_pdos (nd_rpdo nd)))
     \<and> length (nd_pending_sync_tpdo nd) \<le> tpdo_count nd"

definition wf_hb :: "'od node \<Rightarrow> bool" where
  "wf_hb nd \<longleftrightarrow> hp_node_id (nd_heartbeat nd) = nd_node_id nd
     \<and> length (nd_hb_monitors nd) = MAX_HEARTBEAT_MONITORS \<and> length (nd_hb_event_queue nd) \<le> HB_EVENT_QUEUE"

definition wf_nd :: "('od \<Rightarrow> bool) \<Rightarrow> nat \<Rightarrow> 'od node \<Rightarrow> bool" where
  "wf_nd od_inv N nd \<longleftrightarrow> wf_node (nd_node_id nd) \<and> od_inv (nd_od nd) \<and> wf_sdo nd \<and> wf_pdo nd \<and> wf_hb nd
     \<and> emcy_inv (nd_emcy nd) \<and> length (nd_event_queue nd) \<le> N"

lemmas wf_nd_defs = wf_nd_def wf_sdo_def wf_pdo_def wf_hb_def

text \<open>The SYNC objects that the dictionary holds, read the way the node reads them.\<close>

definition sync_objects_valid :: "(u16 \<Rightarrow> u8 \<Rightarrow> bytes option) \<Rightarrow> bool" where
  "sync_objects_valid v \<longleftrightarrow>
     (\<forall>b. v 0x1005 0 = Some b \<longrightarrow> length b \<le> 4 \<longrightarrow>
        is_supported_sync_cob_id (from_le_bytes (overwrite (replicate 4 0) 0 b)))
     \<and> (\<forall>b. v 0x1019 0 = Some b \<longrightarrow> length b \<le> 1 \<longrightarrow>
        is_valid_sync_counter_overflow (overwrite (replicate 1 0) 0 b ! 0))"

locale node_dictionary = object_dictionary +
  assumes sync_valid: "inv od \<Longrightarrow> sync_objects_valid (val od)"

section \<open>Operations without the transport\<close>

lemma try_read_eq: "try_read ops od i s buf = (is_ok (fst (od_read ops od i s buf)), snd (od_read ops od i s buf))"
  by (simp add: try_read_def split: prod.split)

lemma length_monitors_fold:
  "length (fst (fold (sync_monitor_slot ops od pr) slots s)) = length (fst s)"
  by (induction slots arbitrary: s) (auto simp: sync_monitor_slot_def try_read_eq split: prod.split)

lemma sync_heartbeat_wf: "wf_nd od_inv N nd \<Longrightarrow> wf_nd od_inv N (sync_heartbeat_from_od ops pr nd)"
  by (auto simp: sync_heartbeat_from_od_def wf_nd_defs set_interval_ms_def Let_def length_monitors_fold
      split: prod.split)

lemma wf_tpdo_engine_cong:
  "wf_tpdo_engine e \<Longrightarrow> length ts = length (te_pdos e) \<Longrightarrow> wf_tpdo_engine (e\<lparr>te_pdos := ts\<rparr>)"
  by (simp add: wf_tpdo_engine_def Let_def)

lemma wf_rpdo_engine_cong:
  "wf_rpdo_engine e \<Longrightarrow> length rs = length (re_pdos e) \<Longrightarrow> wf_rpdo_engine (e\<lparr>re_pdos := rs\<rparr>)"
  by (simp add: wf_rpdo_engine_def Let_def)

lemma add_u16_ok: "unat b < 512 \<Longrightarrow> unat a \<le> 0xFE00 \<Longrightarrow> add_u16 a b = Some (a + b)"
  by (simp add: add_u16_def)

lemma sync_tpdo_config_number:
  "tc_od_number (fst (sync_tpdo_config ops od ci mi (c, b4, b2))) = tc_od_number c"
  by (simp add: sync_tpdo_config_def try_read_eq Let_def split: prod.split)

lemma sync_rpdo_config_number:
  "rc_od_number (fst (sync_rpdo_config ops od ci mi (c, b4, b2))) = rc_od_number c"
  by (simp add: sync_rpdo_config_def try_read_eq Let_def split: prod.split)

lemma list_update_map_same: "i < length xs \<Longrightarrow> f y = f (xs ! i) \<Longrightarrow> map f (xs[i := y]) = map f xs"
  by (metis list_update_id map_update nth_map)

lemma sync_tpdo_slots:
  assumes "offsets_ok (map tc_od_number cs)"
  shows "\<exists>cs' b4' b2'. for_each (sync_tpdo_slot ops od) [0..<length cs] (cs, b4, b2) = Some (cs', b4', b2')
    \<and> map tc_od_number cs' = map tc_od_number cs"
proof -
  let ?P = "\<lambda>(cs', _, _). map tc_od_number cs' = map tc_od_number cs"
  have "\<exists>s'. for_each (sync_tpdo_slot ops od) [0..<length cs] (cs, b4, b2) = Some s' \<and> ?P s'"
  proof (rule for_each_inv)
    fix n and s :: "tpdo_config list \<times> bytes \<times> bytes"
    assume n: "n \<in> set [0..<length cs]" and "?P s"
    then obtain cs1 b4 b2 where s: "s = (cs1, b4, b2)" "map tc_od_number cs1 = map tc_od_number cs" by (cases s) auto
    then have len: "length cs1 = length cs" by (metis length_map)
    then have num: "tc_od_number (cs1 ! n) = map tc_od_number cs ! n" using s(2) n by (metis atLeastLessThan_iff nth_map set_upt)
    have "unat (pdo_od_offset (tc_od_number (cs1 ! n)) n) < 512" using assms n unfolding num offsets_ok_def by simp
    then show "\<exists>s'. sync_tpdo_slot ops od n s = Some s' \<and> ?P s'"
      using s n len sync_tpdo_config_number [of ops od _ _ "cs1 ! n" b4 b2]
      by (simp add: sync_tpdo_slot_def add_u16_ok list_update_map_same Let_def split_beta)
  qed simp
  then show ?thesis by auto
qed

lemma sync_rpdo_slots:
  assumes "offsets_ok (map rc_od_number cs)"
  shows "\<exists>cs' b4' b2'. for_each (sync_rpdo_slot ops od) [0..<length cs] (cs, b4, b2) = Some (cs', b4', b2')
    \<and> map rc_od_number cs' = map rc_od_number cs"
proof -
  let ?P = "\<lambda>(cs', _, _). map rc_od_number cs' = map rc_od_number cs"
  have "\<exists>s'. for_each (sync_rpdo_slot ops od) [0..<length cs] (cs, b4, b2) = Some s' \<and> ?P s'"
  proof (rule for_each_inv)
    fix n and s :: "rpdo_config list \<times> bytes \<times> bytes"
    assume n: "n \<in> set [0..<length cs]" and "?P s"
    then obtain cs1 b4 b2 where s: "s = (cs1, b4, b2)" "map rc_od_number cs1 = map rc_od_number cs" by (cases s) auto
    then have len: "length cs1 = length cs" by (metis length_map)
    then have num: "rc_od_number (cs1 ! n) = map rc_od_number cs ! n" using s(2) n by (metis atLeastLessThan_iff nth_map set_upt)
    have "unat (pdo_od_offset (rc_od_number (cs1 ! n)) n) < 512" using assms n unfolding num offsets_ok_def by simp
    then show "\<exists>s'. sync_rpdo_slot ops od n s = Some s' \<and> ?P s'"
      using s n len sync_rpdo_config_number [of ops od _ _ "cs1 ! n" b4 b2]
      by (simp add: sync_rpdo_slot_def add_u16_ok list_update_map_same Let_def split_beta)
  qed simp
  then show ?thesis by auto
qed

lemma sync_pdo_from_od_wf:
  assumes "wf_nd od_inv N nd"
  shows "\<exists>ts rs. sync_pdo_from_od ops nd =
      Some (nd\<lparr>nd_tpdo := (nd_tpdo nd)\<lparr>te_pdos := ts\<rparr>, nd_rpdo := (nd_rpdo nd)\<lparr>re_pdos := rs\<rparr>\<rparr>)
    \<and> wf_nd od_inv N (nd\<lparr>nd_tpdo := (nd_tpdo nd)\<lparr>te_pdos := ts\<rparr>, nd_rpdo := (nd_rpdo nd)\<lparr>re_pdos := rs\<rparr>\<rparr>)"
proof -
  have o: "offsets_ok (map tc_od_number (te_pdos (nd_tpdo nd)))" "offsets_ok (map rc_od_number (re_pdos (nd_rpdo nd)))"
    using assms by (simp_all add: wf_nd_defs)
  obtain ts b4 b2 where ts:
    "for_each (sync_tpdo_slot ops (nd_od nd)) (te_slots (nd_tpdo nd)) (te_pdos (nd_tpdo nd), replicate 4 0, replicate 2 0) = Some (ts, b4, b2)"
    "map tc_od_number ts = map tc_od_number (te_pdos (nd_tpdo nd))"
    using sync_tpdo_slots [OF o(1), of ops "nd_od nd" "replicate 4 0" "replicate 2 0"] by blast
  obtain rs b4' b2' where rs:
    "for_each (sync_rpdo_slot ops (nd_od nd)) (re_slots (nd_rpdo nd)) (re_pdos (nd_rpdo nd), b4, b2) = Some (rs, b4', b2')"
    "map rc_od_number rs = map rc_od_number (re_pdos (nd_rpdo nd))"
    using sync_rpdo_slots [OF o(2), of ops "nd_od nd" b4 b2] by blast
  have "length ts = length (te_pdos (nd_tpdo nd))" "length rs = length (re_pdos (nd_rpdo nd))"
    using ts(2) rs(2) by (metis length_map)+
  then show ?thesis using assms ts rs
    by (intro exI [of _ ts] exI [of _ rs])
      (simp add: sync_pdo_from_od_def wf_nd_defs wf_tpdo_engine_cong wf_rpdo_engine_cong)
qed

text \<open>What only NMT commands and the boot sequence change.\<close>

definition same_life :: "'od node \<Rightarrow> 'od node \<Rightarrow> bool" where
  "same_life nd nd' \<longleftrightarrow> nd_nmt nd' = nd_nmt nd \<and> nd_booted nd' = nd_booted nd
     \<and> nd_node_id nd' = nd_node_id nd \<and> nd_auto_start nd' = nd_auto_start nd"

lemma same_life_refl [simp]: "same_life nd nd"
  by (simp add: same_life_def)

lemma same_life_trans: "same_life a b \<Longrightarrow> same_life b c \<Longrightarrow> same_life a c"
  by (simp add: same_life_def)

lemma sync_heartbeat_keeps:
  "nd_nmt (sync_heartbeat_from_od ops pr nd) = nd_nmt nd"
  "nd_booted (sync_heartbeat_from_od ops pr nd) = nd_booted nd"
  "nd_node_id (sync_heartbeat_from_od ops pr nd) = nd_node_id nd"
  "nd_auto_start (sync_heartbeat_from_od ops pr nd) = nd_auto_start nd"
  "nd_reset_event (sync_heartbeat_from_od ops pr nd) = nd_reset_event nd"
  by (simp_all add: sync_heartbeat_from_od_def Let_def split: prod.split)

lemma tpdo_discard_wf: "wf_tpdo_engine e \<Longrightarrow> wf_tpdo_engine (discard_async_events (discard_sync_events e))"
  by (simp add: wf_tpdo_engine_def discard_async_events_def discard_sync_events_def Let_def)

lemma tpdo_reset_wf: "wf_tpdo_engine e \<Longrightarrow> wf_tpdo_engine (tpdo_reset_communication_state e)"
  by (auto simp: wf_tpdo_engine_def tpdo_reset_communication_state_def Let_def)

lemma rpdo_reset_wf:
  "wf_rpdo_engine e \<Longrightarrow> wf_rpdo_engine (reset_deadline_monitoring (discard_pending e))"
  "wf_rpdo_engine e \<Longrightarrow> wf_rpdo_engine (discard_pending (reset_deadline_monitoring e))"
  by (simp_all add: wf_rpdo_engine_def reset_deadline_monitoring_def discard_pending_def Let_def)

lemma engine_pdos [simp]:
  "te_pdos (discard_async_events e) = te_pdos e" "te_pdos (discard_sync_events e) = te_pdos e"
  "te_pdos (tpdo_reset_communication_state e) = te_pdos e"
  "re_pdos (discard_pending r) = re_pdos r" "re_pdos (reset_deadline_monitoring r) = re_pdos r"
  by (simp_all add: discard_async_events_def discard_sync_events_def tpdo_reset_communication_state_def
      discard_pending_def reset_deadline_monitoring_def Let_def)

lemma leave_operational_wf: "wf_nd od_inv N nd \<Longrightarrow> wf_nd od_inv N (leave_operational nd) \<and> same_life nd (leave_operational nd)"
  by (simp add: leave_operational_def wf_nd_defs tpdo_discard_wf rpdo_reset_wf same_life_def)

lemma wf_server_abort [simp]: "wf_server (abort_transfer srv)"
  by (simp add: wf_server_def abort_transfer_def)

lemma abort_all_wf: "wf_nd od_inv N nd \<Longrightarrow> wf_nd od_inv N (abort_all_sdo_transfers nd)"
  by (simp add: abort_all_sdo_transfers_def wf_nd_defs)

lemma abort_all_life: "same_life nd (abort_all_sdo_transfers nd)"
  by (simp add: abort_all_sdo_transfers_def same_life_def)

context node_dictionary
begin

lemma configured_sync_ok:
  assumes "inv od"
  shows "\<exists>s b. configured_sync ops od (replicate 4 0) = Some (s, b)"
proof (rule read_cases [OF assms, of "0x1005" 0 "replicate 4 0"])
  fix v assume v: "val od 0x1005 0 = Some v" "length v \<le> length (replicate 4 (0::u8))"
    "od_read ops od 0x1005 0 (replicate 4 0) = (Inr (length v), overwrite (replicate 4 0) 0 v)"
  then have "is_supported_sync_cob_id (from_le_bytes (overwrite (replicate 4 0) 0 v))"
    using sync_valid [OF assms] by (simp add: sync_objects_valid_def)
  with v(3) show ?thesis by (simp add: configured_sync_def try_read_def assert_that_eq sync_cob_id_from_raw_def)
qed (auto simp: configured_sync_def try_read_def)

lemma configured_overflow_ok:
  assumes "inv od"
  shows "is_valid_sync_counter_overflow (if fst (try_read ops od 0x1019 0 (replicate 1 0))
     then snd (try_read ops od 0x1019 0 (replicate 1 0)) ! 0 else 0)"
proof (rule read_cases [OF assms, of "0x1019" 0 "replicate 1 0"])
  fix v assume v: "val od 0x1019 0 = Some v" "length v \<le> length (replicate 1 (0::u8))"
    "od_read ops od 0x1019 0 (replicate 1 0) = (Inr (length v), overwrite (replicate 1 0) 0 v)"
  then show ?thesis using sync_valid [OF assms] by (simp add: sync_objects_valid_def try_read_def)
qed (simp add: try_read_def is_valid_sync_counter_overflow_def)

lemma sync_config_wf:
  assumes "wf_nd inv N nd"
  shows "\<exists>c w p. sync_config_from_od ops nd = Some (nd\<lparr>nd_sync := c, nd_sync_window := w, nd_sync_producer := p\<rparr>)
    \<and> wf_nd inv N (nd\<lparr>nd_sync := c, nd_sync_window := w, nd_sync_producer := p\<rparr>)"
proof -
  have i: "inv (nd_od nd)" using assms by (simp add: wf_nd_def)
  obtain s b where "configured_sync ops (nd_od nd) (replicate 4 0) = Some (s, b)" using configured_sync_ok [OF i] by blast
  then have "\<exists>c w p. sync_config_from_od ops nd = Some (nd\<lparr>nd_sync := c, nd_sync_window := w, nd_sync_producer := p\<rparr>)"
    using configured_overflow_ok [OF i] by (simp add: sync_config_from_od_def assert_that_eq split_beta Let_def cong: if_cong split del: if_split) blast
  then show ?thesis using assms by (auto simp: wf_nd_defs)
qed

lemma reset_sync_state_wf:
  assumes "wf_nd inv N nd"
  shows "\<exists>nd'. reset_sync_state ops nd = Some nd' \<and> wf_nd inv N nd' \<and> same_life nd nd'
    \<and> nd_reset_event nd' = nd_reset_event nd"
proof -
  obtain c w p where "sync_config_from_od ops nd = Some (nd\<lparr>nd_sync := c, nd_sync_window := w, nd_sync_producer := p\<rparr>)"
    using sync_config_wf [OF assms] by blast
  then show ?thesis using assms
    by (simp add: reset_sync_state_def wf_nd_defs same_life_def tpdo_reset_wf rpdo_reset_wf)
qed

lemma reset_communication_wf:
  assumes "wf_nd inv N nd"
  shows "\<exists>nd'. reset_communication ops rt nd = Some nd' \<and> wf_nd inv N nd' \<and> same_life (nd\<lparr>nd_booted := False\<rparr>) nd'
    \<and> nd_reset_event nd' = Some rt"
proof -
  let ?nd = "abort_all_sdo_transfers (nd\<lparr>nd_reset_event := Some rt, nd_booted := False\<rparr>)"
  have "wf_nd inv N ?nd" by (rule abort_all_wf) (use assms in \<open>simp add: wf_nd_defs\<close>)
  then obtain nd1 where nd1: "sync_pdo_from_od ops ?nd = Some nd1" "wf_nd inv N nd1" "same_life ?nd nd1"
      "nd_reset_event nd1 = Some rt"
    using sync_pdo_from_od_wf [of inv N ?nd ops] by (auto simp: same_life_def abort_all_sdo_transfers_def)
  let ?nd2 = "sync_heartbeat_from_od ops False nd1"
  have "wf_nd inv N ?nd2" by (rule sync_heartbeat_wf) (rule nd1(2))
  then obtain nd' where "reset_sync_state ops ?nd2 = Some nd'" "wf_nd inv N nd'" "same_life ?nd2 nd'" "nd_reset_event nd' = nd_reset_event ?nd2"
    using reset_sync_state_wf by blast
  with nd1 show ?thesis
    by (simp add: reset_communication_def same_life_def sync_heartbeat_keeps abort_all_sdo_transfers_def)
qed

lemma resync_committed_wf:
  assumes "wf_nd inv N nd"
  shows "\<exists>nd'. resync_committed ops index nd = Some nd' \<and> wf_nd inv N nd' \<and> same_life nd nd'"
proof -
  obtain nd1 where 1: "(if 0x1400 \<le> index \<and> index \<le> 0x1BFF then sync_pdo_from_od ops nd else Some nd) = Some nd1"
    "wf_nd inv N nd1" "same_life nd nd1"
    using sync_pdo_from_od_wf [OF assms, of ops] assms
    by (cases "0x1400 \<le> index \<and> index \<le> 0x1BFF") (auto simp: same_life_def)
  let ?nd2 = "if index = 0x1016 \<or> index = 0x1017 then sync_heartbeat_from_od ops True nd1 else nd1"
  have 2: "wf_nd inv N ?nd2" "same_life nd1 ?nd2"
    using 1 sync_heartbeat_wf [OF 1(2)] by (simp_all add: same_life_def sync_heartbeat_keeps)
  obtain nd3 where "(if index = 0x1005 \<or> index = 0x1006 \<or> index = 0x1007 \<or> index = 0x1019
      then sync_config_from_od ops ?nd2 else Some ?nd2) = Some nd3" "wf_nd inv N nd3" "same_life ?nd2 nd3"
    using sync_config_wf [OF 2(1)] 2
    by (cases "index = 0x1005 \<or> index = 0x1006 \<or> index = 0x1007 \<or> index = 0x1019") (auto simp: same_life_def)
  with 1 2 show ?thesis by (auto simp: resync_committed_def Let_def same_life_def simp del: if_split)
qed

end

section \<open>Operations on the transport\<close>

text \<open>What a handler may do to a transport: leave the backlog, and have frames accepted.\<close>

definition tr_step ::
  "('t \<Rightarrow> can_frame list) \<Rightarrow> ('t \<Rightarrow> can_frame list) \<Rightarrow> ('t \<Rightarrow> bool) \<Rightarrow> 't \<Rightarrow> 't \<Rightarrow> bool" where
  "tr_step backlog sent t_inv t t' \<longleftrightarrow> t_inv t' \<and> backlog t' = backlog t \<and> (\<exists>fs. sent t' = sent t @ fs)"

lemma tr_step_refl: "t_inv t \<Longrightarrow> tr_step backlog sent t_inv t t"
  by (simp add: tr_step_def)

lemma tr_step_trans:
  "tr_step backlog sent t_inv a b \<Longrightarrow> tr_step backlog sent t_inv b c \<Longrightarrow> tr_step backlog sent t_inv a c"
  by (auto simp: tr_step_def)

lemma tr_step_inv: "tr_step backlog sent t_inv a b \<Longrightarrow> t_inv b"
  by (simp add: tr_step_def)

definition valid_sel :: "sdo_server_sel \<Rightarrow> 'od node \<Rightarrow> bool" where
  "valid_sel sel nd = (case sel of DefaultServer \<Rightarrow> True | ExtraServer i \<Rightarrow> i < length (nd_extra_sdo nd))"

lemma sel_server_wf: "wf_nd od_inv N nd \<Longrightarrow> valid_sel sel nd \<Longrightarrow> wf_server (sel_server sel nd)"
  by (cases sel) (auto simp: sel_server_def valid_sel_def wf_nd_defs)

lemma put_server_wf:
  "wf_nd od_inv N nd \<Longrightarrow> wf_server srv \<Longrightarrow> wf_nd od_inv N (put_server sel srv nd)"
  by (cases sel) (auto simp: put_server_def wf_nd_defs dest!: subsetD [OF set_update_subset_insert])

lemma put_tx_wf: "wf_nd od_inv N nd \<Longrightarrow> wf_nd od_inv N (put_tx sel p nd)"
  by (cases sel) (simp_all add: put_tx_def wf_nd_defs)

lemma put_life [simp]: "same_life a (put_server sel srv nd) = same_life a nd" "same_life a (put_tx sel p nd) = same_life a nd"
  by (cases sel; simp add: put_server_def put_tx_def same_life_def)+

lemma put_valid [simp]:
  "valid_sel sel' (put_server sel srv nd) = valid_sel sel' nd" "valid_sel sel' (put_tx sel p nd) = valid_sel sel' nd"
  by (cases sel; cases sel'; simp add: put_server_def put_tx_def valid_sel_def)+

lemma begin_poll_wf:
  assumes "wf_nd od_inv N nd" "valid_sel sel nd"
  shows "wf_nd od_inv N (begin_poll_sel now sel nd) \<and> same_life nd (begin_poll_sel now sel nd)
     \<and> (\<forall>sel'. valid_sel sel' (begin_poll_sel now sel nd) = valid_sel sel' nd)"
proof -
  obtain p srv where b: "ptx_begin_poll (sel_cob sel nd) now (sel_tx sel nd, sel_server sel nd) = (p, srv)" by fastforce
  then have "wf_server srv" using sel_server_wf [OF assms] check_timeout_wf [of "sel_server sel nd" now]
    by (auto simp: ptx_begin_poll_def Let_def split: if_splits option.splits prod.splits)
  then show ?thesis using b assms(1)
    by (auto simp: begin_poll_sel_def intro!: put_tx_wf put_server_wf intro: same_life_trans)
qed

lemma begin_poll_all_wf:
  assumes "wf_nd od_inv N nd" "list_all (\<lambda>sel. valid_sel sel nd) sels"
  shows "wf_nd od_inv N (fold (begin_poll_sel now) sels nd) \<and> same_life nd (fold (begin_poll_sel now) sels nd)"
  using assms
proof (induction sels arbitrary: nd)
  case (Cons sel sels)
  then have "wf_nd od_inv N (begin_poll_sel now sel nd)" "list_all (\<lambda>s. valid_sel s (begin_poll_sel now sel nd)) sels"
    "same_life nd (begin_poll_sel now sel nd)"
    using begin_poll_wf [of od_inv N nd sel now] by (auto simp: list_all_iff)
  with Cons.IH [of "begin_poll_sel now sel nd"] show ?case by (auto intro: same_life_trans)
qed simp

lemma all_servers_valid: "list_all (\<lambda>sel. valid_sel sel nd) (all_servers nd)"
  by (auto simp: all_servers_def valid_sel_def list_all_iff)

context can_transport
begin

lemma transmit_tr: "inv t \<Longrightarrow> can_transmit ops t f = (r, t') \<Longrightarrow> tr_step backlog sent inv t t'"
  using transmit_step [of t f r t'] by (auto simp: tr_step_def)

lemma try_send_tr: "inv t \<Longrightarrow> ptx_try_send ops (p, t) = (p', t') \<Longrightarrow> tr_step backlog sent inv t t'"
  by (auto simp: ptx_try_send_def tr_step_refl split: if_splits option.splits prod.splits dest!: transmit_tr)

lemma service_loop_tr:
  assumes "inv t" "wf_server srv"
  shows "\<exists>p' srv' t'. ptx_service_loop ops cob now k (p, srv, t) = Some (p', srv', t')
    \<and> wf_server srv' \<and> tr_step backlog sent inv t t'"
  using assms
proof (induction k arbitrary: p srv t)
  case 0
  then show ?case by (simp add: tr_step_refl)
next
  case (Suc k)
  obtain r srv1 where r: "poll_block_upload srv now = Some (r, srv1)" "wf_server srv1"
    using poll_block_upload_wf [OF Suc.prems(2)] by blast
  show ?case
  proof (cases "ptx_frame p \<noteq> None \<or> r = None")
    case True
    then show ?thesis using r Suc.prems by (auto simp: tr_step_refl)
  next
    case False
    then obtain data where d: "r = Some data" "ptx_frame p = None" by (cases r; cases "ptx_frame p") auto
    obtain p1 t1 where 1: "ptx_try_send ops (ptx_queue p cob data now, t) = (p1, t1)" by fastforce
    then have "tr_step backlog sent inv t t1" by (rule try_send_tr [OF Suc.prems(1)])
    with Suc.IH [of t1 srv1 p1] r(2) obtain p' srv' t' where
      "ptx_service_loop ops cob now k (p1, srv1, t1) = Some (p', srv', t')" "wf_server srv'" "tr_step backlog sent inv t t'"
      using tr_step_inv tr_step_trans by metis
    with d r 1 show ?thesis by simp
  qed
qed

lemma service_sel_wf:
  assumes "inv t" "wf_nd od_inv N nd" "valid_sel sel nd"
  shows "\<exists>nd' t'. service_sel ops now sel (nd, t) = Some (nd', t') \<and> wf_nd od_inv N nd' \<and> same_life nd nd'
    \<and> (\<forall>sel'. valid_sel sel' nd' = valid_sel sel' nd) \<and> tr_step backlog sent inv t t'"
proof -
  obtain p1 t1 where 1: "ptx_try_send ops (sel_tx sel nd, t) = (p1, t1)" by fastforce
  then have t1: "tr_step backlog sent inv t t1" by (rule try_send_tr [OF assms(1)])
  obtain p' srv' t' where s: "ptx_service_loop ops (sel_cob sel nd) now 127 (p1, sel_server sel nd, t1) = Some (p', srv', t')"
      "wf_server srv'" "tr_step backlog sent inv t1 t'"
    using service_loop_tr [OF tr_step_inv [OF t1] sel_server_wf [OF assms(2,3)]] by metis
  have "service_sel ops now sel (nd, t) = Some (put_tx sel p' (put_server sel srv' nd), t')"
    using 1 s(1) by (simp add: service_sel_def ptx_service_def)
  then show ?thesis using assms(2) s t1 by (auto intro!: put_tx_wf put_server_wf intro: tr_step_trans same_life_trans)
qed

lemma service_all_wf:
  assumes "inv t" "wf_nd od_inv N nd" "list_all (\<lambda>sel. valid_sel sel nd) sels"
  shows "\<exists>nd' t'. for_each (service_sel ops now) sels (nd, t) = Some (nd', t') \<and> wf_nd od_inv N nd' \<and> same_life nd nd'
    \<and> tr_step backlog sent inv t t'"
  using assms
proof (induction sels arbitrary: nd t)
  case Nil
  then show ?case by (simp add: tr_step_refl)
next
  case (Cons sel sels)
  then obtain nd1 t1 where 1: "service_sel ops now sel (nd, t) = Some (nd1, t1)" "wf_nd od_inv N nd1" "same_life nd nd1"
    "\<forall>sel'. valid_sel sel' nd1 = valid_sel sel' nd" "tr_step backlog sent inv t t1"
    using service_sel_wf [of t od_inv N nd sel now] by (auto simp del: split_paired_Ex)
  with Cons.IH [of t1 nd1] Cons.prems(3) obtain nd' t' where "for_each (service_sel ops now) sels (nd1, t1) = Some (nd', t')"
    "wf_nd od_inv N nd'" "same_life nd1 nd'" "tr_step backlog sent inv t1 t'"
    by (auto simp: list_all_iff tr_step_def)
  with 1 show ?case by (auto intro: tr_step_trans same_life_trans)
qed

lemma transmit_all_tr:
  assumes "inv t" "length refused \<le> cap" "transmit_all ops cap fs (refused, t) = (refused', t')"
  shows "tr_step backlog sent inv t t' \<and> length refused' \<le> cap"
  using assms
proof (induction fs arbitrary: refused t)
  case Nil
  then show ?case by (simp add: tr_step_refl)
next
  case (Cons f fs)
  obtain r t1 where 1: "can_transmit ops t f = (r, t1)" by fastforce
  then have t1: "tr_step backlog sent inv t t1" by (rule transmit_tr [OF Cons.prems(1)])
  have "tr_step backlog sent inv t1 t' \<and> length refused' \<le> cap"
    by (rule Cons.IH [OF tr_step_inv [OF t1], of "if is_ok r then refused else push_back cap refused f"])
      (use Cons.prems 1 in \<open>auto simp: length_push_back\<close>)
  with t1 show ?case by (auto intro: tr_step_trans)
qed

lemma emcy_drain_tr:
  assumes "inv t" "emcy_inv p" "emcy_drain ops (p, t) = (p', t')"
  shows "tr_step backlog sent inv t t' \<and> emcy_inv p' \<and> ep_node_id p' = ep_node_id p"
  using assms
proof (induction "ep_pending p" arbitrary: p t)
  case Nil
  then show ?case by (subst (asm) emcy_drain.simps) (simp add: peek_pending_def tr_step_refl)
next
  case (Cons f fs)
  obtain r t1 where 1: "can_transmit ops t f = (r, t1)" by fastforce
  then have t1: "tr_step backlog sent inv t t1" by (rule transmit_tr [OF Cons.prems(1)])
  have tk: "take_pending p = (Some f, p\<lparr>ep_pending := fs\<rparr>)" "peek_pending p = Some f"
    using Cons.hyps(2) by (simp_all add: take_pending_def peek_pending_def flip: Cons.hyps(2))
  show ?case
  proof (cases "is_ok r")
    case True
    then have "emcy_drain ops (p\<lparr>ep_pending := fs\<rparr>, t1) = (p', t')"
      using Cons.prems(3) 1 tk by (subst (asm) emcy_drain.simps) simp
    then show ?thesis using Cons.hyps(1) [of "p\<lparr>ep_pending := fs\<rparr>" t1] tr_step_inv [OF t1] t1
        take_pending_inv [OF Cons.prems(2)] tk(1) by (auto intro: tr_step_trans)
  next
    case False
    then have "p' = p \<and> t' = t1" using Cons.prems(3) 1 tk by (subst (asm) emcy_drain.simps) simp
    then show ?thesis using t1 Cons.prems(2) by simp
  qed
qed

end

section \<open>The handlers\<close>

lemma wf_nd_events:
  "wf_nd od_inv N nd \<Longrightarrow> od_inv od \<Longrightarrow> length evs \<le> N \<Longrightarrow> wf_nd od_inv N (nd\<lparr>nd_od := od, nd_event_queue := evs\<rparr>)"
  by (simp add: wf_nd_defs)

lemma push_hb_event_wf:
  "wf_nd od_inv N nd \<Longrightarrow> wf_nd od_inv N (push_hb_event e nd) \<and> same_life nd (push_hb_event e nd)"
  by (simp add: push_hb_event_def wf_nd_defs length_push_evict same_life_def)

lemma push_hb_events_wf:
  "wf_nd od_inv N nd \<Longrightarrow> wf_nd od_inv N (fold push_hb_event es nd) \<and> same_life nd (fold push_hb_event es nd)"
proof (induction es arbitrary: nd)
  case (Cons e es)
  then show ?case using push_hb_event_wf [OF Cons.prems, of e] by (auto intro: same_life_trans)
qed simp

lemma dispatch_heartbeat_wf:
  assumes "wf_nd od_inv N nd" "monitor_slot_for f nd = Some slot" "wf_frame f"
  shows "\<exists>nd'. dispatch_heartbeat slot f now nd = Some nd' \<and> wf_nd od_inv N nd' \<and> same_life nd nd'"
proof -
  have "raw_dlc f = 1" using assms(2) by (auto simp: monitor_slot_for_def split: if_splits)
  with length_frame_data [OF assms(3)] have "length (frame_data f) = 1" by simp
  then obtain b where b: "frame_data f = [b]" by (cases "frame_data f") auto
  obtain m where m: "nd_hb_monitors nd ! slot = Some m"
    using assms(2) by (auto simp: monitor_slot_for_def find_Some_iff split: if_splits option.splits)
  obtain x m' events where "monitor_process m (hm_node_id m) b now [] = (x, m', events)" by (metis prod_cases3)
  moreover have "wf_nd od_inv N (nd\<lparr>nd_hb_monitors := (nd_hb_monitors nd)[slot := Some m']\<rparr>)"
    using assms(1) by (simp add: wf_nd_defs)
  from push_hb_events_wf [OF this, of events] have
    "wf_nd od_inv N (fold push_hb_event events (nd\<lparr>nd_hb_monitors := (nd_hb_monitors nd)[slot := Some m']\<rparr>))"
    "same_life nd (fold push_hb_event events (nd\<lparr>nd_hb_monitors := (nd_hb_monitors nd)[slot := Some m']\<rparr>))"
    by (auto simp: same_life_def)
  ultimately show ?thesis using b m by (simp add: dispatch_heartbeat_def)
qed

lemma check_monitor_wf: "wf_nd od_inv N nd \<Longrightarrow> wf_nd od_inv N (check_monitor now slot nd) \<and> same_life nd (check_monitor now slot nd)"
proof (cases "nd_hb_monitors nd ! slot")
  case (Some m)
  assume wf: "wf_nd od_inv N nd"
  obtain r m' where r: "monitor_check_timeout m now = (r, m')" by fastforce
  let ?nd = "nd\<lparr>nd_hb_monitors := (nd_hb_monitors nd)[slot := Some m']\<rparr>"
  have 1: "wf_nd od_inv N ?nd" "same_life nd ?nd" using wf by (simp_all add: wf_nd_defs same_life_def)
  with push_hb_event_wf [OF 1(1)] Some r show ?thesis
    by (cases r) (auto simp: check_monitor_def intro: same_life_trans)
qed (simp add: check_monitor_def)

lemma check_monitors_wf: "wf_nd od_inv N nd \<Longrightarrow> wf_nd od_inv N (check_monitors now nd) \<and> same_life nd (check_monitors now nd)"
proof -
  have "wf_nd od_inv N (fold (check_monitor now) ss nd) \<and> same_life nd (fold (check_monitor now) ss nd)"
    if "wf_nd od_inv N nd" for ss nd
    using that
  proof (induction ss arbitrary: nd)
    case (Cons s ss)
    then show ?case using check_monitor_wf [OF Cons.prems, of now s] by (auto intro: same_life_trans)
  qed simp
  then show "wf_nd od_inv N nd \<Longrightarrow> ?thesis" by (simp add: check_monitors_def)
qed

lemma deadline_report_offset:
  assumes "number \<in> set (deadline_report now e i)"
  shows "unat (od_offset number) < 512"
proof -
  obtain n where n: "number = PdoNumber n" "1 \<le> n" "n \<le> 512"
    using assms by (cases "deadline_due now e i")
      (simp_all add: deadline_report_def pdo_number_new_def split: if_split_asm)
  then have "unat (n - 1) = unat n - 1" using unat_sub [of 1 n] by simp
  moreover have "1 \<le> unat n" "unat n \<le> 512" using n by (simp_all add: word_le_nat_alt)
  ultimately show ?thesis using n(1) by (simp add: od_offset_def)
qed

lemma monitor_deadlines_wf:
  assumes "wf_nd od_inv N nd"
  shows "\<exists>nd'. monitor_deadlines N now nd = Some nd' \<and> wf_nd od_inv N nd' \<and> same_life nd nd'"
proof (cases "nd_state nd = Operational")
  case True
  let ?e = "nd_rpdo nd"
  let ?rpdo = "checked_upto now (length (re_pdos ?e)) ?e"
  let ?nd = "nd\<lparr>nd_rpdo := ?rpdo\<rparr>" let ?expired = "concat (map (deadline_report now ?e) (re_slots ?e))"
  have wr: "wf_rpdo_engine ?e" using assms by (simp add: wf_nd_defs)
  then have "wf_rpdo_engine ?rpdo" "re_pdos ?rpdo = re_pdos ?e"
    by (simp_all add: checked_upto_def wf_rpdo_engine_def Let_def)
  then have "wf_nd od_inv N ?nd \<and> same_life nd ?nd" using assms by (simp add: wf_nd_defs same_life_def)
  then have "\<exists>nd'. for_each (push_deadline_event N) ?expired ?nd = Some nd' \<and> (wf_nd od_inv N nd' \<and> same_life nd nd')"
  proof (rule for_each_inv [rotated])
    fix number nd'
    assume "number \<in> set ?expired" "wf_nd od_inv N nd' \<and> same_life nd nd'"
    moreover from this(1) have "unat (od_offset number) < 512" using deadline_report_offset by auto
    ultimately show "\<exists>nd''. push_deadline_event N number nd' = Some nd'' \<and> (wf_nd od_inv N nd'' \<and> same_life nd nd'')"
      by (auto simp: push_deadline_event_def add_u16_ok wf_nd_defs length_push_evict same_life_def)
  qed
  then show ?thesis using True by (simp add: monitor_deadlines_def check_deadlines_spec [OF wr])
qed (use leave_operational_wf [OF assms] in \<open>simp add: monitor_deadlines_def\<close>)

lemma latch_sync_events_wf:
  "wf_tpdo_engine e \<Longrightarrow> wf_tpdo_engine (latch_sync_events dirty e) \<and> te_pdos (latch_sync_events dirty e) = te_pdos e"
proof -
  assume wf: "wf_tpdo_engine e"
  let ?f = "\<lambda>i e. if tc_enabled (te_pdos e ! i) \<and> tc_transmission_type (te_pdos e ! i) = 0
      \<and> has_dirty_mapping (te_pdos e ! i) dirty
      then e\<lparr>te_sync_event_pending := (te_sync_event_pending e)[i := True]\<rparr> else e"
  have step: "wf_tpdo_engine (?f i e') \<and> te_pdos (?f i e') = te_pdos e'" if "wf_tpdo_engine e'" for i e'
    using that by (simp add: wf_tpdo_engine_def Let_def)
  have "wf_tpdo_engine (fold ?f ss e') \<and> te_pdos (fold ?f ss e') = te_pdos e'" if "wf_tpdo_engine e'" for ss e'
    using that
  proof (induction ss arbitrary: e')
    case (Cons i ss)
    with Cons.IH [of "?f i e'"] step [OF Cons.prems, of i] show ?case by (simp del: fun_upd_apply split del: if_split)
  qed simp
  with wf show ?thesis by (simp add: latch_sync_events_def)
qed

section \<open>The life cycle\<close>

text \<open>
  The life cycle of a node as an abstract state machine: whether it has booted, its NMT state,
  and what a received frame does to them.
\<close>

type_synonym life = "bool \<times> nmt_state"

definition life_of :: "'od node \<Rightarrow> life" where
  "life_of nd = (nd_booted nd, nd_state nd)"

definition life_command :: "nmt_command \<Rightarrow> life \<Rightarrow> life" where
  "life_command cmd l = (case l of (booted, st) \<Rightarrow>
     if st = Initializing then (if cmd = ResetNode then (False, st) else l)
     else if commanded_state cmd = Initializing then (False, Initializing)
     else (booted, commanded_state cmd))"

definition life_frame :: "node_id \<Rightarrow> can_frame \<Rightarrow> life \<Rightarrow> life" where
  "life_frame n f l =
     (if raw_id f = 0 \<and> raw_dlc f = 2 then
        (case nmt_from_byte (frame_data f ! 0) of
           Some cmd \<Rightarrow> if frame_data f ! 1 = 0 \<or> frame_data f ! 1 = node_raw n then life_command cmd l else l
         | None \<Rightarrow> l)
      else l)"

definition life_boot :: "bool \<Rightarrow> life \<Rightarrow> life" where
  "life_boot auto_start l = (if fst l then l else (True, if auto_start then Operational else PreOperational))"

text \<open>Whether the boot sequence of this cycle ends: the transport takes the boot-up frame.\<close>

definition boots :: "'t can_ops \<Rightarrow> 'od node \<Rightarrow> 't \<Rightarrow> bool" where
  "boots tops nd t \<longleftrightarrow> nd_booted nd \<or> (case heartbeat_frame (hp_node_id (nd_heartbeat nd)) Initializing of
     Some f \<Rightarrow> fst (can_transmit tops t f) \<noteq> Inl WouldBlock | None \<Rightarrow> False)"

lemma same_life_of: "same_life nd nd' \<Longrightarrow> life_of nd' = life_of nd"
  by (simp add: same_life_def life_of_def)

section \<open>Construction and the application's operations\<close>

lemma latch_slot_event_wf:
  "wf_tpdo_engine e \<Longrightarrow> wf_tpdo_engine (latch_slot_event i e) \<and> te_pdos (latch_slot_event i e) = te_pdos e"
  by (simp add: latch_slot_event_def wf_tpdo_engine_def Let_def)

lemma fold_latch_wf:
  "wf_tpdo_engine e \<Longrightarrow> (\<And>i e'. wf_tpdo_engine e' \<Longrightarrow> te_pdos e' = te_pdos e \<Longrightarrow> wf_tpdo_engine (f i e') \<and> te_pdos (f i e') = te_pdos e)
   \<Longrightarrow> wf_tpdo_engine (fold f ss e) \<and> te_pdos (fold f ss e) = te_pdos e"
proof (induction ss arbitrary: e)
  case (Cons i ss)
  have i: "wf_tpdo_engine (f i e) \<and> te_pdos (f i e) = te_pdos e" using Cons.prems by simp
  with Cons.IH [of "f i e"] Cons.prems(2) show ?case by simp
qed simp

lemma notify_changed_wf:
  "wf_tpdo_engine e \<Longrightarrow> wf_tpdo_engine (notify_changed i s e) \<and> te_pdos (notify_changed i s e) = te_pdos e"
  unfolding notify_changed_def by (rule fold_latch_wf) (auto simp: latch_slot_event_wf)

lemma node_notify_wf:
  "wf_nd od_inv N nd \<Longrightarrow> wf_nd od_inv N (node_notify_changed D i s nd) \<and> same_life nd (node_notify_changed D i s nd)"
  using notify_changed_wf [of "nd_tpdo nd" i s] by (simp add: node_notify_changed_def wf_nd_defs same_life_def)

definition config_ok :: "node_config \<Rightarrow> bool" where
  "config_ok c \<longleftrightarrow> wf_node (nc_node_id c) \<and> offsets_ok (map tc_od_number (nc_tpdo c)) \<and> offsets_ok (map rc_od_number (nc_rpdo c))"

lemma construction_keeps_servers:
  "write_pdo_cob_ids_to_od ops nd = Some nd' \<Longrightarrow> nd_extra_sdo_rx nd' = nd_extra_sdo_rx nd \<and> nd_extra_sdo nd' = nd_extra_sdo nd"
  "sync_config_from_od ops nd = Some nd' \<Longrightarrow> nd_extra_sdo_rx nd' = nd_extra_sdo_rx nd \<and> nd_extra_sdo nd' = nd_extra_sdo nd"
  "nd_extra_sdo_rx (sync_heartbeat_from_od ops pr nd) = nd_extra_sdo_rx nd"
  "nd_extra_sdo (sync_heartbeat_from_od ops pr nd) = nd_extra_sdo nd"
  by (auto simp: write_pdo_cob_ids_to_od_def sync_config_from_od_def sync_heartbeat_from_od_def Let_def
      split: bind_splits prod.splits)

lemma node_new_rx_nonzero:
  assumes "node_new ops config od = Some nd"
  shows "0 \<notin> ssc_cob_rx ` set (nc_sdo_servers config)"
proof -
  have "nd_extra_sdo_rx nd = map ssc_cob_rx (nc_sdo_servers config) \<and> length (nd_extra_sdo nd) = length (nc_sdo_servers config)
      \<and> sdo_cob_ids_are_unique nd"
    using assms by (auto simp: node_new_def Let_def construction_keeps_servers node_init_def assert_that_def
        split: bind_splits if_splits dest!: construction_keeps_servers(1,2))
  then show ?thesis
    by (auto simp: sdo_cob_ids_are_unique_def extra_server_ok_def Let_def list_all_iff in_set_conv_nth)
qed

context node_dictionary
begin

lemma mirror_wf:
  assumes "wf_nd inv N nd"
  shows "wf_nd inv N (mirror_error_register ops D nd) \<and> same_life nd (mirror_error_register ops D nd)"
proof -
  let ?nd = "nd\<lparr>nd_od := od_store_error_register ops (nd_od nd) (ep_error_register (nd_emcy nd))\<rparr>"
  have 1: "wf_nd inv N ?nd" "same_life nd ?nd" using assms store_error_register_inv by (simp_all add: wf_nd_defs same_life_def)
  with node_notify_wf [OF 1(1), of D "0x1001" 0] show ?thesis
    by (auto simp: mirror_error_register_def Let_def intro: same_life_trans)
qed

lemma error_ops_wf:
  assumes "wf_nd inv N nd"
  shows "\<exists>nd'. node_set_error ops D code bits vendor nd = Some nd' \<and> wf_nd inv N nd' \<and> same_life nd nd'"
    and "\<exists>nd'. node_clear_error ops D bits nd = Some nd' \<and> wf_nd inv N nd' \<and> same_life nd nd'"
    and "\<exists>nd'. clear_all_errors ops D nd = Some nd' \<and> wf_nd inv N nd' \<and> same_life nd nd'"
proof -
  have e: "emcy_inv (nd_emcy nd)" using assms by (simp add: wf_nd_def)
  have m: "wf_nd inv N (mirror_error_register ops D (nd\<lparr>nd_emcy := p\<rparr>)) \<and> same_life nd (mirror_error_register ops D (nd\<lparr>nd_emcy := p\<rparr>))"
    if "emcy_inv p" for p
  proof -
    have "wf_nd inv N (nd\<lparr>nd_emcy := p\<rparr>)" "same_life nd (nd\<lparr>nd_emcy := p\<rparr>)"
      using assms that by (simp_all add: wf_nd_defs same_life_def)
    then show ?thesis using mirror_wf same_life_trans by blast
  qed
  obtain p where p: "set_error (nd_emcy nd) code bits vendor = Some p" using set_error_eq [OF e] by blast
  from m [OF set_error_inv [OF e p]] p
  show "\<exists>nd'. node_set_error ops D code bits vendor nd = Some nd' \<and> wf_nd inv N nd' \<and> same_life nd nd'"
    by (simp add: node_set_error_def)
  obtain q where q: "clear_error (nd_emcy nd) bits = Some q" using clear_error_eq [OF e] by blast
  from m [OF clear_error_inv [OF e q]] q
  show "\<exists>nd'. node_clear_error ops D bits nd = Some nd' \<and> wf_nd inv N nd' \<and> same_life nd nd'"
    by (simp add: node_clear_error_def)
  obtain r where r: "clear_all (nd_emcy nd) = Some r" using clear_all_eq [OF e] by blast
  from m [OF clear_all_inv [OF e r]] r
  show "\<exists>nd'. clear_all_errors ops D nd = Some nd' \<and> wf_nd inv N nd' \<and> same_life nd nd'"
    by (simp add: clear_all_errors_def)
qed

lemma request_reset_wf:
  assumes "wf_nd inv N nd"
  shows "\<exists>nd'. request_reset ops rt nd = Some nd' \<and> wf_nd inv N nd' \<and> nd_node_id nd' = nd_node_id nd
    \<and> life_of nd' = (False, Initializing)"
  using reset_communication_wf [OF assms, of rt]
  by (auto simp: request_reset_def wf_nd_defs same_life_def life_of_def nmt_new_def)

lemma object_changed_total: "inv a \<Longrightarrow> inv b \<Longrightarrow> \<exists>c. object_changed ops a b m = Some c"
  using read_count [of a "pm_index m" "pm_subindex m" "replicate 8 0"] read_count [of b "pm_index m" "pm_subindex m" "replicate 8 0"]
    read_length [of a "pm_index m" "pm_subindex m" "replicate 8 0"] read_length [of b "pm_index m" "pm_subindex m" "replicate 8 0"]
  by (auto simp: object_changed_def slice_def split: prod.split sum.split)

lemma any_changed_total: "inv a \<Longrightarrow> inv b \<Longrightarrow> \<exists>c. any_changed ops a b ms = Some c"
proof (induction ms)
  case (Cons m ms)
  then obtain c d where "object_changed ops a b m = Some c" "any_changed ops a b ms = Some d"
    using object_changed_total by blast
  then show ?case by auto
qed auto

lemma od_guard_drop_wf:
  assumes "wf_nd inv N nd" "inv snapshot"
  shows "\<exists>nd'. od_guard_drop ops snapshot nd = Some nd' \<and> wf_nd inv N nd' \<and> same_life nd nd'"
proof -
  have i: "inv (nd_od nd)" using assms by (simp add: wf_nd_def)
  let ?f = "\<lambda>slot cs. do { c \<leftarrow> any_changed ops snapshot (nd_od nd) (tc_mappings (te_pdos (nd_tpdo nd) ! slot)); Some (cs @ [c]) }"
  have "\<exists>s. for_each ?f (te_slots (nd_tpdo nd)) [] = Some s \<and> True"
  proof (rule for_each_inv)
    fix slot cs
    obtain c where "any_changed ops snapshot (nd_od nd) (tc_mappings (te_pdos (nd_tpdo nd) ! slot)) = Some c"
      using any_changed_total [OF assms(2) i] by blast
    then show "\<exists>s'. ?f slot cs = Some s' \<and> True" by simp
  qed simp
  then obtain changed where c: "for_each ?f (te_slots (nd_tpdo nd)) [] = Some changed" by blast
  let ?e = "fold (\<lambda>slot e. if changed ! slot then latch_slot_event slot e else e) (te_slots (nd_tpdo nd)) (nd_tpdo nd)"
  have "wf_tpdo_engine ?e \<and> te_pdos ?e = te_pdos (nd_tpdo nd)"
    using assms(1) by (intro fold_latch_wf) (auto simp: latch_slot_event_wf wf_nd_defs)
  then show ?thesis using assms(1) c by (simp add: od_guard_drop_def wf_nd_defs same_life_def)
qed

lemma write_cob_ids_inv:
  assumes "offsets_ok (map f xs)" "inv od" "unat base \<le> 0xFE00"
  shows "\<exists>od'. for_each (\<lambda>n od. do { i \<leftarrow> add_u16 base (pdo_od_offset (f (xs ! n)) n); Some (snd (od_write ops od i 1 (data (xs ! n)))) })
    [0..<length xs] od = Some od' \<and> inv od'"
proof (rule for_each_inv)
  fix n od
  assume "n \<in> set [0..<length xs]" "inv od"
  moreover from this(1) have "unat (pdo_od_offset (f (xs ! n)) n) < 512" using assms(1) by (simp add: offsets_ok_def)
  moreover have "inv (snd (od_write ops od i 1 d))" for i d using write_inv [OF \<open>inv od\<close>, of i 1 d] by (metis prod.collapse)
  ultimately show "\<exists>od'. (do { i \<leftarrow> add_u16 base (pdo_od_offset (f (xs ! n)) n); Some (snd (od_write ops od i 1 (data (xs ! n)))) }) = Some od' \<and> inv od'"
    using assms(3) by (simp add: add_u16_ok)
qed (rule assms(2))

lemma node_init_wf:
  assumes "config_ok config" "inv od" "0 \<notin> ssc_cob_rx ` set (nc_sdo_servers config)"
  shows "wf_nd inv N (node_init config od)"
  using assms by (auto simp: node_init_def wf_nd_defs config_ok_def Let_def sdo_server_new_def wf_server_def
      tpdo_engine_new_wf rpdo_engine_new_wf heartbeat_producer_new_def emcy_producer_new_inv)
    (simp_all add: tpdo_engine_new_def rpdo_engine_new_def Let_def)

lemma write_pdo_cob_ids_wf:
  assumes "wf_nd inv N nd"
  shows "\<exists>od. write_pdo_cob_ids_to_od ops nd = Some (nd\<lparr>nd_od := od\<rparr>) \<and> wf_nd inv N (nd\<lparr>nd_od := od\<rparr>)"
proof -
  let ?ts = "te_pdos (nd_tpdo nd)" let ?rs = "re_pdos (nd_rpdo nd)"
  have w: "offsets_ok (map tc_od_number ?ts)" "offsets_ok (map rc_od_number ?rs)" "inv (nd_od nd)"
    using assms by (simp_all add: wf_nd_defs)
  obtain od1 where 1: "for_each (\<lambda>n od. do { i \<leftarrow> add_u16 0x1800 (pdo_od_offset (tc_od_number (?ts ! n)) n);
      Some (snd (od_write ops od i 1 (to_le_bytes 4 (cob_entry (tc_cob_id (?ts ! n)) (tc_enabled (?ts ! n)))))) })
      (te_slots (nd_tpdo nd)) (nd_od nd) = Some od1" "inv od1"
    using write_cob_ids_inv [OF w(1,3), of "0x1800" "\<lambda>c. to_le_bytes 4 (cob_entry (tc_cob_id c) (tc_enabled c))"] by auto
  obtain od2 where 2: "for_each (\<lambda>n od. do { i \<leftarrow> add_u16 0x1400 (pdo_od_offset (rc_od_number (?rs ! n)) n);
      Some (snd (od_write ops od i 1 (to_le_bytes 4 (cob_entry (rc_cob_id (?rs ! n)) (rc_enabled (?rs ! n)))))) })
      (re_slots (nd_rpdo nd)) od1 = Some od2" "inv od2"
    using write_cob_ids_inv [OF w(2) 1(2), of "0x1400" "\<lambda>c. to_le_bytes 4 (cob_entry (rc_cob_id c) (rc_enabled c))"] by auto
  have "write_pdo_cob_ids_to_od ops nd = Some (nd\<lparr>nd_od := od2\<rparr>)"
    using 1(1) 2(1) by (simp add: write_pdo_cob_ids_to_od_def Let_def)
  then show ?thesis using assms 2(2) by (auto simp: wf_nd_defs)
qed

text \<open>A node that construction accepts is well-formed and waits for its boot sequence.\<close>

lemma node_new_wf:
  assumes "node_new ops config od = Some nd" "config_ok config" "inv od"
  shows "wf_nd inv N nd \<and> life_of nd = (False, Initializing) \<and> nd_node_id nd = nc_node_id config"
proof -
  let ?nd0 = "node_init config od"
  have 0: "wf_nd inv N ?nd0" using assms(2,3) node_new_rx_nonzero [OF assms(1)] by (rule node_init_wf)
  have l0: "life_of ?nd0 = (False, Initializing) \<and> nd_node_id ?nd0 = nc_node_id config"
    by (simp add: node_init_def life_of_def nmt_new_def Let_def)
  obtain od1 where 1: "write_pdo_cob_ids_to_od ops ?nd0 = Some (?nd0\<lparr>nd_od := od1\<rparr>)" "wf_nd inv N (?nd0\<lparr>nd_od := od1\<rparr>)"
    using write_pdo_cob_ids_wf [OF 0] by blast
  define nd3 where "nd3 = ?nd0\<lparr>nd_od := od_store_error_register ops (od_store_sdo_server_cob_ids ops od1 (nc_node_id config))
     (ep_error_register (nd_emcy ?nd0))\<rparr>"
  have "wf_nd inv N nd3" using 1(2) store_error_register_inv store_sdo_server_inv by (simp add: nd3_def wf_nd_defs)
  then have 3: "wf_nd inv N (sync_heartbeat_from_od ops False nd3)" by (rule sync_heartbeat_wf)
  then obtain c w p where "sync_config_from_od ops (sync_heartbeat_from_od ops False nd3) =
      Some ((sync_heartbeat_from_od ops False nd3)\<lparr>nd_sync := c, nd_sync_window := w, nd_sync_producer := p\<rparr>)"
    "wf_nd inv N ((sync_heartbeat_from_od ops False nd3)\<lparr>nd_sync := c, nd_sync_window := w, nd_sync_producer := p\<rparr>)"
    using sync_config_wf by blast
  then show ?thesis using assms(1) 1(1) l0
    by (auto simp: node_new_def nd3_def Let_def life_of_def sync_heartbeat_keeps split: bind_splits)
qed

end

end
