(* ===== verification/Node_Cycle.thy ===== *)
theory Node_Cycle
  imports Node_Inv
begin

text \<open>
  One processing cycle. Every handler and every stage of \<open>process\<close> returns, keeps the node
  well-formed and uses the transport lawfully; the receive loop ends because a lawful transport
  hands out its backlog; and boot flag and NMT state follow the abstract machine. The proofs are
  done once, in the locale \<open>node_on_transport\<close>.
\<close>

section \<open>A node on a transport\<close>

locale node_on_transport = node_dictionary ops val inv + tr: can_transport tops backlog sent t_inv
  for ops :: "'od od_ops" and val inv
    and tops :: "'t can_ops" and backlog sent t_inv
begin

text \<open>A handler returns, keeps the node well-formed and treats the transport lawfully.\<close>

definition good_life :: "nat \<Rightarrow> 'od node \<Rightarrow> 't \<Rightarrow> ('od node \<times> 't) option \<Rightarrow> bool" where
  "good_life N nd t r \<longleftrightarrow> (\<exists>nd' t'. r = Some (nd', t') \<and> wf_nd inv N nd' \<and> same_life nd nd'
     \<and> tr_step backlog sent t_inv t t')"

lemma good_life_refl: "wf_nd inv N nd \<Longrightarrow> t_inv t \<Longrightarrow> good_life N nd t (Some (nd, t))"
  by (auto simp: good_life_def tr_step_refl)

lemma finish_request_wf:
  assumes "wf_nd inv N nd" "valid_sel sel nd"
  shows "\<exists>nd'. finish_request ops sel was_full nd = Some nd' \<and> wf_nd inv N nd' \<and> same_life nd nd'"
proof -
  let ?srv = "snd (take_committed_write (sel_server sel nd))"
  let ?c = "committed_write (sel_server sel nd)"
  let ?nd1 = "put_server sel ?srv nd"
  define nd2 where "nd2 = (if was_full \<and> ?c \<noteq> None
     then ?nd1\<lparr>nd_event_overflow_count := saturating_add (nd_event_overflow_count ?nd1) 1\<rparr> else ?nd1)"
  have "wf_server ?srv" using sel_server_wf [OF assms] by (simp add: take_committed_write_def wf_server_def)
  then have "wf_nd inv N ?nd1" by (rule put_server_wf [OF assms(1)])
  then have 2: "wf_nd inv N nd2" by (simp add: nd2_def wf_nd_defs)
  have "same_life nd ?nd1" by simp
  then have l: "same_life nd nd2" by (simp add: nd2_def same_life_def)
  have eq: "finish_request ops sel was_full nd =
      (case ?c of None \<Rightarrow> Some nd2 | Some (index, _) \<Rightarrow> resync_committed ops index nd2)"
    unfolding finish_request_def take_committed_write_def Let_def nd2_def prod.case snd_conv by (simp split: option.split)
  show ?thesis
  proof (cases ?c)
    case None
    with eq 2 l show ?thesis by simp
  next
    case (Some c)
    then obtain index sub where c: "?c = Some (index, sub)" by (cases c) auto
    obtain nd' where "resync_committed ops index nd2 = Some nd'" "wf_nd inv N nd'" "same_life nd2 nd'"
      using resync_committed_wf [OF 2] by blast
    then show ?thesis using l c eq by (auto intro: same_life_trans)
  qed
qed

lemma handle_sdo_request_wf:
  assumes "wf_nd inv N nd" "valid_sel sel nd" "t_inv t" "wf_frame f"
  shows "good_life N nd t (handle_sdo_request N ops tops sel f now (nd, t))"
proof (cases "\<not> sdo_available (nd_state nd) \<or> raw_dlc f \<noteq> 8 \<or> (frame_data f ! 0 \<noteq> 0x80 \<and> ptx_frame (sel_tx sel nd) \<noteq> None)")
  case True
  have "length (frame_data f) = 8" if "raw_dlc f = 8" using length_frame_data [OF assms(4)] that by simp
  with True good_life_refl [OF assms(1,3)] show ?thesis
    by (auto simp: handle_sdo_request_def assert_that_eq)
next
  case False
  then have len: "length (frame_data f) = 8" using length_frame_data [OF assms(4)] by simp
  define nd1 where "nd1 = (if frame_data f ! 0 = 0x80 then put_tx sel ((sel_tx sel nd)\<lparr>ptx_frame := None\<rparr>) nd else nd)"
  have 1: "wf_nd inv N nd1" "valid_sel sel nd1" "same_life nd nd1"
    using assms put_tx_wf [OF assms(1)] by (simp_all add: nd1_def)
  let ?io = "\<lparr>io_server = sel_server sel nd1, io_od = nd_od nd1, io_response = replicate 8 0, io_events = nd_event_queue nd1\<rparr>"
  have "wf_io inv N ?io" using 1 sel_server_wf [OF 1(1,2)] by (simp add: wf_io_def wf_nd_def)
  from process_with_context_wf [OF this len] obtain ok io where io:
    "process_with_context N ops (frame_data f) (node_context ops nd1 now) ?io = Some (ok, io)" "wf_io inv N io"
    unfolding returns_wf_def by blast
  define nd2 where "nd2 = put_server sel (io_server io) (nd1\<lparr>nd_od := io_od io, nd_event_queue := io_events io\<rparr>)"
  have "wf_nd inv N (nd1\<lparr>nd_od := io_od io, nd_event_queue := io_events io\<rparr>)"
    by (rule wf_nd_events [OF 1(1)]) (use io(2) in \<open>simp_all add: wf_io_def\<close>)
  then have 2: "wf_nd inv N nd2" "valid_sel sel nd2" "same_life nd nd2"
    using io(2) 1(2,3) unfolding nd2_def
    by (auto simp: wf_io_def intro!: put_server_wf) (auto simp: valid_sel_def same_life_def split: sdo_server_sel.splits)
  obtain p t' where p: "(if ok then ptx_try_send tops (ptx_queue (sel_tx sel nd2) (sel_cob sel nd2) (io_response io) now, t)
      else (sel_tx sel nd2, t)) = (p, t')" by fastforce
  then have t': "tr_step backlog sent t_inv t t'"
    using tr.try_send_tr [OF assms(3)] tr_step_refl [of t_inv, OF assms(3)] by (auto split: if_splits)
  obtain nd3 where 3: "finish_request ops sel (length (nd_event_queue nd1) \<ge> N) (put_tx sel p nd2) = Some nd3"
      "wf_nd inv N nd3" "same_life (put_tx sel p nd2) nd3"
    using finish_request_wf [OF put_tx_wf [OF 2(1)]] 2(2) by (metis put_valid(2))
  have "same_life nd nd3" using 2(3) 3(3) by (meson put_life(2) same_life_trans)
  moreover have "handle_sdo_request N ops tops sel f now (nd, t) = Some (nd3, t')"
  proof -
    have g: "(\<not> sdo_available (nd_state nd) \<or> raw_dlc f \<noteq> 8) = False"
      "(frame_data f ! 0 \<noteq> 0x80 \<and> ptx_frame (sel_tx sel nd) \<noteq> None) = False" using False by auto
    show ?thesis
      unfolding handle_sdo_request_def prod.case Let_def g if_False nd1_def [symmetric] assert_that_eq [OF len]
      by (simp only: io(1) Option.bind.bind_lunit prod.case nd2_def [symmetric] p 3(1))
  qed
  ultimately show ?thesis using 3(2) t' by (auto simp: good_life_def)
qed

lemma handle_sync_wf:
  assumes "wf_nd inv N nd" "t_inv t"
  shows "good_life N nd t (handle_sync N ops tops now (nd, t))"
proof (cases "nd_state nd = Operational")
  case True
  have wf: "wf_rpdo_engine (nd_rpdo nd)" "wf_tpdo_engine (nd_tpdo nd)" "inv (nd_od nd)" "length (nd_event_queue nd) \<le> N"
    using assms(1) by (simp_all add: wf_nd_defs)
  obtain od events dropped where r: "rpdo_on_sync N ops (nd_rpdo nd) (nd_od nd) (nd_event_queue nd)
      = Some (discard_pending (nd_rpdo nd), od, events, dropped)" "inv od" "length events \<le> N"
    using rpdo_on_sync_spec [OF wf(3,4,1)] by blast
  let ?e = "synced_upto (length (te_pdos (nd_tpdo nd))) (nd_tpdo nd)"
  obtain out where tp: "tpdo_on_sync ops od (nd_tpdo nd) [] = Some (?e, out)" using tpdo_on_sync_spec [OF wf(2) r(2)] by blast
  have e: "te_pdos ?e = te_pdos (nd_tpdo nd)" "wf_tpdo_engine ?e" using synced_wf [OF wf(2)] by (simp_all add: synced_upto_def)
  obtain refused t' where x: "transmit_all tops (tpdo_count nd) out ([], t) = (refused, t')" by fastforce
  then have t': "tr_step backlog sent t_inv t t'" "length refused \<le> tpdo_count nd" using tr.transmit_all_tr [OF assms(2), of "[]"] by auto
  have "wf_rpdo_engine (discard_pending (nd_rpdo nd))" using wf(1) by (simp add: wf_rpdo_engine_def discard_pending_def Let_def)
  then show ?thesis using True r tp e x t' assms(1)
    by (simp add: handle_sync_def good_life_def wf_nd_defs same_life_def)
qed (use good_life_refl [OF assms] in \<open>simp add: handle_sync_def\<close>)

lemma retry_wf:
  assumes "wf_nd inv N nd" "t_inv t"
  shows "good_life N nd t (Some (retry_pending_sync_tpdo tops now (nd, t)))"
proof -
  obtain refused t' where x: "transmit_all tops (tpdo_count nd) (nd_pending_sync_tpdo nd) ([], t) = (refused, t')" by fastforce
  then have "tr_step backlog sent t_inv t t'" "length refused \<le> tpdo_count nd" using tr.transmit_all_tr [OF assms(2), of "[]"] by auto
  with x assms show ?thesis
    by (auto simp: retry_pending_sync_tpdo_def good_life_def wf_nd_defs same_life_def tr_step_refl)
qed

lemma process_rpdo_frame_wf:
  assumes "wf_nd inv N nd"
  shows "\<exists>nd'. process_rpdo_frame N ops f now nd = Some nd' \<and> wf_nd inv N nd' \<and> same_life nd nd'"
proof -
  obtain c d e' od' ev' where "rpdo_process N ops f now (nd_rpdo nd) (nd_od nd) (nd_event_queue nd) = Some (c, d, e', od', ev')"
    "inv od'" "length ev' \<le> N" "wf_rpdo_engine e'" "re_pdos e' = re_pdos (nd_rpdo nd)"
    using rpdo_process_total [of "nd_od nd" "nd_event_queue nd" N "nd_rpdo nd" f now] assms by (auto simp: wf_nd_defs)
  with assms show ?thesis by (simp add: process_rpdo_frame_def wf_nd_defs same_life_def)
qed

lemma dispatch_nmt_wf:
  assumes "wf_nd inv N nd" "wf_frame f" "raw_id f = 0"
  shows "\<exists>nd'. dispatch_nmt ops f nd = Some nd' \<and> wf_nd inv N nd' \<and> nd_node_id nd' = nd_node_id nd
    \<and> life_of nd' = life_frame (nd_node_id nd) f (life_of nd)"
proof (cases "raw_dlc f = 2")
  case True
  then have "length (frame_data f) = 2" using length_frame_data [OF assms(2)] by simp
  then obtain b0 b1 where b: "frame_data f = [b0, b1]" by (auto simp: length_Suc_conv numeral_2_eq_2)
  show ?thesis
  proof (cases "nmt_from_byte b0")
    case None
    with True b assms show ?thesis by (simp add: dispatch_nmt_def life_frame_def)
  next
    case (Some cmd)
    obtain tr h where p: "process_command (nd_nmt nd) cmd b1 (nd_node_id nd) = (tr, h)" by fastforce
    let ?nd = "nd\<lparr>nd_nmt := h\<rparr>"
    have wf: "wf_nd inv N ?nd" using assms(1) by (simp add: wf_nd_defs)
    have life: "life_frame (nd_node_id nd) f (nd_booted nd, nd_state nd) =
        (if tr = TransResetApplication \<or> tr = TransResetCommunication then False else nd_booted nd, nmt_state h)"
      using p True b Some assms(3)
      by (auto simp: life_frame_def life_of_def life_command_def process_command_def commanded_state_def Let_def
          split: if_splits nmt_command.splits)
    have reset: "\<exists>nd'. reset_communication ops rt ?nd = Some nd' \<and> wf_nd inv N nd' \<and> nd_node_id nd' = nd_node_id nd
        \<and> life_of nd' = (False, nmt_state h)" for rt
      using reset_communication_wf [OF wf, of rt] by (auto simp: same_life_def life_of_def)
    have leave: "wf_nd inv N (leave_operational ?nd)" "same_life ?nd (leave_operational ?nd)"
      using leave_operational_wf [OF wf] by auto
    show ?thesis
    proof (cases tr)
      case StateChanged
      then show ?thesis using True b Some p wf leave abort_all_wf [OF leave(1)] abort_all_life [of "leave_operational ?nd"]
        by (auto simp: dispatch_nmt_def Let_def life same_life_def life_of_def)
    qed (use True b Some p wf reset life in \<open>simp_all add: dispatch_nmt_def Let_def life_of_def\<close>)
  qed
qed (use assms in \<open>simp add: dispatch_nmt_def life_frame_def\<close>)

text \<open>One received frame: the life cycle follows the abstract machine.\<close>

definition good_frame :: "nat \<Rightarrow> can_frame \<Rightarrow> 'od node \<Rightarrow> 't \<Rightarrow> ('od node \<times> 't) option \<Rightarrow> bool" where
  "good_frame N f nd t r \<longleftrightarrow> (\<exists>nd' t'. r = Some (nd', t') \<and> wf_nd inv N nd' \<and> nd_node_id nd' = nd_node_id nd
     \<and> life_of nd' = life_frame (nd_node_id nd) f (life_of nd) \<and> tr_step backlog sent t_inv t t')"

lemma good_frame_life: "good_life N nd t r \<Longrightarrow> raw_id f \<noteq> 0 \<Longrightarrow> good_frame N f nd t r"
  by (auto simp: good_life_def good_frame_def life_frame_def life_of_def same_life_def)

lemma good_lift:
  "\<exists>nd'. r = Some nd' \<and> wf_nd inv N nd' \<and> same_life nd nd' \<Longrightarrow> t_inv t \<Longrightarrow> good_life N nd t (map_option (\<lambda>nd. (nd, t)) r)"
  by (auto simp: good_life_def tr_step_refl)

lemma dispatch_frame_wf:
  assumes "wf_nd inv N nd" "t_inv t" "wf_frame f"
  shows "good_frame N f nd t (dispatch_frame N ops tops f now (nd, t))"
proof (cases "find (\<lambda>i. nd_extra_sdo_rx nd ! i = raw_id f) [0..<length (nd_extra_sdo nd)]")
  case (Some i)
  then have i: "i < length (nd_extra_sdo nd)" "nd_extra_sdo_rx nd ! i = raw_id f" by (auto simp: find_Some_iff)
  then have "raw_id f \<noteq> 0" using assms(1) by (metis (no_types, lifting) nth_mem wf_nd_def wf_sdo_def)
  moreover have "valid_sel (ExtraServer i) nd" using i by (simp add: valid_sel_def)
  ultimately show ?thesis using Some handle_sdo_request_wf [OF assms(1) _ assms(2,3)]
    by (simp add: dispatch_frame_def good_frame_life)
next
  case None
  note N = this
  have sync: "wf_nd inv N (nd\<lparr>nd_sync := c\<rparr>)" "same_life nd (nd\<lparr>nd_sync := c\<rparr>)" for c
    using assms(1) by (simp_all add: wf_nd_defs same_life_def)
  have lift: "good_life N nd t r" if "good_life N (nd\<lparr>nd_sync := c\<rparr>) t r" for c r
    using that same_life_trans [OF sync(2)] unfolding good_life_def by blast
  have s: "good_life N nd t (case sync_consumer_process (nd_sync nd) f of (r, c) \<Rightarrow>
      let nd1 = nd\<lparr>nd_sync := c\<rparr> in if r \<noteq> None then handle_sync N ops tops now (nd1, t) else Some (nd1, t))"
    using lift [OF handle_sync_wf [OF sync(1) assms(2)]] lift [OF good_life_refl [OF sync(1) assms(2)]]
    by (auto simp: Let_def split: prod.split)
  have l: "good_life N nd t (case lss_process (nd_lss nd) f of (resp, l) \<Rightarrow>
      Some (nd\<lparr>nd_lss := l\<rparr>, case resp of Some r \<Rightarrow> snd (can_transmit tops t r) | None \<Rightarrow> t))"
    using assms tr.transmit_tr [OF assms(2), OF surjective_pairing]
    by (auto simp: good_life_def wf_nd_defs same_life_def tr_step_refl split: prod.split option.split)
  have d: "good_life N nd t (handle_sdo_request N ops tops DefaultServer f now (nd, t))"
    by (rule handle_sdo_request_wf [OF assms(1) _ assms(2,3)]) (simp add: valid_sel_def)
  have h: "good_life N nd t (map_option (\<lambda>nd. (nd, t)) (case monitor_slot_for f nd of
      Some slot \<Rightarrow> dispatch_heartbeat slot f now nd | None \<Rightarrow> process_rpdo_frame N ops f now nd))"
    using dispatch_heartbeat_wf [OF assms(1) _ assms(3)] process_rpdo_frame_wf [OF assms(1)]
    by (intro good_lift assms(2)) (simp split: option.split)
  show ?thesis
  proof (cases "raw_id f = 0")
    case True
    have "sync_consumer_cob_id (nd_sync nd) \<noteq> Some 0" by (simp add: sync_consumer_cob_id_def)
    with True N have "dispatch_frame N ops tops f now (nd, t) = map_option (\<lambda>nd. (nd, t)) (dispatch_nmt ops f nd)"
      by (simp add: dispatch_frame_def cob_nmt_def)
    then show ?thesis using dispatch_nmt_wf [OF assms(1,3) True] assms(2) by (auto simp: good_frame_def tr_step_refl)
  next
    case False
    then have nmt: "(raw_id f = cob_raw cob_nmt) = False" by (simp add: cob_nmt_def)
    have "good_life N nd t (dispatch_frame N ops tops f now (nd, t))"
      unfolding dispatch_frame_def prod.case N option.case nmt if_False
      by (simp only: if_split [of "good_life N nd t"] s l d h simp_thms)
    then show ?thesis by (rule good_frame_life [OF _ False])
  qed
qed

text \<open>The receive loop ends, and the life cycle has followed every frame of the backlog.\<close>

lemma drain_incoming_wf:
  assumes "wf_nd inv N nd" "t_inv t" "list_all wf_frame (backlog t)"
  shows "\<exists>nd' t' fs. drain_incoming N ops tops now (nd, t) = Some (nd', t') \<and> wf_nd inv N nd' \<and> nd_node_id nd' = nd_node_id nd
    \<and> life_of nd' = fold (life_frame (nd_node_id nd)) (backlog t) (life_of nd) \<and> t_inv t' \<and> backlog t' = []
    \<and> sent t' = sent t @ fs"
  using assms
proof (induction "backlog t" arbitrary: nd t)
  case Nil
  from tr.receive_empty [OF Nil(3) Nil(1) [symmetric]] obtain e t' where
    "can_receive tops t = (Inl e, t')" "t_inv t'" "backlog t' = []" "sent t' = sent t" by blast
  with Nil show ?case by (subst drain_incoming.simps) (simp flip: Nil(1))
next
  case (Cons f fs)
  from tr.receive_frame [OF Cons(4) Cons(2) [symmetric]] obtain t1 where
    t1: "can_receive tops t = (Inr f, t1)" "t_inv t1" "backlog t1 = fs" "sent t1 = sent t" by blast
  have ok: "list_all wf_frame (f # fs)" using Cons(5) by (simp flip: Cons(2))
  then have "wf_frame f" by simp
  from dispatch_frame_wf [OF Cons(3) t1(2) this] obtain nd2 t2 where
    2: "dispatch_frame N ops tops f now (nd, t1) = Some (nd2, t2)" "wf_nd inv N nd2" "nd_node_id nd2 = nd_node_id nd"
      "life_of nd2 = life_frame (nd_node_id nd) f (life_of nd)" "tr_step backlog sent t_inv t1 t2"
    unfolding good_frame_def by blast
  have "fs = backlog t2" "t_inv t2" "list_all wf_frame (backlog t2)"
    using 2(5) t1(3) ok by (auto simp: tr_step_def)
  from Cons(1) [OF this(1) 2(2) this(2,3)] show ?case
    using t1 2 Cons(2) \<open>fs = backlog t2\<close>
    by (subst drain_incoming.simps) (auto simp: tr_step_def simp flip: Cons(2))
qed

text \<open>The other stages of the cycle.\<close>

lemma boot_sequence_wf:
  assumes "wf_nd inv N nd" "t_inv t"
  shows "\<exists>go nd' t'. boot_sequence tops now (nd, t) = Some (go, nd', t') \<and> wf_nd inv N nd'
    \<and> nd_node_id nd' = nd_node_id nd \<and> tr_step backlog sent t_inv t t' \<and> (go \<longleftrightarrow> boots tops nd t)
    \<and> life_of nd' = (if go then life_boot (nd_auto_start nd) (life_of nd) else life_of nd)"
proof (cases "nd_booted nd")
  case True
  with assms show ?thesis by (auto simp: boot_sequence_def tr_step_refl life_boot_def life_of_def boots_def)
next
  case False
  have "wf_node (hp_node_id (nd_heartbeat nd))" using assms(1) by (simp add: wf_nd_defs)
  from heartbeat_frame_eq [OF this] obtain bf where
    bf: "heartbeat_frame (hp_node_id (nd_heartbeat nd)) Initializing = Some bf" by blast
  then have b: "send_boot (nd_heartbeat nd) now = Some (bf, (nd_heartbeat nd)\<lparr>hp_last_sent_us := now\<rparr>)" by (simp add: send_boot_def)
  obtain r t' where r: "can_transmit tops t bf = (r, t')" by fastforce
  then have "tr_step backlog sent t_inv t t'" by (rule tr.transmit_tr [OF assms(2)])
  moreover have "boots tops nd t \<longleftrightarrow> r \<noteq> Inl WouldBlock" using False bf r by (simp add: boots_def)
  ultimately show ?thesis using False b r assms(1)
    by (cases "r = Inl WouldBlock") (auto simp: boot_sequence_def Let_def wf_nd_defs life_boot_def life_of_def
        boot_complete_def process_command_def)
qed

lemma good_life_step:
  assumes "good_life N nd t r" and "\<And>nd' t'. wf_nd inv N nd' \<Longrightarrow> t_inv t' \<Longrightarrow> good_life N nd' t' (f (nd', t'))"
  shows "good_life N nd t (Option.bind r f)"
proof -
  obtain nd' t' where 1: "r = Some (nd', t')" "wf_nd inv N nd'" "same_life nd nd'" "tr_step backlog sent t_inv t t'"
    using assms(1) unfolding good_life_def by blast
  with assms(2) [of nd' t'] tr_step_inv [OF 1(4)] show ?thesis
    unfolding good_life_def by (auto intro: same_life_trans tr_step_trans)
qed

lemma produce_sync_wf:
  assumes "wf_nd inv N nd" "t_inv t"
  shows "good_life N nd t (produce_sync N ops tops now (nd, t))"
proof (cases "nd_booted nd \<and> nd_state nd \<noteq> Stopped")
  case True
  obtain r p where p: "sync_producer_poll (nd_sync_producer nd) now = (r, p)" by fastforce
  have set: "wf_nd inv N (nd\<lparr>nd_sync_producer := q\<rparr>)" "same_life nd (nd\<lparr>nd_sync_producer := q\<rparr>)" for q
    using assms(1) by (simp_all add: wf_nd_defs same_life_def)
  show ?thesis
  proof (cases r)
    case None
    with True p set assms(2) show ?thesis by (auto simp: produce_sync_def good_life_def tr_step_refl)
  next
    case (Some f)
    obtain ok t' where x: "can_transmit tops t f = (ok, t')" by fastforce
    then have t': "tr_step backlog sent t_inv t t'" by (rule tr.transmit_tr [OF assms(2)])
    let ?nd = "nd\<lparr>nd_sync_producer := sync_producer_confirm_sent p now\<rparr>"
    from handle_sync_wf [OF set(1) tr_step_inv [OF t']] obtain nd2 t2 where
      "handle_sync N ops tops now (?nd, t') = Some (nd2, t2)" "wf_nd inv N nd2" "same_life ?nd nd2" "tr_step backlog sent t_inv t' t2"
      unfolding good_life_def by blast
    with True p Some x t' set show ?thesis
      by (auto simp: produce_sync_def good_life_def Let_def intro: tr_step_trans same_life_trans)
  qed
qed (use good_life_refl [OF assms] in \<open>auto simp: produce_sync_def\<close>)

lemma produce_heartbeat_wf:
  assumes "wf_nd inv N nd" "t_inv t"
  shows "good_life N nd t (produce_heartbeat tops now (nd, t))"
proof -
  have "wf_node (hp_node_id (nd_heartbeat nd))" using assms(1) by (simp add: wf_nd_defs)
  then obtain r where r: "heartbeat_pending (nd_heartbeat nd) now (nd_state nd) = Some r" using heartbeat_pending_total by blast
  show ?thesis using r assms tr.transmit_tr [OF assms(2)]
    by (auto simp: produce_heartbeat_def good_life_def wf_nd_defs same_life_def heartbeat_confirm_sent_def tr_step_refl
        split: option.split prod.split)
qed

lemma send_emcy_wf:
  assumes "wf_nd inv N nd" "t_inv t"
  shows "good_life N nd t (Some (send_emcy tops (nd, t)))"
proof -
  obtain p t' where e: "emcy_drain tops (nd_emcy nd, t) = (p, t')" by fastforce
  then have "tr_step backlog sent t_inv t t'" "emcy_inv p"
    using tr.emcy_drain_tr [OF assms(2)] assms(1) by (auto simp: wf_nd_def)
  with e assms show ?thesis
    by (auto simp: send_emcy_def good_life_def wf_nd_defs same_life_def tr_step_refl)
qed

text \<open>The slots hand frames to the transport one by one.\<close>

lemma tpdo_poll_slot_tr:
  assumes "t_inv t" "tpdo_poll_slot ops od now dirty (\<lambda>t f. case can_transmit tops t f of (r, t') \<Rightarrow> (is_ok r, t')) i (e, t) = Some (e', t')"
  shows "tr_step backlog sent t_inv t t'"
  using assms tr.transmit_tr [OF assms(1)]
  by (auto simp: tpdo_poll_slot_def Let_def tr_step_refl split: if_splits bind_splits option.splits prod.splits)

lemma tpdo_poll_tr:
  assumes "t_inv t" "inv od" "wf_tpdo_engine e"
  shows "\<exists>e' t'. tpdo_poll_with ops od now dirty (\<lambda>t f. case can_transmit tops t f of (r, t') \<Rightarrow> (is_ok r, t')) e t = Some (e', t')
    \<and> wf_poll e e' \<and> tr_step backlog sent t_inv t t'"
proof -
  let ?acc = "\<lambda>t f. case can_transmit tops t f of (r, t') \<Rightarrow> (is_ok r, t')"
  let ?P = "\<lambda>(e', t'). wf_poll e e' \<and> tr_step backlog sent t_inv t t'"
  have "\<exists>s'. for_each (tpdo_poll_slot ops od now dirty ?acc) (te_slots e) (e, t) = Some s' \<and> ?P s'"
  proof (rule for_each_inv)
    fix i and s :: "tpdo_engine \<times> 't"
    assume "?P s"
    then obtain e1 t1 where s: "s = (e1, t1)" "wf_poll e e1" "tr_step backlog sent t_inv t t1" by (cases s) auto
    obtain e2 t2 where 2: "tpdo_poll_slot ops od now dirty ?acc i (e1, t1) = Some (e2, t2)" "wf_poll e1 e2"
      using tpdo_poll_slot_total [OF assms(2), of e1 now dirty ?acc i t1] s(2) by (auto simp: wf_poll_def)
    then show "\<exists>s'. tpdo_poll_slot ops od now dirty ?acc i s = Some s' \<and> ?P s'"
      using s tpdo_poll_slot_tr [OF tr_step_inv [OF s(3)] 2(1)] by (auto simp: wf_poll_def intro: tr_step_trans)
  qed (use assms in \<open>simp add: wf_poll_def tr_step_refl\<close>)
  then show ?thesis by (auto simp: tpdo_poll_with_def)
qed

lemma poll_tpdos_wf:
  assumes "wf_nd inv N nd" "t_inv t"
  shows "good_life N nd t (poll_tpdos ops tops now (nd, t))"
proof -
  have "inv (nd_od nd)" "wf_tpdo_engine (nd_tpdo nd)" using assms(1) by (simp_all add: wf_nd_defs)
  from tpdo_poll_tr [OF assms(2) this, of now "nd_dirty_set nd"] show ?thesis using assms
    by (auto simp: poll_tpdos_def good_life_def wf_nd_defs wf_poll_def same_life_def tr_step_refl)
qed

lemma process_booted_wf:
  assumes "wf_nd inv N nd" "t_inv t" "list_all wf_frame (backlog t)"
  shows "\<exists>nd' t' fs. process_booted N ops tops now (nd, t) = Some (nd', t') \<and> wf_nd inv N nd' \<and> nd_node_id nd' = nd_node_id nd
    \<and> life_of nd' = fold (life_frame (nd_node_id nd)) (backlog t) (life_of nd) \<and> t_inv t' \<and> backlog t' = []
    \<and> sent t' = sent t @ fs"
proof -
  define nd1 where "nd1 = nd\<lparr>nd_tpdo := latch_sync_events (nd_dirty_set nd) (nd_tpdo nd)\<rparr>"
  have 1: "wf_nd inv N nd1" "same_life nd nd1"
    using assms(1) latch_sync_events_wf [of "nd_tpdo nd" "nd_dirty_set nd"] by (auto simp: nd1_def wf_nd_defs same_life_def)
  define nd2 where "nd2 = fold (begin_poll_sel now) (all_servers nd1) nd1"
  have 2: "wf_nd inv N nd2" "same_life nd nd2"
    using begin_poll_all_wf [OF 1(1) all_servers_valid] same_life_trans [OF 1(2)] by (auto simp: nd2_def)
  obtain nd3 t3 fs where 3: "drain_incoming N ops tops now (nd2, t) = Some (nd3, t3)" "wf_nd inv N nd3"
      "nd_node_id nd3 = nd_node_id nd2" "life_of nd3 = fold (life_frame (nd_node_id nd2)) (backlog t) (life_of nd2)"
      "t_inv t3" "backlog t3 = []" "sent t3 = sent t @ fs"
    using drain_incoming_wf [OF 2(1) assms(2,3)] by blast
  have "good_life N nd3 t3 (for_each (service_sel tops now) (all_servers nd3) (nd3, t3))"
    using tr.service_all_wf [OF 3(5,2) all_servers_valid] unfolding good_life_def by blast
  then have "good_life N nd3 t3 (Option.bind (for_each (service_sel tops now) (all_servers nd3) (nd3, t3))
      (produce_sync N ops tops now))" by (rule good_life_step) (rule produce_sync_wf)
  then have "good_life N nd3 t3 (Option.bind (Option.bind (for_each (service_sel tops now) (all_servers nd3) (nd3, t3))
      (produce_sync N ops tops now)) (\<lambda>s. Some (retry_pending_sync_tpdo tops now s)))"
    by (rule good_life_step) (rule retry_wf)
  then obtain s4 s5 nd6 t6 where 6: "for_each (service_sel tops now) (all_servers nd3) (nd3, t3) = Some s4"
      "produce_sync N ops tops now s4 = Some s5" "retry_pending_sync_tpdo tops now s5 = (nd6, t6)"
      "wf_nd inv N nd6" "same_life nd3 nd6" "tr_step backlog sent t_inv t3 t6"
    unfolding good_life_def by (auto split: bind_splits)
  obtain nd7 where 7: "monitor_deadlines N now nd6 = Some nd7" "wf_nd inv N nd7" "same_life nd6 nd7"
    using monitor_deadlines_wf [OF 6(4)] by blast
  obtain nd8 t8 where 8: "produce_heartbeat tops now (nd7, t6) = Some (nd8, t8)" "wf_nd inv N nd8" "same_life nd7 nd8"
      "tr_step backlog sent t_inv t6 t8"
    using produce_heartbeat_wf [OF 7(2) tr_step_inv [OF 6(6)]] unfolding good_life_def by blast
  let ?nd8 = "check_monitors now nd8"
  have 88: "wf_nd inv N ?nd8" "same_life nd8 ?nd8" using check_monitors_wf [OF 8(2)] by auto
  have "good_life N ?nd8 t8 (Option.bind (Some (send_emcy tops (?nd8, t8))) (poll_tpdos ops tops now))"
    by (rule good_life_step [OF send_emcy_wf [OF 88(1) tr_step_inv [OF 8(4)]]]) (rule poll_tpdos_wf)
  then obtain nd10 t10 where 10: "poll_tpdos ops tops now (send_emcy tops (?nd8, t8)) = Some (nd10, t10)" "wf_nd inv N nd10"
      "same_life ?nd8 nd10" "tr_step backlog sent t_inv t8 t10"
    unfolding good_life_def by auto
  have "tr_step backlog sent t_inv t3 t10" using 6(6) 8(4) 10(4) by (blast intro: tr_step_trans)
  moreover have "same_life nd3 nd10" using 6(5) 7(3) 8(3) 88(2) 10(3) by (blast intro: same_life_trans)
  moreover have "process_booted N ops tops now (nd, t) = Some (nd10\<lparr>nd_dirty_set := []\<rparr>, t10)"
    unfolding process_booted_def prod.case Let_def nd1_def [symmetric] nd2_def [symmetric]
    by (simp only: 3(1) 6(1-3) 7(1) 8(1) 10(1) Option.bind.bind_lunit prod.case)
  ultimately show ?thesis using 2(2) 3 10(2)
    by (auto simp: tr_step_def wf_nd_defs same_life_def life_of_def)
qed

lemma process_wf:
  assumes "wf_nd inv N nd" "t_inv t" "list_all wf_frame (backlog t)"
  shows "\<exists>nd' t' fs. process N ops tops now (nd, t) = Some (nd', t') \<and> wf_nd inv N nd' \<and> nd_node_id nd' = nd_node_id nd
    \<and> t_inv t' \<and> sent t' = sent t @ fs
    \<and> (if boots tops nd t then backlog t' = [] \<and> life_of nd' = fold (life_frame (nd_node_id nd)) (backlog t)
           (life_boot (nd_auto_start nd) (life_of nd))
       else backlog t' = backlog t \<and> life_of nd' = life_of nd)"
proof -
  obtain nd1 t1 where 1: "boot_sequence tops now (nd, t) = Some (boots tops nd t, nd1, t1)" "wf_nd inv N nd1"
      "nd_node_id nd1 = nd_node_id nd" "tr_step backlog sent t_inv t t1"
      "life_of nd1 = (if boots tops nd t then life_boot (nd_auto_start nd) (life_of nd) else life_of nd)"
    using boot_sequence_wf [OF assms(1,2)] by blast
  show ?thesis
  proof (cases "boots tops nd t")
    case True
    have "list_all wf_frame (backlog t1)" "t_inv t1" "backlog t1 = backlog t" using 1(4) assms(3) by (auto simp: tr_step_def)
    with process_booted_wf [OF 1(2), of t1] obtain nd' t' fs where
      "process_booted N ops tops now (nd1, t1) = Some (nd', t')" "wf_nd inv N nd'" "nd_node_id nd' = nd_node_id nd1"
      "life_of nd' = fold (life_frame (nd_node_id nd1)) (backlog t) (life_of nd1)" "t_inv t'" "backlog t' = []" "sent t' = sent t1 @ fs"
      by metis
    with 1 True show ?thesis by (auto simp: process_def tr_step_def)
  next
    case False
    with 1 show ?thesis by (auto simp: process_def tr_step_def)
  qed
qed

end

end
