(* ===== verification/Node_Running.thy ===== *)
theory Node_Running
  imports Node_Cycle
begin

unbundle bit_operations_syntax

text \<open>
  The node on the generated dictionary and the mailbox: the interpretation of the locales, runs
  of a node with its driver and its application, and a concrete device on which the properties
  are applied.
\<close>

section \<open>The node on generated dictionaries and the mailbox\<close>

definition sync_fixed :: "gen_od \<Rightarrow> bool" where
  "sync_fixed od \<longleftrightarrow> sync_objects_valid (gen_val od) \<and>
     list_all (\<lambda>i. case gen_find od i 0 of Some e \<Rightarrow> meta_access (ge_meta e) = Ro \<or> meta_access (ge_meta e) = Const
       | None \<Rightarrow> True) [0x1005, 0x1019]"

definition gen_node_inv :: "od_definition \<Rightarrow> gen_od \<Rightarrow> bool" where
  "gen_node_inv d od \<longleftrightarrow> gen_inv d od \<and> sync_fixed od"

lemma sync_fixed_store:
  assumes "sync_fixed od" "(i, s) \<noteq> (0x1005, 0)" "(i, s) \<noteq> (0x1019, 0)"
  shows "sync_fixed (store_at i s v od)"
  using assms by (auto simp: sync_fixed_def sync_objects_valid_def gen_val_def gen_find_store_at)

lemma gen_node_write:
  assumes "gen_node_inv d od" "gen_write od i s data = (r, od')"
  shows "gen_node_inv d od'"
  using assms(2)
proof (cases rule: gen_write_cases)
  case refused
  then show ?thesis using assms by simp
next
  case (written e v)
  have "\<not> (meta_access (ge_meta e) = Ro \<or> meta_access (ge_meta e) = Const)"
    using written(2) by (auto simp: gen_write_arm_def Let_def)
  then have "(i, s) \<noteq> (0x1005, 0)" "(i, s) \<noteq> (0x1019, 0)"
    using assms(1) written(1) by (auto simp: gen_node_inv_def sync_fixed_def)
  then show ?thesis using assms written(4) gen_write_inv [of d od i s data] sync_fixed_store
    by (auto simp: gen_node_inv_def)
qed

lemma store_servers_fixed: "sync_fixed od \<Longrightarrow> sync_fixed (fold (store_sdo_server n) ss od)"
proof (induction ss arbitrary: od)
  case (Cons s ss)
  have "sync_fixed (store_sdo_server n s od)"
    unfolding store_sdo_server_def Let_def by (intro sync_fixed_store Cons.prems) auto
  with Cons.IH show ?case by simp
qed simp

lemma gen_node_stores:
  assumes "gen_node_inv d od"
  shows "gen_node_inv d (gen_store_error_register d od b)" "gen_node_inv d (gen_store_sdo_server_cob_ids d od n)"
proof -
  show "gen_node_inv d (gen_store_error_register d od b)"
    using assms gen_store_error_register_inv [of d od b] sync_fixed_store [of od "0x1001" 0]
    by (auto simp: gen_node_inv_def gen_store_error_register_def)
  show "gen_node_inv d (gen_store_sdo_server_cob_ids d od n)"
    using assms gen_store_sdo_server_cob_ids_inv [of d od n] store_servers_fixed
    by (auto simp: gen_node_inv_def gen_store_sdo_server_cob_ids_def)
qed

interpretation gnode: node_dictionary "gen_ops d validate" gen_val "gen_node_inv d"
  for d and validate :: "gen_od \<Rightarrow> u16 \<Rightarrow> u8 \<Rightarrow> bytes \<Rightarrow> od_error + unit"
proof unfold_locales
  fix od :: gen_od and i s data r od'
  assume "gen_node_inv d od" "od_write (gen_ops d validate) od i s data = (r, od')"
  then show "gen_node_inv d od'" using gen_node_write by (simp add: gen_ops_def)
next
  fix od :: gen_od
  assume "gen_node_inv d od"
  then show "sync_objects_valid (gen_val od)" by (simp add: gen_node_inv_def sync_fixed_def)
qed (use gen.read_ok gen.read_short gen.read_none gen.write_frame gen.write_refused
    in \<open>auto simp: gen_node_inv_def gen_ops_def intro: gen_node_stores [unfolded gen_node_inv_def, THEN conjunct1] gen_node_stores [unfolded gen_node_inv_def, THEN conjunct2]\<close>)

interpretation mnode: node_on_transport "gen_ops d validate" gen_val "gen_node_inv d"
    "mailbox_ops TX" rx_queue tx_queue "mailbox_inv TX"
  for d and validate :: "gen_od \<Rightarrow> u16 \<Rightarrow> u8 \<Rightarrow> bytes \<Rightarrow> od_error + unit" and TX :: nat
  by unfold_locales

section \<open>A running node\<close>

text \<open>
  What happens to a node on a mailbox: the driver delivers and takes frames, the main loop calls
  \<open>process\<close>, and the application reports errors, writes the dictionary through a guard,
  notifies changes and requests resets. \<open>N\<close>, \<open>D\<close>, \<open>TX\<close> and
  \<open>RX\<close> are the capacities of event queue, dirty set and mailbox.
\<close>

datatype node_input =
    Cycle u64 | Delivered can_frame | Taken
  | ReportError u16 u8 bytes | ClearErrorBits u8 | ClearAllErrors
  | GuardedWrite u16 u8 bytes | Changed u16 u8 | ResetRequest reset_type

definition with_mailbox :: "mailbox \<Rightarrow> 'od node option \<Rightarrow> ('od node \<times> mailbox) option" where
  "with_mailbox m r = map_option (\<lambda>nd. (nd, m)) r"

definition node_input_step ::
  "nat \<Rightarrow> nat \<Rightarrow> nat \<Rightarrow> nat \<Rightarrow> 'od od_ops \<Rightarrow> node_input \<Rightarrow> 'od node \<times> mailbox \<Rightarrow> ('od node \<times> mailbox) option" where
  "node_input_step N D TX RX ops x s = (case s of (nd, m) \<Rightarrow> (case x of
     Cycle now \<Rightarrow> process N ops (mailbox_ops TX) now (nd, m)
   | Delivered f \<Rightarrow> Some (nd, snd (store_received RX m f))
   | Taken \<Rightarrow> Some (nd, snd (next_to_transmit m))
   | ReportError code bits vendor \<Rightarrow> with_mailbox m (node_set_error ops D code bits vendor nd)
   | ClearErrorBits bits \<Rightarrow> with_mailbox m (node_clear_error ops D bits nd)
   | ClearAllErrors \<Rightarrow> with_mailbox m (clear_all_errors ops D nd)
   | GuardedWrite i s data \<Rightarrow> with_mailbox m
       (od_guard_drop ops (nd_od nd) (nd\<lparr>nd_od := snd (od_write ops (nd_od nd) i s data)\<rparr>))
   | Changed i s \<Rightarrow> Some (node_notify_changed D i s nd, m)
   | ResetRequest rt \<Rightarrow> with_mailbox m (request_reset ops rt nd)))"

definition input_ok :: "node_input \<Rightarrow> bool" where
  "input_ok x = (case x of Delivered f \<Rightarrow> wf_frame f | _ \<Rightarrow> True)"

definition running_ok :: "od_definition \<Rightarrow> nat \<Rightarrow> nat \<Rightarrow> gen_od node \<times> mailbox \<Rightarrow> bool" where
  "running_ok d N TX s = (case s of (nd, m) \<Rightarrow> wf_nd (gen_node_inv d) N nd \<and> mailbox_inv TX m
     \<and> list_all wf_frame (rx_queue m))"

lemma mailbox_driver_inv:
  "mailbox_inv TX m \<Longrightarrow> mailbox_inv TX (snd (next_to_transmit m))"
  "rx_queue (snd (next_to_transmit m)) = rx_queue m"
  "mailbox_inv TX m \<Longrightarrow> mailbox_inv TX (snd (store_received RX m f))"
  "list_all wf_frame (rx_queue m) \<Longrightarrow> wf_frame f \<Longrightarrow> list_all wf_frame (rx_queue (snd (store_received RX m f)))"
  by (auto simp: mailbox_inv_def next_to_transmit_def store_received_def split: list.splits)

lemma boots_mailbox:
  assumes "wf_nd od_inv N nd"
  shows "boots (mailbox_ops TX) nd m \<longleftrightarrow> nd_booted nd \<or> length (tx_queue m) < TX"
proof -
  have "wf_node (hp_node_id (nd_heartbeat nd))" using assms by (simp add: wf_nd_defs)
  from heartbeat_frame_eq [OF this] show ?thesis
    by (auto simp: boots_def mailbox_ops_def mailbox_transmit_def)
qed

lemma node_input_step_ok:
  assumes "running_ok d N TX s" "input_ok x"
  shows "\<exists>s'. node_input_step N D TX RX (gen_ops d validate) x s = Some s' \<and> running_ok d N TX s'"
proof -
  obtain nd m where s: "s = (nd, m)" "wf_nd (gen_node_inv d) N nd" "mailbox_inv TX m" "list_all wf_frame (rx_queue m)"
    using assms(1) by (cases s) (auto simp: running_ok_def)
  have lift: "\<exists>s'. with_mailbox m r = Some s' \<and> running_ok d N TX s'"
    if "\<exists>nd'. r = Some nd' \<and> wf_nd (gen_node_inv d) N nd' \<and> P nd'" for r :: "gen_od node option" and P
    using that s by (auto simp: with_mailbox_def running_ok_def)
  show ?thesis
  proof (cases x)
    case (Cycle now)
    from mnode.process_wf [OF s(2-4), of validate now] s(4) show ?thesis
      by (auto simp: s(1) Cycle node_input_step_def running_ok_def split: if_splits)
  next
    case (GuardedWrite i a data)
    have "gen_node_inv d (nd_od nd)" using s(2) by (simp add: wf_nd_def)
    then have "wf_nd (gen_node_inv d) N (nd\<lparr>nd_od := snd (od_write (gen_ops d validate) (nd_od nd) i a data)\<rparr>)"
      using s(2) gnode.write_inv [of d "nd_od nd" validate i a data]
      by (cases "od_write (gen_ops d validate) (nd_od nd) i a data") (simp add: wf_nd_defs)
    from lift [OF gnode.od_guard_drop_wf [OF this \<open>gen_node_inv d (nd_od nd)\<close>]]
    show ?thesis by (simp add: s(1) GuardedWrite node_input_step_def)
  next
    case (ResetRequest rt)
    from lift [OF gnode.request_reset_wf [OF s(2)]] show ?thesis by (simp add: s(1) ResetRequest node_input_step_def)
  next
    case (ReportError code bits vendor)
    from lift [OF gnode.error_ops_wf(1) [OF s(2)]] show ?thesis by (simp add: s(1) ReportError node_input_step_def)
  next
    case (ClearErrorBits bits)
    from lift [OF gnode.error_ops_wf(2) [OF s(2)]] show ?thesis by (simp add: s(1) ClearErrorBits node_input_step_def)
  next
    case ClearAllErrors
    from lift [OF gnode.error_ops_wf(3) [OF s(2)]] show ?thesis by (simp add: s(1) ClearAllErrors node_input_step_def)
  qed (use s assms(2) mailbox_driver_inv node_notify_wf [OF s(2)]
      in \<open>simp_all add: node_input_step_def running_ok_def input_ok_def\<close>)
qed

text \<open>The configuration taken from a generated dictionary has PDO numbers in range.\<close>

lemma offsets_of_numbers:
  assumes "\<forall>n \<in> set ns. 1 \<le> n \<and> n \<le> 512"
  shows "offsets_ok ns"
  unfolding offsets_ok_def
proof (intro allI impI)
  fix i assume "i < length ns"
  then have n: "1 \<le> ns ! i" "ns ! i \<le> 512" using assms by auto
  then have "unat (ns ! i - 1) = unat (ns ! i) - 1" "1 \<le> unat (ns ! i)" "unat (ns ! i) \<le> 512"
    using unat_sub [of 1 "ns ! i"] by (simp_all add: word_le_nat_alt)
  moreover from this(2) have "ns ! i \<noteq> 0" by auto
  ultimately show "unat (pdo_od_offset (ns ! i) i) < 512" by (simp add: pdo_od_offset_def)
qed

lemma from_od_config_ok:
  assumes "wf_definition d" "wf_node n"
  shows "config_ok ((node_config_from_od ops (gen_config_source d) od n)\<lparr>nc_auto_start := a\<rparr>)"
proof -
  have "\<forall>k \<in> set (map pd_number (def_tpdos d)). 1 \<le> k \<and> k \<le> 512" "\<forall>k \<in> set (map pd_number (def_rpdos d)). 1 \<le> k \<and> k \<le> 512"
    using assms(1) by (auto simp: wf_definition_def list_all_iff def_tpdos_def def_rpdos_def)
  then have "offsets_ok (map pd_number (def_tpdos d))" "offsets_ok (map pd_number (def_rpdos d))"
    by (simp_all only: offsets_of_numbers)
  moreover have "map tc_od_number (tpdo_configs d od n) = map pd_number (def_tpdos d)"
    "map rc_od_number (rpdo_configs d od n) = map pd_number (def_rpdos d)"
    by (simp_all add: tpdo_configs_def rpdo_configs_def tpdo_config_from_def rpdo_config_from_def Let_def)
  ultimately show ?thesis using assms(2)
    by (simp add: config_ok_def node_config_from_od_def gen_config_source_def)
qed

text \<open>When construction is accepted: no extra SDO servers, no monitors, default SYNC.\<close>

context node_dictionary
begin

lemma write_cob_ids_val:
  assumes "inv od" "\<And>n. n \<in> set ns \<Longrightarrow> 0x1400 \<le> unat (base n)" "i < 0x1400"
    and "for_each (\<lambda>n od. do { j \<leftarrow> add_u16 (base n) (off n); Some (snd (od_write ops od j 1 (data n))) }) ns od = Some od'"
  shows "inv od' \<and> val od' i s = val od i s"
  using assms
proof (induction ns arbitrary: od)
  case (Cons n ns)
  then obtain j where j: "add_u16 (base n) (off n) = Some j" by (auto split: bind_splits)
  obtain r od1 where w: "od_write ops od j 1 (data n) = (r, od1)" by fastforce
  have "0x1400 \<le> unat (base n)" using Cons.prems(2) by simp
  then have "0x1400 \<le> unat j" using j by (auto simp: add_u16_def unat_word_ariths split: if_splits)
  then have "i \<noteq> j" using Cons.prems(3) by (auto simp: word_less_nat_alt)
  then have "val od1 i s = val od i s"
    using w write_frame [OF Cons.prems(1), of j 1 "data n" od1 i s] write_refused [OF Cons.prems(1), of j 1 "data n" _ od1] by (cases r) auto
  moreover have "inv od1" by (rule write_inv [OF Cons.prems(1) w])
  ultimately show ?case using Cons.IH [of od1] Cons.prems j w by simp
qed simp

lemma write_pdo_cob_ids_val:
  assumes "inv (nd_od nd)" "write_pdo_cob_ids_to_od ops nd = Some nd'" "i < 0x1400"
  shows "val (nd_od nd') i s = val (nd_od nd) i s"
proof -
  let ?t = "\<lambda>n od. do { j \<leftarrow> add_u16 0x1800 (pdo_od_offset (tc_od_number (te_pdos (nd_tpdo nd) ! n)) n);
    Some (snd (od_write ops od j 1 (to_le_bytes 4 (cob_entry (tc_cob_id (te_pdos (nd_tpdo nd) ! n)) (tc_enabled (te_pdos (nd_tpdo nd) ! n)))))) }"
  let ?r = "\<lambda>n od. do { j \<leftarrow> add_u16 0x1400 (pdo_od_offset (rc_od_number (re_pdos (nd_rpdo nd) ! n)) n);
    Some (snd (od_write ops od j 1 (to_le_bytes 4 (cob_entry (rc_cob_id (re_pdos (nd_rpdo nd) ! n)) (rc_enabled (re_pdos (nd_rpdo nd) ! n)))))) }"
  obtain od1 od2 where w: "for_each ?t (te_slots (nd_tpdo nd)) (nd_od nd) = Some od1" "for_each ?r (re_slots (nd_rpdo nd)) od1 = Some od2"
      "nd' = nd\<lparr>nd_od := od2\<rparr>"
    using assms(2) by (auto simp: write_pdo_cob_ids_to_od_def Let_def split: bind_splits)
  have 1: "inv od1 \<and> val od1 i s = val (nd_od nd) i s" by (rule write_cob_ids_val [OF assms(1) _ assms(3) w(1)]) simp
  then have "inv od1" by simp
  then have "inv od2 \<and> val od2 i s = val od1 i s" by (rule write_cob_ids_val [OF _ _ assms(3) w(2)]) simp
  with 1 w(3) show ?thesis by simp
qed

lemma try_read_missing: "inv od \<Longrightarrow> val od i s = None \<Longrightarrow> fst (try_read ops od i s buf) = False"
  using read_none [of od i s buf] by (auto simp: try_read_def)

lemma fold_no_monitors:
  assumes "inv od" "\<And>s. val od 0x1016 s = None" "\<forall>i < length ms. ms ! i \<noteq> None \<longrightarrow> i \<in> set slots" "set slots \<subseteq> {..<length ms}"
  shows "set (fst (fold (sync_monitor_slot ops od pr) slots (ms, buf))) \<subseteq> {None}"
  using assms(3,4)
proof (induction slots arbitrary: ms buf)
  case (Cons k slots)
  let ?b = "snd (try_read ops od 0x1016 (of_nat (k + 1)) buf)"
  have "sync_monitor_slot ops od pr k (ms, buf) = (ms[k := None], ?b)"
    using try_read_missing [OF assms(1,2), of "of_nat (k + 1)" buf]
    by (cases "try_read ops od 0x1016 (of_nat (k + 1)) buf") (simp add: sync_monitor_slot_def next_monitor_def)
  moreover have "\<forall>i < length (ms[k := None]). ms[k := None] ! i \<noteq> None \<longrightarrow> i \<in> set slots"
    using Cons.prems by (auto simp: nth_list_update)
  ultimately show ?case using Cons.IH [of "ms[k := None]" ?b] Cons.prems(2) by simp
qed (auto simp: in_set_conv_nth)

lemma no_monitors:
  assumes "wf_nd inv N nd" "\<And>s. val (nd_od nd) 0x1016 s = None"
  shows "monitors (sync_heartbeat_from_od ops pr nd) = []"
proof -
  have l: "length (nd_hb_monitors nd) = 8" "inv (nd_od nd)" using assms(1) by (simp_all add: wf_nd_defs)
  have "set (fst (fold (sync_monitor_slot ops (nd_od nd) pr) [0..<8] (nd_hb_monitors nd, replicate 4 0))) \<subseteq> {None}"
    by (rule fold_no_monitors [OF l(2) assms(2)]) (auto simp: l)
  then show ?thesis by (auto simp: monitors_def sync_heartbeat_from_od_def Let_def split: prod.split option.split)
qed

lemma default_sync:
  assumes "inv (nd_od nd)" "val (nd_od nd) 0x1005 0 = None" "sync_config_from_od ops nd = Some nd'"
  shows "nd_sync nd' = sync_consumer_set_cob_id (nd_sync nd) 0x080"
proof -
  have "configured_sync ops (nd_od nd) (replicate 4 0) = Some (sync_cob_id_DEFAULT, snd (try_read ops (nd_od nd) 0x1005 0 (replicate 4 0)))"
    using try_read_missing [OF assms(1,2), of "replicate 4 0"] by (auto simp: configured_sync_def split: prod.split)
  then show ?thesis using assms(3)
    by (auto simp: sync_config_from_od_def sync_cob_id_DEFAULT_def Let_def split: bind_splits prod.splits)
qed

end

section \<open>A concrete node\<close>

text \<open>One object that RPDO 1 sets and TPDO 1 reports, both synchronous.\<close>

definition loop_def :: od_definition where
  "loop_def = \<lparr>def_entries =
     [\<lparr>de_index = 0x2001, de_name = ''speed'', de_kind = VarEntry \<lparr>vd_type = U16, vd_access = Rw,
         vd_pdo_mappable = True, vd_capacity = None, vd_default = Some (VW16 0x1234)\<rparr>\<rparr>],
     def_pdos = map (\<lambda>dir. \<lparr>pd_direction = dir, pd_number = 1, pd_cob_id = None,
       pd_transmission_type = 1, pd_inhibit_time = 0, pd_event_timer = 0, pd_mapping = Mutable,
       pd_mappings = [\<lparr>pmd_field = ''speed'', pmd_bit_length = None, pmd_raw = None\<rparr>]\<rparr>) [DirTpdo, DirRpdo],
     def_sdo_servers = [], def_use_alloc = False\<rparr>"

definition loop_od :: gen_od where "loop_od = the (generate loop_def [])"

abbreviation loop_ops :: "gen_od od_ops" where "loop_ops \<equiv> gen_ops loop_def validate_write_default"

definition loop_config :: node_config where
  "loop_config = (node_config_from_od loop_ops (gen_config_source loop_def) loop_od (NodeId 5))\<lparr>nc_auto_start := True\<rparr>"

definition loop_node :: "gen_od node" where "loop_node = the (node_new loop_ops loop_config loop_od)"

lemma loop_generated: "generate loop_def [] = Some loop_od" "validate_definition loop_def" "wf_definition loop_def"
proof -
  have "generate loop_def [] \<noteq> None" by code_simp
  then show "generate loop_def [] = Some loop_od" by (simp add: loop_od_def)
qed code_simp+

lemma loop_config_fields:
  "nc_node_id loop_config = NodeId 5" "nc_sdo_servers loop_config = []"
  "nc_tpdo loop_config = tpdo_configs loop_def loop_od (NodeId 5)"
  "nc_rpdo loop_config = rpdo_configs loop_def loop_od (NodeId 5)"
  by (simp_all add: loop_config_def node_config_from_od_def gen_config_source_def sdo_server_configs_def loop_def_def)

lemma loop_config_ok: "config_ok loop_config"
  unfolding loop_config_def using loop_generated(3) by (intro from_od_config_ok) (simp_all add: wf_node_def)

lemma loop_cobs:
  "map tc_cob_id (tpdo_configs loop_def loop_od (NodeId 5)) = [0x185]"
  "map rc_cob_id (rpdo_configs loop_def loop_od (NodeId 5)) = [0x205]"
  by code_simp+

lemma loop_missing:
  assumes "i \<in> {0x1005, 0x1016, 0x1019}"
  shows "gen_find loop_od i s = None"
proof -
  have "list_all (\<lambda>e. meta_index (ge_meta e) \<noteq> 0x1005 \<and> meta_index (ge_meta e) \<noteq> 0x1016 \<and> meta_index (ge_meta e) \<noteq> 0x1019) loop_od"
    by code_simp
  with assms show ?thesis by (auto simp: gen_find_def find_None_iff at_addr_def list_all_iff)
qed

lemma loop_inv: "gen_node_inv loop_def loop_od"
  using generate_inv [OF loop_generated(2,3,1)]
  by (simp add: gen_node_inv_def sync_fixed_def sync_objects_valid_def gen_val_def loop_missing)


lemma loop_new: "node_new loop_ops loop_config loop_od = Some loop_node"
proof -
  let ?nd0 = "node_init loop_config loop_od"
  have 0: "wf_nd (gen_node_inv loop_def) N ?nd0" for N
    using loop_config_ok loop_inv by (rule gnode.node_init_wf) (simp add: loop_config_fields)
  obtain od1 where 1: "write_pdo_cob_ids_to_od loop_ops ?nd0 = Some (?nd0\<lparr>nd_od := od1\<rparr>)"
      "wf_nd (gen_node_inv loop_def) 0 (?nd0\<lparr>nd_od := od1\<rparr>)"
    using gnode.write_pdo_cob_ids_wf [OF 0] by blast
  have od0: "nd_od ?nd0 = loop_od" by (simp add: node_init_def Let_def)
  have "i < 0x1400 \<Longrightarrow> gen_val od1 i s = gen_val loop_od i s" for i s
    using gnode.write_pdo_cob_ids_val [of loop_def ?nd0, OF _ 1(1)] loop_inv by (simp add: od0)
  then have v: "gen_val od1 0x1016 s = None" "gen_val od1 0x1005 0 = None" for s
    using loop_missing by (simp_all add: gen_val_def)
  have st: "od_store_error_register loop_ops od1 b = od1" "od_store_sdo_server_cob_ids loop_ops od1 n = od1" for b n
    by (simp_all add: gen_ops_def gen_store_error_register_def declares_error_register_def
        gen_store_sdo_server_cob_ids_def loop_def_def)
  let ?nd2 = "sync_heartbeat_from_od loop_ops False (?nd0\<lparr>nd_od := od1\<rparr>)"
  have 2: "wf_nd (gen_node_inv loop_def) 0 ?nd2" by (rule sync_heartbeat_wf [OF 1(2)])
  obtain c w p where 3: "sync_config_from_od loop_ops ?nd2 = Some (?nd2\<lparr>nd_sync := c, nd_sync_window := w, nd_sync_producer := p\<rparr>)"
    using gnode.sync_config_wf [OF 2] by blast
  let ?nd3 = "?nd2\<lparr>nd_sync := c, nd_sync_window := w, nd_sync_producer := p\<rparr>"
  have "monitors ?nd2 = []" using gnode.no_monitors [OF 1(2)] v by simp
  then have m: "monitors ?nd3 = []" by (simp add: monitors_def)
  have f: "nd_tpdo ?nd2 = nd_tpdo ?nd0" "nd_rpdo ?nd2 = nd_rpdo ?nd0" "nd_sync ?nd2 = nd_sync ?nd0"
      "nd_od ?nd2 = od1" "nd_extra_sdo ?nd2 = []" "nd_extra_sdo_rx ?nd2 = []" "nd_extra_sdo_tx ?nd2 = []" "nd_node_id ?nd2 = NodeId 5"
    by (simp_all add: sync_heartbeat_from_od_def Let_def node_init_def loop_config_fields split: prod.split)
  have "gen_node_inv loop_def od1" using 2 f by (simp add: wf_nd_def)
  then have sy: "c = sync_consumer_new 0x080"
    using gnode.default_sync [of loop_def ?nd2, OF _ _ 3] v f
    by (simp add: node_init_def Let_def sync_consumer_default_cob_def sync_consumer_new_def sync_consumer_set_cob_id_def)
  have pd: "te_pdos (nd_tpdo ?nd0) = tpdo_configs loop_def loop_od (NodeId 5)" "re_pdos (nd_rpdo ?nd0) = rpdo_configs loop_def loop_od (NodeId 5)"
    by (simp_all add: node_init_def Let_def tpdo_engine_new_def rpdo_engine_new_def loop_config_fields)
  have cobs: "tpdo_cobs ?nd3 = [0x185]" "rpdo_cobs ?nd3 = [0x205]" "monitored_cobs ?nd3 = []"
    using loop_cobs m pd by (simp_all add: tpdo_cobs_def rpdo_cobs_def monitored_cobs_def f)
  have "sdo_cob_ids_are_unique ?nd3" "sync_cob_id_is_unique ?nd3"
    using cobs f sy
    by (simp_all add: sdo_cob_ids_are_unique_def sync_cob_id_is_unique_def nd_sdo_cob_ids_def sdo_claims_def fixed_cobs_def
        sync_consumer_cob_id_def sync_consumer_new_def cob_sdo_rx_def cob_sdo_tx_def cob_emergency_def cob_heartbeat_def cob_nmt_def)
  then have "node_new loop_ops loop_config loop_od = Some ?nd3"
    using 1(1) 3 st by (simp add: node_new_def Let_def assert_that_eq loop_config_fields)
  then show ?thesis by (simp add: loop_node_def)
qed

end
