(* ===== verification/Node_Props.thy ===== *)
theory Node_Props
  imports Node_Running
begin

text \<open>
  Properties of the node: the SYNC pulse and its window, the services in each NMT state, what a
  transition discards, the refinement of the life-cycle machine, and panic freedom of every run.
\<close>

section \<open>Synchronous traffic on the mailbox\<close>

lemma transmit_all_mailbox:
  assumes "length refused + length fs \<le> cap" "refused \<noteq> [] \<Longrightarrow> TX \<le> length (tx_queue m)"
  shows "transmit_all (mailbox_ops TX) cap fs (refused, m) =
    (refused @ drop (TX - length (tx_queue m)) fs, m\<lparr>tx_queue := tx_queue m @ take (TX - length (tx_queue m)) fs\<rparr>)"
  using assms
proof (induction fs arbitrary: refused m)
  case (Cons f fs)
  show ?case
  proof (cases "length (tx_queue m) < TX")
    case True
    then have "refused = []" using Cons.prems(2) by fastforce
    moreover obtain k where "TX - length (tx_queue m) = Suc k" "TX - Suc (length (tx_queue m)) = k"
      using True by (metis Suc_diff_Suc)
    ultimately show ?thesis using True Cons.IH [of "[]" "m\<lparr>tx_queue := tx_queue m @ [f]\<rparr>"] Cons.prems(1)
      by (simp add: mailbox_ops_def mailbox_transmit_def)
  next
    case False
    then have "transmit_all (mailbox_ops TX) cap fs (refused @ [f], m) =
        ((refused @ [f]) @ drop (TX - length (tx_queue m)) fs, m\<lparr>tx_queue := tx_queue m @ take (TX - length (tx_queue m)) fs\<rparr>)"
      using Cons.prems(1) by (intro Cons.IH) auto
    then show ?thesis using False Cons.prems(1) by (simp add: mailbox_ops_def mailbox_transmit_def push_back_def)
  qed
qed simp

lemma length_sync_out: "length (concat (map (sync_frames ops od e) (te_slots e))) \<le> length (te_pdos e)"
proof -
  have "length (concat (map (sync_frames ops od e) (te_slots e))) \<le> length (te_slots e)"
    by (rule length_concat_le) (rule length_sync_frames)
  then show ?thesis by simp
qed

section \<open>Properties\<close>

text \<open>
  C21. One SYNC pulse in Operational: the buffered synchronous RPDOs are committed to the dictionary
  first and nothing stays buffered; the synchronous TPDOs are then sampled from the committed
  dictionary; every sampled frame is either handed to the transport, in slot order, or kept for a
  retry; and the transmission window is open.
\<close>

theorem sync_commits_then_samples:
  assumes "wf_nd (gen_node_inv d) N nd" "nd_state nd = Operational"
  shows "\<exists>nd' m' dropped. handle_sync N (gen_ops d v) (mailbox_ops TX) now (nd, m) = Some (nd', m')
    \<and> rpdo_on_sync N (gen_ops d v) (nd_rpdo nd) (nd_od nd) (nd_event_queue nd)
        = Some (nd_rpdo nd', nd_od nd', nd_event_queue nd', dropped)
    \<and> nd_rpdo nd' = discard_pending (nd_rpdo nd)
    \<and> tx_queue m' @ nd_pending_sync_tpdo nd' =
        tx_queue m @ concat (map (sync_frames (gen_ops d v) (nd_od nd') (nd_tpdo nd)) (te_slots (nd_tpdo nd)))
    \<and> allows_transmit (nd_sync_window nd') now"
proof -
  have wf: "wf_rpdo_engine (nd_rpdo nd)" "wf_tpdo_engine (nd_tpdo nd)" "gen_node_inv d (nd_od nd)" "length (nd_event_queue nd) \<le> N"
    using assms(1) by (simp_all add: wf_nd_defs)
  obtain od events dropped where r: "rpdo_on_sync N (gen_ops d v) (nd_rpdo nd) (nd_od nd) (nd_event_queue nd)
      = Some (discard_pending (nd_rpdo nd), od, events, dropped)" "gen_node_inv d od"
    using gnode.rpdo_on_sync_spec [OF wf(3,4,1)] by blast
  let ?out = "concat (map (sync_frames (gen_ops d v) od (nd_tpdo nd)) (te_slots (nd_tpdo nd)))"
  let ?e = "synced_upto (length (te_pdos (nd_tpdo nd))) (nd_tpdo nd)"
  have tp: "tpdo_on_sync (gen_ops d v) od (nd_tpdo nd) [] = Some (?e, ?out)" by (rule gnode.tpdo_on_sync_spec [OF wf(2) r(2)])
  have x: "transmit_all (mailbox_ops TX) (tpdo_count nd) ?out ([], m) = (drop (TX - length (tx_queue m)) ?out,
      m\<lparr>tx_queue := tx_queue m @ take (TX - length (tx_queue m)) ?out\<rparr>)"
    by (subst transmit_all_mailbox) (use length_sync_out in auto)
  have "te_pdos ?e = te_pdos (nd_tpdo nd)" by (simp add: synced_upto_def)
  then show ?thesis using assms(2) r tp x
    by (simp add: handle_sync_def allows_transmit_def sync_window_open_def)
qed

text \<open>
  C24. The synchronous window is enforced on retries: a retained synchronous TPDO is handed to the
  transport only in Operational and inside the window of OD 0x1007; outside of either all retained
  frames are discarded, inside each one is sent or kept, in order.
\<close>

theorem sync_window_enforced:
  assumes "wf_nd od_inv N nd" "retry_pending_sync_tpdo (mailbox_ops TX) now (nd, m) = (nd', m')"
  shows "if nd_state nd = Operational \<and> allows_transmit (nd_sync_window nd) now
     then tx_queue m' @ nd_pending_sync_tpdo nd' = tx_queue m @ nd_pending_sync_tpdo nd \<and> rx_queue m' = rx_queue m
     else m' = m \<and> nd_pending_sync_tpdo nd' = []"
proof -
  let ?k = "TX - length (tx_queue m)" let ?p = "nd_pending_sync_tpdo nd"
  have "length ?p \<le> tpdo_count nd" using assms(1) by (simp add: wf_nd_defs)
  then have "transmit_all (mailbox_ops TX) (tpdo_count nd) ?p ([], m) =
      (drop ?k ?p, m\<lparr>tx_queue := tx_queue m @ take ?k ?p\<rparr>)"
    by (subst transmit_all_mailbox) auto
  then show ?thesis using assms(2)
    by (auto simp: retry_pending_sync_tpdo_def split: if_splits)
qed

text \<open>Frames other than NMT commands, received while SDO and PDO are not available.\<close>

lemma handle_sdo_unavailable: "\<not> sdo_available (nd_state nd) \<Longrightarrow> handle_sdo_request N ops tops sel f now (nd, t) = Some (nd, t)"
  by (simp add: handle_sdo_request_def)

lemma not_available_not_operational: "\<not> sdo_available st \<Longrightarrow> st \<noteq> Operational"
  by (simp add: sdo_available_def)

definition same_service :: "'od node \<Rightarrow> 'od node \<Rightarrow> bool" where
  "same_service nd nd' \<longleftrightarrow> nd_od nd' = nd_od nd \<and> nd_event_queue nd' = nd_event_queue nd
     \<and> nd_sdo_server nd' = nd_sdo_server nd \<and> nd_extra_sdo nd' = nd_extra_sdo nd
     \<and> nd_sdo_tx nd' = nd_sdo_tx nd \<and> nd_extra_sdo_pending_tx nd' = nd_extra_sdo_pending_tx nd
     \<and> nd_tpdo nd' = nd_tpdo nd \<and> nd_rpdo nd' = nd_rpdo nd \<and> nd_nmt nd' = nd_nmt nd"

lemma push_hb_event_service: "same_service a nd \<Longrightarrow> same_service a (fold push_hb_event es nd)"
  by (induction es arbitrary: nd) (auto simp: push_hb_event_def same_service_def)

lemma dispatch_heartbeat_service:
  "dispatch_heartbeat slot f now nd = Some nd' \<Longrightarrow> same_service nd nd'"
  by (auto simp: dispatch_heartbeat_def intro!: push_hb_event_service split: option.splits list.splits prod.splits)
    (simp add: same_service_def)

lemma dispatch_unavailable:
  assumes "\<not> sdo_available (nd_state nd)" "raw_id f \<noteq> 0" "dispatch_frame N ops tops f now (nd, t) = Some (nd', t')"
  shows "same_service nd nd' \<and> (raw_id f \<noteq> LSS_REQUEST_COB \<longrightarrow> t' = t)"
proof -
  have op: "nd_state nd \<noteq> Operational" using assms(1) by (rule not_available_not_operational)
  have "handle_sync N ops tops now (nd\<lparr>nd_sync := c\<rparr>, t) = Some (nd\<lparr>nd_sync := c\<rparr>, t)" for c
    using op by (simp add: handle_sync_def)
  moreover have "process_rpdo_frame N ops f now nd = Some nd" using op by (simp add: process_rpdo_frame_def)
  moreover have r: "same_service nd nd" "same_service nd (nd\<lparr>nd_sync := c\<rparr>)" "same_service nd (nd\<lparr>nd_lss := l\<rparr>)" for c l
    by (simp_all add: same_service_def)
  ultimately show ?thesis using assms dispatch_heartbeat_service
    by (auto simp: dispatch_frame_def handle_sdo_unavailable cob_nmt_def Let_def
        split: option.splits if_splits prod.splits)
qed

text \<open>
  C23. A node that is stopped, or still waiting for its boot sequence, takes no part in the services:
  any frame that is not an NMT command leaves the dictionary, the event queue, all SDO servers and
  their pending responses, and both PDO engines as they are, and nothing is transmitted except the
  answer to an LSS request.
\<close>

theorem node_inert_when_unavailable:
  assumes "wf_nd (gen_node_inv d) N nd" "mailbox_inv TX m" "wf_frame f"
    and "\<not> sdo_available (nd_state nd)" "raw_id f \<noteq> 0"
  shows "\<exists>nd' m'. dispatch_frame N (gen_ops d v) (mailbox_ops TX) f now (nd, m) = Some (nd', m')
    \<and> same_service nd nd' \<and> (raw_id f \<noteq> LSS_REQUEST_COB \<longrightarrow> m' = m)"
proof -
  obtain nd' m' where "dispatch_frame N (gen_ops d v) (mailbox_ops TX) f now (nd, m) = Some (nd', m')"
    using mnode.dispatch_frame_wf [OF assms(1-3)] unfolding mnode.good_frame_def by blast
  with dispatch_unavailable [OF assms(4,5) this] show ?thesis by blast
qed

text \<open>Neither SDO transfers nor PDO work are left.\<close>

definition no_transfers :: "'od node \<Rightarrow> bool" where
  "no_transfers nd \<longleftrightarrow> transfer (nd_sdo_server nd) = None \<and> ptx_frame (nd_sdo_tx nd) = None
     \<and> (\<forall>srv \<in> set (nd_extra_sdo nd). transfer srv = None) \<and> (\<forall>p \<in> set (nd_extra_sdo_pending_tx nd). ptx_frame p = None)"

definition no_pdo_work :: "'od node \<Rightarrow> bool" where
  "no_pdo_work nd \<longleftrightarrow> set (re_pending (nd_rpdo nd)) \<subseteq> {None} \<and> nd_pending_sync_tpdo nd = [] \<and> nd_dirty_set nd = []
     \<and> True \<notin> set (te_sync_event_pending (nd_tpdo nd)) \<and> True \<notin> set (te_async_event_pending (nd_tpdo nd))"

lemma abort_all_no_transfers: "no_transfers (abort_all_sdo_transfers nd)"
  by (auto simp: no_transfers_def abort_all_sdo_transfers_def abort_transfer_def ptx_default_def)

lemma sync_pdo_keeps_transfers: "sync_pdo_from_od ops nd = Some nd' \<Longrightarrow> no_transfers nd' = no_transfers nd"
  by (auto simp: sync_pdo_from_od_def no_transfers_def split: bind_splits)

lemma sync_heartbeat_keeps_transfers: "no_transfers (sync_heartbeat_from_od ops pr nd) = no_transfers nd"
  by (simp add: sync_heartbeat_from_od_def no_transfers_def Let_def split: prod.split)

lemma sync_config_keeps_transfers: "sync_config_from_od ops nd = Some nd' \<Longrightarrow> no_transfers nd' = no_transfers nd"
  by (auto simp: sync_config_from_od_def no_transfers_def Let_def split: bind_splits prod.splits)

lemma reset_sync_state_clears:
  "reset_sync_state ops nd = Some nd' \<Longrightarrow> no_pdo_work nd' \<and> no_transfers nd' = no_transfers nd"
  by (auto simp: reset_sync_state_def no_pdo_work_def no_transfers_def reset_deadline_monitoring_def discard_pending_def
      tpdo_reset_communication_state_def Let_def split: bind_splits dest!: sync_config_keeps_transfers)

lemma reset_communication_clears:
  assumes "reset_communication ops rt nd = Some nd'"
  shows "no_transfers nd' \<and> no_pdo_work nd'"
proof -
  let ?nd0 = "abort_all_sdo_transfers (nd\<lparr>nd_reset_event := Some rt, nd_booted := False\<rparr>)"
  obtain nd1 where "sync_pdo_from_od ops ?nd0 = Some nd1" "reset_sync_state ops (sync_heartbeat_from_od ops False nd1) = Some nd'"
    using assms by (auto simp: reset_communication_def split: bind_splits)
  with abort_all_no_transfers show ?thesis
    using reset_sync_state_clears sync_heartbeat_keeps_transfers sync_pdo_keeps_transfers by metis
qed

lemma leave_operational_clears: "no_pdo_work (leave_operational nd)"
  by (auto simp: leave_operational_def no_pdo_work_def discard_pending_def reset_deadline_monitoring_def
      discard_async_events_def discard_sync_events_def Let_def)

lemma abort_all_keeps_pdo: "no_pdo_work (abort_all_sdo_transfers nd) = no_pdo_work nd"
  by (simp add: abort_all_sdo_transfers_def no_pdo_work_def)

lemma dispatch_nmt_clears:
  assumes "dispatch_nmt ops f nd = Some nd'" "life_of nd' \<noteq> life_of nd"
  shows "(nd_state nd' \<noteq> Operational \<longrightarrow> no_pdo_work nd') \<and> (\<not> sdo_available (nd_state nd') \<longrightarrow> no_transfers nd')"
proof -
  obtain b0 b1 bs cmd where f: "raw_dlc f = 2" "frame_data f = b0 # b1 # bs" "nmt_from_byte b0 = Some cmd"
    using assms by (auto simp: dispatch_nmt_def split: if_splits list.splits option.splits)
  obtain tr h where p: "process_command (nd_nmt nd) cmd b1 (nd_node_id nd) = (tr, h)" by fastforce
  note c = process_command_transition_kind [OF p]
  let ?nd = "nd\<lparr>nd_nmt := h\<rparr>"
  show ?thesis
  proof (cases tr)
    case NoTransition
    then have "nd' = ?nd" "h = nd_nmt nd" using assms(1) f p c(3) by (simp_all add: dispatch_nmt_def)
    then show ?thesis using assms(2) by (simp add: life_of_def)
  next
    case StateChanged
    have st: "nd_state (leave_operational ?nd) = nmt_state h" "nd_state (abort_all_sdo_transfers x) = nd_state x" for x
      by (simp_all add: leave_operational_def abort_all_sdo_transfers_def)
    have "nd' = (if nmt_state h \<noteq> Operational
        then if nmt_state h = Stopped then abort_all_sdo_transfers (leave_operational ?nd) else leave_operational ?nd else ?nd)"
      using assms(1) f p StateChanged st by (simp add: dispatch_nmt_def Let_def split: if_splits)
    moreover have "nmt_state h \<noteq> Initializing" using c(4) StateChanged by simp
    ultimately show ?thesis
      using leave_operational_clears [of ?nd] abort_all_no_transfers [of "leave_operational ?nd"] st
      by (cases "nmt_state h") (auto simp: abort_all_keeps_pdo sdo_available_def)
  qed (use assms(1) f p reset_communication_clears in \<open>auto simp: dispatch_nmt_def\<close>)
qed

text \<open>
  C22. When an NMT command takes the node out of Operational, no buffered RPDO, latched TPDO event,
  retained synchronous frame or dirty mark survives the transition; when it takes the node to
  Stopped or into a reset, every SDO transfer on every channel is aborted and no response stays
  pending, so that a Start in the same batch of frames cannot revive them.
\<close>

theorem nmt_transition_discards_work:
  assumes "wf_nd (gen_node_inv d) N nd" "wf_frame f" "raw_id f = 0"
    and "life_frame (nd_node_id nd) f (life_of nd) \<noteq> life_of nd"
  shows "\<exists>nd'. dispatch_nmt (gen_ops d v) f nd = Some nd' \<and> life_of nd' = life_frame (nd_node_id nd) f (life_of nd)
    \<and> (nd_state nd' \<noteq> Operational \<longrightarrow> no_pdo_work nd') \<and> (\<not> sdo_available (nd_state nd') \<longrightarrow> no_transfers nd')"
  using mnode.dispatch_nmt_wf [OF assms(1-3), of v] dispatch_nmt_clears assms(4) by metis



section \<open>Witnesses\<close>

lemma construction_keeps_tpdos:
  "write_pdo_cob_ids_to_od ops nd = Some nd' \<Longrightarrow> nd_tpdo nd' = nd_tpdo nd \<and> nd_auto_start nd' = nd_auto_start nd"
  "sync_config_from_od ops nd = Some nd' \<Longrightarrow> nd_tpdo nd' = nd_tpdo nd \<and> nd_auto_start nd' = nd_auto_start nd"
  "nd_tpdo (sync_heartbeat_from_od ops pr nd) = nd_tpdo nd"
  "nd_auto_start (sync_heartbeat_from_od ops pr nd) = nd_auto_start nd"
  by (auto simp: write_pdo_cob_ids_to_od_def sync_config_from_od_def sync_heartbeat_from_od_def Let_def
      split: bind_splits prod.splits)

lemma node_new_fields:
  assumes "node_new ops config od = Some nd"
  shows "te_pdos (nd_tpdo nd) = nc_tpdo config" "nd_auto_start nd = nc_auto_start config"
proof -
  have "nd_tpdo nd = nd_tpdo (node_init config od) \<and> nd_auto_start nd = nd_auto_start (node_init config od)"
    using assms by (auto simp: node_new_def Let_def construction_keeps_tpdos(3,4)
        split: bind_splits dest!: construction_keeps_tpdos(1,2))
  then show "te_pdos (nd_tpdo nd) = nc_tpdo config" "nd_auto_start nd = nc_auto_start config"
    by (simp_all add: node_init_def tpdo_engine_new_def Let_def)
qed

lemma loop_node_wf:
  "wf_nd (gen_node_inv loop_def) N loop_node" "life_of loop_node = (False, Initializing)" "nd_node_id loop_node = NodeId 5"
  using gnode.node_new_wf [OF loop_new loop_config_ok loop_inv] by (simp_all add: loop_config_fields)

lemma loop_node_fields: "tpdo_count loop_node = 1" "nd_auto_start loop_node"
proof -
  have "length (def_tpdos loop_def) = 1" by code_simp
  then show "tpdo_count loop_node = 1"
    by (simp add: node_new_fields [OF loop_new] loop_config_fields tpdo_configs_def)
  show "nd_auto_start loop_node" by (simp add: node_new_fields [OF loop_new] loop_config_def)
qed

text \<open>The node in Operational, and frames for it.\<close>

definition loop_running :: "gen_od node" where
  "loop_running = loop_node\<lparr>nd_booted := True, nd_nmt := \<lparr>nmt_state = Operational\<rparr>\<rparr>"

lemma loop_running_wf: "wf_nd (gen_node_inv loop_def) N loop_running"
  using loop_node_wf(1) [of N] by (simp add: loop_running_def wf_nd_defs)

definition stop_frame :: can_frame where
  "stop_frame = \<lparr>cf_id = 0, cf_dlc = 2, cf_data = [2, 5, 0, 0, 0, 0, 0, 0]\<rparr>"

definition upload_frame :: can_frame where
  "upload_frame = \<lparr>cf_id = 0x605, cf_dlc = 8, cf_data = [0x40, 0x01, 0x20, 0, 0, 0, 0, 0]\<rparr>"

lemma demo_frames:
  "wf_frame stop_frame" "raw_id stop_frame = 0" "wf_frame upload_frame" "raw_id upload_frame = 0x605"
  "life_frame (NodeId 5) stop_frame (True, Operational) = (True, Stopped)"
  by code_simp+

theorem sync_commits_then_samples_witness:
  "\<exists>nd' m' dropped. handle_sync 16 loop_ops (mailbox_ops 8) 100 (loop_running, mailbox_new) = Some (nd', m')
    \<and> rpdo_on_sync 16 loop_ops (nd_rpdo loop_running) (nd_od loop_running) (nd_event_queue loop_running)
        = Some (nd_rpdo nd', nd_od nd', nd_event_queue nd', dropped)
    \<and> tx_queue m' @ nd_pending_sync_tpdo nd' =
        concat (map (sync_frames loop_ops (nd_od nd') (nd_tpdo loop_running)) (te_slots (nd_tpdo loop_running)))"
  using sync_commits_then_samples [OF loop_running_wf, of 16 validate_write_default 8 100 mailbox_new]
  by (auto simp: loop_running_def mailbox_new_def)

definition late_node :: "gen_od node" where
  "late_node = loop_running\<lparr>nd_pending_sync_tpdo := [upload_frame],
     nd_sync_window := \<lparr>sw_length_us = 1000, sw_opened_at_us = 0, sw_active = True\<rparr>\<rparr>"

theorem sync_window_enforced_witness:
  "tx_queue (snd (retry_pending_sync_tpdo (mailbox_ops 8) 1000 (late_node, mailbox_new))) @
     nd_pending_sync_tpdo (fst (retry_pending_sync_tpdo (mailbox_ops 8) 1000 (late_node, mailbox_new))) = [upload_frame]
   \<and> snd (retry_pending_sync_tpdo (mailbox_ops 8) 1001 (late_node, mailbox_new)) = mailbox_new"
proof -
  have "wf_nd (gen_node_inv loop_def) 16 late_node"
    using loop_running_wf [of 16] loop_node_fields(1) by (simp add: late_node_def wf_nd_defs loop_running_def)
  note p = sync_window_enforced [OF this surjective_pairing]
  have "nd_state late_node = Operational" "nd_sync_window late_node = \<lparr>sw_length_us = 1000, sw_opened_at_us = 0, sw_active = True\<rparr>"
    "nd_pending_sync_tpdo late_node = [upload_frame]" by (simp_all add: late_node_def loop_running_def)
  then show ?thesis using p [of 1000 8 mailbox_new] p [of 1001 8 mailbox_new] by (simp add: allows_transmit_def mailbox_new_def)
qed

theorem node_inert_when_unavailable_witness:
  "\<exists>nd'. dispatch_frame 16 loop_ops (mailbox_ops 8) upload_frame 0 (loop_node, mailbox_new) = Some (nd', mailbox_new)
    \<and> same_service loop_node nd'"
  using node_inert_when_unavailable [OF loop_node_wf(1), of 8 mailbox_new upload_frame 16 validate_write_default 0] loop_node_wf(2) demo_frames
  by (auto simp: mailbox_inv_def mailbox_new_def sdo_available_def life_of_def)

theorem nmt_transition_discards_work_witness:
  "\<exists>nd'. dispatch_nmt loop_ops stop_frame loop_running = Some nd' \<and> life_of nd' = (True, Stopped) \<and> no_pdo_work nd' \<and> no_transfers nd'"
proof -
  have l: "life_of loop_running = (True, Operational)" "nd_node_id loop_running = NodeId 5"
    using loop_node_wf(3) by (simp_all add: loop_running_def life_of_def)
  have "\<exists>nd'. dispatch_nmt loop_ops stop_frame loop_running = Some nd' \<and> life_of nd' = (True, Stopped)
    \<and> (nd_state nd' \<noteq> Operational \<longrightarrow> no_pdo_work nd') \<and> (\<not> sdo_available (nd_state nd') \<longrightarrow> no_transfers nd')"
    using nmt_transition_discards_work [OF loop_running_wf demo_frames(1,2), of validate_write_default] demo_frames(5)
    by (simp add: l)
  then show ?thesis by (auto simp: life_of_def sdo_available_def)
qed



end
