(* ===== verification/Slcan.thy ===== *)
theory Slcan
  imports Can_Transport
begin

unbundle bit_operations_syntax

text \<open>
  The SLCAN line codec of \<open>canopen-core/src/slcan/logic.rs\<close>: a CAN frame as an ASCII line
  \<open>tIIILDD..\<close> terminated by a carriage return. Bytes are \<^typ>\<open>u8\<close> values; the
  letters of the source are written as their ASCII codes.
\<close>

section \<open>Hexadecimal digits\<close>

definition hex_digit :: "u8 \<Rightarrow> u8" where
  "hex_digit val = (if val AND 0x0F \<le> 9 then 0x30 + val else 0x41 + (val - 10))"

definition parse_hex_digit :: "u8 \<Rightarrow> u8 option" where
  "parse_hex_digit ch =
     (if 0x30 \<le> ch \<and> ch \<le> 0x39 then Some (ch - 0x30)
      else if 0x61 \<le> ch \<and> ch \<le> 0x66 then Some (ch - 0x61 + 10)
      else if 0x41 \<le> ch \<and> ch \<le> 0x46 then Some (ch - 0x41 + 10)
      else None)"

lemma nibble_all:
  assumes "list_all P (map of_nat [0..<16])" and "unat x < 16"
  shows "P (x :: u8)"
proof -
  have "x \<in> set (map of_nat [0..<16])" using assms(2) by (force simp: image_iff intro: bexI [of _ "unat x"])
  with assms(1) show ?thesis by (auto simp: list_all_iff)
qed

lemma parse_hex_digit_hex_digit [simp]:
  assumes "unat x < 16"
  shows "parse_hex_digit (hex_digit x) = Some x"
proof -
  have "list_all (\<lambda>x. parse_hex_digit (hex_digit x) = Some x) (map of_nat [0..<16])" by code_simp
  then show ?thesis using assms by (rule nibble_all)
qed

lemma hex_digit_not_cr [simp]:
  assumes "unat x < 16"
  shows "hex_digit x \<noteq> 0x0D"
proof -
  have "list_all (\<lambda>x. hex_digit x \<noteq> 0x0D) (map of_nat [0..<16])" by code_simp
  then show ?thesis using assms by (rule nibble_all)
qed

lemma nibble_and_lt [simp]: "unat (x AND 0x0F :: u8) < 16"
  using word_and_le1 [of x "0x0F"] by (simp add: word_le_nat_alt)

lemma nibble_shift_lt [simp]: "unat (drop_bit 4 x :: u8) < 16"
proof -
  have "unat x < 2 ^ 8" using unsigned_less [of x] by simp
  then have "unat x div 2 ^ 4 < 16" by (simp add: less_mult_imp_div_less)
  then show ?thesis by (simp add: drop_bit_eq_div unat_div)
qed

lemma nibbles_join [simp]: "push_bit 4 (drop_bit 4 x) OR (x AND 0x0F) = (x :: u8)"
proof -
  have "x AND 0x0F = take_bit 4 x" by (simp add: take_bit_eq_mask mask_eq_exp_minus_1)
  then show ?thesis by (auto intro!: bit_eqI simp: bit_or_iff bit_push_bit_iff bit_drop_bit_eq bit_take_bit_iff)
qed


section \<open>The line codec\<close>

datatype slcan_bitrate = S0 | S1 | S2 | S3 | S4 | S5 | S6 | S7 | S8

definition bitrate_code :: "slcan_bitrate \<Rightarrow> u8" where
  "bitrate_code b = (case b of S0 \<Rightarrow> 0 | S1 \<Rightarrow> 1 | S2 \<Rightarrow> 2 | S3 \<Rightarrow> 3 | S4 \<Rightarrow> 4
     | S5 \<Rightarrow> 5 | S6 \<Rightarrow> 6 | S7 \<Rightarrow> 7 | S8 \<Rightarrow> 8)"

text \<open>\<open>buf.windows(5)\<close> in order; the loop stops at the first window that looks like a frame.\<close>

definition slcan_window :: "bytes \<Rightarrow> bool" where
  "slcan_window w \<longleftrightarrow> w ! 0 = 0x74 \<and> parse_hex_digit (w ! 1) \<noteq> None \<and> parse_hex_digit (w ! 2) \<noteq> None
     \<and> parse_hex_digit (w ! 3) \<noteq> None \<and> 0x30 \<le> w ! 4 \<and> w ! 4 \<le> 0x38"

fun has_slcan_frame :: "bytes \<Rightarrow> bool" where
  "has_slcan_frame [] = False"
| "has_slcan_frame (b # bs) =
     (if length (b # bs) < 5 then False
      else if slcan_window (take 5 (b # bs)) then True
      else has_slcan_frame bs)"

text \<open>\<open>out[pos] = c; pos += 1\<close>, which panics outside the buffer.\<close>

definition emit :: "u8 \<Rightarrow> nat \<times> bytes \<Rightarrow> (nat \<times> bytes) option" where
  "emit c = (\<lambda>(pos, out). if pos < length out then Some (Suc pos, out[pos := c]) else None)"

definition emit_byte :: "u8 \<Rightarrow> nat \<times> bytes \<Rightarrow> (nat \<times> bytes) option" where
  "emit_byte b s = do { s \<leftarrow> emit (hex_digit (drop_bit 4 b)) s; emit (hex_digit (b AND 0x0F)) s }"

text \<open>
  \<open>encode_slcan_frame\<close> writes into the caller's buffer: the result is the number of bytes
  written, or nothing when the buffer is too short, together with the buffer's new contents.
\<close>

definition encode_slcan_frame :: "can_frame \<Rightarrow> bytes \<Rightarrow> (nat option \<times> bytes) option" where
  "encode_slcan_frame frame out =
     (let needed = 6 + length (frame_data frame) * 2 in
      if length out < needed then Some (None, out)
      else do {
        let i = raw_id frame;
        s \<leftarrow> emit 0x74 (0, out);
        s \<leftarrow> emit (hex_digit (ucast (drop_bit 8 i) AND 0x0F)) s;
        s \<leftarrow> emit (hex_digit (ucast (drop_bit 4 i) AND 0x0F)) s;
        s \<leftarrow> emit (hex_digit (ucast i AND 0x0F)) s;
        s \<leftarrow> emit (0x30 + raw_dlc frame) s;
        s \<leftarrow> for_each emit_byte (frame_data frame) s;
        (pos, out') \<leftarrow> emit 0x0D s;
        Some (Some pos, out')
      })"

text \<open>\<open>data[i] = (parse_hex_digit(line[5 + i * 2])? << 4) | parse_hex_digit(line[6 + i * 2])?\<close>\<close>

definition hex_pair :: "bytes \<Rightarrow> nat \<Rightarrow> bytes \<Rightarrow> bytes option" where
  "hex_pair line i data = do {
     hi \<leftarrow> parse_hex_digit (line ! (5 + i * 2));
     lo \<leftarrow> parse_hex_digit (line ! (6 + i * 2));
     Some (data[i := push_bit 4 hi OR lo])
   }"

definition strip_cr :: "bytes \<Rightarrow> bytes" where
  "strip_cr line = (if line \<noteq> [] \<and> last line = 0x0D then butlast line else line)"

definition parse_slcan_frame :: "bytes \<Rightarrow> can_frame option" where
  "parse_slcan_frame line0 =
     (let line = strip_cr line0 in
      if line = [] then None
      else if line ! 0 = 0x74 then
        if length line < 5 then None
        else do {
          a \<leftarrow> parse_hex_digit (line ! 1);
          b \<leftarrow> parse_hex_digit (line ! 2);
          c \<leftarrow> parse_hex_digit (line ! 3);
          let i = (push_bit 8 (ucast a) OR push_bit 4 (ucast b) OR ucast c :: u16);
          if line ! 4 < 0x30 then None
          else
            let dlc = unat (line ! 4 - 0x30) in
            if dlc > 8 then None
            else if length line < 5 + dlc * 2 then None
            else
              let suffix = drop (5 + dlc * 2) line in
              if suffix \<noteq> [] \<and> (length suffix \<noteq> 4 \<or>
                   \<not> list_all (\<lambda>b. parse_hex_digit b \<noteq> None) suffix) then None
              else do {
                data \<leftarrow> for_each (hex_pair line) [0..<dlc] (replicate 8 0);
                can_frame_new i (take dlc data)
              }
        }
      else None)"

section \<open>What the encoder writes\<close>

definition hex_bytes :: "bytes \<Rightarrow> bytes" where
  "hex_bytes data = concat (map (\<lambda>b. [hex_digit (drop_bit 4 b), hex_digit (b AND 0x0F)]) data)"

definition slcan_line :: "can_frame \<Rightarrow> bytes" where
  "slcan_line f = [0x74, hex_digit (ucast (drop_bit 8 (raw_id f)) AND 0x0F),
     hex_digit (ucast (drop_bit 4 (raw_id f)) AND 0x0F), hex_digit (ucast (raw_id f) AND 0x0F),
     0x30 + raw_dlc f] @ hex_bytes (frame_data f)"

lemma length_hex_bytes [simp]: "length (hex_bytes data) = 2 * length data"
  by (induction data) (simp_all add: hex_bytes_def)

lemma length_slcan_line [simp]: "length (slcan_line f) = 5 + 2 * length (frame_data f)"
  by (simp add: slcan_line_def)

lemma emit_overwrite:
  assumes "length xs < length out"
  shows "emit c (length xs, overwrite out 0 xs) = Some (length (xs @ [c]), overwrite out 0 (xs @ [c]))"
proof -
  have "drop (length xs) out = out ! length xs # drop (Suc (length xs)) out"
    using assms by (simp add: Cons_nth_drop_Suc)
  then show ?thesis using assms by (simp add: emit_def overwrite_def list_update_append)
qed

lemma emit_list_overwrite:
  assumes "length xs + length cs \<le> length out"
  shows "for_each emit cs (length xs, overwrite out 0 xs)
    = Some (length (xs @ cs), overwrite out 0 (xs @ cs))"
  using assms
proof (induction cs arbitrary: xs)
  case (Cons c cs)
  then show ?case using Cons.IH [of "xs @ [c]"] by (simp add: emit_overwrite)
qed simp

lemma emit_bytes: "for_each emit_byte data = for_each emit (hex_bytes data)"
proof (induction data)
  case (Cons b data)
  then show ?case by (auto simp: hex_bytes_def emit_byte_def fun_eq_iff split: bind_split)
qed (simp add: hex_bytes_def fun_eq_iff)

lemma encode_slcan_frame_short:
  "length out < 6 + 2 * length (frame_data f) \<Longrightarrow> encode_slcan_frame f out = Some (None, out)"
  by (simp add: encode_slcan_frame_def)

lemma encode_slcan_frame_line:
  assumes "6 + 2 * length (frame_data f) \<le> length out"
  shows "encode_slcan_frame f out
    = Some (Some (length (slcan_line f @ [0x0D])), overwrite out 0 (slcan_line f @ [0x0D]))"
proof -
  have "encode_slcan_frame f out
      = map_option (\<lambda>(pos, out). (Some pos, out)) (for_each emit (slcan_line f @ [0x0D]) (0, out))"
    using assms
    by (simp add: encode_slcan_frame_def Let_def slcan_line_def for_each_append emit_bytes
        map_option_case split: bind_split option.split)
  also have "for_each emit (slcan_line f @ [0x0D]) (0, out)
      = Some (length (slcan_line f @ [0x0D]), overwrite out 0 (slcan_line f @ [0x0D]))"
    using emit_list_overwrite [of "[]" "slcan_line f @ [0x0D]" out] assms
    by (simp add: overwrite_def)
  finally show ?thesis by simp
qed



section \<open>Parsing what was encoded\<close>

lemma nth_hex_bytes:
  "i < length data \<Longrightarrow> hex_bytes data ! (2 * i) = hex_digit (drop_bit 4 (data ! i))
     \<and> hex_bytes data ! Suc (2 * i) = hex_digit (data ! i AND 0x0F)"
proof (induction data arbitrary: i)
  case (Cons b data)
  then show ?case by (cases i) (auto simp: hex_bytes_def)
qed simp

lemma hex_pairs_decode:
  assumes "length h = 5" and "length data \<le> 8"
  shows "for_each (hex_pair (h @ hex_bytes data @ ts)) [0..<length data] (replicate 8 0)
    = Some (overwrite (replicate 8 0) 0 data)"
proof -
  let ?P = "\<lambda>i s. s = take i data @ replicate (8 - i) (0 :: u8)"
  have "\<exists>s'. for_each (hex_pair (h @ hex_bytes data @ ts)) [0..<length data] (replicate 8 0) = Some s'
      \<and> ?P (length data) s'"
  proof (rule for_each_upt)
    fix i :: nat and s :: bytes
    assume i: "i < length data" and s: "?P i s"
    have n: "(h @ hex_bytes data @ ts) ! (5 + i * 2) = hex_bytes data ! (2 * i)"
      "(h @ hex_bytes data @ ts) ! (6 + i * 2) = hex_bytes data ! Suc (2 * i)"
      using assms i by (simp_all add: nth_append mult.commute)
    have "8 - i = Suc (8 - Suc i)" using i assms by linarith
    then have "s[i := data ! i] = take (Suc i) data @ replicate (8 - Suc i) 0"
      using i by (simp add: s take_Suc_conv_app_nth list_update_append)
    then show "\<exists>s'. hex_pair (h @ hex_bytes data @ ts) i s = Some s' \<and> ?P (Suc i) s'"
      using nth_hex_bytes [OF i] by (simp add: hex_pair_def n)
  qed simp
  then show ?thesis by (auto simp: overwrite_def)
qed

lemma slcan_id_join:
  fixes i :: u16
  assumes "i \<le> 0x7FF"
  shows "push_bit 8 (ucast (ucast (drop_bit 8 i) AND 0x0F :: u8) :: u16)
    OR push_bit 4 (ucast (ucast (drop_bit 4 i) AND 0x0F :: u8))
    OR ucast (ucast i AND 0x0F :: u8) = (i :: u16)"
proof (rule bit_eqI)
  fix n
  assume "possible_bit TYPE(16 word) n"
  then have n: "n < 16" by simp
  have m: "(0x0F :: u8) = mask 4" by (simp add: mask_eq_exp_minus_1)
  have "i = take_bit 11 i"
  proof -
    have "unat i < 2 ^ 11" using assms by (simp add: word_le_nat_alt)
    then have "unat (take_bit 11 i) = unat i"
      by (subst unsigned_take_bit_eq) (simp add: take_bit_nat_eq_self)
    then show ?thesis by (simp add: word_unat_eq_iff)
  qed
  then have hi: "\<not> bit i n" if "11 \<le> n" using that by (metis bit_take_bit_iff not_less)
  consider "n < 4" | "4 \<le> n" "n < 8" | "8 \<le> n" "n < 12" | "12 \<le> n" by linarith
  then show "bit (push_bit 8 (ucast (ucast (drop_bit 8 i) AND 0x0F :: u8) :: u16)
    OR push_bit 4 (ucast (ucast (drop_bit 4 i) AND 0x0F :: u8))
    OR ucast (ucast i AND 0x0F :: u8)) n \<longleftrightarrow> bit i n"
    using n hi by cases
      (simp_all add: m bit_or_iff bit_push_bit_iff bit_unsigned_iff bit_and_iff bit_mask_iff bit_drop_bit_eq
        less_diff_conv2)
qed

lemma dlc_char:
  assumes "unat d \<le> 8"
  shows "\<not> (0x30 + d < (0x30 :: u8))" "0x30 + d - 0x30 = (d :: u8)" "0x30 + d \<noteq> 0x0D"
proof -
  have u: "unat (0x30 + d) = 0x30 + unat d" using assms by (simp add: unat_word_ariths)
  then show "\<not> (0x30 + d < (0x30 :: u8))" by (simp add: word_less_nat_alt)
  show "0x30 + d \<noteq> 0x0D"
  proof
    assume "0x30 + d = 0x0D"
    then have "unat (0x30 + d) = unat (0x0D :: u8)" by (rule arg_cong)
    with u show False by simp
  qed
qed simp

definition is_timestamp :: "bytes \<Rightarrow> bool" where
  "is_timestamp ts \<longleftrightarrow> ts = [] \<or> length ts = 4 \<and> list_all (\<lambda>b. parse_hex_digit b \<noteq> None) ts"

lemma parse_hex_digit_cr [simp]: "parse_hex_digit 0x0D = None"
  by (simp add: parse_hex_digit_def)

lemma hex_bytes_no_cr: "0x0D \<notin> set (hex_bytes data)"
  by (induction data) (auto simp: hex_bytes_def)

lemma slcan_line_no_cr: "wf_frame f \<Longrightarrow> 0x0D \<notin> set (slcan_line f)"
  using hex_digit_not_cr [OF nibble_and_lt] dlc_char(3) hex_bytes_no_cr
  by (auto simp: slcan_line_def raw_dlc_def wf_frame_def)

lemma timestamp_no_cr: "is_timestamp ts \<Longrightarrow> 0x0D \<notin> set ts"
  by (auto simp: is_timestamp_def list_all_iff)

lemma strip_cr_no_cr: "0x0D \<notin> set l \<Longrightarrow> strip_cr l = l"
  by (metis last_in_set strip_cr_def)

lemma parse_slcan_line:
  assumes "wf_frame f" and "is_timestamp ts"
  shows "parse_slcan_frame (slcan_line f @ ts) = can_frame_new (raw_id f) (frame_data f)"
proof -
  define h where "h = [0x74, hex_digit (ucast (drop_bit 8 (raw_id f)) AND 0x0F),
     hex_digit (ucast (drop_bit 4 (raw_id f)) AND 0x0F), hex_digit (ucast (raw_id f) AND 0x0F),
     0x30 + raw_dlc f]"
  define l where "l = h @ hex_bytes (frame_data f) @ ts"
  have l: "slcan_line f @ ts = l" by (simp add: slcan_line_def h_def l_def)
  have d: "unat (raw_dlc f) \<le> 8" "length (frame_data f) = unat (raw_dlc f)" and i: "raw_id f \<le> 0x7FF"
    using assms(1) length_frame_data [OF assms(1)] by (auto simp: wf_frame_def raw_dlc_def raw_id_def)
  have "0x0D \<notin> set l"
    using slcan_line_no_cr [OF assms(1)] timestamp_no_cr [OF assms(2)] by (simp flip: l)
  then have s: "strip_cr l = l" by (rule strip_cr_no_cr)
  have h: "l ! 0 = 0x74" "l ! Suc 0 = hex_digit (ucast (drop_bit 8 (raw_id f)) AND 0x0F)"
    "l ! 2 = hex_digit (ucast (drop_bit 4 (raw_id f)) AND 0x0F)"
    "l ! 3 = hex_digit (ucast (raw_id f) AND 0x0F)" "l ! 4 = 0x30 + raw_dlc f" "l \<noteq> []"
    by (simp_all add: h_def l_def)
  have n: "5 + unat (raw_dlc f) * 2 = length (h @ hex_bytes (frame_data f))" by (simp add: h_def d(2))
  have "drop (5 + unat (raw_dlc f) * 2) l = ts" unfolding n l_def by simp
  moreover have "for_each (hex_pair l) [0..<unat (raw_dlc f)] (replicate 8 0)
      = Some (overwrite (replicate 8 0) 0 (frame_data f))"
    using hex_pairs_decode [of h "frame_data f" ts] d by (simp add: h_def l_def)
  moreover have "take (unat (raw_dlc f)) (overwrite (replicate 8 0) 0 (frame_data f)) = frame_data f"
    by (simp flip: d(2))
  moreover have "length l = 5 + unat (raw_dlc f) * 2 + length ts" by (simp add: h_def d(2) l_def)
  moreover have "\<not> 0x30 + raw_dlc f < 0x30" by (rule dlc_char(1) [OF d(1)])
  ultimately show ?thesis
    using d(1) assms(2)
    by (auto simp add: l parse_slcan_frame_def s h slcan_id_join [OF i] Let_def is_timestamp_def)
qed

lemma strip_cr_snoc [simp]: "strip_cr (l @ [0x0D]) = l"
  by (simp add: strip_cr_def)

lemma parse_slcan_frame_cr: "0x0D \<notin> set l \<Longrightarrow> parse_slcan_frame (l @ [0x0D]) = parse_slcan_frame l"
  by (simp add: parse_slcan_frame_def strip_cr_no_cr)

lemma parse_slcan_frame_length: "parse_slcan_frame l = Some f \<Longrightarrow> length (strip_cr l) \<le> 25"
  by (auto simp: parse_slcan_frame_def Let_def bind_eq_Some_conv split: if_splits)

lemma parse_slcan_frame_wf: "parse_slcan_frame l = Some f \<Longrightarrow> wf_frame f"
  by (auto simp: parse_slcan_frame_def Let_def bind_eq_Some_conv split: if_splits dest: can_frame_new_wf)

lemma can_frame_new_self: "can_frame_new i data = Some f \<Longrightarrow> can_frame_new (raw_id f) (frame_data f) = Some f"
  by (simp add: can_frame_new_raw_id can_frame_new_data)

end
