(* ===== verification/Slcan_Serial.thy ===== *)
theory Slcan_Serial
  imports Slcan
begin

text \<open>
  The serial SLCAN transport of \<open>canopen-core/src/slcan/serial.rs\<close>. A serial port is a
  state with \<open>read\<close> and \<open>write_all\<close>; the transport collects bytes in a 256-byte
  buffer and cuts it at carriage returns. The main result is that chunking does not matter:
  whatever pieces the port delivers, the transport hands out exactly the frames of the byte
  stream's lines, in order.
\<close>

section \<open>Serial ports\<close>

text \<open>
  \<open>read(&mut buf)\<close> returns the number of bytes read, the new contents of the slice and the
  new port state.
\<close>

record ('p, 'e) serial_ops =
  sp_read :: "'p \<Rightarrow> bytes \<Rightarrow> ('e + nat) \<times> bytes \<times> 'p"
  sp_write_all :: "'p \<Rightarrow> bytes \<Rightarrow> ('e + unit) \<times> 'p"

record 'p slcan_transport =
  sl_port :: 'p
  rx_buf :: bytes
  rx_pos :: nat
  discarding_line :: bool

definition slcan_new :: "'p \<Rightarrow> 'p slcan_transport" where
  "slcan_new p = \<lparr>sl_port = p, rx_buf = replicate 256 0, rx_pos = 0, discarding_line = False\<rparr>"

definition into_inner :: "'p slcan_transport \<Rightarrow> 'p" where
  "into_inner t = sl_port t"

definition slcan_write :: "('p, 'e) serial_ops \<Rightarrow> bytes \<Rightarrow> 'p slcan_transport \<Rightarrow> ('e + unit) \<times> 'p slcan_transport" where
  "slcan_write ops d t = (let (r, p) = sp_write_all ops (sl_port t) d in (r, t\<lparr>sl_port := p\<rparr>))"

definition send_close :: "('p, 'e) serial_ops \<Rightarrow> 'p slcan_transport \<Rightarrow> ('e + unit) \<times> 'p slcan_transport" where
  "send_close ops = slcan_write ops [0x43, 0x0D]"

definition send_bitrate ::
  "('p, 'e) serial_ops \<Rightarrow> slcan_bitrate \<Rightarrow> 'p slcan_transport \<Rightarrow> ('e + unit) \<times> 'p slcan_transport" where
  "send_bitrate ops bitrate = slcan_write ops [0x53, 0x30 + bitrate_code bitrate, 0x0D]"

definition send_open :: "('p, 'e) serial_ops \<Rightarrow> 'p slcan_transport \<Rightarrow> ('e + unit) \<times> 'p slcan_transport" where
  "send_open ops = slcan_write ops [0x4F, 0x0D]"

text \<open>\<open>while matches!(self.port.read(&mut drain), Ok(n) if n > 0) {}\<close>: ends only when the port runs dry.\<close>

partial_function (option) drain_port :: "('p, 'e) serial_ops \<Rightarrow> bytes \<Rightarrow> 'p \<Rightarrow> 'p option" where
  "drain_port ops drain p =
     (case sp_read ops p drain of
        (Inl _, _, p') \<Rightarrow> Some p'
      | (Inr n, drain', p') \<Rightarrow> if n > 0 then drain_port ops drain' p' else Some p')"

definition drain_rx :: "('p, 'e) serial_ops \<Rightarrow> 'p slcan_transport \<Rightarrow> 'p slcan_transport option" where
  "drain_rx ops t = do {
     p \<leftarrow> drain_port ops (replicate 64 0) (sl_port t);
     Some (t\<lparr>rx_pos := 0, discarding_line := False, sl_port := p\<rparr>)
   }"

section \<open>Receiving\<close>

text \<open>\<open>iter().position(|&b| b == b'\r')\<close>\<close>

fun position :: "('a \<Rightarrow> bool) \<Rightarrow> 'a list \<Rightarrow> nat option" where
  "position P [] = None"
| "position P (x # xs) = (if P x then Some 0 else map_option Suc (position P xs))"

text \<open>\<open>rx_buf.copy_within(a..b, 0)\<close>\<close>

definition copy_within_0 :: "bytes \<Rightarrow> nat \<Rightarrow> nat \<Rightarrow> bytes" where
  "copy_within_0 buf a b = overwrite buf 0 (take (b - a) (drop a buf))"

lemma position_less: "position P xs = Some i \<Longrightarrow> i < length xs"
  by (induction xs arbitrary: i) (auto split: if_splits)

text \<open>
  \<open>take_buffered_frame\<close>. The outer option is the panic of \<open>rx_buf[..rx_pos]\<close> with a
  position beyond the buffer. The loop ends because every turn removes a line.
\<close>

function take_buffered_frame :: "'p slcan_transport \<Rightarrow> (can_frame option \<times> 'p slcan_transport) option" where
  "take_buffered_frame t =
     (if rx_pos t > length (rx_buf t) then None
      else case position (\<lambda>b. b = 0x0D) (take (rx_pos t) (rx_buf t)) of
        Some cr_pos \<Rightarrow>
          (let frame = (if discarding_line t then None else parse_slcan_frame (take cr_pos (rx_buf t)));
               remaining = rx_pos t - cr_pos - 1;
               t' = t\<lparr>discarding_line := False,
                      rx_buf := copy_within_0 (rx_buf t) (cr_pos + 1) (rx_pos t),
                      rx_pos := remaining\<rparr>
           in if frame \<noteq> None then Some (frame, t') else take_buffered_frame t')
      | None \<Rightarrow>
          if rx_pos t = length (rx_buf t)
          then Some (None, t\<lparr>rx_pos := 0, discarding_line := True\<rparr>)
          else Some (None, t))"
  by pat_completeness auto
termination
  by (relation "measure rx_pos") (auto dest!: position_less)

definition try_recv ::
  "('p, 'e) serial_ops \<Rightarrow> 'p slcan_transport \<Rightarrow> (('e + can_frame option) \<times> 'p slcan_transport) option" where
  "try_recv ops t = do {
     (frame, t) \<leftarrow> take_buffered_frame t;
     case frame of
       Some f \<Rightarrow> Some (Inr (Some f), t)
     | None \<Rightarrow> do {
         space \<leftarrow> sub_usize (length (rx_buf t)) (rx_pos t);
         (let (r, t) =
            (if space > 0
             then (let (r, new, p) = sp_read ops (sl_port t) (drop (rx_pos t) (rx_buf t));
                       t = t\<lparr>sl_port := p, rx_buf := take (rx_pos t) (rx_buf t) @ new\<rparr>
                   in case r of Inl e \<Rightarrow> (Inl e, t)
                      | Inr n \<Rightarrow> (Inr (), t\<lparr>rx_pos := rx_pos t + n\<rparr>))
             else (Inr (), t))
          in case r of Inl e \<Rightarrow> Some (Inl e, t)
             | Inr _ \<Rightarrow> do { (frame, t) \<leftarrow> take_buffered_frame t; Some (Inr frame, t) })
       }
   }"

definition slcan_transmit ::
  "('p, 'e) serial_ops \<Rightarrow> can_frame \<Rightarrow> 'p slcan_transport \<Rightarrow>
   ((nb_error + can_frame option) \<times> 'p slcan_transport) option" where
  "slcan_transmit ops frame t = do {
     (pos, cmd) \<leftarrow> encode_slcan_frame frame (replicate 32 0);
     case pos of
       None \<Rightarrow> Some (Inl (OtherError BusError), t)
     | Some pos \<Rightarrow> do {
         out \<leftarrow> slice cmd 0 pos;
         (let (r, p) = sp_write_all ops (sl_port t) out; t = t\<lparr>sl_port := p\<rparr>
          in case r of Inl _ \<Rightarrow> Some (Inl (OtherError BusError), t) | Inr _ \<Rightarrow> Some (Inr None, t))
       }
   }"

definition slcan_receive ::
  "('p, 'e) serial_ops \<Rightarrow> 'p slcan_transport \<Rightarrow> ((nb_error + can_frame) \<times> 'p slcan_transport) option" where
  "slcan_receive ops t = do {
     (r, t) \<leftarrow> try_recv ops t;
     case r of
       Inl _ \<Rightarrow> Some (Inl (OtherError BusError), t)
     | Inr None \<Rightarrow> Some (Inl WouldBlock, t)
     | Inr (Some f) \<Rightarrow> Some (Inr f, t)
   }"


declare take_buffered_frame.simps [simp del]

section \<open>Port implementations\<close>

text \<open>\<open>IoPort<T>\<close> over any \<open>std::io::Read + Write\<close> stream, which is a parameter.\<close>

datatype io_error_kind = IoWouldBlock | IoTimedOut | IoInterrupted | IoOther

record 's io_ops =
  io_read :: "'s \<Rightarrow> bytes \<Rightarrow> (io_error_kind + nat) \<times> bytes \<times> 's"
  io_write_all :: "'s \<Rightarrow> bytes \<Rightarrow> (io_error_kind + unit) \<times> 's"
  io_flush :: "'s \<Rightarrow> (io_error_kind + unit) \<times> 's"

definition io_port_read :: "'s io_ops \<Rightarrow> 's \<Rightarrow> bytes \<Rightarrow> (io_error_kind + nat) \<times> bytes \<times> 's" where
  "io_port_read iops s buf =
     (case io_read iops s buf of
        (Inr n, buf', s') \<Rightarrow> (Inr n, buf', s')
      | (Inl e, buf', s') \<Rightarrow>
          if e \<in> {IoWouldBlock, IoTimedOut, IoInterrupted} then (Inr 0, buf', s') else (Inl e, buf', s'))"

definition io_port_write_all :: "'s io_ops \<Rightarrow> 's \<Rightarrow> bytes \<Rightarrow> (io_error_kind + unit) \<times> 's" where
  "io_port_write_all iops s data =
     (case io_write_all iops s data of
        (Inl e, s') \<Rightarrow> (Inl e, s')
      | (Inr _, s') \<Rightarrow> io_flush iops s')"

definition io_port :: "'s io_ops \<Rightarrow> ('s, io_error_kind) serial_ops" where
  "io_port iops = \<lparr>sp_read = io_port_read iops, sp_write_all = io_port_write_all iops\<rparr>"

text \<open>The in-memory port of the transport's own tests: two 512-byte queues.\<close>

record fake_port =
  fp_rx :: bytes
  fp_tx :: bytes

definition fake_read :: "fake_port \<Rightarrow> bytes \<Rightarrow> (unit + nat) \<times> bytes \<times> fake_port" where
  "fake_read p buf = (let n = min (length buf) (length (fp_rx p)) in
     (Inr n, overwrite buf 0 (take n (fp_rx p)), p\<lparr>fp_rx := drop n (fp_rx p)\<rparr>))"

definition fake_write_all :: "fake_port \<Rightarrow> bytes \<Rightarrow> (unit + unit) \<times> fake_port" where
  "fake_write_all p d =
     (if length (fp_tx p) + length d \<le> 512 then (Inr (), p\<lparr>fp_tx := fp_tx p @ d\<rparr>) else (Inl (), p))"

definition fake_ops :: "(fake_port, unit) serial_ops" where
  "fake_ops = \<lparr>sp_read = fake_read, sp_write_all = fake_write_all\<rparr>"

section \<open>The reference decoder\<close>

text \<open>The complete lines of a byte stream and the frames among them.\<close>

function cr_lines :: "bytes \<Rightarrow> bytes list" where
  "cr_lines s = (case position (\<lambda>b. b = 0x0D) s of
      None \<Rightarrow> [] | Some i \<Rightarrow> take i s # cr_lines (drop (Suc i) s))"
  by pat_completeness auto
termination
  by (relation "measure length") (auto dest!: position_less)

declare cr_lines.simps [simp del]

definition line_frames :: "bytes \<Rightarrow> can_frame list" where
  "line_frames s = List.map_filter parse_slcan_frame (cr_lines s)"

text \<open>While a line is being discarded, the frames start after its delimiter.\<close>

definition stream_frames :: "bool \<Rightarrow> bytes \<Rightarrow> can_frame list" where
  "stream_frames discarding s =
     (if discarding then (case position (\<lambda>b. b = 0x0D) s of None \<Rightarrow> [] | Some i \<Rightarrow> line_frames (drop (Suc i) s))
      else line_frames s)"

definition buffered :: "'p slcan_transport \<Rightarrow> bytes" where
  "buffered t = take (rx_pos t) (rx_buf t)"

definition slcan_inv :: "'p slcan_transport \<Rightarrow> bool" where
  "slcan_inv t \<longleftrightarrow> length (rx_buf t) = 256 \<and> rx_pos t \<le> 256"

definition slcan_backlog :: "('p \<Rightarrow> bytes) \<Rightarrow> 'p slcan_transport \<Rightarrow> can_frame list" where
  "slcan_backlog pending t = stream_frames (discarding_line t) (buffered t @ pending (sl_port t))"

lemma position_append:
  "position P (xs @ ys) = (case position P xs of Some i \<Rightarrow> Some i
     | None \<Rightarrow> map_option (\<lambda>i. length xs + i) (position P ys))"
  by (induction xs) (auto simp: map_option_case split: option.splits)

lemma position_None: "position P xs = None \<longleftrightarrow> (\<forall>x\<in>set xs. \<not> P x)"
  by (induction xs) auto

lemma line_frames_None: "position (\<lambda>b. b = 0x0D) s = None \<Longrightarrow> line_frames s = []"
  by (simp add: line_frames_def cr_lines.simps [of s] List.map_filter_def)

lemma line_frames_Some:
  "position (\<lambda>b. b = 0x0D) s = Some i \<Longrightarrow>
   line_frames s = (case parse_slcan_frame (take i s) of None \<Rightarrow> [] | Some f \<Rightarrow> [f]) @ line_frames (drop (Suc i) s)"
  by (simp add: line_frames_def cr_lines.simps [of s] map_filter_simps split: option.splits)

lemma stream_frames_Some:
  "position (\<lambda>b. b = 0x0D) s = Some i \<Longrightarrow>
   stream_frames d s = (if d then [] else case parse_slcan_frame (take i s) of None \<Rightarrow> [] | Some f \<Rightarrow> [f])
     @ stream_frames False (drop (Suc i) s)"
  by (simp add: stream_frames_def line_frames_Some)

text \<open>A full buffer without a delimiter belongs to a line too long to be a frame.\<close>

lemma parse_long_line: "26 < length l \<Longrightarrow> parse_slcan_frame l = None"
  using parse_slcan_frame_length [of l] by (cases "parse_slcan_frame l") (auto simp: strip_cr_def split: if_splits)

lemma stream_frames_overlong:
  assumes "position (\<lambda>b. b = 0x0D) xs = None" and "26 < length xs"
  shows "stream_frames d (xs @ q) = stream_frames True q"
  using assms
  by (auto simp: stream_frames_def position_append line_frames_None line_frames_Some parse_long_line
      split: option.splits)


lemma buffered_after_line:
  assumes "slcan_inv t" and "i < rx_pos t"
  shows "take (rx_pos t - i - 1) (copy_within_0 (rx_buf t) (i + 1) (rx_pos t)) = drop (Suc i) (buffered t)"
  using assms by (simp add: copy_within_0_def overwrite_def buffered_def slcan_inv_def take_drop min_def)

text \<open>
  One pass over the buffer: it returns, keeps the invariant, and what it hands out is the front
  of the frames of the buffered bytes followed by any future bytes.
\<close>

lemma take_buffered_frame_spec:
  assumes "slcan_inv t"
  shows "\<exists>fo t'. take_buffered_frame t = Some (fo, t') \<and> slcan_inv t' \<and> sl_port t' = sl_port t
    \<and> (\<forall>q. stream_frames (discarding_line t) (buffered t @ q)
        = (case fo of None \<Rightarrow> [] | Some f \<Rightarrow> [f]) @ stream_frames (discarding_line t') (buffered t' @ q))
    \<and> (fo = None \<longrightarrow> rx_pos t' < 256 \<and> position (\<lambda>b. b = 0x0D) (buffered t') = None)"
  using assms
proof (induction t rule: take_buffered_frame.induct)
  case (1 t)
  have r: "\<not> rx_pos t > length (rx_buf t)" using "1.prems" by (simp add: slcan_inv_def)
  show ?case
  proof (cases "position (\<lambda>b. b = 0x0D) (take (rx_pos t) (rx_buf t))")
    case None
    show ?thesis
    proof (cases "rx_pos t = 256")
      case True
      then have "take_buffered_frame t = Some (None, t\<lparr>rx_pos := 0, discarding_line := True\<rparr>)"
        using None "1.prems" by (simp add: take_buffered_frame.simps [of t] slcan_inv_def)
      moreover have "stream_frames (discarding_line t) (buffered t @ q) = stream_frames True q" for q
        using None True "1.prems" by (intro stream_frames_overlong) (auto simp: buffered_def slcan_inv_def)
      ultimately show ?thesis using "1.prems" by (simp add: slcan_inv_def buffered_def)
    next
      case False
      then have "take_buffered_frame t = Some (None, t)"
        using None "1.prems" by (simp add: take_buffered_frame.simps [of t] slcan_inv_def)
      then show ?thesis using "1.prems" None False by (simp add: slcan_inv_def buffered_def)
    qed
  next
    case (Some i)
    define frame where "frame = (if discarding_line t then None else parse_slcan_frame (take i (rx_buf t)))"
    define t1 where "t1 = t\<lparr>discarding_line := False,
      rx_buf := copy_within_0 (rx_buf t) (i + 1) (rx_pos t), rx_pos := rx_pos t - i - 1\<rparr>"
    have step: "take_buffered_frame t = (if frame \<noteq> None then Some (frame, t1) else take_buffered_frame t1)"
      using Some r by (simp add: take_buffered_frame.simps [of t] frame_def t1_def)
    have i: "i < rx_pos t" using position_less [OF Some] by simp
    have b1: "buffered t1 = drop (Suc i) (buffered t)"
      using buffered_after_line [OF "1.prems" i] by (simp add: t1_def buffered_def)
    have inv1: "slcan_inv t1" using "1.prems" i
      by (auto simp: slcan_inv_def t1_def copy_within_0_def)
    have "take i (buffered t) = take i (rx_buf t)" using i by (simp add: buffered_def min_def)
    moreover have "i < length (buffered t)" using position_less [OF Some] by (simp add: buffered_def)
    ultimately have f: "stream_frames (discarding_line t) (buffered t @ q)
        = (case frame of None \<Rightarrow> [] | Some f \<Rightarrow> [f]) @ stream_frames False (buffered t1 @ q)" for q
      using stream_frames_Some [of "buffered t @ q" i "discarding_line t"] Some
      by (simp add: position_append buffered_def [symmetric] frame_def b1)
    have t1: "discarding_line t1 = False" "sl_port t1 = sl_port t" by (simp_all add: t1_def)
    show ?thesis
    proof (cases frame)
      case None
      have "\<exists>fo t'. take_buffered_frame t1 = Some (fo, t') \<and> slcan_inv t' \<and> sl_port t' = sl_port t1
        \<and> (\<forall>q. stream_frames (discarding_line t1) (buffered t1 @ q)
            = (case fo of None \<Rightarrow> [] | Some f \<Rightarrow> [f]) @ stream_frames (discarding_line t') (buffered t' @ q))
        \<and> (fo = None \<longrightarrow> rx_pos t' < 256 \<and> position (\<lambda>b. b = 0x0D) (buffered t') = None)"
        using "1.IH" [OF r Some frame_def refl t1_def] None inv1 by simp
      then show ?thesis using None by (simp add: step f t1)
    next
      case (Some g)
      then show ?thesis using inv1 by (simp add: step f t1)
    qed
  qed
qed

section \<open>What the transport relies on\<close>

text \<open>
  The contract of \<open>SerialPort\<close>: \<open>pending\<close> is the byte stream the port still has to
  deliver, \<open>written\<close> what it has accepted. A read fills a prefix of the slice with the next
  bytes of the stream, possibly none; a failed read or write moves nothing.
\<close>

locale serial_port =
  fixes ops :: "('p, 'e) serial_ops"
    and pending :: "'p \<Rightarrow> bytes"
    and written :: "'p \<Rightarrow> bytes"
  assumes read_ok: "sp_read ops p buf = (Inr n, buf', p') \<Longrightarrow>
      n \<le> length buf \<and> n \<le> length (pending p) \<and> length buf' = length buf
      \<and> take n buf' = take n (pending p) \<and> pending p' = drop n (pending p)"
    and read_err: "sp_read ops p buf = (Inl e, buf', p') \<Longrightarrow> length buf' = length buf \<and> pending p' = pending p"
    and write_ok: "sp_write_all ops p d = (Inr u, p') \<Longrightarrow> written p' = written p @ d \<and> pending p' = pending p"
    and write_err: "sp_write_all ops p d = (Inl e, p') \<Longrightarrow> pending p' = pending p"
begin

lemma try_recv_spec:
  assumes "slcan_inv t"
  shows "\<exists>r t'. try_recv ops t = Some (r, t') \<and> slcan_inv t'
    \<and> slcan_backlog pending t = (case r of Inr (Some f) \<Rightarrow> [f] | _ \<Rightarrow> []) @ slcan_backlog pending t'
    \<and> length (pending (sl_port t')) \<le> length (pending (sl_port t))
    \<and> (case r of
         Inl e \<Rightarrow> \<exists>buf buf'. sp_read ops (sl_port t) buf = (Inl e, buf', sl_port t')
       | Inr None \<Rightarrow> position (\<lambda>b. b = 0x0D) (buffered t') = None
           \<and> (\<exists>buf n buf'. 0 < length buf \<and> sp_read ops (sl_port t) buf = (Inr n, buf', sl_port t'))
       | Inr (Some f) \<Rightarrow> True)"
proof -
  obtain fo t1 where 1: "take_buffered_frame t = Some (fo, t1)" "slcan_inv t1" "sl_port t1 = sl_port t"
    "stream_frames (discarding_line t) (buffered t @ q)
      = (case fo of None \<Rightarrow> [] | Some f \<Rightarrow> [f]) @ stream_frames (discarding_line t1) (buffered t1 @ q)"
    "fo = None \<Longrightarrow> rx_pos t1 < 256" for q
    using take_buffered_frame_spec [OF assms] by blast
  show ?thesis
  proof (cases fo)
    case (Some f)
    then show ?thesis using 1 by (simp add: try_recv_def slcan_backlog_def)
  next
    case None
    then have sp: "rx_pos t1 < 256" "length (rx_buf t1) = 256"
      using 1(2,5) by (auto simp: slcan_inv_def)
    have b: "slcan_backlog pending t = slcan_backlog pending t1"
      using 1(3,4) None by (simp add: slcan_backlog_def)
    obtain r new p where rd: "sp_read ops (sl_port t1) (drop (rx_pos t1) (rx_buf t1)) = (r, new, p)"
      by (cases "sp_read ops (sl_port t1) (drop (rx_pos t1) (rx_buf t1))") auto
    define t2 where "t2 = t1\<lparr>sl_port := p, rx_buf := take (rx_pos t1) (rx_buf t1) @ new\<rparr>"
    show ?thesis
    proof (cases r)
      case (Inl e)
      then have "try_recv ops t = Some (Inl e, t2)"
        using 1(1) None sp rd by (simp add: try_recv_def sub_usize_eq t2_def)
      moreover have "slcan_inv t2" "slcan_backlog pending t = slcan_backlog pending t2"
        "pending (sl_port t2) = pending (sl_port t)" "sl_port t2 = p"
        using read_err [OF rd [unfolded Inl]] 1(2,3) sp b
        by (auto simp: slcan_inv_def t2_def slcan_backlog_def buffered_def)
      ultimately show ?thesis using rd Inl 1(3) by auto
    next
      case (Inr n)
      define t3 where "t3 = t2\<lparr>rx_pos := rx_pos t1 + n\<rparr>"
      have n: "n \<le> 256 - rx_pos t1" "length new = 256 - rx_pos t1" "n \<le> length (pending (sl_port t1))"
        "take n new = take n (pending (sl_port t1))" "pending p = drop n (pending (sl_port t1))"
        using read_ok [OF rd [unfolded Inr]] sp by auto
      have inv3: "slcan_inv t3" using n sp by (simp add: slcan_inv_def t3_def t2_def)
      have "buffered t3 = buffered t1 @ take n (pending (sl_port t1))"
        using n sp by (simp add: t3_def t2_def buffered_def)
      then have b3: "slcan_backlog pending t3 = slcan_backlog pending t1"
        using n(5) by (simp add: slcan_backlog_def t3_def t2_def)
      obtain fo2 t4 where 2: "take_buffered_frame t3 = Some (fo2, t4)" "slcan_inv t4" "sl_port t4 = sl_port t3"
        "stream_frames (discarding_line t3) (buffered t3 @ q)
          = (case fo2 of None \<Rightarrow> [] | Some f \<Rightarrow> [f]) @ stream_frames (discarding_line t4) (buffered t4 @ q)"
        "fo2 = None \<Longrightarrow> position (\<lambda>b. b = 0x0D) (buffered t4) = None" for q
        using take_buffered_frame_spec [OF inv3] by blast
      have "try_recv ops t = Some (Inr fo2, t4)"
        using 1(1) None Inr sp rd 2(1) by (simp add: try_recv_def sub_usize_eq t2_def t3_def)
      moreover have "slcan_backlog pending t = (case fo2 of None \<Rightarrow> [] | Some f \<Rightarrow> [f]) @ slcan_backlog pending t4"
        using 2(3,4) by (simp add: b b3 [symmetric]) (simp add: slcan_backlog_def)
      moreover have "sp_read ops (sl_port t) (drop (rx_pos t1) (rx_buf t1)) = (Inr n, new, sl_port t4)"
        "0 < length (drop (rx_pos t1) (rx_buf t1))"
        using rd Inr 1(3) 2(3) sp by (simp_all add: t3_def t2_def)
      moreover from this have "\<exists>buf n buf'. 0 < length buf \<and> sp_read ops (sl_port t) buf = (Inr n, buf', sl_port t4)"
        by blast
      moreover have "length (pending (sl_port t4)) \<le> length (pending (sl_port t))"
        using 2(3) n(5) 1(3) by (simp add: t3_def t2_def)
      ultimately show ?thesis using 2(2,5) by (cases fo2) simp_all
    qed
  qed
qed


lemma receive_spec:
  assumes "slcan_inv t"
  shows "\<exists>r t'. slcan_receive ops t = Some (r, t') \<and> slcan_inv t'
    \<and> slcan_backlog pending t = (case r of Inr f \<Rightarrow> [f] | Inl _ \<Rightarrow> []) @ slcan_backlog pending t'"
proof -
  obtain r t' where "try_recv ops t = Some (r, t')" "slcan_inv t'"
    "slcan_backlog pending t = (case r of Inr (Some f) \<Rightarrow> [f] | _ \<Rightarrow> []) @ slcan_backlog pending t'"
    using try_recv_spec [OF assms] by blast
  then show ?thesis by (auto simp: slcan_receive_def split: sum.splits option.splits)
qed

lemma transmit_spec:
  assumes "wf_frame f"
  shows "\<exists>r t'. slcan_transmit ops f t = Some (r, t') \<and> slcan_backlog pending t' = slcan_backlog pending t
    \<and> (slcan_inv t' \<longleftrightarrow> slcan_inv t)
    \<and> (is_ok r \<longrightarrow> written (sl_port t') = written (sl_port t) @ slcan_line f @ [0x0D])"
proof -
  let ?l = "slcan_line f @ [0x0D]"
  have "length (frame_data f) \<le> 8"
    using assms length_frame_data [OF assms] by (simp add: wf_frame_def raw_dlc_def)
  then have e: "encode_slcan_frame f (replicate 32 0) = Some (Some (length ?l), overwrite (replicate 32 0) 0 ?l)"
    "length ?l \<le> 32"
    using encode_slcan_frame_line [of f "replicate 32 0"] by simp_all
  have s: "slice (overwrite (replicate 32 0) 0 ?l) 0 (length ?l) = Some ?l"
    using e(2) by (simp add: slice_def del: length_append length_slcan_line)
  obtain r p where w: "sp_write_all ops (sl_port t) ?l = (r, p)" by (cases "sp_write_all ops (sl_port t) ?l") auto
  show ?thesis
  proof (cases r)
    case (Inl e)
    with e s w have "slcan_transmit ops f t = Some (Inl (OtherError BusError), t\<lparr>sl_port := p\<rparr>)"
      by (simp add: slcan_transmit_def)
    then show ?thesis using write_err [OF w [unfolded Inl]]
      by (simp add: slcan_backlog_def slcan_inv_def buffered_def)
  next
    case (Inr u)
    with e s w have "slcan_transmit ops f t = Some (Inr None, t\<lparr>sl_port := p\<rparr>)"
      by (simp add: slcan_transmit_def)
    then show ?thesis using write_ok [OF w [unfolded Inr]]
      by (simp add: slcan_backlog_def slcan_inv_def buffered_def)
  qed
qed

end

text \<open>A port that has data returns some of it: the non-blocking reads do not stall.\<close>

locale prompt_port = serial_port ops pending written
  for ops :: "('p, 'e) serial_ops" and pending written +
  assumes read_prompt: "\<exists>n buf' p'. sp_read ops p buf = (Inr n, buf', p')
      \<and> (pending p \<noteq> [] \<longrightarrow> 0 < length buf \<longrightarrow> 0 < n)"
begin

lemma drain_port_ends:
  assumes "0 < length d"
  shows "\<exists>p'. drain_port ops d p = Some p' \<and> pending p' = []"
  using assms
proof (induction "length (pending p)" arbitrary: p d rule: less_induct)
  case less
  obtain n d' p' where r: "sp_read ops p d = (Inr n, d', p')" "pending p \<noteq> [] \<longrightarrow> 0 < n"
    using read_prompt [of p d] less.prems by blast
  note ok = read_ok [OF r(1)]
  show ?case
  proof (cases "n = 0")
    case True
    then show ?thesis using r ok by (subst drain_port.simps) auto
  next
    case False
    then have "drain_port ops d p = drain_port ops d' p'" using r(1) by (subst drain_port.simps) simp
    moreover have "length (pending p') < length (pending p)" "0 < length d'" using ok False less.prems by auto
    ultimately show ?thesis using less.hyps [of p' d'] by simp
  qed
qed

lemma receive_progress:
  assumes "slcan_inv t" and "slcan_backlog pending t \<noteq> []"
    and "slcan_receive ops t = Some (r, t')"
  shows "length (slcan_backlog pending t') + length (pending (sl_port t'))
    < length (slcan_backlog pending t) + length (pending (sl_port t))"
proof -
  note spec = try_recv_spec [OF assms(1)]
  then obtain r1 t1 where "try_recv ops t = Some (r1, t1)" by blast
  moreover from this have "t1 = t'"
    using assms(3) by (auto simp: slcan_receive_def split: sum.splits option.splits)
  ultimately have 1: "try_recv ops t = Some (r1, t')" by simp
  consider (err) e where "r1 = Inl e" | (none) "r1 = Inr None" | (some) f where "r1 = Inr (Some f)"
    by (cases r1) auto
  then show ?thesis
  proof cases
    case err
    then obtain buf buf' where "sp_read ops (sl_port t) buf = (Inl e, buf', sl_port t')"
      using spec 1 by auto
    then show ?thesis using read_prompt [of "sl_port t" buf] by auto
  next
    case some
    then show ?thesis using spec 1 by auto
  next
    case none
    then obtain buf n buf' where r: "0 < length buf" "sp_read ops (sl_port t) buf = (Inr n, buf', sl_port t')"
      and p: "position (\<lambda>b. b = 0x0D) (buffered t') = None"
      and b: "slcan_backlog pending t = slcan_backlog pending t'"
      using spec 1 by auto
    show ?thesis
    proof (cases "pending (sl_port t)")
      case Nil
      then have "slcan_backlog pending t' = []" using p read_ok [OF r(2)]
        by (simp add: slcan_backlog_def stream_frames_def line_frames_None)
      then show ?thesis using b assms(2) by simp
    next
      case Cons
      then have "0 < n" using r read_prompt [of "sl_port t" buf] by auto
      then show ?thesis using read_ok [OF r(2)] b Cons by simp
    qed
  qed
qed

end

interpretation fake: prompt_port fake_ops fp_rx fp_tx
  by unfold_locales
    (auto simp: fake_ops_def fake_read_def fake_write_all_def Let_def min_def take_overwrite overwrite_def
      split: if_splits)

section \<open>Sequences of receives\<close>

text \<open>\<open>n\<close> calls of \<open>receive\<close> and the frames they return.\<close>

fun receives :: "('p, 'e) serial_ops \<Rightarrow> nat \<Rightarrow> 'p slcan_transport \<Rightarrow> (can_frame list \<times> 'p slcan_transport) option" where
  "receives ops 0 t = Some ([], t)"
| "receives ops (Suc n) t = do {
     (r, t) \<leftarrow> slcan_receive ops t;
     (fs, t) \<leftarrow> receives ops n t;
     Some ((case r of Inr f \<Rightarrow> [f] | Inl _ \<Rightarrow> []) @ fs, t)
   }"

text \<open>A sequence of \<open>transmit\<close> calls that all succeed.\<close>

fun transmits :: "('p, 'e) serial_ops \<Rightarrow> can_frame list \<Rightarrow> 'p slcan_transport \<Rightarrow> 'p slcan_transport option" where
  "transmits ops [] t = Some t"
| "transmits ops (f # fs) t = do {
     (r, t) \<leftarrow> slcan_transmit ops f t;
     if is_ok r then transmits ops fs t else None
   }"

context serial_port
begin

lemma receives_spec:
  "slcan_inv t \<Longrightarrow> \<exists>fs t'. receives ops n t = Some (fs, t') \<and> slcan_inv t'
     \<and> slcan_backlog pending t = fs @ slcan_backlog pending t'"
proof (induction n arbitrary: t)
  case (Suc n)
  from receive_spec [OF Suc.prems] obtain r t1 where 1: "slcan_receive ops t = Some (r, t1)" "slcan_inv t1"
    "slcan_backlog pending t = (case r of Inr f \<Rightarrow> [f] | Inl _ \<Rightarrow> []) @ slcan_backlog pending t1" by blast
  with Suc.IH [OF 1(2)] show ?case by auto
qed simp

lemma transmits_written:
  assumes "\<forall>f\<in>set fs. wf_frame f" and "transmits ops fs t = Some t'"
  shows "written (sl_port t') = written (sl_port t) @ concat (map (\<lambda>f. slcan_line f @ [0x0D]) fs)"
  using assms
proof (induction fs arbitrary: t)
  case (Cons f fs)
  then obtain r t1 where "slcan_transmit ops f t = Some (r, t1)" "is_ok r" "transmits ops fs t1 = Some t'"
    by (auto simp: bind_eq_Some_conv split: if_splits)
  then show ?case using Cons.IH [of t1] Cons.prems transmit_spec [of f t] by auto
qed simp

end

context prompt_port
begin

lemma receives_all:
  assumes "slcan_inv t" and "length (slcan_backlog pending t) + length (pending (sl_port t)) \<le> n"
  shows "\<exists>t'. receives ops n t = Some (slcan_backlog pending t, t')"
  using assms
proof (induction n arbitrary: t)
  case 0
  then show ?case by simp
next
  case (Suc n)
  from receive_spec [OF Suc.prems(1)] obtain r t1 where 1: "slcan_receive ops t = Some (r, t1)" "slcan_inv t1"
    "slcan_backlog pending t = (case r of Inr f \<Rightarrow> [f] | Inl _ \<Rightarrow> []) @ slcan_backlog pending t1" by blast
  show ?case
  proof (cases "slcan_backlog pending t = []")
    case True
    then show ?thesis using receives_spec [OF Suc.prems(1), of "Suc n"] by auto
  next
    case False
    have "length (slcan_backlog pending t1) + length (pending (sl_port t1)) \<le> n"
      using receive_progress [OF Suc.prems(1) False 1(1)] Suc.prems(2) by linarith
    from Suc.IH [OF 1(2) this] show ?thesis using 1 by auto
  qed
qed

end

text \<open>The byte stream written for a sequence of frames decodes to that sequence.\<close>

lemma line_frames_written:
  assumes "\<forall>f\<in>set fs. wf_frame f \<and> can_frame_new (raw_id f) (frame_data f) = Some f"
  shows "line_frames (concat (map (\<lambda>f. slcan_line f @ [0x0D]) fs)) = fs"
  using assms
proof (induction fs)
  case Nil
  then show ?case by (simp add: line_frames_None)
next
  case (Cons f fs)
  let ?s = "concat (map (\<lambda>f. slcan_line f @ [0x0D]) (f # fs))"
  have "position (\<lambda>b. b = 0x0D) (slcan_line f) = None"
    using slcan_line_no_cr [of f] Cons.prems by (auto simp: position_None)
  then have "position (\<lambda>b. b = 0x0D) ?s = Some (length (slcan_line f))"
    by (simp add: position_append)
  from line_frames_Some [OF this]
  have "line_frames ?s = (case parse_slcan_frame (slcan_line f) of None \<Rightarrow> [] | Some f \<Rightarrow> [f])
      @ line_frames (concat (map (\<lambda>f. slcan_line f @ [0x0D]) fs))"
    by simp
  then show ?case using Cons parse_slcan_line [of f "[]"] by (simp add: is_timestamp_def)
qed

lemma slcan_new_inv [simp]: "slcan_inv (slcan_new p)"
  by (simp add: slcan_inv_def slcan_new_def)

lemma slcan_new_port [simp]: "sl_port (slcan_new p) = p"
  by (simp add: slcan_new_def)

lemma slcan_new_backlog [simp]: "slcan_backlog pending (slcan_new p) = line_frames (pending p)"
  by (simp add: slcan_backlog_def slcan_new_def stream_frames_def buffered_def)


section \<open>Properties\<close>

text \<open>
  C37. Chunking does not matter to the SLCAN transport: over every serial port that delivers its
  byte stream in order, in pieces of any size, with pauses and failed reads in between, any
  number of \<open>receive\<close> calls returns without a panic, and the frames handed out followed by
  those still to come are exactly the frames of the stream's carriage-return terminated lines
  (a line that overflows the 256-byte buffer is never a frame, and neither is its tail).
\<close>

theorem slcan_stream_exact:
  assumes "serial_port ops pending written" and "slcan_inv t"
  shows "\<exists>fs t'. receives ops n t = Some (fs, t') \<and> slcan_inv t'
    \<and> stream_frames (discarding_line t) (buffered t @ pending (sl_port t))
      = fs @ stream_frames (discarding_line t') (buffered t' @ pending (sl_port t'))"
  using serial_port.receives_spec [OF assms] by (simp add: slcan_backlog_def)

text \<open>An acknowledgement, a malformed line and two frames, the second not yet complete.\<close>

theorem slcan_stream_exact_witness:
  "\<exists>fs t'. receives fake_ops 3 (slcan_new \<lparr>fp_rx = [0x0D, 0x46, 0x30, 0x0D, 0x74, 0x32, 0x30, 0x31, 0x31, 0x32, 0x41, 0x0D, 0x74, 0x32], fp_tx = []\<rparr>)
      = Some (fs, t') \<and> slcan_inv t'
    \<and> stream_frames False [0x0D, 0x46, 0x30, 0x0D, 0x74, 0x32, 0x30, 0x31, 0x31, 0x32, 0x41, 0x0D, 0x74, 0x32]
      = fs @ stream_frames (discarding_line t') (buffered t' @ fp_rx (sl_port t'))"
  using slcan_stream_exact [OF fake.serial_port_axioms slcan_new_inv, of 3
      "\<lparr>fp_rx = [0x0D, 0x46, 0x30, 0x0D, 0x74, 0x32, 0x30, 0x31, 0x31, 0x32, 0x41, 0x0D, 0x74, 0x32], fp_tx = []\<rparr>"]
  by (simp add: slcan_new_def buffered_def)


definition slcan_demo :: "can_frame list" where
  "slcan_demo = [\<lparr>cf_id = 0x181, cf_dlc = 2, cf_data = [0x12, 0xAB, 0, 0, 0, 0, 0, 0]\<rparr>,
                 \<lparr>cf_id = 0x701, cf_dlc = 1, cf_data = [5, 0, 0, 0, 0, 0, 0, 0]\<rparr>]"


text \<open>
  C40. Draining the receive side ends: on a port whose reads return data as long as there is
  any, \<open>drain_rx\<close> returns, nothing is left pending on the port, and the transport is back in
  its initial receive state.
\<close>

theorem drain_rx_terminates:
  assumes "prompt_port ops pending written"
  shows "\<exists>t'. drain_rx ops t = Some t' \<and> pending (sl_port t') = [] \<and> buffered t' = [] \<and> \<not> discarding_line t'"
  using prompt_port.drain_port_ends [OF assms, of "replicate 64 0" "sl_port t"]
  by (auto simp: drain_rx_def buffered_def)

theorem drain_rx_terminates_witness:
  "\<exists>t'. drain_rx fake_ops (slcan_new \<lparr>fp_rx = [0x74, 0x0D, 0x41], fp_tx = []\<rparr>) = Some t'
    \<and> fp_rx (sl_port t') = [] \<and> buffered t' = [] \<and> \<not> discarding_line t'"
  by (rule drain_rx_terminates [OF fake.prompt_port_axioms])

end
