(* ===== verification/Canwsd.thy ===== *)
theory Canwsd
  imports Rust_Str
begin

unbundle bit_operations_syntax

text \<open>
  The public interface of the CAN-over-WebSocket service, \<open>canwsd-proto/src\<close>: the binary
  frame format of \<open>wire.rs\<close> and the receive filters of \<open>filter.rs\<close>.
\<close>

section \<open>Frames on the WebSocket\<close>

definition CAN_EFF_FLAG :: u32 where "CAN_EFF_FLAG = 0x80000000"
definition CAN_RTR_FLAG :: u32 where "CAN_RTR_FLAG = 0x40000000"
definition CAN_ERR_FLAG :: u32 where "CAN_ERR_FLAG = 0x20000000"
definition CAN_EFF_MASK :: u32 where "CAN_EFF_MASK = 0x1FFFFFFF"
definition CAN_SFF_MASK :: u32 where "CAN_SFF_MASK = 0x7FF"

definition WIRE_HEADER_SIZE :: nat where "WIRE_HEADER_SIZE = 5"
definition MAX_WIRE_FRAME_SIZE :: nat where "MAX_WIRE_FRAME_SIZE = WIRE_HEADER_SIZE + 8"

record wire_frame =
  id_word :: u32
  wire_dlc :: u8
  wire_payload :: bytes

datatype decode_error = TooShort nat | BadDlc u8 | LengthMismatch nat nat

definition wire_new :: "u32 \<Rightarrow> bytes \<Rightarrow> wire_frame option" where
  "wire_new w data =
     (if length data > 8 then None
      else Some \<lparr>id_word = w, wire_dlc = of_nat (length data),
                 wire_payload = overwrite (replicate 8 0) 0 data\<rparr>)"

definition is_extended :: "wire_frame \<Rightarrow> bool" where "is_extended f \<longleftrightarrow> id_word f AND CAN_EFF_FLAG \<noteq> 0"
definition is_rtr :: "wire_frame \<Rightarrow> bool" where "is_rtr f \<longleftrightarrow> id_word f AND CAN_RTR_FLAG \<noteq> 0"
definition is_error :: "wire_frame \<Rightarrow> bool" where "is_error f \<longleftrightarrow> id_word f AND CAN_ERR_FLAG \<noteq> 0"

definition wire_id :: "wire_frame \<Rightarrow> u32" where
  "wire_id f = (if is_extended f then id_word f AND CAN_EFF_MASK else id_word f AND CAN_SFF_MASK)"

definition wire_data :: "wire_frame \<Rightarrow> bytes" where
  "wire_data f = take (unat (wire_dlc f)) (wire_payload f)"

text \<open>\<open>encode\<close>: a 13-byte buffer and the length of its valid prefix; a panic is \<^term>\<open>None\<close>.\<close>

definition wire_encode :: "wire_frame \<Rightarrow> (bytes \<times> nat) option" where
  "wire_encode f = do {
     let buf = replicate MAX_WIRE_FRAME_SIZE 0;
     buf \<leftarrow> copy_from_slice buf 0 (to_le_bytes 4 (id_word f));
     let buf = buf[4 := wire_dlc f];
     buf \<leftarrow> copy_from_slice buf WIRE_HEADER_SIZE (wire_data f);
     Some (buf, WIRE_HEADER_SIZE + unat (wire_dlc f))
   }"

definition wire_decode :: "bytes \<Rightarrow> decode_error + wire_frame" where
  "wire_decode buf =
     (if length buf < WIRE_HEADER_SIZE then Inl (TooShort (length buf))
      else
        let w = from_le_bytes (take 4 buf); dlc = buf ! 4 in
        if dlc > 8 then Inl (BadDlc dlc)
        else
          let expected = WIRE_HEADER_SIZE + unat dlc in
          if length buf \<noteq> expected then Inl (LengthMismatch expected (length buf))
          else Inr \<lparr>id_word = w, wire_dlc = dlc,
                    wire_payload = overwrite (replicate 8 0) 0 (take (unat dlc) (drop WIRE_HEADER_SIZE buf))\<rparr>)"

section \<open>Receive filters\<close>

record can_filter =
  flt_id :: u32
  flt_mask :: u32

definition filter_matches :: "can_filter \<Rightarrow> u32 \<Rightarrow> bool" where
  "filter_matches f frame_id \<longleftrightarrow> frame_id AND flt_mask f = flt_id f AND flt_mask f"

datatype filter_error_kind = MissingColon | BadNumber

record filter_error =
  fe_entry :: string
  fe_kind :: filter_error_kind

definition filter_error_display :: "filter_error \<Rightarrow> string" where
  "filter_error_display e =
     (case fe_kind e of
        MissingColon \<Rightarrow> ''expected id:mask, got '' @ [CHR 0x27] @ fe_entry e @ [CHR 0x27]
      | BadNumber \<Rightarrow> ''invalid number in '' @ [CHR 0x27] @ fe_entry e @ [CHR 0x27])"

definition parse_filter_entry :: "string \<Rightarrow> filter_error + can_filter" where
  "parse_filter_entry entry =
     (case split_once '':'' entry of
        None \<Rightarrow> Inl \<lparr>fe_entry = entry, fe_kind = MissingColon\<rparr>
      | Some (id_s, mask_s) \<Rightarrow>
          (case parse_hex_or_dec 32 id_s of
             None \<Rightarrow> Inl \<lparr>fe_entry = entry, fe_kind = BadNumber\<rparr>
           | Some i \<Rightarrow>
               (case parse_hex_or_dec 32 mask_s of
                  None \<Rightarrow> Inl \<lparr>fe_entry = entry, fe_kind = BadNumber\<rparr>
                | Some m \<Rightarrow> Inr \<lparr>flt_id = word_of_int i, flt_mask = word_of_int m\<rparr>)))"

definition parse_filters :: "string \<Rightarrow> (filter_error + can_filter) list" where
  "parse_filters s = map parse_filter_entry (filter (\<lambda>e. e \<noteq> []) (split_char (CHR '','') s))"

text \<open>\<open>collect::<Result<Vec<_>, _>>()\<close>: the first error, or all values.\<close>

fun collect_results :: "('e + 'a) list \<Rightarrow> 'e + 'a list" where
  "collect_results [] = Inr []"
| "collect_results (Inl e # rs) = Inl e"
| "collect_results (Inr x # rs) =
     (case collect_results rs of Inl e \<Rightarrow> Inl e | Inr xs \<Rightarrow> Inr (x # xs))"

definition parse_filter_param :: "string \<Rightarrow> string + can_filter list" where
  "parse_filter_param s = (case collect_results (parse_filters s) of
      Inl e \<Rightarrow> Inl (filter_error_display e) | Inr fs \<Rightarrow> Inr fs)"

text \<open>The runtime filter command of \<open>ClientCommand\<close> and its entries.\<close>

record filter_entry =
  ent_id :: u32
  ent_mask :: u32

datatype client_command = SetFilter "filter_entry list" | ClearFilter

definition filter_of_entry :: "filter_entry \<Rightarrow> can_filter" where
  "filter_of_entry e = \<lparr>flt_id = ent_id e, flt_mask = ent_mask e\<rparr>"

section \<open>Properties of the frame format\<close>

definition wire_bytes :: "wire_frame \<Rightarrow> bytes" where
  "wire_bytes f = to_le_bytes 4 (id_word f) @ [wire_dlc f] @ wire_data f"

text \<open>What the constructors guarantee of a frame (its fields are private).\<close>

definition wf_wire :: "wire_frame \<Rightarrow> bool" where
  "wf_wire f \<longleftrightarrow> wire_dlc f \<le> 8 \<and> wire_payload f = overwrite (replicate 8 0) 0 (wire_data f) \<and> length (wire_payload f) = 8"

lemma length_wire_data: "wf_wire f \<Longrightarrow> length (wire_data f) = unat (wire_dlc f)"
  by (simp add: wf_wire_def wire_data_def word_le_nat_alt)

lemma wire_new_wf: "wire_new w data = Some f \<Longrightarrow> wf_wire f"
  by (auto simp: wire_new_def wf_wire_def wire_data_def word_le_nat_alt unat_of_nat split: if_splits)

lemma length_wire_bytes: "wf_wire f \<Longrightarrow> length (wire_bytes f) = 5 + unat (wire_dlc f)"
  by (simp add: wire_bytes_def length_wire_data)

lemma wire_encode_bytes:
  assumes "wf_wire f"
  shows "\<exists>buf. wire_encode f = Some (buf, 5 + unat (wire_dlc f)) \<and> length buf = 13
    \<and> take (5 + unat (wire_dlc f)) buf = wire_bytes f"
proof -
  let ?b = "overwrite (replicate 13 (0 :: u8)) 0 (to_le_bytes 4 (id_word f))"
  have "length (wire_data f) \<le> 8"
    using length_wire_data [OF assms] assms by (simp add: wf_wire_def word_le_nat_alt)
  then have "wire_encode f = Some (overwrite (?b[4 := wire_dlc f]) 5 (wire_data f), 5 + unat (wire_dlc f))"
    by (simp add: wire_encode_def MAX_WIRE_FRAME_SIZE_def WIRE_HEADER_SIZE_def copy_from_slice_eq)
  moreover have "take 5 (?b[4 := wire_dlc f]) = to_le_bytes 4 (id_word f) @ [wire_dlc f]"
    by (simp add: overwrite_def list_update_append numeral_eq_Suc)
  ultimately show ?thesis using \<open>length (wire_data f) \<le> 8\<close>
    by (simp add: overwrite_def wire_bytes_def length_wire_data [OF assms] numeral_eq_Suc)
qed

lemma wire_decode_bytes:
  assumes "wf_wire f"
  shows "wire_decode (wire_bytes f) = Inr f"
proof -
  have "wire_bytes f ! 4 = wire_dlc f" "take 4 (wire_bytes f) = to_le_bytes 4 (id_word f)"
    "take (unat (wire_dlc f)) (drop 5 (wire_bytes f)) = wire_data f"
    using length_wire_data [OF assms] by (simp_all add: wire_bytes_def nth_append)
  moreover have "from_le_bytes (to_le_bytes 4 (id_word f)) = id_word f" by (simp add: from_le_to_le)
  ultimately show ?thesis
    using assms length_wire_bytes [OF assms] length_wire_data [OF assms]
    by (cases f) (simp add: wire_decode_def WIRE_HEADER_SIZE_def wf_wire_def Let_def not_less)
qed

lemma wire_decode_Inr:
  assumes "wire_decode buf = Inr f"
  shows "wf_wire f" "wire_bytes f = buf"
proof -
  let ?d = "take (unat (buf ! 4)) (drop 5 buf)"
  have l: "length buf = 5 + unat (buf ! 4)" and d: "buf ! 4 \<le> 8"
    and f: "f = \<lparr>id_word = from_le_bytes (take 4 buf), wire_dlc = buf ! 4,
      wire_payload = overwrite (replicate 8 0) 0 ?d\<rparr>"
    using assms by (auto simp: wire_decode_def WIRE_HEADER_SIZE_def Let_def not_less split: if_splits)
  have n: "unat (buf ! 4) \<le> 8" "length ?d = unat (buf ! 4)" using d l by (auto simp: word_le_nat_alt)
  have w: "wire_data f = ?d" using n by (simp add: f wire_data_def overwrite_def)
  show "wf_wire f" unfolding wf_wire_def w using d n by (simp add: f)
  have "to_le_bytes 4 (from_le_bytes (take 4 buf) :: u32) = take 4 buf"
    using to_le_from_le [of "take 4 buf", where 'a = 32] l by simp
  moreover have "take 4 buf @ [buf ! 4] = take 5 buf" using l take_Suc_conv_app_nth [of 4 buf] by simp
  ultimately have "wire_bytes f = take 5 buf @ ?d" unfolding wire_bytes_def w by (simp add: f)
  also have "\<dots> = buf" using l by simp
  finally show "wire_bytes f = buf" .
qed

text \<open>
  The WebSocket frame format is exact in both directions. A message decodes to a frame if
  and only if it is the valid prefix of that frame's encoding (so no two messages decode to the
  same frame and every encoded frame is read back), and encoding never panics; every other
  message is refused with the error that describes it.
\<close>

theorem wire_codec_exact:
  "(wf_wire f \<longrightarrow> (\<exists>buf n. wire_encode f = Some (buf, n) \<and> n \<le> length buf
      \<and> (\<forall>m. wire_decode m = Inr f \<longleftrightarrow> m = take n buf)))
   \<and> (wire_decode m = Inr f \<longrightarrow> wf_wire f)
   \<and> (wire_decode m = Inl e \<longrightarrow>
        (case e of
           TooShort k \<Rightarrow> k = length m \<and> k < 5
         | BadDlc d \<Rightarrow> 5 \<le> length m \<and> d = m ! 4 \<and> 8 < d
         | LengthMismatch x k \<Rightarrow> k = length m \<and> 5 \<le> k \<and> m ! 4 \<le> 8 \<and> x = 5 + unat (m ! 4) \<and> x \<noteq> k))"
proof (intro conjI impI)
  assume wf: "wf_wire f"
  obtain buf where e: "wire_encode f = Some (buf, 5 + unat (wire_dlc f))" "length buf = 13"
    "take (5 + unat (wire_dlc f)) buf = wire_bytes f"
    using wire_encode_bytes [OF wf] by blast
  have d: "wire_decode m = Inr f \<longleftrightarrow> m = wire_bytes f" for m
    using wire_decode_bytes [OF wf] wire_decode_Inr(2) [of m f] by blast
  have "5 + unat (wire_dlc f) \<le> 13" using wf by (simp add: wf_wire_def word_le_nat_alt)
  then show "\<exists>buf n. wire_encode f = Some (buf, n) \<and> n \<le> length buf
      \<and> (\<forall>m. wire_decode m = Inr f \<longleftrightarrow> m = take n buf)"
    by (intro exI [of _ buf] exI [of _ "5 + unat (wire_dlc f)"]) (simp add: e d)
next
  assume "wire_decode m = Inr f"
  then show "wf_wire f" by (rule wire_decode_Inr(1))
next
  assume "wire_decode m = Inl e"
  then consider "length m < 5" "e = TooShort (length m)"
    | "5 \<le> length m" "8 < m ! 4" "e = BadDlc (m ! 4)"
    | "5 \<le> length m" "m ! 4 \<le> 8" "length m \<noteq> 5 + unat (m ! 4)" "e = LengthMismatch (5 + unat (m ! 4)) (length m)"
    unfolding wire_decode_def WIRE_HEADER_SIZE_def Let_def
    by (metis Inl_inject Inr_Inl_False not_less)
  then show "case e of
           TooShort k \<Rightarrow> k = length m \<and> k < 5
         | BadDlc d \<Rightarrow> 5 \<le> length m \<and> d = m ! 4 \<and> 8 < d
         | LengthMismatch x k \<Rightarrow> k = length m \<and> 5 \<le> k \<and> m ! 4 \<le> 8 \<and> x = 5 + unat (m ! 4) \<and> x \<noteq> k"
    by cases simp_all
qed

theorem wire_codec_exact_witness:
  "wf_wire \<lparr>id_word = 0x181, wire_dlc = 2, wire_payload = [1, 2, 0, 0, 0, 0, 0, 0]\<rparr>
   \<and> (\<exists>buf n. wire_encode \<lparr>id_word = 0x181, wire_dlc = 2, wire_payload = [1, 2, 0, 0, 0, 0, 0, 0]\<rparr> = Some (buf, n)
      \<and> n \<le> length buf
      \<and> (\<forall>m. wire_decode m = Inr \<lparr>id_word = 0x181, wire_dlc = 2, wire_payload = [1, 2, 0, 0, 0, 0, 0, 0]\<rparr>
          \<longleftrightarrow> m = take n buf))"
proof -
  have "wf_wire \<lparr>id_word = 0x181, wire_dlc = 2, wire_payload = [1, 2, 0, 0, 0, 0, 0, 0]\<rparr>" by code_simp
  with wire_codec_exact [of "\<lparr>id_word = 0x181, wire_dlc = 2, wire_payload = [1, 2, 0, 0, 0, 0, 0, 0]\<rparr>"]
  show ?thesis by blast
qed

section \<open>Properties of the filters\<close>

text \<open>Filters as a client writes them into the query parameter: hexadecimal or decimal numbers.\<close>

definition show_u32 :: "bool \<Rightarrow> u32 \<Rightarrow> string" where
  "show_u32 hex w = (if hex then ''0x'' @ show_radix 16 (uint w) else show_radix 10 (uint w))"

definition show_filter :: "bool \<Rightarrow> can_filter \<Rightarrow> string" where
  "show_filter hex f = show_u32 hex (flt_id f) @ '':'' @ show_u32 hex (flt_mask f)"

fun join_with :: "string \<Rightarrow> string list \<Rightarrow> string" where
  "join_with sep [] = []"
| "join_with sep [x] = x"
| "join_with sep (x # y # ys) = x @ sep @ join_with sep (y # ys)"

lemma show_u32_chars: "c \<in> set (show_u32 hex w) \<Longrightarrow> c \<noteq> CHR '':'' \<and> c \<noteq> CHR '','' "
  using show_radix_digits [of 16 "uint w" c] show_radix_digits [of 10 "uint w" c]
    digit_not_special(6,7) [of 16 c] digit_not_special(6,7) [of 10 c]
  by (auto simp: show_u32_def split: if_splits)

lemma show_filter_nonempty: "show_filter hex f \<noteq> []"
  by (simp add: show_filter_def)

lemma show_filter_no_comma: "CHR '','' \<notin> set (show_filter hex f)"
  using show_u32_chars by (auto simp: show_filter_def)

lemma split_once_first:
  "CHR '':'' \<notin> set a \<Longrightarrow> split_once '':'' (a @ '':'' @ b) = Some (a, b)"
  by (induction a) (auto simp: starts_with_def)

lemma parse_show_u32: "parse_hex_or_dec 32 (show_u32 hex w) = Some (uint w)"
  using parse_hex_or_dec_dec [of "uint w" 32] parse_hex_or_dec_hex [of "uint w" 32] unsigned_less [of w]
  by (auto simp: show_u32_def)

lemma parse_show_filter: "parse_filter_entry (show_filter hex f) = Inr f"
proof -
  have "split_once '':'' (show_filter hex f) = Some (show_u32 hex (flt_id f), show_u32 hex (flt_mask f))"
    unfolding show_filter_def using show_u32_chars by (intro split_once_first) auto
  then show ?thesis by (simp add: parse_filter_entry_def parse_show_u32)
qed

lemma split_join:
  "\<forall>x\<in>set xs. c \<notin> set x \<Longrightarrow> xs \<noteq> [] \<Longrightarrow> split_char c (join_with [c] xs) = xs"
  by (induction "[c]" xs rule: join_with.induct) (auto simp: split_char_no_sep split_char_append)

lemma collect_results_Inr: "collect_results (map Inr xs) = Inr xs"
  by (induction xs) auto

lemma collect_results_first:
  "collect_results rs = Inl e \<longleftrightarrow> (\<exists>xs rest. rs = map Inr xs @ Inl e # rest)"
proof (induction rs rule: collect_results.induct)
  case (3 x rs)
  show ?case
  proof
    assume "collect_results (Inr x # rs) = Inl e"
    then have "collect_results rs = Inl e" by (auto split: sum.splits)
    with 3 obtain xs rest where "rs = map Inr xs @ Inl e # rest" by auto
    then show "\<exists>xs rest. Inr x # rs = map Inr xs @ Inl e # rest" by (intro exI [of _ "x # xs"]) auto
  next
    assume "\<exists>xs rest. Inr x # rs = map Inr xs @ Inl e # rest"
    then obtain xs rest where "Inr x # rs = map Inr xs @ Inl e # rest" by blast
    then have "collect_results rs = Inl e" using 3 by (cases xs) auto
    then show "collect_results (Inr x # rs) = Inl e" by simp
  qed
qed (auto simp: append_eq_Cons_conv Cons_eq_append_conv)

text \<open>
  C39. The filter parameter round-trips: a list of filters written as \<open>id:mask\<close> pairs, decimal or
  hexadecimal, separated by commas, is parsed back to exactly these filters; and parsing fails
  exactly when some entry is bad, with the message of the first bad one.
\<close>

theorem filter_param_roundtrip:
  "parse_filter_param (join_with '','' (map (\<lambda>(hex, f). show_filter hex f) hfs)) = Inr (map snd hfs)
   \<and> (parse_filter_param s = Inl msg \<longleftrightarrow>
        (\<exists>ok e rest. parse_filters s = map Inr ok @ Inl e # rest \<and> msg = filter_error_display e))"
proof
  let ?ss = "map (\<lambda>(hex, f). show_filter hex f) hfs"
  show "parse_filter_param (join_with '','' ?ss) = Inr (map snd hfs)"
  proof (cases "hfs = []")
    case True
    then show ?thesis by (simp add: parse_filter_param_def parse_filters_def)
  next
    case False
    then have "split_char (CHR '','') (join_with '','' ?ss) = ?ss"
      using show_filter_no_comma by (intro split_join) auto
    moreover have "filter (\<lambda>e. e \<noteq> []) ?ss = ?ss" using show_filter_nonempty by (auto simp: filter_id_conv)
    moreover have "map parse_filter_entry ?ss = map Inr (map snd hfs)" by (auto simp: parse_show_filter)
    ultimately show ?thesis by (simp add: parse_filter_param_def parse_filters_def collect_results_Inr del: map_map)
  qed
  show "parse_filter_param s = Inl msg \<longleftrightarrow>
        (\<exists>ok e rest. parse_filters s = map Inr ok @ Inl e # rest \<and> msg = filter_error_display e)"
  proof -
    have "parse_filter_param s = Inl msg \<longleftrightarrow>
        (\<exists>e. collect_results (parse_filters s) = Inl e \<and> msg = filter_error_display e)"
      by (auto simp: parse_filter_param_def split: sum.splits)
    then show ?thesis unfolding collect_results_first by blast
  qed
qed

end
