(* ===== verification/Canwsd_Bridge.thy ===== *)
theory Canwsd_Bridge
  imports Canwsd
begin

unbundle bit_operations_syntax

text \<open>
  The CAN side of the WebSocket daemon (\<open>tools/canwsd/src\<close>): the buffer between bus and client of
  \<open>drop_buffer.rs\<close>, the frame conversions of \<open>socketcan_wire.rs\<close>, and of \<open>bridge.rs\<close> the filter
  setup and the loop that serves one client. The CAN socket, its frame type and the WebSocket sink are
  parameters. The loop is a step function on the branches of its \<open>select!\<close>; a step that breaks the loop
  returns the flag \<open>False\<close>. The JSON of commands and status messages is generated code: a text message is
  given by the command it parses to, a status message by its value. Logging is not modelled.
\<close>

section \<open>The drop buffer\<close>

datatype 'a buffer_event = BufItem 'a | BufOverflow u64 | BufClosed string

record 'a drop_buffer =
  db_capacity :: nat
  db_items :: "'a list"
  db_dropped :: u64
  db_closed :: "string option"

definition saturating_add_u64 :: "u64 \<Rightarrow> u64 \<Rightarrow> u64" where
  "saturating_add_u64 a b = (if unat a + unat b < 2 ^ 64 then a + b else - 1)"

text \<open>\<open>new\<close>: the assertion on the capacity is \<^term>\<open>None\<close>.\<close>

definition drop_buffer_new :: "nat \<Rightarrow> 'a drop_buffer option" where
  "drop_buffer_new capacity = (if capacity > 0
     then Some \<lparr>db_capacity = capacity, db_items = [], db_dropped = 0, db_closed = None\<rparr> else None)"

definition db_push :: "'a \<Rightarrow> 'a drop_buffer \<Rightarrow> 'a drop_buffer" where
  "db_push item b =
     (let b = (if length (db_items b) \<ge> db_capacity b
               then b\<lparr>db_dropped := saturating_add_u64 (db_dropped b) (of_nat (length (db_items b))), db_items := []\<rparr>
               else b)
      in b\<lparr>db_items := db_items b @ [item]\<rparr>)"

definition db_close :: "string \<Rightarrow> 'a drop_buffer \<Rightarrow> 'a drop_buffer" where
  "db_close error b = b\<lparr>db_closed := Some error\<rparr>"

text \<open>One check of the queue by \<open>next\<close>; \<^term>\<open>None\<close> waits for the next notification.\<close>

definition db_next :: "'a drop_buffer \<Rightarrow> 'a buffer_event option \<times> 'a drop_buffer" where
  "db_next b =
     (if db_dropped b > 0 then (Some (BufOverflow (db_dropped b)), b\<lparr>db_dropped := 0\<rparr>)
      else case db_items b of
        item # items \<Rightarrow> (Some (BufItem item), b\<lparr>db_items := items\<rparr>)
      | [] \<Rightarrow> (case db_closed b of
          Some error \<Rightarrow> (Some (BufClosed error), b\<lparr>db_closed := None\<rparr>)
        | None \<Rightarrow> (None, b)))"

section \<open>Frames of the socket\<close>

datatype sock_id = StandardId u16 | ExtendedId u32

definition standard_id_new :: "u16 \<Rightarrow> sock_id option" where
  "standard_id_new w = (if w \<le> 0x7FF then Some (StandardId w) else None)"

definition extended_id_new :: "u32 \<Rightarrow> sock_id option" where
  "extended_id_new w = (if w \<le> 0x1FFFFFFF then Some (ExtendedId w) else None)"

record 'f sock_frames =
  sf_data :: "sock_id \<Rightarrow> bytes \<Rightarrow> 'f option"
  sf_remote :: "sock_id \<Rightarrow> nat \<Rightarrow> 'f option"
  sf_id_word :: "'f \<Rightarrow> u32"
  sf_payload :: "'f \<Rightarrow> bytes"

definition wire_from_can_frame :: "'f sock_frames \<Rightarrow> 'f \<Rightarrow> wire_frame option" where
  "wire_from_can_frame sf frame = wire_new (sf_id_word sf frame) (sf_payload sf frame)"

definition can_frame_from_wire :: "'f sock_frames \<Rightarrow> wire_frame \<Rightarrow> 'f option" where
  "can_frame_from_wire sf frame =
     (if is_error frame then None
      else case (if is_extended frame then extended_id_new (wire_id frame) else standard_id_new (ucast (wire_id frame))) of
        None \<Rightarrow> None
      | Some i \<Rightarrow> if is_rtr frame then sf_remote sf i (unat (wire_dlc frame)) else sf_data sf i (wire_data frame))"

section \<open>Filters\<close>

datatype write_outcome = WriteOk | WriteError | WriteBlocked

datatype ws_out = OutBinary bytes | OutOverflow u64 | OutBusError string | OutClose u16 string | OutPing

record ('f, 'w) bridge_ops =
  br_accept_all :: "'w \<Rightarrow> bool \<times> 'w"
  br_drop_all :: "'w \<Rightarrow> bool \<times> 'w"
  br_set_filters :: "(u32 \<times> u32) list \<Rightarrow> 'w \<Rightarrow> bool \<times> 'w"
  br_accept_errors :: "'w \<Rightarrow> bool \<times> 'w"
  br_write :: "'f \<Rightarrow> 'w \<Rightarrow> write_outcome \<times> 'w"
  br_send :: "ws_out \<Rightarrow> 'w \<Rightarrow> bool \<times> 'w"

abbreviation FRAME_BUFFER :: nat where "FRAME_BUFFER \<equiv> 16384"
abbreviation MAX_KERNEL_FILTERS :: nat where "MAX_KERNEL_FILTERS \<equiv> 512"
abbreviation CLIENT_TIMEOUT_US :: nat where "CLIENT_TIMEOUT_US \<equiv> 30000000"

definition apply_filter :: "('f, 'w) bridge_ops \<Rightarrow> can_filter list option \<Rightarrow> 'w \<Rightarrow> bool \<times> 'w" where
  "apply_filter ops flt w = (case flt of
     None \<Rightarrow> (False, snd (br_accept_all ops w))
   | Some [] \<Rightarrow> (case br_drop_all ops w of (ok, w) \<Rightarrow> (\<not> ok, w))
   | Some filters \<Rightarrow>
       if length filters > MAX_KERNEL_FILTERS then (True, snd (br_accept_all ops w))
       else (case br_set_filters ops (map (\<lambda>f. (flt_id f, flt_mask f)) filters) w of
         (True, w) \<Rightarrow> (False, w)
       | (False, w) \<Rightarrow> (True, snd (br_accept_all ops w))))"

text \<open>Opening the socket is the caller's: a socket that opened is configured.\<close>

definition open_client_socket :: "('f, 'w) bridge_ops \<Rightarrow> can_filter list option \<Rightarrow> bool \<Rightarrow> 'w \<Rightarrow> bool \<times> 'w" where
  "open_client_socket ops flt want_errors w =
     (case apply_filter ops flt w of (userspace_filter, w) \<Rightarrow>
        (userspace_filter, if want_errors then snd (br_accept_errors ops w) else w))"

section \<open>Serving a client\<close>

record 'w bridge_client =
  bc_buffer :: "wire_frame drop_buffer"
  bc_filter :: "can_filter list option"
  bc_userspace :: bool
  bc_last_rx :: nat
  bc_world :: 'w

text \<open>The reader task: frames of the socket go into the buffer, an error closes it.\<close>

definition reader_frame :: "'f sock_frames \<Rightarrow> 'f \<Rightarrow> 'w bridge_client \<Rightarrow> 'w bridge_client" where
  "reader_frame sf f c = (case wire_from_can_frame sf f of
     None \<Rightarrow> c
   | Some frame \<Rightarrow> c\<lparr>bc_buffer := db_push frame (bc_buffer c)\<rparr>)"

definition reader_error :: "string \<Rightarrow> 'w bridge_client \<Rightarrow> 'w bridge_client" where
  "reader_error error c = c\<lparr>bc_buffer := db_close error (bc_buffer c)\<rparr>"

definition frame_passes :: "can_filter list option \<Rightarrow> bool \<Rightarrow> wire_frame \<Rightarrow> bool" where
  "frame_passes flt userspace frame \<longleftrightarrow>
     is_error frame \<or> \<not> userspace \<or> (case flt of None \<Rightarrow> True | Some filters \<Rightarrow> list_ex (\<lambda>f. filter_matches f (id_word frame)) filters)"

definition send_ws :: "('f, 'w) bridge_ops \<Rightarrow> ws_out \<Rightarrow> 'w bridge_client \<Rightarrow> bool \<times> 'w bridge_client" where
  "send_ws ops m c = (case br_send ops m (bc_world c) of (ok, w) \<Rightarrow> (ok, c\<lparr>bc_world := w\<rparr>))"

text \<open>The branch for buffer events; encoding panics are \<^term>\<open>None\<close>.\<close>

definition client_buffer_event :: "('f, 'w) bridge_ops \<Rightarrow> wire_frame buffer_event \<Rightarrow> 'w bridge_client \<Rightarrow> (bool \<times> 'w bridge_client) option" where
  "client_buffer_event ops e c = (case e of
     BufItem frame \<Rightarrow>
       if frame_passes (bc_filter c) (bc_userspace c) frame then do {
         (buf, len) \<leftarrow> wire_encode frame;
         Some (send_ws ops (OutBinary (take len buf)) c)
       } else Some (True, c)
   | BufOverflow dropped \<Rightarrow> Some (send_ws ops (OutOverflow dropped) c)
   | BufClosed error \<Rightarrow>
       (case send_ws ops (OutBusError error) c of
          (True, c) \<Rightarrow> Some (False, snd (send_ws ops (OutClose 4000 error) c))
        | (False, c) \<Rightarrow> Some (False, c)))"

datatype ws_in = InBinary bytes | InText "client_command option" | InClose | InOther

definition client_message :: "'f sock_frames \<Rightarrow> ('f, 'w) bridge_ops \<Rightarrow> ws_in \<Rightarrow> 'w bridge_client \<Rightarrow> bool \<times> 'w bridge_client" where
  "client_message sf ops m c = (case m of
     InBinary data \<Rightarrow> (case wire_decode data of
         Inl _ \<Rightarrow> (True, c)
       | Inr frame \<Rightarrow> (case can_frame_from_wire sf frame of
           None \<Rightarrow> (True, c)
         | Some out \<Rightarrow> (case br_write ops out (bc_world c) of
             (outcome, w) \<Rightarrow> (outcome \<noteq> WriteBlocked, c\<lparr>bc_world := w\<rparr>))))
   | InText None \<Rightarrow> (True, c)
   | InText (Some cmd) \<Rightarrow>
       (let flt = (case cmd of SetFilter entries \<Rightarrow> Some (map filter_of_entry entries) | ClearFilter \<Rightarrow> None);
            (userspace, w) = apply_filter ops flt (bc_world c)
        in (True, c\<lparr>bc_filter := flt, bc_userspace := userspace, bc_world := w\<rparr>))
   | InClose \<Rightarrow> (False, c)
   | InOther \<Rightarrow> (True, c))"

datatype 'f client_event =
    ReadFrame 'f | SocketFailed string | BufferReady | Message "ws_in option" nat | PingTick nat

text \<open>One branch of the loop, or of the reader task beside it. A branch on an empty buffer is not taken.\<close>

definition client_step :: "'f sock_frames \<Rightarrow> ('f, 'w) bridge_ops \<Rightarrow> 'f client_event \<Rightarrow> 'w bridge_client \<Rightarrow> (bool \<times> 'w bridge_client) option" where
  "client_step sf ops e c = (case e of
     ReadFrame f \<Rightarrow> Some (True, reader_frame sf f c)
   | SocketFailed error \<Rightarrow> Some (True, reader_error error c)
   | BufferReady \<Rightarrow>
       (case db_next (bc_buffer c) of
          (None, b) \<Rightarrow> Some (True, c)
        | (Some ev, b) \<Rightarrow> client_buffer_event ops ev (c\<lparr>bc_buffer := b\<rparr>))
   | Message None now \<Rightarrow> Some (False, c)
   | Message (Some m) now \<Rightarrow> Some (client_message sf ops m (c\<lparr>bc_last_rx := now\<rparr>))
   | PingTick now \<Rightarrow>
       if now - bc_last_rx c > CLIENT_TIMEOUT_US then Some (False, c)
       else Some (send_ws ops OutPing c))"

fun client_run :: "'f sock_frames \<Rightarrow> ('f, 'w) bridge_ops \<Rightarrow> 'f client_event list \<Rightarrow> 'w bridge_client \<Rightarrow> (bool \<times> 'w bridge_client) option" where
  "client_run sf ops [] c = Some (True, c)"
| "client_run sf ops (e # es) c = (case client_step sf ops e c of
     None \<Rightarrow> None
   | Some (False, c) \<Rightarrow> Some (False, c)
   | Some (True, c) \<Rightarrow> client_run sf ops es c)"

definition client_start :: "bool \<Rightarrow> can_filter list option \<Rightarrow> nat \<Rightarrow> 'w \<Rightarrow> 'w bridge_client option" where
  "client_start userspace flt now w = do {
     buffer \<leftarrow> drop_buffer_new FRAME_BUFFER;
     Some \<lparr>bc_buffer = buffer, bc_filter = flt, bc_userspace = userspace, bc_last_rx = now, bc_world = w\<rparr>
   }"

section \<open>The buffer accounts for every frame\<close>

text \<open>
  What the events of the buffer say of the stream pushed into it: an item is the next element of the stream, an
  overflow skips the elements it counts. The result is the part of the stream not spoken of yet.
\<close>

fun replay :: "'a buffer_event list \<Rightarrow> 'a list \<Rightarrow> 'a list option" where
  "replay [] xs = Some xs"
| "replay (BufItem x # evs) xs = (case xs of [] \<Rightarrow> None | y # ys \<Rightarrow> if x = y then replay evs ys else None)"
| "replay (BufOverflow n # evs) xs = (if unat n \<le> length xs then replay evs (drop (unat n) xs) else None)"
| "replay (BufClosed _ # evs) xs = replay evs xs"

definition buffer_accounts :: "'a buffer_event list \<Rightarrow> 'a drop_buffer \<Rightarrow> 'a list \<Rightarrow> bool" where
  "buffer_accounts evs b xs \<longleftrightarrow> 0 < db_capacity b \<and> length (db_items b) \<le> db_capacity b
     \<and> (\<exists>rest. replay evs xs = Some rest \<and> unat (db_dropped b) + length (db_items b) = length rest
          \<and> drop (unat (db_dropped b)) rest = db_items b)"

lemma replay_append: "replay (evs @ evs') xs = Option.bind (replay evs xs) (replay evs')"
  by (induction evs xs rule: replay.induct) (auto split: list.split)

lemma replay_snoc: "replay evs xs = Some rest \<Longrightarrow> replay evs (xs @ [x]) = Some (rest @ [x])"
  by (induction evs xs rule: replay.induct) (auto split: list.splits if_splits)

lemma replay_length: "replay evs xs = Some rest \<Longrightarrow> length rest \<le> length xs"
  by (induction evs xs rule: replay.induct) (auto split: list.splits if_splits)

lemma accounts_push:
  assumes "buffer_accounts evs b xs" and "length xs < 2 ^ 64"
  shows "buffer_accounts evs (db_push x b) (xs @ [x])"
proof -
  obtain rest where r: "replay evs xs = Some rest" "unat (db_dropped b) + length (db_items b) = length rest"
    "drop (unat (db_dropped b)) rest = db_items b" and c: "0 < db_capacity b" "length (db_items b) \<le> db_capacity b"
    using assms(1) by (auto simp: buffer_accounts_def)
  have n: "length rest < 2 ^ 64" using replay_length [OF r(1)] assms(2) by simp
  then have s: "unat (saturating_add_u64 (db_dropped b) (of_nat (length (db_items b)))) = length rest"
    using r(2) by (simp add: saturating_add_u64_def unat_of_nat unat_word_ariths)
  show ?thesis using c r replay_snoc [OF r(1), of x] s by (auto simp: buffer_accounts_def db_push_def Let_def)
qed

lemma accounts_next:
  assumes "buffer_accounts evs b xs" and "db_next b = (ev, b')"
  shows "buffer_accounts (evs @ (case ev of None \<Rightarrow> [] | Some e \<Rightarrow> [e])) b' xs"
proof -
  obtain rest where r: "replay evs xs = Some rest" "unat (db_dropped b) + length (db_items b) = length rest"
    "drop (unat (db_dropped b)) rest = db_items b" and c: "0 < db_capacity b" "length (db_items b) \<le> db_capacity b"
    using assms(1) by (auto simp: buffer_accounts_def)
  show ?thesis
  proof (cases "db_dropped b > 0")
    case True
    then show ?thesis using r c assms(2) by (auto simp: buffer_accounts_def db_next_def replay_append)
  next
    case False
    then have z: "db_dropped b = 0" by (simp add: word_gt_0)
    then have "rest = db_items b" using r(3) by simp
    then show ?thesis using r c z assms(2)
      by (cases "db_items b"; cases "db_closed b") (auto simp: buffer_accounts_def db_next_def replay_append)
  qed
qed

section \<open>What a client is sent\<close>

definition bridge_laws :: "('f, 'w) bridge_ops \<Rightarrow> ('w \<Rightarrow> ws_out list) \<Rightarrow> bool" where
  "bridge_laws ops sent \<longleftrightarrow>
     (\<forall>m w w'. br_send ops m w = (True, w') \<longrightarrow> sent w' = sent w @ [m])
     \<and> (\<forall>w. sent (snd (br_accept_all ops w)) = sent w) \<and> (\<forall>w. sent (snd (br_drop_all ops w)) = sent w)
     \<and> (\<forall>ps w. sent (snd (br_set_filters ops ps w)) = sent w) \<and> (\<forall>f w. sent (snd (br_write ops f w)) = sent w)"

text \<open>The frames the reader takes from the socket, and the buffer events the loop serves with the filter in force.\<close>

fun frames_read :: "'f sock_frames \<Rightarrow> 'f client_event list \<Rightarrow> wire_frame list" where
  "frames_read sf [] = []"
| "frames_read sf (ReadFrame f # es) = (case wire_from_can_frame sf f of None \<Rightarrow> [] | Some frame \<Rightarrow> [frame]) @ frames_read sf es"
| "frames_read sf (_ # es) = frames_read sf es"

definition served_event :: "'f client_event \<Rightarrow> 'w bridge_client \<Rightarrow> ((can_filter list option \<times> bool) \<times> wire_frame buffer_event) list" where
  "served_event e c = (case e of
     BufferReady \<Rightarrow> (case fst (db_next (bc_buffer c)) of None \<Rightarrow> [] | Some ev \<Rightarrow> [((bc_filter c, bc_userspace c), ev)])
   | _ \<Rightarrow> [])"

fun served :: "'f sock_frames \<Rightarrow> ('f, 'w) bridge_ops \<Rightarrow> 'f client_event list \<Rightarrow> 'w bridge_client
    \<Rightarrow> ((can_filter list option \<times> bool) \<times> wire_frame buffer_event) list" where
  "served sf ops [] c = []"
| "served sf ops (e # es) c = served_event e c @
     (case client_step sf ops e c of Some (True, c') \<Rightarrow> served sf ops es c' | _ \<Rightarrow> [])"

fun render_event :: "(can_filter list option \<times> bool) \<times> wire_frame buffer_event \<Rightarrow> ws_out list" where
  "render_event ((flt, us), BufItem frame) = (if frame_passes flt us frame then [OutBinary (wire_bytes frame)] else [])"
| "render_event (_, BufOverflow n) = [OutOverflow n]"
| "render_event (_, BufClosed error) = [OutBusError error, OutClose 4000 error]"

abbreviation no_pings :: "ws_out list \<Rightarrow> ws_out list" where
  "no_pings \<equiv> filter (\<lambda>m. m \<noteq> OutPing)"

definition client_ok :: "'w bridge_client \<Rightarrow> bool" where
  "client_ok c \<longleftrightarrow> list_all wf_wire (db_items (bc_buffer c))"

lemma encode_wf: "wf_wire frame \<Longrightarrow> \<exists>buf len. wire_encode frame = Some (buf, len) \<and> take len buf = wire_bytes frame"
  using wire_encode_bytes [of frame] by auto

lemma apply_filter_sent:
  assumes "bridge_laws ops sent" and "apply_filter ops flt w = (us, w')"
  shows "sent w' = sent w"
proof -
  note l = assms(1) [unfolded bridge_laws_def]
  have d: "sent w1 = sent w" if "br_drop_all ops w = (ok, w1)" for ok w1 using l that by (metis snd_conv)
  have f: "sent w1 = sent w" if "br_set_filters ops ps w = (ok, w1)" for ps ok w1 using l that by (metis snd_conv)
  have a: "sent (snd (br_accept_all ops w1)) = sent w1" for w1 using l by blast
  show ?thesis
    using assms(2) d f a by (auto simp: apply_filter_def split: option.splits list.splits if_splits prod.splits bool.splits)
qed

lemma send_ws_sent:
  assumes "bridge_laws ops sent" and "send_ws ops m c = (True, c')"
  shows "sent (bc_world c') = sent (bc_world c) @ [m]" and "bc_buffer c' = bc_buffer c"
proof -
  obtain w where w: "br_send ops m (bc_world c) = (True, w)" "c' = c\<lparr>bc_world := w\<rparr>"
    using assms(2) by (auto simp: send_ws_def split: prod.splits)
  then show "sent (bc_world c') = sent (bc_world c) @ [m]" using assms(1) unfolding bridge_laws_def by simp
  show "bc_buffer c' = bc_buffer c" using w by simp
qed

lemma send_ws_buffer: "bc_buffer (snd (send_ws ops m c)) = bc_buffer c"
  by (simp add: send_ws_def split: prod.splits)

lemma buffer_event_sent:
  assumes "bridge_laws ops sent" and "\<And>frame. ev = BufItem frame \<Longrightarrow> wf_wire frame"
  shows "\<exists>go c'. client_buffer_event ops ev c = Some (go, c') \<and> bc_buffer c' = bc_buffer c
    \<and> (go \<longrightarrow> no_pings (sent (bc_world c')) = no_pings (sent (bc_world c)) @ render_event ((bc_filter c, bc_userspace c), ev))"
proof (cases ev)
  case (BufItem frame)
  obtain buf len where e: "wire_encode frame = Some (buf, len)" "take len buf = wire_bytes frame"
    using encode_wf [OF assms(2) [OF BufItem]] by blast
  obtain ok c' where s: "send_ws ops (OutBinary (wire_bytes frame)) c = (ok, c')" by fastforce
  show ?thesis
  proof (cases "frame_passes (bc_filter c) (bc_userspace c) frame")
    case True
    then have "client_buffer_event ops ev c = Some (ok, c')" using BufItem e s by (simp add: client_buffer_event_def)
    then show ?thesis using True BufItem s send_ws_sent [OF assms(1), of "OutBinary (wire_bytes frame)" c c'] send_ws_buffer [of ops "OutBinary (wire_bytes frame)" c]
      by (cases ok) auto
  qed (auto simp: BufItem client_buffer_event_def)
next
  case (BufOverflow n)
  obtain ok c' where s: "send_ws ops (OutOverflow n) c = (ok, c')" by fastforce
  then show ?thesis using BufOverflow send_ws_sent [OF assms(1), of "OutOverflow n" c c'] send_ws_buffer [of ops "OutOverflow n" c]
    by (cases ok) (auto simp: client_buffer_event_def)
next
  case (BufClosed error)
  obtain ok c1 where s: "send_ws ops (OutBusError error) c = (ok, c1)" by fastforce
  then show ?thesis using BufClosed send_ws_buffer [of ops "OutBusError error" c] send_ws_buffer [of ops "OutClose 4000 error" c1]
    by (cases ok) (auto simp: client_buffer_event_def)
qed

lemma message_sent:
  assumes "bridge_laws ops sent"
  shows "bc_buffer (snd (client_message sf ops m c)) = bc_buffer c \<and> sent (bc_world (snd (client_message sf ops m c))) = sent (bc_world c)"
proof -
  have w: "sent w' = sent w" if "br_write ops f w = (r, w')" for f w r w' using assms that unfolding bridge_laws_def by (metis snd_conv)
  show ?thesis
  proof (cases m)
    case (InBinary data)
    then show ?thesis using w by (auto simp: client_message_def split: sum.split option.split prod.split)
  next
    case (InText t)
    then show ?thesis
      using apply_filter_sent [OF assms] by (cases t) (auto simp: client_message_def Let_def split: prod.split)
  qed (simp_all add: client_message_def)
qed

text \<open>One step keeps the account between the frames read and the buffer events served, and what was sent.\<close>

lemma step_serves:
  assumes "bridge_laws ops sent" and "client_ok c" and "buffer_accounts evs (bc_buffer c) xs" and "length xs < 2 ^ 64"
  shows "\<exists>go c'. client_step sf ops e c = Some (go, c') \<and> client_ok c'
    \<and> buffer_accounts (evs @ map snd (served_event e c)) (bc_buffer c') (xs @ frames_read sf [e])
    \<and> (go \<longrightarrow> no_pings (sent (bc_world c')) = no_pings (sent (bc_world c)) @ concat (map render_event (served_event e c)))"
proof (cases e)
  case (ReadFrame f)
  show ?thesis
  proof (cases "wire_from_can_frame sf f")
    case None
    then show ?thesis using assms ReadFrame by (auto simp: client_step_def reader_frame_def served_event_def)
  next
    case (Some frame)
    then have "wf_wire frame" using wire_new_wf by (auto simp: wire_from_can_frame_def)
    then have "list_all wf_wire (db_items (db_push frame (bc_buffer c)))" using assms(2) by (auto simp: client_ok_def db_push_def Let_def)
    then show ?thesis using ReadFrame Some accounts_push [OF assms(3,4), of frame]
      by (auto simp: client_step_def reader_frame_def served_event_def client_ok_def)
  qed
next
  case (SocketFailed error)
  then show ?thesis using assms(2,3) by (auto simp: client_step_def reader_error_def served_event_def client_ok_def db_close_def buffer_accounts_def)
next
  case BufferReady
  obtain ev b where n: "db_next (bc_buffer c) = (ev, b)" by fastforce
  have ok: "list_all wf_wire (db_items b)"
    and wf: "\<And>frame. ev = Some (BufItem frame) \<Longrightarrow> wf_wire frame"
    using n assms(2) by (auto simp: db_next_def client_ok_def split: if_splits list.splits option.splits)
  note a = accounts_next [OF assms(3) n]
  show ?thesis
  proof (cases ev)
    case None
    then have "b = bc_buffer c" using n by (auto simp: db_next_def split: if_splits list.splits option.splits)
    then show ?thesis using None BufferReady n a assms(2) by (auto simp: client_step_def served_event_def)
  next
    case (Some event)
    obtain go c' where s: "client_buffer_event ops event (c\<lparr>bc_buffer := b\<rparr>) = Some (go, c')" "bc_buffer c' = b"
      "go \<longrightarrow> no_pings (sent (bc_world c')) = no_pings (sent (bc_world c)) @ render_event ((bc_filter c, bc_userspace c), event)"
      using buffer_event_sent [OF assms(1), of event "c\<lparr>bc_buffer := b\<rparr>"] wf Some by auto
    then show ?thesis using Some BufferReady n a ok by (simp add: client_step_def served_event_def client_ok_def)
  qed
next
  case (Message m now)
  then show ?thesis using assms message_sent [OF assms(1), of sf "the m" "c\<lparr>bc_last_rx := now\<rparr>"]
    by (cases m; cases "client_message sf ops (the m) (c\<lparr>bc_last_rx := now\<rparr>)") (auto simp: client_step_def served_event_def client_ok_def)
next
  case (PingTick now)
  obtain ok c' where s: "send_ws ops OutPing c = (ok, c')" by fastforce
  then show ?thesis using assms PingTick send_ws_sent [OF assms(1), of OutPing c c'] send_ws_buffer [of ops OutPing c]
    by (cases ok) (auto simp: client_step_def served_event_def client_ok_def)
qed


lemma run_serves:
  assumes "bridge_laws ops sent"
  shows "client_ok c \<Longrightarrow> buffer_accounts evs (bc_buffer c) xs \<Longrightarrow> length xs + length es < 2 ^ 64
    \<Longrightarrow> \<exists>go c'. client_run sf ops es c = Some (go, c')
      \<and> (go \<longrightarrow> buffer_accounts (evs @ map snd (served sf ops es c)) (bc_buffer c') (xs @ frames_read sf es)
         \<and> no_pings (sent (bc_world c')) = no_pings (sent (bc_world c)) @ concat (map render_event (served sf ops es c)))"
proof (induction es arbitrary: c evs xs)
  case (Cons e es)
  have len: "length xs < 2 ^ 64" using Cons.prems(3) by simp
  obtain go c1 where s: "client_step sf ops e c = Some (go, c1)" "client_ok c1"
    "buffer_accounts (evs @ map snd (served_event e c)) (bc_buffer c1) (xs @ frames_read sf [e])"
    "go \<longrightarrow> no_pings (sent (bc_world c1)) = no_pings (sent (bc_world c)) @ concat (map render_event (served_event e c))"
    using step_serves [OF assms Cons.prems(1,2) len, of sf e] by blast
  have fr: "frames_read sf (e # es) = frames_read sf [e] @ frames_read sf es" by (cases e) (simp_all split: option.split)
  have "length (frames_read sf [e]) \<le> 1" by (cases e) (simp_all split: option.split)
  then have "length (xs @ frames_read sf [e]) + length es < 2 ^ 64" using Cons.prems(3) by simp
  from Cons.IH [OF s(2,3) this] show ?case using s(1,4) fr by (cases go) auto
qed (auto)

text \<open>
  C17. The bridge loses no frame silently: for every sequence of frames from the bus, messages, commands and timer ticks
  the loop runs without a panic, and as long as it runs, the buffer events it served replay the frames read
  from the socket from the first one on, each item the next frame and each overflow message the exact number
  of frames lost at that point; what is left is the number still to be reported and the frames still
  buffered. The client was sent, in order, the wire encoding of exactly the served frames that pass the
  filter in force, and every overflow message, and nothing else but pings.
\<close>

theorem bridge_accounts_for_frames:
  assumes "bridge_laws ops sent" and "length es < 2 ^ 64"
  shows "\<exists>c go c'. client_start userspace flt now w = Some c \<and> client_run sf ops es c = Some (go, c')
    \<and> (go \<longrightarrow> (\<exists>rest. replay (map snd (served sf ops es c)) (frames_read sf es) = Some rest
          \<and> unat (db_dropped (bc_buffer c')) + length (db_items (bc_buffer c')) = length rest
          \<and> drop (unat (db_dropped (bc_buffer c'))) rest = db_items (bc_buffer c'))
        \<and> no_pings (sent (bc_world c')) = no_pings (sent w) @ concat (map render_event (served sf ops es c)))"
proof -
  obtain c where c: "client_start userspace flt now w = Some c" "client_ok c" "buffer_accounts [] (bc_buffer c) []" "bc_world c = w"
    by (simp add: client_start_def drop_buffer_new_def client_ok_def buffer_accounts_def)
  from run_serves [OF assms(1) c(2,3), of es sf] assms(2) c(4)
  obtain go c' where "client_run sf ops es c = Some (go, c')"
    "go \<longrightarrow> buffer_accounts (map snd (served sf ops es c)) (bc_buffer c') (frames_read sf es)
       \<and> no_pings (sent (bc_world c')) = no_pings (sent w) @ concat (map render_event (served sf ops es c))" by auto
  then show ?thesis using c(1) by (auto simp: buffer_accounts_def)
qed

section \<open>Kernel filters\<close>

text \<open>
  What the socket's filters do to a frame that is not an error frame: accepting everything always succeeds, and
  a filter list that was accepted passes a frame when one of its entries matches (entries with the kernel's
  inversion flag, bit 29 of the identifier, are left open).
\<close>

definition kernel_laws :: "('f, 'w) bridge_ops \<Rightarrow> ('w \<Rightarrow> u32 \<Rightarrow> bool) \<Rightarrow> bool" where
  "kernel_laws ops kpass \<longleftrightarrow>
     (\<forall>w x. kpass (snd (br_accept_all ops w)) x)
     \<and> (\<forall>w w' x. br_drop_all ops w = (True, w') \<longrightarrow> \<not> kpass w' x)
     \<and> (\<forall>ps w w' x. br_set_filters ops ps w = (True, w') \<and> (\<forall>p\<in>set ps. fst p AND CAN_ERR_FLAG = 0)
          \<longrightarrow> kpass w' x = (\<exists>p\<in>set ps. x AND snd p = fst p AND snd p))"

text \<open>
  Filters are exact: after a client's filter was applied, a frame other than an error frame reaches the client through
  the kernel's filter and the check in the loop exactly when there is no filter or an entry of it matches,
  whether the kernel took the list, refused it, or the list is too long for it.
\<close>

theorem bridge_filter_exact:
  assumes "kernel_laws ops kpass" and "apply_filter ops flt w = (us, w')" and "\<not> is_error frame"
    and "\<forall>f\<in>set (case flt of None \<Rightarrow> [] | Some fs \<Rightarrow> fs). flt_id f AND CAN_ERR_FLAG = 0"
  shows "(kpass w' (id_word frame) \<and> frame_passes flt us frame)
    \<longleftrightarrow> (case flt of None \<Rightarrow> True | Some fs \<Rightarrow> list_ex (\<lambda>f. filter_matches f (id_word frame)) fs)"
proof -
  note l = assms(1) [unfolded kernel_laws_def]
  have a: "kpass (snd (br_accept_all ops w1)) x" for w1 x using l by blast
  show ?thesis
  proof (cases flt)
    case None
    then show ?thesis using assms(2,3) a by (auto simp: apply_filter_def frame_passes_def)
  next
    case (Some fs)
    show ?thesis
    proof (cases "fs = []")
      case True
      obtain ok w1 where d: "br_drop_all ops w = (ok, w1)" by fastforce
      then show ?thesis using Some True assms(2,3) l by (cases ok) (auto simp: apply_filter_def frame_passes_def)
    next
      case False
      define ps where "ps = map (\<lambda>f. (flt_id f, flt_mask f)) fs"
      obtain ok w1 where s: "br_set_filters ops ps w = (ok, w1)" by fastforce
      have ap: "apply_filter ops flt w = (if length fs > MAX_KERNEL_FILTERS then (True, snd (br_accept_all ops w))
          else if ok then (False, w1) else (True, snd (br_accept_all ops w1)))"
        using Some False s by (cases fs; cases ok) (simp_all add: apply_filter_def ps_def)
      have m: "(\<exists>p\<in>set ps. x AND snd p = fst p AND snd p) = list_ex (\<lambda>f. filter_matches f x) fs" for x
        by (auto simp: ps_def filter_matches_def list_ex_iff)
      have "\<forall>p\<in>set ps. fst p AND CAN_ERR_FLAG = 0" using assms(4) Some by (auto simp: ps_def)
      then have k: "kpass w1 x = (\<exists>p\<in>set ps. x AND snd p = fst p AND snd p)" if "br_set_filters ops ps w = (True, w1)" for x
        using l that by blast
      show ?thesis using ap assms(2,3) Some a k s m by (auto simp: frame_passes_def split: if_splits)
    qed
  qed
qed


section \<open>A bridge over lists\<close>

text \<open>A socket that keeps the filter it is given and a client connection that logs what it is sent.\<close>

definition list_bridge :: "(wire_frame, ws_out list \<times> (u32 \<times> u32) list option) bridge_ops" where
  "list_bridge = \<lparr>br_accept_all = (\<lambda>(out, _). (True, (out, None))), br_drop_all = (\<lambda>(out, _). (True, (out, Some []))),
     br_set_filters = (\<lambda>ps (out, _). (True, (out, Some ps))), br_accept_errors = (\<lambda>w. (True, w)),
     br_write = (\<lambda>_ w. (WriteOk, w)), br_send = (\<lambda>m (out, k). (True, (out @ [m], k)))\<rparr>"

definition wire_frames :: "wire_frame sock_frames" where
  "wire_frames = \<lparr>sf_data = (\<lambda>i data. wire_new (case i of StandardId w \<Rightarrow> ucast w | ExtendedId w \<Rightarrow> w OR CAN_EFF_FLAG) data),
     sf_remote = (\<lambda>i n. wire_new (case i of StandardId w \<Rightarrow> ucast w OR CAN_RTR_FLAG | ExtendedId w \<Rightarrow> w OR CAN_EFF_FLAG OR CAN_RTR_FLAG) (replicate n 0)),
     sf_id_word = id_word, sf_payload = wire_data\<rparr>"

lemma list_bridge_laws: "bridge_laws list_bridge fst"
  by (auto simp: bridge_laws_def list_bridge_def split: prod.splits)

lemma list_kernel_laws:
  "kernel_laws list_bridge (\<lambda>w x. case snd w of None \<Rightarrow> True | Some ps \<Rightarrow> \<exists>p\<in>set ps. x AND snd p = fst p AND snd p)"
  by (auto simp: kernel_laws_def list_bridge_def split: prod.splits)

definition sample_frame :: wire_frame where
  "sample_frame = \<lparr>id_word = 0x123, wire_dlc = 1, wire_payload = [7, 0, 0, 0, 0, 0, 0, 0]\<rparr>"

definition sample_filter :: can_filter where
  "sample_filter = \<lparr>flt_id = 0x123, flt_mask = 0x7FF\<rparr>"

theorem bridge_accounts_for_frames_witness:
  "\<exists>c go c' rest. client_start False None 0 ([], None) = Some c
    \<and> client_run wire_frames list_bridge [ReadFrame sample_frame, BufferReady, PingTick 5] c = Some (go, c')
    \<and> (go \<longrightarrow> replay (map snd (served wire_frames list_bridge [ReadFrame sample_frame, BufferReady, PingTick 5] c)) [sample_frame] = Some rest)"
proof -
  have "frames_read wire_frames [ReadFrame sample_frame, BufferReady, PingTick 5] = [sample_frame]"
    by (simp add: wire_from_can_frame_def wire_frames_def sample_frame_def wire_new_def wire_data_def overwrite_def numeral_eq_Suc)
  then show ?thesis
    using bridge_accounts_for_frames [OF list_bridge_laws, of "[ReadFrame sample_frame, BufferReady, PingTick 5]" False None 0 "([], None)" wire_frames]
    by auto
qed

theorem bridge_filter_exact_witness:
  "case apply_filter list_bridge (Some [sample_filter]) ([], None) of (us, w') \<Rightarrow>
     (case snd w' of None \<Rightarrow> True | Some ps \<Rightarrow> \<exists>p\<in>set ps. id_word sample_frame AND snd p = fst p AND snd p)
     \<and> frame_passes (Some [sample_filter]) us sample_frame"
proof -
  obtain us w' where a: "apply_filter list_bridge (Some [sample_filter]) ([], None) = (us, w')" by (rule prod.exhaust)
  have e: "\<not> is_error sample_frame" by code_simp
  have f: "\<forall>f\<in>set (case Some [sample_filter] of None \<Rightarrow> [] | Some fs \<Rightarrow> fs). flt_id f AND CAN_ERR_FLAG = 0" by code_simp
  have "list_ex (\<lambda>f. filter_matches f (id_word sample_frame)) [sample_filter]" by code_simp
  then show ?thesis using bridge_filter_exact [OF list_kernel_laws a e f] a by simp
qed


end
