(* ===== verification/Linux_Transports.thy ===== *)
theory Linux_Transports
  imports Canwsd Can_Transport "HOL-Library.Sublist"
begin

unbundle bit_operations_syntax

text \<open>
  The CAN transports of \<open>canopen-linux/src\<close>: the WebSocket client with its background task
  (\<open>websocket_transport.rs\<close>) and UDP multicast (\<open>udp_multicast.rs\<close>). Sockets, the WebSocket sink and the msgpack codec are parameters. The
  application's calls and the branches of the task's \<open>select!\<close> are interleaved steps on the shared queues;
  time is in milliseconds.
\<close>

section \<open>Frames on the WebSocket\<close>

definition ws_decode_frame :: "bytes \<Rightarrow> unit + can_frame" where
  "ws_decode_frame buf = (case wire_decode buf of
     Inl _ \<Rightarrow> Inl ()
   | Inr wire \<Rightarrow>
       if id_word wire AND (CAN_EFF_FLAG OR CAN_RTR_FLAG OR CAN_ERR_FLAG) \<noteq> 0 then Inl ()
       else case can_frame_new (ucast (id_word wire)) (wire_data wire) of None \<Rightarrow> Inl () | Some f \<Rightarrow> Inr f)"

text \<open>The message for a frame: \<open>WireFrame::new\<close> and \<open>encode\<close>; a panic of \<open>encode\<close> is the outer \<^term>\<open>None\<close>.\<close>

definition ws_encode_frame :: "can_frame \<Rightarrow> bytes option option" where
  "ws_encode_frame frame = (case wire_new (ucast (raw_id frame)) (frame_data frame) of
     None \<Rightarrow> Some None
   | Some wire \<Rightarrow> do { (buf, len) \<leftarrow> wire_encode wire; Some (Some (take len buf)) })"

section \<open>The WebSocket transport\<close>

record ws_config =
  wc_transmit_queue_capacity :: nat
  wc_max_transmit_age :: nat
  wc_close_timeout :: nat
  wc_receive_queue_capacity :: nat

definition ws_config_default :: ws_config where
  "ws_config_default = \<lparr>wc_transmit_queue_capacity = 32, wc_max_transmit_age = 250, wc_close_timeout = 250,
     wc_receive_queue_capacity = 4096\<rparr>"

datatype ws_error = WsRuntime | WsConnect string | WsInvalidConfig string

definition ws_check_config :: "ws_config \<Rightarrow> ws_error + unit" where
  "ws_check_config c =
     (if wc_transmit_queue_capacity c = 0 then Inl (WsInvalidConfig ''transmit_queue_capacity must be nonzero'')
      else if wc_receive_queue_capacity c = 0 then Inl (WsInvalidConfig ''receive_queue_capacity must be nonzero'')
      else if wc_max_transmit_age c = 0 then Inl (WsInvalidConfig ''max_transmit_age must be nonzero'')
      else Inr ())"

text \<open>
  The queues between application and task, the counters, and what the task has written to the socket, with the
  times at which a write was accepted and completed.
\<close>

record ws_link =
  wl_tx :: "(can_frame \<times> nat) list"
  wl_tx_open :: bool
  wl_task :: bool
  wl_rx :: "can_frame list"
  wl_dropped :: u64
  wl_undecodable :: u64
  wl_now :: nat
  wl_written :: "(bytes \<times> nat \<times> nat) list"

definition ws_link_new :: ws_link where
  "ws_link_new = \<lparr>wl_tx = [], wl_tx_open = True, wl_task = True, wl_rx = [], wl_dropped = 0, wl_undecodable = 0,
     wl_now = 0, wl_written = []\<rparr>"

definition enqueue_frame :: "ws_config \<Rightarrow> ws_link \<Rightarrow> can_frame \<Rightarrow> (nb_error + can_frame option) \<times> ws_link" where
  "enqueue_frame c t frame =
     (if \<not> wl_task t then (Inl (OtherError BusError), t)
      else if length (wl_tx t) \<ge> wc_transmit_queue_capacity c then (Inl WouldBlock, t)
      else (Inr None, t\<lparr>wl_tx := wl_tx t @ [(frame, wl_now t)]\<rparr>))"

definition ws_transmit :: "ws_config \<Rightarrow> ws_link \<Rightarrow> can_frame \<Rightarrow> (nb_error + can_frame option) \<times> ws_link" where
  "ws_transmit c t frame = (if \<not> wl_tx_open t then (Inl (OtherError BusError), t) else enqueue_frame c t frame)"

definition ws_receive :: "ws_link \<Rightarrow> (nb_error + can_frame) \<times> ws_link" where
  "ws_receive t = (case wl_rx t of
     f # fs \<Rightarrow> (Inr f, t\<lparr>wl_rx := fs\<rparr>)
   | [] \<Rightarrow> (Inl (if wl_task t then WouldBlock else OtherError BusError), t))"

definition ws_ops :: "ws_config \<Rightarrow> ws_link can_ops" where
  "ws_ops c = \<lparr>can_transmit = ws_transmit c, can_receive = ws_receive\<rparr>"

interpretation wsl: can_transport "ws_ops c" wl_rx "\<lambda>t. map fst (wl_tx t)" "\<lambda>_. True"
  for c :: ws_config
  by unfold_locales (auto simp: ws_ops_def ws_receive_def ws_transmit_def enqueue_frame_def split: if_splits)

section \<open>The background task\<close>

datatype send_outcome = SendSent | SendExpired | SendFailed | SendTimedOut

text \<open>
  A write to the sink takes some time and then succeeds or fails. The result has the outcome, the message, and the
  time the call took.
\<close>

definition send_before_expiry :: "ws_config \<Rightarrow> nat \<Rightarrow> can_frame \<times> nat \<Rightarrow> nat \<times> bool \<Rightarrow> (send_outcome \<times> bytes \<times> nat) option" where
  "send_before_expiry c now queued sink =
     (let elapsed = now - snd queued in
      if elapsed > wc_max_transmit_age c then Some (SendExpired, [], 0)
      else let remaining = wc_max_transmit_age c - elapsed in do {
        message \<leftarrow> ws_encode_frame (fst queued);
        (case message of
           None \<Rightarrow> Some (SendFailed, [], 0)
         | Some m \<Rightarrow>
             if fst sink \<le> remaining then Some (if snd sink then SendSent else SendFailed, m, fst sink)
             else Some (SendTimedOut, m, remaining))
      })"

datatype ws_incoming = RxBinary bytes | RxClose | RxOther | RxError | RxEnd

datatype ws_event =
    AppTransmit can_frame | AppReceive | AppDrop | TaskTransmit "nat \<times> bool" | TaskReceive ws_incoming | TimePasses nat

datatype ws_response = Transmitted "nb_error + can_frame option" | Received "nb_error + can_frame" | NoResponse

definition ws_task_transmit :: "ws_config \<Rightarrow> nat \<times> bool \<Rightarrow> ws_link \<Rightarrow> ws_link option" where
  "ws_task_transmit c sink t = (case wl_tx t of
     [] \<Rightarrow> Some (if wl_tx_open t then t else t\<lparr>wl_task := False\<rparr>)
   | queued # rest \<Rightarrow> do {
       (outcome, m, took) \<leftarrow> send_before_expiry c (wl_now t) queued sink;
       let t = t\<lparr>wl_tx := rest, wl_now := wl_now t + took\<rparr>;
       Some (case outcome of
           SendSent \<Rightarrow> t\<lparr>wl_written := wl_written t @ [(m, snd queued, wl_now t)]\<rparr>
         | SendExpired \<Rightarrow> t
         | _ \<Rightarrow> t\<lparr>wl_task := False\<rparr>)
     })"

definition ws_task_receive :: "ws_config \<Rightarrow> ws_incoming \<Rightarrow> ws_link \<Rightarrow> ws_link" where
  "ws_task_receive c m t = (case m of
     RxBinary data \<Rightarrow> (case ws_decode_frame data of
         Inr frame \<Rightarrow>
           if length (wl_rx t) < wc_receive_queue_capacity c then t\<lparr>wl_rx := wl_rx t @ [frame]\<rparr>
           else t\<lparr>wl_dropped := wl_dropped t + 1\<rparr>
       | Inl _ \<Rightarrow> t\<lparr>wl_undecodable := wl_undecodable t + 1\<rparr>)
   | RxOther \<Rightarrow> t
   | _ \<Rightarrow> t\<lparr>wl_task := False\<rparr>)"

text \<open>One step; the branches of the task are taken only while it runs.\<close>

definition ws_step :: "ws_config \<Rightarrow> ws_event \<Rightarrow> ws_link \<Rightarrow> (ws_response \<times> ws_link) option" where
  "ws_step c e t = (case e of
     AppTransmit f \<Rightarrow> (case ws_transmit c t f of (r, t) \<Rightarrow> Some (Transmitted r, t))
   | AppReceive \<Rightarrow> (case ws_receive t of (r, t) \<Rightarrow> Some (Received r, t))
   | AppDrop \<Rightarrow> Some (NoResponse, t\<lparr>wl_tx_open := False\<rparr>)
   | TaskTransmit sink \<Rightarrow>
       if wl_task t then do { t \<leftarrow> ws_task_transmit c sink t; Some (NoResponse, t) } else Some (NoResponse, t)
   | TaskReceive m \<Rightarrow> Some (NoResponse, if wl_task t then ws_task_receive c m t else t)
   | TimePasses n \<Rightarrow> Some (NoResponse, t\<lparr>wl_now := wl_now t + n\<rparr>))"

fun ws_run :: "ws_config \<Rightarrow> ws_event list \<Rightarrow> ws_link \<Rightarrow> ((ws_event \<times> bool \<times> ws_response) list \<times> ws_link) option" where
  "ws_run c [] t = Some ([], t)"
| "ws_run c (e # es) t = do {
     (r, t') \<leftarrow> ws_step c e t;
     (rs, t'') \<leftarrow> ws_run c es t';
     Some ((e, wl_task t, r) # rs, t'')
   }"

section \<open>UDP multicast\<close>

text \<open>The fields of the message that decoding reads; the others are constants of the sender.\<close>

record wire_message =
  wm_arbitration_id :: u32
  wm_is_extended_id :: bool
  wm_is_remote_frame :: bool
  wm_is_error_frame :: bool
  wm_data :: bytes
  wm_dlc :: u8
  wm_is_fd :: bool

datatype udp_decoded = DecodedFrame can_frame | DecodedIgnored | DecodedMalformed

definition decode_message :: "wire_message \<Rightarrow> udp_decoded" where
  "decode_message msg =
     (if wm_is_extended_id msg \<or> wm_is_error_frame msg \<or> wm_is_remote_frame msg \<or> wm_is_fd msg then DecodedIgnored
      else if wm_arbitration_id msg > 0x7FF \<or> unat (wm_dlc msg) \<noteq> length (wm_data msg) then DecodedMalformed
      else case can_frame_new (ucast (wm_arbitration_id msg)) (wm_data msg) of
        Some frame \<Rightarrow> DecodedFrame frame | None \<Rightarrow> DecodedMalformed)"

datatype udp_error = UdpWouldBlock | UdpFailed

record 's udp_ops =
  us_send :: "bytes \<Rightarrow> 's \<Rightarrow> (udp_error + unit) \<times> 's"
  us_recv :: "'s \<Rightarrow> (udp_error + bytes) \<times> 's"
  us_pack :: "wire_message \<Rightarrow> bytes option"
  us_unpack :: "bytes \<Rightarrow> wire_message option"

definition udp_message :: "can_frame \<Rightarrow> wire_message" where
  "udp_message frame = \<lparr>wm_arbitration_id = ucast (raw_id frame), wm_is_extended_id = False, wm_is_remote_frame = False,
     wm_is_error_frame = False, wm_data = frame_data frame, wm_dlc = raw_dlc frame, wm_is_fd = False\<rparr>"

definition udp_transmit :: "'s udp_ops \<Rightarrow> can_frame \<Rightarrow> 's \<Rightarrow> (nb_error + can_frame option) \<times> 's" where
  "udp_transmit ops frame s = (case us_pack ops (udp_message frame) of
     None \<Rightarrow> (Inl (OtherError BusError), s)
   | Some encoded \<Rightarrow> (case us_send ops encoded s of
       (Inl UdpWouldBlock, s) \<Rightarrow> (Inl WouldBlock, s)
     | (Inl UdpFailed, s) \<Rightarrow> (Inl (OtherError BusError), s)
     | (Inr _, s) \<Rightarrow> (Inr None, s)))"

definition udp_decode :: "'s udp_ops \<Rightarrow> bytes \<Rightarrow> udp_decoded" where
  "udp_decode ops datagram = (case us_unpack ops datagram of Some msg \<Rightarrow> decode_message msg | None \<Rightarrow> DecodedMalformed)"

definition count_malformed :: "u64 \<Rightarrow> u64" where
  "count_malformed n = (if n = - 1 then n else n + 1)"

partial_function (option) udp_receive :: "'s udp_ops \<Rightarrow> u64 \<Rightarrow> 's \<Rightarrow> ((nb_error + can_frame) \<times> u64 \<times> 's) option" where
  "udp_receive ops malformed s = (case us_recv ops s of
     (Inr datagram, s) \<Rightarrow> (case udp_decode ops datagram of
         DecodedFrame frame \<Rightarrow> Some (Inr frame, malformed, s)
       | DecodedIgnored \<Rightarrow> udp_receive ops malformed s
       | DecodedMalformed \<Rightarrow> udp_receive ops (count_malformed malformed) s)
   | (Inl UdpWouldBlock, s) \<Rightarrow> Some (Inl WouldBlock, malformed, s)
   | (Inl UdpFailed, s) \<Rightarrow> Some (Inl (OtherError BusError), malformed, s))"

section \<open>Frames survive the WebSocket\<close>

definition built :: "can_frame \<Rightarrow> bool" where
  "built f \<longleftrightarrow> (\<exists>i data. can_frame_new i data = Some f)"

lemma id_no_flags: "(ucast (i :: u16) :: u32) AND (CAN_EFF_FLAG OR CAN_RTR_FLAG OR CAN_ERR_FLAG) = 0"
proof -
  have "(ucast i :: u32) = ucast i AND mask 16" by (rule bit_word_eqI) (auto simp: bit_simps dest: bit_imp_le_length)
  then have "(ucast i :: u32) AND 0xE0000000 = ucast i AND (mask 16 AND 0xE0000000)" by (metis and.assoc)
  moreover have "(mask 16 AND 0xE0000000 :: u32) = 0" by code_simp
  moreover have "CAN_EFF_FLAG OR CAN_RTR_FLAG OR CAN_ERR_FLAG = 0xE0000000" by code_simp
  ultimately show ?thesis by simp
qed

lemma ws_frame_roundtrip:
  assumes "built f"
  obtains m where "ws_encode_frame f = Some (Some m)" and "ws_decode_frame m = Inr f"
proof -
  obtain i data where f: "can_frame_new i data = Some f" using assms by (auto simp: built_def)
  have len: "length data \<le> 8" using f by (auto simp: can_frame_new_def split: if_splits)
  have id: "raw_id f = i" and fd: "frame_data f = data" using can_frame_new_raw_id [OF f] can_frame_new_data [OF f] by simp_all
  obtain wire where w: "wire_new (ucast i) data = Some wire" using len by (auto simp: wire_new_def)
  then have wi: "id_word wire = ucast i" and wd: "wire_data wire = data"
    using len by (auto simp: wire_new_def wire_data_def unat_of_nat_small split: if_splits)
  note wf = wire_new_wf [OF w]
  obtain buf len' where e: "wire_encode wire = Some (buf, len')" "take len' buf = wire_bytes wire"
    using wire_encode_bytes [OF wf] by auto
  have "ws_encode_frame f = Some (Some (wire_bytes wire))" using w e id fd by (simp add: ws_encode_frame_def)
  moreover have "ucast (ucast i :: u32) = i" by (rule ucast_ucast_up) simp
  then have "ws_decode_frame (wire_bytes wire) = Inr f"
    using wire_decode_bytes [OF wf] wi wd f id_no_flags [of i] by (simp add: ws_decode_frame_def)
  ultimately show ?thesis by (rule that)
qed

text \<open>An identifier above 16 bits without flag bits is cut off: the frame decodes under another identifier.\<close>

lemma ws_decode_truncates: "ws_decode_frame [0x23, 0x01, 0x01, 0x00, 0x00] = ws_decode_frame [0x23, 0x01, 0x00, 0x00, 0x00]"
  by code_simp

section \<open>Runs of the WebSocket transport\<close>

fun accepted_of :: "ws_event \<times> bool \<times> ws_response \<Rightarrow> can_frame list" where
  "accepted_of (AppTransmit f, _, Transmitted (Inr _)) = [f]"
| "accepted_of _ = []"

fun handed_of :: "ws_event \<times> bool \<times> ws_response \<Rightarrow> can_frame list" where
  "handed_of (AppReceive, _, Received (Inr f)) = [f]"
| "handed_of _ = []"

text \<open>The messages that reached the task while it was running.\<close>

fun arrived_of :: "ws_event \<times> bool \<times> ws_response \<Rightarrow> bytes list" where
  "arrived_of (TaskReceive (RxBinary m), True, _) = [m]"
| "arrived_of _ = []"

definition decodable :: "bytes list \<Rightarrow> can_frame list" where
  "decodable ms = concat (map (\<lambda>m. case ws_decode_frame m of Inr f \<Rightarrow> [f] | Inl _ \<Rightarrow> []) ms)"

definition tx_account :: "ws_config \<Rightarrow> can_frame list \<Rightarrow> ws_link \<Rightarrow> bool" where
  "tx_account c acc t \<longleftrightarrow> list_all built acc \<and> (\<forall>p\<in>set (wl_tx t). snd p \<le> wl_now t)
     \<and> (\<forall>(m, t0, t1)\<in>set (wl_written t). t0 \<le> t1 \<and> t1 \<le> t0 + wc_max_transmit_age c)
     \<and> (\<exists>W. map (\<lambda>(m, _, _). ws_decode_frame m) (wl_written t) = map Inr W \<and> subseq (W @ map fst (wl_tx t)) acc)"

definition rx_account :: "can_frame list \<Rightarrow> bytes list \<Rightarrow> ws_link \<Rightarrow> bool" where
  "rx_account hand arr t \<longleftrightarrow> subseq (hand @ wl_rx t) (decodable arr)
     \<and> length (decodable arr) = length (hand @ wl_rx t) + unat (wl_dropped t)
     \<and> length arr = length (decodable arr) + unat (wl_undecodable t)"

lemma decodable_append: "decodable (ms @ ms') = decodable ms @ decodable ms'"
  by (simp add: decodable_def)

lemma subseq_snocI: "subseq xs ys \<Longrightarrow> subseq xs (ys @ [y])"
  by (metis append.right_neutral list_emb_append_mono subseq_order.refl list_emb_Nil)

lemma subseq_drop_mid: "subseq (xs @ y # zs) ws \<Longrightarrow> subseq (xs @ zs) ws"
  by (meson subseq_Cons' list_emb_append_mono subseq_order.trans subseq_order.refl)

lemma tx_account_transmit:
  assumes "tx_account c acc t" and "ws_transmit c t f = (r, t')" and "built f"
  shows "tx_account c (acc @ accepted_of (AppTransmit f, k, Transmitted r)) t'"
proof (cases "is_ok r")
  case True
  then have "r = Inr None" "t' = t\<lparr>wl_tx := wl_tx t @ [(f, wl_now t)]\<rparr>"
    using assms(2) by (auto simp: ws_transmit_def enqueue_frame_def is_ok_def split: if_splits)
  moreover have "subseq (W @ map fst (wl_tx t) @ [f]) (acc @ [f])" if "subseq (W @ map fst (wl_tx t)) acc" for W
    using that by (metis append.assoc list_emb_append_mono subseq_order.refl)
  ultimately show ?thesis using assms(1,3) by (auto simp: tx_account_def)
next
  case False
  then have "t' = t" "\<exists>e. r = Inl e" using assms(2) by (auto simp: ws_transmit_def enqueue_frame_def is_ok_def split: if_splits)
  then show ?thesis using assms(1) by auto
qed

lemma tx_account_task:
  assumes "tx_account c acc t"
  shows "\<exists>t'. ws_task_transmit c sink t = Some t' \<and> tx_account c acc t' \<and> wl_rx t' = wl_rx t
    \<and> wl_dropped t' = wl_dropped t \<and> wl_undecodable t' = wl_undecodable t"
proof (cases "wl_tx t")
  case Nil
  then show ?thesis using assms by (simp add: ws_task_transmit_def tx_account_def)
next
  case (Cons queued rest)
  obtain f t0 where q: "queued = (f, t0)" by (cases queued)
  obtain W where a: "list_all built acc" "\<forall>p\<in>set (wl_tx t). snd p \<le> wl_now t"
    "\<forall>(m, t0, t1)\<in>set (wl_written t). t0 \<le> t1 \<and> t1 \<le> t0 + wc_max_transmit_age c"
    and W: "map (\<lambda>(m, _, _). ws_decode_frame m) (wl_written t) = map Inr W" "subseq (W @ f # map fst rest) acc"
    using assms Cons q by (auto simp: tx_account_def)
  have "f \<in> set acc" using list_emb_set [OF W(2), of f] by auto
  then have "built f" using a(1) by (simp add: list_all_iff)
  then obtain m where m: "ws_encode_frame f = Some (Some m)" "ws_decode_frame m = Inr f" by (rule ws_frame_roundtrip)
  define age where "age = wl_now t - t0"
  have now: "wl_now t = t0 + age" using a(2) Cons q by (simp add: age_def)
  note d = subseq_drop_mid [OF W(2)]
  have old: "tx_account c acc (t\<lparr>wl_tx := rest, wl_now := wl_now t + n, wl_task := b\<rparr>)" for n b
    using a W(1) d Cons by (auto simp: tx_account_def intro!: exI [of _ W])
  have new: "tx_account c acc (t\<lparr>wl_tx := rest, wl_now := wl_now t + n, wl_written := wl_written t @ [(m, t0, wl_now t + n)]\<rparr>)"
    if "age + n \<le> wc_max_transmit_age c" for n
    using a W m that now Cons by (auto simp: tx_account_def intro!: exI [of _ "W @ [f]"])
  show ?thesis
    using old [of "wl_task t" 0] old [of False "fst sink"] old [of False 0] old [of False "wc_max_transmit_age c - age"] new [of "fst sink"] m(1) Cons q
    by (auto simp: ws_task_transmit_def send_before_expiry_def Let_def age_def [symmetric])
qed


lemma rx_account_task:
  assumes "rx_account hand arr t" and "length arr + 1 < 2 ^ 64"
  shows "rx_account hand (arr @ arrived_of (TaskReceive m, True, r)) (ws_task_receive c m t)"
proof (cases m)
  case (RxBinary data)
  note a = assms(1) [unfolded rx_account_def]
  have d1: "unat (wl_dropped t + 1) = unat (wl_dropped t) + 1" if "unat (wl_dropped t) < 2 ^ 64 - 1"
    using that by (simp add: unat_word_ariths)
  have u1: "unat (wl_undecodable t + 1) = unat (wl_undecodable t) + 1" if "unat (wl_undecodable t) < 2 ^ 64 - 1"
    using that by (simp add: unat_word_ariths)
  have ud: "unat (wl_dropped t) < 2 ^ 64 - 1" "unat (wl_undecodable t) < 2 ^ 64 - 1" using a assms(2) by simp_all
  show ?thesis
  proof (cases "ws_decode_frame data")
    case (Inl e)
    then show ?thesis using RxBinary a u1 [OF ud(2)] by (simp add: rx_account_def ws_task_receive_def decodable_append) (simp add: decodable_def)
  next
    case (Inr f)
    have s: "subseq (hand @ wl_rx t @ [f]) (decodable arr @ [f])" using a by (metis append.assoc list_emb_append_mono subseq_order.refl)
    have n: "decodable [data] = [f]" using Inr by (simp add: decodable_def)
    show ?thesis using RxBinary Inr a s n d1 [OF ud(1)] subseq_snocI [of "hand @ wl_rx t" "decodable arr" f]
      by (simp add: rx_account_def ws_task_receive_def decodable_append)
  qed
qed (use assms in \<open>simp_all add: ws_task_receive_def rx_account_def\<close>)

lemma ws_step_accounts:
  assumes "tx_account c acc t" and "rx_account hand arr t" and "length arr + 1 < 2 ^ 64" and "\<And>f. e = AppTransmit f \<Longrightarrow> built f"
  shows "\<exists>r t'. ws_step c e t = Some (r, t') \<and> tx_account c (acc @ accepted_of (e, wl_task t, r)) t'
    \<and> rx_account (hand @ handed_of (e, wl_task t, r)) (arr @ arrived_of (e, wl_task t, r)) t'"
proof (cases e)
  case (AppTransmit f)
  obtain r t' where x: "ws_transmit c t f = (r, t')" by fastforce
  then have "wl_rx t' = wl_rx t" "wl_dropped t' = wl_dropped t" "wl_undecodable t' = wl_undecodable t"
    by (auto simp: ws_transmit_def enqueue_frame_def split: if_splits)
  then show ?thesis using AppTransmit x assms(2) tx_account_transmit [OF assms(1) x assms(4) [OF AppTransmit], of "wl_task t"]
    by (simp add: ws_step_def rx_account_def)
next
  case AppReceive
  then show ?thesis using assms(1,2) by (cases "wl_rx t") (auto simp: ws_step_def ws_receive_def tx_account_def rx_account_def)
next
  case AppDrop
  then show ?thesis using assms(1,2) by (simp add: ws_step_def tx_account_def rx_account_def)
next
  case (TaskTransmit sink)
  then show ?thesis using assms(2) tx_account_task [OF assms(1), of sink] assms(1) by (auto simp: ws_step_def rx_account_def)
next
  case (TaskReceive m)
  have "tx_account c acc (ws_task_receive c m t)"
    using assms(1) by (cases m) (auto simp: ws_task_receive_def tx_account_def split: sum.splits)
  then show ?thesis using TaskReceive assms(1,2) rx_account_task [OF assms(2,3), of m NoResponse c]
    by (cases "wl_task t"; cases m) (auto simp: ws_step_def)
next
  case (TimePasses n)
  then show ?thesis using assms(1,2) by (auto simp: ws_step_def tx_account_def rx_account_def trans_le_add1)
qed

lemma ws_run_accounts:
  "tx_account c acc t \<Longrightarrow> rx_account hand arr t \<Longrightarrow> length arr + length es < 2 ^ 64 - 1 \<Longrightarrow> (\<And>f. AppTransmit f \<in> set es \<Longrightarrow> built f)
    \<Longrightarrow> \<exists>rs t'. ws_run c es t = Some (rs, t') \<and> tx_account c (acc @ concat (map accepted_of rs)) t'
      \<and> rx_account (hand @ concat (map handed_of rs)) (arr @ concat (map arrived_of rs)) t'"
proof (induction es arbitrary: acc hand arr t)
  case (Cons e es)
  have "length arr + 1 < 2 ^ 64" using Cons.prems(3) by simp
  then obtain r t1 where s: "ws_step c e t = Some (r, t1)" "tx_account c (acc @ accepted_of (e, wl_task t, r)) t1"
    "rx_account (hand @ handed_of (e, wl_task t, r)) (arr @ arrived_of (e, wl_task t, r)) t1"
    using ws_step_accounts [OF Cons.prems(1,2), of e] Cons.prems(4) by auto
  have "length (arrived_of (e, wl_task t, r)) \<le> 1" by (cases "(e, wl_task t, r)" rule: arrived_of.cases) simp_all
  then have "length (arr @ arrived_of (e, wl_task t, r)) + length es < 2 ^ 64 - 1" using Cons.prems(3) by simp
  from Cons.IH [OF s(2,3) this] Cons.prems(4) show ?case using s(1) by auto
qed simp

text \<open>
  C18. The WebSocket transport keeps its promises under every interleaving of the application with the background
  task: it never panics; what it has written to the socket decodes at the other end to frames the application had
  transmitted, in that order, and every write was completed within the maximum age of its frame; what the
  application received, followed by the receive queue, is a subsequence in order of the decodable messages that
  arrived, and the two counters are exactly the numbers of frames missing from it and of messages that were
  no frame.
\<close>

theorem ws_transport_fresh_and_accounted:
  assumes "\<forall>f. AppTransmit f \<in> set es \<longrightarrow> built f" and "length es < 2 ^ 64 - 1"
  shows "\<exists>rs t W. ws_run c es ws_link_new = Some (rs, t)
    \<and> map (\<lambda>(m, _, _). ws_decode_frame m) (wl_written t) = map Inr W \<and> subseq (W @ map fst (wl_tx t)) (concat (map accepted_of rs))
    \<and> (\<forall>(m, accepted_at, written_at)\<in>set (wl_written t). written_at - accepted_at \<le> wc_max_transmit_age c)
    \<and> subseq (concat (map handed_of rs) @ wl_rx t) (decodable (concat (map arrived_of rs)))
    \<and> unat (wl_dropped t) = length (decodable (concat (map arrived_of rs))) - length (concat (map handed_of rs) @ wl_rx t)
    \<and> unat (wl_undecodable t) = length (concat (map arrived_of rs)) - length (decodable (concat (map arrived_of rs)))"
proof -
  have t: "tx_account c [] ws_link_new" "rx_account [] [] ws_link_new"
    by (simp_all add: tx_account_def rx_account_def ws_link_new_def decodable_def)
  have "length [] + length es < 2 ^ 64 - 1" using assms(2) by simp
  from ws_run_accounts [OF t this] assms(1)
  obtain rs t' where r: "ws_run c es ws_link_new = Some (rs, t')" "tx_account c (concat (map accepted_of rs)) t'"
    "rx_account (concat (map handed_of rs)) (concat (map arrived_of rs)) t'" by auto
  then obtain W where "map (\<lambda>(m, _, _). ws_decode_frame m) (wl_written t') = map Inr W"
    "subseq (W @ map fst (wl_tx t')) (concat (map accepted_of rs))"
    "\<forall>(m, t0, t1)\<in>set (wl_written t'). t0 \<le> t1 \<and> t1 \<le> t0 + wc_max_transmit_age c" by (auto simp: tx_account_def)
  then show ?thesis using r(1,3) by (fastforce simp: rx_account_def)
qed

theorem ws_transport_fresh_and_accounted_witness:
  "\<exists>f rs t. can_frame_new 0x123 [7] = Some f
    \<and> ws_run ws_config_default [AppTransmit f, TimePasses 5, TaskTransmit (3, True), TaskReceive (RxBinary [1, 1, 0, 0, 0]), AppReceive] ws_link_new = Some (rs, t)
    \<and> (\<forall>(m, accepted_at, written_at)\<in>set (wl_written t). written_at - accepted_at \<le> 250)"
proof -
  obtain f where f: "can_frame_new 0x123 [7] = Some f" by (simp add: can_frame_new_def)
  then have "built f" by (auto simp: built_def)
  then have "\<forall>g. AppTransmit g \<in> set [AppTransmit f, TimePasses 5, TaskTransmit (3, True), TaskReceive (RxBinary [1, 1, 0, 0, 0]), AppReceive] \<longrightarrow> built g" by simp
  from ws_transport_fresh_and_accounted [OF this, of ws_config_default] show ?thesis using f by (auto simp: ws_config_default_def)
qed

section \<open>UDP datagrams\<close>

text \<open>A frame sent is received as it was, after the datagrams before it that are no frames were skipped and counted.\<close>

lemma udp_message_decodes:
  assumes "built f"
  shows "decode_message (udp_message f) = DecodedFrame f"
proof -
  obtain i data where f: "can_frame_new i data = Some f" using assms by (auto simp: built_def)
  have i: "i \<le> 0x7FF" using f by (auto simp: can_frame_new_def split: if_splits)
  have "(ucast i :: u32) \<le> 0x7FF" using i unat_ucast_up [of i, where 'b = 32] by (simp add: word_le_nat_alt)
  moreover have "ucast (ucast i :: u32) = i" by (rule ucast_ucast_up) simp
  ultimately show ?thesis
    using f can_frame_new_raw_id [OF f] can_frame_new_raw_dlc [OF f] can_frame_new_data [OF f]
    by (simp add: decode_message_def udp_message_def not_less)
qed

fun udp_skipped :: "udp_decoded \<Rightarrow> bool" where
  "udp_skipped (DecodedFrame _) = False"
| "udp_skipped _ = True"

lemma udp_receive_skips:
  assumes "\<And>s d ds. inbox s = d # ds \<Longrightarrow> \<exists>s'. us_recv ops s = (Inr d, s') \<and> inbox s' = ds"
    and "inbox s = ds @ d # rest" and "\<forall>d\<in>set ds. udp_skipped (udp_decode ops d)" and "udp_decode ops d = DecodedFrame f"
  shows "\<exists>n s'. udp_receive ops malformed s = Some (Inr f, n, s') \<and> inbox s' = rest"
  using assms(2,3)
proof (induction ds arbitrary: s malformed)
  case Nil
  then obtain s' where "us_recv ops s = (Inr d, s')" "inbox s' = rest" using assms(1) [of s d rest] by auto
  then show ?case using assms(4) by (subst udp_receive.simps) simp
next
  case (Cons x xs)
  then obtain s' where s: "us_recv ops s = (Inr x, s')" "inbox s' = xs @ d # rest" using assms(1) [of s x "xs @ d # rest"] by auto
  then show ?case using Cons.IH [OF s(2)] Cons.prems(2)
    by (subst udp_receive.simps) (cases "udp_decode ops x"; simp)
qed


end
