(* ===== verification/Websocket_Node.thy ===== *)
theory Websocket_Node
  imports Node_Running Linux_Transports
begin

text \<open>
  The node's cycle is proved over any lawful transport; the mailbox is one, the WebSocket transport of
  \<open>canopen-linux\<close> another. The cycle returns also after the connection was lost.
\<close>

interpretation wnode: node_on_transport "gen_ops d validate" gen_val "gen_node_inv d"
    "ws_ops c" wl_rx "\<lambda>t. map fst (wl_tx t)" "\<lambda>_. True"
  for d and validate :: "gen_od \<Rightarrow> u16 \<Rightarrow> u8 \<Rightarrow> bytes \<Rightarrow> od_error + unit" and c :: ws_config
  by unfold_locales

lemma websocket_node_cycle:
  assumes "wf_nd (gen_node_inv d) N nd" "list_all wf_frame (wl_rx t)"
  shows "\<exists>nd' t' fs. process N (gen_ops d v) (ws_ops c) now (nd, t) = Some (nd', t') \<and> wf_nd (gen_node_inv d) N nd'
    \<and> map fst (wl_tx t') = map fst (wl_tx t) @ fs \<and> (boots (ws_ops c) nd t \<longrightarrow> wl_rx t' = [])"
  using wnode.process_wf [OF assms(1) TrueI assms(2), of v c now] by (auto split: if_splits)

end
