(* ===== verification/Dcf_Props.thy ===== *)
theory Dcf_Props
  imports Dcf Od_Generated
begin

text \<open>
  What loading a device configuration achieves: exactness of integer values, configuration text
  that is read back, and the effect of applying a configuration to a generated dictionary.
\<close>

abbreviation dce_addr :: "dcf_entry \<Rightarrow> u16 \<times> u8" where "dce_addr e \<equiv> (dce_index e, dce_subindex e)"

lemma gen_write_lookup: "gen_write od i s data = (r, od') \<Longrightarrow> gen_lookup od' i' s' = gen_lookup od i' s'"
  by (auto simp: gen_write_def gen_lookup_def gen_find_store_at option.map_comp comp_def
      split: option.splits sum.splits)

lemma gen_val_find: "gen_val od i s \<noteq> None \<longleftrightarrow> (\<exists>e. gen_find od i s = Some e \<and> meta_access (ge_meta e) \<noteq> Wo)"
  by (auto simp: gen_val_def split: option.splits)

text \<open>One accepted write, seen from outside: the entry reads back and stays readable.\<close>

lemma gen_write_ok:
  assumes "gen_inv d od" and "gen_write od i s data = (Inr u, od')" and "gen_lookup od i s = Some m"
    and "gen_val od i s \<noteq> None"
  shows "gen_val od' i s = Some (normalised (meta_data_type m) data)"
proof -
  obtain e where "gen_find od i s = Some e" "meta_access (ge_meta e) \<noteq> Wo" "m = ge_meta e"
    using assms(3) assms(4) [unfolded gen_val_find] by (auto simp: gen_lookup_def)
  with gen_write_effect [OF assms(1,2)] show ?thesis by simp
qed

lemma gen_write_other:
  assumes "gen_inv d od" and "gen_write od i s data = (r, od')" and "(i', s') \<noteq> (i, s)"
  shows "gen_val od' i' s' = gen_val od i' s'"
  using assms(2,3) by (auto simp: gen_write_def gen_val_def gen_find_store_at split: option.splits sum.splits)

lemma gen_write_readable:
  "gen_write od i s data = (r, od') \<Longrightarrow> gen_val od' i' s' = None \<longleftrightarrow> gen_val od i' s' = None"
  by (cases "gen_find od i' s'")
     (auto simp: gen_write_def gen_val_def gen_find_store_at split: option.splits sum.splits if_splits)

lemma gen_ops_write [simp]: "od_write (gen_ops d validate) = gen_write"
  by (simp add: gen_ops_def)

section \<open>Strict application\<close>

lemma strict_frame:
  assumes "gen_inv d od" and "apply_strict_loop (gen_ops d validate) es k od = (r, od')"
  shows "gen_inv d od'" "gen_lookup od' i s = gen_lookup od i s"
    "(i, s) \<notin> dce_addr ` set es \<Longrightarrow> gen_val od' i s = gen_val od i s"
proof -
  have "gen_inv d od' \<and> gen_lookup od' i s = gen_lookup od i s
      \<and> ((i, s) \<notin> dce_addr ` set es \<longrightarrow> gen_val od' i s = gen_val od i s)"
    using assms
  proof (induction es arbitrary: k od)
    case (Cons e es)
    obtain r1 od1 where w: "gen_write od (dce_index e) (dce_subindex e) (dce_data e) = (r1, od1)" by force
    note f = gen_write_inv [OF Cons.prems(1) w] gen_write_lookup [OF w] gen_write_other [OF Cons.prems(1) w]
    show ?case
    proof (cases r1)
      case (Inl e')
      then show ?thesis using Cons.prems(2) w f by auto
    next
      case (Inr u)
      then have "apply_strict_loop (gen_ops d validate) es (k + 1) od1 = (r, od')"
        using Cons.prems(2) w by simp
      from Cons.IH [OF f(1) this] show ?thesis using f(2,3) by auto
    qed
  qed simp
  then show "gen_inv d od'" "gen_lookup od' i s = gen_lookup od i s"
    "(i, s) \<notin> dce_addr ` set es \<Longrightarrow> gen_val od' i s = gen_val od i s" by auto
qed

lemma strict_Cons:
  "od_write ops od (dce_index e) (dce_subindex e) (dce_data e) = (Inr u, od1) \<Longrightarrow>
   apply_strict_loop ops (e # es) k od = apply_strict_loop ops es (Suc k) od1"
  "od_write ops od (dce_index e) (dce_subindex e) (dce_data e) = (Inl oe, od1) \<Longrightarrow>
   apply_strict_loop ops (e # es) k od = (Inl (DcfOdError (dce_index e) (dce_subindex e) oe), od1)"
  by simp_all

lemma write_cases:
  obtains u od1 where "od_write ops od i s data = (Inr u, od1)" | oe od1 where "od_write ops od i s data = (Inl oe, od1)"
  by (metis old.sum.exhaust surj_pair)

lemma strict_append:
  "apply_strict_loop ops (es1 @ es2) k od =
     (case apply_strict_loop ops es1 k od of
        (Inl e, od') \<Rightarrow> (Inl e, od')
      | (Inr k', od') \<Rightarrow> apply_strict_loop ops es2 k' od')"
proof (induction es1 arbitrary: k od)
  case (Cons e es1)
  show ?case
    by (rule write_cases [of ops od "dce_index e" "dce_subindex e" "dce_data e"])
       (simp_all only: append_Cons strict_Cons Cons.IH prod.case sum.case)
qed simp

lemma strict_ok:
  "apply_strict_loop ops es k od = (Inr n, od') \<Longrightarrow>
   n = k + length es \<and> fold (dcf_apply_step ops) es (k, od) = (n, od')"
proof (induction es arbitrary: k od)
  case (Cons e es)
  show ?case
  proof (rule write_cases [of ops od "dce_index e" "dce_subindex e" "dce_data e"])
    fix u od1
    assume w: "od_write ops od (dce_index e) (dce_subindex e) (dce_data e) = (Inr u, od1)"
    with Cons.prems have "apply_strict_loop ops es (Suc k) od1 = (Inr n, od')" by (simp only: strict_Cons)
    from Cons.IH [OF this] w show ?thesis by (simp add: dcf_apply_step_def)
  next
    fix oe od1
    assume "od_write ops od (dce_index e) (dce_subindex e) (dce_data e) = (Inl oe, od1)"
    with Cons.prems show ?thesis by simp
  qed
qed simp

lemma strict_readable:
  "apply_strict_loop (gen_ops d validate) es k od = (r, od') \<Longrightarrow> gen_val od' i s = None \<longleftrightarrow> gen_val od i s = None"
proof (induction es arbitrary: k od)
  case (Cons e es)
  obtain r1 od1 where w: "gen_write od (dce_index e) (dce_subindex e) (dce_data e) = (r1, od1)" by force
  with Cons show ?case using gen_write_readable [OF w] by (cases r1) auto
qed simp

lemma strict_readback:
  assumes "gen_inv d od" and "apply_strict_loop (gen_ops d validate) (es1 @ e # es2) k od = (Inr n, od')"
    and "dce_addr e \<notin> dce_addr ` set es2" and "gen_lookup od (dce_index e) (dce_subindex e) = Some m"
    and "gen_val od (dce_index e) (dce_subindex e) \<noteq> None"
  shows "gen_val od' (dce_index e) (dce_subindex e) = Some (normalised (meta_data_type m) (dce_data e))"
proof -
  obtain k1 od1 where 1: "apply_strict_loop (gen_ops d validate) es1 k od = (Inr k1, od1)"
    "apply_strict_loop (gen_ops d validate) (e # es2) k1 od1 = (Inr n, od')"
    using assms(2) by (auto simp: strict_append split: prod.splits sum.splits)
  then obtain u od2 where w: "gen_write od1 (dce_index e) (dce_subindex e) (dce_data e) = (Inr u, od2)"
    and 2: "apply_strict_loop (gen_ops d validate) es2 (k1 + 1) od2 = (Inr n, od')"
    by (auto split: prod.splits sum.splits)
  note i1 = strict_frame(1) [OF assms(1) 1(1)]
  have "gen_val od1 (dce_index e) (dce_subindex e) \<noteq> None"
    using assms(5) strict_readable [OF 1(1)] by simp
  moreover have "gen_lookup od1 (dce_index e) (dce_subindex e) = Some m"
    using assms(4) strict_frame(2) [OF assms(1) 1(1)] by simp
  ultimately have "gen_val od2 (dce_index e) (dce_subindex e) = Some (normalised (meta_data_type m) (dce_data e))"
    using gen_write_ok [OF i1 w] by simp
  then show ?thesis
    using strict_frame(3) [OF gen_write_inv [OF i1 w] 2] assms(3) by auto
qed

lemma strict_error:
  assumes "apply_strict_loop ops es k od = (Inl err, od')"
  shows "\<exists>es1 e es2 oe od1. es = es1 @ e # es2 \<and> err = DcfOdError (dce_index e) (dce_subindex e) oe
    \<and> apply_strict_loop ops es1 k od = (Inr (k + length es1), od1)
    \<and> od_write ops od1 (dce_index e) (dce_subindex e) (dce_data e) = (Inl oe, od')"
  using assms
proof (induction es arbitrary: k od)
  case (Cons e es)
  obtain r1 od1 where w: "od_write ops od (dce_index e) (dce_subindex e) (dce_data e) = (r1, od1)" by force
  show ?case
  proof (cases r1)
    case (Inl oe)
    then show ?thesis using Cons.prems w by (intro exI [of _ "[]"]) auto
  next
    case (Inr u)
    then have "apply_strict_loop ops es (k + 1) od1 = (Inl err, od')" using Cons.prems w by simp
    from Cons.IH [OF this] obtain es1 e' es2 oe od2 where
      i: "es = es1 @ e' # es2" "err = DcfOdError (dce_index e') (dce_subindex e') oe"
        "apply_strict_loop ops es1 (k + 1) od1 = (Inr (k + 1 + length es1), od2)"
        "od_write ops od2 (dce_index e') (dce_subindex e') (dce_data e') = (Inl oe, od')" by blast
    then show ?thesis using w Inr
      by (intro exI [of _ "e # es1"] exI [of _ e'] exI [of _ es2] exI [of _ oe] exI [of _ od2]) simp
  qed
qed simp


section \<open>Properties\<close>

text \<open>
  Integer values of a configuration file are exact for every width and signedness: decimal
  text is accepted if and only if the number is in the type's range, and then yields its
  little-endian two's complement bytes; hexadecimal text may give any bit pattern of the width,
  for signed types too, and anything wider is refused.
\<close>

theorem dcf_integer_exact:
  assumes "bits \<in> int_widths"
  shows "serialize_integer (show_int x) bits True
      = (if - (2 ^ (bits - 1)) \<le> x \<and> x < 2 ^ (bits - 1) then Some (int_le_bytes (bits div 8) x) else None)
    \<and> serialize_integer (show_int x) bits False
      = (if 0 \<le> x \<and> x < 2 ^ bits then Some (int_le_bytes (bits div 8) x) else None)
    \<and> (0 \<le> x \<longrightarrow> serialize_integer (''0x'' @ show_radix 16 x) bits sg
      = (if x < 2 ^ bits then Some (int_le_bytes (bits div 8) x) else None))"
  using serialize_signed [OF assms] serialize_unsigned [OF assms] serialize_hex [OF assms] by simp

theorem dcf_integer_exact_witness:
  "serialize_integer ''-128'' 8 True = Some [0x80] \<and> serialize_integer ''-129'' 8 True = None"
proof -
  have "show_int (- 128) = ''-128''" "show_int (- 129) = ''-129''" by code_simp+
  moreover have "int_le_bytes 1 (- 128) = [0x80]" by code_simp
  ultimately show ?thesis
    using dcf_integer_exact [of 8 "- 128"] dcf_integer_exact [of 8 "- 129"] by simp
qed

text \<open>
  Configuration text is read back: the file that lists integer settings, one section each
  with its data type and value, parses without error to exactly these settings, in order, with
  the serialised values (and no node id or baud rate).
\<close>

theorem dcf_text_roundtrip:
  assumes "\<forall>s\<in>set ss. valid_setting s"
  shows "dcf_parse p32 p64 (dcf_text ss)
    = Inr \<lparr>dcf_node_id = None, dcf_baud_rate = None, dcf_entries = map setting_entry ss\<rparr>"
  using assms by (rule dcf_parse_text)

theorem dcf_text_roundtrip_witness:
  "dcf_parse (\<lambda>_. None) (\<lambda>_. None) (dcf_text [\<lparr>st_index = 0x1017, st_type = 6, st_value = 500\<rparr>,
      \<lparr>st_index = 0x2000, st_type = 2, st_value = - 3\<rparr>])
   = Inr \<lparr>dcf_node_id = None, dcf_baud_rate = None, dcf_entries =
      [\<lparr>dce_index = 0x1017, dce_subindex = 0, dce_data = [0xF4, 0x01], dce_name = []\<rparr>,
       \<lparr>dce_index = 0x2000, dce_subindex = 0, dce_data = [0xFD], dce_name = []\<rparr>]\<rparr>"
proof -
  let ?ss = "[\<lparr>st_index = 0x1017, st_type = 6, st_value = 500\<rparr>, \<lparr>st_index = 0x2000, st_type = 2, st_value = - 3\<rparr>]"
  have "\<forall>s\<in>set ?ss. valid_setting s" by code_simp
  moreover have "map setting_entry ?ss =
      [\<lparr>dce_index = 0x1017, dce_subindex = 0, dce_data = [0xF4, 0x01], dce_name = []\<rparr>,
       \<lparr>dce_index = 0x2000, dce_subindex = 0, dce_data = [0xFD], dce_name = []\<rparr>]" by code_simp
  ultimately show ?thesis using dcf_text_roundtrip [of ?ss] by simp
qed

text \<open>
  C39. Strictly applying a configuration to a generated dictionary either writes every entry
  (the count is the number of entries, \<open>apply\<close> gives the same result, and every readable
  object reads back the last value configured for it), or stops at the first entry the
  dictionary refuses, reports its address and error, and keeps exactly the writes before it.
  Objects that are not configured keep their value.
\<close>

theorem dcf_apply_strict_exact:
  assumes "gen_inv d od" and "apply_strict (gen_ops d validate) cfg od = (r, od')"
  shows "gen_inv d od'
    \<and> (\<forall>i s. (i, s) \<notin> dce_addr ` set (dcf_entries cfg) \<longrightarrow> gen_val od' i s = gen_val od i s)
    \<and> (case r of
        Inr n \<Rightarrow> n = length (dcf_entries cfg) \<and> dcf_apply (gen_ops d validate) cfg od = (n, od')
          \<and> (\<forall>es1 e es2 m. dcf_entries cfg = es1 @ e # es2 \<longrightarrow> dce_addr e \<notin> dce_addr ` set es2 \<longrightarrow>
               gen_lookup od (dce_index e) (dce_subindex e) = Some m \<longrightarrow>
               gen_val od (dce_index e) (dce_subindex e) \<noteq> None \<longrightarrow>
               gen_val od' (dce_index e) (dce_subindex e) = Some (normalised (meta_data_type m) (dce_data e)))
      | Inl err \<Rightarrow> \<exists>es1 e es2 oe. dcf_entries cfg = es1 @ e # es2
          \<and> err = DcfOdError (dce_index e) (dce_subindex e) oe
          \<and> apply_strict (gen_ops d validate) (cfg\<lparr>dcf_entries := es1\<rparr>) od = (Inr (length es1), od')
          \<and> gen_write od' (dce_index e) (dce_subindex e) (dce_data e) = (Inl oe, od'))"
proof -
  have l: "apply_strict_loop (gen_ops d validate) (dcf_entries cfg) 0 od = (r, od')"
    using assms(2) by (simp add: apply_strict_def)
  note frame = strict_frame [OF assms(1) l]
  show ?thesis
  proof (cases r)
    case (Inr n)
    then show ?thesis
      using frame strict_ok [OF l [unfolded Inr]] strict_readback [OF assms(1)] l
      by (auto simp: dcf_apply_def)
  next
    case (Inl err)
    from strict_error [OF l [unfolded Inl]] obtain es1 e es2 oe od1 where
      e: "dcf_entries cfg = es1 @ e # es2" "err = DcfOdError (dce_index e) (dce_subindex e) oe"
        "apply_strict_loop (gen_ops d validate) es1 0 od = (Inr (length es1), od1)"
        "gen_write od1 (dce_index e) (dce_subindex e) (dce_data e) = (Inl oe, od')" by auto
    have "od' = od1" using e(4) by (auto simp: gen_write_def split: option.splits sum.splits)
    then show ?thesis using e frame Inl by (auto simp: apply_strict_def)
  qed
qed

text \<open>The temperature object accepts its value; an object the device does not have stops the load.\<close>

theorem dcf_apply_strict_exact_witness:
  "\<exists>od'. apply_strict (gen_ops \<lparr>def_entries = [], def_pdos = [], def_sdo_servers = [], def_use_alloc = False\<rparr>
         validate_write_default)
       \<lparr>dcf_node_id = None, dcf_baud_rate = None,
        dcf_entries = [\<lparr>dce_index = 0x2000, dce_subindex = 0, dce_data = [1, 2, 3], dce_name = []\<rparr>]\<rparr>
       demo_temperature = (Inr 1, od') \<and> gen_val od' 0x2000 0 = Some [1, 2, 3]"
proof -
  let ?d = "\<lparr>def_entries = [], def_pdos = [], def_sdo_servers = [], def_use_alloc = False\<rparr>"
  let ?e = "\<lparr>dce_index = 0x2000, dce_subindex = 0, dce_data = [1, 2, 3], dce_name = []\<rparr>"
  let ?cfg = "\<lparr>dcf_node_id = None, dcf_baud_rate = None, dcf_entries = [?e]\<rparr>"
  have i: "gen_inv ?d demo_temperature"
    by (simp add: demo_temperature_def gen_inv_def entry_inv_def entry_typed_def field_entry_def
        field_default_def zero_value_def at_addr_def)
  obtain od' where a: "apply_strict (gen_ops ?d validate_write_default) ?cfg demo_temperature = (Inr 1, od')"
    by (simp add: apply_strict_def demo_temperature_def gen_write_def gen_find_def field_entry_def at_addr_def
        gen_write_arm_def plain_write_def dt_size_def)
  have t: "gen_lookup demo_temperature 0x2000 0 \<noteq> None" "gen_val demo_temperature 0x2000 0 \<noteq> None"
    "\<forall>m. gen_lookup demo_temperature 0x2000 0 = Some m \<longrightarrow> meta_data_type m \<noteq> Boolean"
    by (simp_all add: demo_temperature_def gen_lookup_def gen_val_def gen_find_def field_entry_def at_addr_def)
  have "dcf_entries ?cfg = [] @ ?e # []" "dce_addr ?e \<notin> dce_addr ` set []" by simp_all
  then have "\<forall>m. gen_lookup demo_temperature (dce_index ?e) (dce_subindex ?e) = Some m \<longrightarrow>
      gen_val demo_temperature (dce_index ?e) (dce_subindex ?e) \<noteq> None \<longrightarrow>
      gen_val od' (dce_index ?e) (dce_subindex ?e) = Some (normalised (meta_data_type m) (dce_data ?e))"
    using dcf_apply_strict_exact [OF i a] unfolding sum.case by blast
  with t have "gen_val od' 0x2000 0 = Some [1, 2, 3]" by (auto simp: normalised_def)
  with a show ?thesis by blast
qed

end
