(* ===== verification/Eds_Parser.thy ===== *)
theory Eds_Parser
  imports Dcf Od_Generated
begin

unbundle bit_operations_syntax

text \<open>
  The import of electronic data sheets (\<open>canopen-derive/src/eds_parser.rs\<close>): from the text of
  an EDS file to the entries and PDOs of a dictionary definition, and the values that the defaults
  denote. The Rust grammar and the conversion of decimal floating point text belong to \<open>syn\<close> and to
  the standard library: they are the record \<open>eds_lib\<close>, and an expression is the part of
  \<open>syn\<close>'s syntax tree that the import and the export look at. Error messages are constructors with the
  data they print. The hash maps of the source are association lists in insertion order; entries
  are sorted by index afterwards.
\<close>

section \<open>Data\<close>

text \<open>
  Expressions: an integer literal has its token without the suffix, the suffix and its value; a
  floating point literal its token and its digits without the suffix. Every other expression is opaque.
\<close>

datatype rust_lit =
    LitStr string | LitBool bool | LitInt string string int | LitFloat string string | LitByte u8 | LitOther

datatype bin_op = OpAdd | OpSub | OpMul | OpDiv | OpRem | OpBitOr | OpBitAnd | OpBitXor | OpShl | OpShr | OpOther

datatype rust_expr =
    ELit rust_lit
  | EParen rust_expr
  | EGroup rust_expr
  | ECast rust_expr
  | ENeg rust_expr
  | ENot rust_expr
  | EBinary bin_op rust_expr rust_expr
  | EOther

record eds_lib =
  lib_f32 :: "string \<Rightarrow> u32 option"
  lib_f64 :: "string \<Rightarrow> u64 option"
  lib_expr :: "string \<Rightarrow> rust_expr option"

datatype eds_error =
    DuplicateSection u16 "u8 option" string string
  | BadDataType string string
  | UnknownAccess string u16 u8 string
  | BadDefault string u16 u8 string
  | NotAnExpression string
  | BadPdoValue string string u16 u8
  | PdoValueRange string string u16 u8
  | BadPdoCobId string u16
  | TooManyMappings int u16
  | ReservedTransmissionType u8 u16
  | RtrTransmissionType u8 u16

record eds_var =
  ev_type :: data_type
  ev_capacity :: "nat option"
  ev_default :: "rust_expr option"
  ev_access :: access_type
  ev_pdo_mappable :: bool

record eds_sub =
  es_subindex :: u8
  es_name :: string
  es_var :: eds_var

record eds_array =
  ea_type :: data_type
  ea_capacity :: "nat option"
  ea_count :: nat
  ea_access :: access_type
  ea_pdo_mappable :: bool

datatype eds_kind = EdsVar eds_var | EdsRecord "eds_sub list" | EdsArray eds_array

record eds_entry =
  ee_index :: u16
  ee_name :: string
  ee_kind :: eds_kind

type_synonym overrides = "(u16 \<times> nat) list"

section \<open>Values and names\<close>

definition parse_int :: "string \<Rightarrow> int option" where
  "parse_int s = parse_hex_or_dec 64 s"

text \<open>\<open>str::parse::<i128>()\<close>\<close>

definition parse_i128 :: "string \<Rightarrow> int option" where
  "parse_i128 s =
     (if starts_with ''-'' s
      then (if drop 1 s = [] then None
            else map_option uminus (parse_digits (2 ^ 127 + 1) 10 0 (drop 1 s)))
      else (let ds = (if starts_with ''+'' s then drop 1 s else s)
            in if ds = [] then None else parse_digits (2 ^ 127) 10 0 ds))"

definition integer_type :: "u16 \<Rightarrow> (nat \<times> bool) option" where
  "integer_type data_type =
     (if data_type = 0x0002 then Some (8, True) else if data_type = 0x0003 then Some (16, True)
      else if data_type = 0x0010 then Some (24, True) else if data_type = 0x0004 then Some (32, True)
      else if data_type = 0x0015 then Some (64, True) else if data_type = 0x0005 then Some (8, False)
      else if data_type = 0x0006 then Some (16, False) else if data_type = 0x0016 then Some (24, False)
      else if data_type = 0x0007 then Some (32, False) else if data_type = 0x001B then Some (64, False)
      else None)"

text \<open>An integer default: a hexadecimal one is the bit pattern of the type.\<close>

definition integer_default :: "nat \<Rightarrow> bool \<Rightarrow> string \<Rightarrow> int option" where
  "integer_default bits is_signed v = do {
     value \<leftarrow> (case hex_prefix v of
        Some hex \<Rightarrow> do {
          raw \<leftarrow> from_str_radix 64 16 hex;
          if bits < 64 \<and> raw div 2 ^ bits \<noteq> 0 then None
          else if is_signed \<and> raw div 2 ^ (bits - 1) mod 2 = 1 then Some (raw - 2 ^ bits)
          else Some raw
        }
      | None \<Rightarrow> parse_i128 v);
     let (lo, hi) = (if is_signed then (- (2 ^ (bits - 1)), 2 ^ (bits - 1) - 1) else (0, 2 ^ bits - 1));
     if lo \<le> value \<and> value \<le> hi then Some value else None
   }"

definition default_zero :: "u16 \<Rightarrow> string" where
  "default_zero data_type =
     (if data_type = 0x0008 then ''0.0f32'' else if data_type = 0x0011 then ''0.0f64''
      else if data_type = 0x0001 then ''false'' else ''0'')"

definition to_ascii_uppercase :: "string \<Rightarrow> string" where "to_ascii_uppercase s = map ascii_upper s"

definition normalize_default :: "eds_lib \<Rightarrow> string \<Rightarrow> u16 \<Rightarrow> string option" where
  "normalize_default lib value data_type =
     (let v = trim value in
      if v = [] \<or> contains ''$NODEID'' (to_ascii_uppercase v) then Some (default_zero data_type)
      else if data_type = 0x0001 then
        (let l = to_lowercase v in
         if l = ''0'' \<or> l = ''false'' then Some ''false''
         else if l = ''1'' \<or> l = ''true'' then Some ''true'' else None)
      else if data_type = 0x0008 then
        (case hex_prefix v of
           Some hex \<Rightarrow> map_option (\<lambda>_. ''f32::from_bits(0x'' @ hex @ '')'') (from_str_radix 32 16 hex)
         | None \<Rightarrow> map_option (\<lambda>_. v @ ''f32'') (lib_f32 lib v))
      else if data_type = 0x0011 then
        (case hex_prefix v of
           Some hex \<Rightarrow> map_option (\<lambda>_. ''f64::from_bits(0x'' @ hex @ '')'') (from_str_radix 64 16 hex)
         | None \<Rightarrow> map_option (\<lambda>_. v @ ''f64'') (lib_f64 lib v))
      else (case integer_type data_type of
           None \<Rightarrow> Some v
         | Some (bits, is_signed) \<Rightarrow> map_option show_int (integer_default bits is_signed v)))"

definition is_alnum :: "char \<Rightarrow> bool" where
  "is_alnum c = (let n = of_char c :: nat in 48 \<le> n \<and> n \<le> 57 \<or> 65 \<le> n \<and> n \<le> 90 \<or> 97 \<le> n \<and> n \<le> 122)"

definition sanitize_name :: "string \<Rightarrow> string" where
  "sanitize_name name =
     (let s = map (\<lambda>c. if is_alnum c then ascii_lower c else CHR ''_'') name in
      if s \<noteq> [] \<and> (let n = of_char (hd s) :: nat in 48 \<le> n \<and> n \<le> 57) then CHR ''_'' # s
      else if s = [] then ''_unnamed'' else s)"

section \<open>Entries\<close>

definition eds_access :: "string \<Rightarrow> access_type option" where
  "eds_access access_str =
     (let a = to_lowercase (trim access_str) in
      if a = ''ro'' then Some Ro else if a = ''const'' then Some Const
      else if a = ''rw'' \<or> a = ''rwr'' \<or> a = ''rww'' then Some Rw
      else if a = ''wo'' then Some Wo else None)"

definition is_varlen :: "data_type \<Rightarrow> bool" where
  "is_varlen t \<longleftrightarrow> t = VisibleString \<or> t = OctetString \<or> t = Domain"

definition default_capacity :: "data_type \<Rightarrow> nat" where
  "default_capacity t = (if t = VisibleString then 64 else if t = OctetString then 256 else if t = Domain then 512 else 256)"

definition data_type_prop :: "props \<Rightarrow> u16 option" where
  "data_type_prop ps = do {
     v \<leftarrow> get_prop ps ''DataType'';
     n \<leftarrow> parse_int v;
     if n < 2 ^ 16 then Some (word_of_int n) else None
   }"

definition or_text :: "string option \<Rightarrow> string \<Rightarrow> string" where
  "or_text o1 d = (case o1 of Some s \<Rightarrow> s | None \<Rightarrow> d)"

text \<open>\<open>Inr None\<close>: the entry is skipped.\<close>

definition parse_var_entry ::
  "eds_lib \<Rightarrow> u16 \<Rightarrow> u8 \<Rightarrow> props \<Rightarrow> overrides \<Rightarrow> eds_error + eds_sub option" where
  "parse_var_entry lib index subindex ps caps =
     (case get_prop ps ''ParameterName'' of
        None \<Rightarrow> Inr None
      | Some name_str \<Rightarrow>
          (case data_type_prop ps of
             None \<Rightarrow> Inr None
           | Some code \<Rightarrow>
               (let access_str = or_text (get_prop ps ''AccessType'') ''ro'';
                    default_str = or_text (get_prop ps ''DefaultValue'') ''0'';
                    pdo_mapping = (case Option.bind (get_prop ps ''PDOMapping'') parse_int of Some n \<Rightarrow> n \<noteq> 0 | None \<Rightarrow> False)
                in case dt_from_code code of
                     None \<Rightarrow> Inr None
                   | Some t \<Rightarrow>
                       (case eds_access access_str of
                          None \<Rightarrow> Inl (UnknownAccess (to_lowercase (trim access_str)) index subindex name_str)
                        | Some access \<Rightarrow>
                            (let capacity = (if is_varlen t
                                   then Some (case map_of caps index of Some c \<Rightarrow> c | None \<Rightarrow> default_capacity t) else None);
                                 default_value = (if is_varlen t then
                                     (if t = VisibleString then
                                        (let stripped = trim_matches (CHR 0x22) (trim default_str) in
                                         if stripped \<noteq> [] then Inr (lib_expr lib (CHR 0x22 # stripped @ [CHR 0x22]))
                                         else Inr None)
                                      else Inr None)
                                   else (case normalize_default lib default_str code of
                                      None \<Rightarrow> Inl (BadDefault (trim default_str) index subindex name_str)
                                    | Some s \<Rightarrow> (case lib_expr lib s of
                                          Some x \<Rightarrow> Inr (Some x) | None \<Rightarrow> Inl (NotAnExpression s))))
                             in case default_value of
                                  Inl e \<Rightarrow> Inl e
                                | Inr d \<Rightarrow> Inr (Some \<lparr>es_subindex = subindex, es_name = sanitize_name name_str,
                                    es_var = \<lparr>ev_type = t, ev_capacity = capacity, ev_default = d, ev_access = access,
                                      ev_pdo_mappable = pdo_mapping\<rparr>\<rparr>))))))"

text \<open>The checks over all sections.\<close>

fun validate_unique_object_sections ::
  "sections \<Rightarrow> ((u16 \<times> u8 option) \<times> string) list \<Rightarrow> eds_error + unit" where
  "validate_unique_object_sections [] seen = Inr ()"
| "validate_unique_object_sections ((name, ps) # secs) seen =
     (case parse_section_index name of
        None \<Rightarrow> validate_unique_object_sections secs seen
      | Some addr \<Rightarrow>
          (case map_of seen addr of
             Some previous \<Rightarrow> Inl (DuplicateSection (fst addr) (snd addr) previous name)
           | None \<Rightarrow> validate_unique_object_sections secs ((addr, name) # seen)))"

fun validate_data_types :: "sections \<Rightarrow> eds_error + unit" where
  "validate_data_types [] = Inr ()"
| "validate_data_types ((name, ps) # secs) =
     (case parse_section_index name of
        None \<Rightarrow> validate_data_types secs
      | Some _ \<Rightarrow>
          (case get_prop ps ''DataType'' of
             None \<Rightarrow> validate_data_types secs
           | Some raw \<Rightarrow>
               if trim raw = [] then validate_data_types secs
               else if data_type_prop ps = None then Inl (BadDataType raw name)
               else validate_data_types secs))"

text \<open>The first pass: variables, the sub-index sections by index, and the object types.\<close>

record eds_pass =
  ep_entries :: "eds_entry list"
  ep_record_subs :: "(u16 \<times> (u8 \<times> props) list) list"
  ep_obj_types :: "(u16 \<times> int) list"

fun subs_push :: "u16 \<Rightarrow> u8 \<times> props \<Rightarrow> (u16 \<times> (u8 \<times> props) list) list \<Rightarrow> (u16 \<times> (u8 \<times> props) list) list" where
  "subs_push index sub [] = [(index, [sub])]"
| "subs_push index sub ((i, subs) # rest) =
     (if i = index then (i, subs @ [sub]) # rest else (i, subs) # subs_push index sub rest)"

definition skipped_index :: "u16 \<Rightarrow> bool" where
  "skipped_index index \<longleftrightarrow> is_pdo_index index \<or> index = 0x1021 \<or> index = 0x1022"

definition object_type :: "props \<Rightarrow> int" where
  "object_type ps = (case Option.bind (get_prop ps ''ObjectType'') parse_int of Some n \<Rightarrow> n | None \<Rightarrow> 0x07)"

definition first_pass_section ::
  "eds_lib \<Rightarrow> overrides \<Rightarrow> string \<times> props \<Rightarrow> eds_pass \<Rightarrow> eds_error + eds_pass" where
  "first_pass_section lib caps = (\<lambda>(section_name, ps) p.
     case parse_section_index section_name of
       None \<Rightarrow> Inr p
     | Some (index, subindex) \<Rightarrow>
         if skipped_index index then Inr p
         else (case subindex of
           Some sub \<Rightarrow> Inr (p\<lparr>ep_record_subs := subs_push index (sub, ps) (ep_record_subs p)\<rparr>)
         | None \<Rightarrow>
             (let obj_type = object_type ps;
                  p = p\<lparr>ep_obj_types := (index, obj_type) # ep_obj_types p\<rparr>
              in if obj_type = 0x07 then
                   (case parse_var_entry lib index 0 ps caps of
                      Inl e \<Rightarrow> Inl e
                    | Inr None \<Rightarrow> Inr p
                    | Inr (Some entry) \<Rightarrow>
                        Inr (p\<lparr>ep_entries := ep_entries p @ [\<lparr>ee_index = index, ee_name = es_name entry, ee_kind = EdsVar (es_var entry)\<rparr>]\<rparr>))
                 else Inr p)))"

fun first_pass :: "eds_lib \<Rightarrow> overrides \<Rightarrow> sections \<Rightarrow> eds_pass \<Rightarrow> eds_error + eds_pass" where
  "first_pass lib caps [] p = Inr p"
| "first_pass lib caps (sec # secs) p =
     (case first_pass_section lib caps sec p of Inl e \<Rightarrow> Inl e | Inr p' \<Rightarrow> first_pass lib caps secs p')"

text \<open>The second pass: records and arrays from their sub-index sections.\<close>

fun sub_entries_of ::
  "eds_lib \<Rightarrow> overrides \<Rightarrow> u16 \<Rightarrow> (u8 \<times> props) list \<Rightarrow> eds_error + eds_sub list" where
  "sub_entries_of lib caps index [] = Inr []"
| "sub_entries_of lib caps index ((subindex, ps) # subs) =
     (if subindex = 0 then sub_entries_of lib caps index subs
      else (case parse_var_entry lib index subindex ps caps of
         Inl e \<Rightarrow> Inl e
       | Inr r \<Rightarrow>
           (case sub_entries_of lib caps index subs of
              Inl e \<Rightarrow> Inl e
            | Inr es \<Rightarrow> Inr (case r of None \<Rightarrow> es | Some e \<Rightarrow> e # es))))"

definition main_name :: "sections \<Rightarrow> u16 \<Rightarrow> string" where
  "main_name secs index =
     or_text (Option.bind (List.find (\<lambda>(name, _). parse_section_index name = Some (index, None)) secs)
         (\<lambda>(_, ps). get_prop ps ''ParameterName''))
       (''obj_'' @ (let s = show_radix 16 (uint index) in replicate (4 - length s) (CHR ''0'') @ s))"

text \<open>The token text of a default; only a literal can have one of the texts of zero.\<close>

definition lit_tokens :: "rust_expr \<Rightarrow> string option" where
  "lit_tokens e = (case e of
     ELit (LitInt token suffix n) \<Rightarrow> Some (token @ suffix)
   | ELit (LitFloat token digits) \<Rightarrow> Some token
   | ELit (LitBool b) \<Rightarrow> Some (if b then ''true'' else ''false'')
   | _ \<Rightarrow> None)"

definition zero_default :: "eds_sub \<Rightarrow> bool" where
  "zero_default s = (case ev_default (es_var s) of
     None \<Rightarrow> True
   | Some e \<Rightarrow> lit_tokens e \<in> Some ` {''0'', ''0x00'', ''0i32'', ''0u32'', ''0.0f32'', ''0.0f64'', ''false''})"

definition assemble :: "string \<Rightarrow> int \<Rightarrow> u16 \<Rightarrow> eds_sub list \<Rightarrow> eds_entry" where
  "assemble name obj_type index subs =
     (let sorted = sort_key es_subindex subs;
          prefixed = map (\<lambda>s. s\<lparr>es_name := sanitize_name name @ ''_'' @ es_name s\<rparr>) sorted;
          elements = filter (\<lambda>s. es_subindex s > 0) prefixed;
          use_array = (obj_type = 0x08 \<and> length elements \<ge> 4 \<and> list_all zero_default elements)
      in \<lparr>ee_index = index, ee_name = sanitize_name name,
          ee_kind = (case (use_array, elements) of
             (True, first # _) \<Rightarrow> EdsArray \<lparr>ea_type = ev_type (es_var first), ea_capacity = ev_capacity (es_var first),
                ea_count = length elements, ea_access = ev_access (es_var first), ea_pdo_mappable = ev_pdo_mappable (es_var first)\<rparr>
           | _ \<Rightarrow> EdsRecord prefixed)\<rparr>)"

fun second_pass ::
  "eds_lib \<Rightarrow> overrides \<Rightarrow> sections \<Rightarrow> (u16 \<times> int) list \<Rightarrow> (u16 \<times> (u8 \<times> props) list) list \<Rightarrow> eds_error + eds_entry list" where
  "second_pass lib caps secs types [] = Inr []"
| "second_pass lib caps secs types ((index, subs) # rest) =
     (case sub_entries_of lib caps index subs of
        Inl e \<Rightarrow> Inl e
      | Inr es \<Rightarrow>
          (case second_pass lib caps secs types rest of
             Inl e \<Rightarrow> Inl e
           | Inr entries \<Rightarrow> Inr (if es = [] then entries
               else assemble (main_name secs index) (case map_of types index of Some t \<Rightarrow> t | None \<Rightarrow> 0x09) index es # entries)))"

section \<open>PDOs\<close>

text \<open>\<open>format!("{:04X}")\<close> and \<open>format!("{:04X}sub{:X}")\<close>\<close>

definition index_key :: "u16 \<Rightarrow> string" where
  "index_key index = show_upper_hex 4 (uint index)"

definition sub_key :: "u16 \<Rightarrow> u8 \<Rightarrow> string" where
  "sub_key index sub = index_key index @ ''sub'' @ show_upper_hex 0 (uint sub)"

definition parse_pdo_cob_id :: "string \<Rightarrow> cob_id_spec option" where
  "parse_pdo_cob_id value =
     (let v = trim value;
          number = (\<lambda>s. case parse_int s of Some n \<Rightarrow> if n < 2 ^ 32 then Some (word_of_int n :: u32) else None | None \<Rightarrow> None)
      in if eq_ignore_ascii_case v ''$NODEID'' then Some (NodeRelative 0)
         else (case split_once ''+'' v of
            Some (l, r) \<Rightarrow>
              (let l = trim l; r = trim r in
               if eq_ignore_ascii_case l ''$NODEID'' then map_option NodeRelative (number r)
               else if eq_ignore_ascii_case r ''$NODEID'' then map_option NodeRelative (number l)
               else None)
          | None \<Rightarrow> map_option Absolute (number v)))"

definition default_text :: "props option \<Rightarrow> string option" where
  "default_text ps = (case Option.bind ps (\<lambda>ps. get_prop ps ''DefaultValue'') of
     None \<Rightarrow> None | Some raw \<Rightarrow> if trim raw = [] then None else Some raw)"

definition parse_pdo_cob_id_default :: "props option \<Rightarrow> u16 \<Rightarrow> eds_error + cob_id_spec option" where
  "parse_pdo_cob_id_default ps index =
     (case default_text ps of
        None \<Rightarrow> Inr None
      | Some raw \<Rightarrow> (case parse_pdo_cob_id raw of Some c \<Rightarrow> Inr (Some c) | None \<Rightarrow> Inl (BadPdoCobId raw index)))"

text \<open>The value and the width of its wire type are integers here.\<close>

definition parse_pdo_default :: "nat \<Rightarrow> props option \<Rightarrow> int \<Rightarrow> u16 \<Rightarrow> u8 \<Rightarrow> string \<Rightarrow> eds_error + int" where
  "parse_pdo_default bits ps dflt index subindex name =
     (case default_text ps of
        None \<Rightarrow> Inr dflt
      | Some raw \<Rightarrow>
          (case parse_int raw of
             None \<Rightarrow> Inl (BadPdoValue name raw index subindex)
           | Some n \<Rightarrow> if n < 2 ^ bits then Inr n else Inl (PdoValueRange name raw index subindex)))"

definition parse_pdo_mapping_count :: "props option \<Rightarrow> u16 \<Rightarrow> eds_error + int" where
  "parse_pdo_mapping_count ps index =
     (case parse_pdo_default 8 ps 0 index 0 ''PDO mapping count'' of
        Inl e \<Rightarrow> Inl e
      | Inr count \<Rightarrow> if count > 64 then Inl (TooManyMappings count index) else Inr count)"

definition validate_pdo_transmission_type :: "u8 \<Rightarrow> pdo_direction \<Rightarrow> u16 \<Rightarrow> eds_error + unit" where
  "validate_pdo_transmission_type v dir index =
     (if 241 \<le> v \<and> v \<le> 251 then Inl (ReservedTransmissionType v index)
      else if dir = DirRpdo \<and> (v = 252 \<or> v = 253) then Inl (RtrTransmissionType v index)
      else Inr ())"

definition mapping_kind_from_access :: "string option \<Rightarrow> mapping_kind" where
  "mapping_kind_from_access access =
     (case access of
        None \<Rightarrow> Mutable
      | Some a \<Rightarrow> (let l = to_lowercase a in if l = ''ro'' \<or> l = ''const'' then Immutable else Mutable))"

text \<open>\<open>resolve_mapping\<close>: the definition of the mapping, and the entries with the mapped one marked.\<close>

fun mark_sub :: "u8 \<Rightarrow> eds_sub list \<Rightarrow> (string \<times> eds_sub list) option" where
  "mark_sub mapped_sub [] = None"
| "mark_sub mapped_sub (s # subs) =
     (if es_subindex s = mapped_sub
      then Some (es_name s, s\<lparr>es_var := (es_var s)\<lparr>ev_pdo_mappable := True\<rparr>\<rparr> # subs)
      else map_option (\<lambda>(n, ss). (n, s # ss)) (mark_sub mapped_sub subs))"

fun mark_entry :: "u16 \<Rightarrow> u8 \<Rightarrow> eds_entry list \<Rightarrow> (string \<times> eds_entry list) option" where
  "mark_entry mapped_index mapped_sub [] = None"
| "mark_entry mapped_index mapped_sub (e # es) =
     (case (case ee_kind e of
         EdsVar v \<Rightarrow>
           if ee_index e = mapped_index \<and> mapped_sub = 0
           then Some (ee_name e, e\<lparr>ee_kind := EdsVar (v\<lparr>ev_pdo_mappable := True\<rparr>)\<rparr>) else None
       | EdsRecord subs \<Rightarrow>
           if ee_index e = mapped_index
           then map_option (\<lambda>(n, ss). (n, e\<lparr>ee_kind := EdsRecord ss\<rparr>)) (mark_sub mapped_sub subs) else None
       | EdsArray _ \<Rightarrow> None) of
        Some (n, e') \<Rightarrow> Some (n, e' # es)
      | None \<Rightarrow> map_option (\<lambda>(n, es'). (n, e # es')) (mark_entry mapped_index mapped_sub es))"

definition resolve_eds_mapping :: "u32 \<Rightarrow> eds_entry list \<Rightarrow> pdo_mapping_def option \<times> eds_entry list" where
  "resolve_eds_mapping mapping_val entries =
     (let mapped_index = ucast (drop_bit 16 mapping_val) :: u16;
          mapped_sub = ucast (drop_bit 8 mapping_val AND 0xFF) :: u8;
          bit_length = ucast mapping_val :: u8
      in if 0x0001 \<le> mapped_index \<and> mapped_index \<le> 0x0007
         then (Some \<lparr>pmd_field = ''__dummy_mapping'', pmd_bit_length = Some bit_length, pmd_raw = Some mapping_val\<rparr>, entries)
         else (case mark_entry mapped_index mapped_sub entries of
            Some (n, entries') \<Rightarrow> (Some \<lparr>pmd_field = n, pmd_bit_length = Some bit_length, pmd_raw = None\<rparr>, entries')
          | None \<Rightarrow> (None, entries)))"

fun read_eds_mappings ::
  "sections \<Rightarrow> u16 \<Rightarrow> u8 list \<Rightarrow> eds_entry list \<Rightarrow> eds_error + (pdo_mapping_def list \<times> eds_entry list)" where
  "read_eds_mappings secs map_idx [] entries = Inr ([], entries)"
| "read_eds_mappings secs map_idx (sub # subs) entries =
     (case parse_pdo_default 32 (find_section secs (sub_key map_idx sub)) 0 map_idx sub ''PDO mapping descriptor'' of
        Inl e \<Rightarrow> Inl e
      | Inr val \<Rightarrow>
          (let (m, entries) = (if val \<noteq> 0 then resolve_eds_mapping (word_of_int val) entries else (None, entries)) in
           case read_eds_mappings secs map_idx subs entries of
             Inl e \<Rightarrow> Inl e
           | Inr (ms, entries) \<Rightarrow> Inr (case m of None \<Rightarrow> ms | Some m \<Rightarrow> m # ms, entries)))"

text \<open>
  One PDO number of either loop of \<open>extract_pdos\<close>; RPDOs have no inhibit time. \<open>None\<close>: there is
  no communication section.
\<close>

definition extract_pdo ::
  "sections \<Rightarrow> pdo_direction \<Rightarrow> u16 \<Rightarrow> eds_entry list \<Rightarrow> eds_error + (pdo_def option \<times> eds_entry list)" where
  "extract_pdo secs dir n entries =
     (let comm_idx = (if dir = DirTpdo then 0x1800 else 0x1400) + n;
          map_idx = (if dir = DirTpdo then 0x1A00 else 0x1600) + n;
          comm = (\<lambda>sub. find_section secs (sub_key comm_idx sub))
      in if find_section secs (index_key comm_idx) = None then Inr (None, entries)
         else (case parse_pdo_cob_id_default (comm 1) comm_idx of
            Inl e \<Rightarrow> Inl e
          | Inr cob_id \<Rightarrow>
         (case parse_pdo_default 8 (comm 2) 255 comm_idx 2 ''transmission type'' of
            Inl e \<Rightarrow> Inl e
          | Inr tt \<Rightarrow>
         (case validate_pdo_transmission_type (word_of_int tt) dir comm_idx of
            Inl e \<Rightarrow> Inl e
          | Inr _ \<Rightarrow>
         (case (if dir = DirTpdo then parse_pdo_default 16 (comm 3) 0 comm_idx 3 ''inhibit time'' else Inr 0) of
            Inl e \<Rightarrow> Inl e
          | Inr inhibit \<Rightarrow>
         (case parse_pdo_default 16 (comm 5) 0 comm_idx 5 ''event timer'' of
            Inl e \<Rightarrow> Inl e
          | Inr timer \<Rightarrow>
         (case parse_pdo_mapping_count (find_section secs (sub_key map_idx 0)) map_idx of
            Inl e \<Rightarrow> Inl e
          | Inr count \<Rightarrow>
         (case read_eds_mappings secs map_idx (map word_of_nat [1..<nat count + 1]) entries of
            Inl e \<Rightarrow> Inl e
          | Inr (ms, entries) \<Rightarrow>
              Inr (Some \<lparr>pd_direction = dir, pd_number = n + 1, pd_cob_id = cob_id, pd_transmission_type = word_of_int tt,
                pd_inhibit_time = word_of_int inhibit, pd_event_timer = word_of_int timer,
                pd_mapping = mapping_kind_from_access
                  (Option.bind (find_section secs (sub_key map_idx 0)) (\<lambda>ps. get_prop ps ''AccessType'')),
                pd_mappings = ms\<rparr>, entries)))))))))"

fun extract_pdo_numbers ::
  "sections \<Rightarrow> pdo_direction \<Rightarrow> u16 list \<Rightarrow> eds_entry list \<Rightarrow> eds_error + (pdo_def list \<times> eds_entry list)" where
  "extract_pdo_numbers secs dir [] entries = Inr ([], entries)"
| "extract_pdo_numbers secs dir (n # ns) entries =
     (case extract_pdo secs dir n entries of
        Inl e \<Rightarrow> Inl e
      | Inr (p, entries) \<Rightarrow>
          (case extract_pdo_numbers secs dir ns entries of
             Inl e \<Rightarrow> Inl e
           | Inr (ps, entries) \<Rightarrow> Inr (case p of None \<Rightarrow> ps | Some p \<Rightarrow> p # ps, entries)))"

definition pdo_slots :: "u16 list" where
  "pdo_slots = map word_of_nat [0..<512]"

definition extract_pdos :: "sections \<Rightarrow> eds_entry list \<Rightarrow> eds_error + (pdo_def list \<times> eds_entry list)" where
  "extract_pdos secs entries =
     (case extract_pdo_numbers secs DirTpdo pdo_slots entries of
        Inl e \<Rightarrow> Inl e
      | Inr (tpdos, entries) \<Rightarrow>
          (case extract_pdo_numbers secs DirRpdo pdo_slots entries of
             Inl e \<Rightarrow> Inl e
           | Inr (rpdos, entries) \<Rightarrow> Inr (tpdos @ rpdos, entries)))"

section \<open>The file\<close>

definition parse_eds_sections ::
  "eds_lib \<Rightarrow> overrides \<Rightarrow> sections \<Rightarrow> eds_error + (eds_entry list \<times> pdo_def list)" where
  "parse_eds_sections lib caps secs =
     (case validate_unique_object_sections secs [] of
        Inl e \<Rightarrow> Inl e
      | Inr _ \<Rightarrow>
     (case validate_data_types secs of
        Inl e \<Rightarrow> Inl e
      | Inr _ \<Rightarrow>
     (case first_pass lib caps secs \<lparr>ep_entries = [], ep_record_subs = [], ep_obj_types = []\<rparr> of
        Inl e \<Rightarrow> Inl e
      | Inr p \<Rightarrow>
     (case second_pass lib caps secs (ep_obj_types p) (ep_record_subs p) of
        Inl e \<Rightarrow> Inl e
      | Inr records \<Rightarrow>
     (case extract_pdos secs (sort_key ee_index (ep_entries p @ records)) of
        Inl e \<Rightarrow> Inl e
      | Inr (pdos, entries) \<Rightarrow> Inr (entries, pdos))))))"

definition parse_eds_content_with_overrides ::
  "eds_lib \<Rightarrow> overrides \<Rightarrow> string \<Rightarrow> eds_error + (eds_entry list \<times> pdo_def list)" where
  "parse_eds_content_with_overrides lib caps content = parse_eds_sections lib caps (parse_ini_sections content)"

end
