(* ===== verification/Eds_Export.thy ===== *)
theory Eds_Export
  imports Eds_Parser "HOL-Library.Signed_Division"
begin

unbundle bit_operations_syntax

text \<open>
  The export of a dictionary definition as an electronic data sheet
  (\<open>canopen-derive/src/eds_export.rs\<close>). Each \<open>write_*\<close> function is the list of lines it writes;
  \<open>generate_eds\<close> ends every line with a line feed. \<open>None\<close> is a panic of the macro: a PDO mapping
  that does not resolve, or an \<open>unwrap\<close> of a missing entry. The parsing and printing of floating
  point numbers are the record \<open>float_lib\<close>.
\<close>

section \<open>Data\<close>

record eds_def =
  ed_name :: string
  ed_entries :: "eds_entry list"
  ed_pdos :: "pdo_def list"
  ed_sdo_servers :: "sdo_server_def list"

record flat_eds_entry =
  fe_index :: u16
  fe_subindex :: u8
  fe_name :: string
  fe_type :: data_type
  fe_default :: string
  fe_access :: access_type
  fe_pdo_mappable :: bool

record float_lib =
  fl_parse :: "string \<Rightarrow> u64 option"
  fl_show :: "u64 \<Rightarrow> string"

definition type_to_eds_code :: "data_type \<Rightarrow> u16" where
  "type_to_eds_code t = (case t of
     Boolean \<Rightarrow> 0x0001 | I8 \<Rightarrow> 0x0002 | I16 \<Rightarrow> 0x0003 | I32 \<Rightarrow> 0x0004 | U8 \<Rightarrow> 0x0005 | U16 \<Rightarrow> 0x0006
   | U32 \<Rightarrow> 0x0007 | I24 \<Rightarrow> 0x0010 | U24 \<Rightarrow> 0x0016 | Real32 \<Rightarrow> 0x0008 | Real64 \<Rightarrow> 0x0011
   | VisibleString \<Rightarrow> 0x0009 | OctetString \<Rightarrow> 0x000A | Domain \<Rightarrow> 0x000F | I64 \<Rightarrow> 0x0015 | U64 \<Rightarrow> 0x001B)"

definition access_to_eds :: "access_type \<Rightarrow> string" where
  "access_to_eds access = (case access of Ro \<Rightarrow> ''ro'' | Const \<Rightarrow> ''const'' | Rw \<Rightarrow> ''rw'' | Wo \<Rightarrow> ''wo'')"

section \<open>Defaults\<close>

text \<open>
  \<open>i128\<close> arithmetic: the checked operations give \<open>None\<close> outside the range, a left shift drops the
  bits beyond it; the negation of the least value wraps (a panic where overflow checks are on).
\<close>

definition i128_checked :: "int \<Rightarrow> int option" where
  "i128_checked x = (if - (2 ^ 127) \<le> x \<and> x < 2 ^ 127 then Some x else None)"

definition i128_wrap :: "int \<Rightarrow> int" where
  "i128_wrap x = (x + 2 ^ 127) mod 2 ^ 128 - 2 ^ 127"

definition eval_bin :: "bin_op \<Rightarrow> int \<Rightarrow> int \<Rightarrow> int option" where
  "eval_bin op l r = (case op of
     OpAdd \<Rightarrow> i128_checked (l + r)
   | OpSub \<Rightarrow> i128_checked (l - r)
   | OpMul \<Rightarrow> i128_checked (l * r)
   | OpDiv \<Rightarrow> if r = 0 then None else i128_checked (l sdiv r)
   | OpRem \<Rightarrow> if r = 0 \<or> l = - (2 ^ 127) \<and> r = -1 then None else Some (l smod r)
   | OpBitOr \<Rightarrow> Some (l OR r)
   | OpBitAnd \<Rightarrow> Some (l AND r)
   | OpBitXor \<Rightarrow> Some (l XOR r)
   | OpShl \<Rightarrow> if 0 \<le> r \<and> r < 128 then Some (i128_wrap (l * 2 ^ nat r)) else None
   | OpShr \<Rightarrow> if 0 \<le> r \<and> r < 128 then Some (l div 2 ^ nat r) else None
   | OpOther \<Rightarrow> None)"

fun eval_int :: "rust_expr \<Rightarrow> int option" where
  "eval_int (ELit lit) = (case lit of
     LitInt token suffix n \<Rightarrow> if n < 2 ^ 127 then Some n else None
   | LitBool b \<Rightarrow> Some (of_bool b)
   | LitByte b \<Rightarrow> Some (uint b)
   | _ \<Rightarrow> None)"
| "eval_int (EParen e) = eval_int e"
| "eval_int (EGroup e) = eval_int e"
| "eval_int (ECast e) = eval_int e"
| "eval_int (ENeg e) = map_option (\<lambda>v. i128_wrap (- v)) (eval_int e)"
| "eval_int (ENot e) = map_option (\<lambda>v. NOT v) (eval_int e)"
| "eval_int (EBinary op l r) = do { l \<leftarrow> eval_int l; r \<leftarrow> eval_int r; eval_bin op l r }"
| "eval_int EOther = None"

text \<open>A float is its bit pattern; its negation flips the sign bit.\<close>

fun eval_float :: "float_lib \<Rightarrow> rust_expr \<Rightarrow> u64 option" where
  "eval_float lib (ELit lit) = (case lit of
     LitFloat token digits \<Rightarrow> fl_parse lib digits
   | LitInt token suffix n \<Rightarrow> fl_parse lib (show_int n)
   | _ \<Rightarrow> None)"
| "eval_float lib (EParen e) = eval_float lib e"
| "eval_float lib (ENeg e) = map_option (\<lambda>v. v XOR 0x8000000000000000) (eval_float lib e)"
| "eval_float lib _ = None"

definition computed_default :: "rust_expr \<Rightarrow> string" where
  "computed_default e = (case eval_int e of
     Some v \<Rightarrow> if v < 0 then show_int v else ''0x'' @ show_upper_hex 0 v
   | None \<Rightarrow> [])"

text \<open>The token of an integer literal keeps its spelling, minus the separators and the suffix.\<close>

definition eds_default :: "float_lib \<Rightarrow> eds_var \<Rightarrow> string" where
  "eds_default lib var = (case ev_default var of
     None \<Rightarrow> []
   | Some e \<Rightarrow>
       (case e of
          ELit (LitStr s) \<Rightarrow> s
        | ELit (LitBool b) \<Rightarrow> if b then ''1'' else ''0''
        | ELit (LitFloat token digits) \<Rightarrow> digits
        | _ \<Rightarrow>
            if ev_type var = Real32 \<or> ev_type var = Real64
            then (case eval_float lib e of Some v \<Rightarrow> fl_show lib v | None \<Rightarrow> [])
            else (case e of
               ELit (LitInt token suffix n) \<Rightarrow>
                 (let text = filter (\<lambda>c. c \<noteq> CHR ''_'') token in
                  if \<not> starts_with ''0b'' text \<and> \<not> starts_with ''0o'' text then text else computed_default e)
             | _ \<Rightarrow> computed_default e)))"

section \<open>Flattening\<close>

definition flat_of :: "float_lib \<Rightarrow> u16 \<Rightarrow> u8 \<Rightarrow> string \<Rightarrow> eds_var \<Rightarrow> flat_eds_entry" where
  "flat_of lib index subindex name v = \<lparr>fe_index = index, fe_subindex = subindex, fe_name = name, fe_type = ev_type v,
     fe_default = eds_default lib v, fe_access = ev_access v, fe_pdo_mappable = ev_pdo_mappable v\<rparr>"

definition flat_element :: "eds_entry \<Rightarrow> eds_array \<Rightarrow> nat \<Rightarrow> flat_eds_entry" where
  "flat_element e a sub = \<lparr>fe_index = ee_index e, fe_subindex = of_nat sub,
     fe_name = ee_name e @ ''_'' @ show_int (int sub), fe_type = ea_type a,
     fe_default = (if ea_capacity a \<noteq> None then [] else ''0''), fe_access = ea_access a,
     fe_pdo_mappable = ea_pdo_mappable a\<rparr>"

fun flatten_for_eds :: "float_lib \<Rightarrow> eds_entry list \<Rightarrow> flat_eds_entry list" where
  "flatten_for_eds lib [] = []"
| "flatten_for_eds lib (e # es) = (case ee_kind e of
     EdsVar v \<Rightarrow> [flat_of lib (ee_index e) 0 (ee_name e) v]
   | EdsRecord subs \<Rightarrow> map (\<lambda>s. flat_of lib (ee_index e) (es_subindex s) (es_name s) (es_var s)) subs
   | EdsArray a \<Rightarrow> map (flat_element e a) [1..<Suc (ea_count a)]) @ flatten_for_eds lib es"

definition flat_find :: "flat_eds_entry list \<Rightarrow> u16 \<Rightarrow> u8 \<Rightarrow> flat_eds_entry option" where
  "flat_find flat index sub = List.find (\<lambda>f. fe_index f = index \<and> fe_subindex f = sub) flat"

text \<open>The definition as the code generator flattens it: the mappings do not depend on the defaults.\<close>

definition codegen_var :: "eds_var \<Rightarrow> var_def" where
  "codegen_var v = \<lparr>vd_type = ev_type v, vd_access = ev_access v, vd_pdo_mappable = ev_pdo_mappable v,
     vd_capacity = ev_capacity v, vd_default = None\<rparr>"

definition codegen_entry :: "eds_entry \<Rightarrow> od_def_entry" where
  "codegen_entry e = \<lparr>de_index = ee_index e, de_name = ee_name e, de_kind = (case ee_kind e of
       EdsVar v \<Rightarrow> VarEntry (codegen_var v)
     | EdsRecord subs \<Rightarrow> RecordEntry (map (\<lambda>s. (es_subindex s, es_name s, codegen_var (es_var s))) subs)
     | EdsArray a \<Rightarrow> ArrayEntry \<lparr>ad_type = ea_type a, ad_count = ea_count a, ad_access = ea_access a,
         ad_pdo_mappable = ea_pdo_mappable a\<rparr>)\<rparr>"

section \<open>Lines\<close>

definition header_line :: "string \<Rightarrow> string" where "header_line name = ''['' @ name @ '']''"

definition write_index_list :: "string \<Rightarrow> u16 list \<Rightarrow> string list" where
  "write_index_list section indices =
     [header_line section, ''SupportedObjects='' @ show_int (int (length indices))]
     @ map (\<lambda>(i, idx). show_int (int (i + 1)) @ ''=0x'' @ show_upper_hex 4 (uint idx)) (List.enumerate 0 indices)
     @ [[]]"

definition write_var_props :: "flat_eds_entry \<Rightarrow> u8 \<Rightarrow> string list" where
  "write_var_props fe obj_type =
     [''ParameterName='' @ fe_name fe,
      ''ObjectType=0x'' @ show_upper_hex 0 (uint obj_type),
      ''DataType=0x'' @ show_upper_hex 4 (uint (type_to_eds_code (fe_type fe))),
      ''AccessType='' @ access_to_eds (fe_access fe),
      ''DefaultValue='' @ fe_default fe,
      ''PDOMapping='' @ (if fe_pdo_mappable fe then ''1'' else ''0'')]"

definition write_record_header :: "u16 \<Rightarrow> string \<Rightarrow> u8 \<Rightarrow> string list" where
  "write_record_header index name sub_number =
     [header_line (index_key index), ''ParameterName='' @ name, ''ObjectType=0x9'',
      ''SubNumber='' @ show_int (uint sub_number), []]"

definition write_pdo_sub :: "u16 \<Rightarrow> u8 \<Rightarrow> string \<Rightarrow> u16 \<Rightarrow> string \<Rightarrow> string \<Rightarrow> string list" where
  "write_pdo_sub index subindex name data_type access default_value =
     [header_line (sub_key index subindex), ''ParameterName='' @ name, ''ObjectType=0x7'',
      ''DataType=0x'' @ show_upper_hex 4 (uint data_type), ''AccessType='' @ access,
      ''DefaultValue='' @ default_value, ''PDOMapping=0'', []]"

definition write_pdo_sub_limits :: "u8 \<Rightarrow> u8 \<Rightarrow> string list" where
  "write_pdo_sub_limits low_limit high_limit =
     [''LowLimit='' @ show_int (uint low_limit), ''HighLimit='' @ show_int (uint high_limit)]"

definition cob_id_spec_eds :: "cob_id_spec \<Rightarrow> string" where
  "cob_id_spec_eds spec = (case spec of
     Absolute i \<Rightarrow> ''0x'' @ show_upper_hex 0 (uint i)
   | NodeRelative base \<Rightarrow> ''$NODEID+0x'' @ show_upper_hex 0 (uint base))"

text \<open>Defined for the PDO numbers 1 to 4.\<close>

definition predefined_base :: "pdo_direction \<Rightarrow> u16 \<Rightarrow> u16" where
  "predefined_base dir number = (case dir of DirTpdo \<Rightarrow> 0x180 | DirRpdo \<Rightarrow> 0x200) + 0x100 * (number - 1)"

definition predefined_pdo_cob_id :: "pdo_direction \<Rightarrow> u16 \<Rightarrow> string" where
  "predefined_pdo_cob_id dir number = ''$NODEID+0x'' @ show_upper_hex 0 (uint (predefined_base dir number))"

definition pdo_cob_id_default :: "pdo_def \<Rightarrow> string" where
  "pdo_cob_id_default p = (case pd_cob_id p of
     Some spec \<Rightarrow> cob_id_spec_eds spec
   | None \<Rightarrow> predefined_pdo_cob_id (pd_direction p) (pd_number p))"

definition write_sdo_server_eds :: "sdo_server_def \<Rightarrow> string list" where
  "write_sdo_server_eds s =
     (let idx = 0x1200 + (sd_number s - 1) in
      write_record_header idx ''SDO Server Parameter'' 3
      @ write_pdo_sub idx 0 ''Highest sub-index supported'' 0x0005 ''ro'' ''2''
      @ write_pdo_sub idx 1 ''COB-ID Client to Server (Receive SDO)'' 0x0007 ''ro'' (cob_id_spec_eds (sd_cob_rx s))
      @ write_pdo_sub idx 2 ''COB-ID Server to Client (Transmit SDO)'' 0x0007 ''ro'' (cob_id_spec_eds (sd_cob_tx s)))"

definition exported_mapping_slots :: "mapping_kind \<Rightarrow> pdo_mapping list \<Rightarrow> u8" where
  "exported_mapping_slots kind ms = (case kind of Mutable \<Rightarrow> of_nat PDO_MAX_MAPPINGS | Immutable \<Rightarrow> of_nat (length ms))"

definition mapping_default :: "pdo_mapping list \<Rightarrow> nat \<Rightarrow> string" where
  "mapping_default ms sub = (if sub - 1 < length ms then ''0x'' @ show_upper_hex 8 (uint (to_mapping_value (ms ! (sub - 1))))
     else ''0x00000000'')"

definition write_pdo_mapping_eds :: "u16 \<Rightarrow> string \<Rightarrow> mapping_kind \<Rightarrow> pdo_mapping list \<Rightarrow> string list" where
  "write_pdo_mapping_eds index name kind ms =
     (let access = (case kind of Mutable \<Rightarrow> ''rw'' | Immutable \<Rightarrow> ''const'');
          slots = exported_mapping_slots kind ms
      in write_record_header index name (slots + 1)
         @ [header_line (sub_key index 0), ''ParameterName=Number of Mapped Objects'', ''ObjectType=0x7'', ''DataType=0x0005'',
            ''AccessType='' @ access, ''DefaultValue=0x'' @ show_upper_hex 0 (int (length ms)), ''PDOMapping=0'']
         @ (if kind = Mutable then write_pdo_sub_limits 0 slots else [])
         @ [[]]
         @ concat (map (\<lambda>sub. write_pdo_sub index (of_nat sub) (''Mapping Entry '' @ show_int (int sub)) 0x0007 access
                      (mapping_default ms sub)) [1..<Suc (unat slots)]))"

definition pdo_prefix :: "pdo_direction \<Rightarrow> string" where
  "pdo_prefix dir = (case dir of DirTpdo \<Rightarrow> ''TPDO'' | DirRpdo \<Rightarrow> ''RPDO'')"

definition write_pdo_eds :: "pdo_def \<Rightarrow> pdo_mapping list \<Rightarrow> string list" where
  "write_pdo_eds p ms =
     (let comm_idx = comm_index p; map_idx = map_index p; is_tpdo = (pd_direction p = DirTpdo);
          label = pdo_prefix (pd_direction p) @ show_int (uint (pd_number p))
      in write_record_header comm_idx (label @ '' Communication'') (if is_tpdo then 5 else 4)
         @ write_pdo_sub comm_idx 0 ''Number of Entries'' 0x0005 ''ro'' ''5''
         @ write_pdo_sub comm_idx 1 ''COB-ID'' 0x0007 ''rw'' (pdo_cob_id_default p)
         @ write_pdo_sub comm_idx 2 ''Transmission Type'' 0x0005 ''rw'' (''0x'' @ show_upper_hex 0 (uint (pd_transmission_type p)))
         @ (if is_tpdo then write_pdo_sub comm_idx 3 ''Inhibit Time'' 0x0006 ''rw'' (''0x'' @ show_upper_hex 0 (uint (pd_inhibit_time p)))
            else [])
         @ write_pdo_sub comm_idx 5 ''Event Timer'' 0x0006 ''rw'' (''0x'' @ show_upper_hex 0 (uint (pd_event_timer p)))
         @ write_pdo_mapping_eds map_idx (label @ '' Mapping'') (pd_mapping p) ms)"

section \<open>The objects\<close>

definition write_count :: "u16 \<Rightarrow> int \<Rightarrow> string list" where
  "write_count index n =
     [header_line (sub_key index 0), ''ParameterName=Number of Entries'', ''ObjectType=0x7'', ''DataType=0x0005'',
      ''AccessType=ro'', ''DefaultValue='' @ show_int n, ''PDOMapping=0'', []]"

text \<open>The section of one sub-index; its number is printed as it is counted, before it is cut to a byte.\<close>

definition write_element :: "flat_eds_entry list \<Rightarrow> u16 \<Rightarrow> int \<Rightarrow> string list option" where
  "write_element flat index sub =
     map_option (\<lambda>fe. header_line (index_key index @ ''sub'' @ show_upper_hex 0 sub) # write_var_props fe 0x07 @ [[]])
       (flat_find flat index (word_of_int sub))"

definition max_sub :: "eds_sub list \<Rightarrow> u8" where
  "max_sub subs = foldr (\<lambda>s m. max (es_subindex s) m) subs 0"

definition write_object :: "flat_eds_entry list \<Rightarrow> eds_entry \<Rightarrow> string list option" where
  "write_object flat e = (case ee_kind e of
     EdsVar v \<Rightarrow>
       map_option (\<lambda>fe. header_line (index_key (ee_index e)) # write_var_props fe 0x07 @ [[]]) (flat_find flat (ee_index e) 0)
   | EdsRecord subs \<Rightarrow>
       map_option (\<lambda>ls. [header_line (index_key (ee_index e)), ''ParameterName='' @ ee_name e, ''ObjectType=0x9'',
           ''SubNumber='' @ show_int (int (length subs) + 1), []] @ write_count (ee_index e) (uint (max_sub subs)) @ concat ls)
         (those (map (\<lambda>s. write_element flat (ee_index e) (uint (es_subindex s))) subs))
   | EdsArray a \<Rightarrow>
       map_option (\<lambda>ls. [header_line (index_key (ee_index e)), ''ParameterName='' @ ee_name e, ''ObjectType=0x8'',
           ''SubNumber='' @ show_int (int (ea_count a) + 1), []] @ write_count (ee_index e) (int (ea_count a)) @ concat ls)
         (those (map (\<lambda>sub. write_element flat (ee_index e) (int sub)) [1..<Suc (ea_count a)])))"

section \<open>The file\<close>

definition file_info :: "eds_def \<Rightarrow> string list" where
  "file_info od = [''[FileInfo]'', ''FileName='' @ ed_name od @ ''.eds'', ''FileVersion=1'',
     ''CreatedBy=canopen-rs (object_dictionary! macro)'', []]"

definition identity :: "flat_eds_entry list \<Rightarrow> u8 \<Rightarrow> string" where
  "identity flat sub = (case flat_find flat 0x1018 sub of Some f \<Rightarrow> fe_default f | None \<Rightarrow> [])"

definition device_info :: "eds_def \<Rightarrow> flat_eds_entry list \<Rightarrow> string list" where
  "device_info od flat =
     [''[DeviceInfo]'', ''VendorName='', ''VendorNumber='' @ identity flat 1, ''ProductName='' @ ed_name od,
      ''ProductNumber='' @ identity flat 2, ''RevisionNumber='' @ identity flat 3]
     @ map (\<lambda>rate. ''BaudRate_'' @ rate @ ''=1'') [''10'', ''20'', ''50'', ''125'', ''250'', ''500'', ''800'', ''1000'']
     @ [''SimpleBootUpMaster=0'', ''SimpleBootUpSlave=1'', ''Granularity=1'', ''DynamicChannelsSupported=0'', ''GroupMessaging=0'',
        ''NrOfRXPDO='' @ show_int (int (length (filter (\<lambda>p. pd_direction p = DirRpdo) (ed_pdos od)))),
        ''NrOfTXPDO='' @ show_int (int (length (filter (\<lambda>p. pd_direction p = DirTpdo) (ed_pdos od)))),
        ''LSS_Supported=1'', []]"

definition sorted_dedup :: "u16 list \<Rightarrow> u16 list" where "sorted_dedup xs = remdups_adj (sort xs)"

definition mandatory_indices :: "u16 list" where "mandatory_indices = [0x1000, 0x1001, 0x1018]"

definition index_lists :: "eds_def \<Rightarrow> string list" where
  "index_lists od =
     (let user = sorted_dedup (map ee_index (ed_entries od));
          pdo = sorted_dedup (concat (map (\<lambda>p. [comm_index p, map_index p]) (ed_pdos od)));
          sdo = sorted_dedup (map (\<lambda>s. 0x1200 + (sd_number s - 1)) (ed_sdo_servers od));
          mandatory = filter (\<lambda>i. i \<in> set mandatory_indices) user;
          opt = sorted_dedup (filter (\<lambda>i. i < 0x2000 \<and> i \<notin> set mandatory_indices) user @ pdo @ sdo @ [0x1021, 0x1022]);
          manufacturer = filter (\<lambda>i. i \<ge> 0x2000 \<and> i < 0x6000) user;
          standardised = filter (\<lambda>i. i \<ge> 0x6000) user
      in write_index_list ''MandatoryObjects'' mandatory
         @ write_index_list ''OptionalObjects'' opt
         @ write_index_list ''ManufacturerObjects'' manufacturer
         @ (if standardised \<noteq> [] then write_index_list ''StandardizedObjects'' standardised else []))"

definition self_description :: "string list" where
  "self_description =
     [''[1021]'', ''ParameterName=Store EDS'', ''ObjectType=0x7'', ''DataType=0x000F'', ''AccessType=ro'', ''PDOMapping=0'', [],
      ''[1022]'', ''ParameterName=Store Format'', ''ObjectType=0x7'', ''DataType=0x0005'', ''AccessType=ro'', ''DefaultValue=0x80'',
      ''PDOMapping=0'', []]"

definition exported_mappings :: "eds_def \<Rightarrow> pdo_def \<Rightarrow> pdo_mapping list option" where
  "exported_mappings od p = resolve_pdo_mappings (flatten False (map codegen_entry (ed_entries od))) p"

definition eds_lines :: "float_lib \<Rightarrow> eds_def \<Rightarrow> string list option" where
  "eds_lines lib od = do {
     let flat = flatten_for_eds lib (ed_entries od);
     objects \<leftarrow> those (map (write_object flat) (ed_entries od));
     pdos \<leftarrow> those (map (\<lambda>p. map_option (write_pdo_eds p) (exported_mappings od p)) (ed_pdos od));
     Some (file_info od @ device_info od flat @ index_lists od @ concat objects @ concat pdos
       @ concat (map write_sdo_server_eds (ed_sdo_servers od)) @ self_description)
   }"

definition generate_eds :: "float_lib \<Rightarrow> eds_def \<Rightarrow> string option" where
  "generate_eds lib od = map_option (\<lambda>ls. concat (map (\<lambda>l. l @ [CHR 0x0A]) ls)) (eds_lines lib od)"

end
