(* ===== verification/Eds_Text.thy ===== *)
theory Eds_Text
  imports Eds_Export
begin

text \<open>
  The text of a data sheet as sections: rendered sections are read back by the INI reader, printed
  hexadecimal numbers by the number parser, and the names of object sections by the address parser.
\<close>

section \<open>Rendered sections\<close>

definition sec_lines :: "string \<times> props \<Rightarrow> string list" where
  "sec_lines s = header_line (fst s) # map (\<lambda>(k, v). k @ ''='' @ v) (snd s) @ [[]]"

definition render :: "string list \<Rightarrow> string" where
  "render ls = concat (map (\<lambda>l. l @ [CHR 0x0A]) ls)"

text \<open>Text that survives: a value is trimmed and stays on its line.\<close>

definition clean :: "string \<Rightarrow> bool" where
  "clean v \<longleftrightarrow> CHR 0x0A \<notin> set v \<and> trim v = v"

definition clean_key :: "string \<Rightarrow> bool" where
  "clean_key k \<longleftrightarrow> k \<noteq> [] \<and> (\<forall>c\<in>set k. \<not> is_ws c \<and> c \<noteq> CHR ''='' \<and> c \<noteq> CHR ''['' \<and> c \<noteq> CHR '';'')"

definition clean_section :: "string \<times> props \<Rightarrow> bool" where
  "clean_section s \<longleftrightarrow> fst s \<noteq> [] \<and> CHR 0x0A \<notin> set (fst s) \<and> list_all (\<lambda>(k, v). clean_key k \<and> clean v) (snd s)"

lemma trim_ends: "trim s = s \<longleftrightarrow> s = [] \<or> \<not> is_ws (hd s) \<and> \<not> is_ws (last s)"
proof (cases s)
  case (Cons c cs)
  have "length (trim s) \<le> length (dropWhile is_ws s)"
    using length_dropWhile_le [of is_ws "rev (dropWhile is_ws s)"] by (simp add: trim_def trim_start_def trim_end_def)
  moreover have "length (dropWhile is_ws s) \<le> length cs" if "is_ws c"
    using that Cons length_dropWhile_le [of is_ws cs] by simp
  ultimately have h: "trim s = s \<Longrightarrow> \<not> is_ws c" using Cons by auto
  have d: "dropWhile is_ws s = s" if "\<not> is_ws c" using that Cons by simp
  have "rev (dropWhile is_ws (rev s)) = s \<longleftrightarrow> dropWhile is_ws (rev s) = rev s" by (metis rev_rev_ident)
  then have "rev (dropWhile is_ws (rev s)) = s \<longleftrightarrow> \<not> is_ws (last s)"
    using Cons by (simp only: dropWhile_eq_self_iff hd_rev) simp
  then show ?thesis using h d Cons by (auto simp: trim_def trim_start_def trim_end_def)
qed (simp add: trim_def trim_start_def trim_end_def)

lemma split_once_key:
  "c \<notin> set k \<Longrightarrow> split_once [c] (k @ c # v) = Some (k, v)"
  by (induction k) (auto simp: starts_with_def)

lemma ini_prop_line:
  assumes "clean_key k" and "clean v"
  shows "ini_line (k @ ''='' @ v) (secs, cur, ps) = (secs, cur, ps @ [(k, v)])"
proof -
  have k: "k \<noteq> []" "trim k = k" "CHR ''='' \<notin> set k" "\<not> is_ws (hd k)" "hd k \<noteq> CHR ''[''" "hd k \<noteq> CHR '';''"
    using assms(1) by (auto simp: clean_key_def intro: trim_no_ws)
  have "trim v = v" using assms(2) by (simp add: clean_def)
  moreover have "\<not> is_ws (last (k @ ''='' @ v))"
    using trim_ends [of v] \<open>trim v = v\<close> by (cases "v = []") (auto simp: is_ws_def)
  then have "trim (k @ ''='' @ v) = k @ ''='' @ v" using k by (simp add: trim_ends)
  ultimately show ?thesis
    using k split_once_key [OF k(3)] by (simp add: ini_line_def starts_with_single Let_def)
qed

lemma ini_prop_lines:
  "list_all (\<lambda>(k, v). clean_key k \<and> clean v) qs \<Longrightarrow>
   fold ini_line (map (\<lambda>(k, v). k @ ''='' @ v) qs) (secs, cur, ps) = (secs, cur, ps @ qs)"
proof (induction qs arbitrary: ps)
  case (Cons q qs)
  obtain k v where "q = (k, v)" by (cases q)
  then show ?case using Cons ini_prop_line [of k v secs cur ps] by simp
qed simp

lemma ini_header: "ini_line (header_line n) (secs, cur, ps) = (if cur \<noteq> [] then (secs @ [(cur, ps)], n, []) else (secs, n, ps))"
proof -
  have "trim (header_line n) = header_line n" by (simp add: trim_ends header_line_def is_ws_def)
  then show ?thesis by (simp add: ini_line_def header_line_def starts_with_def butlast_append)
qed

lemma ini_section:
  assumes "clean_section s"
  shows "fold ini_line (sec_lines s) (secs, cur, ps)
    = ((if cur \<noteq> [] then secs @ [(cur, ps)] else secs), fst s, (if cur \<noteq> [] then [] else ps) @ snd s)"
proof -
  have b: "ini_line [] st = st" for st by (cases st) (simp add: ini_line_def trim_def trim_start_def trim_end_def)
  show ?thesis using ini_prop_lines [of "snd s"] assms
    by (simp add: sec_lines_def ini_header b clean_section_def)
qed

lemma ini_sections:
  "\<forall>s\<in>set ss. clean_section s \<Longrightarrow> cur \<noteq> [] \<Longrightarrow>
   (case fold ini_line (concat (map sec_lines ss)) (secs, cur, ps) of (secs', cur', ps') \<Rightarrow>
      if cur' \<noteq> [] then secs' @ [(cur', ps')] else secs') = secs @ (cur, ps) # ss"
proof (induction ss arbitrary: secs cur ps)
  case (Cons s ss)
  obtain n qs where s: "s = (n, qs)" by (cases s)
  then have "n \<noteq> []" using Cons.prems by (simp add: clean_section_def)
  then show ?case using Cons ini_section [of s secs cur ps] by (simp add: s)
qed simp

lemma render_lines:
  assumes "\<forall>l\<in>set ls. CHR 0x0A \<notin> set l \<and> (l = [] \<or> \<not> is_ws (last l))"
  shows "str_lines (render ls) = ls"
proof -
  have "chop_cr l = l" if "l \<in> set ls" for l
    using assms that unfolding chop_cr_def by (auto simp: is_ws_def)
  then have "map chop_cr ls = ls" by (intro map_idI)
  then show ?thesis using assms by (simp add: str_lines_def render_def split_lines)
qed

lemma is_ws_eol: "is_ws (CHR 0x0A)" "is_ws (CHR 0x0D)"
  by (simp_all add: is_ws_def)

lemma section_lines_clean:
  assumes "clean_section s" and "l \<in> set (sec_lines s)"
  shows "CHR 0x0A \<notin> set l \<and> (l = [] \<or> \<not> is_ws (last l))"
proof -
  consider "l = header_line (fst s)" | k v where "(k, v) \<in> set (snd s)" "l = k @ ''='' @ v" | "l = []"
    using assms(2) by (auto simp: sec_lines_def)
  then show ?thesis
  proof cases
    case 1
    then show ?thesis using assms(1) by (simp add: header_line_def clean_section_def is_ws_def)
  next
    case 2
    then have "clean_key k" "clean v" using assms(1) by (auto simp: clean_section_def list_all_iff)
    then have "CHR 0x0A \<notin> set k" "CHR 0x0A \<notin> set v" "v = [] \<or> \<not> is_ws (last v)"
      using trim_ends [of v] unfolding clean_key_def clean_def by (blast intro: is_ws_eol)+
    moreover have "\<not> is_ws (CHR ''='')" by (simp add: is_ws_def)
    ultimately show ?thesis unfolding 2 by auto
  qed simp
qed

theorem parse_rendered_sections:
  assumes "\<forall>s\<in>set ss. clean_section s"
  shows "parse_ini_sections (render (concat (map sec_lines ss))) = ss"
proof -
  have "str_lines (render (concat (map sec_lines ss))) = concat (map sec_lines ss)"
    using section_lines_clean assms by (intro render_lines) fastforce
  moreover have "(case fold ini_line (concat (map sec_lines ss)) ([], [], []) of (secs', cur', ps') \<Rightarrow>
      if cur' \<noteq> [] then secs' @ [(cur', ps')] else secs') = ss"
  proof (cases ss)
    case (Cons s ss')
    have "fst s \<noteq> []" using assms Cons by (simp add: clean_section_def)
    then show ?thesis using ini_sections [of ss' "fst s" "[]" "snd s"] ini_section [of s "[]" "[]" "[]"] assms Cons by simp
  qed simp
  ultimately show ?thesis by (simp add: parse_ini_sections_def)
qed

section \<open>Upper-case hexadecimal numbers\<close>

lemma of_char_int: "m < 256 \<Longrightarrow> (of_char (char_of m :: char) :: int) = int m" for m :: nat
proof -
  assume "m < 256"
  have "(of_char (char_of m :: char) :: int) = int (of_char (char_of m :: char))" by (simp only: of_nat_of_char)
  then show ?thesis using \<open>m < 256\<close> by (simp only: of_char_of mod_less)
qed

lemma to_digit_upper: "to_digit r (ascii_upper c) = to_digit r c"
proof -
  define k :: nat where "k = of_char c"
  have n: "(of_char c :: int) = int k" by (simp only: k_def of_nat_of_char)
  show ?thesis
  proof (cases "97 \<le> k \<and> k \<le> 122")
    case True
    then have "ascii_upper c = char_of (k - 32)" by (simp add: ascii_upper_def k_def)
    moreover have "k - 32 < 256" using True by linarith
    ultimately have "(of_char (ascii_upper c) :: int) = int (k - 32)" by (simp only: of_char_int)
    then show ?thesis using True unfolding to_digit_def n Let_def by auto
  qed (auto simp: ascii_upper_def k_def Let_def)
qed

lemma parse_digits_upper: "parse_digits b r acc (map ascii_upper s) = parse_digits b r acc s"
  by (induction b r acc s rule: parse_digits.induct) (simp_all add: to_digit_upper Let_def split: bind_split)

lemma parse_digits_zeros: "0 < b \<Longrightarrow> 1 < r \<Longrightarrow> parse_digits b r 0 (replicate k (CHR ''0'') @ s) = parse_digits b r 0 s"
  by (induction k) (simp_all add: to_digit_def)

lemma show_upper_hex_digits: "0 \<le> n \<Longrightarrow> c \<in> set (show_upper_hex w n) \<Longrightarrow> to_digit 16 c \<noteq> None"
  using show_radix_digits [of 16 n] by (auto simp: show_upper_hex_def Let_def to_digit_upper to_digit_def [of 16 "CHR ''0''"])

lemma show_upper_hex_nonempty [simp]: "show_upper_hex w n \<noteq> []"
  by (simp add: show_upper_hex_def Let_def)

lemma from_str_upper_hex:
  assumes "0 \<le> n"
  shows "from_str_radix bits 16 (show_upper_hex w n) = (if n < 2 ^ bits then Some n else None)"
proof -
  have "hd (show_upper_hex w n) \<noteq> CHR ''+''"
    using show_upper_hex_digits [OF assms hd_in_set] digit_not_special(2) [of 16] by simp
  then show ?thesis using parse_show_radix [of 16 n] assms
    by (simp add: from_str_radix_def starts_with_single) (simp add: show_upper_hex_def Let_def parse_digits_zeros parse_digits_upper)
qed

lemma prefixed_hex_chars:
  assumes "0 \<le> n" and "c \<in> set (''0x'' @ show_upper_hex w n)"
  shows "\<not> is_ws c \<and> c \<noteq> CHR ''+'' \<and> c \<noteq> CHR ''$''"
proof -
  consider "c = CHR ''0''" | "c = CHR ''x''" | "to_digit 16 c \<noteq> None"
    using assms(2) show_upper_hex_digits [OF assms(1), of c w] by auto
  then show ?thesis using digit_not_special [of 16 c] by cases (simp_all add: is_ws_def)
qed

lemma parse_upper_hex:
  assumes "0 \<le> n"
  shows "parse_hex_or_dec bits (''0x'' @ show_upper_hex w n) = (if n < 2 ^ bits then Some n else None)"
proof -
  have "trim (''0x'' @ show_upper_hex w n) = ''0x'' @ show_upper_hex w n"
    using prefixed_hex_chars [OF assms] by (intro trim_no_ws) blast
  then show ?thesis using from_str_upper_hex [OF assms]
    by (simp add: parse_hex_or_dec_def hex_prefix_def strip_prefix_def)
qed

lemma clean_no_ws: "\<forall>c\<in>set s. \<not> is_ws c \<Longrightarrow> clean s"
  using is_ws_eol(1) trim_no_ws [of s] unfolding clean_def by blast

lemma clean_hex: "0 \<le> n \<Longrightarrow> clean (''0x'' @ show_upper_hex w n)"
  using prefixed_hex_chars [of n _ w] by (intro clean_no_ws) blast

lemma clean_show_int: "clean (show_int n)"
  using show_int_no_ws by (intro clean_no_ws) blast

section \<open>Section names\<close>

lemma lower_upper: "ascii_lower (ascii_upper c) = ascii_lower c"
proof -
  define k :: nat where "k = of_char c"
  show ?thesis
  proof (cases "97 \<le> k \<and> k \<le> 122")
    case True
    then have u: "ascii_upper c = char_of (k - 32)" by (simp add: ascii_upper_def k_def)
    have "(k - 32) mod 256 = k - 32" using True by (intro mod_less) linarith
    then have "(of_char (char_of (k - 32) :: char) :: nat) = k - 32" by (simp only: of_char_of)
    moreover have "65 \<le> k - 32 \<and> k - 32 \<le> 90" using True by linarith
    ultimately have "ascii_lower (ascii_upper c) = char_of (k - 32 + 32)"
      unfolding u ascii_lower_def Let_def by simp
    moreover have "ascii_lower c = c" using True by (simp add: ascii_lower_def k_def)
    ultimately show ?thesis using True by (simp add: k_def)
  qed (auto simp: ascii_upper_def k_def Let_def)
qed

lemma lower_show_upper_hex: "0 \<le> n \<Longrightarrow> to_lowercase (show_upper_hex w n) = replicate (w - length (show_radix 16 n)) (CHR ''0'') @ show_radix 16 n"
  using lower_hex_digits [of n] by (simp add: show_upper_hex_def Let_def to_lowercase_def lower_upper ascii_lower_def [of "CHR ''0''"] comp_def)

lemma from_str_lower_hex: "0 \<le> n \<Longrightarrow> from_str_radix bits 16 (to_lowercase (show_upper_hex w n)) = (if n < 2 ^ bits then Some n else None)"
proof -
  assume n: "0 \<le> n"
  let ?z = "replicate (w - length (show_radix 16 n)) (CHR ''0'') @ show_radix 16 n"
  have "to_digit 16 c \<noteq> None" if "c \<in> set ?z" for c
    using that show_radix_digits [of 16 n c] n by (auto simp: to_digit_def [of 16 "CHR ''0''"])
  then have "hd ?z \<noteq> CHR ''+''" using digit_not_special(2) [of 16] hd_in_set [of ?z] by simp
  then show ?thesis using parse_show_radix [of 16 n] n
    by (simp add: from_str_radix_def starts_with_single lower_show_upper_hex parse_digits_zeros)
qed

lemma no_s_hex: "0 \<le> n \<Longrightarrow> CHR ''s'' \<notin> set (to_lowercase (show_upper_hex w n))"
  using show_radix_digits [of 16 n "CHR ''s''"] digit_not_special(9) [of 16 "CHR ''s''"] by (auto simp: lower_show_upper_hex)

lemma split_once_sub: "CHR ''s'' \<notin> set a \<Longrightarrow> split_once ''sub'' (a @ ''sub'' @ b) = Some (a, b)"
  by (induction a) (auto simp: starts_with_def)

lemma parse_index_key: "0x1000 \<le> i \<Longrightarrow> parse_section_index (index_key i) = Some (i, None)"
proof -
  assume i: "0x1000 \<le> i"
  have "split_once ''sub'' (to_lowercase (index_key i)) = None"
    using no_s_hex [of "uint i" 4] by (intro split_once_None) (simp_all add: index_key_def)
  moreover have "uint i < 2 ^ 16" using unsigned_less [of i] by simp
  moreover have "0x1000 \<le> uint i" using i by (simp add: word_le_def)
  ultimately show ?thesis using from_str_lower_hex [of "uint i" 16 4] by (simp add: parse_section_index_def index_key_def)
qed

lemma parse_sub_key: "parse_section_index (sub_key i s) = Some (i, Some s)"
proof -
  have "to_lowercase (sub_key i s) = to_lowercase (index_key i) @ ''sub'' @ to_lowercase (show_upper_hex 0 (uint s))"
    by (simp add: sub_key_def to_lowercase_def ascii_lower_def)
  then have "split_once ''sub'' (to_lowercase (sub_key i s)) = Some (to_lowercase (index_key i), to_lowercase (show_upper_hex 0 (uint s)))"
    using no_s_hex [of "uint i" 4] by (simp only: split_once_sub index_key_def uint_ge_0 not_False_eq_True)
  moreover have "uint i < 2 ^ 16" "uint s < 2 ^ 8" using unsigned_less [of i] unsigned_less [of s] by simp_all
  ultimately show ?thesis
    using from_str_lower_hex [of "uint i" 16 4] from_str_lower_hex [of "uint s" 8 0] by (simp add: parse_section_index_def index_key_def)
qed

text \<open>Sections at object addresses.\<close>

type_synonym addressed = "((u16 \<times> u8 option) \<times> props) list"

definition key_of :: "u16 \<times> u8 option \<Rightarrow> string" where
  "key_of a = (case snd a of None \<Rightarrow> index_key (fst a) | Some s \<Rightarrow> sub_key (fst a) s)"

definition valid_address :: "u16 \<times> u8 option \<Rightarrow> bool" where
  "valid_address a \<longleftrightarrow> snd a = None \<longrightarrow> 0x1000 \<le> fst a"

definition named :: "addressed \<Rightarrow> sections" where
  "named xs = map (\<lambda>(a, ps). (key_of a, ps)) xs"

lemma parse_key_of: "valid_address a \<Longrightarrow> parse_section_index (key_of a) = Some a"
  by (cases a) (auto simp: valid_address_def key_of_def parse_index_key parse_sub_key split: option.splits)

lemma same_address: "eq_ignore_ascii_case m n \<Longrightarrow> parse_section_index m = parse_section_index n"
  by (simp add: parse_section_index_def eq_ignore_ascii_case_def to_lowercase_def)

lemma key_of_eq: "valid_address a \<Longrightarrow> valid_address b \<Longrightarrow> eq_ignore_ascii_case (key_of a) (key_of b) \<longleftrightarrow> a = b"
  using same_address [of "key_of a" "key_of b"] parse_key_of [of a] parse_key_of [of b] by (auto simp: eq_ignore_ascii_case_def)

lemma find_named:
  assumes "valid_address a"
  shows "\<forall>x\<in>set xs. valid_address (fst x) \<Longrightarrow> find_section (named xs) (key_of a) = map_of xs a"
proof (induction xs)
  case (Cons x xs)
  obtain b ps where x: "x = (b, ps)" by (cases x)
  then have "eq_ignore_ascii_case (key_of b) (key_of a) \<longleftrightarrow> b = a" using Cons.prems assms by (simp add: key_of_eq)
  then show ?case using Cons by (simp add: find_section_def named_def x)
qed (simp add: find_section_def named_def)

lemma find_section_skip:
  "\<forall>s\<in>set pre. parse_section_index (fst s) = None \<Longrightarrow> valid_address a \<Longrightarrow>
   find_section (pre @ secs) (key_of a) = find_section secs (key_of a)"
  by (induction pre) (use same_address [of _ "key_of a"] parse_key_of [of a] in \<open>fastforce simp: find_section_def\<close>)+

end
