(* ===== verification/Eds_Sections.thy ===== *)
theory Eds_Sections
  imports Eds_Text
begin

text \<open>
  The file that \<open>generate_eds\<close> writes, as sections: a group of descriptive sections, then the sections of
  the objects, PDOs and SDO servers at their addresses. On a definition with clean names and defaults the
  INI reader returns exactly these sections.
\<close>

section \<open>Sections of the writers\<close>

definition alines :: "addressed \<Rightarrow> string list" where
  "alines xs = concat (map sec_lines (named xs))"

lemma alines_append [simp]: "alines (xs @ ys) = alines xs @ alines ys"
  by (simp add: alines_def named_def)

lemma alines_Nil [simp]: "alines [] = []"
  by (simp add: alines_def named_def)

lemma alines_Cons: "alines ((a, ps) # xs) = sec_lines (key_of a, ps) @ alines xs"
  by (simp add: alines_def named_def)

lemma alines_concat: "alines (concat xss) = concat (map alines xss)"
  by (induction xss) simp_all

definition header_props :: "string \<Rightarrow> string \<Rightarrow> int \<Rightarrow> props" where
  "header_props name obj n = [(''ParameterName'', name), (''ObjectType'', obj), (''SubNumber'', show_int n)]"

definition sub_props :: "string \<Rightarrow> u16 \<Rightarrow> string \<Rightarrow> string \<Rightarrow> string \<Rightarrow> props" where
  "sub_props name data_type access dflt pdo = [(''ParameterName'', name), (''ObjectType'', ''0x7''),
     (''DataType'', ''0x'' @ show_upper_hex 4 (uint data_type)), (''AccessType'', access), (''DefaultValue'', dflt),
     (''PDOMapping'', pdo)]"

definition var_props :: "flat_eds_entry \<Rightarrow> props" where
  "var_props fe = sub_props (fe_name fe) (type_to_eds_code (fe_type fe)) (access_to_eds (fe_access fe)) (fe_default fe)
     (if fe_pdo_mappable fe then ''1'' else ''0'')"

definition mapping_access :: "mapping_kind \<Rightarrow> string" where
  "mapping_access kind = (case kind of Mutable \<Rightarrow> ''rw'' | Immutable \<Rightarrow> ''const'')"

definition mapping_asecs :: "u16 \<Rightarrow> string \<Rightarrow> mapping_kind \<Rightarrow> pdo_mapping list \<Rightarrow> addressed" where
  "mapping_asecs index name kind ms =
     (let slots = exported_mapping_slots kind ms in
      ((index, None), header_props name ''0x9'' (uint (slots + 1)))
      # ((index, Some 0), sub_props ''Number of Mapped Objects'' 0x0005 (mapping_access kind)
            (''0x'' @ show_upper_hex 0 (int (length ms))) ''0''
          @ (if kind = Mutable then [(''LowLimit'', show_int 0), (''HighLimit'', show_int (uint slots))] else []))
      # map (\<lambda>sub. ((index, Some (of_nat sub)), sub_props (''Mapping Entry '' @ show_int (int sub)) 0x0007 (mapping_access kind)
                      (mapping_default ms sub) ''0'')) [1..<Suc (unat slots)])"

definition pdo_label :: "pdo_def \<Rightarrow> string" where
  "pdo_label p = pdo_prefix (pd_direction p) @ show_int (uint (pd_number p))"

definition comm_asecs :: "pdo_def \<Rightarrow> addressed" where
  "comm_asecs p =
     (let i = comm_index p; tpdo = (pd_direction p = DirTpdo) in
      [((i, None), header_props (pdo_label p @ '' Communication'') ''0x9'' (if tpdo then 5 else 4)),
       ((i, Some 0), sub_props ''Number of Entries'' 0x0005 ''ro'' ''5'' ''0''),
       ((i, Some 1), sub_props ''COB-ID'' 0x0007 ''rw'' (pdo_cob_id_default p) ''0''),
       ((i, Some 2), sub_props ''Transmission Type'' 0x0005 ''rw'' (''0x'' @ show_upper_hex 0 (uint (pd_transmission_type p))) ''0'')]
      @ (if tpdo then [((i, Some 3), sub_props ''Inhibit Time'' 0x0006 ''rw'' (''0x'' @ show_upper_hex 0 (uint (pd_inhibit_time p))) ''0'')] else [])
      @ [((i, Some 5), sub_props ''Event Timer'' 0x0006 ''rw'' (''0x'' @ show_upper_hex 0 (uint (pd_event_timer p))) ''0'')])"

definition pdo_asecs :: "pdo_def \<Rightarrow> pdo_mapping list \<Rightarrow> addressed" where
  "pdo_asecs p ms = comm_asecs p @ mapping_asecs (map_index p) (pdo_label p @ '' Mapping'') (pd_mapping p) ms"

definition sdo_asecs :: "sdo_server_def \<Rightarrow> addressed" where
  "sdo_asecs s =
     (let i = 0x1200 + (sd_number s - 1) in
      [((i, None), header_props ''SDO Server Parameter'' ''0x9'' 3),
       ((i, Some 0), sub_props ''Highest sub-index supported'' 0x0005 ''ro'' ''2'' ''0''),
       ((i, Some 1), sub_props ''COB-ID Client to Server (Receive SDO)'' 0x0007 ''ro'' (cob_id_spec_eds (sd_cob_rx s)) ''0''),
       ((i, Some 2), sub_props ''COB-ID Server to Client (Transmit SDO)'' 0x0007 ''ro'' (cob_id_spec_eds (sd_cob_tx s)) ''0'')])"

definition count_asec :: "u16 \<Rightarrow> int \<Rightarrow> (u16 \<times> u8 option) \<times> props" where
  "count_asec i n = ((i, Some 0), sub_props ''Number of Entries'' 0x0005 ''ro'' (show_int n) ''0'')"

definition element_asec :: "flat_eds_entry list \<Rightarrow> u16 \<Rightarrow> u8 \<Rightarrow> ((u16 \<times> u8 option) \<times> props) option" where
  "element_asec flat i s = map_option (\<lambda>fe. ((i, Some s), var_props fe)) (flat_find flat i s)"

definition object_asecs :: "flat_eds_entry list \<Rightarrow> eds_entry \<Rightarrow> addressed option" where
  "object_asecs flat e = (case ee_kind e of
     EdsVar v \<Rightarrow> map_option (\<lambda>fe. [((ee_index e, None), var_props fe)]) (flat_find flat (ee_index e) 0)
   | EdsRecord subs \<Rightarrow>
       map_option (\<lambda>xs. ((ee_index e, None), header_props (ee_name e) ''0x9'' (int (length subs) + 1))
           # count_asec (ee_index e) (uint (max_sub subs)) # xs)
         (those (map (\<lambda>s. element_asec flat (ee_index e) (es_subindex s)) subs))
   | EdsArray a \<Rightarrow>
       map_option (\<lambda>xs. ((ee_index e, None), header_props (ee_name e) ''0x8'' (int (ea_count a) + 1))
           # count_asec (ee_index e) (int (ea_count a)) # xs)
         (those (map (\<lambda>s. element_asec flat (ee_index e) (of_nat s)) [1..<Suc (ea_count a)])))"

definition self_asecs :: addressed where
  "self_asecs =
     [((0x1021, None), [(''ParameterName'', ''Store EDS''), (''ObjectType'', ''0x7''), (''DataType'', ''0x000F''),
         (''AccessType'', ''ro''), (''PDOMapping'', ''0'')]),
      ((0x1022, None), sub_props ''Store Format'' 0x0005 ''ro'' ''0x80'' ''0'')]"

lemma show_codes:
  "show_upper_hex 4 5 = ''0005''" "show_upper_hex 4 6 = ''0006''" "show_upper_hex 4 7 = ''0007''"
  "show_upper_hex 0 7 = ''7''" "show_upper_hex 4 0x1021 = ''1021''" "show_upper_hex 4 0x1022 = ''1022''"
  "show_int 3 = ''3''" "show_int 2 = ''2''" "show_int 5 = ''5''" "show_int 4 = ''4''" "show_int 0 = ''0''"
  by code_simp+

lemma write_record_header_lines: "write_record_header i name n = sec_lines (key_of (i, None), header_props name ''0x9'' (uint n))"
  by (simp add: write_record_header_def sec_lines_def key_of_def header_props_def)

lemma write_pdo_sub_lines: "write_pdo_sub i s name dt access dv = sec_lines (key_of (i, Some s), sub_props name dt access dv ''0'')"
  by (simp add: write_pdo_sub_def sec_lines_def key_of_def sub_props_def)

lemma write_var_lines: "header_line n # write_var_props fe 0x07 @ [[]] = sec_lines (n, var_props fe)"
  by (simp add: write_var_props_def sec_lines_def var_props_def sub_props_def show_codes)

lemma write_count_lines: "write_count i n = sec_lines (key_of (i, Some 0), snd (count_asec i n))"
  by (simp add: write_count_def count_asec_def sec_lines_def key_of_def sub_props_def show_codes)

lemma concat_sec_lines: "concat (map (\<lambda>x. sec_lines (key_of (f x), g x)) xs) = alines (map (\<lambda>x. (f x, g x)) xs)"
  by (induction xs) (simp_all add: alines_Cons)

lemma write_mapping_lines: "write_pdo_mapping_eds i name kind ms = alines (mapping_asecs i name kind ms)"
proof -
  have "concat (map (\<lambda>sub. write_pdo_sub i (of_nat sub) (''Mapping Entry '' @ show_int (int sub)) 0x0007 access (mapping_default ms sub)) xs)
    = alines (map (\<lambda>sub. ((i, Some (of_nat sub)), sub_props (''Mapping Entry '' @ show_int (int sub)) 0x0007 access (mapping_default ms sub) ''0'')) xs)"
    for access xs by (simp only: write_pdo_sub_lines concat_sec_lines)
  then show ?thesis
    by (cases kind)
      (simp_all add: write_pdo_mapping_eds_def mapping_asecs_def Let_def alines_Cons write_record_header_lines mapping_access_def
        sub_props_def [of "''Number of Mapped Objects''"] show_codes key_of_def sec_lines_def write_pdo_sub_limits_def)
qed

lemma write_pdo_lines: "write_pdo_eds p ms = alines (pdo_asecs p ms)"
  by (simp add: write_pdo_eds_def pdo_asecs_def comm_asecs_def Let_def alines_Cons write_record_header_lines write_pdo_sub_lines
      write_mapping_lines pdo_label_def)

lemma write_sdo_lines: "write_sdo_server_eds s = alines (sdo_asecs s)"
  by (simp add: write_sdo_server_eds_def sdo_asecs_def Let_def alines_Cons write_record_header_lines write_pdo_sub_lines)

lemma self_lines: "self_description = alines self_asecs"
  by (simp add: self_description_def self_asecs_def alines_Cons sec_lines_def header_line_def key_of_def index_key_def sub_props_def show_codes)

text \<open>Options in lists.\<close>

lemma those_map_option: "those (map (\<lambda>x. map_option g (f x)) xs) = map_option (map g) (those (map f xs))"
  by (induction xs) (auto simp: option.map_comp comp_def split: option.splits)

lemma those_map_Some: "those (map f xs) = Some ys \<longleftrightarrow> (\<forall>x\<in>set xs. f x \<noteq> None) \<and> ys = map (\<lambda>x. the (f x)) xs"
  by (induction xs arbitrary: ys) (auto split: option.splits)

lemma write_element_lines:
  assumes "0 \<le> n" and "n < 256"
  shows "write_element flat i n = map_option (\<lambda>x. alines [x]) (element_asec flat i (word_of_int n))"
proof -
  have "uint (word_of_int n :: u8) = n" using assms by (simp add: uint_word_of_int take_bit_eq_mod)
  then show ?thesis
    by (simp add: write_element_def element_asec_def write_var_lines option.map_comp comp_def alines_Cons key_of_def sub_key_def)
qed

lemma uint_byte: "uint (b :: u8) < 256"
  using unsigned_less [of b] by simp

definition array_fits :: "eds_entry \<Rightarrow> bool" where
  "array_fits e = (case ee_kind e of EdsArray a \<Rightarrow> ea_count a < 255 | _ \<Rightarrow> True)"

lemma alines_map: "concat (map (\<lambda>x. alines [x]) xs) = alines xs"
  by (induction xs) (simp_all add: alines_def named_def)

lemma those_elements:
  assumes "\<forall>x\<in>set xs. 0 \<le> f x \<and> f x < 256"
  shows "those (map (\<lambda>x. write_element flat i (f x)) xs)
    = map_option (map (\<lambda>x. alines [x])) (those (map (\<lambda>x. element_asec flat i (word_of_int (f x))) xs))"
proof -
  have "map (\<lambda>x. write_element flat i (f x)) xs = map (\<lambda>x. map_option (\<lambda>x. alines [x]) (element_asec flat i (word_of_int (f x)))) xs"
    using assms by (intro map_cong [OF refl]) (simp add: write_element_lines)
  then show ?thesis by (simp only: those_map_option)
qed

lemma write_object_lines:
  assumes "array_fits e"
  shows "write_object flat e = map_option alines (object_asecs flat e)"
proof (cases "ee_kind e")
  case (EdsVar v)
  then show ?thesis
    by (simp add: write_object_def object_asecs_def option.map_comp comp_def alines_Cons write_var_lines key_of_def)
next
  case (EdsRecord subs)
  have t: "those (map (\<lambda>s. write_element flat (ee_index e) (uint (es_subindex s))) subs)
    = map_option (map (\<lambda>x. alines [x])) (those (map (\<lambda>s. element_asec flat (ee_index e) (es_subindex s)) subs))"
    using those_elements [of subs "\<lambda>s. uint (es_subindex s)"] uint_byte by simp
  show ?thesis unfolding write_object_def object_asecs_def EdsRecord eds_kind.case t
    by (simp add: option.map_comp comp_def alines_map)
      (simp add: alines_Cons count_asec_def write_count_lines header_props_def key_of_def sec_lines_def)
next
  case (EdsArray a)
  have t: "those (map (\<lambda>s. write_element flat (ee_index e) (int s)) [1..<Suc (ea_count a)])
    = map_option (map (\<lambda>x. alines [x])) (those (map (\<lambda>s. element_asec flat (ee_index e) (of_nat s)) [1..<Suc (ea_count a)]))"
    using those_elements [of "[1..<Suc (ea_count a)]" int] assms EdsArray by (simp add: array_fits_def del: upt_Suc)
  show ?thesis unfolding write_object_def object_asecs_def EdsArray eds_kind.case t
    by (simp add: option.map_comp comp_def alines_map del: upt_Suc)
      (simp add: alines_Cons count_asec_def write_count_lines header_props_def key_of_def sec_lines_def del: upt_Suc)
qed

section \<open>The sections of the file\<close>

definition index_list_section :: "string \<Rightarrow> u16 list \<Rightarrow> string \<times> props" where
  "index_list_section name indices = (name, (''SupportedObjects'', show_int (int (length indices)))
     # map (\<lambda>(i, idx). (show_int (int (i + 1)), ''0x'' @ show_upper_hex 4 (uint idx))) (List.enumerate 0 indices))"

lemma index_list_lines: "write_index_list name indices = sec_lines (index_list_section name indices)"
  by (simp add: write_index_list_def index_list_section_def sec_lines_def comp_def case_prod_unfold)

definition index_list_sections :: "eds_def \<Rightarrow> sections" where
  "index_list_sections od =
     (let user = sorted_dedup (map ee_index (ed_entries od));
          pdo = sorted_dedup (concat (map (\<lambda>p. [comm_index p, map_index p]) (ed_pdos od)));
          sdo = sorted_dedup (map (\<lambda>s. 0x1200 + (sd_number s - 1)) (ed_sdo_servers od));
          mandatory = filter (\<lambda>i. i \<in> set mandatory_indices) user;
          opt = sorted_dedup (filter (\<lambda>i. i < 0x2000 \<and> i \<notin> set mandatory_indices) user @ pdo @ sdo @ [0x1021, 0x1022]);
          manufacturer = filter (\<lambda>i. i \<ge> 0x2000 \<and> i < 0x6000) user;
          standardised = filter (\<lambda>i. i \<ge> 0x6000) user
      in [index_list_section ''MandatoryObjects'' mandatory, index_list_section ''OptionalObjects'' opt,
          index_list_section ''ManufacturerObjects'' manufacturer]
         @ (if standardised \<noteq> [] then [index_list_section ''StandardizedObjects'' standardised] else []))"

definition info_sections :: "eds_def \<Rightarrow> flat_eds_entry list \<Rightarrow> sections" where
  "info_sections od flat =
     [(''FileInfo'', [(''FileName'', ed_name od @ ''.eds''), (''FileVersion'', ''1''),
        (''CreatedBy'', ''canopen-rs (object_dictionary! macro)'')]),
      (''DeviceInfo'',
        [(''VendorName'', []), (''VendorNumber'', identity flat 1), (''ProductName'', ed_name od),
         (''ProductNumber'', identity flat 2), (''RevisionNumber'', identity flat 3)]
        @ map (\<lambda>rate. (''BaudRate_'' @ rate, ''1'')) [''10'', ''20'', ''50'', ''125'', ''250'', ''500'', ''800'', ''1000'']
        @ [(''SimpleBootUpMaster'', ''0''), (''SimpleBootUpSlave'', ''1''), (''Granularity'', ''1''),
           (''DynamicChannelsSupported'', ''0''), (''GroupMessaging'', ''0''),
           (''NrOfRXPDO'', show_int (int (length (filter (\<lambda>p. pd_direction p = DirRpdo) (ed_pdos od))))),
           (''NrOfTXPDO'', show_int (int (length (filter (\<lambda>p. pd_direction p = DirTpdo) (ed_pdos od))))),
           (''LSS_Supported'', ''1'')])]
     @ index_list_sections od"

lemma info_lines: "file_info od @ device_info od flat @ index_lists od = concat (map sec_lines (info_sections od flat))"
proof -
  have "index_lists od = concat (map sec_lines (index_list_sections od))"
    by (simp add: index_lists_def index_list_sections_def Let_def index_list_lines)
  then show ?thesis
    by (simp add: info_sections_def) (simp add: file_info_def device_info_def sec_lines_def header_line_def)
qed

text \<open>The object part of the file.\<close>

definition file_asecs :: "float_lib \<Rightarrow> eds_def \<Rightarrow> addressed" where
  "file_asecs lib od =
     concat (map (\<lambda>e. the (object_asecs (flatten_for_eds lib (ed_entries od)) e)) (ed_entries od))
     @ concat (map (\<lambda>p. pdo_asecs p (the (exported_mappings od p))) (ed_pdos od))
     @ concat (map sdo_asecs (ed_sdo_servers od)) @ self_asecs"

definition file_sections :: "float_lib \<Rightarrow> eds_def \<Rightarrow> sections" where
  "file_sections lib od = info_sections od (flatten_for_eds lib (ed_entries od)) @ named (file_asecs lib od)"

lemma eds_lines_sections:
  assumes "eds_lines lib od = Some ls" and "\<forall>e\<in>set (ed_entries od). array_fits e"
  shows "ls = concat (map sec_lines (file_sections lib od))"
    and "\<forall>e\<in>set (ed_entries od). object_asecs (flatten_for_eds lib (ed_entries od)) e \<noteq> None"
    and "\<forall>p\<in>set (ed_pdos od). exported_mappings od p \<noteq> None"
proof -
  let ?flat = "flatten_for_eds lib (ed_entries od)"
  obtain objects pdos where o: "those (map (write_object ?flat) (ed_entries od)) = Some objects"
    and p: "those (map (\<lambda>p. map_option (write_pdo_eds p) (exported_mappings od p)) (ed_pdos od)) = Some pdos"
    and ls: "ls = file_info od @ device_info od ?flat @ index_lists od @ concat objects @ concat pdos
       @ concat (map write_sdo_server_eds (ed_sdo_servers od)) @ self_description"
    using assms(1) by (auto simp: eds_lines_def Let_def bind_eq_Some_conv)
  have w: "write_object ?flat e = map_option alines (object_asecs ?flat e)" if "e \<in> set (ed_entries od)" for e
    using write_object_lines assms(2) that by blast
  show n: "\<forall>e\<in>set (ed_entries od). object_asecs ?flat e \<noteq> None"
    using o w by (auto simp: those_map_Some)
  show m: "\<forall>p\<in>set (ed_pdos od). exported_mappings od p \<noteq> None"
    using p by (auto simp: those_map_Some)
  have "objects = map (\<lambda>e. alines (the (object_asecs ?flat e))) (ed_entries od)"
    using o w n by (auto simp: those_map_Some)
  moreover have "pdos = map (\<lambda>p. alines (pdo_asecs p (the (exported_mappings od p)))) (ed_pdos od)"
    using p m by (auto simp: those_map_Some write_pdo_lines)
  ultimately have "ls = concat (map sec_lines (info_sections od ?flat)) @ alines (file_asecs lib od)"
    using info_lines [of od ?flat]
    by (simp add: ls file_asecs_def alines_concat comp_def write_sdo_lines [abs_def] self_lines)
  then show "ls = concat (map sec_lines (file_sections lib od))" by (simp add: file_sections_def alines_def)
qed

section \<open>Clean definitions\<close>

text \<open>
  What the macro guarantees of the names (identifiers) and what is asked of the defaults: no default
  contains a line break or ends in white space. Arrays have at most 254 elements.
\<close>

definition clean_def_text :: "float_lib \<Rightarrow> eds_def \<Rightarrow> bool" where
  "clean_def_text lib od \<longleftrightarrow> clean (ed_name od)
     \<and> list_all (\<lambda>e. clean (ee_name e) \<and> array_fits e) (ed_entries od)
     \<and> list_all (\<lambda>f. clean (fe_name f) \<and> clean (fe_default f)) (flatten_for_eds lib (ed_entries od))"

definition clean_props :: "props \<Rightarrow> bool" where
  "clean_props ps \<longleftrightarrow> list_all (\<lambda>(k, v). clean_key k \<and> clean v) ps"

definition clean_asecs :: "addressed \<Rightarrow> bool" where
  "clean_asecs xs \<longleftrightarrow> list_all (\<lambda>(a, ps). clean_props ps) xs"

lemma clean_asecs_simps [simp]:
  "clean_asecs []" "clean_asecs ((a, ps) # xs) \<longleftrightarrow> clean_props ps \<and> clean_asecs xs"
  "clean_asecs (xs @ ys) \<longleftrightarrow> clean_asecs xs \<and> clean_asecs ys"
  "clean_asecs (concat xss) \<longleftrightarrow> (\<forall>xs\<in>set xss. clean_asecs xs)"
  "clean_asecs (map (\<lambda>x. (f x, g x)) ys) \<longleftrightarrow> (\<forall>y\<in>set ys. clean_props (g y))"
  by (auto simp: clean_asecs_def list_all_iff)

lemma clean_keys [simp]:
  "clean_key ''ParameterName''" "clean_key ''ObjectType''" "clean_key ''SubNumber''" "clean_key ''DataType''"
  "clean_key ''AccessType''" "clean_key ''DefaultValue''" "clean_key ''PDOMapping''" "clean_key ''LowLimit''" "clean_key ''HighLimit''"
  "clean_key ''SupportedObjects''"
  by code_simp+

lemma clean_append:
  "clean a \<Longrightarrow> clean c \<Longrightarrow> a \<noteq> [] \<Longrightarrow> c \<noteq> [] \<Longrightarrow> CHR 0x0A \<notin> set b \<Longrightarrow> clean (a @ b @ c)"
  by (auto simp: clean_def trim_ends)

lemma clean_header_props: "clean name \<Longrightarrow> obj \<in> {''0x9'', ''0x8''} \<Longrightarrow> clean_props (header_props name obj n)"
proof -
  have "clean ''0x9''" "clean ''0x8''" by code_simp+
  then show "clean name \<Longrightarrow> obj \<in> {''0x9'', ''0x8''} \<Longrightarrow> clean_props (header_props name obj n)"
    using clean_show_int by (auto simp: clean_props_def header_props_def)
qed

lemma clean_sub_props:
  assumes "clean name" and "access \<in> {''ro'', ''rw'', ''const'', ''wo''}" and "clean dv" and "pdo \<in> {''0'', ''1''}"
  shows "clean_props (sub_props name dt access dv pdo)"
proof -
  have "clean ''ro''" "clean ''rw''" "clean ''const''" "clean ''wo''" "clean ''0''" "clean ''1''" "clean ''0x7''" by code_simp+
  then have "clean access" "clean pdo" "clean ''0x7''" using assms(2,4) by auto
  then show ?thesis using clean_hex [of "uint dt" 4] assms(1,3) by (simp add: clean_props_def sub_props_def)
qed

lemma clean_var_props: "clean (fe_name f) \<Longrightarrow> clean (fe_default f) \<Longrightarrow> clean_props (var_props f)"
  unfolding var_props_def by (rule clean_sub_props) (auto simp: access_to_eds_def split: access_type.splits)

lemma clean_constants:
  "clean ''Number of Entries''" "clean ''COB-ID''" "clean ''Transmission Type''" "clean ''Inhibit Time''" "clean ''Event Timer''"
  "clean ''Number of Mapped Objects''" "clean ''SDO Server Parameter''" "clean ''Highest sub-index supported''"
  "clean ''COB-ID Client to Server (Receive SDO)''" "clean ''COB-ID Server to Client (Transmit SDO)''"
  "clean ''Store Format''" "clean ''0x80''" "clean ''5''" "clean ''2''" "clean ''TPDO''" "clean ''RPDO''" "clean ''Mapping''"
  "clean ''Communication''" "clean ''0x00000000''" "clean ''Entry''"
  by code_simp+

lemma clean_cob_id: "clean (cob_id_spec_eds spec)" "clean (predefined_pdo_cob_id dir n)"
proof -
  have "clean (''$NODEID+'' @ ''0x'' @ show_upper_hex 0 (uint w))" for w :: "'a::len word"
    using prefixed_hex_chars [of "uint w" _ 0] by (intro clean_no_ws) (auto simp: is_ws_def)
  then show "clean (cob_id_spec_eds spec)" "clean (predefined_pdo_cob_id dir n)"
    using clean_hex [of _ 0] by (auto simp: cob_id_spec_eds_def predefined_pdo_cob_id_def split: cob_id_spec.splits)
qed

lemma clean_label: "w \<in> {''Communication'', ''Mapping''} \<Longrightarrow> clean (pdo_label p @ '' '' @ w)"
proof -
  have "CHR 0x0A \<notin> set (show_int (uint (pd_number p)))" using clean_show_int by (simp add: clean_def)
  then show "w \<in> {''Communication'', ''Mapping''} \<Longrightarrow> clean (pdo_label p @ '' '' @ w)"
    unfolding pdo_label_def append_assoc
    using clean_append [of "pdo_prefix (pd_direction p)" w "show_int (uint (pd_number p)) @ '' ''"] clean_constants
    by (auto simp: pdo_prefix_def split: pdo_direction.splits)
qed

lemma clean_mapping_name: "clean (''Mapping Entry '' @ show_int n)"
  using clean_append [of "''Mapping''" "show_int n" "'' Entry ''"] clean_constants clean_show_int [of n] show_int_trimmed(3) [of n] by simp

lemma clean_mapping_default: "clean (mapping_default ms sub)"
  using clean_hex [of "uint (to_mapping_value (ms ! (sub - 1)))" 8] clean_constants by (simp add: mapping_default_def)

lemma clean_mapping_asecs: "clean name \<Longrightarrow> clean_asecs (mapping_asecs i name kind ms)"
proof -
  assume n: "clean name"
  have a: "mapping_access kind \<in> {''ro'', ''rw'', ''const'', ''wo''}" by (cases kind) (simp_all add: mapping_access_def)
  have "clean_props (sub_props ''Number of Mapped Objects'' 0x0005 (mapping_access kind) (''0x'' @ show_upper_hex 0 (int (length ms))) ''0'')"
    using clean_hex [of "int (length ms)" 0] by (intro clean_sub_props clean_constants a) simp_all
  moreover have "clean_props [(''LowLimit'', show_int 0), (''HighLimit'', show_int x)]" "clean_props []" for x
    using clean_show_int by (simp_all add: clean_props_def)
  moreover have "clean_props (xs @ ys) \<longleftrightarrow> clean_props xs \<and> clean_props ys" for xs ys by (simp add: clean_props_def)
  moreover have "clean_asecs (map (\<lambda>sub. ((i, Some (of_nat sub)), sub_props (''Mapping Entry '' @ show_int (int sub)) 0x0007 (mapping_access kind)
      (mapping_default ms sub) ''0'')) ns)" for ns
    using clean_sub_props [OF clean_mapping_name a clean_mapping_default] by (auto simp: clean_asecs_def list_all_iff)
  ultimately show ?thesis using clean_header_props [OF n]
    unfolding mapping_asecs_def Let_def by (auto simp del: upt_Suc append.simps)
qed

lemma clean_word: "clean (''0x'' @ show_upper_hex k (uint w))"
  by (rule clean_hex) simp

lemma clean_pdo_asecs: "clean_asecs (pdo_asecs p ms)"
proof -
  have "clean (pdo_cob_id_default p)" using clean_cob_id by (simp add: pdo_cob_id_default_def split: option.splits)
  moreover have "clean (pdo_label p @ '' Communication'')" "clean (pdo_label p @ '' Mapping'')"
    using clean_label [of "''Communication''" p] clean_label [of "''Mapping''" p] by simp_all
  ultimately show ?thesis
    unfolding pdo_asecs_def comm_asecs_def Let_def
    by (auto simp del: append.simps intro!: clean_header_props clean_sub_props clean_constants clean_mapping_asecs clean_word)
qed

lemma clean_sdo_asecs: "clean_asecs (sdo_asecs s)"
  by (auto simp: sdo_asecs_def Let_def intro!: clean_header_props clean_sub_props clean_constants clean_cob_id)

lemma clean_self_asecs: "clean_asecs self_asecs"
  by code_simp

lemma flat_find_mem: "flat_find flat i s = Some f \<Longrightarrow> f \<in> set flat"
  by (auto simp: flat_find_def find_Some_iff intro: nth_mem)

lemma clean_object_asecs:
  assumes "clean (ee_name e)" and "list_all (\<lambda>f. clean (fe_name f) \<and> clean (fe_default f)) flat" and "object_asecs flat e = Some xs"
  shows "clean_asecs xs"
proof -
  have f: "clean_props (var_props f)" if "flat_find flat i s = Some f" for i s f
    using assms(2) flat_find_mem [OF that] by (auto simp: list_all_iff intro!: clean_var_props)
  have c: "clean_props (snd (count_asec i n))" for i n
    unfolding count_asec_def snd_conv by (intro clean_sub_props clean_constants clean_show_int) simp_all
  have t: "clean_asecs ys" if "those (map (\<lambda>s. element_asec flat i (g s)) ss) = Some ys" for i and g :: "'x \<Rightarrow> u8" and ss ys
    using that f unfolding those_map_Some by (auto simp: clean_asecs_def list_all_iff element_asec_def)
  have h: "clean_props (header_props (ee_name e) ''0x9'' n)" "clean_props (header_props (ee_name e) ''0x8'' n)" for n
    using clean_header_props [OF assms(1)] by simp_all
  have d: "clean_asecs (count_asec i n # ys) \<longleftrightarrow> clean_asecs ys" for i n ys
    using c [of i n] by (simp add: count_asec_def)
  show ?thesis
  proof (cases "ee_kind e")
    case (EdsVar v)
    then show ?thesis using assms(3) f by (auto simp: object_asecs_def)
  next
    case (EdsRecord subs)
    then show ?thesis using assms(3) t [of "ee_index e" es_subindex subs] h d by (auto simp: object_asecs_def)
  next
    case (EdsArray a)
    then obtain ys where "those (map (\<lambda>s. element_asec flat (ee_index e) (of_nat s)) [1..<Suc (ea_count a)]) = Some ys"
      "xs = ((ee_index e, None), header_props (ee_name e) ''0x8'' (int (ea_count a) + 1)) # count_asec (ee_index e) (int (ea_count a)) # ys"
      using assms(3) by (auto simp: object_asecs_def simp del: upt_Suc)
    moreover from this(1) have "clean_asecs ys"
      unfolding those_map_Some using f by (auto simp: clean_asecs_def list_all_iff element_asec_def)
    ultimately show ?thesis using h d by simp
  qed
qed

lemma key_of_clean: "key_of a \<noteq> []" "CHR 0x0A \<notin> set (key_of a)"
proof -
  have "CHR 0x0A \<notin> set (show_upper_hex w n)" if "0 \<le> n" for w n
    using show_upper_hex_digits [OF that, of "CHR 0x0A" w] digit_not_special(1) [of 16 "CHR 0x0A"] is_ws_eol by auto
  then show "key_of a \<noteq> []" "CHR 0x0A \<notin> set (key_of a)"
    by (auto simp: key_of_def index_key_def sub_key_def split: option.splits)
qed

lemma clean_named: "clean_asecs xs \<Longrightarrow> list_all clean_section (named xs)"
  by (induction xs) (auto simp: named_def clean_section_def clean_props_def key_of_clean)

lemma clean_index_list: "name \<noteq> [] \<Longrightarrow> CHR 0x0A \<notin> set name \<Longrightarrow> clean_section (index_list_section name xs)"
proof -
  have "clean_key (show_int n)" if "0 \<le> n" for n
  proof -
    have "\<not> is_ws c \<and> c \<noteq> CHR ''='' \<and> c \<noteq> CHR ''['' \<and> c \<noteq> CHR '';''" if "c \<in> set (show_int n)" for c
      using show_int_chars [OF that] show_int_no_ws [OF that] by (auto simp: to_digit_def)
    then show ?thesis using show_int_trimmed(3) by (simp add: clean_key_def)
  qed
  moreover have "clean_key ''SupportedObjects''" by code_simp
  ultimately show "name \<noteq> [] \<Longrightarrow> CHR 0x0A \<notin> set name \<Longrightarrow> clean_section (index_list_section name xs)"
    using clean_show_int clean_word [of 4]
    by (auto simp: index_list_section_def clean_section_def list_all_iff)
qed

lemma clean_identity: "list_all (\<lambda>f. clean (fe_name f) \<and> clean (fe_default f)) flat \<Longrightarrow> clean (identity flat s)"
proof -
  have "clean []" by code_simp
  then show "list_all (\<lambda>f. clean (fe_name f) \<and> clean (fe_default f)) flat \<Longrightarrow> clean (identity flat s)"
    using flat_find_mem [where i = "0x1018" and s = s] by (auto simp: identity_def list_all_iff split: option.splits)
qed

lemma clean_info:
  assumes "clean (ed_name od)" and "list_all (\<lambda>f. clean (fe_name f) \<and> clean (fe_default f)) flat"
  shows "\<forall>s\<in>set (info_sections od flat). clean_section s"
proof -
  have c: "clean (ed_name od @ ''.eds'')" using assms(1) by (cases "ed_name od") (auto simp: clean_def trim_ends is_ws_def)
  have k: "list_all clean_key [''FileName'', ''FileVersion'', ''CreatedBy'', ''VendorName'', ''VendorNumber'', ''ProductName'',
      ''ProductNumber'', ''RevisionNumber'', ''SimpleBootUpMaster'', ''SimpleBootUpSlave'', ''Granularity'',
      ''DynamicChannelsSupported'', ''GroupMessaging'', ''NrOfRXPDO'', ''NrOfTXPDO'', ''LSS_Supported'',
      ''BaudRate_10'', ''BaudRate_20'', ''BaudRate_50'', ''BaudRate_125'', ''BaudRate_250'', ''BaudRate_500'', ''BaudRate_800'',
      ''BaudRate_1000'']" by code_simp
  have v: "clean ''1''" "clean ''0''" "clean []" "clean ''canopen-rs (object_dictionary! macro)''" by code_simp+
  have "\<forall>s\<in>set (index_list_sections od). clean_section s"
    by (auto simp: index_list_sections_def Let_def intro!: clean_index_list)
  then show ?thesis using c k v assms(1) clean_identity [OF assms(2)] clean_show_int
    by (simp add: info_sections_def clean_section_def)
qed

theorem parse_generated:
  assumes "clean_def_text lib od" and "generate_eds lib od = Some text"
  shows "parse_ini_sections text = file_sections lib od"
proof -
  let ?flat = "flatten_for_eds lib (ed_entries od)"
  from assms(2) obtain ls where ls: "eds_lines lib od = Some ls" "text = render ls"
    by (auto simp: generate_eds_def render_def)
  have a: "\<forall>e\<in>set (ed_entries od). array_fits e" "\<forall>e\<in>set (ed_entries od). clean (ee_name e)"
    and f: "list_all (\<lambda>f. clean (fe_name f) \<and> clean (fe_default f)) ?flat" and n: "clean (ed_name od)"
    using assms(1) by (auto simp: clean_def_text_def list_all_iff)
  note l = eds_lines_sections [OF ls(1) a(1)]
  have "clean_asecs (file_asecs lib od)"
    using l(2) a(2) clean_object_asecs [OF _ f] clean_pdo_asecs clean_sdo_asecs clean_self_asecs
    unfolding file_asecs_def by fastforce
  then have "\<forall>s\<in>set (file_sections lib od). clean_section s"
    using clean_named clean_info [OF n f] by (auto simp: file_sections_def list_all_iff)
  then show ?thesis using parse_rendered_sections l(1) ls(2) by simp
qed

end
