(* ===== verification/Eds_Roundtrip.thy ===== *)
theory Eds_Roundtrip
  imports Eds_Sections
begin

text \<open>
  Export and import agree on PDOs: the import reads from the text that \<open>generate_eds\<close> wrote the
  PDOs of the definition, with their COB-IDs made explicit and their mappings looked up in the entries.
\<close>

section \<open>Addresses\<close>

text \<open>What the macro checks: objects outside the PDO records, PDO and SDO server numbers in range and unique.\<close>

definition clean_addresses :: "eds_def \<Rightarrow> bool" where
  "clean_addresses od \<longleftrightarrow>
     list_all (\<lambda>e. 0x1000 \<le> ee_index e \<and> \<not> is_pdo_index (ee_index e)) (ed_entries od)
     \<and> list_all (\<lambda>p. 1 \<le> pd_number p \<and> pd_number p \<le> 512) (ed_pdos od)
     \<and> distinct (map (\<lambda>p. (pd_direction p, pd_number p)) (ed_pdos od))
     \<and> list_all (\<lambda>s. 1 \<le> sd_number s \<and> sd_number s \<le> 128) (ed_sdo_servers od)"

abbreviation at_index :: "u16 \<Rightarrow> addressed \<Rightarrow> bool" where
  "at_index i xs \<equiv> list_all (\<lambda>x. fst (fst x) = i) xs"

abbreviation not_at :: "u16 \<Rightarrow> addressed \<Rightarrow> bool" where
  "not_at i xs \<equiv> list_all (\<lambda>x. fst (fst x) \<noteq> i) xs"

lemma at_not_at: "at_index j xs \<Longrightarrow> j \<noteq> i \<Longrightarrow> not_at i xs"
  by (auto simp: list_all_iff)

lemma comm_at: "at_index (comm_index p) (comm_asecs p)"
  by (simp add: comm_asecs_def Let_def)

lemma mapping_at: "at_index i (mapping_asecs i name kind ms)"
  by (simp add: mapping_asecs_def Let_def list_all_iff)

lemma sdo_at: "at_index (0x1200 + (sd_number s - 1)) (sdo_asecs s)"
  by (simp add: sdo_asecs_def Let_def)

lemma elements_at: "those (map (\<lambda>s. element_asec flat i (g s)) ss) = Some ys \<Longrightarrow> at_index i ys"
  unfolding those_map_Some by (auto simp: element_asec_def list_all_iff)

lemma object_at: "object_asecs flat e = Some xs \<Longrightarrow> at_index (ee_index e) xs"
proof (cases "ee_kind e")
  case (EdsRecord subs)
  moreover assume "object_asecs flat e = Some xs"
  ultimately obtain ys where "those (map (\<lambda>s. element_asec flat (ee_index e) (es_subindex s)) subs) = Some ys"
    "xs = ((ee_index e, None), header_props (ee_name e) ''0x9'' (int (length subs) + 1)) # count_asec (ee_index e) (uint (max_sub subs)) # ys"
    by (auto simp: object_asecs_def)
  then show ?thesis using elements_at by (simp add: count_asec_def)
next
  case (EdsArray a)
  moreover assume "object_asecs flat e = Some xs"
  ultimately obtain ys where "those (map (\<lambda>s. element_asec flat (ee_index e) (of_nat s)) [1..<Suc (ea_count a)]) = Some ys"
    "xs = ((ee_index e, None), header_props (ee_name e) ''0x8'' (int (ea_count a) + 1)) # count_asec (ee_index e) (int (ea_count a)) # ys"
    by (auto simp: object_asecs_def simp del: upt_Suc)
  then show ?thesis using elements_at by (simp add: count_asec_def)
qed (auto simp: object_asecs_def)

lemma map_of_other: "not_at i xs \<Longrightarrow> map_of xs (i, s) = None"
  by (auto simp: map_of_eq_None_iff list_all_iff)

lemma map_of_other_append: "not_at i xs \<Longrightarrow> map_of (xs @ ys) (i, s) = map_of ys (i, s)"
  by (simp add: map_add_def map_of_other del: map_of_eq_None_iff split: option.splits)

lemma map_of_append_other: "not_at i ys \<Longrightarrow> map_of (xs @ ys) (i, s) = map_of xs (i, s)"
  by (simp add: map_add_def map_of_other split: option.splits)

lemma pdo_ranges:
  assumes "1 \<le> pd_number p" and "pd_number p \<le> 512"
  shows "uint (comm_index p) = (if pd_direction p = DirTpdo then 0x1800 else 0x1400) + uint (pd_number p) - 1"
    and "uint (map_index p) = (if pd_direction p = DirTpdo then 0x1A00 else 0x1600) + uint (pd_number p) - 1"
    and "1 \<le> uint (pd_number p)" and "uint (pd_number p) \<le> 512"
proof -
  define n where "n = pd_number p"
  have "uint (b + (n - 1)) = uint b + uint n - 1" if "uint b \<le> 0x1A00" for b
  proof -
    have n: "1 \<le> n" "uint n \<le> 512" using assms by (simp_all add: n_def word_le_def)
    then have "uint (n - 1) = uint n - 1" using uint_sub_lem [of 1 n] by (simp add: word_le_def)
    moreover have "uint b + uint (n - 1) < 2 ^ LENGTH(16)" using that n(2) calculation by simp
    ultimately show ?thesis using uint_add_lem [of b "n - 1"] by simp
  qed
  then show "uint (comm_index p) = (if pd_direction p = DirTpdo then 0x1800 else 0x1400) + uint (pd_number p) - 1"
    "uint (map_index p) = (if pd_direction p = DirTpdo then 0x1A00 else 0x1600) + uint (pd_number p) - 1"
    by (simp_all add: comm_index_def map_index_def n_def split: pdo_direction.splits)
  show "1 \<le> uint (pd_number p)" "uint (pd_number p) \<le> 512" using assms by (simp_all add: word_le_def)
qed

lemma pdo_index_is_pdo:
  assumes "1 \<le> pd_number p" and "pd_number p \<le> 512"
  shows "is_pdo_index (comm_index p)" "is_pdo_index (map_index p)" "comm_index p \<noteq> map_index p"
proof -
  note r = pdo_ranges [OF assms]
  show "is_pdo_index (comm_index p)" "is_pdo_index (map_index p)"
    using r by (auto simp: is_pdo_index_def word_le_def split: if_splits)
  show "comm_index p \<noteq> map_index p" using r by (auto split: if_splits)
qed

lemma pdo_index_inj:
  assumes "1 \<le> pd_number p" "pd_number p \<le> 512" and "1 \<le> pd_number q" "pd_number q \<le> 512"
    and "{comm_index p, map_index p} \<inter> {comm_index q, map_index q} \<noteq> {}"
  shows "pd_direction p = pd_direction q \<and> pd_number p = pd_number q"
proof -
  have "pd_direction p = pd_direction q \<and> uint (pd_number p) = uint (pd_number q)"
    using assms(5) pdo_ranges [OF assms(1,2)] pdo_ranges [OF assms(3,4)]
    by (cases "pd_direction p"; cases "pd_direction q") auto
  then show ?thesis by (simp add: word_uint_eq_iff)
qed

definition pdos_at :: "(pdo_def \<Rightarrow> pdo_mapping list) \<Rightarrow> pdo_def list \<Rightarrow> addressed" where
  "pdos_at ms ps = concat (map (\<lambda>p. pdo_asecs p (ms p)) ps)"

lemma pdo_asecs_not_at: "i \<notin> {comm_index p, map_index p} \<Longrightarrow> not_at i (pdo_asecs p ms)"
  using at_not_at [OF comm_at, of p i] at_not_at [OF mapping_at, of "map_index p" i] by (auto simp: pdo_asecs_def)

lemma pdos_not_at: "\<forall>p\<in>set ps. i \<notin> {comm_index p, map_index p} \<Longrightarrow> not_at i (pdos_at ms ps)"
  by (induction ps) (simp_all add: pdos_at_def pdo_asecs_not_at)

lemma pdos_lookup:
  assumes "\<forall>p\<in>set ps. 1 \<le> pd_number p \<and> pd_number p \<le> 512" and "distinct (map (\<lambda>p. (pd_direction p, pd_number p)) ps)"
    and "p \<in> set ps" and "i \<in> {comm_index p, map_index p}"
  shows "map_of (pdos_at ms ps) (i, s) = map_of (pdo_asecs p (ms p)) (i, s)"
  using assms(1-3)
proof (induction ps)
  case (Cons q ps)
  show ?case
  proof (cases "q = p")
    case True
    have "i \<notin> {comm_index r, map_index r}" if "r \<in> set ps" for r
      using pdo_index_inj [of p r] Cons.prems assms(4) that True by force
    then show ?thesis using True map_of_append_other [OF pdos_not_at] by (simp add: pdos_at_def)
  next
    case False
    then have "p \<in> set ps" using Cons.prems by simp
    then have "i \<notin> {comm_index q, map_index q}"
      using pdo_index_inj [of q p] Cons.prems assms(4) by force
    then show ?thesis using Cons \<open>p \<in> set ps\<close> map_of_other_append [OF pdo_asecs_not_at] by (simp add: pdos_at_def)
  qed
qed simp

section \<open>Looking up a section of the file\<close>

lemma not_pdo_index:
  "\<not> is_pdo_index 0x1021" "\<not> is_pdo_index 0x1022" by code_simp+

lemma sdo_not_pdo:
  assumes "1 \<le> n" and "n \<le> (128 :: u16)"
  shows "\<not> is_pdo_index (0x1200 + (n - 1))" and "0x1000 \<le> 0x1200 + (n - 1)"
proof -
  have n: "1 \<le> n" "uint n \<le> 128" using assms by (simp_all add: word_le_def)
  then have m: "uint (n - 1) = uint n - 1" using uint_sub_lem [of 1 n] by (simp add: word_le_def)
  have "1 \<le> uint n" using assms(1) by (simp add: word_le_def)
  moreover have "uint (0x1200 + (n - 1)) = 0x1200 + uint n - 1"
    using uint_add_lem [of "0x1200" "n - 1"] m n(2) by simp
  ultimately show "\<not> is_pdo_index (0x1200 + (n - 1))" "0x1000 \<le> 0x1200 + (n - 1)"
    using n(2) by (simp_all add: is_pdo_index_def word_le_def)
qed

lemma info_names: "\<forall>s\<in>set (info_sections od flat). parse_section_index (fst s) = None"
proof -
  have "parse_section_index ''FileInfo'' = None" "parse_section_index ''DeviceInfo'' = None"
    "parse_section_index ''MandatoryObjects'' = None" "parse_section_index ''OptionalObjects'' = None"
    "parse_section_index ''ManufacturerObjects'' = None" "parse_section_index ''StandardizedObjects'' = None" by code_simp+
  then show ?thesis by (auto simp: info_sections_def index_list_sections_def index_list_section_def Let_def)
qed

text \<open>A definition whose text and addresses are clean, and that exports.\<close>

definition exportable :: "float_lib \<Rightarrow> eds_def \<Rightarrow> bool" where
  "exportable lib od \<longleftrightarrow> clean_def_text lib od \<and> clean_addresses od \<and> generate_eds lib od \<noteq> None"

lemma exportable_parts:
  assumes "exportable lib od"
  shows "\<forall>e\<in>set (ed_entries od). object_asecs (flatten_for_eds lib (ed_entries od)) e \<noteq> None"
    and "\<forall>p\<in>set (ed_pdos od). exported_mappings od p \<noteq> None"
proof -
  obtain ls where "eds_lines lib od = Some ls" using assms by (auto simp: exportable_def generate_eds_def)
  moreover have "\<forall>e\<in>set (ed_entries od). array_fits e" using assms by (auto simp: exportable_def clean_def_text_def list_all_iff)
  ultimately show "\<forall>e\<in>set (ed_entries od). object_asecs (flatten_for_eds lib (ed_entries od)) e \<noteq> None"
    "\<forall>p\<in>set (ed_pdos od). exported_mappings od p \<noteq> None"
    by (rule eds_lines_sections(2), rule eds_lines_sections(3))
qed

definition objects_at :: "float_lib \<Rightarrow> eds_def \<Rightarrow> addressed" where
  "objects_at lib od = concat (map (\<lambda>e. the (object_asecs (flatten_for_eds lib (ed_entries od)) e)) (ed_entries od))"

lemma objects_index:
  assumes "exportable lib od" and "x \<in> set (objects_at lib od)"
  shows "0x1000 \<le> fst (fst x) \<and> \<not> is_pdo_index (fst (fst x))"
proof -
  let ?flat = "flatten_for_eds lib (ed_entries od)"
  from assms(2) obtain e where e: "e \<in> set (ed_entries od)" "x \<in> set (the (object_asecs ?flat e))"
    by (auto simp: objects_at_def)
  moreover obtain xs where "object_asecs ?flat e = Some xs" using exportable_parts(1) [OF assms(1)] e(1) by blast
  ultimately have "fst (fst x) = ee_index e" using object_at [of ?flat e xs] by (simp add: list_all_iff)
  then show ?thesis using assms(1) e(1) by (auto simp: exportable_def clean_addresses_def list_all_iff)
qed

lemma file_asecs_split: "file_asecs lib od = objects_at lib od @ pdos_at (\<lambda>p. the (exported_mappings od p)) (ed_pdos od)
    @ concat (map sdo_asecs (ed_sdo_servers od)) @ self_asecs"
  by (simp add: file_asecs_def objects_at_def pdos_at_def)

lemma sdo_index:
  assumes "clean_addresses od" and "x \<in> set (concat (map sdo_asecs (ed_sdo_servers od)))"
  shows "0x1000 \<le> fst (fst x) \<and> \<not> is_pdo_index (fst (fst x))"
proof -
  obtain s where "s \<in> set (ed_sdo_servers od)" "x \<in> set (sdo_asecs s)" using assms(2) by auto
  then show ?thesis using sdo_at [of s] sdo_not_pdo [of "sd_number s"] assms(1)
    by (auto simp: clean_addresses_def list_all_iff)
qed

lemma pdo_numbers:
  assumes "clean_addresses od"
  shows "\<forall>p\<in>set (ed_pdos od). 1 \<le> pd_number p \<and> pd_number p \<le> 512"
    and "distinct (map (\<lambda>p. (pd_direction p, pd_number p)) (ed_pdos od))"
  using assms by (auto simp: clean_addresses_def list_all_iff)

lemma pdo_index_ge: "is_pdo_index i \<Longrightarrow> 0x1000 \<le> i"
  by (auto simp: is_pdo_index_def word_le_def)

lemma pdos_index:
  assumes "clean_addresses od" and "x \<in> set (pdos_at ms (ed_pdos od))"
  shows "\<exists>p\<in>set (ed_pdos od). fst (fst x) \<in> {comm_index p, map_index p}"
  using assms(2) comm_at mapping_at unfolding pdos_at_def pdo_asecs_def list_all_iff by fastforce

lemma file_addresses_valid:
  assumes "exportable lib od" and "x \<in> set (file_asecs lib od)"
  shows "valid_address (fst x)"
proof -
  have c: "clean_addresses od" using assms(1) by (simp add: exportable_def)
  have s: "valid_address (fst y)" if "y \<in> set self_asecs" for y
    using that by (auto simp: self_asecs_def valid_address_def)
  have p: "valid_address (fst y)" if "y \<in> set (pdos_at ms (ed_pdos od))" for y ms
    using pdos_index [OF c that] pdo_numbers(1) [OF c] pdo_index_is_pdo(1,2) pdo_index_ge by (force simp: valid_address_def)
  have o: "valid_address (fst y)" if "y \<in> set (objects_at lib od)" for y
    using objects_index [OF assms(1) that] by (simp add: valid_address_def)
  have d: "valid_address (fst y)" if "y \<in> set (concat (map sdo_asecs (ed_sdo_servers od)))" for y
    using sdo_index [OF c that] by (simp add: valid_address_def)
  show ?thesis using assms(2) s p o d unfolding file_asecs_split set_append by blast
qed

lemma file_lookup:
  assumes "exportable lib od" and "is_pdo_index i"
  shows "find_section (file_sections lib od) (key_of (i, s))
    = map_of (pdos_at (\<lambda>p. the (exported_mappings od p)) (ed_pdos od)) (i, s)"
proof -
  have c: "clean_addresses od" using assms(1) by (simp add: exportable_def)
  have v: "valid_address (i, s)" using pdo_index_ge [OF assms(2)] by (simp add: valid_address_def)
  have o: "not_at i (objects_at lib od)" using objects_index [OF assms(1)] assms(2) by (auto simp: list_all_iff)
  have "not_at i (concat (map sdo_asecs (ed_sdo_servers od)))" using sdo_index [OF c] assms(2) by (auto simp: list_all_iff)
  moreover have "not_at i self_asecs" using assms(2) not_pdo_index by (auto simp: self_asecs_def)
  ultimately have r: "not_at i (concat (map sdo_asecs (ed_sdo_servers od)) @ self_asecs)" by simp
  have "find_section (file_sections lib od) (key_of (i, s)) = map_of (file_asecs lib od) (i, s)"
    unfolding file_sections_def using find_section_skip [OF info_names v] find_named [OF v] file_addresses_valid [OF assms(1)] by simp
  also have "\<dots> = map_of (pdos_at (\<lambda>p. the (exported_mappings od p)) (ed_pdos od)) (i, s)"
    unfolding file_asecs_split using map_of_other_append [OF o] map_of_append_other [OF r] by metis
  finally show ?thesis .
qed

section \<open>Values of the PDO records\<close>

lemma get_prop_sub:
  "get_prop (sub_props name dt access dv pdo @ extra) ''DefaultValue'' = Some dv"
  "get_prop (sub_props name dt access dv pdo @ extra) ''AccessType'' = Some access"
proof -
  have r: "eq_ignore_ascii_case k k" for k by (simp add: eq_ignore_ascii_case_def)
  have e: "\<not> eq_ignore_ascii_case ''ParameterName'' ''DefaultValue''" "\<not> eq_ignore_ascii_case ''ObjectType'' ''DefaultValue''"
    "\<not> eq_ignore_ascii_case ''DataType'' ''DefaultValue''" "\<not> eq_ignore_ascii_case ''AccessType'' ''DefaultValue''"
    "\<not> eq_ignore_ascii_case ''ParameterName'' ''AccessType''" "\<not> eq_ignore_ascii_case ''ObjectType'' ''AccessType''"
    "\<not> eq_ignore_ascii_case ''DataType'' ''AccessType''" by code_simp+
  then show "get_prop (sub_props name dt access dv pdo @ extra) ''DefaultValue'' = Some dv"
    "get_prop (sub_props name dt access dv pdo @ extra) ''AccessType'' = Some access"
    using r by (simp_all add: get_prop_def sub_props_def)
qed

lemmas get_prop_sub0 = get_prop_sub [where extra = "[]", simplified]

lemma default_of_sub:
  assumes "clean dv" and "dv \<noteq> []"
  shows "default_text (Some (sub_props name dt access dv pdo @ extra)) = Some dv"
  using assms get_prop_sub(1) by (simp add: default_text_def clean_def)

lemma parse_pdo_hex:
  assumes "0 \<le> n" and "n < 2 ^ bits" and "bits \<le> 64"
  shows "parse_pdo_default bits (Some (sub_props name dt access (''0x'' @ show_upper_hex w n) pdo @ extra)) d i s label = Inr n"
proof -
  have "(2 :: int) ^ bits \<le> 2 ^ 64" by (rule power_increasing) (use assms(3) in simp_all)
  then have "n < 2 ^ 64" using assms(2) by linarith
  then show ?thesis using default_of_sub [OF clean_hex [OF assms(1)]] parse_upper_hex [OF assms(1), of 64 w] assms(2)
    by (simp add: parse_pdo_default_def parse_int_def)
qed

lemma parse_pdo_word:
  assumes "LENGTH('a) \<le> 64"
  shows "parse_pdo_default LENGTH('a) (Some (sub_props name dt access (''0x'' @ show_upper_hex w (uint (x :: 'a::len word))) pdo @ extra)) d i s label
    = Inr (uint x)"
  using assms by (intro parse_pdo_hex) (simp_all add: unsigned_less)

text \<open>The COB-ID that the text states.\<close>

definition eds_cob_id :: "pdo_def \<Rightarrow> cob_id_spec" where
  "eds_cob_id p = (case pd_cob_id p of
     Some spec \<Rightarrow> spec | None \<Rightarrow> NodeRelative (ucast (predefined_base (pd_direction p) (pd_number p))))"

lemma parse_node_relative:
  assumes "0 \<le> n" and "n < 2 ^ 32"
  shows "parse_pdo_cob_id (''$NODEID+0x'' @ show_upper_hex 0 n) = Some (NodeRelative (word_of_int n))"
proof -
  let ?h = "''0x'' @ show_upper_hex 0 n"
  have w: "\<forall>c\<in>set ?h. \<not> is_ws c" using prefixed_hex_chars [OF assms(1), of _ 0] by blast
  have "list_all (\<lambda>c. \<not> is_ws c) ''$NODEID+''" by code_simp
  then have "\<forall>c\<in>set (''$NODEID'' @ CHR ''+'' # ?h). \<not> is_ws c" using w by simp
  note t = trim_no_ws [OF w] trim_no_ws [OF this]
  have s: "split_once ''+'' (''$NODEID'' @ CHR ''+'' # ?h) = Some (''$NODEID'', ?h)" by (rule split_once_key) simp
  have e: "\<not> eq_ignore_ascii_case (''$NODEID'' @ CHR ''+'' # ?h) ''$NODEID''"
    by (simp add: eq_ignore_ascii_case_def)
  have d: "trim ''$NODEID'' = ''$NODEID''" "eq_ignore_ascii_case ''$NODEID'' ''$NODEID''" by code_simp+
  have p: "parse_int ?h = Some n" using parse_upper_hex [OF assms(1), of 64 0] assms(2) by (simp add: parse_int_def)
  have "parse_pdo_cob_id (''$NODEID'' @ CHR ''+'' # ?h) = Some (NodeRelative (word_of_int n))"
    unfolding parse_pdo_cob_id_def Let_def t(2) s using e d t(1) p assms(2) by simp
  then show ?thesis by simp
qed

lemma parse_absolute:
  assumes "0 \<le> n" and "n < 2 ^ 32"
  shows "parse_pdo_cob_id (''0x'' @ show_upper_hex 0 n) = Some (Absolute (word_of_int n))"
proof -
  let ?h = "''0x'' @ show_upper_hex 0 n"
  have c: "CHR ''+'' \<notin> set ?h" "\<forall>c\<in>set ?h. \<not> is_ws c" using prefixed_hex_chars [OF assms(1), of _ 0] by blast+
  note t = trim_no_ws [OF c(2)]
  have s: "split_once ''+'' ?h = None" using c(1) by (intro split_once_None) simp_all
  have e: "\<not> eq_ignore_ascii_case ?h ''$NODEID''" by (simp add: eq_ignore_ascii_case_def ascii_lower_def)
  have p: "parse_int ?h = Some n" using parse_upper_hex [OF assms(1), of 64 0] assms(2) by (simp add: parse_int_def)
  show ?thesis unfolding parse_pdo_cob_id_def Let_def t s using e p assms(2) by simp
qed

lemma parse_exported_cob_id: "parse_pdo_cob_id (pdo_cob_id_default p) = Some (eds_cob_id p)"
proof -
  have u: "0 \<le> uint w" "uint w < 2 ^ 32" for w :: u32 using unsigned_less [of w] by simp_all
  have v: "uint w < 2 ^ 32" for w :: u16 by (rule order.strict_trans2 [OF unsigned_less]) simp
  have c: "word_of_int (uint w) = (ucast w :: u32)" for w :: u16 by (simp add: unsigned_ucast_eq flip: ucast_eq)
  show ?thesis
    using parse_absolute [OF u] parse_node_relative [OF u] parse_node_relative [OF uint_ge_0 v] c
    by (auto simp: pdo_cob_id_default_def eds_cob_id_def cob_id_spec_eds_def predefined_pdo_cob_id_def split: option.splits cob_id_spec.splits)
qed

lemma parse_cob_id_section: "parse_pdo_cob_id_default (Some (sub_props name dt access (pdo_cob_id_default p) pdo)) i = Inr (Some (eds_cob_id p))"
proof -
  have "clean (pdo_cob_id_default p)" using clean_cob_id by (simp add: pdo_cob_id_default_def split: option.splits)
  moreover have "pdo_cob_id_default p \<noteq> []"
    by (simp add: pdo_cob_id_default_def cob_id_spec_eds_def predefined_pdo_cob_id_def split: option.splits cob_id_spec.splits)
  ultimately show ?thesis using default_of_sub [of "pdo_cob_id_default p" name dt access pdo "[]"] parse_exported_cob_id
    by (simp add: parse_pdo_cob_id_default_def)
qed

section \<open>Reading one PDO\<close>

text \<open>The import of mapping values that are already numbers.\<close>

fun import_values :: "u32 list \<Rightarrow> eds_entry list \<Rightarrow> pdo_mapping_def list \<times> eds_entry list" where
  "import_values [] entries = ([], entries)"
| "import_values (v # vs) entries =
     (let (m, entries) = (if v \<noteq> 0 then resolve_eds_mapping v entries else (None, entries));
          (ms, entries) = import_values vs entries
      in (case m of None \<Rightarrow> ms | Some m \<Rightarrow> m # ms, entries))"

lemma read_mappings_values:
  assumes "\<forall>j<length vs. parse_pdo_default 32 (find_section secs (sub_key i (of_nat (k + j)))) 0 i (of_nat (k + j)) ''PDO mapping descriptor''
      = Inr (uint (vs ! j))"
  shows "read_eds_mappings secs i (map word_of_nat [k..<k + length vs]) entries = Inr (import_values vs entries)"
  using assms
proof (induction vs arbitrary: k entries)
  case (Cons v vs)
  have h: "parse_pdo_default 32 (find_section secs (sub_key i (of_nat k))) 0 i (of_nat k) ''PDO mapping descriptor'' = Inr (uint v)"
    using Cons.prems by force
  have t: "\<forall>j<length vs. parse_pdo_default 32 (find_section secs (sub_key i (of_nat (Suc k + j)))) 0 i (of_nat (Suc k + j)) ''PDO mapping descriptor''
      = Inr (uint (vs ! j))"
    using Cons.prems by (metis Suc_less_eq add_Suc_shift length_Cons nth_Cons_Suc)
  have u: "[k..<k + length (v # vs)] = k # [Suc k..<Suc k + length vs]"
    using upt_conv_Cons [of k "k + length (v # vs)"] by (simp del: upt_Suc)
  have z: "uint v \<noteq> 0 \<longleftrightarrow> v \<noteq> 0" by (simp add: uint_0_iff)
  show ?case unfolding u list.map read_eds_mappings.simps h sum.case z import_values.simps word_of_int_uint
    using Cons.IH [OF t] by (auto simp: Let_def split: prod.splits)
qed simp

lemma of_nat_byte_inj: "a < 256 \<Longrightarrow> b < 256 \<Longrightarrow> (of_nat a :: u8) = of_nat b \<longleftrightarrow> a = b"
  by (simp add: word_of_nat_eq_iff take_bit_nat_eq_self)

lemma mapping_lookup:
  assumes "1 \<le> j" and "j \<le> unat (exported_mapping_slots kind ms)"
  shows "map_of (mapping_asecs i name kind ms) (i, Some (of_nat j))
    = Some (sub_props (''Mapping Entry '' @ show_int (int j)) 0x0007 (mapping_access kind) (mapping_default ms j) ''0'')"
proof -
  let ?n = "unat (exported_mapping_slots kind ms)"
  let ?f = "\<lambda>sub. sub_props (''Mapping Entry '' @ show_int (int sub)) 0x0007 (mapping_access kind) (mapping_default ms sub) ''0''"
  let ?xs = "map (\<lambda>sub. ((i, Some (of_nat sub :: u8)), ?f sub)) [1..<Suc ?n]"
  have n: "?n < 256" using unsigned_less [of "exported_mapping_slots kind ms"] by simp
  have "inj_on (\<lambda>sub. (i, Some (of_nat sub :: u8))) {1..<Suc ?n}"
    using n by (intro inj_onI) (simp add: of_nat_byte_inj)
  then have "distinct (map fst ?xs)" by (simp add: comp_def distinct_map del: upt_Suc)
  then have "map_of ?xs (i, Some (of_nat j)) = Some (?f j)"
    by (rule map_of_is_SomeI) (use assms in \<open>auto simp del: upt_Suc\<close>)
  moreover have "(of_nat j :: u8) \<noteq> 0" using of_nat_byte_inj [of j 0] assms n by simp
  ultimately show ?thesis by (simp add: mapping_asecs_def Let_def del: upt_Suc)
qed

lemma slots_cover:
  assumes "length ms \<le> 64"
  shows "length ms \<le> unat (exported_mapping_slots kind ms)"
proof (cases kind)
  case Immutable
  have "length ms < 256" using assms by simp
  then show ?thesis using Immutable by (simp add: exported_mapping_slots_def unat_of_nat)
next
  case Mutable
  then show ?thesis using assms by (simp add: exported_mapping_slots_def)
qed

lemma mapping_descriptor:
  assumes "j < length ms" and "length ms \<le> 64"
  shows "parse_pdo_default 32 (map_of (mapping_asecs i name kind ms) (i, Some (of_nat (1 + j)))) 0 i s label
    = Inr (uint (map to_mapping_value ms ! j))"
proof -
  have "1 + j \<le> unat (exported_mapping_slots kind ms)" using assms slots_cover [OF assms(2), of kind] by linarith
  then have "map_of (mapping_asecs i name kind ms) (i, Some (of_nat (1 + j)))
      = Some (sub_props (''Mapping Entry '' @ show_int (int (1 + j))) 0x0007 (mapping_access kind) (mapping_default ms (1 + j)) ''0'')"
    by (intro mapping_lookup) simp_all
  moreover have "mapping_default ms (1 + j) = ''0x'' @ show_upper_hex 8 (uint (to_mapping_value (ms ! j)))"
    using assms(1) by (simp add: mapping_default_def)
  ultimately show ?thesis using parse_pdo_word [where x = "to_mapping_value (ms ! j)" and extra = "[]"] assms(1) by simp
qed

lemma mapping_count_lookup:
  "map_of (mapping_asecs i name kind ms) (i, Some 0)
    = Some (sub_props ''Number of Mapped Objects'' 0x0005 (mapping_access kind) (''0x'' @ show_upper_hex 0 (int (length ms))) ''0''
        @ (if kind = Mutable then [(''LowLimit'', show_int 0), (''HighLimit'', show_int (uint (exported_mapping_slots kind ms)))] else []))"
  by (simp add: mapping_asecs_def Let_def)

lemma mapping_count_parsed:
  "length ms \<le> 64 \<Longrightarrow> parse_pdo_mapping_count (map_of (mapping_asecs i name kind ms) (i, Some 0)) i = Inr (int (length ms))"
  unfolding mapping_count_lookup parse_pdo_mapping_count_def by (subst parse_pdo_hex) simp_all

lemma mapping_kind_parsed:
  "mapping_kind_from_access (Option.bind (map_of (mapping_asecs i name kind ms) (i, Some 0)) (\<lambda>ps. get_prop ps ''AccessType'')) = kind"
proof -
  have "mapping_kind_from_access (Some ''rw'') = Mutable" "mapping_kind_from_access (Some ''const'') = Immutable" by code_simp+
  then show ?thesis unfolding mapping_count_lookup bind.simps get_prop_sub(2) by (cases kind) (simp_all add: mapping_access_def)
qed

lemma comm_lookup:
  "map_of (comm_asecs p) (comm_index p, None) \<noteq> None"
  "map_of (comm_asecs p) (comm_index p, Some 1) = Some (sub_props ''COB-ID'' 0x0007 ''rw'' (pdo_cob_id_default p) ''0'')"
  "map_of (comm_asecs p) (comm_index p, Some 2)
    = Some (sub_props ''Transmission Type'' 0x0005 ''rw'' (''0x'' @ show_upper_hex 0 (uint (pd_transmission_type p))) ''0'')"
  "pd_direction p = DirTpdo \<Longrightarrow> map_of (comm_asecs p) (comm_index p, Some 3)
    = Some (sub_props ''Inhibit Time'' 0x0006 ''rw'' (''0x'' @ show_upper_hex 0 (uint (pd_inhibit_time p))) ''0'')"
  "map_of (comm_asecs p) (comm_index p, Some 5)
    = Some (sub_props ''Event Timer'' 0x0006 ''rw'' (''0x'' @ show_upper_hex 0 (uint (pd_event_timer p))) ''0'')"
  by (simp_all add: comm_asecs_def Let_def)

lemma pdo_sections:
  assumes "exportable lib od" and "p \<in> set (ed_pdos od)" and "exported_mappings od p = Some ms"
  shows "find_section (file_sections lib od) (key_of (comm_index p, s)) = map_of (comm_asecs p) (comm_index p, s)"
    and "find_section (file_sections lib od) (key_of (map_index p, s))
      = map_of (mapping_asecs (map_index p) (pdo_label p @ '' Mapping'') (pd_mapping p) ms) (map_index p, s)"
proof -
  have c: "clean_addresses od" using assms(1) by (simp add: exportable_def)
  have n: "1 \<le> pd_number p" "pd_number p \<le> 512" using pdo_numbers(1) [OF c] assms(2) by auto
  note i = pdo_index_is_pdo [OF n]
  note l = pdos_lookup [OF pdo_numbers [OF c] assms(2)]
  have "not_at (comm_index p) (mapping_asecs (map_index p) (pdo_label p @ '' Mapping'') (pd_mapping p) ms)"
    using at_not_at [OF mapping_at i(3) [symmetric]] .
  then show "find_section (file_sections lib od) (key_of (comm_index p, s)) = map_of (comm_asecs p) (comm_index p, s)"
    using file_lookup [OF assms(1) i(1)] l assms(3) by (simp add: pdo_asecs_def map_of_append_other del: map_of_append)
  have "not_at (map_index p) (comm_asecs p)" using at_not_at [OF comm_at i(3)] .
  then show "find_section (file_sections lib od) (key_of (map_index p, s))
      = map_of (mapping_asecs (map_index p) (pdo_label p @ '' Mapping'') (pd_mapping p) ms) (map_index p, s)"
    using file_lookup [OF assms(1) i(2)] l assms(3) by (simp add: pdo_asecs_def map_of_other_append del: map_of_append)
qed

text \<open>The PDO that the import makes of an exported one, and the entries that it then has marked.\<close>

definition imported_pdo :: "pdo_def \<Rightarrow> pdo_mapping list \<Rightarrow> eds_entry list \<Rightarrow> pdo_def \<times> eds_entry list" where
  "imported_pdo p ms entries =
     (let (defs, entries') = import_values (map to_mapping_value ms) entries in
      (p\<lparr>pd_cob_id := Some (eds_cob_id p), pd_inhibit_time := (if pd_direction p = DirTpdo then pd_inhibit_time p else 0),
         pd_mappings := defs\<rparr>, entries'))"

definition valid_transmission :: "pdo_def \<Rightarrow> bool" where
  "valid_transmission p \<longleftrightarrow> validate_pdo_transmission_type (pd_transmission_type p) (pd_direction p) (comm_index p) = Inr ()"

lemma mappings_bounded: "exported_mappings od p = Some ms \<Longrightarrow> length ms \<le> 64"
  by (auto simp: exported_mappings_def resolve_pdo_mappings_def bind_eq_Some_conv split: if_splits)

lemma extract_exported:
  assumes "exportable lib od" and "p \<in> set (ed_pdos od)" and "exported_mappings od p = Some ms" and "valid_transmission p"
  shows "extract_pdo (file_sections lib od) (pd_direction p) (pd_number p - 1) entries
    = Inr (Some (fst (imported_pdo p ms entries)), snd (imported_pdo p ms entries))"
proof -
  let ?secs = "file_sections lib od" and ?m = "mapping_asecs (map_index p) (pdo_label p @ '' Mapping'') (pd_mapping p) ms"
  have k: "sub_key i s = key_of (i, Some s)" "index_key i = key_of (i, None)" for i s by (simp_all add: key_of_def)
  note c = pdo_sections(1) [OF assms(1,2,3)] and m = pdo_sections(2) [OF assms(1,2,3)]
  have len: "length ms \<le> 64" using mappings_bounded [OF assms(3)] .
  have ci: "(if pd_direction p = DirTpdo then 0x1800 else 0x1400) + (pd_number p - 1) = comm_index p"
    "(if pd_direction p = DirTpdo then 0x1A00 else 0x1600) + (pd_number p - 1) = map_index p"
    by (simp_all add: comm_index_def map_index_def split: pdo_direction.splits)
  have r: "read_eds_mappings ?secs (map_index p) (map word_of_nat [1..<1 + length (map to_mapping_value ms)]) entries
      = Inr (import_values (map to_mapping_value ms) entries)"
    using mapping_descriptor [OF _ len] by (intro read_mappings_values) (simp add: k m)
  have n: "map word_of_nat [1..<nat (int (length ms)) + 1] = map word_of_nat [1..<1 + length (map to_mapping_value ms)]" by simp
  have t: "validate_pdo_transmission_type (word_of_int (uint (pd_transmission_type p))) (pd_direction p) (comm_index p) = Inr ()"
    using assms(4) by (simp add: valid_transmission_def)
  have d: "parse_pdo_default 8 (map_of (comm_asecs p) (comm_index p, Some 2)) 255 (comm_index p) 2 l = Inr (uint (pd_transmission_type p))"
    "parse_pdo_default 16 (map_of (comm_asecs p) (comm_index p, Some 5)) 0 (comm_index p) 5 l = Inr (uint (pd_event_timer p))"
    "pd_direction p = DirTpdo \<Longrightarrow> parse_pdo_default 16 (map_of (comm_asecs p) (comm_index p, Some 3)) 0 (comm_index p) 3 l = Inr (uint (pd_inhibit_time p))" for l
    using parse_pdo_word [where 'a = 8 and extra = "[]"] parse_pdo_word [where 'a = 16 and extra = "[]"] by (simp_all add: comm_lookup)
  have h: "(if pd_direction p = DirTpdo then parse_pdo_default 16 (map_of (comm_asecs p) (comm_index p, Some 3)) 0 (comm_index p) 3 ''inhibit time'' else Inr 0)
      = Inr (if pd_direction p = DirTpdo then uint (pd_inhibit_time p) else 0)"
    using d(3) by simp
  have "extract_pdo ?secs (pd_direction p) (pd_number p - 1) entries
    = (case import_values (map to_mapping_value ms) entries of (defs, entries') \<Rightarrow>
        Inr (Some \<lparr>pd_direction = pd_direction p, pd_number = pd_number p - 1 + 1, pd_cob_id = Some (eds_cob_id p),
           pd_transmission_type = word_of_int (uint (pd_transmission_type p)),
           pd_inhibit_time = word_of_int (if pd_direction p = DirTpdo then uint (pd_inhibit_time p) else 0),
           pd_event_timer = word_of_int (uint (pd_event_timer p)), pd_mapping = pd_mapping p, pd_mappings = defs\<rparr>, entries'))"
    unfolding extract_pdo_def Let_def ci k c m h d(1,2) comm_lookup(2) parse_cob_id_section t mapping_count_parsed [OF len]
      mapping_kind_parsed sum.case n r using comm_lookup(1) [of p] by auto
  then show ?thesis by (auto simp: imported_pdo_def split: prod.splits)
qed

lemma slot_numbers: "n \<in> set pdo_slots \<Longrightarrow> uint n < 512"
  by (auto simp: pdo_slots_def uint_word_of_int take_bit_eq_mod unsigned_of_nat)

lemma extract_absent:
  assumes "exportable lib od" and "n \<in> set pdo_slots" and "\<forall>p\<in>set (ed_pdos od). \<not> (pd_direction p = dir \<and> pd_number p = n + 1)"
  shows "extract_pdo (file_sections lib od) dir n entries = Inr (None, entries)"
proof -
  have c: "clean_addresses od" using assms(1) by (simp add: exportable_def)
  define q :: pdo_def where "q = \<lparr>pd_direction = dir, pd_number = n + 1, pd_cob_id = None, pd_transmission_type = 0,
    pd_inhibit_time = 0, pd_event_timer = 0, pd_mapping = Mutable, pd_mappings = []\<rparr>"
  have u: "uint (n + 1) = uint n + 1" using uint_add_lem [of n 1] slot_numbers [OF assms(2)] by simp
  have q: "1 \<le> pd_number q" "pd_number q \<le> 512"
    using u slot_numbers [OF assms(2)] by (simp_all add: q_def word_le_def)
  have i: "(if dir = DirTpdo then 0x1800 else 0x1400) + n = comm_index q"
    by (simp add: comm_index_def q_def split: pdo_direction.splits)
  have "comm_index q \<notin> {comm_index p, map_index p}" if "p \<in> set (ed_pdos od)" for p
    using pdo_index_inj [OF q, of p] pdo_numbers(1) [OF c] assms(3) that by (auto simp: q_def)
  then have "map_of (pdos_at ms (ed_pdos od)) (comm_index q, None) = None" for ms
    by (intro map_of_other pdos_not_at) blast
  then have "find_section (file_sections lib od) (index_key (comm_index q)) = None"
    using file_lookup [OF assms(1) pdo_index_is_pdo(1) [OF q], of None] by (simp add: key_of_def)
  then show ?thesis by (simp add: extract_pdo_def Let_def i)
qed

section \<open>Reading all PDOs\<close>

text \<open>The reference: the PDOs of the definition in the order of their numbers.\<close>

fun import_pdos :: "eds_def \<Rightarrow> pdo_direction \<Rightarrow> u16 list \<Rightarrow> eds_entry list \<Rightarrow> pdo_def list \<times> eds_entry list" where
  "import_pdos od dir [] entries = ([], entries)"
| "import_pdos od dir (n # ns) entries =
     (case List.find (\<lambda>p. pd_direction p = dir \<and> pd_number p = n + 1) (ed_pdos od) of
        None \<Rightarrow> import_pdos od dir ns entries
      | Some p \<Rightarrow>
          (let (p', entries) = imported_pdo p (the (exported_mappings od p)) entries;
               (ps, entries) = import_pdos od dir ns entries
           in (p' # ps, entries)))"

definition import_all_pdos :: "eds_def \<Rightarrow> eds_entry list \<Rightarrow> pdo_def list \<times> eds_entry list" where
  "import_all_pdos od entries =
     (let (tpdos, entries) = import_pdos od DirTpdo pdo_slots entries;
          (rpdos, entries) = import_pdos od DirRpdo pdo_slots entries
      in (tpdos @ rpdos, entries))"

lemma extract_numbers:
  assumes "exportable lib od" and "\<forall>p\<in>set (ed_pdos od). valid_transmission p"
  shows "set ns \<subseteq> set pdo_slots \<Longrightarrow>
    extract_pdo_numbers (file_sections lib od) dir ns entries = Inr (import_pdos od dir ns entries)"
proof (induction ns arbitrary: entries)
  case (Cons n ns)
  show ?case
  proof (cases "List.find (\<lambda>p. pd_direction p = dir \<and> pd_number p = n + 1) (ed_pdos od)")
    case None
    then have "\<forall>p\<in>set (ed_pdos od). \<not> (pd_direction p = dir \<and> pd_number p = n + 1)" by (auto simp: find_None_iff)
    from extract_absent [OF assms(1) _ this] show ?thesis using Cons None by (simp split: prod.splits)
  next
    case (Some p)
    then have p: "p \<in> set (ed_pdos od)" "pd_direction p = dir" "pd_number p - 1 = n" by (auto simp: find_Some_iff)
    then obtain ms where ms: "exported_mappings od p = Some ms" using exportable_parts(2) [OF assms(1)] by blast
    from extract_exported [OF assms(1) p(1) ms] assms(2) p
    have "extract_pdo (file_sections lib od) dir n entries
        = Inr (Some (fst (imported_pdo p ms entries)), snd (imported_pdo p ms entries))" for entries by blast
    then show ?thesis using Cons Some ms by (simp split: prod.splits)
  qed
qed simp

lemma extract_all:
  assumes "exportable lib od" and "\<forall>p\<in>set (ed_pdos od). valid_transmission p"
  shows "extract_pdos (file_sections lib od) entries = Inr (import_all_pdos od entries)"
  using extract_numbers [OF assms] by (simp add: extract_pdos_def import_all_pdos_def split: prod.splits)


text \<open>A concrete definition: one variable, a TPDO that maps it and an RPDO without COB-ID.\<close>

definition demo_entry :: eds_entry where
  "demo_entry = \<lparr>ee_index = 0x2000, ee_name = ''speed'', ee_kind = EdsVar \<lparr>ev_type = U16, ev_capacity = None,
     ev_default = Some (ELit (LitInt ''5'' [] 5)), ev_access = Rw, ev_pdo_mappable = True\<rparr>\<rparr>"

definition demo_pdo :: "pdo_direction \<Rightarrow> u16 \<Rightarrow> cob_id_spec option \<Rightarrow> pdo_def" where
  "demo_pdo dir n c = \<lparr>pd_direction = dir, pd_number = n, pd_cob_id = c, pd_transmission_type = 254, pd_inhibit_time = 0,
     pd_event_timer = 100, pd_mapping = Immutable, pd_mappings = [\<lparr>pmd_field = ''speed'', pmd_bit_length = None, pmd_raw = None\<rparr>]\<rparr>"

definition eds_demo_def :: eds_def where
  "eds_demo_def = \<lparr>ed_name = ''Demo'', ed_entries = [demo_entry],
     ed_pdos = [demo_pdo DirRpdo 2 None, demo_pdo DirTpdo 1 (Some (Absolute 0x181))], ed_sdo_servers = []\<rparr>"

definition demo_floats :: float_lib where
  "demo_floats = \<lparr>fl_parse = (\<lambda>_. None), fl_show = (\<lambda>_. [])\<rparr>"


lemma demo_exports: "generate_eds demo_floats eds_demo_def \<noteq> None" "clean_def_text demo_floats eds_demo_def" "clean_addresses eds_demo_def"
  "list_all valid_transmission (ed_pdos eds_demo_def)"
  by code_simp+


end
