(* ===== verification/Eds_Defaults.thy ===== *)
theory Eds_Defaults
  imports Eds_Parser
begin

text \<open>
  The defaults of an electronic data sheet and the values of a configuration file: the two parsers
  (\<open>normalize_default\<close> of \<open>canopen-derive/src/eds_parser.rs\<close> and \<open>serialize_integer\<close> of
  \<open>canopen-core/src/dcf.rs\<close>) read the same text as the same number.
\<close>

section \<open>Defaults and configured values\<close>

text \<open>A smaller bound on a number only rejects what is too large for it.\<close>

lemma parse_digits_mono: "parse_digits b r acc s = Some n \<Longrightarrow> 0 \<le> acc \<Longrightarrow> 1 \<le> r \<Longrightarrow> acc \<le> n"
proof (induction b r acc s rule: parse_digits.induct)
  case (2 bound r acc c cs)
  then obtain d where d: "to_digit r c = Some d" "acc * r + d < bound" "parse_digits bound r (acc * r + d) cs = Some n"
    by (auto simp: bind_eq_Some_conv Let_def split: if_splits)
  have "0 \<le> d" using to_digit_bounds [OF d(1)] by simp
  moreover have "acc * 1 \<le> acc * r" using "2.prems" by (intro mult_left_mono) auto
  ultimately show ?case using "2.IH" [OF d(1) refl d(2,3)] "2.prems" by simp
qed simp

lemma parse_digits_bound:
  assumes "b \<le> b'" and "1 \<le> r"
  shows "0 \<le> acc \<Longrightarrow> acc < b \<Longrightarrow> parse_digits b r acc s = (case parse_digits b' r acc s of Some n \<Rightarrow> if n < b then Some n else None | None \<Rightarrow> None)"
proof (induction s arbitrary: acc)
  case (Cons c cs)
  show ?case
  proof (cases "to_digit r c")
    case (Some d)
    have nn: "0 \<le> acc * r + d" using to_digit_bounds [OF Some] Cons.prems assms by simp
    show ?thesis
    proof (cases "acc * r + d < b")
      case True
      then show ?thesis using Some Cons.IH [OF nn] assms(1) by (simp add: Let_def)
    next
      case False
      have "b \<le> n" if "parse_digits b' r (acc * r + d) cs = Some n" for n
        using parse_digits_mono [OF that nn assms(2)] False by linarith
      then show ?thesis using Some False by (auto simp: Let_def split: option.splits)
    qed
  qed simp
qed simp

lemma parse_i128_nonneg:
  assumes "\<not> starts_with ''-'' v" and "k \<le> 127"
  shows "from_str_radix k 10 v = (case parse_i128 v of Some n \<Rightarrow> if n < 2 ^ k then Some n else None | None \<Rightarrow> None)"
proof -
  have "(2 :: int) ^ k \<le> 2 ^ 127" using assms(2) by (intro power_increasing) auto
  from parse_digits_bound [OF this, of 10 0] show ?thesis using assms(1)
    by (auto simp: from_str_radix_def parse_i128_def Let_def)
qed

lemma parse_i128_bounds:
  "parse_i128 v = Some n \<Longrightarrow> (starts_with ''-'' v \<longrightarrow> n \<le> 0) \<and> (\<not> starts_with ''-'' v \<longrightarrow> 0 \<le> n)"
  by (auto simp: parse_i128_def Let_def split: if_splits dest!: parse_digits_bounds)

lemma parse_i64_i128:
  assumes "starts_with ''-'' v"
  shows "parse_i64 v = (case parse_i128 v of Some n \<Rightarrow> if - (2 ^ 63) \<le> n then Some n else None | None \<Rightarrow> None)"
  using assms parse_digits_bound [of "2 ^ 63 + 1" "2 ^ 127 + 1" 10 0 "drop 1 v"]
  by (auto simp: parse_i64_def parse_i128_def split: option.splits)

lemma int_le_bytes_wrap: "int_le_bytes k (x - 2 ^ (8 * k)) = int_le_bytes k x"
proof -
  have "(word_of_int ((x - 2 ^ (8 * k)) div 256 ^ i) :: u8) = word_of_int (x div 256 ^ i)" if "i < k" for i
  proof -
    from that obtain m where k: "k = i + 1 + m" using less_iff_Suc_add [of i k] by auto
    have "(2 :: int) ^ (8 * k) = 256 ^ (m + 1) * 256 ^ i" by (simp add: k power_mult power_add)
    then have "(x - 2 ^ (8 * k)) div 256 ^ i = x div 256 ^ i - 256 ^ (m + 1)"
      using div_mult_self2 [of "256 ^ i" x "- (256 ^ (m + 1))"] by (simp add: ac_simps)
    moreover have "(word_of_int 256 :: u8) = 0" by code_simp
    then have "(word_of_int (256 * 256 ^ m) :: u8) = 0" by (simp only: wi_hom_mult [symmetric] mult_zero_left)
    then have "(word_of_int (256 ^ (m + 1)) :: u8) = 0" by (simp only: power_add power_one_right mult.commute)
    ultimately show ?thesis by (simp add: wi_hom_sub [symmetric])
  qed
  then show ?thesis by (simp add: int_le_bytes_def)
qed

lemma hex_prefix_starts: "hex_prefix v \<noteq> None \<longleftrightarrow> starts_with ''0x'' v \<or> starts_with ''0X'' v"
  by (auto simp: hex_prefix_def strip_prefix_def starts_with_def)

lemma hex_not_minus: "hex_prefix v = Some h \<Longrightarrow> \<not> starts_with ''-'' v"
  by (cases v) (auto simp: hex_prefix_def strip_prefix_def starts_with_def split: if_splits)

lemma serialize_integer_default:
  assumes "trim v = v" and "bits \<in> int_widths" and "starts_with ''-'' v \<longrightarrow> is_signed"
  shows "serialize_integer v bits is_signed = map_option (int_le_bytes (bits div 8)) (integer_default bits is_signed v)"
proof -
  have b: "bits div 8 \<le> 8" "8 * (bits div 8) = bits" "0 < bits" "bits \<le> 64" using assms(2) by auto
  have sl: "slice (to_le_bytes 8 (word_of_int x :: u64)) 0 (bits div 8) = Some (int_le_bytes (bits div 8) x)" for x
    using slice_int_le_bytes [OF b(1)] .
  show ?thesis
  proof (cases "hex_prefix v")
    case (Some h)
    then have m: "\<not> starts_with ''-'' v" "starts_with ''0x'' v \<or> starts_with ''0X'' v"
      using hex_not_minus hex_prefix_starts by blast+
    have p: "parse_int_val v = from_str_radix 64 16 h"
      using Some assms(1) by (simp add: parse_int_val_def parse_hex_or_dec_def)
    show ?thesis
    proof (cases "from_str_radix 64 16 h")
      case None
      then show ?thesis using p m Some by (simp add: serialize_integer_def integer_default_def)
    next
      case raw: (Some n)
      have n: "0 \<le> n" "n < 2 ^ 64" using from_str_radix_bounds [OF raw] by auto
      have q: "bits < 64 \<and> n div 2 ^ bits \<noteq> 0 \<longleftrightarrow> bits < 64 \<and> n \<ge> 2 ^ bits"
        using n(1) zdiv_eq_0_iff [of n "2 ^ bits"] by auto
      have s: "serialize_integer v bits is_signed = (if bits < 64 \<and> n \<ge> 2 ^ bits then None else Some (int_le_bytes (bits div 8) n))"
        using p m raw sl by (simp add: serialize_integer_def Let_def)
      show ?thesis
      proof (cases "bits < 64 \<and> n \<ge> 2 ^ bits")
        case True
        then show ?thesis using s Some raw q by (simp add: integer_default_def)
      next
        case False
        define H where "H = (2 :: int) ^ (bits - 1)"
        have H: "2 ^ bits = 2 * H" "0 < H" using b(3) by (simp_all add: H_def flip: power_Suc)
        have Hs: "(2 :: int) ^ (bits - Suc 0) = H" by (simp add: H_def)
        have n2: "n < 2 * H" using False n(2) b(4) H(1) by (cases "bits = 64") auto
        have t: "n div H mod 2 = 1 \<longleftrightarrow> H \<le> n"
        proof (cases "H \<le> n")
          case True
          then have "n div H = 1" using n2 by (intro int_div_pos_eq [of _ _ 1 "n - H"]) auto
          then show ?thesis using True by simp
        next
          case False
          then have "n div H = 0" using n(1) by simp
          then show ?thesis using False by simp
        qed
        have w: "int_le_bytes (bits div 8) (n - 2 * H) = int_le_bytes (bits div 8) n"
          using int_le_bytes_wrap [of "bits div 8" n] b(2) H(1) by simp
        have v: "integer_default bits is_signed v = (if is_signed \<and> H \<le> n then Some (n - 2 * H) else Some n)"
          using Some raw q False t n(1) n2 H by (auto simp: integer_default_def Let_def Hs)
        show ?thesis using s False w unfolding v by auto
      qed
    qed
  next
    case None
    then have h: "\<not> starts_with ''0x'' v \<and> \<not> starts_with ''0X'' v" using hex_prefix_starts by blast
    have d: "integer_default bits is_signed v = do {
        value \<leftarrow> parse_i128 v;
        let (lo, hi) = (if is_signed then (- (2 ^ (bits - 1)), 2 ^ (bits - 1) - 1) else (0, 2 ^ bits - 1));
        if lo \<le> value \<and> value \<le> hi then Some value else None }"
      using None by (simp add: integer_default_def)
    have le: "(2 :: int) ^ (bits - 1) \<le> 2 ^ 63" "(2 :: int) ^ bits \<le> 2 ^ 64" using assms(2) by auto
    show ?thesis
    proof (cases "starts_with ''-'' v")
      case True
      then have sg: "is_signed" using assms(3) by simp
      show ?thesis
      proof (cases "parse_i128 v")
        case (Some n)
        have "n \<le> 0" using parse_i128_bounds [OF Some] True by simp
        moreover from this have "n < 2 ^ (bits - Suc 0)" by (rule order.strict_trans1) simp
        ultimately show ?thesis using True sg d Some sl le parse_i64_i128 [OF True]
          by (auto simp: serialize_integer_def)
      qed (use True sg d parse_i64_i128 [OF True] in \<open>simp add: serialize_integer_def\<close>)
    next
      case False
      have p: "parse_int_val v = (case parse_i128 v of Some n \<Rightarrow> if n < 2 ^ 64 then Some n else None | None \<Rightarrow> None)"
        using None assms(1) parse_i128_nonneg [OF False, of 64] by (simp add: parse_int_val_def parse_hex_or_dec_def)
      show ?thesis
      proof (cases "parse_i128 v")
        case (Some n)
        have "0 \<le> n" using parse_i128_bounds [OF Some] False by simp
        then show ?thesis using False d Some sl le p h assms(2)
          by (auto simp: serialize_integer_def Let_def)
      qed (use False d p in \<open>simp add: serialize_integer_def\<close>)
    qed
  qed
qed

section \<open>Properties of the defaults\<close>

lemma default_in_range:
  assumes "integer_default bits is_signed v = Some x"
  shows "if is_signed then - (2 ^ (bits - 1)) \<le> x \<and> x < 2 ^ (bits - 1) else 0 \<le> x \<and> x < 2 ^ bits"
  using assms by (auto simp: integer_default_def bind_eq_Some_conv Let_def split: if_splits)

text \<open>
  A value means the same in a data sheet and in a configuration file: for every integer type,
  a trimmed text that is neither empty nor relative to the node-ID is accepted as an EDS default
  exactly when the DCF parser accepts it (a minus sign only for signed types); the imported literal
  is the decimal text of a value in the range of the type, and the bytes that the DCF parser yields
  are the little-endian bytes of that value.
\<close>

theorem eds_default_agrees_with_dcf:
  assumes "integer_type t = Some (bits, is_signed)" and "trim v = v" and "v \<noteq> []"
    and "\<not> contains ''$NODEID'' (to_ascii_uppercase v)" and "starts_with ''-'' v \<longrightarrow> is_signed"
  shows "(\<exists>x. normalize_default lib v t = Some (show_int x) \<and> serialize_integer v bits is_signed = Some (int_le_bytes (bits div 8) x)
        \<and> (if is_signed then - (2 ^ (bits - 1)) \<le> x \<and> x < 2 ^ (bits - 1) else 0 \<le> x \<and> x < 2 ^ bits))
    \<or> normalize_default lib v t = None \<and> serialize_integer v bits is_signed = None"
proof -
  have b: "bits \<in> int_widths" using assms(1) by (auto simp: integer_type_def split: if_splits)
  have t: "t \<noteq> 0x0001" "t \<noteq> 0x0008" "t \<noteq> 0x0011" using assms(1) by (auto simp: integer_type_def)
  have n: "normalize_default lib v t = map_option show_int (integer_default bits is_signed v)"
    using assms t by (simp add: normalize_default_def Let_def)
  show ?thesis using serialize_integer_default [OF assms(2) b assms(5)] default_in_range [of bits is_signed v]
    unfolding n by (cases "integer_default bits is_signed v") auto
qed

definition demo_eds_lib :: eds_lib where
  "demo_eds_lib = \<lparr>lib_f32 = (\<lambda>_. None), lib_f64 = (\<lambda>_. None), lib_expr = (\<lambda>_. None)\<rparr>"

theorem eds_default_agrees_with_dcf_witness:
  "normalize_default demo_eds_lib ''0xFFFE'' 0x0003 = Some (show_int (-2)) \<and> serialize_integer ''0xFFFE'' 16 True = Some [0xFE, 0xFF]"
proof -
  have "integer_type 0x0003 = Some (16, True)" "trim ''0xFFFE'' = ''0xFFFE''"
    "\<not> contains ''$NODEID'' (to_ascii_uppercase ''0xFFFE'')" by code_simp+
  from eds_default_agrees_with_dcf [OF this(1,2) _ this(3), of demo_eds_lib]
  consider x where "normalize_default demo_eds_lib ''0xFFFE'' 0x0003 = Some (show_int x)"
      "serialize_integer ''0xFFFE'' 16 True = Some (int_le_bytes 2 x)"
    | "serialize_integer ''0xFFFE'' 16 True = None" by auto
  moreover have "serialize_integer ''0xFFFE'' 16 True = Some [0xFE, 0xFF]" by code_simp
  moreover have "normalize_default demo_eds_lib ''0xFFFE'' 0x0003 = Some (show_int (-2))" by code_simp
  ultimately show ?thesis by cases simp_all
qed

end
