(* ===== verification/Eds_Values.thy ===== *)
theory Eds_Values
  imports Eds_Text Eds_Defaults
begin

text \<open>
  Integer defaults survive the export and the import: \<open>eds_default\<close> of \<open>eds_export.rs\<close> followed by
  \<open>normalize_default\<close> of \<open>eds_parser.rs\<close> keeps the value of a constant expression.
\<close>

section \<open>Reading printed values\<close>

lemma parse_digits_all: "parse_digits b r acc s = Some n \<Longrightarrow> \<forall>c\<in>set s. to_digit r c \<noteq> None"
  by (induction b r acc s rule: parse_digits.induct) (auto simp: bind_eq_Some_conv Let_def split: if_splits)

definition fits_bits :: "nat \<Rightarrow> bool \<Rightarrow> int \<Rightarrow> bool" where
  "fits_bits bits is_signed v \<longleftrightarrow> (if is_signed then - (2 ^ (bits - 1)) \<le> v \<and> v < 2 ^ (bits - 1) else 0 \<le> v \<and> v < 2 ^ bits)"

lemma fits_bound: "fits_bits bits sg v \<Longrightarrow> v < 2 ^ bits"
proof (cases sg)
  case True
  moreover assume "fits_bits bits sg v"
  ultimately have "v < 2 ^ (bits - 1)" by (simp add: fits_bits_def)
  moreover have "(2 :: int) ^ (bits - 1) \<le> 2 ^ bits" by (rule power_increasing) simp_all
  ultimately show ?thesis by (rule order.strict_trans2)
qed (simp add: fits_bits_def)

lemma fits_i128:
  assumes "fits_bits bits sg v" and "bits \<le> 64"
  shows "v < 2 ^ 64" and "v < 2 ^ 127" and "- (2 ^ 127) \<le> v"
proof -
  have p: "(2 :: int) ^ k \<le> 2 ^ 64" if "k \<le> 64" for k using that by (intro power_increasing) auto
  show v: "v < 2 ^ 64" using fits_bound [OF assms(1)] p [OF assms(2)] by (rule order.strict_trans2)
  have e: "(2 :: int) ^ 64 \<le> 2 ^ 127" by simp
  show "v < 2 ^ 127" using v e by (rule order.strict_trans2)
  have "- (2 ^ (bits - 1)) \<le> v" using assms(1) by (cases sg) (simp_all add: fits_bits_def order.trans [of _ 0])
  moreover have "- (2 ^ 127) \<le> - ((2 :: int) ^ (bits - 1))" using assms(2) by (simp only: neg_le_iff_le) (rule power_increasing, simp_all)
  ultimately show "- (2 ^ 127) \<le> v" by (rule order.trans [rotated])
qed

lemma integer_default_hex:
  assumes "hex_prefix text = Some h" and "from_str_radix 64 16 h = Some v" and "0 < bits" and "fits_bits bits sg v"
  shows "integer_default bits sg text = Some v"
proof -
  have v: "0 \<le> v" using from_str_radix_bounds [OF assms(2)] by simp
  have "v div 2 ^ bits = 0" using v fits_bound [OF assms(4)] by simp
  moreover have "v div 2 ^ (bits - Suc 0) = 0" if sg using v that assms(4) by (simp add: fits_bits_def)
  ultimately show ?thesis using assms(1,2,4) by (auto simp: integer_default_def fits_bits_def split: if_splits)
qed

lemma integer_default_dec:
  assumes "hex_prefix text = None" and "parse_i128 text = Some v" and "fits_bits bits sg v"
  shows "integer_default bits sg text = Some v"
  using assms by (auto simp: integer_default_def fits_bits_def split: if_splits)

lemma hex_prefix_0x: "hex_prefix (''0x'' @ s) = Some s"
  by (simp add: hex_prefix_def strip_prefix_def)

lemma show_neg_default:
  assumes "v < 0" and "bits \<le> 64" and "fits_bits bits sg v"
  shows "integer_default bits sg (show_int v) = Some v"
proof (rule integer_default_dec [OF _ _ assms(3)])
  have "CHR ''x'' \<notin> set (show_int v) \<and> CHR ''X'' \<notin> set (show_int v)"
    using show_int_chars [of "CHR ''x''" v] show_int_chars [of "CHR ''X''" v] by (auto simp: to_digit_def)
  then show "hex_prefix (show_int v) = None" by (intro hex_prefix_none) blast
  show "parse_i128 (show_int v) = Some v" using parse_show_radix [of 10 "- v" "2 ^ 127 + 1"] assms(1) fits_i128(3) [OF assms(3,2)]
    by (simp add: parse_i128_def show_int_def starts_with_def)
qed

text \<open>
  What \<open>syn\<close> promises of an integer literal: its token, without separators, is a binary or octal literal
  or spells the value in decimal or in hexadecimal.
\<close>

definition token_reads :: "string \<Rightarrow> int \<Rightarrow> bool" where
  "token_reads token n \<longleftrightarrow>
     (let text = filter (\<lambda>c. c \<noteq> CHR ''_'') token in
      starts_with ''0b'' text \<or> starts_with ''0o'' text
      \<or> (case hex_prefix text of
           Some h \<Rightarrow> h \<noteq> [] \<and> parse_digits (2 ^ 128) 16 0 h = Some n
         | None \<Rightarrow> text \<noteq> [] \<and> parse_digits (2 ^ 128) 10 0 text = Some n))"

fun tokens_read :: "rust_expr \<Rightarrow> bool" where
  "tokens_read (ELit lit) = (case lit of LitInt token suffix n \<Rightarrow> 0 \<le> n \<and> token_reads token n | _ \<Rightarrow> True)"
| "tokens_read (EParen e) = tokens_read e"
| "tokens_read (EGroup e) = tokens_read e"
| "tokens_read (ECast e) = tokens_read e"
| "tokens_read (ENeg e) = tokens_read e"
| "tokens_read (ENot e) = tokens_read e"
| "tokens_read (EBinary op l r) = (tokens_read l \<and> tokens_read r)"
| "tokens_read EOther = True"

lemma no_plus_digits: "parse_digits b r 0 s = Some n \<Longrightarrow> r \<le> 16 \<Longrightarrow> \<not> starts_with ''+'' s \<and> \<not> starts_with ''-'' s"
  using parse_digits_all [of b r 0 s n] digit_not_special(2,3) [of r] by (cases s) (auto simp: starts_with_def)

lemma token_default:
  assumes "token_reads token n" and "text = filter (\<lambda>c. c \<noteq> CHR ''_'') token"
    and "\<not> starts_with ''0b'' text" and "\<not> starts_with ''0o'' text" and "0 < bits" and "bits \<le> 64" and "fits_bits bits sg n"
  shows "integer_default bits sg text = Some n"
proof (cases "hex_prefix text")
  case (Some h)
  then have h: "h \<noteq> []" "parse_digits (2 ^ 128) 16 0 h = Some n" using assms(1-4) by (auto simp: token_reads_def Let_def)
  have "parse_digits (2 ^ 64) 16 0 h = Some n" using parse_digits_bound [of "2 ^ 64" "2 ^ 128" 16 0 h] h(2) fits_i128(1) [OF assms(7,6)] by simp
  then have "from_str_radix 64 16 h = Some n" using h(1) no_plus_digits [of "2 ^ 64" 16 h n] by (simp add: from_str_radix_def)
  then show ?thesis using integer_default_hex [OF Some _ assms(5,7)] by simp
next
  case None
  then have t: "text \<noteq> []" "parse_digits (2 ^ 128) 10 0 text = Some n" using assms(1-4) by (auto simp: token_reads_def Let_def)
  have "parse_digits (2 ^ 127) 10 0 text = Some n" using parse_digits_bound [of "2 ^ 127" "2 ^ 128" 10 0 "text"] t(2) fits_i128(2) [OF assms(7,6)] by simp
  then have "parse_i128 text = Some n" using t(1) no_plus_digits [of "2 ^ 127" 10 "text" n] by (simp add: parse_i128_def)
  then show ?thesis using integer_default_dec [OF None _ assms(7)] by simp
qed

lemma computed_default_reads:
  assumes "eval_int e = Some v" and "0 < bits" and "bits \<le> 64" and "fits_bits bits sg v"
  shows "integer_default bits sg (computed_default e) = Some v"
proof (cases "v < 0")
  case True
  then show ?thesis using show_neg_default [OF True assms(3,4)] assms(1) by (simp add: computed_default_def)
next
  case False
  have "from_str_radix 64 16 (show_upper_hex 0 v) = Some v"
    using from_str_upper_hex [of v 64 0] fits_i128(1) [OF assms(4,3)] False by simp
  then have "integer_default bits sg (''0x'' @ show_upper_hex 0 v) = Some v"
    by (rule integer_default_hex [OF hex_prefix_0x _ assms(2,4)])
  then show ?thesis using assms(1) False by (simp add: computed_default_def)
qed

lemma flag_default: "0 < bits \<Longrightarrow> fits_bits bits sg (of_bool b) \<Longrightarrow> integer_default bits sg (if b then ''1'' else ''0'') = Some (of_bool b)"
proof -
  have "hex_prefix ''1'' = None" "hex_prefix ''0'' = None" "parse_i128 ''1'' = Some 1" "parse_i128 ''0'' = Some 0" by code_simp+
  then show "0 < bits \<Longrightarrow> fits_bits bits sg (of_bool b) \<Longrightarrow> integer_default bits sg (if b then ''1'' else ''0'') = Some (of_bool b)"
    using integer_default_dec [of "''1''" 1 bits sg] integer_default_dec [of "''0''" 0 bits sg] by (cases b) simp_all
qed

lemma exported_default_reads:
  assumes "ev_default var = Some e" and "tokens_read e" and "eval_int e = Some v" and "ev_type var \<noteq> Real32" "ev_type var \<noteq> Real64"
    and "0 < bits" and "bits \<le> 64" and "fits_bits bits sg v"
  shows "integer_default bits sg (eds_default flib var) = Some v"
proof -
  note c = computed_default_reads [OF assms(3,6,7,8)]
  show ?thesis
  proof (cases e)
    case (ELit lit)
    show ?thesis
    proof (cases lit)
      case (LitBool b)
      then have "v = of_bool b" using assms(3) ELit by simp
      then show ?thesis using flag_default [OF assms(6), of sg b] assms(1,8) ELit LitBool by (simp add: eds_default_def)
    next
      case (LitInt token suffix n)
      then have n: "v = n" "token_reads token n" using ELit assms(2,3) by (auto split: if_splits)
      show ?thesis
      proof (cases "starts_with ''0b'' (filter (\<lambda>c. c \<noteq> CHR ''_'') token) \<or> starts_with ''0o'' (filter (\<lambda>c. c \<noteq> CHR ''_'') token)")
        case True
        then show ?thesis using c assms(1,4,5) ELit LitInt by (simp add: eds_default_def Let_def) blast
      next
        case False
        then show ?thesis
          using token_default [OF n(2) refl _ _ assms(6,7)] assms(1,4,5,8) ELit LitInt n(1) by (simp add: eds_default_def Let_def)
      qed
    next
      case (LitByte b)
      then show ?thesis using c assms(1,4,5) ELit by (simp add: eds_default_def)
    qed (use ELit assms(3) in simp_all)
  qed (use c assms(1,3,4,5) in \<open>simp_all add: eds_default_def\<close>)
qed

section \<open>The round trip\<close>

definition plain_chars :: "string \<Rightarrow> bool" where
  "plain_chars s \<longleftrightarrow> s \<noteq> [] \<and> (\<forall>c\<in>set s. \<not> is_ws c \<and> c \<noteq> CHR ''$'')"

lemma plain_digits: "parse_digits b r 0 h = Some n \<Longrightarrow> r \<le> 16 \<Longrightarrow> h \<noteq> [] \<Longrightarrow> plain_chars h"
  using parse_digits_all [of b r 0 h n] digit_not_special(1,8) [of r] unfolding plain_chars_def by blast

lemma plain_Cons: "plain_chars s \<Longrightarrow> \<not> is_ws c \<Longrightarrow> c \<noteq> CHR ''$'' \<Longrightarrow> plain_chars (c # s)"
  by (simp add: plain_chars_def)

lemma plain_sign: "starts_with [c] s \<Longrightarrow> plain_chars (drop 1 s) \<Longrightarrow> \<not> is_ws c \<Longrightarrow> c \<noteq> CHR ''$'' \<Longrightarrow> plain_chars s"
  using plain_Cons by (cases s) (simp_all add: starts_with_def)

lemma plain_radix: "from_str_radix bits 16 h = Some n \<Longrightarrow> plain_chars h"
proof -
  assume h: "from_str_radix bits 16 h = Some n"
  show ?thesis
  proof (cases "starts_with ''+'' h")
    case True
    then have "plain_chars (drop 1 h)" using h plain_digits [of "2 ^ bits" 16 "drop 1 h" n] by (simp add: from_str_radix_def split: if_splits)
    moreover have "\<not> is_ws (CHR ''+'')" by (simp add: is_ws_def)
    ultimately show ?thesis using plain_sign [OF True] by simp
  next
    case False
    then show ?thesis using h plain_digits [of "2 ^ bits" 16 h n] by (simp add: from_str_radix_def split: if_splits)
  qed
qed

lemma plain_i128: "parse_i128 h = Some n \<Longrightarrow> plain_chars h"
proof -
  assume h: "parse_i128 h = Some n"
  have w: "\<not> is_ws (CHR ''+'')" "\<not> is_ws (CHR ''-'')" by (simp_all add: is_ws_def)
  show ?thesis
  proof (cases "starts_with ''-'' h")
    case True
    then obtain m where "drop 1 h \<noteq> []" "parse_digits (2 ^ 127 + 1) 10 0 (drop 1 h) = Some m"
      using h by (auto simp: parse_i128_def split: if_splits)
    then have "plain_chars (drop 1 h)" using plain_digits [of "2 ^ 127 + 1" 10 "drop 1 h" m] by simp
    then show ?thesis using plain_sign [OF True] w by simp
  next
    case m: False
    show ?thesis
    proof (cases "starts_with ''+'' h")
      case True
      then have "plain_chars (drop 1 h)" using m h plain_digits [of "2 ^ 127" 10 "drop 1 h" n] by (simp add: parse_i128_def split: if_splits)
      then show ?thesis using plain_sign [OF True] w by simp
    next
      case False
      then show ?thesis using m h plain_digits [of "2 ^ 127" 10 h n] by (simp add: parse_i128_def split: if_splits)
    qed
  qed
qed

lemma reads_chars:
  assumes "integer_default bits sg s = Some v"
  shows "plain_chars s"
proof (cases "hex_prefix s")
  case (Some h)
  then obtain n where "from_str_radix 64 16 h = Some n" using assms by (auto simp: integer_default_def bind_eq_Some_conv)
  then have h: "plain_chars h" by (rule plain_radix)
  have x: "s = ''0x'' @ h \<or> s = ''0X'' @ h"
  proof -
    have t: "strip_prefix p s = Some h \<Longrightarrow> s = p @ h" for p
      unfolding strip_prefix_def by (metis append_take_drop_id option.distinct(1) option.inject)
    then show ?thesis using Some t [of "''0x''"] t [of "''0X''"] by (auto simp: hex_prefix_def split: option.splits)
  qed
  have "\<not> is_ws (CHR ''0'')" "\<not> is_ws (CHR ''x'')" "\<not> is_ws (CHR ''X'')" by (simp_all add: is_ws_def)
  then show ?thesis using x h by (auto intro!: plain_Cons)
next
  case None
  then obtain n where "parse_i128 s = Some n" using assms by (auto simp: integer_default_def bind_eq_Some_conv)
  then show ?thesis by (rule plain_i128)
qed

lemma upper_dollar: "c \<noteq> CHR ''$'' \<Longrightarrow> ascii_upper c \<noteq> CHR ''$''"
proof -
  assume c: "c \<noteq> CHR ''$''"
  define k :: nat where "k = of_char c"
  have n: "(of_char c :: int) = int k" by (simp only: k_def of_nat_of_char)
  show ?thesis
  proof (cases "97 \<le> k \<and> k \<le> 122")
    case True
    then have "to_digit 36 c \<noteq> None" unfolding to_digit_def n Let_def by auto
    moreover have "to_digit 36 (CHR ''$'') = None" by code_simp
    ultimately show ?thesis using to_digit_upper [of 36 c] by metis
  next
    case False
    then have "ascii_upper c = c" by (auto simp: ascii_upper_def k_def Let_def)
    then show ?thesis using c by simp
  qed
qed

lemma no_node_id: "\<forall>c\<in>set s. c \<noteq> CHR ''$'' \<Longrightarrow> \<not> contains ''$NODEID'' (to_ascii_uppercase s)"
  unfolding contains_def to_ascii_uppercase_def
  by (subst split_once_None) (use upper_dollar in fastforce)+

lemma normalize_integer:
  assumes "integer_type code = Some (bits, sg)" and "integer_default bits sg s = Some v"
  shows "normalize_default lib s code = Some (show_int v)"
proof -
  have t: "code \<noteq> 0x0001" "code \<noteq> 0x0008" "code \<noteq> 0x0011" using assms(1) by (auto simp: integer_type_def)
  have "trim s = s" using reads_chars [OF assms(2)] unfolding plain_chars_def by (intro trim_no_ws) blast
  moreover have "\<not> contains ''$NODEID'' (to_ascii_uppercase s)" using reads_chars [OF assms(2)] unfolding plain_chars_def by (intro no_node_id) blast
  ultimately show ?thesis using reads_chars [OF assms(2)] assms t by (simp add: plain_chars_def normalize_default_def Let_def)
qed

text \<open>
  C40. Integer defaults survive the export to a data sheet and its import: for an entry of an integer type
  whose default is a constant expression (literals in any base, signs, casts, arithmetic and bit
  operations) that evaluates to a value of the type, the text that \<open>eds_default\<close> writes is imported as
  the decimal literal of that value.
\<close>

theorem eds_integer_default_roundtrip:
  assumes "integer_type (type_to_eds_code (ev_type var)) = Some (bits, is_signed)" and "ev_default var = Some e"
    and "tokens_read e" and "eval_int e = Some v" and "fits_bits bits is_signed v"
  shows "normalize_default lib (eds_default flib var) (type_to_eds_code (ev_type var)) = Some (show_int v)"
proof (rule normalize_integer [OF assms(1)])
  have "0 < bits" "bits \<le> 64" using assms(1) by (auto simp: integer_type_def split: if_splits)
  moreover have "ev_type var \<noteq> Real32" "ev_type var \<noteq> Real64"
    using assms(1) by (auto simp: integer_type_def type_to_eds_code_def)
  ultimately show "integer_default bits is_signed (eds_default flib var) = Some v"
    using exported_default_reads [OF assms(2-4)] assms(5) by blast
qed

text \<open>A concrete default: \<open>-(1 << 4)\<close> of an INTEGER16.\<close>

definition demo_expr :: rust_expr where
  "demo_expr = ENeg (EParen (EBinary OpShl (ELit (LitInt ''1'' [] 1)) (ELit (LitInt ''4'' [] 4))))"

definition demo_var :: "data_type \<Rightarrow> rust_expr \<Rightarrow> eds_var" where
  "demo_var t e = \<lparr>ev_type = t, ev_capacity = None, ev_default = Some e, ev_access = Rw, ev_pdo_mappable = False\<rparr>"

definition demo_float_lib :: float_lib where
  "demo_float_lib = \<lparr>fl_parse = (\<lambda>_. None), fl_show = (\<lambda>_. [])\<rparr>"

theorem eds_integer_default_roundtrip_witness:
  "normalize_default demo_eds_lib (eds_default demo_float_lib (demo_var I16 demo_expr)) 0x0003 = Some (show_int (-16))
   \<and> eds_default demo_float_lib (demo_var I16 demo_expr) = ''-16''"
proof -
  have "integer_type (type_to_eds_code (ev_type (demo_var I16 demo_expr))) = Some (16, True)" by code_simp
  moreover have "ev_default (demo_var I16 demo_expr) = Some demo_expr" by (simp add: demo_var_def)
  moreover have "tokens_read demo_expr" by code_simp
  moreover have "eval_int demo_expr = Some (-16)" by code_simp
  moreover have "fits_bits 16 True (-16)" by code_simp
  ultimately have "normalize_default demo_eds_lib (eds_default demo_float_lib (demo_var I16 demo_expr))
      (type_to_eds_code (ev_type (demo_var I16 demo_expr))) = Some (show_int (-16))"
    by (rule eds_integer_default_roundtrip)
  moreover have "type_to_eds_code (ev_type (demo_var I16 demo_expr)) = 0x0003" by code_simp
  moreover have "eds_default demo_float_lib (demo_var I16 demo_expr) = ''-16''" by code_simp
  ultimately show ?thesis by simp
qed

text \<open>
  A default written with \<open>!\<close> is evaluated without the width of its type: \<open>!0\<close> of an UNSIGNED8, the
  value 255, is exported as \<open>-1\<close>, and the import rejects it.
\<close>

lemma eds_not_default_unreadable:
  "eds_default demo_float_lib (demo_var U8 (ENot (ELit (LitInt ''0'' [] 0)))) = ''-1''
   \<and> normalize_default demo_eds_lib ''-1'' 0x0005 = None"
  by code_simp

end
