(* ===== verification/Fw_Meta.thy ===== *)
theory Fw_Meta
  imports Object_Dictionary
begin

unbundle bit_operations_syntax

text \<open>
  The metadata log of the firmware update example (\<open>examples/emdm-fwupdate/common\<close>): the flash map,
  the record format, the scan for the record in force and the append operation, and the checks of the
  application image. The flash driver and the CRC-32 routine are external: the driver is the record
  \<open>flash_ops\<close> (its error value is only logged, so a result is a success flag), the CRC a function on
  bytes. Flash contents are read through the memory map at natural number offsets; every offset of this
  flash is below 2^17.
\<close>

section \<open>Flash map\<close>

abbreviation FLASH_BASE :: u32 where "FLASH_BASE \<equiv> 0x08000000"
abbreviation PAGE_SIZE :: nat where "PAGE_SIZE \<equiv> 2048"
abbreviation META_OFFSET :: nat where "META_OFFSET \<equiv> 57344"
abbreviation META_SIZE :: nat where "META_SIZE \<equiv> 2048"
abbreviation APP_OFFSET :: nat where "APP_OFFSET \<equiv> 59392"
abbreviation APP_SIZE :: nat where "APP_SIZE \<equiv> 71680"
abbreviation APP_BASE :: u32 where "APP_BASE \<equiv> 0x0800E800"
abbreviation RAM_BASE :: u32 where "RAM_BASE \<equiv> 0x20000000"
abbreviation RAM_SIZE :: u32 where "RAM_SIZE \<equiv> 32768"
abbreviation META_MAGIC :: u32 where "META_MAGIC \<equiv> 0x4D444D45"
abbreviation META_RECORD_SIZE :: nat where "META_RECORD_SIZE \<equiv> 32"
abbreviation META_SLOTS :: nat where "META_SLOTS \<equiv> 64"

record 'f flash_ops =
  fo_write :: "nat \<Rightarrow> bytes \<Rightarrow> 'f \<Rightarrow> bool \<times> 'f"
  fo_erase :: "nat \<Rightarrow> nat \<Rightarrow> 'f \<Rightarrow> bool \<times> 'f"
  fo_read :: "'f \<Rightarrow> nat \<Rightarrow> u8"

definition mem_bytes :: "'f flash_ops \<Rightarrow> 'f \<Rightarrow> nat \<Rightarrow> nat \<Rightarrow> bytes" where
  "mem_bytes ops f off n = map (fo_read ops f) [off..<off + n]"

section \<open>Records\<close>

record meta_record =
  mr_seq :: u32
  mr_app_len :: u32
  mr_app_crc :: u32
  mr_app_valid :: bool
  mr_update_requested :: bool

definition meta_blank :: meta_record where
  "meta_blank = \<lparr>mr_seq = 0, mr_app_len = 0, mr_app_crc = 0, mr_app_valid = False, mr_update_requested = False\<rparr>"

definition meta_body :: "meta_record \<Rightarrow> bytes" where
  "meta_body r = to_le_bytes 4 META_MAGIC @ to_le_bytes 4 (mr_seq r) @ to_le_bytes 4 (mr_app_len r)
     @ to_le_bytes 4 (mr_app_crc r) @ [of_bool (mr_app_valid r), of_bool (mr_update_requested r)] @ replicate 10 0"

definition meta_encode :: "(bytes \<Rightarrow> u32) \<Rightarrow> meta_record \<Rightarrow> bytes" where
  "meta_encode crc r = meta_body r @ to_le_bytes 4 (crc (meta_body r))"

definition meta_decode :: "(bytes \<Rightarrow> u32) \<Rightarrow> bytes \<Rightarrow> meta_record option" where
  "meta_decode crc raw =
     (if length raw \<noteq> META_RECORD_SIZE then None
      else if from_le_bytes (take 4 raw) \<noteq> META_MAGIC then None
      else if crc (take 28 raw) \<noteq> from_le_bytes (take 4 (drop 28 raw)) then None
      else Some \<lparr>mr_seq = from_le_bytes (take 4 (drop 4 raw)), mr_app_len = from_le_bytes (take 4 (drop 8 raw)),
        mr_app_crc = from_le_bytes (take 4 (drop 12 raw)), mr_app_valid = (raw ! 16 \<noteq> 0), mr_update_requested = (raw ! 17 \<noteq> 0)\<rparr>)"

definition meta_next :: "meta_record \<Rightarrow> (meta_record \<Rightarrow> meta_record) \<Rightarrow> meta_record" where
  "meta_next r g = g (r\<lparr>mr_seq := mr_seq r + 1\<rparr>)"

section \<open>The log\<close>

fun chunks_exact :: "nat \<Rightarrow> 'a list \<Rightarrow> 'a list list" where
  "chunks_exact n xs = (if n = 0 \<or> length xs < n then [] else take n xs # chunks_exact n (drop n xs))"

declare chunks_exact.simps [simp del]

definition meta_newer :: "meta_record \<Rightarrow> meta_record \<Rightarrow> bool" where
  "meta_newer r b \<longleftrightarrow> mr_seq r \<noteq> mr_seq b \<and> mr_seq r - mr_seq b < 2 ^ 31"

definition scan_slot ::
  "(bytes \<Rightarrow> u32) \<Rightarrow> nat \<times> bytes \<Rightarrow> meta_record option \<times> nat \<Rightarrow> meta_record option \<times> nat" where
  "scan_slot crc = (\<lambda>(slot, raw) (best, next_free).
     (case meta_decode crc raw of
        None \<Rightarrow> best
      | Some r \<Rightarrow> (case best of None \<Rightarrow> Some r | Some b \<Rightarrow> if meta_newer r b then Some r else best),
      if next_free = META_SLOTS \<and> list_all (\<lambda>b. b = 0xFF) raw then slot else next_free))"

definition scan_meta :: "(bytes \<Rightarrow> u32) \<Rightarrow> bytes \<Rightarrow> meta_record \<times> nat" where
  "scan_meta crc page =
     (let (best, next_free) = fold (scan_slot crc) (List.enumerate 0 (chunks_exact META_RECORD_SIZE page)) (None, META_SLOTS)
      in (case best of None \<Rightarrow> meta_blank | Some r \<Rightarrow> r, next_free))"

definition meta_page :: "'f flash_ops \<Rightarrow> 'f \<Rightarrow> bytes" where
  "meta_page ops f = mem_bytes ops f META_OFFSET META_SIZE"

definition load_meta :: "'f flash_ops \<Rightarrow> (bytes \<Rightarrow> u32) \<Rightarrow> 'f \<Rightarrow> meta_record \<times> nat" where
  "load_meta ops crc f = scan_meta crc (meta_page ops f)"

definition append_meta :: "'f flash_ops \<Rightarrow> (bytes \<Rightarrow> u32) \<Rightarrow> meta_record \<Rightarrow> 'f \<Rightarrow> bool \<times> 'f" where
  "append_meta ops crc r f =
     (let next_free = snd (load_meta ops crc f) in
      if next_free \<ge> META_SLOTS then
        (case fo_erase ops META_OFFSET (META_OFFSET + META_SIZE) f of
           (False, f) \<Rightarrow> (False, f)
         | (True, f) \<Rightarrow> fo_write ops META_OFFSET (meta_encode crc r) f)
      else fo_write ops (META_OFFSET + next_free * META_RECORD_SIZE) (meta_encode crc r) f)"

section \<open>The application image\<close>

definition app_image :: "'f flash_ops \<Rightarrow> 'f \<Rightarrow> u32 \<Rightarrow> bytes option" where
  "app_image ops f len = (if len = 0 \<or> unat len > APP_SIZE then None else Some (mem_bytes ops f APP_OFFSET (unat len)))"

definition vector_table_ok :: "u32 \<Rightarrow> bytes \<Rightarrow> bool" where
  "vector_table_ok len img \<longleftrightarrow>
     (let sp = from_le_bytes (take 4 img) :: u32; reset = from_le_bytes (take 4 (drop 4 img)) :: u32
      in sp > RAM_BASE \<and> sp \<le> RAM_BASE + RAM_SIZE \<and> sp mod 8 = 0
         \<and> reset AND 1 = 1 \<and> reset > APP_BASE \<and> reset < APP_BASE + len)"

definition app_vector_table_plausible :: "'f flash_ops \<Rightarrow> 'f \<Rightarrow> u32 \<Rightarrow> bool" where
  "app_vector_table_plausible ops f len =
     (case app_image ops f len of
        None \<Rightarrow> False
      | Some img \<Rightarrow> \<not> length img < 8 \<and> vector_table_ok len img)"

definition app_image_verifies :: "'f flash_ops \<Rightarrow> (bytes \<Rightarrow> u32) \<Rightarrow> 'f \<Rightarrow> meta_record \<Rightarrow> bool" where
  "app_image_verifies ops crc f r =
     (app_vector_table_plausible ops f (mr_app_len r)
      \<and> (case app_image ops f (mr_app_len r) of Some img \<Rightarrow> crc img = mr_app_crc r | None \<Rightarrow> False))"

section \<open>Record round trip\<close>

lemma length_meta_encode [simp]: "length (meta_encode crc r) = 32"
  by (simp add: meta_encode_def meta_body_def)

lemma meta_decode_encode: "meta_decode crc (meta_encode crc r) = Some r"
proof -
  have b: "length (meta_body r) = 28" by (simp add: meta_body_def)
  have le: "from_le_bytes (to_le_bytes 4 w) = w" for w :: u32 by (rule from_le_to_le) simp
  have t: "take 28 (meta_encode crc r) = meta_body r" "drop 28 (meta_encode crc r) = to_le_bytes 4 (crc (meta_body r))"
    using b by (simp_all add: meta_encode_def)
  show ?thesis using t le
    by (simp add: meta_decode_def) (simp add: meta_encode_def meta_body_def nth_append le)
qed

lemma erased_not_record: "list_all (\<lambda>b. b = 0xFF) raw \<Longrightarrow> meta_decode crc raw = None"
proof -
  assume a: "list_all (\<lambda>b. b = 0xFF) raw"
  show ?thesis
  proof (cases "length raw = 32")
    case True
    then have "raw = replicate 32 0xFF" using a by (metis (mono_tags, lifting) list_all_iff replicate_length_same)
    then have "take 4 raw = [0xFF, 0xFF, 0xFF, 0xFF]" by (simp add: numeral_eq_Suc)
    moreover have "(from_le_bytes [0xFF, 0xFF, 0xFF, 0xFF] :: u32) \<noteq> META_MAGIC" by code_simp
    ultimately show ?thesis by (simp add: meta_decode_def)
  qed (simp add: meta_decode_def)
qed

section \<open>The log as a list of slots\<close>

definition pick :: "(bytes \<Rightarrow> u32) \<Rightarrow> bytes \<Rightarrow> meta_record option \<Rightarrow> meta_record option" where
  "pick crc raw best = (case meta_decode crc raw of
     None \<Rightarrow> best
   | Some r \<Rightarrow> (case best of None \<Rightarrow> Some r | Some b \<Rightarrow> if meta_newer r b then Some r else best))"

definition newest :: "(bytes \<Rightarrow> u32) \<Rightarrow> bytes list \<Rightarrow> meta_record option" where
  "newest crc slots = fold (pick crc) slots None"

abbreviation erased :: "bytes \<Rightarrow> bool" where "erased raw \<equiv> list_all (\<lambda>b. b = 0xFF) raw"

fun first_erased :: "bytes list \<Rightarrow> nat" where
  "first_erased [] = 0"
| "first_erased (raw # slots) = (if erased raw then 0 else Suc (first_erased slots))"

text \<open>The slots of the page, and its log: nothing after the first erased slot is a record.\<close>

definition slot_bytes :: "'f flash_ops \<Rightarrow> 'f \<Rightarrow> nat \<Rightarrow> bytes" where
  "slot_bytes ops f k = mem_bytes ops f (META_OFFSET + k * META_RECORD_SIZE) META_RECORD_SIZE"

definition slots_of :: "'f flash_ops \<Rightarrow> 'f \<Rightarrow> bytes list" where
  "slots_of ops f = map (slot_bytes ops f) [0..<META_SLOTS]"

definition tail_clean :: "(bytes \<Rightarrow> u32) \<Rightarrow> bytes list \<Rightarrow> bool" where
  "tail_clean crc slots \<longleftrightarrow> (\<forall>raw\<in>set (drop (first_erased slots) slots). meta_decode crc raw = None)"

lemma chunks_concat:
  "0 < n \<Longrightarrow> \<forall>xs\<in>set xss. length xs = n \<Longrightarrow> chunks_exact n (concat xss) = xss"
proof (induction xss)
  case (Cons xs xss)
  then show ?case by (subst chunks_exact.simps) simp
qed (simp add: chunks_exact.simps)

lemma mem_bytes_append: "mem_bytes ops f off (m + n) = mem_bytes ops f off m @ mem_bytes ops f (off + m) n"
proof -
  have "[off..<off + (m + n)] = [off..<off + m] @ [off + m..<off + m + n]" using upt_add_eq_append [of off "off + m" n] by (simp add: add.assoc)
  then show ?thesis by (simp only: mem_bytes_def map_append)
qed

lemma mem_bytes_blocks: "mem_bytes ops f off (k * n) = concat (map (\<lambda>i. mem_bytes ops f (off + i * n) n) [0..<k])"
proof (induction k)
  case (Suc k)
  have "mem_bytes ops f off (Suc k * n) = mem_bytes ops f off (k * n) @ mem_bytes ops f (off + k * n) n"
    using mem_bytes_append [of ops f off "k * n" n] by (simp add: add.commute)
  then show ?case using Suc by simp
qed (simp add: mem_bytes_def)

lemma length_mem_bytes [simp]: "length (mem_bytes ops f off n) = n"
  by (simp add: mem_bytes_def)

lemma chunks_page: "chunks_exact META_RECORD_SIZE (meta_page ops f) = slots_of ops f"
proof -
  have "meta_page ops f = concat (slots_of ops f)"
    unfolding meta_page_def slots_of_def slot_bytes_def using mem_bytes_blocks [of ops f META_OFFSET 64 32] by simp
  then show ?thesis using chunks_concat [of META_RECORD_SIZE "slots_of ops f"] by (simp add: slots_of_def slot_bytes_def)
qed

lemma scan_slot_pick:
  "scan_slot crc (slot, raw) (best, nf) = (pick crc raw best, if nf = META_SLOTS \<and> erased raw then slot else nf)"
  by (simp add: scan_slot_def pick_def)

lemma scan_fold:
  "length slots + n \<le> META_SLOTS \<Longrightarrow>
   fold (scan_slot crc) (List.enumerate n slots) (best, META_SLOTS)
     = (fold (pick crc) slots best, if first_erased slots < length slots then n + first_erased slots else META_SLOTS)"
proof (induction slots arbitrary: n best)
  case (Cons raw slots)
  have found: "fold (scan_slot crc) (List.enumerate m ss) (b, j) = (fold (pick crc) ss b, j)" if "j < META_SLOTS" for m ss b j
    using that by (induction ss arbitrary: m b) (simp_all add: scan_slot_pick)
  show ?case
  proof (cases "erased raw")
    case True
    then show ?thesis using Cons.prems found [of n "Suc n" slots "pick crc raw best"] by (simp add: scan_slot_pick)
  next
    case False
    then show ?thesis using Cons.IH [of "Suc n" "pick crc raw best"] Cons.prems by (simp add: scan_slot_pick)
  qed
qed simp

lemma first_erased_le: "first_erased slots \<le> length slots"
  by (induction slots) auto

lemma load_meta_slots:
  "load_meta ops crc f = (case newest crc (slots_of ops f) of None \<Rightarrow> meta_blank | Some r \<Rightarrow> r, first_erased (slots_of ops f))"
proof -
  have "length (slots_of ops f) = 64" by (simp add: slots_of_def)
  then show ?thesis using scan_fold [of "slots_of ops f" 0 crc None] first_erased_le [of "slots_of ops f"]
    by (auto simp: load_meta_def scan_meta_def chunks_page newest_def)
qed

section \<open>Appending to the log\<close>

lemma fold_no_record: "\<forall>raw\<in>set slots. meta_decode crc raw = None \<Longrightarrow> fold (pick crc) slots b = b"
  by (induction slots) (simp_all add: pick_def)

lemma first_erased_split:
  "first_erased slots < length slots \<Longrightarrow> slots = take (first_erased slots) slots @ slots ! first_erased slots # drop (Suc (first_erased slots)) slots
    \<and> erased (slots ! first_erased slots) \<and> (\<forall>raw\<in>set (take (first_erased slots) slots). \<not> erased raw)"
  by (induction slots) (auto simp: id_take_nth_drop)

lemma newest_append:
  assumes "tail_clean crc slots" and "k = first_erased slots" and "k < length slots"
  shows "newest crc (slots[k := raw]) = pick crc raw (newest crc slots)"
proof -
  note s = first_erased_split [of slots] 
  have d: "\<forall>raw\<in>set (drop (Suc k) slots). meta_decode crc raw = None"
    using assms(1,2) set_drop_subset_set_drop [of k "Suc k" slots] by (auto simp: tail_clean_def)
  have e: "meta_decode crc (slots ! k) = None" using s assms(2,3) by (intro erased_not_record) simp
  have "newest crc slots = fold (pick crc) (take k slots) None"
    using s assms(2,3) fold_no_record [OF d] e unfolding newest_def by (metis (no_types, lifting) fold_append fold_simps(2) comp_apply pick_def option.simps(4))
  moreover have "slots[k := raw] = take k slots @ raw # drop (Suc k) slots" using assms(3) by (rule upd_conv_take_nth_drop)
  ultimately show ?thesis using fold_no_record [OF d] by (simp add: newest_def)
qed

lemma first_erased_update:
  assumes "k = first_erased slots" and "k < length slots"
  shows "if erased raw then first_erased (slots[k := raw]) = k else k < first_erased (slots[k := raw])"
  using assms by (induction slots arbitrary: k) auto

lemma tail_clean_update:
  assumes "tail_clean crc slots" and "k = first_erased slots" and "k < length slots"
  shows "tail_clean crc (slots[k := raw])"
proof -
  have d: "\<forall>raw\<in>set (drop (Suc k) slots). meta_decode crc raw = None"
    using assms(1,2) set_drop_subset_set_drop [of k "Suc k" slots] by (auto simp: tail_clean_def)
  have u: "drop (Suc k) (slots[k := raw]) = drop (Suc k) slots" by simp
  show ?thesis
  proof (cases "erased raw")
    case True
    have "drop k (slots[k := raw]) = raw # drop (Suc k) slots"
      using assms(3) by (simp add: Cons_nth_drop_Suc [symmetric])
    then show ?thesis using True first_erased_update [OF assms(2,3), of raw] d erased_not_record [OF True] by (auto simp: tail_clean_def)
  next
    case False
    then have "k < first_erased (slots[k := raw])" using first_erased_update [OF assms(2,3), of raw] by simp
    then have "set (drop (first_erased (slots[k := raw])) (slots[k := raw])) \<subseteq> set (drop (Suc k) (slots[k := raw]))"
      by (intro set_drop_subset_set_drop) simp
    then show ?thesis using d unfolding u tail_clean_def by blast
  qed
qed

section \<open>What the flash driver promises\<close>

text \<open>
  A successful write or erase has its effect; one that fails, or is cut short by a loss of power, may leave
  anything in its range and changes nothing outside it.
\<close>

definition flash_laws :: "'f flash_ops \<Rightarrow> bool" where
  "flash_laws ops \<longleftrightarrow>
     (\<forall>off data f ok f'. fo_write ops off data f = (ok, f') \<longrightarrow>
        (\<forall>i. if off \<le> i \<and> i < off + length data then ok \<longrightarrow> fo_read ops f' i = data ! (i - off)
             else fo_read ops f' i = fo_read ops f i))
     \<and> (\<forall>from to f ok f'. fo_erase ops from to f = (ok, f') \<longrightarrow>
        (\<forall>i. if from \<le> i \<and> i < to then ok \<longrightarrow> fo_read ops f' i = 0xFF else fo_read ops f' i = fo_read ops f i))"

definition outside_page :: "nat \<Rightarrow> bool" where
  "outside_page i \<longleftrightarrow> i < META_OFFSET \<or> META_OFFSET + META_SIZE \<le> i"

lemma mem_bytes_cong: "(\<And>i. off \<le> i \<Longrightarrow> i < off + n \<Longrightarrow> fo_read ops f' i = fo_read ops f i) \<Longrightarrow> mem_bytes ops f' off n = mem_bytes ops f off n"
  by (simp add: mem_bytes_def)

lemma write_outside:
  assumes "flash_laws ops" and "fo_write ops off data f = (ok, f')" and "i < off \<or> off + length data \<le> i"
  shows "fo_read ops f' i = fo_read ops f i"
  using assms unfolding flash_laws_def by (metis leD)

lemma erase_outside:
  assumes "flash_laws ops" and "fo_erase ops a b f = (ok, f')" and "i < a \<or> b \<le> i"
  shows "fo_read ops f' i = fo_read ops f i"
  using assms unfolding flash_laws_def by (metis leD)

lemma write_inside:
  assumes "flash_laws ops" and "fo_write ops off data f = (True, f')"
  shows "mem_bytes ops f' off (length data) = data"
proof (rule nth_equalityI)
  fix i
  assume "i < length (mem_bytes ops f' off (length data))"
  then have "off + i < off + length data" "off \<le> off + i" by simp_all
  then have "fo_read ops f' (off + i) = data ! (off + i - off)" using assms unfolding flash_laws_def by metis
  then show "mem_bytes ops f' off (length data) ! i = data ! i"
    using \<open>off + i < off + length data\<close> by (simp add: mem_bytes_def)
qed simp

lemma write_slot:
  assumes "flash_laws ops" and "k < META_SLOTS" and "fo_write ops (META_OFFSET + k * META_RECORD_SIZE) data f = (ok, f')"
    and "length data = META_RECORD_SIZE"
  shows "slots_of ops f' = (slots_of ops f)[k := slot_bytes ops f' k]" and "ok \<Longrightarrow> slot_bytes ops f' k = data"
    and "outside_page i \<Longrightarrow> fo_read ops f' i = fo_read ops f i"
proof -
  have o: "fo_read ops f' i = fo_read ops f i" if "i < META_OFFSET + k * META_RECORD_SIZE \<or> META_OFFSET + k * META_RECORD_SIZE + META_RECORD_SIZE \<le> i" for i
    using write_outside [OF assms(1,3)] that assms(4) by simp
  show "outside_page i \<Longrightarrow> fo_read ops f' i = fo_read ops f i"
    using o [of i] assms(2) by (auto simp: outside_page_def)
  show "ok \<Longrightarrow> slot_bytes ops f' k = data"
    using write_inside [OF assms(1), of "META_OFFSET + k * META_RECORD_SIZE" data f f'] assms(3,4) by (simp add: slot_bytes_def)
  have "slot_bytes ops f' j = slot_bytes ops f j" if "j \<noteq> k" for j
    unfolding slot_bytes_def
  proof (rule mem_bytes_cong)
    fix i assume "META_OFFSET + j * META_RECORD_SIZE \<le> i" "i < META_OFFSET + j * META_RECORD_SIZE + META_RECORD_SIZE"
    then show "fo_read ops f' i = fo_read ops f i" using that by (intro o) (cases "j < k"; linarith)
  qed
  then show "slots_of ops f' = (slots_of ops f)[k := slot_bytes ops f' k]"
    using assms(2) by (intro list_eq_iff_nth_eq [THEN iffD2] conjI allI impI) (auto simp: slots_of_def nth_list_update)
qed

lemma erase_page:
  assumes "flash_laws ops" and "fo_erase ops META_OFFSET (META_OFFSET + META_SIZE) f = (ok, f')"
  shows "ok \<Longrightarrow> raw \<in> set (slots_of ops f') \<Longrightarrow> erased raw" and "outside_page i \<Longrightarrow> fo_read ops f' i = fo_read ops f i"
proof -
  have e: "if META_OFFSET \<le> i \<and> i < META_OFFSET + META_SIZE then ok \<longrightarrow> fo_read ops f' i = 0xFF else fo_read ops f' i = fo_read ops f i" for i
    using assms unfolding flash_laws_def by blast
  then show "outside_page i \<Longrightarrow> fo_read ops f' i = fo_read ops f i" by (auto simp: outside_page_def split: if_splits)
  assume "ok" "raw \<in> set (slots_of ops f')"
  then obtain k where k: "k < META_SLOTS" "raw = slot_bytes ops f' k" by (auto simp: slots_of_def)
  have "fo_read ops f' i = 0xFF" if "META_OFFSET + k * META_RECORD_SIZE \<le> i" "i < META_OFFSET + k * META_RECORD_SIZE + META_RECORD_SIZE" for i
    using e [of i] \<open>ok\<close> that k(1) by (simp split: if_splits)
  then show "erased raw" unfolding k(2) slot_bytes_def mem_bytes_def by (simp add: list_all_iff)
qed

section \<open>The log is an atomic register\<close>

lemma length_slots [simp]: "length (slots_of ops f) = META_SLOTS"
  by (simp add: slots_of_def)

lemma pick_next:
  assumes "meta_decode crc raw = Some r" and "b = None \<or> mr_seq r = mr_seq (the b) + 1"
  shows "pick crc raw b = Some r"
proof -
  have "meta_newer r c" if "mr_seq r = mr_seq c + 1" for c using that by (simp add: meta_newer_def)
  then show ?thesis using assms by (cases b) (simp_all add: pick_def)
qed

lemma slots_erased:
  assumes "\<forall>raw\<in>set slots. erased raw" and "slots \<noteq> []"
  shows "first_erased slots = 0" and "tail_clean crc slots" and "newest crc slots = None"
proof -
  have n: "\<forall>raw\<in>set slots. meta_decode crc raw = None" using assms(1) erased_not_record by blast
  show "first_erased slots = 0" using assms by (cases slots) simp_all
  then show "tail_clean crc slots" using n by (simp add: tail_clean_def)
  show "newest crc slots = None" using fold_no_record [OF n] by (simp add: newest_def)
qed

text \<open>The slot that an append writes, and the log it finds there: the old one, or an erased page.\<close>

lemma append_meta_effect:
  assumes "flash_laws ops" and "tail_clean crc (slots_of ops f)" and "append_meta ops crc r f = (ok, f')"
    and "\<not> ok \<longrightarrow> snd (load_meta ops crc f) < META_SLOTS"
  obtains b k where "b = newest crc (slots_of ops f) \<or> b = None \<and> snd (load_meta ops crc f) = META_SLOTS" and "k < META_SLOTS"
    and "newest crc (slots_of ops f') = pick crc (slot_bytes ops f' k) b" and "tail_clean crc (slots_of ops f')"
    and "ok \<longrightarrow> slot_bytes ops f' k = meta_encode crc r" and "\<forall>i. outside_page i \<longrightarrow> fo_read ops f' i = fo_read ops f i"
    and "snd (load_meta ops crc f) < META_SLOTS \<Longrightarrow> k = snd (load_meta ops crc f) \<and> b = newest crc (slots_of ops f)"
proof (cases "snd (load_meta ops crc f) < META_SLOTS")
  case True
  define k where "k = first_erased (slots_of ops f)"
  have k: "k = snd (load_meta ops crc f)" "k < META_SLOTS" using True by (simp_all add: k_def load_meta_slots)
  have w: "fo_write ops (META_OFFSET + k * META_RECORD_SIZE) (meta_encode crc r) f = (ok, f')"
    using assms(3) k by (simp add: append_meta_def Let_def)
  note s = write_slot [OF assms(1) k(2) w length_meta_encode]
  show ?thesis
    using that [of "newest crc (slots_of ops f)" k] k s newest_append [OF assms(2) k_def, of "slot_bytes ops f' k"]
      tail_clean_update [OF assms(2) k_def, of "slot_bytes ops f' k"] by simp
next
  case False
  then have ok: "ok" using assms(4) by blast
  obtain f1 where e: "fo_erase ops META_OFFSET (META_OFFSET + META_SIZE) f = (True, f1)"
    and w: "fo_write ops (META_OFFSET + 0 * META_RECORD_SIZE) (meta_encode crc r) f1 = (ok, f')"
    using assms(3) False ok by (auto simp: append_meta_def Let_def split: prod.splits bool.splits)
  have z: "\<forall>raw\<in>set (slots_of ops f1). erased raw" using erase_page(1) [OF assms(1) e] by simp
  have "slots_of ops f1 \<noteq> []" using length_slots [of ops f1] by fastforce
  note z = slots_erased [OF z this]
  note s = write_slot [OF assms(1) _ w length_meta_encode]
  have u: "snd (load_meta ops crc f) = META_SLOTS"
    using False first_erased_le [of "slots_of ops f"] by (simp add: load_meta_slots)
  show ?thesis
    using that [of None 0] u s z newest_append [OF z(2) z(1) [symmetric], where raw = "slot_bytes ops f' 0"]
      tail_clean_update [OF z(2) z(1) [symmetric], where raw = "slot_bytes ops f' 0"] erase_page(2) [OF assms(1) e] by simp
qed

text \<open>
  The metadata log is a register with atomic writes: appending the next generation (its sequence number is
  one more than that of the record in force, modulo 2^32) either succeeds, and then this record is in force at
  the next boot, whether the page had a free slot or had to be erased first; or it fails or is cut off by a
  loss of power while writing the free slot, and then the record in force is the old one or, when the write
  got through, the new one. Nothing outside the metadata page changes, and the log stays well-formed. Asked of
  the driver: a write changes nothing but its range, and a torn record is refused by its CRC or complete.
\<close>

theorem append_meta_atomic:
  assumes "flash_laws ops" and "tail_clean crc (slots_of ops f)" and "mr_seq r = mr_seq (fst (load_meta ops crc f)) + 1"
    and "append_meta ops crc r f = (ok, f')" and "free = snd (load_meta ops crc f)"
    and "\<not> ok \<longrightarrow> free < META_SLOTS \<and> meta_decode crc (slot_bytes ops f' free) \<in> {None, Some r}"
  shows "(if ok then fst (load_meta ops crc f') = r else fst (load_meta ops crc f') \<in> {fst (load_meta ops crc f), r})
    \<and> tail_clean crc (slots_of ops f') \<and> (\<forall>i. outside_page i \<longrightarrow> fo_read ops f' i = fo_read ops f i)"
proof -
  have "\<not> ok \<longrightarrow> snd (load_meta ops crc f) < META_SLOTS" using assms(5,6) by blast
  from append_meta_effect [OF assms(1,2,4) this]
  obtain b k where b: "b = newest crc (slots_of ops f) \<or> b = None \<and> snd (load_meta ops crc f) = META_SLOTS" "k < META_SLOTS"
    and n: "newest crc (slots_of ops f') = pick crc (slot_bytes ops f' k) b" and t: "tail_clean crc (slots_of ops f')"
    and e: "ok \<longrightarrow> slot_bytes ops f' k = meta_encode crc r" and u: "\<forall>i. outside_page i \<longrightarrow> fo_read ops f' i = fo_read ops f i"
    and k: "snd (load_meta ops crc f) < META_SLOTS \<Longrightarrow> k = snd (load_meta ops crc f) \<and> b = newest crc (slots_of ops f)" by blast
  have q: "b = None \<or> mr_seq r = mr_seq (the b) + 1" using b(1) assms(3) by (auto simp: load_meta_slots split: option.splits)
  show ?thesis
  proof (cases ok)
    case True
    then have "newest crc (slots_of ops f') = Some r" using n e pick_next [OF meta_decode_encode q] by simp
    then show ?thesis using True t u by (simp add: load_meta_slots)
  next
    case False
    then have "k = free" "b = newest crc (slots_of ops f)" using k assms(5,6) by auto
    moreover have "meta_decode crc (slot_bytes ops f' free) = None \<or> meta_decode crc (slot_bytes ops f' free) = Some r"
      using assms(6) False by simp
    ultimately have "newest crc (slots_of ops f') = newest crc (slots_of ops f) \<or> newest crc (slots_of ops f') = Some r"
      using n pick_next [OF _ q] by (auto simp: pick_def)
    then show ?thesis using False t u by (auto simp: load_meta_slots)
  qed
qed

section \<open>A driver over a byte array\<close>

definition array_flash :: "(nat \<Rightarrow> u8) flash_ops" where
  "array_flash = \<lparr>
     fo_write = (\<lambda>off data f. if off + length data \<le> APP_OFFSET + APP_SIZE
       then (True, \<lambda>i. if off \<le> i \<and> i < off + length data then data ! (i - off) else f i) else (False, f)),
     fo_erase = (\<lambda>from to f. (True, \<lambda>i. if from \<le> i \<and> i < to then 0xFF else f i)),
     fo_read = (\<lambda>f. f)\<rparr>"

definition sum_check :: "bytes \<Rightarrow> u32" where
  "sum_check bs = sum_list (map ucast bs)"

lemma array_flash_laws: "flash_laws array_flash"
  by (auto simp: flash_laws_def array_flash_def)

lemma array_flash_blank:
  shows "tail_clean crc (slots_of array_flash (\<lambda>_. 0xFF))" and "load_meta array_flash crc (\<lambda>_. 0xFF) = (meta_blank, 0)"
proof -
  have e: "\<forall>raw\<in>set (slots_of array_flash (\<lambda>_. 0xFF)). erased raw"
    by (auto simp: slots_of_def slot_bytes_def mem_bytes_def array_flash_def list_all_iff)
  have "slots_of array_flash (\<lambda>_. 0xFF) \<noteq> []" using length_slots [of array_flash "\<lambda>_. 0xFF"] by (metis list.size(3) zero_neq_numeral)
  note z = slots_erased [OF e this]
  show "tail_clean crc (slots_of array_flash (\<lambda>_. 0xFF))" by (rule z(2))
  show "load_meta array_flash crc (\<lambda>_. 0xFF) = (meta_blank, 0)" using z by (simp add: load_meta_slots)
qed

lemma array_append_ok: "fst (append_meta array_flash crc r f)"
  by (simp add: append_meta_def array_flash_def Let_def)

theorem append_meta_atomic_witness:
  "fst (load_meta array_flash sum_check
      (snd (append_meta array_flash sum_check (meta_next meta_blank (\<lambda>r. r\<lparr>mr_app_len := 8\<rparr>)) (\<lambda>_. 0xFF))))
    = \<lparr>mr_seq = 1, mr_app_len = 8, mr_app_crc = 0, mr_app_valid = False, mr_update_requested = False\<rparr>"
proof -
  define r where "r = meta_next meta_blank (\<lambda>r. r\<lparr>mr_app_len := 8\<rparr>)"
  have r: "r = \<lparr>mr_seq = 1, mr_app_len = 8, mr_app_crc = 0, mr_app_valid = False, mr_update_requested = False\<rparr>"
    by (simp add: r_def meta_next_def meta_blank_def)
  obtain f' where a: "append_meta array_flash sum_check r (\<lambda>_. 0xFF) = (True, f')"
    using array_append_ok [of sum_check r "\<lambda>_. 0xFF"] by (cases "append_meta array_flash sum_check r (\<lambda>_. 0xFF)") simp
  have q: "mr_seq r = mr_seq (fst (load_meta array_flash sum_check (\<lambda>_. 0xFF))) + 1"
    by (simp add: array_flash_blank(2) r meta_blank_def)
  show ?thesis
    using append_meta_atomic [OF array_flash_laws array_flash_blank(1) q a refl] a r by (simp add: r_def)
qed


end
