(* ===== verification/Fw_Update.thy ===== *)
theory Fw_Update
  imports Fw_Meta
begin

text \<open>
  The updater of the firmware update example (\<open>examples/emdm-fwupdate/bootloader/src/main.rs\<close>): the guard on
  the programming objects, the programmer that streams chunks into the application slot, the commands
  clear and validate, the failure path, and the boot decision; with \<open>enter_update\<close> of the application
  (\<open>app/src/main.rs\<close>). The flash driver and the CRC are the parameters of the theory \<open>Fw_Meta\<close>.

  The dictionary is reduced to the fields the updater reads or writes, and \<open>set_error\<close> to a log of its
  calls. A host request is a write to one of the four programming objects followed by the run of
  \<open>handle_changes\<close> it wakes: the node has a single SDO server, which confirms one transfer before it sees
  the next, and the updater task runs before the next processing cycle.
\<close>

section \<open>State\<close>

abbreviation IDLE :: u32 where "IDLE \<equiv> 0"
abbreviation PROGRAMMING :: u32 where "PROGRAMMING \<equiv> 1"
abbreviation VALID :: u32 where "VALID \<equiv> 2"
abbreviation ERROR :: u32 where "ERROR \<equiv> 0xFF"

abbreviation CLEAR :: u8 where "CLEAR \<equiv> 3"
abbreviation VALIDATE :: u8 where "VALIDATE \<equiv> 1"
abbreviation RESET :: u8 where "RESET \<equiv> 2"

abbreviation MAX_CHUNK :: nat where "MAX_CHUNK \<equiv> 889"
abbreviation WRITE_SIZE :: nat where "WRITE_SIZE \<equiv> 8"

record boot_od =
  bo_firmware_chunk :: bytes
  bo_command :: u8
  bo_expected_crc :: u32
  bo_flash_status :: u32
  bo_image_length :: u32
  bo_bytes_written :: u32

record programmer =
  pg_accepted :: u32
  pg_flushed :: u32
  pg_pending :: bytes
  pg_pending_len :: nat

datatype program_error = ChunkTooLarge | FlashFailed

record 'f updater =
  up_nvm :: 'f
  up_programmer :: programmer
  up_meta :: meta_record
  up_od :: boot_od
  up_errors :: "u16 list"

section \<open>The guard on writes\<close>

definition boot_check_write :: "boot_od \<Rightarrow> u16 \<Rightarrow> u8 \<Rightarrow> bytes \<Rightarrow> od_error + unit" where
  "boot_check_write od index subindex data =
     (if (index, subindex) = (0x1F50, 1) then
        if bo_flash_status od \<noteq> PROGRAMMING then Inl HardwareError
        else if unat (bo_bytes_written od) + length data > unat (bo_image_length od) then Inl ValueRange
        else Inr ()
      else if (index, subindex) = (0x2000, 1) then
        if length data \<noteq> 4 then Inl ValueRange
        else let len = from_le_bytes data :: u32 in
          if len = 0 \<or> unat len > APP_SIZE then Inl ValueRange else Inr ()
      else if (index, subindex) = (0x1F51, 1) then
        (case data of
           [] \<Rightarrow> Inl ValueRange
         | cmd # _ \<Rightarrow>
             if cmd = CLEAR then if bo_image_length od = 0 then Inl ValueRange else Inr ()
             else if cmd = VALIDATE then if bo_flash_status od \<noteq> PROGRAMMING then Inl HardwareError else Inr ()
             else if cmd = RESET then Inr ()
             else Inl ValueRange)
      else Inr ())"

section \<open>The programmer\<close>

definition programmer_new :: programmer where
  "programmer_new = \<lparr>pg_accepted = 0, pg_flushed = 0, pg_pending = replicate WRITE_SIZE 0xFF, pg_pending_len = 0\<rparr>"

definition programmer_commit :: "'f flash_ops \<Rightarrow> programmer \<Rightarrow> bytes \<Rightarrow> 'f \<Rightarrow> (program_error + unit) \<times> programmer \<times> 'f" where
  "programmer_commit ops p data f =
     (case fo_write ops (unat (0xE800 + pg_flushed p)) data f of
        (False, f) \<Rightarrow> (Inl FlashFailed, p, f)
      | (True, f) \<Rightarrow> (Inr (), p\<lparr>pg_flushed := pg_flushed p + of_nat (length data)\<rparr>, f))"

text \<open>The carried tail is topped up first; the part of the data that is left comes with the result.\<close>

definition push_top_up :: "'f flash_ops \<Rightarrow> programmer \<Rightarrow> bytes \<Rightarrow> 'f \<Rightarrow> (program_error + bytes) \<times> programmer \<times> 'f" where
  "push_top_up ops p data f =
     (if pg_pending_len p > 0 then
        let n = min (WRITE_SIZE - pg_pending_len p) (length data);
            p = p\<lparr>pg_pending := overwrite (pg_pending p) (pg_pending_len p) (take n data),
                  pg_pending_len := pg_pending_len p + n\<rparr>
        in if pg_pending_len p = WRITE_SIZE then
             (case programmer_commit ops p (pg_pending p) f of
                (Inl e, p, f) \<Rightarrow> (Inl e, p, f)
              | (Inr _, p, f) \<Rightarrow> (Inr (drop n data), p\<lparr>pg_pending_len := 0\<rparr>, f))
           else (Inr (drop n data), p, f)
      else (Inr data, p, f))"

definition push_bulk :: "'f flash_ops \<Rightarrow> programmer \<Rightarrow> bytes \<Rightarrow> 'f \<Rightarrow> (program_error + bytes) \<times> programmer \<times> 'f" where
  "push_bulk ops p data f =
     (let aligned = length data - length data mod WRITE_SIZE
      in if aligned > 0 then
           (case programmer_commit ops p (take aligned data) f of
              (Inl e, p, f) \<Rightarrow> (Inl e, p, f)
            | (Inr _, p, f) \<Rightarrow> (Inr (drop aligned data), p, f))
         else (Inr data, p, f))"

definition programmer_push :: "'f flash_ops \<Rightarrow> programmer \<Rightarrow> bytes \<Rightarrow> 'f \<Rightarrow> (program_error + unit) \<times> programmer \<times> 'f" where
  "programmer_push ops p data f =
     (if unat (pg_accepted p) + length data > APP_SIZE then (Inl ChunkTooLarge, p, f)
      else case push_top_up ops p data f of
        (Inl e, p, f) \<Rightarrow> (Inl e, p, f)
      | (Inr rest, p, f) \<Rightarrow> (case push_bulk ops p rest f of
          (Inl e, p, f) \<Rightarrow> (Inl e, p, f)
        | (Inr tail, p, f) \<Rightarrow>
            (Inr (), p\<lparr>pg_pending := overwrite (pg_pending p) 0 tail, pg_pending_len := length tail,
                       pg_accepted := pg_accepted p + of_nat (length data)\<rparr>, f)))"

definition programmer_finish :: "'f flash_ops \<Rightarrow> programmer \<Rightarrow> 'f \<Rightarrow> (program_error + unit) \<times> programmer \<times> 'f" where
  "programmer_finish ops p f =
     (if pg_pending_len p > 0 then
        let word = take (pg_pending_len p) (pg_pending p) @ replicate (length (pg_pending p) - pg_pending_len p) 0xFF
        in programmer_commit ops (p\<lparr>pg_pending_len := 0\<rparr>) word f
      else (Inr (), p, f))"

section \<open>Commands\<close>

definition invalidated :: "meta_record \<Rightarrow> meta_record" where
  "invalidated r = meta_next r (\<lambda>r. r\<lparr>mr_app_valid := False, mr_app_len := 0, mr_app_crc := 0\<rparr>)"

definition update_fail :: "'f flash_ops \<Rightarrow> (bytes \<Rightarrow> u32) \<Rightarrow> 'f updater \<Rightarrow> 'f updater" where
  "update_fail ops crc u =
     (let u = (if mr_app_valid (up_meta u) then
                 let r = invalidated (up_meta u); (ok, f) = append_meta ops crc r (up_nvm u)
                 in if ok then u\<lparr>up_nvm := f, up_meta := r\<rparr> else u\<lparr>up_nvm := f\<rparr>
               else u)
      in u\<lparr>up_od := (up_od u)\<lparr>bo_flash_status := ERROR\<rparr>, up_errors := up_errors u @ [0x5000]\<rparr>)"

definition clear_end :: "u32 \<Rightarrow> nat" where
  "clear_end declared = APP_OFFSET + (unat declared + PAGE_SIZE - 1) div PAGE_SIZE * PAGE_SIZE"

definition update_clear :: "'f flash_ops \<Rightarrow> (bytes \<Rightarrow> u32) \<Rightarrow> 'f updater \<Rightarrow> 'f updater" where
  "update_clear ops crc u =
     (let declared = bo_image_length (up_od u); r = invalidated (up_meta u)
      in case append_meta ops crc r (up_nvm u) of
           (False, f) \<Rightarrow> update_fail ops crc (u\<lparr>up_nvm := f\<rparr>)
         | (True, f) \<Rightarrow>
             let u = u\<lparr>up_nvm := f, up_meta := r\<rparr>
             in case fo_erase ops APP_OFFSET (clear_end declared) f of
                  (False, f) \<Rightarrow> update_fail ops crc (u\<lparr>up_nvm := f\<rparr>)
                | (True, f) \<Rightarrow> u\<lparr>up_nvm := f, up_programmer := programmer_new,
                    up_od := (up_od u)\<lparr>bo_bytes_written := 0, bo_flash_status := PROGRAMMING\<rparr>\<rparr>)"

definition update_validate :: "'f flash_ops \<Rightarrow> (bytes \<Rightarrow> u32) \<Rightarrow> 'f updater \<Rightarrow> 'f updater" where
  "update_validate ops crc u =
     (case programmer_finish ops (up_programmer u) (up_nvm u) of
        (Inl _, p, f) \<Rightarrow> update_fail ops crc (u\<lparr>up_programmer := p, up_nvm := f\<rparr>)
      | (Inr _, p, f) \<Rightarrow>
          let u = u\<lparr>up_programmer := p, up_nvm := f\<rparr>;
              declared = bo_image_length (up_od u); expected_crc = bo_expected_crc (up_od u);
              candidate = meta_next (up_meta u) (\<lambda>r. r\<lparr>mr_app_valid := True, mr_app_len := declared, mr_app_crc := expected_crc\<rparr>)
          in if pg_accepted p \<noteq> declared then update_fail ops crc u
             else case app_image ops f declared of
                    None \<Rightarrow> update_fail ops crc u
                  | Some img \<Rightarrow>
                      if crc img \<noteq> expected_crc then update_fail ops crc u
                      else if \<not> app_vector_table_plausible ops f declared then update_fail ops crc u
                      else (case append_meta ops crc candidate f of
                              (False, f) \<Rightarrow> update_fail ops crc (u\<lparr>up_nvm := f\<rparr>)
                            | (True, f) \<Rightarrow> u\<lparr>up_nvm := f, up_meta := candidate,
                                up_od := (up_od u)\<lparr>bo_flash_status := VALID\<rparr>\<rparr>))"

section \<open>Changes and requests\<close>

datatype boot_change = FirmwareChunk | CommandChange u8 | ImageLength u32 | ExpectedCrc u32

text \<open>\<open>next_change\<close>: the variant carries the value the entry has when the event is drained.\<close>

definition decode_change :: "boot_od \<Rightarrow> od_event \<Rightarrow> boot_change option" where
  "decode_change od e =
     (if ev_source e = SrcRpdoDeadline then None
      else if (ev_index e, ev_subindex e) = (0x1F50, 1) then Some FirmwareChunk
      else if (ev_index e, ev_subindex e) = (0x1F51, 1) then Some (CommandChange (bo_command od))
      else if (ev_index e, ev_subindex e) = (0x1F56, 1) then Some (ExpectedCrc (bo_expected_crc od))
      else if (ev_index e, ev_subindex e) = (0x2000, 1) then Some (ImageLength (bo_image_length od))
      else None)"

text \<open>The flag says that the change reset the controller.\<close>

definition handle_change :: "'f flash_ops \<Rightarrow> (bytes \<Rightarrow> u32) \<Rightarrow> boot_change \<Rightarrow> 'f updater \<Rightarrow> bool \<times> 'f updater" where
  "handle_change ops crc c u = (case c of
     FirmwareChunk \<Rightarrow>
       (case programmer_push ops (up_programmer u) (bo_firmware_chunk (up_od u)) (up_nvm u) of
          (Inr _, p, f) \<Rightarrow> (False, u\<lparr>up_programmer := p, up_nvm := f, up_od := (up_od u)\<lparr>bo_bytes_written := pg_accepted p\<rparr>\<rparr>)
        | (Inl _, p, f) \<Rightarrow> (False, update_fail ops crc (u\<lparr>up_programmer := p, up_nvm := f\<rparr>)))
   | CommandChange cmd \<Rightarrow>
       if cmd = CLEAR then (False, update_clear ops crc u)
       else if cmd = VALIDATE then (False, update_validate ops crc u)
       else if cmd = RESET then (True, u)
       else (False, u)
   | ImageLength _ \<Rightarrow> (False, u)
   | ExpectedCrc _ \<Rightarrow> (False, u))"

fun handle_changes :: "'f flash_ops \<Rightarrow> (bytes \<Rightarrow> u32) \<Rightarrow> od_event list \<Rightarrow> 'f updater \<Rightarrow> bool \<times> 'f updater" where
  "handle_changes ops crc [] u = (False, u)"
| "handle_changes ops crc (e # es) u = (case decode_change (up_od u) e of
     None \<Rightarrow> handle_changes ops crc es u
   | Some c \<Rightarrow> (case handle_change ops crc c u of
       (True, u) \<Rightarrow> (True, u)
     | (False, u) \<Rightarrow> handle_changes ops crc es u))"

text \<open>The four programming objects a host writes, and the writes of the generated dictionary.\<close>

datatype prog_object = ProgramData | ProgramControl | ProgramSwId | ImageLengthEntry

fun prog_address :: "prog_object \<Rightarrow> u16 \<times> u8" where
  "prog_address ProgramData = (0x1F50, 1)"
| "prog_address ProgramControl = (0x1F51, 1)"
| "prog_address ProgramSwId = (0x1F56, 1)"
| "prog_address ImageLengthEntry = (0x2000, 1)"

fun boot_od_write :: "prog_object \<Rightarrow> bytes \<Rightarrow> boot_od \<Rightarrow> od_error + boot_od" where
  "boot_od_write ProgramData data od =
     (if length data > MAX_CHUNK then Inl ValueTooLong else Inr (od\<lparr>bo_firmware_chunk := data\<rparr>))"
| "boot_od_write ProgramControl data od =
     (if length data \<noteq> 1 then Inl DataTypeMismatch else Inr (od\<lparr>bo_command := data ! 0\<rparr>))"
| "boot_od_write ProgramSwId data od =
     (if length data \<noteq> 4 then Inl DataTypeMismatch else Inr (od\<lparr>bo_expected_crc := from_le_bytes data\<rparr>))"
| "boot_od_write ImageLengthEntry data od =
     (if length data \<noteq> 4 then Inl DataTypeMismatch else Inr (od\<lparr>bo_image_length := from_le_bytes data\<rparr>))"

definition host_write :: "'f flash_ops \<Rightarrow> (bytes \<Rightarrow> u32) \<Rightarrow> prog_object \<Rightarrow> bytes \<Rightarrow> 'f updater \<Rightarrow> (od_error + unit) \<times> bool \<times> 'f updater" where
  "host_write ops crc obj data u =
     (let (index, subindex) = prog_address obj
      in case boot_check_write (up_od u) index subindex data of
           Inl e \<Rightarrow> (Inl e, False, u)
         | Inr _ \<Rightarrow> (case boot_od_write obj data (up_od u) of
             Inl e \<Rightarrow> (Inl e, False, u)
           | Inr od \<Rightarrow> (Inr (), handle_changes ops crc [\<lparr>ev_index = index, ev_subindex = subindex, ev_source = SrcSdo\<rparr>] (u\<lparr>up_od := od\<rparr>))))"

section \<open>Boot\<close>

definition boot_od_new :: boot_od where
  "boot_od_new = \<lparr>bo_firmware_chunk = [], bo_command = 0, bo_expected_crc = 0, bo_flash_status = IDLE,
     bo_image_length = 0, bo_bytes_written = 0\<rparr>"

definition updater_init :: "'f flash_ops \<Rightarrow> (bytes \<Rightarrow> u32) \<Rightarrow> meta_record \<Rightarrow> 'f \<Rightarrow> 'f updater" where
  "updater_init ops crc boot_meta f =
     (let (meta, f) = (if mr_update_requested boot_meta
                       then let meta = meta_next boot_meta (\<lambda>r. r\<lparr>mr_update_requested := False\<rparr>)
                            in (meta, snd (append_meta ops crc meta f))
                       else (boot_meta, f))
      in \<lparr>up_nvm = f, up_programmer = programmer_new, up_meta = meta, up_od = boot_od_new, up_errors = []\<rparr>)"

datatype 'f device = Updater "'f updater" | Application 'f

definition boot :: "'f flash_ops \<Rightarrow> (bytes \<Rightarrow> u32) \<Rightarrow> 'f \<Rightarrow> 'f device" where
  "boot ops crc f =
     (let meta = fst (load_meta ops crc f)
      in if mr_update_requested meta then Updater (updater_init ops crc meta f)
         else if \<not> mr_app_valid meta then Updater (updater_init ops crc meta f)
         else if \<not> app_image_verifies ops crc f meta then Updater (updater_init ops crc meta f)
         else Application f)"

text \<open>\<open>enter_update\<close> of the application; the flag says that it reset the controller.\<close>

definition enter_update :: "'f flash_ops \<Rightarrow> (bytes \<Rightarrow> u32) \<Rightarrow> 'f \<Rightarrow> bool \<times> 'f" where
  "enter_update ops crc f =
     (let request = meta_next (fst (load_meta ops crc f)) (\<lambda>r. r\<lparr>mr_update_requested := True\<rparr>)
      in append_meta ops crc request f)"

end
