(* ===== verification/Fw_Safety.thy ===== *)
theory Fw_Safety
  imports Fw_Update
begin

text \<open>
  Power-fail safety of the firmware update: whatever the host requests, whenever flash operations fail and
  whenever the power is lost, the record in force never marks an image bootable that does not verify, and the
  bootloader's pages are never touched. A loss of power inside an operation is a run in which the operation
  it hits and all later ones fail, followed by a reset.
\<close>

section \<open>What the flash driver promises beyond its range law\<close>

text \<open>
  Writes past the end of the flash are refused; a metadata record whose write failed does not pass its CRC;
  a failed erase of the metadata page has kept the page or lost every record in it.
\<close>

definition driver_laws :: "'f flash_ops \<Rightarrow> (bytes \<Rightarrow> u32) \<Rightarrow> bool" where
  "driver_laws ops crc \<longleftrightarrow> flash_laws ops
     \<and> (\<forall>off data f f'. fo_write ops off data f = (True, f') \<longrightarrow> off + length data \<le> APP_OFFSET + APP_SIZE)
     \<and> (\<forall>k r f f'. k < META_SLOTS \<and> fo_write ops (META_OFFSET + k * META_RECORD_SIZE) (meta_encode crc r) f = (False, f')
          \<longrightarrow> meta_decode crc (slot_bytes ops f' k) = None)
     \<and> (\<forall>f f'. fo_erase ops META_OFFSET (META_OFFSET + META_SIZE) f = (False, f')
          \<longrightarrow> slots_of ops f' = slots_of ops f \<or> (\<forall>raw\<in>set (slots_of ops f'). meta_decode crc raw = None))"

definition same_app :: "meta_record \<Rightarrow> meta_record \<Rightarrow> bool" where
  "same_app m b \<longleftrightarrow> mr_app_valid m = mr_app_valid b \<and> mr_app_len m = mr_app_len b \<and> mr_app_crc m = mr_app_crc b"

text \<open>The record \<open>m\<close> held in RAM is the one in force, or the one a failed write should have put in force.\<close>

definition log_tracks :: "'f flash_ops \<Rightarrow> (bytes \<Rightarrow> u32) \<Rightarrow> 'f \<Rightarrow> meta_record \<Rightarrow> bool" where
  "log_tracks ops crc f m \<longleftrightarrow> tail_clean crc (slots_of ops f)
     \<and> (\<forall>b. newest crc (slots_of ops f) = Some b \<longrightarrow> mr_seq m - mr_seq b \<le> 1 \<and> same_app m b
          \<and> (mr_app_valid b \<longrightarrow> app_image_verifies ops crc f b))"

lemma flash_lawsD: "driver_laws ops crc \<Longrightarrow> flash_laws ops"
  by (simp add: driver_laws_def)

lemma no_records:
  assumes "\<forall>raw\<in>set slots. meta_decode crc raw = None"
  shows "tail_clean crc slots" and "newest crc slots = None"
  using assms fold_no_record [OF assms] by (auto simp: tail_clean_def newest_def dest: in_set_dropD)

lemma verifies_cong:
  assumes "\<And>i. APP_OFFSET \<le> i \<Longrightarrow> fo_read ops f' i = fo_read ops f i"
  shows "app_image ops f' = app_image ops f" and "app_image_verifies ops crc f' r = app_image_verifies ops crc f r"
proof -
  show "app_image ops f' = app_image ops f"
    using mem_bytes_cong [of APP_OFFSET _ ops f' f] assms by (auto simp: app_image_def fun_eq_iff)
  then show "app_image_verifies ops crc f' r = app_image_verifies ops crc f r"
    by (simp add: app_image_verifies_def app_vector_table_plausible_def)
qed

lemma same_app_verifies: "same_app m b \<Longrightarrow> app_image_verifies ops crc f m = app_image_verifies ops crc f b"
  by (simp add: same_app_def app_image_verifies_def split: option.split)

lemma word_le_1_cases: "w \<le> 1 \<Longrightarrow> w = 0 \<or> w = 1" for w :: u32
  by (simp add: word_le_nat_alt word_unat_eq_iff) linarith

lemma next_newer:
  fixes m b :: u32
  assumes "m - b \<le> 1"
  shows "m + 1 \<noteq> b" and "m + 1 - b < 2 ^ 31"
proof -
  have "m - b = 0 \<or> m - b = 1" using assms by (rule word_le_1_cases)
  moreover have "m + 1 - b = (m - b) + 1" by simp
  ultimately have d: "m + 1 - b = 1 \<or> m + 1 - b = 2" by auto
  have "w < 2 ^ 31 \<and> w \<noteq> 0" if "w = 1 \<or> w = 2" for w :: u32 using that by auto
  from this [OF d] show "m + 1 \<noteq> b" "m + 1 - b < 2 ^ 31" by simp_all
qed

lemma append_meta_log:
  assumes "driver_laws ops crc" and "tail_clean crc (slots_of ops f)"
    and "\<And>b. newest crc (slots_of ops f) = Some b \<Longrightarrow> meta_newer r b" and "append_meta ops crc r f = (ok, f')"
  shows "tail_clean crc (slots_of ops f')"
    and "if ok then newest crc (slots_of ops f') = Some r else newest crc (slots_of ops f') \<in> {None, newest crc (slots_of ops f)}"
    and "outside_page i \<Longrightarrow> fo_read ops f' i = fo_read ops f i"
proof -
  have l: "flash_laws ops" using assms(1) by (simp add: driver_laws_def)
  have p: "pick crc (meta_encode crc r) b = Some r" if "b = newest crc (slots_of ops f) \<or> b = None" for b
    using that assms(3) by (auto simp: pick_def meta_decode_encode split: option.splits)
  have "tail_clean crc (slots_of ops f')
    \<and> (if ok then newest crc (slots_of ops f') = Some r else newest crc (slots_of ops f') \<in> {None, newest crc (slots_of ops f)})
    \<and> (\<forall>i. outside_page i \<longrightarrow> fo_read ops f' i = fo_read ops f i)"
  proof (cases "ok \<or> snd (load_meta ops crc f) < META_SLOTS")
    case True
    then have "\<not> ok \<longrightarrow> snd (load_meta ops crc f) < META_SLOTS" by blast
    from append_meta_effect [OF l assms(2,4) this]
    obtain b k where b: "b = newest crc (slots_of ops f) \<or> b = None \<and> snd (load_meta ops crc f) = META_SLOTS" "k < META_SLOTS"
      and n: "newest crc (slots_of ops f') = pick crc (slot_bytes ops f' k) b" and t: "tail_clean crc (slots_of ops f')"
      and e: "ok \<longrightarrow> slot_bytes ops f' k = meta_encode crc r" and u: "\<forall>i. outside_page i \<longrightarrow> fo_read ops f' i = fo_read ops f i"
      and k: "snd (load_meta ops crc f) < META_SLOTS \<Longrightarrow> k = snd (load_meta ops crc f) \<and> b = newest crc (slots_of ops f)" by blast
    show ?thesis
    proof (cases ok)
      case True
      then show ?thesis using n e t u p [of b] b(1) by auto
    next
      case False
      then have s: "snd (load_meta ops crc f) < META_SLOTS" using True by blast
      then have "fo_write ops (META_OFFSET + k * META_RECORD_SIZE) (meta_encode crc r) f = (False, f')"
        using assms(4) False k by (simp add: append_meta_def Let_def)
      then have "meta_decode crc (slot_bytes ops f' k) = None" using assms(1) b(2) unfolding driver_laws_def by blast
      then show ?thesis using False n t u k [OF s] by (simp add: pick_def)
    qed
  next
    case False
    then have ok: "\<not> ok" and full: "\<not> snd (load_meta ops crc f) < META_SLOTS" by auto
    then consider "fo_erase ops META_OFFSET (META_OFFSET + META_SIZE) f = (False, f')"
      | f1 where "fo_erase ops META_OFFSET (META_OFFSET + META_SIZE) f = (True, f1)"
          "fo_write ops (META_OFFSET + 0 * META_RECORD_SIZE) (meta_encode crc r) f1 = (False, f')"
      using assms(4) by (auto simp: append_meta_def Let_def split: prod.splits bool.splits)
    then show ?thesis
    proof cases
      case 1
      then have "slots_of ops f' = slots_of ops f \<or> (\<forall>raw\<in>set (slots_of ops f'). meta_decode crc raw = None)"
        using assms(1) unfolding driver_laws_def by blast
      then show ?thesis using ok assms(2) no_records [of "slots_of ops f'" crc] erase_page(2) [OF l 1] by auto
    next
      case 2
      have z: "\<forall>raw\<in>set (slots_of ops f1). erased raw" using erase_page(1) [OF l 2(1)] by simp
      have "slots_of ops f1 \<noteq> []" using length_slots [of ops f1] by (metis list.size(3) zero_neq_numeral)
      note z = slots_erased [OF z this]
      note s = write_slot [OF l _ 2(2) length_meta_encode]
      have d: "meta_decode crc (slot_bytes ops f' 0) = None" using assms(1) 2(2) unfolding driver_laws_def by (metis zero_less_numeral)
      have "newest crc (slots_of ops f') = None" "tail_clean crc (slots_of ops f')"
        using s(1) z newest_append [OF z(2) z(1) [symmetric], where raw = "slot_bytes ops f' 0"]
          tail_clean_update [OF z(2) z(1) [symmetric], where raw = "slot_bytes ops f' 0"] d by (simp_all add: pick_def)
      then show ?thesis using ok s(3) erase_page(2) [OF l 2(1)] by simp
    qed
  qed
  then show "tail_clean crc (slots_of ops f')"
    and "if ok then newest crc (slots_of ops f') = Some r else newest crc (slots_of ops f') \<in> {None, newest crc (slots_of ops f)}"
    and "outside_page i \<Longrightarrow> fo_read ops f' i = fo_read ops f i" by blast+
qed

lemma log_tracks_append:
  assumes "driver_laws ops crc" and "log_tracks ops crc f m" and "mr_seq r = mr_seq m + 1"
    and "mr_app_valid r \<Longrightarrow> app_image_verifies ops crc f r" and "append_meta ops crc r f = (ok, f')"
  shows "if ok then log_tracks ops crc f' r \<and> newest crc (slots_of ops f') = Some r else log_tracks ops crc f' m"
    and "outside_page i \<Longrightarrow> fo_read ops f' i = fo_read ops f i"
proof -
  have t: "tail_clean crc (slots_of ops f)" using assms(2) by (simp add: log_tracks_def)
  have n: "meta_newer r b" if "newest crc (slots_of ops f) = Some b" for b
    using that assms(2,3) next_newer [of "mr_seq m" "mr_seq b"] by (simp add: log_tracks_def meta_newer_def)
  note a = append_meta_log [OF assms(1) t n assms(5)]
  show "outside_page i \<Longrightarrow> fo_read ops f' i = fo_read ops f i" by (rule a(3))
  have v: "app_image_verifies ops crc f' x = app_image_verifies ops crc f x" for x
    by (rule verifies_cong(2)) (simp add: a(3) outside_page_def)
  show "if ok then log_tracks ops crc f' r \<and> newest crc (slots_of ops f') = Some r else log_tracks ops crc f' m"
    using a(1,2) assms(2,4) by (auto simp: log_tracks_def v same_app_def split: if_splits)
qed

section \<open>The programmer stays in the application slot\<close>

definition prog_ok :: "programmer \<Rightarrow> bool" where
  "prog_ok p \<longleftrightarrow> unat (pg_flushed p) \<le> APP_SIZE \<and> length (pg_pending p) = WRITE_SIZE \<and> pg_pending_len p \<le> WRITE_SIZE"

definition slot_only :: "'f flash_ops \<Rightarrow> 'f \<Rightarrow> 'f \<Rightarrow> bool" where
  "slot_only ops f f' \<longleftrightarrow> (\<forall>i < APP_OFFSET. fo_read ops f' i = fo_read ops f i)"

lemma slot_only_refl [simp]: "slot_only ops f f"
  by (simp add: slot_only_def)

lemma slot_only_trans: "slot_only ops f g \<Longrightarrow> slot_only ops g h \<Longrightarrow> slot_only ops f h"
  by (simp add: slot_only_def)

lemma unat_flash_offset: "unat (w :: u32) \<le> APP_SIZE \<Longrightarrow> unat (0xE800 + w) = APP_OFFSET + unat w"
  by (simp add: unat_word_ariths)

lemma write_in_range:
  "driver_laws ops crc \<Longrightarrow> fo_write ops off data f = (True, f') \<Longrightarrow> off + length data \<le> APP_OFFSET + APP_SIZE"
  unfolding driver_laws_def by blast

lemma commit_slot:
  assumes "driver_laws ops crc" and "prog_ok p" and "programmer_commit ops p data f = (res, p', f')"
  shows "slot_only ops f f'" and "prog_ok p'"
    and "p' = p\<lparr>pg_flushed := pg_flushed p'\<rparr>"
proof -
  have o: "unat (0xE800 + pg_flushed p) = APP_OFFSET + unat (pg_flushed p)"
    using assms(2) by (intro unat_flash_offset) (simp add: prog_ok_def)
  obtain ok where w: "fo_write ops (APP_OFFSET + unat (pg_flushed p)) data f = (ok, f')"
    and p: "p' = (if ok then p\<lparr>pg_flushed := pg_flushed p + of_nat (length data)\<rparr> else p)"
    using assms(3) by (auto simp: programmer_commit_def o split: prod.splits bool.splits)
  have l: "flash_laws ops" using assms(1) by (simp add: driver_laws_def)
  show "slot_only ops f f'" using write_outside [OF l w] by (simp add: slot_only_def)
  show "p' = p\<lparr>pg_flushed := pg_flushed p'\<rparr>" using p by simp
  have b: "APP_OFFSET + unat (pg_flushed p) + length data \<le> APP_OFFSET + APP_SIZE" if ok
    using write_in_range [OF assms(1), of "APP_OFFSET + unat (pg_flushed p)" data f f'] w that by simp
  have "unat (pg_flushed p + of_nat (length data)) = unat (pg_flushed p) + length data" if ok
    using b [OF that] by (simp add: unat_word_ariths unat_of_nat)
  then show "prog_ok p'" using p b assms(2) by (simp add: prog_ok_def)
qed

lemma push_top_up_slot:
  assumes "driver_laws ops crc" and "prog_ok p" and "push_top_up ops p data f = (res, p', f')"
  shows "slot_only ops f f' \<and> prog_ok p'"
proof (cases "pg_pending_len p > 0")
  case True
  define n where "n = min (WRITE_SIZE - pg_pending_len p) (length data)"
  define q where "q = p\<lparr>pg_pending := overwrite (pg_pending p) (pg_pending_len p) (take n data), pg_pending_len := pg_pending_len p + n\<rparr>"
  have q: "prog_ok q" using assms(2) by (auto simp: q_def prog_ok_def n_def min_def)
  have q0: "prog_ok (r\<lparr>pg_pending_len := 0\<rparr>)" if "prog_ok r" for r using that by (simp add: prog_ok_def)
  show ?thesis
    using assms(3) True q commit_slot(1,2) [OF assms(1) q] q0
    by (fastforce simp: push_top_up_def Let_def n_def [symmetric] q_def [symmetric] split: prod.splits sum.splits if_splits)
qed (use assms in \<open>auto simp: push_top_up_def\<close>)

lemma push_bulk_slot:
  assumes "driver_laws ops crc" and "prog_ok p" and "push_bulk ops p data f = (res, p', f')"
  shows "slot_only ops f f' \<and> prog_ok p'" and "res = Inr tail \<Longrightarrow> length tail < WRITE_SIZE"
proof -
  show "slot_only ops f f' \<and> prog_ok p'"
    using assms(2,3) commit_slot(1,2) [OF assms(1,2)]
    by (fastforce simp: push_bulk_def Let_def split: prod.splits sum.splits if_splits)
  have "length data - (length data - length data mod 8) < 8" by simp
  then show "res = Inr tail \<Longrightarrow> length tail < WRITE_SIZE"
    using assms(3) by (auto simp: push_bulk_def Let_def split: prod.splits sum.splits if_splits)
qed

lemma push_slot:
  assumes "driver_laws ops crc" and "prog_ok p" and "programmer_push ops p data f = (res, p', f')"
  shows "slot_only ops f f' \<and> prog_ok p'"
proof (cases "unat (pg_accepted p) + length data > APP_SIZE")
  case True
  then show ?thesis using assms(2,3) by (simp add: programmer_push_def)
next
  case False
  obtain r1 p1 f1 where t: "push_top_up ops p data f = (r1, p1, f1)" by (cases "push_top_up ops p data f")
  note s1 = push_top_up_slot [OF assms(1,2) t]
  show ?thesis
  proof (cases r1)
    case (Inl e)
    then show ?thesis using assms(3) False t s1 by (simp add: programmer_push_def)
  next
    case (Inr rest)
    obtain r2 p2 f2 where b: "push_bulk ops p1 rest f1 = (r2, p2, f2)" by (cases "push_bulk ops p1 rest f1")
    note s2 = push_bulk_slot [OF assms(1) conjunct2 [OF s1] b]
    show ?thesis using assms(3) False t Inr b s1 s2(1) slot_only_trans [of ops f f1 f2] s2(2)
      by (cases r2) (auto simp: programmer_push_def prog_ok_def)
  qed
qed

lemma finish_slot:
  assumes "driver_laws ops crc" and "prog_ok p" and "programmer_finish ops p f = (res, p', f')"
  shows "slot_only ops f f' \<and> prog_ok p'"
proof -
  have "prog_ok (p\<lparr>pg_pending_len := 0\<rparr>)" using assms(2) by (simp add: prog_ok_def)
  from commit_slot(1,2) [OF assms(1) this] show ?thesis
    using assms(2,3) by (auto simp: programmer_finish_def Let_def split: if_splits)
qed


section \<open>The updater's invariant\<close>

definition updater_ok :: "'f flash_ops \<Rightarrow> (bytes \<Rightarrow> u32) \<Rightarrow> 'f updater \<Rightarrow> bool" where
  "updater_ok ops crc u \<longleftrightarrow> log_tracks ops crc (up_nvm u) (up_meta u) \<and> \<not> mr_update_requested (up_meta u)
     \<and> prog_ok (up_programmer u) \<and> unat (bo_image_length (up_od u)) \<le> APP_SIZE
     \<and> (bo_flash_status (up_od u) = PROGRAMMING \<longrightarrow> \<not> mr_app_valid (up_meta u))
     \<and> (bo_flash_status (up_od u) = VALID \<longrightarrow>
          mr_app_valid (up_meta u) \<and> newest crc (slots_of ops (up_nvm u)) = Some (up_meta u))"

text \<open>No operation writes to the pages of the bootloader.\<close>

definition boot_kept :: "'f flash_ops \<Rightarrow> 'f \<Rightarrow> 'f \<Rightarrow> bool" where
  "boot_kept ops f f' \<longleftrightarrow> (\<forall>i < META_OFFSET. fo_read ops f' i = fo_read ops f i)"

lemma boot_kept_refl [simp]: "boot_kept ops f f"
  by (simp add: boot_kept_def)

lemma boot_kept_trans: "boot_kept ops f g \<Longrightarrow> boot_kept ops g h \<Longrightarrow> boot_kept ops f h"
  by (simp add: boot_kept_def)

lemma slot_only_boot_kept: "slot_only ops f f' \<Longrightarrow> boot_kept ops f f'"
  by (simp add: slot_only_def boot_kept_def)

lemma log_tracks_slot_only:
  assumes "log_tracks ops crc f m" and "slot_only ops f f'" and "\<not> mr_app_valid m"
  shows "log_tracks ops crc f' m"
proof -
  have "slot_bytes ops f' k = slot_bytes ops f k" if "k < META_SLOTS" for k
    unfolding slot_bytes_def using assms(2) that by (intro mem_bytes_cong) (simp add: slot_only_def)
  then have "slots_of ops f' = slots_of ops f" by (simp add: slots_of_def)
  then show ?thesis using assms(1,3) by (simp add: log_tracks_def same_app_def)
qed

lemma invalidated_simps [simp]:
  "mr_seq (invalidated r) = mr_seq r + 1" "\<not> mr_app_valid (invalidated r)"
  "mr_update_requested (invalidated r) = mr_update_requested r"
  by (simp_all add: invalidated_def meta_next_def)

lemma append_boot_kept:
  assumes "driver_laws ops crc" and "log_tracks ops crc f m" and "mr_seq r = mr_seq m + 1"
    and "mr_app_valid r \<Longrightarrow> app_image_verifies ops crc f r" and "append_meta ops crc r f = (ok, f')"
  shows "boot_kept ops f f'"
  using log_tracks_append(2) [OF assms] by (simp add: boot_kept_def outside_page_def)

lemma append_invalidated:
  assumes "driver_laws ops crc" and "log_tracks ops crc f m" and "append_meta ops crc (invalidated m) f = (ok, f')"
  shows "if ok then log_tracks ops crc f' (invalidated m) \<and> newest crc (slots_of ops f') = Some (invalidated m) else log_tracks ops crc f' m"
    and "boot_kept ops f f'"
  using log_tracks_append(1) [OF assms(1,2) _ _ assms(3)] append_boot_kept [OF assms(1,2) _ _ assms(3)] by simp_all

lemma fail_ok:
  assumes "driver_laws ops crc" and "log_tracks ops crc (up_nvm u) (up_meta u)" and "\<not> mr_update_requested (up_meta u)"
    and "prog_ok (up_programmer u)" and "unat (bo_image_length (up_od u)) \<le> APP_SIZE"
  shows "updater_ok ops crc (update_fail ops crc u)" and "boot_kept ops (up_nvm u) (up_nvm (update_fail ops crc u))"
proof -
  obtain ok f where a: "append_meta ops crc (invalidated (up_meta u)) (up_nvm u) = (ok, f)" by fastforce
  note append_invalidated [OF assms(1,2) a]
  then show "updater_ok ops crc (update_fail ops crc u)" "boot_kept ops (up_nvm u) (up_nvm (update_fail ops crc u))"
    using assms(2-5) a by (auto simp: update_fail_def updater_ok_def Let_def)
qed

lemma clear_ok:
  assumes "driver_laws ops crc" and "updater_ok ops crc u"
  shows "updater_ok ops crc (update_clear ops crc u) \<and> boot_kept ops (up_nvm u) (up_nvm (update_clear ops crc u))"
proof -
  note i = assms(2) [unfolded updater_ok_def]
  obtain ok f where a: "append_meta ops crc (invalidated (up_meta u)) (up_nvm u) = (ok, f)" by fastforce
  note l = append_invalidated(1) [OF assms(1) conjunct1 [OF i] a] and k = append_invalidated(2) [OF assms(1) conjunct1 [OF i] a]
  show ?thesis
  proof (cases ok)
    case False
    define v where "v = u\<lparr>up_nvm := f\<rparr>"
    have "updater_ok ops crc (update_fail ops crc v) \<and> boot_kept ops f (up_nvm (update_fail ops crc v))"
      using fail_ok [OF assms(1), of v] l False i by (simp add: v_def)
    then show ?thesis using False a boot_kept_trans [OF k] by (simp add: update_clear_def Let_def v_def)
  next
    case True
    obtain ok2 f2 where e: "fo_erase ops APP_OFFSET (clear_end (bo_image_length (up_od u))) f = (ok2, f2)" by fastforce
    define v where "v = u\<lparr>up_meta := invalidated (up_meta u), up_nvm := f2\<rparr>"
    have s: "slot_only ops f f2"
      unfolding slot_only_def by (intro allI impI) (rule erase_outside [OF flash_lawsD [OF assms(1)] e], blast)
    have t: "log_tracks ops crc f2 (invalidated (up_meta u))" using l True by (intro log_tracks_slot_only [OF _ s]) simp_all
    have k2: "boot_kept ops (up_nvm u) f2" by (rule boot_kept_trans [OF k slot_only_boot_kept [OF s]])
    show ?thesis
    proof (cases ok2)
      case False
      have "updater_ok ops crc (update_fail ops crc v) \<and> boot_kept ops f2 (up_nvm (update_fail ops crc v))"
        using fail_ok [OF assms(1), of v] t i by (simp add: v_def)
      then show ?thesis using True False a e boot_kept_trans [OF k2] by (simp add: update_clear_def Let_def v_def)
    next
      case True
      then show ?thesis using \<open>ok\<close> a e t k2 i
        by (auto simp: update_clear_def Let_def updater_ok_def prog_ok_def programmer_new_def)
    qed
  qed
qed


lemma validate_ok:
  assumes "driver_laws ops crc" and "updater_ok ops crc u" and "bo_flash_status (up_od u) = PROGRAMMING"
  shows "updater_ok ops crc (update_validate ops crc u) \<and> boot_kept ops (up_nvm u) (up_nvm (update_validate ops crc u))"
proof -
  note i = assms(2) [unfolded updater_ok_def]
  obtain res p f where n: "programmer_finish ops (up_programmer u) (up_nvm u) = (res, p, f)" by (cases "programmer_finish ops (up_programmer u) (up_nvm u)")
  have s: "slot_only ops (up_nvm u) f" "prog_ok p" using finish_slot [OF assms(1) _ n] i by simp_all
  have t: "log_tracks ops crc f (up_meta u)" using i assms(3) by (intro log_tracks_slot_only [OF _ s(1)]) simp_all
  note k = slot_only_boot_kept [OF s(1)]
  define v where "v = u\<lparr>up_programmer := p, up_nvm := f\<rparr>"
  have failing: "updater_ok ops crc (update_fail ops crc v) \<and> boot_kept ops (up_nvm u) (up_nvm (update_fail ops crc v))"
    using fail_ok [OF assms(1), of v] t i s(2) boot_kept_trans [OF k] by (simp add: v_def)
  define declared where "declared = bo_image_length (up_od u)"
  define candidate where "candidate = meta_next (up_meta u)
    (\<lambda>r. r\<lparr>mr_app_valid := True, mr_app_len := declared, mr_app_crc := bo_expected_crc (up_od u)\<rparr>)"
  have c: "mr_seq candidate = mr_seq (up_meta u) + 1" "mr_app_len candidate = declared" "mr_app_valid candidate"
    "mr_app_crc candidate = bo_expected_crc (up_od u)" "\<not> mr_update_requested candidate"
    using i by (simp_all add: candidate_def meta_next_def)
  show ?thesis
  proof (cases "\<exists>img. isl res = False \<and> pg_accepted p = declared \<and> app_image ops f declared = Some img
      \<and> crc img = bo_expected_crc (up_od u) \<and> app_vector_table_plausible ops f declared")
    case False
    then have "update_validate ops crc u = update_fail ops crc v"
      using n by (cases res) (auto simp: update_validate_def Let_def v_def declared_def split: option.splits)
    then show ?thesis using failing by simp
  next
    case True
    then have g: "app_image_verifies ops crc f candidate" using c by (auto simp: app_image_verifies_def)
    obtain ok f2 where a: "append_meta ops crc candidate f = (ok, f2)" by fastforce
    note l = log_tracks_append(1) [OF assms(1) t c(1) g a]
      and k2 = boot_kept_trans [OF k append_boot_kept [OF assms(1) t c(1) g a]]
    have "update_validate ops crc u = (if ok then v\<lparr>up_nvm := f2, up_meta := candidate, up_od := (up_od u)\<lparr>bo_flash_status := VALID\<rparr>\<rparr>
        else update_fail ops crc (v\<lparr>up_nvm := f2\<rparr>))"
      using True n a by (cases res) (auto simp: update_validate_def Let_def v_def declared_def candidate_def)
    moreover have "updater_ok ops crc (update_fail ops crc (v\<lparr>up_nvm := f2\<rparr>)) \<and> boot_kept ops (up_nvm u) (up_nvm (update_fail ops crc (v\<lparr>up_nvm := f2\<rparr>)))" if "\<not> ok"
      using fail_ok [OF assms(1), of "v\<lparr>up_nvm := f2\<rparr>"] l that i s(2) boot_kept_trans [OF k2] by (simp add: v_def)
    ultimately show ?thesis using l k2 i s(2) c by (auto simp: updater_ok_def v_def)
  qed
qed

lemma boot_od_write_frame:
  assumes "boot_od_write obj data od = Inr od'"
  shows "bo_flash_status od' = bo_flash_status od"
    and "bo_image_length od' = (if obj = ImageLengthEntry then from_le_bytes data else bo_image_length od)"
  using assms by (cases obj; auto split: if_splits)+

lemma host_write_ok:
  assumes "driver_laws ops crc" and "updater_ok ops crc u" and "host_write ops crc obj data u = (res, reset, u')"
  shows "updater_ok ops crc u' \<and> boot_kept ops (up_nvm u) (up_nvm u')"
proof -
  obtain index subindex where x: "prog_address obj = (index, subindex)" by fastforce
  show ?thesis
  proof (cases "\<exists>od. boot_check_write (up_od u) index subindex data = Inr () \<and> boot_od_write obj data (up_od u) = Inr od")
    case False
    then have "u' = u" using assms(3) x by (auto simp: host_write_def split: sum.splits)
    then show ?thesis using assms(2) by simp
  next
    case True
    then obtain od where g: "boot_check_write (up_od u) index subindex data = Inr ()" and w: "boot_od_write obj data (up_od u) = Inr od" by blast
    define v where "v = u\<lparr>up_od := od\<rparr>"
    note fr = boot_od_write_frame [OF w]
    have v: "updater_ok ops crc v" using assms(2) fr g x by (auto simp: updater_ok_def v_def boot_check_write_def Let_def split: if_splits)
    have h: "handle_changes ops crc [\<lparr>ev_index = index, ev_subindex = subindex, ev_source = SrcSdo\<rparr>] v = (reset, u')"
      using assms(3) x g w by (simp add: host_write_def v_def)
    have "updater_ok ops crc u' \<and> boot_kept ops (up_nvm v) (up_nvm u')"
    proof (cases obj)
      case ProgramData
      then have st: "bo_flash_status (up_od v) = PROGRAMMING" using g x fr by (auto simp: v_def boot_check_write_def split: if_splits)
      obtain r p f where p: "programmer_push ops (up_programmer v) (bo_firmware_chunk (up_od v)) (up_nvm v) = (r, p, f)"
        by (cases "programmer_push ops (up_programmer v) (bo_firmware_chunk (up_od v)) (up_nvm v)")
      note i = v [unfolded updater_ok_def]
      have s: "slot_only ops (up_nvm v) f" "prog_ok p" using push_slot [OF assms(1) _ p] i by simp_all
      have t: "log_tracks ops crc f (up_meta v)" using i st by (intro log_tracks_slot_only [OF _ s(1)]) simp_all
      note k = slot_only_boot_kept [OF s(1)]
      have "updater_ok ops crc (update_fail ops crc (v\<lparr>up_programmer := p, up_nvm := f\<rparr>))
          \<and> boot_kept ops (up_nvm v) (up_nvm (update_fail ops crc (v\<lparr>up_programmer := p, up_nvm := f\<rparr>)))"
        using fail_ok [OF assms(1), of "v\<lparr>up_programmer := p, up_nvm := f\<rparr>"] t i s(2) boot_kept_trans [OF k] by simp
      then show ?thesis using h ProgramData x p k t i s(2) st
        by (cases r) (auto simp: decode_change_def handle_change_def updater_ok_def)
    next
      case ProgramControl
      have "bo_command (up_od v) = VALIDATE \<Longrightarrow> bo_flash_status (up_od v) = PROGRAMMING"
        using g x fr w ProgramControl by (cases data) (auto simp: v_def boot_check_write_def split: if_splits)
      then show ?thesis
        using h ProgramControl x v clear_ok [OF assms(1) v] validate_ok [OF assms(1) v]
        by (auto simp: decode_change_def handle_change_def split: if_splits)
    next
      case ProgramSwId
      then show ?thesis using h x v by (auto simp: decode_change_def handle_change_def)
    next
      case ImageLengthEntry
      then show ?thesis using h x v by (auto simp: decode_change_def handle_change_def)
    qed
    then show ?thesis by (simp add: v_def)
  qed
qed


section \<open>Boot and reachable devices\<close>

inductive fw_reach :: "'f flash_ops \<Rightarrow> (bytes \<Rightarrow> u32) \<Rightarrow> 'f \<Rightarrow> 'f device \<Rightarrow> bool" for ops crc f0 where
  power_on: "fw_reach ops crc f0 (boot ops crc f0)"
| request: "fw_reach ops crc f0 (Updater u) \<Longrightarrow> host_write ops crc obj data u = (res, False, u')
    \<Longrightarrow> fw_reach ops crc f0 (Updater u')"
| reset: "fw_reach ops crc f0 (Updater u) \<Longrightarrow> host_write ops crc obj data u = (res, True, u')
    \<Longrightarrow> fw_reach ops crc f0 (boot ops crc (up_nvm u'))"
| updater_cycled: "fw_reach ops crc f0 (Updater u) \<Longrightarrow> fw_reach ops crc f0 (boot ops crc (up_nvm u))"
| application_cycled: "fw_reach ops crc f0 (Application f) \<Longrightarrow> fw_reach ops crc f0 (boot ops crc f)"
| update_entered: "fw_reach ops crc f0 (Application f) \<Longrightarrow> enter_update ops crc f = (True, f')
    \<Longrightarrow> fw_reach ops crc f0 (boot ops crc f')"
| update_not_entered: "fw_reach ops crc f0 (Application f) \<Longrightarrow> enter_update ops crc f = (False, f')
    \<Longrightarrow> fw_reach ops crc f0 (Application f')"

inductive_cases fw_reach_appE: "fw_reach ops crc f0 (Application f)"

fun device_flash :: "'f device \<Rightarrow> 'f" where
  "device_flash (Updater u) = up_nvm u"
| "device_flash (Application f) = f"

abbreviation in_force :: "'f flash_ops \<Rightarrow> (bytes \<Rightarrow> u32) \<Rightarrow> 'f \<Rightarrow> meta_record" where
  "in_force ops crc f \<equiv> fst (load_meta ops crc f)"

definition device_ok :: "'f flash_ops \<Rightarrow> (bytes \<Rightarrow> u32) \<Rightarrow> 'f \<Rightarrow> 'f device \<Rightarrow> bool" where
  "device_ok ops crc f0 d \<longleftrightarrow> boot_kept ops f0 (device_flash d)
     \<and> (case d of Updater u \<Rightarrow> updater_ok ops crc u | Application f \<Rightarrow> log_tracks ops crc f (in_force ops crc f))"

lemma log_tracks_in_force: "log_tracks ops crc f m \<Longrightarrow> log_tracks ops crc f (in_force ops crc f)"
  by (auto simp: log_tracks_def load_meta_slots same_app_def)

lemma boot_ok:
  assumes "driver_laws ops crc" and "boot_kept ops f0 f" and "log_tracks ops crc f m"
  shows "device_ok ops crc f0 (boot ops crc f)"
proof -
  define r where "r = in_force ops crc f"
  have t: "log_tracks ops crc f r" using log_tracks_in_force [OF assms(3)] by (simp add: r_def)
  have u: "updater_ok ops crc (updater_init ops crc r f) \<and> boot_kept ops f (up_nvm (updater_init ops crc r f))"
  proof (cases "mr_update_requested r")
    case True
    define s where "s = meta_next r (\<lambda>r. r\<lparr>mr_update_requested := False\<rparr>)"
    have s: "mr_seq s = mr_seq r + 1" "same_app s r" "\<not> mr_update_requested s" by (simp_all add: s_def meta_next_def same_app_def)
    obtain ok f1 where a: "append_meta ops crc s f = (ok, f1)" by fastforce
    have b: "newest crc (slots_of ops f) = Some r" using True by (auto simp: r_def load_meta_slots meta_blank_def split: option.splits)
    then have v: "mr_app_valid s \<Longrightarrow> app_image_verifies ops crc f s" using t s(2) same_app_verifies [OF s(2), of ops crc f] by (auto simp: log_tracks_def same_app_def)
    have n: "meta_newer s r" using next_newer [of "mr_seq r" "mr_seq r"] by (simp add: meta_newer_def s(1))
    have "tail_clean crc (slots_of ops f)" using t by (simp add: log_tracks_def)
    then have d: "\<not> ok \<Longrightarrow> newest crc (slots_of ops f1) \<in> {None, Some r}" using append_meta_log(2) [OF assms(1) _ _ a] n b by auto
    moreover note l = log_tracks_append(1) [OF assms(1) t s(1) v a]
    ultimately have "log_tracks ops crc f1 s"
    proof (cases ok)
      case False
      then have "log_tracks ops crc f1 r" "newest crc (slots_of ops f1) \<in> {None, Some r}" using l d by simp_all
      then show ?thesis using s(1,2) by (auto simp: log_tracks_def same_app_def)
    qed simp
    then show ?thesis
      using True a s(3) append_boot_kept [OF assms(1) t s(1) v a]
      by (simp add: updater_init_def s_def [symmetric] updater_ok_def boot_od_new_def prog_ok_def programmer_new_def)
  next
    case False
    then show ?thesis using t by (simp add: updater_init_def updater_ok_def boot_od_new_def prog_ok_def programmer_new_def)
  qed
  then show ?thesis using t boot_kept_trans [OF assms(2)] assms(2)
    by (auto simp: boot_def Let_def r_def [symmetric] device_ok_def)
qed

lemma enter_update_ok:
  assumes "driver_laws ops crc" and "log_tracks ops crc f m" and "enter_update ops crc f = (ok, f')"
  shows "log_tracks ops crc f' (in_force ops crc f')" and "boot_kept ops f f'"
proof -
  define r where "r = in_force ops crc f"
  define s where "s = meta_next r (\<lambda>r. r\<lparr>mr_update_requested := True\<rparr>)"
  have t: "log_tracks ops crc f r" using log_tracks_in_force [OF assms(2)] by (simp add: r_def)
  have s: "mr_seq s = mr_seq r + 1" "same_app s r" by (simp_all add: s_def meta_next_def same_app_def)
  have v: "mr_app_valid s \<Longrightarrow> app_image_verifies ops crc f s"
    using t s(2) same_app_verifies [OF s(2), of ops crc f] by (auto simp: log_tracks_def same_app_def r_def load_meta_slots meta_blank_def split: option.splits)
  have a: "append_meta ops crc s f = (ok, f')" using assms(3) by (simp add: enter_update_def Let_def s_def r_def)
  show "boot_kept ops f f'" by (rule append_boot_kept [OF assms(1) t s(1) v a])
  show "log_tracks ops crc f' (in_force ops crc f')"
    using log_tracks_append(1) [OF assms(1) t s(1) v a] log_tracks_in_force by (cases ok) auto
qed

lemma reach_ok:
  assumes "driver_laws ops crc" and "\<forall>raw\<in>set (slots_of ops f0). meta_decode crc raw = None" and "fw_reach ops crc f0 d"
  shows "device_ok ops crc f0 d"
  using assms(3)
proof (induction rule: fw_reach.induct)
  case power_on
  have "log_tracks ops crc f0 meta_blank" using no_records [OF assms(2)] by (simp add: log_tracks_def)
  then show ?case by (rule boot_ok [OF assms(1) boot_kept_refl])
next
  case (request u obj data res u')
  then show ?case using host_write_ok [OF assms(1) _ request.hyps(2)] boot_kept_trans [of ops f0 "up_nvm u"] by (simp add: device_ok_def)
next
  case (reset u obj data res u')
  then have "updater_ok ops crc u' \<and> boot_kept ops f0 (up_nvm u')"
    using host_write_ok [OF assms(1) _ reset.hyps(2)] boot_kept_trans [of ops f0 "up_nvm u"] by (simp add: device_ok_def)
  then show ?case using boot_ok [OF assms(1), of f0 "up_nvm u'" "up_meta u'"] by (simp add: updater_ok_def)
next
  case (updater_cycled u)
  then show ?case using boot_ok [OF assms(1), of f0 "up_nvm u" "up_meta u"] by (simp add: device_ok_def updater_ok_def)
next
  case (application_cycled f)
  then show ?case using boot_ok [OF assms(1), of f0 f "in_force ops crc f"] by (simp add: device_ok_def)
next
  case (update_entered f f')
  then show ?case using enter_update_ok [OF assms(1) _ update_entered.hyps(2), of "in_force ops crc f"]
      boot_ok [OF assms(1), of f0 f' "in_force ops crc f'"] boot_kept_trans [of ops f0 f f']
    by (simp add: device_ok_def)
next
  case (update_not_entered f f')
  then show ?case using enter_update_ok [OF assms(1) _ update_not_entered.hyps(2), of "in_force ops crc f"] boot_kept_trans [of ops f0 f f']
    by (simp add: device_ok_def)
qed

lemma updater_ok_boots:
  assumes "updater_ok ops crc u"
  shows "bo_flash_status (up_od u) = PROGRAMMING \<Longrightarrow> \<exists>u'. boot ops crc (up_nvm u) = Updater u'"
    and "bo_flash_status (up_od u) = VALID \<Longrightarrow> boot ops crc (up_nvm u) = Application (up_nvm u)"
proof -
  show "\<exists>u'. boot ops crc (up_nvm u) = Updater u'" if "bo_flash_status (up_od u) = PROGRAMMING"
    using that assms by (auto simp: updater_ok_def boot_def load_meta_slots log_tracks_def same_app_def meta_blank_def Let_def split: option.splits)
  show "boot ops crc (up_nvm u) = Application (up_nvm u)" if "bo_flash_status (up_od u) = VALID"
    using that assms by (auto simp: updater_ok_def boot_def load_meta_slots log_tracks_def)
qed

end
