(* ===== verification/Fw_Delivery.thy ===== *)
theory Fw_Delivery
  imports Fw_Safety
begin

text \<open>
  A firmware download on working flash: the session a host runs against the updater leaves exactly the image in
  the application slot and makes it the application the next reset starts, provided no chunk is too short to
  complete the doubleword carried over from the chunks before it; such a chunk is acknowledged and lost.
\<close>

section \<open>Working flash\<close>

text \<open>
  Flash that works still programs only erased, aligned doublewords and erases only whole pages, so success is
  promised for exactly those operations.
\<close>

definition flash_works :: "'f flash_ops \<Rightarrow> bool" where
  "flash_works ops \<longleftrightarrow>
     (\<forall>off data f. off mod WRITE_SIZE = 0 \<and> length data mod WRITE_SIZE = 0 \<and> off + length data \<le> APP_OFFSET + APP_SIZE
        \<and> (\<forall>i. off \<le> i \<and> i < off + length data \<longrightarrow> fo_read ops f i = 0xFF) \<longrightarrow> fst (fo_write ops off data f))
     \<and> (\<forall>from to f. from mod PAGE_SIZE = 0 \<and> to mod PAGE_SIZE = 0 \<and> from \<le> to \<and> to \<le> APP_OFFSET + APP_SIZE
        \<longrightarrow> fst (fo_erase ops from to f))"

lemma write_works:
  assumes "flash_works ops" and "off mod WRITE_SIZE = 0" and "length data mod WRITE_SIZE = 0" and "off + length data \<le> APP_OFFSET + APP_SIZE"
    and "\<And>i. off \<le> i \<Longrightarrow> i < off + length data \<Longrightarrow> fo_read ops f i = 0xFF"
  obtains f' where "fo_write ops off data f = (True, f')"
proof -
  have "fst (fo_write ops off data f)" using assms(2-) assms(1) [unfolded flash_works_def, THEN conjunct1, rule_format, of off data f] by simp
  then show ?thesis using that by (cases "fo_write ops off data f") simp
qed

lemma erase_works:
  assumes "flash_works ops" and "a mod PAGE_SIZE = 0" and "b mod PAGE_SIZE = 0" and "a \<le> b" and "b \<le> APP_OFFSET + APP_SIZE"
  obtains f' where "fo_erase ops a b f = (True, f')"
proof -
  have "fst (fo_erase ops a b f)" using assms(2-) assms(1) [unfolded flash_works_def, THEN conjunct2, rule_format, of a b f] by simp
  then show ?thesis using that by (cases "fo_erase ops a b f") simp
qed

lemma slot_erased_read:
  assumes "erased (slot_bytes ops f k)" and "META_OFFSET + k * META_RECORD_SIZE \<le> i" and "i < META_OFFSET + k * META_RECORD_SIZE + META_RECORD_SIZE"
  shows "fo_read ops f i = 0xFF"
  using assms by (auto simp: slot_bytes_def mem_bytes_def list_all_iff)

lemma append_meta_works:
  assumes "flash_laws ops" and "flash_works ops"
  obtains f' where "append_meta ops crc r f = (True, f')"
proof (cases "snd (load_meta ops crc f) < META_SLOTS")
  case True
  define k where "k = snd (load_meta ops crc f)"
  have k: "k = first_erased (slots_of ops f)" "k < length (slots_of ops f)" using True by (simp_all add: k_def load_meta_slots)
  then have "erased (slots_of ops f ! k)" using first_erased_split [of "slots_of ops f"] by simp
  then have e: "erased (slot_bytes ops f k)" using k(2) by (simp add: slots_of_def)
  have "(META_OFFSET + k * META_RECORD_SIZE) mod WRITE_SIZE = 0" by presburger
  from write_works [OF assms(2) this, of "meta_encode crc r" f] slot_erased_read [OF e]
  obtain f' where "fo_write ops (META_OFFSET + k * META_RECORD_SIZE) (meta_encode crc r) f = (True, f')"
    using True by (auto simp: k_def)
  then show ?thesis using True that by (simp add: append_meta_def Let_def k_def)
next
  case False
  obtain f1 where e: "fo_erase ops META_OFFSET (META_OFFSET + META_SIZE) f = (True, f1)"
    by (rule erase_works [OF assms(2), of META_OFFSET "META_OFFSET + META_SIZE" f]) simp_all
  have "erased (slot_bytes ops f1 0)" using erase_page(1) [OF assms(1) e, of "slot_bytes ops f1 0"] by (simp add: slots_of_def)
  from slot_erased_read [OF this] obtain f' where "fo_write ops META_OFFSET (meta_encode crc r) f1 = (True, f')"
    using write_works [OF assms(2), of META_OFFSET "meta_encode crc r" f1] by auto
  then show ?thesis using False e that by (simp add: append_meta_def Let_def)
qed

lemma append_outside:
  assumes "flash_laws ops" and "append_meta ops crc r f = (True, f')" and "outside_page i"
  shows "fo_read ops f' i = fo_read ops f i"
proof (cases "snd (load_meta ops crc f) < META_SLOTS")
  case True
  then have "fo_write ops (META_OFFSET + snd (load_meta ops crc f) * META_RECORD_SIZE) (meta_encode crc r) f = (True, f')"
    using assms(2) by (simp add: append_meta_def Let_def)
  from write_slot(3) [OF assms(1) True this length_meta_encode assms(3)] show ?thesis .
next
  case False
  then obtain f1 where e: "fo_erase ops META_OFFSET (META_OFFSET + META_SIZE) f = (True, f1)"
    and w: "fo_write ops (META_OFFSET + 0 * META_RECORD_SIZE) (meta_encode crc r) f1 = (True, f')"
    using assms(2) by (auto simp: append_meta_def Let_def split: prod.splits bool.splits)
  show ?thesis using write_slot(3) [OF assms(1) _ w length_meta_encode assms(3)] erase_page(2) [OF assms(1) e assms(3)] by simp
qed

section \<open>Streaming\<close>

text \<open>The slot holds \<open>bs\<close>, and is erased from there up to the offset \<open>E\<close>.\<close>

definition flashed :: "'f flash_ops \<Rightarrow> 'f \<Rightarrow> bytes \<Rightarrow> nat \<Rightarrow> bool" where
  "flashed ops f bs E \<longleftrightarrow> length bs mod WRITE_SIZE = 0 \<and> APP_OFFSET + length bs \<le> E \<and> E \<le> APP_OFFSET + APP_SIZE
     \<and> mem_bytes ops f APP_OFFSET (length bs) = bs \<and> (\<forall>i. APP_OFFSET + length bs \<le> i \<and> i < E \<longrightarrow> fo_read ops f i = 0xFF)"

definition streamed :: "'f flash_ops \<Rightarrow> programmer \<Rightarrow> 'f \<Rightarrow> bytes \<Rightarrow> bytes \<Rightarrow> nat \<Rightarrow> bool" where
  "streamed ops p f bs q E \<longleftrightarrow> flashed ops f bs E \<and> pg_flushed p = of_nat (length bs) \<and> pg_pending_len p = length q
     \<and> length q < WRITE_SIZE \<and> take (length q) (pg_pending p) = q \<and> length (pg_pending p) = WRITE_SIZE
     \<and> pg_accepted p = of_nat (length bs + length q)"

lemma unat_u32: "n < 2 ^ 32 \<Longrightarrow> unat (of_nat n :: u32) = n"
  by (simp add: unat_of_nat)

lemma commit_works:
  assumes "flash_laws ops" and "flash_works ops" and "flashed ops f bs E" and "pg_flushed p = of_nat (length bs)"
    and "length data mod WRITE_SIZE = 0" and "APP_OFFSET + length bs + length data \<le> E"
  obtains f' where "programmer_commit ops p data f = (Inr (), p\<lparr>pg_flushed := of_nat (length (bs @ data))\<rparr>, f')" and "flashed ops f' (bs @ data) E"
proof -
  note fl = assms(3) [unfolded flashed_def]
  have n: "unat (of_nat (length bs) :: u32) = length bs" using fl by (simp add: unat_of_nat)
  have o: "unat (0xE800 + pg_flushed p) = APP_OFFSET + length bs"
    using unat_flash_offset [of "pg_flushed p"] n fl assms(4) by simp
  have "length bs mod WRITE_SIZE = 0" using fl by blast
  then have "(APP_OFFSET + length bs) mod WRITE_SIZE = 0" by presburger
  from write_works [OF assms(2) this assms(5), of f] assms(6) fl
  obtain f' where w: "fo_write ops (APP_OFFSET + length bs) data f = (True, f')" by auto
  have "mem_bytes ops f' APP_OFFSET (length bs) = bs"
    using fl mem_bytes_cong [of APP_OFFSET "length bs" ops f' f] write_outside [OF assms(1) w] by simp
  then have m: "mem_bytes ops f' APP_OFFSET (length (bs @ data)) = bs @ data"
    using mem_bytes_append [of ops f' APP_OFFSET "length bs" "length data"] write_inside [OF assms(1) w] by simp
  have "flashed ops f' (bs @ data) E"
    using fl assms(5,6) m write_outside [OF assms(1) w] by (auto simp: flashed_def mod_add_eq [symmetric])
  then show ?thesis using that w o assms(4) by (simp add: programmer_commit_def)
qed

lemma push_bulk_works:
  assumes "flash_laws ops" and "flash_works ops" and "flashed ops f bs E" and "pg_flushed p = of_nat (length bs)"
    and "APP_OFFSET + length bs + length c \<le> E"
  obtains f' bs' q where "push_bulk ops p c f = (Inr q, p\<lparr>pg_flushed := of_nat (length bs')\<rparr>, f')" and "flashed ops f' bs' E"
    and "bs' @ q = bs @ c" and "length q < WRITE_SIZE"
proof -
  define aligned where "aligned = length c - length c mod WRITE_SIZE"
  have al: "aligned mod WRITE_SIZE = 0" "aligned \<le> length c" "length c - aligned < WRITE_SIZE"
    by (simp_all add: aligned_def minus_mod_eq_mult_div)
  show ?thesis
  proof (cases "aligned > 0")
    case True
    obtain f' where "programmer_commit ops p (take aligned c) f = (Inr (), p\<lparr>pg_flushed := of_nat (length (bs @ take aligned c))\<rparr>, f')"
      "flashed ops f' (bs @ take aligned c) E"
      by (rule commit_works [OF assms(1-4), of "take aligned c"]) (use al assms(5) in simp_all)
    then show ?thesis using that [of "drop aligned c" "bs @ take aligned c" f'] True al
      by (simp add: push_bulk_def Let_def aligned_def [symmetric])
  next
    case False
    then show ?thesis using that [of c bs f] assms(3,4) al by (simp add: push_bulk_def Let_def aligned_def [symmetric])
  qed
qed

lemma push_works:
  assumes "flash_laws ops" and "flash_works ops" and "streamed ops p f bs q E"
    and "APP_OFFSET + length bs + length q + length c \<le> E" and "q = [] \<or> WRITE_SIZE \<le> length q + length c"
  obtains p' f' bs' q' where "programmer_push ops p c f = (Inr (), p', f')" and "streamed ops p' f' bs' q' E" and "bs' @ q' = bs @ q @ c"
proof -
  note st = assms(3) [unfolded streamed_def]
  have E: "E \<le> APP_OFFSET + APP_SIZE" using st by (simp add: flashed_def)
  have "pg_accepted p = of_nat (length bs + length q)" using st by blast
  moreover have "unat (of_nat (length bs + length q) :: u32) = length bs + length q" using E assms(4) by (intro unat_u32) simp
  ultimately have na: "unat (pg_accepted p) = length bs + length q" by simp
  then have small: "\<not> unat (pg_accepted p) + length c > APP_SIZE" using E assms(4) by simp
  have top: "\<exists>p1 f1 bs1 rest. push_top_up ops p c f = (Inr rest, p1, f1) \<and> flashed ops f1 bs1 E \<and> bs1 @ rest = bs @ q @ c
      \<and> pg_flushed p1 = of_nat (length bs1) \<and> length (pg_pending p1) = WRITE_SIZE \<and> pg_accepted p1 = pg_accepted p"
  proof (cases "q = []")
    case True
    then show ?thesis using st by (auto simp: push_top_up_def)
  next
    case False
    define n where "n = WRITE_SIZE - length q"
    have n: "min (WRITE_SIZE - pg_pending_len p) (length c) = n" "n \<le> length c" "length q + n = WRITE_SIZE"
      using False st assms(5) by (auto simp: n_def)
    define p1 where "p1 = p\<lparr>pg_pending := overwrite (pg_pending p) (length q) (take n c), pg_pending_len := WRITE_SIZE\<rparr>"
    have w: "overwrite (pg_pending p) (length q) (take n c) = q @ take n c"
      using st n by (simp add: overwrite_def)
    obtain f1 where cm: "programmer_commit ops p1 (q @ take n c) f = (Inr (), p1\<lparr>pg_flushed := of_nat (length (bs @ q @ take n c))\<rparr>, f1)"
      and fl: "flashed ops f1 (bs @ q @ take n c) E"
      by (rule commit_works [OF assms(1,2), of f bs E p1 "q @ take n c"]) (use st n assms(4) in \<open>simp_all add: p1_def\<close>)
    have "push_top_up ops p c f = (Inr (drop n c), p1\<lparr>pg_flushed := of_nat (length (bs @ q @ take n c)), pg_pending_len := 0\<rparr>, f1)"
      using False st n cm by (simp add: push_top_up_def Let_def p1_def w)
    then show ?thesis using fl n st by (intro exI [of _ "bs @ q @ take n c"] exI [of _ "drop n c"] exI) (auto simp: p1_def w)
  qed
  then obtain p1 f1 bs1 rest where t: "push_top_up ops p c f = (Inr rest, p1, f1)" "flashed ops f1 bs1 E" "bs1 @ rest = bs @ q @ c"
    "pg_flushed p1 = of_nat (length bs1)" "length (pg_pending p1) = WRITE_SIZE" "pg_accepted p1 = pg_accepted p" by blast
  have len: "length bs1 + length rest = length bs + length q + length c" using arg_cong [OF t(3), of length] by simp
  obtain f2 bs2 q2 where b: "push_bulk ops p1 rest f1 = (Inr q2, p1\<lparr>pg_flushed := of_nat (length bs2)\<rparr>, f2)"
    "flashed ops f2 bs2 E" "bs2 @ q2 = bs1 @ rest" "length q2 < WRITE_SIZE"
    by (rule push_bulk_works [OF assms(1,2) t(2,4), of rest]) (use len assms(4) in simp_all)
  define p2 where "p2 = p1\<lparr>pg_flushed := of_nat (length bs2), pg_pending := overwrite (pg_pending p1) 0 q2,
    pg_pending_len := length q2, pg_accepted := pg_accepted p + of_nat (length c)\<rparr>"
  have len2: "length bs2 + length q2 = length bs + length q + length c" using arg_cong [OF b(3), of length] len by simp
  have "programmer_push ops p c f = (Inr (), p2, f2)" using small t b by (simp add: programmer_push_def p2_def)
  moreover have "streamed ops p2 f2 bs2 q2 E"
    using b(2,4) t(5) st len2 by (simp add: streamed_def p2_def overwrite_def flip: of_nat_add)
  ultimately show ?thesis using that b(3) t(3) by simp
qed

lemma finish_works:
  assumes "flash_laws ops" and "flash_works ops" and "streamed ops p f bs q E"
    and "APP_OFFSET + length bs + length q \<le> E" and "E mod WRITE_SIZE = 0"
  obtains p' f' where "programmer_finish ops p f = (Inr (), p', f')" and "pg_accepted p' = pg_accepted p"
    and "mem_bytes ops f' APP_OFFSET (length bs + length q) = bs @ q"
proof (cases "q = []")
  case True
  then show ?thesis using assms(3) that [of p f] by (simp add: streamed_def flashed_def programmer_finish_def)
next
  case False
  note st = assms(3) [unfolded streamed_def]
  define pad :: bytes where "pad = replicate (WRITE_SIZE - length q) 0xFF"
  have bs: "length bs mod WRITE_SIZE = 0" using st by (simp add: flashed_def)
  have "length q > 0" using False by simp
  then have room: "APP_OFFSET + length bs + WRITE_SIZE \<le> E" using bs assms(4,5) by presburger
  obtain f' where cm: "programmer_commit ops (p\<lparr>pg_pending_len := 0\<rparr>) (q @ pad) f
      = (Inr (), p\<lparr>pg_pending_len := 0, pg_flushed := of_nat (length (bs @ q @ pad))\<rparr>, f')" and fl: "flashed ops f' (bs @ q @ pad) E"
    by (rule commit_works [OF assms(1,2), of f bs E "p\<lparr>pg_pending_len := 0\<rparr>" "q @ pad"])
      (use st room in \<open>simp_all add: pad_def\<close>)
  have "mem_bytes ops f' APP_OFFSET (length bs + length q) @ mem_bytes ops f' (APP_OFFSET + (length bs + length q)) (length pad) = (bs @ q) @ pad"
    using fl mem_bytes_append [of ops f' APP_OFFSET "length bs + length q" "length pad"] by (simp add: flashed_def add.assoc)
  then have "mem_bytes ops f' APP_OFFSET (length bs + length q) = bs @ q" by (simp add: append_eq_append_conv del: append_assoc)
  then show ?thesis using that cm False st by (simp add: programmer_finish_def Let_def pad_def)
qed


section \<open>A download session\<close>

text \<open>The requests are issued one after the other; the session ends at the first one the updater refuses.\<close>

fun run_session :: "'f flash_ops \<Rightarrow> (bytes \<Rightarrow> u32) \<Rightarrow> (prog_object \<times> bytes) list \<Rightarrow> 'f updater \<Rightarrow> 'f updater option" where
  "run_session ops crc [] u = Some u"
| "run_session ops crc (r # rs) u = (case host_write ops crc (fst r) (snd r) u of
     (Inr _, False, u) \<Rightarrow> run_session ops crc rs u
   | _ \<Rightarrow> None)"

definition host_download :: "(bytes \<Rightarrow> u32) \<Rightarrow> bytes \<Rightarrow> bytes list \<Rightarrow> (prog_object \<times> bytes) list" where
  "host_download crc img chunks =
     [(ImageLengthEntry, to_le_bytes 4 (of_nat (length img) :: u32)), (ProgramControl, [CLEAR])]
     @ map (Pair ProgramData) chunks
     @ [(ProgramSwId, to_le_bytes 4 (crc img)), (ProgramControl, [VALIDATE])]"

text \<open>After \<open>n\<close> bytes, every chunk completes the doubleword that the chunks before it have begun.\<close>

fun chunks_fill :: "nat \<Rightarrow> bytes list \<Rightarrow> bool" where
  "chunks_fill n [] = True"
| "chunks_fill n (c # cs) = ((n mod WRITE_SIZE = 0 \<or> WRITE_SIZE \<le> n mod WRITE_SIZE + length c) \<and> chunks_fill (n + length c) cs)"

definition downloading :: "'f flash_ops \<Rightarrow> nat \<Rightarrow> bytes \<Rightarrow> bytes \<Rightarrow> 'f updater \<Rightarrow> bool" where
  "downloading ops N bs q u \<longleftrightarrow> (let E = clear_end (of_nat N) in
     streamed ops (up_programmer u) (up_nvm u) bs q E \<and> 0 < N \<and> N \<le> APP_SIZE \<and> length bs + length q \<le> N
     \<and> bo_flash_status (up_od u) = PROGRAMMING \<and> bo_bytes_written (up_od u) = of_nat (length bs + length q)
     \<and> bo_image_length (up_od u) = of_nat N)"

lemma clear_end_bounds:
  assumes "N \<le> APP_SIZE"
  shows "APP_OFFSET + N \<le> clear_end (of_nat N)" and "clear_end (of_nat N) \<le> APP_OFFSET + APP_SIZE"
    and "clear_end (of_nat N) mod PAGE_SIZE = 0" and "clear_end (of_nat N) mod WRITE_SIZE = 0"
proof -
  have u: "unat (of_nat N :: u32) = N" using assms by (intro unat_u32) simp
  show "APP_OFFSET + N \<le> clear_end (of_nat N)" "clear_end (of_nat N) \<le> APP_OFFSET + APP_SIZE"
    "clear_end (of_nat N) mod PAGE_SIZE = 0" "clear_end (of_nat N) mod WRITE_SIZE = 0"
    using assms by (simp_all add: clear_end_def u)
qed

lemma le_u32: "from_le_bytes (to_le_bytes 4 w) = w" for w :: u32
  by (rule from_le_to_le) simp

lemma image_length_request:
  assumes "0 < N" and "N \<le> APP_SIZE"
  shows "host_write ops crc ImageLengthEntry (to_le_bytes 4 (of_nat N :: u32)) u
    = (Inr (), False, u\<lparr>up_od := (up_od u)\<lparr>bo_image_length := of_nat N\<rparr>\<rparr>)"
proof -
  have u: "unat (of_nat N :: u32) = N" using assms by (intro unat_u32) simp
  then have "(of_nat N :: u32) \<noteq> 0" using assms(1) by (metis unat_0 less_irrefl)
  then show ?thesis using assms u
    by (simp add: host_write_def boot_check_write_def decode_change_def handle_change_def le_u32)
qed

lemma clear_request:
  assumes "flash_laws ops" and "flash_works ops" and "0 < N" and "N \<le> APP_SIZE" and "bo_image_length (up_od u) = of_nat N"
  obtains u' where "host_write ops crc ProgramControl [CLEAR] u = (Inr (), False, u')" and "downloading ops N [] [] u'"
    and "bo_expected_crc (up_od u') = bo_expected_crc (up_od u)"
proof -
  note b = clear_end_bounds [OF assms(4)]
  have u: "unat (of_nat N :: u32) = N" using assms by (intro unat_u32) simp
  then have nz: "(of_nat N :: u32) \<noteq> 0" using assms(3) by (metis unat_0 less_irrefl)
  obtain f where a: "append_meta ops crc (invalidated (up_meta u)) (up_nvm u) = (True, f)" by (rule append_meta_works [OF assms(1,2)])
  obtain f' where e: "fo_erase ops APP_OFFSET (clear_end (of_nat N)) f = (True, f')"
    by (rule erase_works [OF assms(2), of APP_OFFSET "clear_end (of_nat N)" f]) (use b in simp_all)
  have "fo_read ops f' i = 0xFF" if "APP_OFFSET \<le> i" "i < clear_end (of_nat N)" for i
    using assms(1) e that unfolding flash_laws_def by metis
  then have "flashed ops f' [] (clear_end (of_nat N))" using b by (simp add: flashed_def mem_bytes_def)
  then show ?thesis
    using a e assms(3-5) nz that
    by (simp add: host_write_def boot_check_write_def decode_change_def handle_change_def update_clear_def downloading_def streamed_def programmer_new_def)
qed

lemma chunk_request:
  assumes "flash_laws ops" and "flash_works ops" and "downloading ops N bs q u" and "length bs + length q + length c \<le> N"
    and "length c \<le> MAX_CHUNK" and "q = [] \<or> WRITE_SIZE \<le> length q + length c"
  obtains u' bs' q' where "host_write ops crc ProgramData c u = (Inr (), False, u')" and "downloading ops N bs' q' u'"
    and "bs' @ q' = bs @ q @ c" and "bo_expected_crc (up_od u') = bo_expected_crc (up_od u)"
proof -
  note d = assms(3) [unfolded downloading_def Let_def]
  have b: "APP_OFFSET + N \<le> clear_end (of_nat N)" using d clear_end_bounds(1) by blast
  obtain p f bs' q' where p: "programmer_push ops (up_programmer u) c (up_nvm u) = (Inr (), p, f)"
    and s: "streamed ops p f bs' q' (clear_end (of_nat N))" "bs' @ q' = bs @ q @ c"
    by (rule push_works [OF assms(1,2) conjunct1 [OF d], of c]) (use b assms(4,6) in simp_all)
  have len: "length bs' + length q' = length bs + length q + length c" using arg_cong [OF s(2), of length] by simp
  have u: "unat (bo_bytes_written (up_od u)) = length bs + length q" "unat (bo_image_length (up_od u)) = N"
    using d assms(4) unat_u32 [of "length bs + length q"] unat_u32 [of N] by simp_all
  have st: "bo_flash_status (up_od u) = PROGRAMMING" using d by blast
  define u' where "u' = u\<lparr>up_od := (up_od u)\<lparr>bo_firmware_chunk := c, bo_bytes_written := pg_accepted p\<rparr>, up_programmer := p, up_nvm := f\<rparr>"
  have "host_write ops crc ProgramData c u = (Inr (), False, u')"
    using p st assms(4,5) by (simp add: host_write_def boot_check_write_def decode_change_def handle_change_def u u'_def)
  moreover have "downloading ops N bs' q' u'" using s(1) d len assms(4) by (simp add: downloading_def u'_def streamed_def)
  ultimately show ?thesis using that [of u' bs' q'] s(2) by (simp add: u'_def)
qed


lemma chunk_requests:
  assumes "flash_laws ops" and "flash_works ops" and "downloading ops N bs q u" and "length bs + length q + length (concat cs) \<le> N"
    and "\<forall>c\<in>set cs. length c \<le> MAX_CHUNK" and "chunks_fill (length bs + length q) cs"
  obtains u' bs' q' where "run_session ops crc (map (Pair ProgramData) cs @ rs) u = run_session ops crc rs u'"
    and "downloading ops N bs' q' u'" and "bs' @ q' = bs @ q @ concat cs" and "bo_expected_crc (up_od u') = bo_expected_crc (up_od u)"
  using assms(3-)
proof (induction cs arbitrary: thesis u bs q)
  case Nil
  then show ?case by simp
next
  case (Cons c cs)
  have "length bs mod WRITE_SIZE = 0" "length q < WRITE_SIZE"
    using Cons.prems(2) by (simp_all add: downloading_def Let_def streamed_def flashed_def)
  then have "(length bs + length q) mod WRITE_SIZE = length q" by (metis mod_add_left_eq add_0 mod_less)
  then have fill: "q = [] \<or> WRITE_SIZE \<le> length q + length c" using Cons.prems(5) by auto
  obtain u1 bs1 q1 where h: "host_write ops crc ProgramData c u = (Inr (), False, u1)" and d: "downloading ops N bs1 q1 u1"
    and e: "bs1 @ q1 = bs @ q @ c" and x: "bo_expected_crc (up_od u1) = bo_expected_crc (up_od u)"
    by (rule chunk_request [OF assms(1,2) Cons.prems(2) _ _ fill]) (use Cons.prems in auto)
  have len: "length bs1 + length q1 = length bs + length q + length c" using arg_cong [OF e, of length] by simp
  obtain u' bs' q' where "run_session ops crc (map (Pair ProgramData) cs @ rs) u1 = run_session ops crc rs u'"
    "downloading ops N bs' q' u'" "bs' @ q' = bs1 @ q1 @ concat cs" "bo_expected_crc (up_od u') = bo_expected_crc (up_od u1)"
    by (rule Cons.IH [OF _ d]) (use len Cons.prems in auto)
  moreover from this(3) have "bs' @ q' = bs @ q @ concat (c # cs)" using e by (metis append.assoc concat.simps(2))
  ultimately show ?case using Cons.prems(1) h x by simp
qed

lemma validate_request:
  assumes "flash_laws ops" and "flash_works ops" and "downloading ops (length img) bs q u" and "bs @ q = img"
    and "WRITE_SIZE \<le> length img" and "vector_table_ok (of_nat (length img)) img" and "bo_expected_crc (up_od u) = crc img"
  obtains u' where "host_write ops crc ProgramControl [VALIDATE] u = (Inr (), False, u')"
    and "mem_bytes ops (up_nvm u') APP_OFFSET (length img) = img" and "bo_flash_status (up_od u') = VALID"
    and "mr_app_len (up_meta u') = of_nat (length img)" and "mr_app_crc (up_meta u') = crc img"
proof -
  note d = assms(3) [unfolded downloading_def Let_def]
  have N: "length img \<le> APP_SIZE" and st: "bo_flash_status (up_od u) = PROGRAMMING"
    and il: "bo_image_length (up_od u) = of_nat (length img)" using d by blast+
  have len: "length bs + length q = length img" using assms(4) by auto
  have acc: "pg_accepted (up_programmer u) = of_nat (length img)" using d len by (simp add: streamed_def flip: of_nat_add)
  have room: "APP_OFFSET + length bs + length q \<le> clear_end (of_nat (length img))" using clear_end_bounds(1) [OF N] len by simp
  from finish_works [OF assms(1,2) conjunct1 [OF d] room clear_end_bounds(4) [OF N]]
  obtain p f where f: "programmer_finish ops (up_programmer u) (up_nvm u) = (Inr (), p, f)" "pg_accepted p = pg_accepted (up_programmer u)"
    and m: "mem_bytes ops f APP_OFFSET (length img) = img" using assms(4) len by auto
  have u: "unat (of_nat (length img) :: u32) = length img" using N by (intro unat_u32) simp
  then have nz: "(of_nat (length img) :: u32) \<noteq> 0" using assms(5) by (metis unat_0 not_numeral_le_zero)
  have i: "app_image ops f (of_nat (length img)) = Some img" using u nz N m by (simp add: app_image_def)
  have v: "app_vector_table_plausible ops f (of_nat (length img))" using i assms(5,6) by (simp add: app_vector_table_plausible_def)
  define candidate where "candidate = meta_next (up_meta u)
    (\<lambda>r. r\<lparr>mr_app_valid := True, mr_app_len := of_nat (length img), mr_app_crc := crc img\<rparr>)"
  obtain f' where a: "append_meta ops crc candidate f = (True, f')" by (rule append_meta_works [OF assms(1,2)])
  define u' where "u' = u\<lparr>up_od := (up_od u)\<lparr>bo_command := VALIDATE, bo_flash_status := VALID\<rparr>, up_programmer := p, up_nvm := f', up_meta := candidate\<rparr>"
  have "host_write ops crc ProgramControl [VALIDATE] u = (Inr (), False, u')"
    using f acc i v a st il assms(7)
    by (simp add: host_write_def boot_check_write_def decode_change_def handle_change_def update_validate_def candidate_def u'_def)
  moreover have "mem_bytes ops f' APP_OFFSET (length img) = img"
    using mem_bytes_cong [of APP_OFFSET "length img" ops f' f] m append_outside [OF assms(1) a] by (simp add: outside_page_def)
  ultimately show ?thesis using that by (simp add: u'_def candidate_def meta_next_def)
qed


lemma download_run:
  assumes "flash_laws ops" and "flash_works ops"
    and "concat chunks = img" and "\<forall>c\<in>set chunks. length c \<le> MAX_CHUNK" and "chunks_fill 0 chunks"
    and "WRITE_SIZE \<le> length img" and "length img \<le> APP_SIZE" and "vector_table_ok (of_nat (length img)) img"
  obtains u' where "run_session ops crc (host_download crc img chunks) u = Some u'"
    and "mem_bytes ops (up_nvm u') APP_OFFSET (length img) = img" and "bo_flash_status (up_od u') = VALID"
    and "mr_app_len (up_meta u') = of_nat (length img)" and "mr_app_crc (up_meta u') = crc img"
proof -
  define u1 where "u1 = u\<lparr>up_od := (up_od u)\<lparr>bo_image_length := of_nat (length img)\<rparr>\<rparr>"
  define rs where "rs = [(ProgramSwId, to_le_bytes 4 (crc img)), (ProgramControl, [VALIDATE])]"
  have pos: "0 < length img" using assms(6) by linarith
  have h1: "host_write ops crc ImageLengthEntry (to_le_bytes 4 (of_nat (length img) :: u32)) u = (Inr (), False, u1)"
    unfolding u1_def by (rule image_length_request [OF pos assms(7)])
  obtain u2 where h2: "host_write ops crc ProgramControl [CLEAR] u1 = (Inr (), False, u2)" "downloading ops (length img) [] [] u2"
    by (rule clear_request [OF assms(1,2) pos assms(7), of u1]) (simp add: u1_def)
  obtain u3 bs q where h3: "run_session ops crc (map (Pair ProgramData) chunks @ rs) u2 = run_session ops crc rs u3"
    "downloading ops (length img) bs q u3" "bs @ q = [] @ [] @ concat chunks"
    by (rule chunk_requests [where crc = crc and rs = rs, OF assms(1,2) h2(2), of chunks]) (use assms(3-5) in auto)
  define u4 where "u4 = u3\<lparr>up_od := (up_od u3)\<lparr>bo_expected_crc := crc img\<rparr>\<rparr>"
  have h4: "host_write ops crc ProgramSwId (to_le_bytes 4 (crc img)) u3 = (Inr (), False, u4)"
    by (simp add: host_write_def boot_check_write_def decode_change_def handle_change_def le_u32 u4_def)
  have d4: "downloading ops (length img) bs q u4" using h3(2) by (simp add: downloading_def u4_def)
  have e: "bs @ q = img" using h3(3) assms(3) by simp
  obtain u' where u': "host_write ops crc ProgramControl [VALIDATE] u4 = (Inr (), False, u')"
    "mem_bytes ops (up_nvm u') APP_OFFSET (length img) = img" "bo_flash_status (up_od u') = VALID"
    "mr_app_len (up_meta u') = of_nat (length img)" "mr_app_crc (up_meta u') = crc img"
    by (rule validate_request [where crc = crc, OF assms(1,2) d4 e assms(6,8)]) (simp add: u4_def)
  have "run_session ops crc (host_download crc img chunks) u = run_session ops crc (map (Pair ProgramData) chunks @ rs) u2"
    by (simp add: host_download_def h1 h2(1) rs_def)
  then have "run_session ops crc (host_download crc img chunks) u = Some u'"
    using h3(1) h4 u'(1) by (simp add: rs_def)
  then show ?thesis using that u'(2-) by blast
qed

lemma run_session_ok:
  assumes "driver_laws ops crc"
  shows "updater_ok ops crc u \<Longrightarrow> run_session ops crc rs u = Some u' \<Longrightarrow> updater_ok ops crc u'"
proof (induction rs arbitrary: u)
  case (Cons r rs)
  then obtain u1 where h: "host_write ops crc (fst r) (snd r) u = (Inr (), False, u1)" "run_session ops crc rs u1 = Some u'"
    by (auto split: prod.splits sum.splits bool.splits)
  then show ?case using Cons.IH [of u1] Cons.prems(1) host_write_ok [OF assms _ h(1)] by blast
qed simp

lemma run_session_reach:
  "fw_reach ops crc f0 (Updater u) \<Longrightarrow> run_session ops crc rs u = Some u' \<Longrightarrow> fw_reach ops crc f0 (Updater u')"
proof (induction rs arbitrary: u)
  case (Cons r rs)
  then obtain u1 where h: "host_write ops crc (fst r) (snd r) u = (Inr (), False, u1)" "run_session ops crc rs u1 = Some u'"
    by (auto split: prod.splits sum.splits bool.splits)
  then show ?case using Cons.IH [of u1] fw_reach.request [OF Cons.prems(1) h(1)] by blast
qed simp

text \<open>
  C15. A firmware download delivers the image: on working flash (aligned writes to erased flash inside the part and
  erases of whole pages succeed), from any state the updater can be in, a host that declares the length, clears,
  sends the image in chunks of at most 889 bytes, declares the CRC and validates has every request accepted and
  ends with exactly the image in the application slot, its length and CRC in the record in force, status
  valid, and a boot decision that starts the application. Asked of the host: the image has a plausible vector table
  and fits the slot, and no chunk is too short to complete the doubleword begun by the chunks before it.
\<close>

theorem firmware_download_delivers:
  assumes "driver_laws ops crc" and "flash_works ops" and "updater_ok ops crc u"
    and "concat chunks = img" and "\<forall>c\<in>set chunks. length c \<le> MAX_CHUNK" and "chunks_fill 0 chunks"
    and "WRITE_SIZE \<le> length img" and "length img \<le> APP_SIZE" and "vector_table_ok (of_nat (length img)) img"
  shows "\<exists>u'. run_session ops crc (host_download crc img chunks) u = Some u'
    \<and> mem_bytes ops (up_nvm u') APP_OFFSET (length img) = img \<and> bo_flash_status (up_od u') = VALID
    \<and> mr_app_len (in_force ops crc (up_nvm u')) = of_nat (length img) \<and> mr_app_crc (in_force ops crc (up_nvm u')) = crc img
    \<and> boot ops crc (up_nvm u') = Application (up_nvm u')"
proof -
  obtain u' where r: "run_session ops crc (host_download crc img chunks) u = Some u'"
    and m: "mem_bytes ops (up_nvm u') APP_OFFSET (length img) = img" "bo_flash_status (up_od u') = VALID"
      "mr_app_len (up_meta u') = of_nat (length img)" "mr_app_crc (up_meta u') = crc img"
    by (rule download_run [OF flash_lawsD [OF assms(1)] assms(2,4-9)])
  note ok = run_session_ok [OF assms(1,3) r]
  have "in_force ops crc (up_nvm u') = up_meta u'" using ok m(2) by (simp add: updater_ok_def load_meta_slots)
  then show ?thesis using r m updater_ok_boots(2) [OF ok m(2)] by auto
qed

text \<open>
  C16. A chunk that does not complete the doubleword begun before it is lost: \<open>push\<close> reports success and counts
  its bytes as received, but forgets both the carried bytes and the new ones, and writes nothing.
\<close>

theorem push_loses_short_chunk:
  assumes "0 < pg_pending_len p" and "pg_pending_len p + length c < WRITE_SIZE" and "unat (pg_accepted p) + length c \<le> APP_SIZE"
  shows "\<exists>p'. programmer_push ops p c f = (Inr (), p', f) \<and> pg_pending_len p' = 0 \<and> pg_flushed p' = pg_flushed p
    \<and> unat (pg_accepted p') = unat (pg_accepted p) + length c"
proof -
  have n: "min (WRITE_SIZE - pg_pending_len p) (length c) = length c" using assms(2) by simp
  have "unat (pg_accepted p + of_nat (length c)) = unat (pg_accepted p) + length c"
    using assms(3) by (simp add: unat_word_ariths unat_of_nat)
  then show ?thesis using assms n by (simp add: programmer_push_def push_top_up_def push_bulk_def Let_def)
qed

text \<open>
  C13. Firmware updates are power-fail safe. Start from a board whose metadata page holds no record, and let a host
  issue any sequence of writes to the programming objects, let the application ask for updates, let flash operations
  fail, and cut the power at any point. Then the pages of the bootloader are never changed; a record in force
  that marks the application valid names an image in the slot that verifies (so the check at boot, which guards
  against decay, never fails); while a download is in progress a reset comes back to the updater; and once the
  status reads valid a reset starts the application. Asked of the driver: it refuses writes past the end of the flash,
  a record whose write failed does not pass its CRC, and a failed page erase keeps the records or loses all.
\<close>

theorem firmware_update_power_fail_safe:
  assumes "driver_laws ops crc" and "\<forall>raw\<in>set (slots_of ops f0). meta_decode crc raw = None" and "fw_reach ops crc f0 d"
  shows "(\<forall>i < META_OFFSET. fo_read ops (device_flash d) i = fo_read ops f0 i)
    \<and> (mr_app_valid (in_force ops crc (device_flash d))
         \<longrightarrow> app_image_verifies ops crc (device_flash d) (in_force ops crc (device_flash d)))
    \<and> (\<forall>u. d = Updater u \<longrightarrow>
         (bo_flash_status (up_od u) = PROGRAMMING \<longrightarrow> (\<exists>u'. boot ops crc (up_nvm u) = Updater u'))
         \<and> (bo_flash_status (up_od u) = VALID \<longrightarrow> boot ops crc (up_nvm u) = Application (up_nvm u)))"
proof -
  note ok = reach_ok [OF assms]
  have "\<exists>m. log_tracks ops crc (device_flash d) m" using ok by (cases d) (auto simp: device_ok_def updater_ok_def)
  then have "mr_app_valid (in_force ops crc (device_flash d))
      \<longrightarrow> app_image_verifies ops crc (device_flash d) (in_force ops crc (device_flash d))"
    by (auto simp: log_tracks_def load_meta_slots meta_blank_def split: option.splits)
  moreover have "\<forall>u. d = Updater u \<longrightarrow> updater_ok ops crc u" using ok by (auto simp: device_ok_def)
  ultimately show ?thesis using ok updater_ok_boots by (fastforce simp: device_ok_def boot_kept_def)
qed

section \<open>A download into a byte array\<close>

lemma array_driver_laws: "driver_laws array_flash crc" "flash_works array_flash"
  using array_flash_laws by (auto simp: driver_laws_def flash_works_def array_flash_def split: if_splits)

definition blank_updater :: "(nat \<Rightarrow> u8) updater" where
  "blank_updater = updater_init array_flash sum_check meta_blank (\<lambda>_. 0xFF)"

lemma blank_boot: "boot array_flash sum_check (\<lambda>_. 0xFF) = Updater blank_updater"
  by (simp add: boot_def array_flash_blank(2) blank_updater_def meta_blank_def)

lemma blank_no_records: "\<forall>raw\<in>set (slots_of array_flash (\<lambda>_. 0xFF)). meta_decode crc raw = None"
  using erased_not_record by (auto simp: slots_of_def slot_bytes_def mem_bytes_def array_flash_def list_all_iff)

lemma blank_reach: "fw_reach array_flash sum_check (\<lambda>_. 0xFF) (Updater blank_updater)"
  using fw_reach.power_on [of array_flash sum_check "\<lambda>_. 0xFF"] by (simp add: blank_boot)

lemma blank_updater_ok: "updater_ok array_flash sum_check blank_updater"
  using reach_ok [OF array_driver_laws(1) blank_no_records blank_reach] by (simp add: device_ok_def)

definition small_image :: bytes where
  "small_image = [0, 0x80, 0, 0x20, 1, 0xE8, 0, 8, 7, 9]"

lemma length_small_image: "length small_image = 10"
  by (simp add: small_image_def)

lemma small_image_chunks:
  "concat [take 5 small_image, drop 5 small_image] = small_image"
  "\<forall>c\<in>set [take 5 small_image, drop 5 small_image]. length c \<le> MAX_CHUNK"
  "chunks_fill 0 [take 5 small_image, drop 5 small_image]"
  "WRITE_SIZE \<le> length small_image" "length small_image \<le> APP_SIZE" "vector_table_ok (of_nat (length small_image)) small_image"
  by (simp_all add: small_image_def) code_simp

theorem firmware_download_delivers_witness:
  "\<exists>u'. run_session array_flash sum_check (host_download sum_check small_image [take 5 small_image, drop 5 small_image]) blank_updater = Some u'
    \<and> mem_bytes array_flash (up_nvm u') APP_OFFSET 10 = small_image
    \<and> boot array_flash sum_check (up_nvm u') = Application (up_nvm u')"
  using firmware_download_delivers [OF array_driver_laws blank_updater_ok small_image_chunks] length_small_image by auto

theorem firmware_update_power_fail_safe_witness:
  "\<exists>u'. run_session array_flash sum_check (host_download sum_check small_image [take 5 small_image, drop 5 small_image]) blank_updater = Some u'
    \<and> fw_reach array_flash sum_check (\<lambda>_. 0xFF) (Updater u') \<and> bo_flash_status (up_od u') = VALID
    \<and> boot array_flash sum_check (up_nvm u') = Application (up_nvm u')"
proof -
  obtain u' where r: "run_session array_flash sum_check (host_download sum_check small_image [take 5 small_image, drop 5 small_image]) blank_updater = Some u'"
    and v: "bo_flash_status (up_od u') = VALID"
    by (rule download_run [where crc = sum_check and u = blank_updater, OF array_flash_laws array_driver_laws(2) small_image_chunks])
  note d = run_session_reach [OF blank_reach r]
  show ?thesis using firmware_update_power_fail_safe [OF array_driver_laws(1) blank_no_records d] r v d by auto
qed

theorem push_loses_short_chunk_witness:
  "\<exists>p'. programmer_push array_flash (programmer_new\<lparr>pg_pending_len := 3, pg_accepted := 3\<rparr>) [1, 2] (\<lambda>_. 0xFF) = (Inr (), p', \<lambda>_. 0xFF)
    \<and> pg_pending_len p' = 0 \<and> unat (pg_accepted p') = 5"
  using push_loses_short_chunk [of "programmer_new\<lparr>pg_pending_len := 3, pg_accepted := 3\<rparr>" "[1, 2]" array_flash "\<lambda>_. 0xFF"] by auto


end
