(* ===== verification/Fw_Host.thy ===== *)
theory Fw_Host
  imports Fw_Delivery
begin

text \<open>
  The host side of the firmware update (\<open>tools/canopen-fwupdate\<close>): identification of the running image, the
  request to enter the updater, and the command \<open>flash\<close>; and the device it talks to, composed of the boot
  decision, the updater and the example application. Connecting and the blocking SDO helpers are the operations
  \<open>host_ops\<close>, with their timeouts in milliseconds; a loop that polls until a deadline runs for the number of
  rounds that fit before it. Console output is not modelled.
\<close>

section \<open>SDO access\<close>

record 'd host_ops =
  ho_connect :: "'d \<Rightarrow> bool \<times> 'd"
  ho_upload :: "nat \<Rightarrow> u16 \<Rightarrow> u8 \<Rightarrow> 'd \<Rightarrow> (unit + bytes) \<times> 'd"
  ho_download :: "nat \<Rightarrow> u16 \<Rightarrow> u8 \<Rightarrow> bytes \<Rightarrow> 'd \<Rightarrow> (unit + unit) \<times> 'd"

abbreviation VENDOR_ID :: u32 where "VENDOR_ID \<equiv> 0x053A"
abbreviation PRODUCT_CODE_APP :: u32 where "PRODUCT_CODE_APP \<equiv> 0x454D4441"
abbreviation PRODUCT_CODE_BOOTLOADER :: u32 where "PRODUCT_CODE_BOOTLOADER \<equiv> 0x454D4442"
abbreviation PRODUCT_CODE_STATUSLIGHT_APP :: u32 where "PRODUCT_CODE_STATUSLIGHT_APP \<equiv> 0x53544C01"
abbreviation PRODUCT_CODE_STATUSLIGHT_BOOTLOADER :: u32 where "PRODUCT_CODE_STATUSLIGHT_BOOTLOADER \<equiv> 0x53544C42"
abbreviation PRODUCT_CODE_F767_APP :: u32 where "PRODUCT_CODE_F767_APP \<equiv> 0x44445541"
abbreviation PRODUCT_CODE_F767_BOOTLOADER :: u32 where "PRODUCT_CODE_F767_BOOTLOADER \<equiv> 0x44445542"
abbreviation ENTER_UPDATE_MAGIC :: u32 where "ENTER_UPDATE_MAGIC \<equiv> 0x54504455"
abbreviation HOST_CHUNK :: nat where "HOST_CHUNK \<equiv> 256"
abbreviation T_SHORT :: nat where "T_SHORT \<equiv> 500"
abbreviation T_FLASH :: nat where "T_FLASH \<equiv> 5000"

datatype fw_target = TargetFirmware | TargetWeb

fun target_raw :: "fw_target \<Rightarrow> u8" where
  "target_raw TargetFirmware = 1"
| "target_raw TargetWeb = 2"

datatype role = RoleApplication | RoleBootloader

datatype host_error =
    ConnectFailed | ReadFailed u16 u8 | ShortRead u16 u8 nat | WriteFailed u16 u8 | UnexpectedVendor u32
  | UnexpectedProduct u32 | NoProgramControl | NoUpdater | ImageTooSmall | TargetMismatch u8 | NoTargetSelector
  | ImageTooLarge nat u32 | WrongAddress u32 u32 | EraseFailed u32 | ChunkFailed nat | ChunksMissing u32 nat
  | ValidationFailed u32 | NoApplication | HostPanic

text \<open>The \<open>?\<close> operator: an error ends the command.\<close>

definition host_try :: "(host_error + 'a) \<times> 'd \<Rightarrow> ('a \<Rightarrow> 'd \<Rightarrow> (host_error + 'b) \<times> 'd) \<Rightarrow> (host_error + 'b) \<times> 'd" where
  "host_try r k = (case r of (Inl e, d) \<Rightarrow> (Inl e, d) | (Inr x, d) \<Rightarrow> k x d)"

definition read_u32_timeout :: "'d host_ops \<Rightarrow> nat \<Rightarrow> u16 \<Rightarrow> u8 \<Rightarrow> 'd \<Rightarrow> (host_error + u32) \<times> 'd" where
  "read_u32_timeout h timeout index sub d =
     (case ho_upload h timeout index sub d of
        (Inl _, d) \<Rightarrow> (Inl (ReadFailed index sub), d)
      | (Inr data, d) \<Rightarrow> (if length data < 4 then Inl (ShortRead index sub (length data)) else Inr (from_le_bytes (take 4 data)), d))"

definition read_u32 :: "'d host_ops \<Rightarrow> u16 \<Rightarrow> u8 \<Rightarrow> 'd \<Rightarrow> (host_error + u32) \<times> 'd" where
  "read_u32 h = read_u32_timeout h T_SHORT"

definition read_u8 :: "'d host_ops \<Rightarrow> u16 \<Rightarrow> u8 \<Rightarrow> 'd \<Rightarrow> (host_error + u8) \<times> 'd" where
  "read_u8 h index sub d =
     (case ho_upload h T_SHORT index sub d of
        (Inl _, d) \<Rightarrow> (Inl (ReadFailed index sub), d)
      | (Inr [], d) \<Rightarrow> (Inl (ShortRead index sub 0), d)
      | (Inr (b # _), d) \<Rightarrow> (Inr b, d))"

definition write_u32 :: "'d host_ops \<Rightarrow> nat \<Rightarrow> u16 \<Rightarrow> u8 \<Rightarrow> u32 \<Rightarrow> 'd \<Rightarrow> (host_error + unit) \<times> 'd" where
  "write_u32 h timeout index sub value d =
     (case ho_download h timeout index sub (to_le_bytes 4 value) d of
        (Inl _, d) \<Rightarrow> (Inl (WriteFailed index sub), d) | (Inr _, d) \<Rightarrow> (Inr (), d))"

definition write_u8 :: "'d host_ops \<Rightarrow> nat \<Rightarrow> u16 \<Rightarrow> u8 \<Rightarrow> u8 \<Rightarrow> 'd \<Rightarrow> (host_error + unit) \<times> 'd" where
  "write_u8 h timeout index sub value d =
     (case ho_download h timeout index sub [value] d of
        (Inl _, d) \<Rightarrow> (Inl (WriteFailed index sub), d) | (Inr _, d) \<Rightarrow> (Inr (), d))"

section \<open>Commands\<close>

definition identify :: "'d host_ops \<Rightarrow> 'd \<Rightarrow> (host_error + role) \<times> 'd" where
  "identify h d =
     host_try (read_u32 h 0x1018 1 d) (\<lambda>vendor d.
     if vendor \<noteq> VENDOR_ID then (Inl (UnexpectedVendor vendor), d)
     else host_try (read_u32 h 0x1018 2 d) (\<lambda>product d.
       (if product \<in> {PRODUCT_CODE_APP, PRODUCT_CODE_STATUSLIGHT_APP, PRODUCT_CODE_F767_APP} then Inr RoleApplication
        else if product \<in> {PRODUCT_CODE_BOOTLOADER, PRODUCT_CODE_STATUSLIGHT_BOOTLOADER, PRODUCT_CODE_F767_BOOTLOADER}
        then Inr RoleBootloader
        else Inl (UnexpectedProduct product), d)))"

fun connect_wait :: "'d host_ops \<Rightarrow> nat \<Rightarrow> 'd \<Rightarrow> (host_error + unit) \<times> 'd" where
  "connect_wait h rounds d =
     (case ho_connect h d of
        (True, d) \<Rightarrow> (Inr (), d)
      | (False, d) \<Rightarrow> (case rounds of 0 \<Rightarrow> (Inl ConnectFailed, d) | Suc rounds \<Rightarrow> connect_wait h rounds d))"

text \<open>The polling loop after a reset: connect and identify until the wanted image answers.\<close>

fun await_role :: "'d host_ops \<Rightarrow> role \<Rightarrow> host_error \<Rightarrow> nat \<Rightarrow> 'd \<Rightarrow> (host_error + unit) \<times> 'd" where
  "await_role h wanted e 0 d = (Inl e, d)"
| "await_role h wanted e (Suc rounds) d =
     (case ho_connect h d of
        (False, d) \<Rightarrow> await_role h wanted e rounds d
      | (True, d) \<Rightarrow> (case identify h d of
          (Inr r, d) \<Rightarrow> if r = wanted then (Inr (), d) else await_role h wanted e rounds d
        | (Inl _, d) \<Rightarrow> await_role h wanted e rounds d))"

definition host_enter_update :: "'d host_ops \<Rightarrow> nat \<Rightarrow> 'd \<Rightarrow> (host_error + unit) \<times> 'd" where
  "host_enter_update h rounds d =
     host_try (connect_wait h rounds d) (\<lambda>_ d.
     host_try (identify h d) (\<lambda>r d. case r of
       RoleBootloader \<Rightarrow> (Inr (), d)
     | RoleApplication \<Rightarrow>
         (let d = snd (write_u32 h T_SHORT 0x2F00 0 ENTER_UPDATE_MAGIC d)
          in await_role h RoleBootloader NoUpdater rounds d)))"

text \<open>What \<open>status\<close> reports of an updater: status, declared and received bytes, slot base and capacity.\<close>

definition host_status :: "'d host_ops \<Rightarrow> 'd \<Rightarrow> (host_error + role \<times> (u32 \<times> u32 \<times> u32 \<times> u32 \<times> u32) option) \<times> 'd" where
  "host_status h d =
     host_try (identify h d) (\<lambda>r d.
     if r = RoleBootloader then
       host_try (read_u32 h 0x1F57 1 d) (\<lambda>status d.
       host_try (read_u32 h 0x2000 1 d) (\<lambda>declared d.
       host_try (read_u32 h 0x2000 2 d) (\<lambda>written d.
       host_try (read_u32 h 0x2000 3 d) (\<lambda>base d.
       host_try (read_u32 h 0x2000 4 d) (\<lambda>capacity d.
         (Inr (r, Some (status, declared, written, base, capacity)), d))))))
     else (Inr (r, None), d))"

definition host_reset :: "'d host_ops \<Rightarrow> nat \<Rightarrow> 'd \<Rightarrow> (host_error + unit) \<times> 'd" where
  "host_reset h rounds d =
     host_try (connect_wait h rounds d) (\<lambda>_ d.
     host_try (identify h d) (\<lambda>r d.
     if r \<noteq> RoleBootloader then (Inl NoProgramControl, d)
     else (Inr (), snd (write_u8 h T_SHORT 0x1F51 1 RESET d))))"

function rust_chunks :: "nat \<Rightarrow> 'a list \<Rightarrow> 'a list list" where
  "rust_chunks n xs = (if n = 0 \<or> xs = [] then [] else take n xs # rust_chunks n (drop n xs))"
  by auto
termination by (relation "measure (\<lambda>(n, xs). length xs)") auto

declare rust_chunks.simps [simp del]

fun send_chunks :: "'d host_ops \<Rightarrow> nat \<Rightarrow> bytes list \<Rightarrow> 'd \<Rightarrow> (host_error + unit) \<times> 'd" where
  "send_chunks h n [] d = (Inr (), d)"
| "send_chunks h n (c # cs) d = (case ho_download h T_FLASH 0x1F50 1 c d of
     (Inl _, d) \<Rightarrow> (Inl (ChunkFailed n), d)
   | (Inr _, d) \<Rightarrow> send_chunks h (Suc n) cs d)"

text \<open>The selection of the image slot, which only one of the updaters implements.\<close>

definition select_target :: "'d host_ops \<Rightarrow> fw_target \<Rightarrow> 'd \<Rightarrow> (host_error + unit) \<times> 'd" where
  "select_target h target d =
     host_try (read_u32 h 0x1018 2 d) (\<lambda>product d.
     if product = PRODUCT_CODE_F767_BOOTLOADER then
       (case write_u8 h T_SHORT 0x2000 5 (target_raw target) d of (select_result, d) \<Rightarrow>
          host_try (read_u8 h 0x2000 5 d) (\<lambda>selected d.
            if selected \<noteq> target_raw target then
              (case select_result of Inl e \<Rightarrow> (Inl e, d) | Inr _ \<Rightarrow> (Inl (TargetMismatch selected), d))
            else (Inr (), d)))
     else if target = TargetWeb then (Inl NoTargetSelector, d)
     else (Inr (), d))"

text \<open>
  The command itself on the bytes of the image file: \<open>flash_transfer\<close> is the part from the declaration of the length
  to the check of the validated status. The hidden fault injection indexes the image, which panics on an empty one.
\<close>

definition flash_transfer :: "'d host_ops \<Rightarrow> fw_target \<Rightarrow> u32 \<Rightarrow> bytes \<Rightarrow> 'd \<Rightarrow> (host_error + unit) \<times> 'd" where
  "flash_transfer h target crc img d =
     host_try (write_u32 h T_SHORT 0x2000 1 (of_nat (length img)) d) (\<lambda>_ d.
     host_try (write_u32 h T_SHORT 0x1F56 1 crc d) (\<lambda>_ d.
     host_try (write_u8 h T_FLASH 0x1F51 1 CLEAR d) (\<lambda>_ d.
     host_try (read_u32_timeout h (case target of TargetFirmware \<Rightarrow> 30000 | TargetWeb \<Rightarrow> 120000) 0x1F57 1 d) (\<lambda>status d.
     if status \<noteq> PROGRAMMING then (Inl (EraseFailed status), d)
     else host_try (send_chunks h 0 (rust_chunks HOST_CHUNK img) d) (\<lambda>_ d.
     host_try (read_u32 h 0x2000 2 d) (\<lambda>written d.
     if written \<noteq> of_nat (length img) then (Inl (ChunksMissing written (length img)), d)
     else host_try (write_u8 h T_FLASH 0x1F51 1 VALIDATE d) (\<lambda>_ d.
     host_try (read_u32 h 0x1F57 1 d) (\<lambda>status d.
     if status \<noteq> VALID then (Inl (ValidationFailed status), d) else (Inr (), d)))))))))"

definition host_flash ::
  "'d host_ops \<Rightarrow> (bytes \<Rightarrow> u32) \<Rightarrow> nat \<Rightarrow> fw_target \<Rightarrow> bool \<Rightarrow> bool \<Rightarrow> bytes \<Rightarrow> 'd \<Rightarrow> (host_error + unit) \<times> 'd" where
  "host_flash h crc rounds target no_reset corrupt file d =
     (if target = TargetFirmware \<and> length file < 8 then (Inl ImageTooSmall, d)
      else if corrupt \<and> file = [] then (Inl HostPanic, d)
      else let csum = crc file; reset = from_le_bytes (take 4 (drop 4 file)) :: u32;
               img = (if corrupt then file[length file div 2 := file ! (length file div 2) XOR 0xFF] else file)
      in host_try (host_enter_update h rounds d) (\<lambda>_ d.
         host_try (select_target h target d) (\<lambda>_ d.
         host_try (read_u32 h 0x2000 4 d) (\<lambda>capacity d.
         host_try (read_u32 h 0x2000 3 d) (\<lambda>base d.
         if (of_nat (length img) :: u32) > capacity then (Inl (ImageTooLarge (length img) capacity), d)
         else if target = TargetFirmware \<and> (reset AND 1 = 0 \<or> reset < base \<or> reset \<ge> base + of_nat (length img))
         then (Inl (WrongAddress reset base), d)
         else host_try (flash_transfer h target csum img d) (\<lambda>_ d.
           if no_reset then (Inr (), d)
           else let d = snd (write_u8 h T_SHORT 0x1F51 1 RESET d)
                in await_role h RoleApplication NoApplication rounds d))))))"

section \<open>The device\<close>

text \<open>\<open>check_write\<close> of the example application.\<close>

definition app_check_write :: "u16 \<Rightarrow> u8 \<Rightarrow> bytes \<Rightarrow> od_error + unit" where
  "app_check_write index subindex data =
     (if (index, subindex) = (0x2F00, 0) then
        if length data \<noteq> 4 then Inl ValueRange
        else if (from_le_bytes data :: u32) \<noteq> ENTER_UPDATE_MAGIC then Inl ValueRange
        else Inr ()
      else Inr ())"

text \<open>The entries the host reads, with the values both images give them; other reads are not answered here.\<close>

fun device_upload :: "u16 \<Rightarrow> u8 \<Rightarrow> 'f device \<Rightarrow> (unit + bytes) \<times> 'f device" where
  "device_upload index sub (Updater u) =
     (if (index, sub) = (0x1018, 1) then Inr (to_le_bytes 4 VENDOR_ID)
      else if (index, sub) = (0x1018, 2) then Inr (to_le_bytes 4 PRODUCT_CODE_BOOTLOADER)
      else if (index, sub) = (0x1F57, 1) then Inr (to_le_bytes 4 (bo_flash_status (up_od u)))
      else if (index, sub) = (0x2000, 1) then Inr (to_le_bytes 4 (bo_image_length (up_od u)))
      else if (index, sub) = (0x2000, 2) then Inr (to_le_bytes 4 (bo_bytes_written (up_od u)))
      else if (index, sub) = (0x2000, 3) then Inr (to_le_bytes 4 APP_BASE)
      else if (index, sub) = (0x2000, 4) then Inr (to_le_bytes 4 (of_nat APP_SIZE :: u32))
      else Inl (), Updater u)"
| "device_upload index sub (Application f) =
     (if (index, sub) = (0x1018, 1) then Inr (to_le_bytes 4 VENDOR_ID)
      else if (index, sub) = (0x1018, 2) then Inr (to_le_bytes 4 PRODUCT_CODE_APP)
      else Inl (), Application f)"

definition prog_object_at :: "u16 \<Rightarrow> u8 \<Rightarrow> prog_object option" where
  "prog_object_at index sub = find (\<lambda>obj. prog_address obj = (index, sub)) [ProgramData, ProgramControl, ProgramSwId, ImageLengthEntry]"

text \<open>Writes reach the updater's programming objects, or the application's update request.\<close>

fun device_download :: "'f flash_ops \<Rightarrow> (bytes \<Rightarrow> u32) \<Rightarrow> u16 \<Rightarrow> u8 \<Rightarrow> bytes \<Rightarrow> 'f device \<Rightarrow> (unit + unit) \<times> 'f device" where
  "device_download ops crc index sub data (Updater u) = (case prog_object_at index sub of
     None \<Rightarrow> (Inl (), Updater u)
   | Some obj \<Rightarrow> (case host_write ops crc obj data u of
       (Inl _, _, u') \<Rightarrow> (Inl (), Updater u')
     | (Inr _, reset, u') \<Rightarrow> (Inr (), if reset then boot ops crc (up_nvm u') else Updater u')))"
| "device_download ops crc index sub data (Application f) =
     (if (index, sub) \<noteq> (0x2F00, 0) then (Inl (), Application f)
      else case app_check_write index sub data of
        Inl _ \<Rightarrow> (Inl (), Application f)
      | Inr _ \<Rightarrow> (case enter_update ops crc f of
          (True, f') \<Rightarrow> (Inr (), boot ops crc f')
        | (False, f') \<Rightarrow> (Inr (), Application f')))"

definition device_host :: "'f flash_ops \<Rightarrow> (bytes \<Rightarrow> u32) \<Rightarrow> 'f device host_ops" where
  "device_host ops crc = \<lparr>ho_connect = (\<lambda>d. (True, d)), ho_upload = (\<lambda>_. device_upload),
     ho_download = (\<lambda>_. device_download ops crc)\<rparr>"

section \<open>The tool against the device\<close>

lemma u32_bytes [simp]: "take 4 (to_le_bytes 4 w) = to_le_bytes 4 w" "length (to_le_bytes 4 w) = 4" for w :: u32
  by simp_all

lemma device_reads [simp]:
  "read_u32_timeout (device_host ops crc) t 0x1018 1 (Updater u) = (Inr VENDOR_ID, Updater u)"
  "read_u32_timeout (device_host ops crc) t 0x1018 2 (Updater u) = (Inr PRODUCT_CODE_BOOTLOADER, Updater u)"
  "read_u32_timeout (device_host ops crc) t 0x1F57 1 (Updater u) = (Inr (bo_flash_status (up_od u)), Updater u)"
  "read_u32_timeout (device_host ops crc) t 0x2000 2 (Updater u) = (Inr (bo_bytes_written (up_od u)), Updater u)"
  "read_u32_timeout (device_host ops crc) t 0x2000 3 (Updater u) = (Inr APP_BASE, Updater u)"
  "read_u32_timeout (device_host ops crc) t 0x2000 4 (Updater u) = (Inr (of_nat APP_SIZE), Updater u)"
  "read_u32_timeout (device_host ops crc) t 0x1018 1 (Application f) = (Inr VENDOR_ID, Application f)"
  "read_u32_timeout (device_host ops crc) t 0x1018 2 (Application f) = (Inr PRODUCT_CODE_APP, Application f)"
  by (simp_all add: read_u32_timeout_def device_host_def le_u32 del: length_to_le_bytes)

lemma device_identify [simp]:
  "identify (device_host ops crc) (Updater u) = (Inr RoleBootloader, Updater u)"
  "identify (device_host ops crc) (Application f) = (Inr RoleApplication, Application f)"
  by (simp_all add: identify_def read_u32_def host_try_def)

lemma device_connect [simp]: "ho_connect (device_host ops crc) d = (True, d)"
  by (simp add: device_host_def)

lemma device_writes:
  assumes "prog_object_at index sub = Some obj" and "host_write ops crc obj data u = (Inr (), False, u')"
  shows "ho_download (device_host ops crc) t index sub data (Updater u) = (Inr (), Updater u')"
  using assms by (simp add: device_host_def)

lemma prog_objects [simp]:
  "prog_object_at 0x1F50 1 = Some ProgramData" "prog_object_at 0x1F51 1 = Some ProgramControl"
  "prog_object_at 0x1F56 1 = Some ProgramSwId" "prog_object_at 0x2000 1 = Some ImageLengthEntry"
  by (simp_all add: prog_object_at_def)

lemma rust_chunks_parts:
  assumes "0 < n"
  shows "concat (rust_chunks n xs) = xs" and "c \<in> set (rust_chunks n xs) \<Longrightarrow> length c \<le> n"
proof -
  show "concat (rust_chunks n xs) = xs" using assms
    by (induction n xs rule: rust_chunks.induct) (subst rust_chunks.simps, simp)
  assume "c \<in> set (rust_chunks n xs)"
  then show "length c \<le> n"
  proof (induction n xs rule: rust_chunks.induct)
    case (1 n xs)
    then show ?case by (auto simp: rust_chunks.simps [of n xs] split: if_splits)
  qed
qed

lemma host_chunks_fill: "k mod WRITE_SIZE = 0 \<Longrightarrow> chunks_fill k (rust_chunks HOST_CHUNK xs)"
proof (induction "length xs" arbitrary: k xs rule: less_induct)
  case less
  show ?case
  proof (cases "length xs < HOST_CHUNK")
    case True
    then have "drop HOST_CHUNK xs = []" by simp
    then show ?thesis using less.prems by (simp add: rust_chunks.simps)
  next
    case False
    have "(k + HOST_CHUNK) mod WRITE_SIZE = 0" using less.prems by presburger
    then have "chunks_fill (k + HOST_CHUNK) (rust_chunks HOST_CHUNK (drop HOST_CHUNK xs))" using False by (intro less.hyps) auto
    then show ?thesis using False less.prems by (subst rust_chunks.simps) (auto simp: min_def)
  qed
qed

lemma send_chunks_session:
  "run_session ops crc (map (Pair ProgramData) cs) u = Some u' \<Longrightarrow> send_chunks (device_host ops crc) n cs (Updater u) = (Inr (), Updater u')"
proof (induction cs arbitrary: n u)
  case (Cons c cs)
  then obtain u1 where h: "host_write ops crc ProgramData c u = (Inr (), False, u1)" "run_session ops crc (map (Pair ProgramData) cs) u1 = Some u'"
    by (auto split: prod.splits sum.splits bool.splits)
  then show ?case using Cons.IH [OF h(2), of "Suc n"] device_writes [OF prog_objects(1) h(1)] by simp
qed simp


lemma host_enter_update_device:
  assumes "driver_laws ops crc" and "flash_works ops" and "device_ok ops crc f0 d" and "0 < rounds"
  obtains u where "host_enter_update (device_host ops crc) rounds d = (Inr (), Updater u)" and "updater_ok ops crc u"
proof (cases d)
  case (Updater u)
  then show ?thesis using that [of u] assms(3) by (simp add: host_enter_update_def host_try_def connect_wait.simps [of _ rounds] device_ok_def)
next
  case (Application f)
  then have t: "log_tracks ops crc f (in_force ops crc f)" using assms(3) by (simp add: device_ok_def)
  define s where "s = meta_next (in_force ops crc f) (\<lambda>r. r\<lparr>mr_update_requested := True\<rparr>)"
  obtain f' where a: "append_meta ops crc s f = (True, f')" by (rule append_meta_works [OF flash_lawsD [OF assms(1)] assms(2)])
  then have e: "enter_update ops crc f = (True, f')" by (simp add: enter_update_def Let_def s_def)
  have q: "mr_seq s = mr_seq (in_force ops crc f) + 1" "mr_update_requested s" by (simp_all add: s_def meta_next_def)
  have "meta_newer s b" if "newest crc (slots_of ops f) = Some b" for b
    using that t q(1) next_newer [of "mr_seq (in_force ops crc f)" "mr_seq b"] by (simp add: log_tracks_def meta_newer_def)
  moreover have "tail_clean crc (slots_of ops f)" using t by (simp add: log_tracks_def)
  ultimately have "newest crc (slots_of ops f') = Some s" using append_meta_log(2) [OF assms(1) _ _ a] by simp
  then have b: "boot ops crc f' = Updater (updater_init ops crc s f')" using q(2) by (simp add: boot_def load_meta_slots Let_def)
  have "device_ok ops crc f' (boot ops crc f')"
    by (rule boot_ok [OF assms(1) boot_kept_refl enter_update_ok(1) [OF assms(1) t e]])
  then have "updater_ok ops crc (updater_init ops crc s f')" using b by (simp add: device_ok_def)
  moreover have "host_enter_update (device_host ops crc) rounds d = (Inr (), Updater (updater_init ops crc s f'))"
    using Application e b assms(4)
    by (cases rounds) (simp_all add: host_enter_update_def host_try_def connect_wait.simps [of _ rounds] Let_def write_u32_def
      device_host_def app_check_write_def le_u32 device_identify [unfolded device_host_def])
  ultimately show ?thesis using that by blast
qed

text \<open>The transfer up to the last chunk, whatever CRC the host declares.\<close>

lemma transfer_chunks:
  assumes "driver_laws ops crc" and "flash_works ops" and "updater_ok ops crc u"
    and "0 < length img" and "length img \<le> APP_SIZE"
  obtains u' bs q where "updater_ok ops crc u'" and "downloading ops (length img) bs q u'" and "bs @ q = img"
    and "bo_expected_crc (up_od u') = csum"
    and "flash_transfer (device_host ops crc) target csum img (Updater u)
      = host_try (write_u8 (device_host ops crc) T_FLASH 0x1F51 1 VALIDATE (Updater u')) (\<lambda>_ d.
          host_try (read_u32 (device_host ops crc) 0x1F57 1 d) (\<lambda>status d.
            if status \<noteq> VALID then (Inl (ValidationFailed status), d) else (Inr (), d)))"
proof -
  note l = flash_lawsD [OF assms(1)]
  define u1 where "u1 = u\<lparr>up_od := (up_od u)\<lparr>bo_image_length := of_nat (length img)\<rparr>\<rparr>"
  define u2 where "u2 = u1\<lparr>up_od := (up_od u1)\<lparr>bo_expected_crc := csum\<rparr>\<rparr>"
  have h1: "host_write ops crc ImageLengthEntry (to_le_bytes 4 (of_nat (length img) :: u32)) u = (Inr (), False, u1)"
    unfolding u1_def by (rule image_length_request [OF assms(4,5)])
  have h2: "host_write ops crc ProgramSwId (to_le_bytes 4 csum) u1 = (Inr (), False, u2)"
    by (simp add: host_write_def boot_check_write_def decode_change_def handle_change_def le_u32 u2_def)
  obtain u3 where h3: "host_write ops crc ProgramControl [CLEAR] u2 = (Inr (), False, u3)" "downloading ops (length img) [] [] u3"
    "bo_expected_crc (up_od u3) = bo_expected_crc (up_od u2)"
    by (rule clear_request [OF l assms(2,4,5), of u2]) (simp_all add: u2_def u1_def)
  have small: "length c \<le> MAX_CHUNK" if "c \<in> set (rust_chunks HOST_CHUNK img)" for c
    using rust_chunks_parts(2) [OF _ that] by simp
  obtain u' bs q where h4: "run_session ops crc (map (Pair ProgramData) (rust_chunks HOST_CHUNK img) @ []) u3 = run_session ops crc [] u'"
    "downloading ops (length img) bs q u'" "bs @ q = [] @ [] @ concat (rust_chunks HOST_CHUNK img)"
    "bo_expected_crc (up_od u') = bo_expected_crc (up_od u3)"
    by (rule chunk_requests [where crc = crc and rs = "[]", OF l assms(2) h3(2), of "rust_chunks HOST_CHUNK img"])
      (use rust_chunks_parts(1) [of HOST_CHUNK img] small host_chunks_fill [of 0 img] in auto)
  have e: "bs @ q = img" using h4(3) rust_chunks_parts(1) [of HOST_CHUNK img] by simp
  have c: "send_chunks (device_host ops crc) 0 (rust_chunks HOST_CHUNK img) (Updater u3) = (Inr (), Updater u')"
    using h4(1) by (intro send_chunks_session) simp
  have "run_session ops crc ([(ImageLengthEntry, to_le_bytes 4 (of_nat (length img) :: u32)), (ProgramSwId, to_le_bytes 4 csum),
      (ProgramControl, [CLEAR])] @ map (Pair ProgramData) (rust_chunks HOST_CHUNK img)) u = Some u'"
    using h1 h2 h3(1) h4(1) by simp
  then have ok: "updater_ok ops crc u'" by (rule run_session_ok [OF assms(1,3)])
  have st: "bo_flash_status (up_od u3) = PROGRAMMING" using h3(2) by (simp add: downloading_def Let_def)
  have wr: "bo_bytes_written (up_od u') = of_nat (length img)" using h4(2) e by (auto simp: downloading_def Let_def simp flip: of_nat_add)
  have "flash_transfer (device_host ops crc) target csum img (Updater u)
      = host_try (write_u8 (device_host ops crc) T_FLASH 0x1F51 1 VALIDATE (Updater u')) (\<lambda>_ d.
          host_try (read_u32 (device_host ops crc) 0x1F57 1 d) (\<lambda>status d.
            if status \<noteq> VALID then (Inl (ValidationFailed status), d) else (Inr (), d)))"
    using st wr device_writes [OF prog_objects(4) h1] device_writes [OF prog_objects(3) h2] device_writes [OF prog_objects(2) h3(1)]
    by (simp add: flash_transfer_def host_try_def [of "(_, _)"] write_u32_def write_u8_def [of _ _ _ _ CLEAR] c read_u32_def)
  then show ?thesis using that [OF ok h4(2) e] h3(3) h4(4) by (simp add: u2_def)
qed


lemma corrupted_request:
  assumes "flash_laws ops" and "flash_works ops" and "downloading ops (length img) bs q u" and "bs @ q = img"
    and "0 < length img" and "bo_expected_crc (up_od u) \<noteq> crc img" and "\<not> mr_app_valid (up_meta u)"
  obtains u' where "host_write ops crc ProgramControl [VALIDATE] u = (Inr (), False, u')"
    and "bo_flash_status (up_od u') = ERROR" and "\<not> mr_app_valid (up_meta u')"
proof -
  note d = assms(3) [unfolded downloading_def Let_def]
  have N: "length img \<le> APP_SIZE" and st: "bo_flash_status (up_od u) = PROGRAMMING"
    and il: "bo_image_length (up_od u) = of_nat (length img)" using d by blast+
  have len: "length bs + length q = length img" using assms(4) by auto
  have acc: "pg_accepted (up_programmer u) = of_nat (length img)" using d len by (simp add: streamed_def flip: of_nat_add)
  have room: "APP_OFFSET + length bs + length q \<le> clear_end (of_nat (length img))" using clear_end_bounds(1) [OF N] len by simp
  from finish_works [OF assms(1,2) conjunct1 [OF d] room clear_end_bounds(4) [OF N]]
  obtain p f where f: "programmer_finish ops (up_programmer u) (up_nvm u) = (Inr (), p, f)" "pg_accepted p = pg_accepted (up_programmer u)"
    and m: "mem_bytes ops f APP_OFFSET (length img) = img" using assms(4) len by auto
  have u: "unat (of_nat (length img) :: u32) = length img" using N by (intro unat_u32) simp
  then have "(of_nat (length img) :: u32) \<noteq> 0" using assms(5) by (metis unat_0 less_irrefl)
  then have i: "app_image ops f (of_nat (length img)) = Some img" using u N m by (simp add: app_image_def)
  show ?thesis
    using that f acc i st il assms(6,7)
    by (simp add: host_write_def boot_check_write_def decode_change_def handle_change_def update_validate_def update_fail_def)
qed

lemma updater_invalid_boots:
  assumes "updater_ok ops crc u" and "\<not> mr_app_valid (up_meta u)"
  shows "\<exists>u'. boot ops crc (up_nvm u) = Updater u'"
  using assms by (auto simp: updater_ok_def boot_def load_meta_slots log_tracks_def same_app_def meta_blank_def Let_def split: option.splits)

lemma host_flash_until_transfer:
  assumes "driver_laws ops crc" and "flash_works ops" and "device_ok ops crc f0 d" and "0 < rounds"
    and "WRITE_SIZE \<le> length file" and "length file \<le> APP_SIZE" and "vector_table_ok (of_nat (length file)) file"
  obtains u where "updater_ok ops crc u"
    and "host_flash (device_host ops crc) crc rounds TargetFirmware no_reset corrupt file d
      = host_try (flash_transfer (device_host ops crc) TargetFirmware (crc file)
            (if corrupt then file[length file div 2 := file ! (length file div 2) XOR 0xFF] else file) (Updater u)) (\<lambda>_ d.
          if no_reset then (Inr (), d)
          else await_role (device_host ops crc) RoleApplication NoApplication rounds (snd (write_u8 (device_host ops crc) T_SHORT 0x1F51 1 RESET d)))"
proof -
  obtain u where e: "host_enter_update (device_host ops crc) rounds d = (Inr (), Updater u)" and ok: "updater_ok ops crc u"
    by (rule host_enter_update_device [OF assms(1-4)])
  have s: "select_target (device_host ops crc) TargetFirmware (Updater u) = (Inr (), Updater u)"
    by (simp add: select_target_def read_u32_def host_try_def)
  have "unat (of_nat (length file) :: u32) = length file" using assms(6) by (intro unat_u32) simp
  then have c: "\<not> (of_nat (length file) :: u32) > of_nat APP_SIZE" using assms(6) by (simp add: word_less_nat_alt)
  define reset where "reset = (from_le_bytes (take 4 (drop 4 file)) :: u32)"
  have v: "\<not> (reset AND 1 = 0 \<or> reset < APP_BASE \<or> reset \<ge> APP_BASE + of_nat (length file))"
    using assms(7) by (auto simp: vector_table_ok_def Let_def reset_def)
  have g: "file \<noteq> []" "\<not> length file < 8" using assms(5) by auto
  show ?thesis
    by (rule that [OF ok], unfold host_flash_def Let_def e host_try_def [of "(_, _)"] reset_def [symmetric])
      (use c v g in \<open>simp add: s host_try_def [of "(_, _)"] read_u32_def\<close>)
qed

text \<open>
  C14. The update tool and the device work together: whatever state the device is in (the updater in any state, or the
  running application), the command \<open>flash\<close> on an image that fits the slot and has a plausible vector table returns
  without an error and leaves the device running the application with exactly this image in its slot; with
  \<open>--no-reset\<close> the device stays in the updater, and the next boot starts that image. Asked of the flash: aligned
  writes to erased flash and page erases succeed.
\<close>

theorem host_flash_installs:
  assumes "driver_laws ops crc" and "flash_works ops" and "device_ok ops crc f0 d" and "0 < rounds"
    and "WRITE_SIZE \<le> length file" and "length file \<le> APP_SIZE" and "vector_table_ok (of_nat (length file)) file"
  shows "\<exists>d'. host_flash (device_host ops crc) crc rounds TargetFirmware no_reset False file d = (Inr (), d')
    \<and> mem_bytes ops (device_flash d') APP_OFFSET (length file) = file
    \<and> (if no_reset then \<exists>u'. d' = Updater u' else d' = Application (device_flash d'))
    \<and> boot ops crc (device_flash d') = Application (device_flash d')"
proof -
  note l = flash_lawsD [OF assms(1)]
  obtain u where ok: "updater_ok ops crc u"
    and hf: "host_flash (device_host ops crc) crc rounds TargetFirmware no_reset False file d
      = host_try (flash_transfer (device_host ops crc) TargetFirmware (crc file) file (Updater u)) (\<lambda>_ d.
          if no_reset then (Inr (), d)
          else await_role (device_host ops crc) RoleApplication NoApplication rounds (snd (write_u8 (device_host ops crc) T_SHORT 0x1F51 1 RESET d)))"
    by (rule host_flash_until_transfer [OF assms, of no_reset False]) simp
  have pos: "0 < length file" using assms(5) by linarith
  obtain u1 bs q where u1: "updater_ok ops crc u1" "downloading ops (length file) bs q u1" "bs @ q = file"
      "bo_expected_crc (up_od u1) = crc file"
    and ft: "flash_transfer (device_host ops crc) TargetFirmware (crc file) file (Updater u)
      = host_try (write_u8 (device_host ops crc) T_FLASH 0x1F51 1 VALIDATE (Updater u1)) (\<lambda>_ d.
          host_try (read_u32 (device_host ops crc) 0x1F57 1 d) (\<lambda>status d.
            if status \<noteq> VALID then (Inl (ValidationFailed status), d) else (Inr (), d)))"
    by (rule transfer_chunks [OF assms(1,2) ok pos assms(6), of "crc file" TargetFirmware])
  obtain u2 where h: "host_write ops crc ProgramControl [VALIDATE] u1 = (Inr (), False, u2)"
    and m: "mem_bytes ops (up_nvm u2) APP_OFFSET (length file) = file" and v: "bo_flash_status (up_od u2) = VALID"
    by (rule validate_request [where crc = crc, OF l assms(2) u1(2,3) assms(5,7) u1(4)])
  have "updater_ok ops crc u2" using host_write_ok [OF assms(1) u1(1) h] by blast
  from updater_ok_boots(2) [OF this v] have b: "boot ops crc (up_nvm u2) = Application (up_nvm u2)" .
  have t: "flash_transfer (device_host ops crc) TargetFirmware (crc file) file (Updater u) = (Inr (), Updater u2)"
    using v device_writes [OF prog_objects(2) h] by (simp add: ft write_u8_def host_try_def read_u32_def)
  have r: "snd (write_u8 (device_host ops crc) T_SHORT 0x1F51 1 RESET (Updater u2)) = Application (up_nvm u2)"
    by (simp add: write_u8_def device_host_def host_write_def boot_check_write_def decode_change_def handle_change_def b)
  have "await_role (device_host ops crc) RoleApplication NoApplication rounds (Application (up_nvm u2)) = (Inr (), Application (up_nvm u2))"
    using assms(4) by (cases rounds) simp_all
  then have "host_flash (device_host ops crc) crc rounds TargetFirmware no_reset False file d
      = (Inr (), if no_reset then Updater u2 else Application (up_nvm u2))"
    by (simp add: hf t host_try_def r)
  then show ?thesis using m b by auto
qed

text \<open>
  A corrupted transfer is caught: when the image that reaches the flash does not have the CRC the host declared (the
  tool's fault injection flips a byte after the CRC was taken), \<open>flash\<close> reports that validation failed with status
  error, and the device stays in the updater, also over a reset.
\<close>

theorem host_flash_corrupt_rejected:
  assumes "driver_laws ops crc" and "flash_works ops" and "device_ok ops crc f0 d" and "0 < rounds"
    and "WRITE_SIZE \<le> length file" and "length file \<le> APP_SIZE" and "vector_table_ok (of_nat (length file)) file"
    and "crc (file[length file div 2 := file ! (length file div 2) XOR 0xFF]) \<noteq> crc file"
  shows "\<exists>u. host_flash (device_host ops crc) crc rounds TargetFirmware no_reset True file d = (Inl (ValidationFailed ERROR), Updater u)
    \<and> (\<exists>u'. boot ops crc (up_nvm u) = Updater u')"
proof -
  note l = flash_lawsD [OF assms(1)]
  define img where "img = file[length file div 2 := file ! (length file div 2) XOR 0xFF]"
  have len: "length img = length file" by (simp add: img_def)
  obtain u where ok: "updater_ok ops crc u"
    and hf: "host_flash (device_host ops crc) crc rounds TargetFirmware no_reset True file d
      = host_try (flash_transfer (device_host ops crc) TargetFirmware (crc file) img (Updater u)) (\<lambda>_ d.
          if no_reset then (Inr (), d)
          else await_role (device_host ops crc) RoleApplication NoApplication rounds (snd (write_u8 (device_host ops crc) T_SHORT 0x1F51 1 RESET d)))"
    by (rule host_flash_until_transfer [OF assms(1-7), of no_reset True]) (simp add: img_def)
  have pos: "0 < length img" using assms(5) len by linarith
  have fits: "length img \<le> APP_SIZE" using assms(6) len by simp
  obtain u1 bs q where u1: "updater_ok ops crc u1" "downloading ops (length img) bs q u1" "bs @ q = img"
      "bo_expected_crc (up_od u1) = crc file"
    and ft: "flash_transfer (device_host ops crc) TargetFirmware (crc file) img (Updater u)
      = host_try (write_u8 (device_host ops crc) T_FLASH 0x1F51 1 VALIDATE (Updater u1)) (\<lambda>_ d.
          host_try (read_u32 (device_host ops crc) 0x1F57 1 d) (\<lambda>status d.
            if status \<noteq> VALID then (Inl (ValidationFailed status), d) else (Inr (), d)))"
    by (rule transfer_chunks [OF assms(1,2) ok pos fits, of "crc file" TargetFirmware])
  have x: "bo_expected_crc (up_od u1) \<noteq> crc img" using assms(8) u1(4) by (simp add: img_def)
  have nv: "\<not> mr_app_valid (up_meta u1)" using u1(1,2) by (simp add: updater_ok_def downloading_def Let_def)
  obtain u2 where h: "host_write ops crc ProgramControl [VALIDATE] u1 = (Inr (), False, u2)"
    and v: "bo_flash_status (up_od u2) = ERROR" and n: "\<not> mr_app_valid (up_meta u2)"
    by (rule corrupted_request [where crc = crc, OF l assms(2) u1(2,3) pos x nv])
  have "updater_ok ops crc u2" using host_write_ok [OF assms(1) u1(1) h] by blast
  from updater_invalid_boots [OF this n] have b: "\<exists>u'. boot ops crc (up_nvm u2) = Updater u'" .
  have "flash_transfer (device_host ops crc) TargetFirmware (crc file) img (Updater u) = (Inl (ValidationFailed ERROR), Updater u2)"
    using v device_writes [OF prog_objects(2) h] by (simp add: ft write_u8_def host_try_def read_u32_def)
  then show ?thesis using b by (simp add: hf host_try_def)
qed

lemma blank_device_ok: "device_ok array_flash sum_check (\<lambda>_. 0xFF) (Updater blank_updater)"
  by (rule reach_ok [OF array_driver_laws(1) blank_no_records blank_reach])

theorem host_flash_installs_witness:
  "\<exists>d'. host_flash (device_host array_flash sum_check) sum_check 3 TargetFirmware False False small_image (Updater blank_updater) = (Inr (), d')
    \<and> mem_bytes array_flash (device_flash d') APP_OFFSET 10 = small_image \<and> d' = Application (device_flash d')"
  using host_flash_installs [where rounds = 3 and no_reset = False, OF array_driver_laws blank_device_ok _ small_image_chunks(4-6)] length_small_image by auto

theorem host_flash_corrupt_rejected_witness:
  "\<exists>u. host_flash (device_host array_flash sum_check) sum_check 3 TargetFirmware False True small_image (Updater blank_updater)
     = (Inl (ValidationFailed ERROR), Updater u) \<and> (\<exists>u'. boot array_flash sum_check (up_nvm u) = Updater u')"
proof -
  have "sum_check (small_image[length small_image div 2 := small_image ! (length small_image div 2) XOR 0xFF]) \<noteq> sum_check small_image"
    by code_simp
  from host_flash_corrupt_rejected [where rounds = 3 and no_reset = False, OF array_driver_laws blank_device_ok _ small_image_chunks(4-6) this]
  show ?thesis by simp
qed


end
