(* ===== verification/Spec2Isabelle.thy ===== *)
theory Spec2Isabelle
  imports Can_Router Can_Pump Bus_Wakeup Pdo_Delivery Od_Mapping Canopen_Events Lss Node_Props Slcan_Serial Canwsd_Bridge Websocket_Node Dcf_Props
    Eds_Roundtrip Eds_Values Fw_Host
begin

text \<open>
  A verification development of yacob, a CANopen stack in Rust: the crate \<open>canopen-core\<close>
  (the device node, its protocols, the SDO client, its asynchronous driver and the shared bus), the
  dictionary and data-sheet code of \<open>canopen-derive\<close>, the WebSocket and UDP transports of
  \<open>canopen-linux\<close>, the CAN-over-WebSocket service (\<open>canwsd-proto\<close>,
  \<open>tools/canwsd\<close>) and the firmware update of a device over CANopen
  (\<open>examples/emdm-fwupdate\<close>, \<open>tools/canopen-fwupdate\<close>).

  \<^bold>\<open>The program.\<close> A node owns an object dictionary and runs NMT, SDO servers, PDO engines,
  SYNC, heartbeat, EMCY and LSS over a non-blocking CAN transport. The application calls
  \<open>Node::process\<close> periodically: it boots, drains the received frames into a dispatcher,
  serves pending SDO responses, produces SYNC, heartbeat and EMCY frames and event-driven TPDOs.
  SDO downloads to communication objects re-configure the running services. On the other side of
  the bus an SDO client reads and writes the dictionary; its driver runs a transfer as a future with
  deadlines, over a transport of its own, a port of a frame router or a subscription of a shared bus
  whose pump moves the frames. The dictionary is generated from the \<open>object_dictionary!\<close>
  macro or from an EDS file, can be exported as one, and is configured from DCF files. A CAN network
  is reached through an SLCAN adapter, UDP multicast or a WebSocket served by \<open>canwsd\<close>. The
  firmware updater receives an image through SDO block downloads, writes it to flash and records
  its progress in a log from which the boot loader decides what to start.

  \<^bold>\<open>Conventions.\<close> Structs are records, enums are datatypes, integers keep their width
  (\<open>usize\<close> is a natural number). A panic (an \<open>assert!\<close>, an \<open>unwrap\<close>, an index or
  slice out of range, an arithmetic overflow of a debug build) is \<open>None\<close> of the option
  monad, so a theorem that a function returns \<open>Some\<close> is panic freedom. Futures are modelled by
  their polls, and a future that never completes is \<open>None\<close> as well. Bounded \<open>heapless\<close>
  queues are lists pushed through \<open>push_back\<close> and \<open>push_evict\<close> with their capacity as an
  argument. Text is ASCII, one character per byte.

  \<^bold>\<open>Theories.\<close>
  \<^item> \<open>Prelude\<close>: machine integers, slices, little-endian conversion, loops, bounded queues;
    \<open>Rust_Str\<close>: the operations on \<open>str\<close> that the text formats use.
  \<^item> \<open>Can_Transport\<close> (\<open>transport.rs\<close>), \<open>Cob_Id\<close> (\<open>cobid.rs\<close>),
    \<open>Nmt\<close> (\<open>nmt.rs\<close>), \<open>Data_Types\<close> (\<open>datatypes.rs\<close>),
    \<open>Sync_Object\<close> (\<open>sync.rs\<close>), \<open>Emcy\<close> (\<open>emcy.rs\<close>),
    \<open>Heartbeat_Protocol\<close> (\<open>heartbeat.rs\<close>), \<open>Lss\<close> (\<open>lss.rs\<close>),
    \<open>Canopen_Events\<close> (\<open>events.rs\<close>): frames, identifiers and the small protocols, with
    round trips of the encodings and the protocols' invariants.
  \<^item> \<open>Object_Dictionary\<close> (\<open>od.rs\<close>): the dictionary trait and its laws.
  \<^item> \<open>Od_Generated\<close>, \<open>Od_Configs\<close>, \<open>Od_Unique\<close>, \<open>Od_Mapping\<close>
    (\<open>canopen-derive/src/codegen.rs\<close>, \<open>dsl.rs\<close>): the entries a definition generates, the
    generated read, write and lookup, the PDO and SDO configurations derived from them; unique
    addresses, read after write, and the frame budget of PDO mappings under every write.
  \<^item> \<open>Sdo_Protocol\<close> (\<open>sdo/protocol.rs\<close>), \<open>Sdo_Validate\<close> and \<open>Sdo_Server\<close>
    (\<open>sdo/server.rs\<close>), \<open>Sdo_Server_Inv\<close>, \<open>Sdo_Client\<close> (\<open>sdo/client.rs\<close>),
    \<open>Sdo_Transfer\<close>: both ends of SDO, the server's invariant and what a request may do to
    the dictionary, and complete transfers between client and server.
  \<^item> \<open>Pdo_Bits\<close> (\<open>pdo/mod.rs\<close>), \<open>Pdo_Engine\<close> (\<open>pdo/engine.rs\<close>),
    \<open>Pdo_Props\<close>, \<open>Pdo_Delivery\<close>: packing, scheduling, buffering and deadlines of PDOs,
    and the delivery of a process image from a producer to a consumer.
  \<^item> \<open>Node_State\<close> and \<open>Node_Process\<close> (\<open>node.rs\<close>): construction, live
    configuration, resets, errors and guards; SDO requests, SYNC pulses, dispatch and
    \<open>process\<close>. \<open>Node_Inv\<close> holds the node's invariant and the abstract life-cycle
    machine, \<open>Node_Cycle\<close> the locale \<open>node_on_transport\<close> in which a whole cycle is
    proved to return and to keep the invariant, \<open>Node_Running\<close> its interpretation and the
    runs of a node with driver and application, \<open>Node_Props\<close> the node's properties.
  \<^item> \<open>Sdo_Driver\<close>, \<open>Sdo_Deadline\<close>, \<open>Sdo_Session\<close> (\<open>sdo/driver.rs\<close>): the
    asynchronous driver; a timed transfer ends on every transport whose clock advances, and a
    transfer to a server behind a lawful link delivers the value.
  \<^item> \<open>Can_Bus\<close>, \<open>Can_Pump\<close>, \<open>Bus_Wakeup\<close> (\<open>bus.rs\<close>), \<open>Can_Router\<close>
    (\<open>can_router.rs\<close>): subscriptions, pump and ports; no frame is lost or reordered but by the
    stated overflow policy, no task is left asleep, and a router port carries SDO transfers.
  \<^item> \<open>Slcan\<close>, \<open>Slcan_Serial\<close> (\<open>slcan/logic.rs\<close>, \<open>slcan/serial.rs\<close>): the line
    codec and the transport over a serial port, which is insensitive to how the port cuts the stream.
  \<^item> \<open>Dcf\<close>, \<open>Dcf_Props\<close> (\<open>dcf.rs\<close>): reading a device configuration and applying it.
  \<^item> \<open>Eds_Parser\<close>, \<open>Eds_Defaults\<close> (\<open>eds_parser.rs\<close>), \<open>Eds_Export\<close>
    (\<open>eds_export.rs\<close>), \<open>Eds_Text\<close>, \<open>Eds_Sections\<close>, \<open>Eds_Roundtrip\<close>,
    \<open>Eds_Values\<close>: import and export of data sheets, and that an exported definition is
    imported with the same PDOs and default values.
  \<^item> \<open>Canwsd\<close> (\<open>canwsd-proto\<close>), \<open>Canwsd_Bridge\<close> (\<open>tools/canwsd\<close>),
    \<open>Linux_Transports\<close> (\<open>canopen-linux\<close>): the frame format and filters, the bridge that
    accounts for every frame it drops, and the client transport that sends no stale frame;
    \<open>Websocket_Node\<close>: a node on that transport.
  \<^item> \<open>Fw_Meta\<close>, \<open>Fw_Update\<close>, \<open>Fw_Safety\<close>, \<open>Fw_Delivery\<close>
    (\<open>examples/emdm-fwupdate\<close>), \<open>Fw_Host\<close> (\<open>tools/canopen-fwupdate\<close>): metadata log,
    updater and boot decision; power failures at every flash operation, the image that a download
    leaves in flash, and the complete run of the host tool.
  \<^item> This theory: a concrete device, the properties that span SDO client, server and
    dictionary, and those that span the PDO engines and the dictionary.

  \<^bold>\<open>Interfaces.\<close> Where the source has a trait the model has a record of operations, and a
  locale states its laws. \<open>object_dictionary\<close> and \<open>node_dictionary\<close> are interpreted on
  the generated dictionary; \<open>can_transport\<close> on the mailbox and on the WebSocket transport, and
  with a clock (\<open>timed_transport\<close>, \<open>clocked_can\<close>) on a mailbox whose clock advances;
  \<open>node_on_transport\<close> on the generated dictionary with either transport; \<open>sdo_link\<close> is a
  sublocale of the dictionary for the shared bus and for both router ports; \<open>frame_source\<close> is
  interpreted on the bus and the mailbox; \<open>wait_queue\<close> on the receive and transmit queues of
  the bus; \<open>serial_port\<close> and \<open>prompt_port\<close> on a port in memory, as the source's tests use it.

  \<^bold>\<open>Bounds.\<close> Loops over slots, mappings and queues are structural. The block upload
  service loop has the source's bound of 127. The receive loop of \<open>process\<close> ends only when
  the transport reports an error, so it is a partial function; \<open>Node_Cycle\<close> shows that it
  ends on every lawful transport, after as many frames as the backlog holds. The client's transfers
  in \<open>Sdo_Transfer\<close> run with fuel, and the theorems name a bound that suffices. The waiting
  loops of the driver, the pump and the ports are partial functions that are proved to return.

  \<^bold>\<open>Assumptions.\<close> The node's panic freedom is stated for dictionaries whose SYNC objects
  0x1005 and 0x1019 are absent or constant: the source asserts that their values are valid whenever
  it re-reads them, SDO downloads to them are validated, but a device may also map them into an RPDO
  or write them locally. Frames are those that \<open>CanFrame::new\<close> builds. The \<open>embassy\<close>
  feature is off. Decimal floating point conversion, the flash driver, CRC-32, sockets, message
  packing and JSON are parameters; what the code relies on are the named hypotheses
  \<open>flash_laws\<close>, \<open>driver_laws\<close>, \<open>flash_works\<close>, \<open>bridge_laws\<close> and
  \<open>kernel_laws\<close>. Requests reach the updater one at a time.

  \<^bold>\<open>Not modelled.\<close> The grammar of the macro (\<open>dsl.rs\<close> parsing), the typed change enums
  and the client code generators, which work on token streams at compile time; the SocketCAN, serial
  and browser glue and \<open>sdo_helpers.rs\<close>, the HTTP server of \<open>canwsd\<close> and its dump tool,
  which are I/O; board support, the other examples and their user interfaces; the embassy wake-up
  signal and \<open>SharedNode\<close>.
\<close>

unbundle bit_operations_syntax

section \<open>A small device\<close>

text \<open>
  A dictionary as \<open>object_dictionary!\<close> generates it, a client and a server on it: the
  concrete instances at which the properties below are applied.
\<close>

definition demo_live :: gen_od where
  "demo_live = gen_writes [(0x2000, 0, [1, 2, 3, 4, 5, 6, 7, 8, 9])] (demo_od Immutable)"

abbreviation demo_inv :: "gen_od \<Rightarrow> bool" where
  "demo_inv \<equiv> gen_inv (demo_def Immutable)"

definition demo_ops :: "gen_od od_ops" where
  "demo_ops = gen_ops (demo_def Immutable) validate_write_default"

definition demo_client :: sdo_client where
  "demo_client = sdo_client_new 64 (NodeId 5)"

definition demo_io :: "gen_od sdo_io" where
  "demo_io = \<lparr>io_server = sdo_server_new, io_od = demo_live, io_response = replicate 8 0, io_events = []\<rparr>"

definition demo_ctx :: "nmt_state \<Rightarrow> sdo_context" where
  "demo_ctx st = standalone_context st 0"

lemma demo_dictionary: "object_dictionary demo_ops gen_val demo_inv"
  unfolding demo_ops_def by (rule gen.object_dictionary_axioms)

lemma demo_live_inv: "demo_inv demo_live"
  unfolding demo_live_def
  using gen_writes_inv [OF generate_inv [OF demo_def_ok demo_generated]] by blast

lemma demo_values:
  "gen_val demo_live 0x2000 0 = Some [1, 2, 3, 4, 5, 6, 7, 8, 9]"
  "gen_val demo_live 0x2001 0 = Some [0x34, 0x12]"
  by code_simp+

lemma demo_client_wf: "wf_client 64 demo_client"
  unfolding demo_client_def by (rule sdo_client_new_wf) (simp add: wf_node_def)

lemma demo_io_fields [simp]:
  "io_od demo_io = demo_live" "io_events demo_io = []" "\<not> is_receiving_block (io_server demo_io)"
  "length (io_response demo_io) = 8" "wf_server (io_server demo_io)"
  by (simp_all add: demo_io_def is_receiving_block_def sdo_server_new_def wf_server_def)

lemma demo_write:
  fixes v :: bytes
  defines "v \<equiv> [9, 8, 7, 6, 5, 4, 3, 2]"
  obtains od' where "od_write demo_ops demo_live 0x2000 0 v = (Inr (), od')" "gen_val od' 0x2000 0 = Some v"
proof -
  have "fst (od_write demo_ops demo_live 0x2000 0 v) = Inr ()" unfolding v_def by code_simp
  moreover have "gen_val (snd (od_write demo_ops demo_live 0x2000 0 v)) 0x2000 0 = Some v" unfolding v_def by code_simp
  ultimately show thesis using that by (metis prod.collapse)
qed

lemma demo_admitted:
  "validate_download demo_ops demo_live (demo_ctx PreOperational) 0x2000 0 [9, 8, 7, 6, 5, 4, 3, 2] = Inr ()"
  "\<not> (ctx_nmt_state (demo_ctx PreOperational) = Operational \<and> is_pdo_config_index 0x2000)"
  by code_simp+

section \<open>SDO transfers end to end\<close>

text \<open>
  C1. An SDO upload delivers exactly the object's content: a client that reads a readable object
  that fits its buffer ends, after at most \<open>length / 7 + 2\<close> requests, with
  \<open>UploadComplete\<close> and the object's bytes, and the server's dictionary and events are
  unchanged.
\<close>

theorem sdo_upload_delivers:
  assumes "object_dictionary ops val od_inv" and "od_inv (io_od io)" and "val (io_od io) i s = Some v"
    and "wf_client BUF c" and "start_upload c i s = Some (f, c1)"
    and "length v \<le> BUF" "length v \<le> BUF_LEN" and "\<not> is_receiving_block (io_server io)"
    and "length v div 7 + 2 \<le> length ctxs"
  shows "\<exists>c' io'. exchange BUF N ops ctxs f c1 io = Some (UploadComplete (length v), c', io')
      \<and> wf_client BUF c' \<and> client_data c' = Some v
      \<and> io_od io' = io_od io \<and> io_events io' = io_events io \<and> transfer (io_server io') = None"
  using object_dictionary.exchange_upload [OF assms(1) assms(4,5,2,3,6-9)] .

theorem sdo_upload_delivers_witness:
  "\<exists>f c1 c' io'. start_upload demo_client 0x2000 0 = Some (f, c1)
     \<and> exchange 64 16 demo_ops (replicate 3 (demo_ctx PreOperational)) f c1 demo_io = Some (UploadComplete 9, c', io')
     \<and> client_data c' = Some [1, 2, 3, 4, 5, 6, 7, 8, 9]"
proof -
  obtain f c1 where s: "start_upload demo_client 0x2000 0 = Some (f, c1)"
    using start_upload_eq [OF demo_client_wf] by blast
  from sdo_upload_delivers [OF demo_dictionary _ _ demo_client_wf s, of demo_io "[1, 2, 3, 4, 5, 6, 7, 8, 9]"
      "replicate 3 (demo_ctx PreOperational)" 16]
  show ?thesis using s by (auto simp: demo_live_inv demo_values)
qed

text \<open>
  C2. An accepted SDO download commits exactly the client's value: if the download is valid in
  the contexts at which the requests arrive and the dictionary accepts the value, the client ends
  with \<open>DownloadComplete\<close>, the dictionary is the one after writing exactly this value, and
  one event is queued.
\<close>

theorem sdo_download_commits:
  assumes "wf_client BUF c" and "start_download BUF c i s v = Some (Inr f, c1)"
    and "length v \<le> BUF_LEN" and "\<not> is_receiving_block (io_server io)"
    and "length v div 7 + 2 \<le> length ctxs"
    and "\<forall>ctx \<in> set ctxs. \<not> (ctx_nmt_state ctx = Operational \<and> is_pdo_config_index i)"
    and "\<forall>ctx \<in> set ctxs. validate_download ops (io_od io) ctx i s v = Inr ()"
    and "od_write ops (io_od io) i s v = (Inr (), od')"
  shows "\<exists>c' io'. exchange BUF N ops ctxs f c1 io = Some (DownloadComplete, c', io')
      \<and> wf_client BUF c' \<and> io_od io' = od' \<and> committed_write (io_server io') = Some (i, s)
      \<and> io_events io' = push_event N (io_events io) (sdo_event i s) \<and> transfer (io_server io') = None"
  using exchange_download [OF assms(1-4,6,5)] commits_accepted [OF _ assms(7,8)] by metis

theorem sdo_download_commits_witness:
  "\<exists>f c1 c' io'. start_download 64 demo_client 0x2000 0 [9, 8, 7, 6, 5, 4, 3, 2] = Some (Inr f, c1)
     \<and> exchange 64 16 demo_ops (replicate 3 (demo_ctx PreOperational)) f c1 demo_io = Some (DownloadComplete, c', io')
     \<and> gen_val (io_od io') 0x2000 0 = Some [9, 8, 7, 6, 5, 4, 3, 2]"
proof -
  let ?v = "[9, 8, 7, 6, 5, 4, 3, 2] :: bytes"
  obtain f c1 where s: "start_download 64 demo_client 0x2000 0 ?v = Some (Inr f, c1)"
    using start_download_segmented [OF demo_client_wf, of ?v] by auto
  obtain od' where w: "od_write demo_ops demo_live 0x2000 0 ?v = (Inr (), od')" "gen_val od' 0x2000 0 = Some ?v"
    by (rule demo_write)
  from sdo_download_commits [OF demo_client_wf s, of demo_io "replicate 3 (demo_ctx PreOperational)" demo_ops od' 16]
  show ?thesis using s w demo_admitted by auto
qed

text \<open>
  C28. A download that the validation refuses reaches the client as an abort with exactly the
  code of the validation, and leaves the dictionary and the event queue unchanged.
\<close>

theorem sdo_download_refused:
  assumes "wf_client BUF c" and "start_download BUF c i s v = Some (Inr f, c1)"
    and "length v \<le> BUF_LEN" and "\<not> is_receiving_block (io_server io)"
    and "length v div 7 + 2 \<le> length ctxs"
    and "\<forall>ctx \<in> set ctxs. \<not> (ctx_nmt_state ctx = Operational \<and> is_pdo_config_index i)"
    and "\<forall>ctx \<in> set ctxs. validate_download ops (io_od io) ctx i s v = Inl code"
  shows "\<exists>c' io'. exchange BUF N ops ctxs f c1 io = Some (ClientAborted code, c', io')
      \<and> wf_client BUF c' \<and> io_od io' = io_od io \<and> io_events io' = io_events io
      \<and> transfer (io_server io') = None"
  using exchange_download [OF assms(1-4,6,5)] commits_refused [OF _ assms(7)] by metis

theorem sdo_download_refused_witness:
  "\<exists>f c1 c' io'. start_download 64 demo_client 0x1800 1 [0x00, 0x08, 0, 0] = Some (Inr f, c1)
     \<and> exchange 64 16 demo_ops (replicate 2 (demo_ctx PreOperational)) f c1 demo_io
        = Some (ClientAborted (abort_of_code ValueRangeExceeded), c', io') \<and> io_od io' = demo_live"
proof -
  let ?v = "[0x00, 0x08, 0, 0] :: bytes"
  obtain f c1 where s: "start_download 64 demo_client 0x1800 1 ?v = Some (Inr f, c1)"
    using start_download_expedited [OF demo_client_wf, of ?v] by auto
  have v: "validate_download demo_ops demo_live (demo_ctx PreOperational) 0x1800 1 ?v
      = Inl (abort_of_code ValueRangeExceeded)" by code_simp
  have o: "\<not> (ctx_nmt_state (demo_ctx PreOperational) = Operational \<and> is_pdo_config_index 0x1800)" by code_simp
  from sdo_download_refused [OF demo_client_wf s, of demo_io "replicate 2 (demo_ctx PreOperational)" demo_ops
      "abort_of_code ValueRangeExceeded" 16]
  show ?thesis using s v o by auto
qed

section \<open>The asynchronous driver\<close>

definition demo_world :: "gen_od sdo_bus" where
  "demo_world = \<lparr>bw_io = demo_io, bw_ctxs = replicate 8 (demo_ctx PreOperational),
     bw_traffic = [[None, Some \<lparr>cf_id = 0x701, cf_dlc = 1, cf_data = [5, 0, 0, 0, 0, 0, 0, 0]\<rparr>]], bw_inbox = []\<rparr>"

lemma demo_world_ready: "bus_ready demo_inv 16 (NodeId 5) demo_world"
  by (simp add: demo_world_def bus_ready_def wf_node_def foreign_def wf_io_def demo_live_inv cob_sdo_tx_def raw_id_def)

lemma demo_world_fields [simp]:
  "bw_io demo_world = demo_io" "length (bw_ctxs demo_world) = 8" "set (bw_ctxs demo_world) = {demo_ctx PreOperational}"
  by (simp_all add: demo_world_def)

text \<open>
  C5. The asynchronous driver reads an object exactly: on a bus that carries any traffic of other
  nodes and leaves the driver waiting any number of polls, \<open>upload\<close> of an object that fits
  the caller's buffer returns its length with its bytes at the front of the buffer, the typed reads
  return the object's bytes when its size is the type's width, and the server's dictionary is
  unchanged.
\<close>

theorem driver_upload_delivers:
  assumes "object_dictionary ops val od_inv" and "bus_ready od_inv N node w"
    and "val (io_od (bw_io w)) i s = Some v" and "length v \<le> length buf" "length v \<le> MAX_TRANSFER"
    and "\<not> is_receiving_block (io_server (bw_io w))" and "length v div 7 + 2 \<le> length (bw_ctxs w)"
  shows "(\<exists>w'. drv_upload (bus_can N ops node) (sdo_driver_new node) i s buf w
        = Some (Inr (length v), overwrite buf 0 v, w') \<and> bus_ready od_inv N node w' \<and> io_od (bw_io w') = io_od (bw_io w))
    \<and> (length v \<le> 8 \<longrightarrow> (\<exists>w'. read_fixed (length v) (bus_can N ops node) (sdo_driver_new node) i s w = Some (Inr v, w')
        \<and> io_od (bw_io w') = io_od (bw_io w)))"
  using object_dictionary.bus_transfers(1) [OF assms] object_dictionary.bus_transfers(2) [OF assms(1-3) _ assms(6,7)]
  by (auto simp: drv_upload_def fst_result_def)

theorem driver_upload_delivers_witness:
  "\<exists>w'. drv_upload (bus_can 16 demo_ops (NodeId 5)) (sdo_driver_new (NodeId 5)) 0x2000 0 (replicate 12 0) demo_world
     = Some (Inr 9, [1, 2, 3, 4, 5, 6, 7, 8, 9, 0, 0, 0], w')"
proof -
  let ?v = "[1, 2, 3, 4, 5, 6, 7, 8, 9] :: bytes" and ?b = "replicate 12 0 :: bytes"
  have "overwrite ?b 0 ?v = [1, 2, 3, 4, 5, 6, 7, 8, 9, 0, 0, 0]" by code_simp
  moreover have "gen_val (io_od (bw_io demo_world)) 0x2000 0 = Some ?v" "length ?v \<le> length ?b" "length ?v \<le> MAX_TRANSFER"
    "\<not> is_receiving_block (io_server (bw_io demo_world))" "length ?v div 7 + 2 \<le> length (bw_ctxs demo_world)"
    by (simp_all add: demo_values MAX_TRANSFER_def)
  note driver_upload_delivers [OF demo_dictionary demo_world_ready this]
  ultimately show ?thesis by auto
qed

text \<open>
  C6. The asynchronous driver writes an object exactly: a \<open>download\<close> that the server's
  validation admits returns, and if the dictionary accepts the value the driver reports success
  and the dictionary is the one after this write; if it refuses, the driver reports exactly the
  abort code of the refusal.
\<close>

theorem driver_download_commits:
  assumes "object_dictionary ops val od_inv" and "bus_ready od_inv N node w"
    and "length v \<le> MAX_TRANSFER" and "\<not> is_receiving_block (io_server (bw_io w))"
    and "\<forall>ctx \<in> set (bw_ctxs w). \<not> (ctx_nmt_state ctx = Operational \<and> is_pdo_config_index i)"
    and "length v div 7 + 2 \<le> length (bw_ctxs w)"
    and "\<forall>ctx \<in> set (bw_ctxs w). validate_download ops (io_od (bw_io w)) ctx i s v = Inr ()"
    and "od_write ops (io_od (bw_io w)) i s v = (r, od')"
  shows "\<exists>w'. drv_download (bus_can N ops node) (sdo_driver_new node) i s v w
      = Some (case r of Inr _ \<Rightarrow> Inr () | Inl e \<Rightarrow> Inl (Aborted (od_write_abort ops od' i s (length v) e)), w')
    \<and> bus_ready od_inv N node w' \<and> io_od (bw_io w') = od'"
proof -
  obtain w' where w': "drv_download (bus_can N ops node) (sdo_driver_new node) i s v w
      = Some (case download_result (bw_io w') of DownloadComplete \<Rightarrow> Inr () | ClientAborted code \<Rightarrow> Inl (Aborted code)
                | _ \<Rightarrow> Inl sdo_error.ProtocolError, w')"
    "bus_ready od_inv N node w'" and c: "commits N ops (bw_ctxs w) i s v (bw_io w) (bw_io w')"
    using object_dictionary.bus_transfers(3) [OF assms(1-6), of s] by blast
  then show ?thesis using commits_accepted [OF c assms(7)] commits_write_refused [OF c assms(7)] assms(8)
    by (cases r) auto
qed

theorem driver_download_commits_witness:
  "\<exists>w'. drv_download (bus_can 16 demo_ops (NodeId 5)) (sdo_driver_new (NodeId 5)) 0x2000 0 [9, 8, 7, 6, 5, 4, 3, 2] demo_world
     = Some (Inr (), w') \<and> gen_val (io_od (bw_io w')) 0x2000 0 = Some [9, 8, 7, 6, 5, 4, 3, 2]"
proof (rule demo_write)
  fix od'
  assume "od_write demo_ops demo_live 0x2000 0 [9, 8, 7, 6, 5, 4, 3, 2] = (Inr (), od')"
    and "gen_val od' 0x2000 0 = Some [9, 8, 7, 6, 5, 4, 3, 2]"
  with driver_download_commits [OF demo_dictionary demo_world_ready, of "[9, 8, 7, 6, 5, 4, 3, 2]" "0x2000" 0 "Inr ()" od']
  show ?thesis using demo_admitted by (auto simp: MAX_TRANSFER_def)
qed

text \<open>
  C8. Configuring a remote node gives the dictionary that configuring a local one gives: when the
  server's validation admits every entry, \<open>apply_remote\<close> returns over any bus traffic, the
  remote dictionary is the one \<open>apply_strict\<close> computes, on success the counts agree, and
  where \<open>apply_strict\<close> stops with an error, \<open>apply_remote\<close> stops at the same entry with
  the abort code of that error.
\<close>

theorem dcf_apply_remote_strict:
  assumes "object_dictionary ops val od_inv" and "bus_ready od_inv N node w"
    and "\<forall>e\<in>set (dcf_entries d). length (dce_data e) \<le> MAX_TRANSFER
      \<and> (\<forall>ctx\<in>set (bw_ctxs w). \<not> (ctx_nmt_state ctx = Operational \<and> is_pdo_config_index (dce_index e)))"
    and "transfer (io_server (bw_io w)) = None"
    and "(\<Sum>e\<leftarrow>dcf_entries d. length (dce_data e) div 7 + 2) \<le> length (bw_ctxs w)"
    and "admitted ops (set (bw_ctxs w)) (dcf_entries d) (io_od (bw_io w))"
  shows "\<exists>out w'. apply_remote (bus_can N ops node) (sdo_driver_new node) d w = Some (out, w')
    \<and> remote_outcome ops (apply_strict ops d (io_od (bw_io w))) out
    \<and> io_od (bw_io w') = snd (apply_strict ops d (io_od (bw_io w))) \<and> bus_ready od_inv N node w'"
  using object_dictionary.bus_transfers(4) [OF assms(1,3,2,4) order_refl assms(5,6), of 0]
  unfolding apply_remote_def apply_strict_def by blast

theorem dcf_apply_remote_strict_witness:
  "\<exists>w'. apply_remote (bus_can 16 demo_ops (NodeId 5)) (sdo_driver_new (NodeId 5))
      \<lparr>dcf_node_id = None, dcf_baud_rate = None, dcf_entries =
        [\<lparr>dce_index = 0x2000, dce_subindex = 0, dce_data = [9, 8, 7, 6, 5, 4, 3, 2], dce_name = ''value''\<rparr>]\<rparr> demo_world
     = Some (Inr 1, w') \<and> gen_val (io_od (bw_io w')) 0x2000 0 = Some [9, 8, 7, 6, 5, 4, 3, 2]"
proof (rule demo_write)
  fix od'
  assume w: "od_write demo_ops demo_live 0x2000 0 [9, 8, 7, 6, 5, 4, 3, 2] = (Inr (), od')"
    and v: "gen_val od' 0x2000 0 = Some [9, 8, 7, 6, 5, 4, 3, 2]"
  let ?d = "\<lparr>dcf_node_id = None, dcf_baud_rate = None, dcf_entries =
        [\<lparr>dce_index = 0x2000, dce_subindex = 0, dce_data = [9, 8, 7, 6, 5, 4, 3, 2], dce_name = ''value''\<rparr>]\<rparr>"
  have a: "apply_strict demo_ops ?d demo_live = (Inr 1, od')" using w by (simp add: apply_strict_def)
  have t: "transfer (io_server demo_io) = None" by (simp add: demo_io_def sdo_server_new_def)
  from dcf_apply_remote_strict [OF demo_dictionary demo_world_ready, of ?d]
  show ?thesis using demo_admitted a v t by (auto simp: MAX_TRANSFER_def remote_outcome_def)
qed

text \<open>
  C9. A transfer through an \<open>SdoPort\<close> reads the object as exactly as over the bare transport, and
  keeps the rest of the traffic for other readers: of the frames of other nodes that arrived
  meanwhile the first 16 are in the overflow buffer, in their order, and the counter of dropped
  frames holds the number of the others.
\<close>

theorem sdo_port_transparent:
  assumes "object_dictionary ops val od_inv" and "bus_ready od_inv N node w"
    and "val (io_od (bw_io w)) i s = Some v" and "length v \<le> length buf" "length v \<le> MAX_TRANSFER"
    and "\<not> is_receiving_block (io_server (bw_io w))" and "length v div 7 + 2 \<le> length (bw_ctxs w)"
  shows "\<exists>w' p' k. drv_upload (sdo_port_can (bus_can N ops node)) (sdo_driver_new node) i s buf (w, sdo_port_new node)
      = Some (Inr (length v), overwrite buf 0 v, w', p')
    \<and> io_od (bw_io w') = io_od (bw_io w) \<and> bw_traffic w' = drop k (bw_traffic w)
    \<and> (let seen = arrived (concat (take k (bw_traffic w)))
       in sdp_overflow p' = take 16 seen \<and> unat (sdp_overflow_dropped p') = min (2 ^ 32 - 1) (length seen - 16))"
proof -
  let ?p = "sdo_port_new node"
  obtain sz w' p' where u: "upload_impl (sdo_port_can (bus_can N ops node)) (sdo_driver_new node) i s buf None (w, ?p)
      = Some (Inr (length v, sz), overwrite buf 0 v, w', p')"
    and r: "port_ready od_inv N node sdp_divert ?p (bw_traffic w) (w', p')" and o: "io_od (bw_io w') = io_od (bw_io w)"
    using object_dictionary.port_transfers(1) [OF assms(1) port_ready_start [OF assms(2)], of i s v buf] assms(3-7) by auto
  obtain k where "bw_traffic w' = drop k (bw_traffic w)" "p' = foldl sdp_divert ?p (arrived (concat (take k (bw_traffic w))))"
    using r by (auto simp: port_ready_def)
  then show ?thesis using u o sdp_divert_all [of ?p "arrived (concat (take k (bw_traffic w)))"]
    by (intro exI [of _ w'] exI [of _ p'] exI [of _ k]) (simp add: drv_upload_def fst_result_def sdo_port_new_def Let_def)
qed

theorem sdo_port_transparent_witness:
  "\<exists>w' p'. drv_upload (sdo_port_can (bus_can 16 demo_ops (NodeId 5))) (sdo_driver_new (NodeId 5)) 0x2000 0 (replicate 9 0)
      (demo_world, sdo_port_new (NodeId 5)) = Some (Inr 9, [1, 2, 3, 4, 5, 6, 7, 8, 9], w', p')"
proof -
  let ?v = "[1, 2, 3, 4, 5, 6, 7, 8, 9] :: bytes" and ?b = "replicate 9 0 :: bytes"
  have "overwrite ?b 0 ?v = ?v" by code_simp
  moreover have "gen_val (io_od (bw_io demo_world)) 0x2000 0 = Some ?v" "length ?v \<le> length ?b" "length ?v \<le> MAX_TRANSFER"
    "\<not> is_receiving_block (io_server (bw_io demo_world))" "length ?v div 7 + 2 \<le> length (bw_ctxs demo_world)"
    by (simp_all add: demo_values MAX_TRANSFER_def)
  note sdo_port_transparent [OF demo_dictionary demo_world_ready this]
  ultimately show ?thesis by auto
qed

section \<open>The SDO server\<close>

text \<open>
  C3. The server never panics and keeps its invariant: over a lawful dictionary, every
  eight-byte request in every context, every poll for a block segment and every timeout check
  returns; buffers, offsets, sequence numbers, the running CRC and the event queue stay in their
  ranges.
\<close>

theorem sdo_server_never_panics:
  assumes "object_dictionary ops val od_inv" and "wf_io od_inv N io"
  shows "(\<forall>req ctx. length req = 8 \<longrightarrow>
      (\<exists>ok io'. process_with_context N ops req ctx io = Some (ok, io') \<and> wf_io od_inv N io'))
    \<and> (\<forall>now. \<exists>r srv. poll_block_upload (io_server io) now = Some (r, srv) \<and> wf_server srv)
    \<and> (\<forall>now. wf_server (snd (check_timeout (io_server io) now)))"
proof -
  have "wf_server (io_server io)" using assms(2) by (simp add: wf_io_def)
  then show ?thesis
    using object_dictionary.process_with_context_wf [OF assms] poll_block_upload_wf check_timeout_wf
    unfolding returns_wf_def by metis
qed

theorem sdo_server_never_panics_witness:
  "\<exists>ok io'. process_with_context 16 demo_ops (replicate 8 0xFF) (demo_ctx Operational) demo_io = Some (ok, io')
     \<and> wf_io demo_inv 16 io'"
proof -
  have "wf_io demo_inv 16 demo_io" by (simp add: wf_io_def demo_live_inv)
  from sdo_server_never_panics [OF demo_dictionary this] show ?thesis by simp
qed

text \<open>
  C4. A request has one of two effects: it leaves the dictionary, the event queue and the commit
  flag alone, or it performs exactly one write that the download validation accepted, records it
  as committed and queues one event. In particular a committed PDO COB-ID has no reserved bits
  and collides neither with an SDO channel nor with SYNC, and a committed SYNC COB-ID is
  supported and collides with no other service of the node.
\<close>

theorem sdo_request_effect:
  assumes "object_dictionary ops val od_inv" and "od_inv (io_od io)"
    and "process_with_context N ops req ctx io = Some (ok, io')"
  shows "same_od io io' \<or> (\<exists>i s d. od_write ops (io_od io) i s d = (Inr (), io_od io')
      \<and> validate_download ops (io_od io) ctx i s d = Inr ()
      \<and> io_events io' = push_event N (io_events io) (sdo_event i s)
      \<and> committed_write (io_server io') = Some (i, s)
      \<and> (let raw = from_le_bytes d :: u32; cob = ucast (raw AND 0x7FF) :: u16 in
          (is_pdo_comm_param i \<and> s = 1 \<and> length d = 4 \<longrightarrow> raw AND 0x3FFFF800 = 0
             \<and> \<not> sdo_claims (ctx_cob_ids ctx) cob \<and> (cob = 0 \<or> cob \<noteq> ctx_sync_cob_id ctx))
        \<and> (i = 0x1005 \<and> s = 0 \<and> length d = 4 \<longrightarrow> is_supported_sync_cob_id raw
             \<and> \<not> sdo_claims (ctx_cob_ids ctx) cob \<and> \<not> reserved_claims (ctx_reserved_cob_ids ctx) cob)))"
proof -
  from process_with_context_step [OF assms(3)] consider "same_od io io'" | "commit_step N ops ctx io io'"
    by (auto simp: request_step_def)
  then show ?thesis
  proof cases
    case 2
    then obtain i s d r where w: "validate_download ops (io_od io) ctx i s d = Inr ()"
      "od_write ops (io_od io) i s d = (r, io_od io')"
      "if is_ok r then io_events io' = push_event N (io_events io) (sdo_event i s)
          \<and> committed_write (io_server io') = Some (i, s)
        else io_events io' = io_events io \<and> committed_write (io_server io') = committed_write (io_server io)"
      unfolding commit_step_def by blast
    show ?thesis
    proof (cases r)
      case (Inl e)
      then show ?thesis using w object_dictionary.write_refused [OF assms(1,2)] by (auto simp: same_od_def)
    next
      case (Inr u)
      then show ?thesis using w validate_download_ok [OF w(1)]
          validate_pdo_cob_id_write_ok [of "ctx_cob_ids ctx" "ctx_sync_cob_id ctx" i d]
          validate_sync_cob_id_write_ok [of "ctx_cob_ids ctx" "ctx_reserved_cob_ids ctx" d]
        by (intro disjI2 exI [of _ i] exI [of _ s] exI [of _ d]) (auto simp: Let_def)
    qed
  qed simp
qed

theorem sdo_request_effect_witness:
  "same_od demo_io (snd (the (process_with_context 16 demo_ops [0x40, 0x00, 0x20, 0, 0, 0, 0, 0] (demo_ctx Operational) demo_io)))"
proof -
  let ?req = "[0x40, 0x00, 0x20, 0, 0, 0, 0, 0] :: bytes"
  obtain ok io' where p: "process_with_context 16 demo_ops ?req (demo_ctx Operational) demo_io = Some (ok, io')"
    using object_dictionary.process_with_context_wf [OF demo_dictionary, of 16 demo_io ?req "demo_ctx Operational"]
    by (auto simp: returns_wf_def wf_io_def demo_live_inv)
  have "committed_write (io_server (snd (the (process_with_context 16 demo_ops ?req (demo_ctx Operational) demo_io)))) = None"
    by code_simp
  with p have "committed_write (io_server io') = None" by simp
  with sdo_request_effect [OF demo_dictionary _ p] p show ?thesis by (auto simp: demo_live_inv)
qed

text \<open>
  Whenever the server answers a request with an abort, no transfer is left active, so the
  next request starts afresh.
\<close>

theorem sdo_abort_ends_transfer:
  assumes "process_with_context N ops req ctx io = Some (True, io')" and "io_response io' ! 0 = 0x80"
  shows "transfer (io_server io') = None"
  using assms by (rule process_with_context_abort)

theorem sdo_abort_ends_transfer_witness:
  "\<exists>io'. process_with_context 16 demo_ops [0xE0, 0, 0, 0, 0, 0, 0, 0] (demo_ctx Operational) demo_io = Some (True, io')
     \<and> transfer (io_server io') = None"
proof -
  let ?req = "[0xE0, 0, 0, 0, 0, 0, 0, 0] :: bytes"
  let ?io = "set_transfer None (respond (encode_abort 0 0 InvalidCommandSpecifier) demo_io)"
  have "process_with_context 16 demo_ops ?req (demo_ctx Operational) demo_io = Some (True, ?io)"
    by (simp add: process_with_context_def dispatch_request_def Let_def ccs_val_def command_specifier_def
        parse_index_sub_def)
  with sdo_abort_ends_transfer [OF this] show ?thesis by simp
qed

text \<open>
  C29. In Operational, a request that starts a segmented, expedited or block download to a PDO
  configuration entry (0x1400 to 0x1BFF) is answered with abort 0x08000022, and the dictionary
  and the event queue are left as they are.
\<close>

theorem pdo_config_locked_in_operational:
  assumes "ctx_nmt_state ctx = Operational" and "parse_index_sub req = (i, s)"
    and "is_pdo_config_index i" and "\<not> is_receiving_block (io_server io)"
    and "command_specifier (req ! 0) = 1 \<or> command_specifier (req ! 0) = 6 \<and> req ! 0 AND 1 = 0"
  shows "process_with_context N ops req ctx io =
    Some (True, set_transfer None (respond (encode_abort i s DataTransferDeviceState) io))"
  using assms
  by (auto simp: process_with_context_def dispatch_request_def Let_def ccs_val_def
      handle_initiate_download_def handle_block_download_def initiate_block_download_def)

theorem pdo_config_locked_in_operational_witness:
  "process_with_context 16 demo_ops [0x23, 0x00, 0x18, 1, 0x85, 1, 0, 0] (demo_ctx Operational) demo_io =
    Some (True, set_transfer None (respond (encode_abort 0x1800 1 DataTransferDeviceState) demo_io))"
  by (rule pdo_config_locked_in_operational)
    (simp_all add: demo_ctx_def standalone_context_def parse_index_sub_def is_pdo_config_index_def
      command_specifier_def)

definition late_commit :: "bytes option option" where
  "late_commit = do {
     (_, io1) \<leftarrow> process_with_context 16 demo_ops [0x21, 0x00, 0x18, 1, 4, 0, 0, 0] (demo_ctx PreOperational) demo_io;
     (_, io2) \<leftarrow> process_with_context 16 demo_ops [0x07, 0x86, 1, 0, 0, 0, 0, 0] (demo_ctx Operational) io1;
     Some (gen_val (io_od io2) 0x1800 1)
   }"


section \<open>Process data\<close>

text \<open>
  A TPDO carries exactly its mapping: building the frame of a TPDO never panics, and the
  frame it returns has the PDO's identifier, the length of the mapping, and, from the first
  mapping to the last, the low bits of every mapped object's current content (zeros for dummy
  entries).
\<close>

theorem tpdo_payload_correct:
  assumes "object_dictionary ops val od_inv" and "od_inv od"
  shows "\<exists>r. build_pdo_frame ops pdo od = Some r \<and> (\<forall>f. r = Some f \<longrightarrow> wf_frame f
     \<and> raw_id f = tc_cob_id pdo \<and> mapping_bits (tc_mappings pdo) \<le> 64
     \<and> length (frame_data f) = bytes_for_bits (mapping_bits (tc_mappings pdo))
     \<and> packed (val od) (tc_mappings pdo) 0 (frame_data f))"
  using assms by (rule object_dictionary.build_pdo_frame_spec)

definition demo_tpdo :: tpdo_config where
  "demo_tpdo = tpdo_config_default\<lparr>tc_cob_id := 0x185, tc_transmission_type := 2, tc_enabled := True,
     tc_mappings := [\<lparr>pm_index = 0x2001, pm_subindex = 0, pm_bit_length = 16\<rparr>]\<rparr>"

theorem tpdo_payload_correct_witness:
  "\<exists>f. build_pdo_frame demo_ops demo_tpdo demo_live = Some (Some f) \<and> raw_id f = 0x185
     \<and> packed (gen_val demo_live) (tc_mappings demo_tpdo) 0 (frame_data f)"
proof -
  have "build_pdo_frame demo_ops demo_tpdo demo_live =
      Some (Some \<lparr>cf_id = 0x185, cf_dlc = 2, cf_data = [0x34, 0x12, 0, 0, 0, 0, 0, 0]\<rparr>)"
    by code_simp
  moreover have "tc_cob_id demo_tpdo = 0x185" by (simp add: demo_tpdo_def)
  ultimately show ?thesis using tpdo_payload_correct [OF demo_dictionary demo_live_inv, of demo_tpdo] by auto
qed


definition demo_rpdo :: rpdo_config where
  "demo_rpdo = rpdo_config_default\<lparr>rc_cob_id := 0x185, rc_enabled := True,
     rc_mappings := [\<lparr>pm_index = 0x3000, pm_subindex = 0, pm_bit_length = 16\<rparr>]\<rparr>"

definition demo_consumer :: gen_od where
  "demo_consumer = flatten False [\<lparr>de_index = 0x3000, de_name = ''setpoint'', de_kind = VarEntry
     \<lparr>vd_type = I16, vd_access = Rw, vd_pdo_mappable = True, vd_capacity = None, vd_default = None\<rparr>\<rparr>]"


text \<open>
  C27. A SYNC pulse sends exactly the due synchronous TPDOs, in slot order: a type-0 TPDO when an
  event was latched, a cyclic TPDO of type \<open>n\<close> on every \<open>n\<close>-th pulse (the pulses
  whose number is divisible by \<open>n\<close>), each sampled from the dictionary at the pulse.
\<close>

theorem tpdo_sync_schedule:
  assumes "object_dictionary ops val od_inv" and "od_inv od" and "wf_tpdo_engine e"
    and "i < length (te_pdos e)" "te_sync_counter e ! i = 0"
    and "tc_enabled (te_pdos e ! i)" "is_sync_cyclic (tc_transmission_type (te_pdos e ! i))"
  shows "tpdo_on_sync ops od (after_syncs k e) [] = Some (after_syncs (Suc k) e,
      concat (map (sync_frames ops od (after_syncs k e)) (te_slots e)))
    \<and> (sync_due (after_syncs k e) i \<longleftrightarrow> unat (tc_transmission_type (te_pdos e ! i)) dvd Suc k)"
proof -
  have "wf_tpdo_engine (after_syncs k e)" "te_pdos (after_syncs k e) = te_pdos e"
    using assms(3) by (simp_all add: after_syncs_fields)
  then show ?thesis
    using object_dictionary.tpdo_on_sync_spec [OF assms(1) _ assms(2), of "after_syncs k e"] sync_due_cyclic [OF assms(3-7)]
    by (simp add: synced_def)
qed

theorem tpdo_sync_schedule_witness:
  "sync_due (after_syncs 3 (tpdo_engine_new [demo_tpdo])) 0 \<and> \<not> sync_due (after_syncs 4 (tpdo_engine_new [demo_tpdo])) 0"
  using tpdo_sync_schedule [OF demo_dictionary demo_live_inv tpdo_engine_new_wf, of 0 "[demo_tpdo]" 3]
    tpdo_sync_schedule [OF demo_dictionary demo_live_inv tpdo_engine_new_wf, of 0 "[demo_tpdo]" 4]
  by (simp add: tpdo_engine_new_def demo_tpdo_def tpdo_config_default_def is_sync_cyclic_def)

text \<open>
  Synchronous RPDOs act only on SYNC: receiving a frame never panics, a frame for a
  synchronous RPDO changes neither the dictionary nor the events, and a SYNC pulse commits every
  buffered frame and leaves nothing pending.
\<close>

theorem rpdo_commits_on_sync:
  assumes "object_dictionary ops val od_inv" and "od_inv od" and "length ev \<le> Q" and "wf_rpdo_engine e"
  shows "(\<exists>c d e' od' ev'. rpdo_process Q ops f now e od ev = Some (c, d, e', od', ev') \<and> od_inv od'
      \<and> length ev' \<le> Q \<and> wf_rpdo_engine e'
      \<and> (\<forall>slot. find (\<lambda>i. rc_enabled (re_pdos e ! i) \<and> raw_id f = rc_cob_id (re_pdos e ! i)) (re_slots e) = Some slot
           \<and> raw_is_synchronous (rc_transmission_type (re_pdos e ! slot)) \<longrightarrow> c \<and> od' = od \<and> ev' = ev))
    \<and> (\<exists>od' ev' dr'. rpdo_on_sync Q ops e od ev = Some (discard_pending e, od', ev', dr') \<and> od_inv od' \<and> length ev' \<le> Q)"
proof (rule conjI)
  obtain c d e' od' ev' where r: "rpdo_process Q ops f now e od ev = Some (c, d, e', od', ev')" "od_inv od'"
      "length ev' \<le> Q" "wf_rpdo_engine e'"
    using object_dictionary.rpdo_process_total [OF assms] by blast
  with rpdo_process_synchronous [OF _ _ r(1)] show "\<exists>c d e' od' ev'. rpdo_process Q ops f now e od ev = Some (c, d, e', od', ev')
      \<and> od_inv od' \<and> length ev' \<le> Q \<and> wf_rpdo_engine e'
      \<and> (\<forall>slot. find (\<lambda>i. rc_enabled (re_pdos e ! i) \<and> raw_id f = rc_cob_id (re_pdos e ! i)) (re_slots e) = Some slot
           \<and> raw_is_synchronous (rc_transmission_type (re_pdos e ! slot)) \<longrightarrow> c \<and> od' = od \<and> ev' = ev)"
    by blast
qed (rule object_dictionary.rpdo_on_sync_spec [OF assms])

theorem rpdo_commits_on_sync_witness:
  "\<exists>od' ev' dr'. rpdo_on_sync 16 demo_ops (rpdo_engine_new [demo_rpdo]) demo_live [] =
     Some (discard_pending (rpdo_engine_new [demo_rpdo]), od', ev', dr')"
proof -
  have "length ([] :: od_event list) \<le> 16" by simp
  from rpdo_commits_on_sync [OF demo_dictionary demo_live_inv this rpdo_engine_new_wf] show ?thesis by blast
qed

end
